(* ===== verification/Prelude.thy ===== *)
theory Prelude
  imports Main "HOL-Library.Product_Lexorder"
begin

text \<open>
  Shared vocabulary of the development: results with errors, database tables as row lists
  with keyed lookup and update, the \<open>ORDER BY ... LIMIT 1\<close> query, and the types every
  component names. Nothing here is specific to one component of the program.
\<close>

named_theorems table_simps \<open>lookup and update of keyed row lists\<close>
named_theorems result_simps \<open>composition of results that may be errors\<close>

section \<open>Names of the basic types\<close>

text \<open>Instants are integers (microseconds); UUIDs and serial ids are natural numbers.\<close>

type_synonym time = int
type_synonym uuid = nat
type_synonym user_id = nat

section \<open>Results\<close>

text \<open>
  The exceptions of \<^verbatim>\<open>app/services/errors.py\<close>, one constructor per class the modelled code
  raises, and three that come from below it: a constraint violation the code does not catch, a
  Python \<open>ValueError\<close>, and a failure of a command or service the code drives.
\<close>

datatype error =
    CaelusErr string
  | IntegrityErr string
  | InProgressErr string
  | NotFoundErr string
  | ValidationErr string
  | ConflictErr string string
  | CodedValidationErr string string
  | CodedIntegrityErr string string
  | HostnameErr string
  | EncryptionErr string
  | DbIntegrityError string
  | PyValueError string
  | ExternalErr string

type_synonym 'a result = "error + 'a"

fun bindR :: "'e + 'a \<Rightarrow> ('a \<Rightarrow> 'e + 'b) \<Rightarrow> 'e + 'b" where
  "bindR (Inl e) f = Inl e"
| "bindR (Inr x) f = f x"

definition guardR :: "bool \<Rightarrow> 'e \<Rightarrow> 'e + unit" where
  "guardR b e = (if b then Inr () else Inl e)"

lemma bindR_Inr_iff [result_simps]:
  "bindR m f = Inr z \<longleftrightarrow> (\<exists>y. m = Inr y \<and> f y = Inr z)"
  by (cases m) auto

lemma bindR_Inl_iff [result_simps]:
  "bindR m f = Inl e \<longleftrightarrow> m = Inl e \<or> (\<exists>y. m = Inr y \<and> f y = Inl e)"
  by (cases m) auto

lemma bindRE:
  assumes "bindR m f = Inr z"
  obtains y where "m = Inr y" "f y = Inr z"
  using assms by (auto simp: bindR_Inr_iff)

lemma bindR2E:
  assumes "bindR m (\<lambda>(a, b). f a b) = Inr z"
  obtains a b where "m = Inr (a, b)" "f a b = Inr z"
  using assms by (auto simp: bindR_Inr_iff)

lemma guardR_Inr_iff [result_simps]: "guardR b e = Inr u \<longleftrightarrow> b"
  by (simp add: guardR_def)

lemma guardR_Inl_iff [result_simps]: "guardR b e = Inl e' \<longleftrightarrow> \<not> b \<and> e' = e"
  by (auto simp: guardR_def)

lemma bindR_guardR [simp]: "bindR (guardR b e) f = (if b then f () else Inl e)"
  by (simp add: guardR_def)

text \<open>A loop whose body may raise: it stops at the first error.\<close>

fun foldR :: "('a \<Rightarrow> 's \<Rightarrow> 'e + 's) \<Rightarrow> 'a list \<Rightarrow> 's \<Rightarrow> 'e + 's" where
  "foldR f [] s = Inr s"
| "foldR f (x # xs) s = bindR (f x s) (foldR f xs)"

lemma foldR_append: "foldR f (xs @ ys) s = bindR (foldR f xs s) (foldR f ys)"
  by (induction xs arbitrary: s) (auto split: sum.splits, metis bindR.simps sum.exhaust)

lemma foldR_invariant:
  assumes step: "\<And>x s s'. x \<in> set xs \<Longrightarrow> P s \<Longrightarrow> f x s = Inr s' \<Longrightarrow> P s'"
    and start: "P s" and ok: "foldR f xs s = Inr s'"
  shows "P s'"
  using assms
proof (induction xs arbitrary: s)
  case Nil
  then show ?case by simp
next
  case (Cons x xs)
  then obtain t where "f x s = Inr t" "foldR f xs t = Inr s'"
    by (auto simp: result_simps)
  with Cons show ?case by (metis list.set_intros)
qed

fun mapR :: "('a \<Rightarrow> 'e + 'b) \<Rightarrow> 'a list \<Rightarrow> 'e + 'b list" where
  "mapR f [] = Inr []"
| "mapR f (x # xs) = bindR (f x) (\<lambda>y. bindR (mapR f xs) (\<lambda>ys. Inr (y # ys)))"

section \<open>Tables\<close>

text \<open>
  A database table is the list of its rows in insertion order. \<open>row_get\<close> is a lookup by
  key, \<open>row_upd\<close> an \<open>UPDATE ... WHERE key = k\<close>.
\<close>

definition row_get :: "('r \<Rightarrow> 'k) \<Rightarrow> 'k \<Rightarrow> 'r list \<Rightarrow> 'r option" where
  "row_get key k rs = find (\<lambda>r. key r = k) rs"

definition row_upd :: "('r \<Rightarrow> 'k) \<Rightarrow> 'k \<Rightarrow> ('r \<Rightarrow> 'r) \<Rightarrow> 'r list \<Rightarrow> 'r list" where
  "row_upd key k f rs = map (\<lambda>r. if key r = k then f r else r) rs"

abbreviation keyed :: "('r \<Rightarrow> 'k) \<Rightarrow> 'r list \<Rightarrow> bool" where
  "keyed key rs \<equiv> distinct (map key rs)"

lemma keyed_unique: "keyed key rs \<Longrightarrow> r \<in> set rs \<Longrightarrow> q \<in> set rs \<Longrightarrow> key r = key q \<Longrightarrow> r = q"
  by (simp add: distinct_map inj_on_def)

lemma row_get_Nil [table_simps]: "row_get key k [] = None"
  by (simp add: row_get_def)

lemma row_get_Cons [table_simps]:
  "row_get key k (r # rs) = (if key r = k then Some r else row_get key k rs)"
  by (simp add: row_get_def)

lemma row_get_SomeD: "row_get key k rs = Some r \<Longrightarrow> r \<in> set rs \<and> key r = k"
  by (induction rs) (auto simp: table_simps split: if_splits)

lemma row_get_None_iff: "row_get key k rs = None \<longleftrightarrow> k \<notin> key ` set rs"
  by (induction rs) (auto simp: table_simps)

lemma row_get_keyed:
  "keyed key rs \<Longrightarrow> row_get key k rs = Some r \<longleftrightarrow> r \<in> set rs \<and> key r = k"
  by (induction rs) (auto simp: table_simps image_iff)

lemma row_get_append [table_simps]:
  "row_get key k (xs @ ys) = (case row_get key k xs of None \<Rightarrow> row_get key k ys | Some r \<Rightarrow> Some r)"
  by (induction xs) (auto simp: table_simps)

lemma row_upd_Nil [table_simps]: "row_upd key k f [] = []"
  by (simp add: row_upd_def)

lemma row_upd_Cons [table_simps]:
  "row_upd key k f (r # rs) = (if key r = k then f r else r) # row_upd key k f rs"
  by (simp add: row_upd_def)

lemma set_row_upd:
  "set (row_upd key k f rs) = {r \<in> set rs. key r \<noteq> k} \<union> f ` {r \<in> set rs. key r = k}"
  by (auto simp: row_upd_def)

lemma in_row_updE:
  assumes "r \<in> set (row_upd key k f rs)"
  obtains (same) "r \<in> set rs" "key r \<noteq> k" | (changed) q where "q \<in> set rs" "key q = k" "r = f q"
  using assms by (auto simp: set_row_upd)

lemma map_key_row_upd [table_simps]:
  assumes "\<And>r. key' (f r) = key' r"
  shows "map key' (row_upd key k f rs) = map key' rs"
  using assms by (simp add: row_upd_def)

lemma row_get_upd_same:
  assumes "\<And>r. key (f r) = key r"
  shows "row_get key k (row_upd key k f rs) = map_option f (row_get key k rs)"
  using assms by (induction rs) (auto simp: table_simps)

lemma row_get_upd_other:
  assumes "\<And>r. key (f r) = key r" "k' \<noteq> k"
  shows "row_get key k' (row_upd key k f rs) = row_get key k' rs"
  using assms by (induction rs) (auto simp: table_simps)

lemma row_upd_absent: "k \<notin> key ` set rs \<Longrightarrow> row_upd key k f rs = rs"
  by (induction rs) (auto simp: table_simps)

lemma row_upd_id: "(\<And>r. r \<in> set rs \<Longrightarrow> key r = k \<Longrightarrow> f r = r) \<Longrightarrow> row_upd key k f rs = rs"
  by (induction rs) (auto simp: table_simps)

lemma row_upd_filter_length:
  assumes "keyed key rs" "j \<in> set rs" "P j" "\<not> P (f j)"
  shows "length (filter P rs) = Suc (length (filter P (row_upd key (key j) f rs)))"
  using assms
proof (induction rs)
  case (Cons r rs)
  show ?case
  proof (cases "r = j")
    case True
    with Cons.prems have "row_upd key (key j) f rs = rs" by (auto intro: row_upd_absent)
    with True Cons.prems show ?thesis by (simp add: table_simps)
  next
    case False
    with Cons.prems have "key r \<noteq> key j" by auto
    with False Cons show ?thesis by (simp add: table_simps)
  qed
qed simp

section \<open>ORDER BY ... LIMIT 1\<close>

text \<open>
  The first row of a selection under an order: \<open>None\<close> when the selection is empty. The
  sort is stable, as is irrelevant wherever the order key ends in the primary key.
\<close>

definition first_by :: "('r \<Rightarrow> 'o::linorder) \<Rightarrow> 'r list \<Rightarrow> 'r option" where
  "first_by ord rs = (case sort_key ord rs of [] \<Rightarrow> None | r # _ \<Rightarrow> Some r)"

lemma first_by_None_iff [simp]: "first_by ord rs = None \<longleftrightarrow> rs = []"
  by (auto simp: first_by_def split: list.splits) (metis length_sort list.size(3) length_0_conv)

lemma first_by_Nil [simp]: "first_by ord [] = None"
  by simp

lemma first_by_in: "first_by ord rs = Some r \<Longrightarrow> r \<in> set rs"
proof -
  assume "first_by ord rs = Some r"
  then obtain ys where "sort_key ord rs = r # ys"
    by (auto simp: first_by_def split: list.splits)
  then have "r \<in> set (sort_key ord rs)" by simp
  then show ?thesis by simp
qed

lemma first_by_least:
  assumes "first_by ord rs = Some r" "q \<in> set rs"
  shows "ord r \<le> ord q"
proof -
  from assms(1) obtain ys where ys: "sort_key ord rs = r # ys"
    by (auto simp: first_by_def split: list.splits)
  have "sorted (map ord (r # ys))" by (metis sorted_sort_key ys)
  moreover have "q \<in> set (r # ys)" by (metis assms(2) set_sort ys)
  ultimately show ?thesis by auto
qed

end
