(* ===== verification/PyStr.thy ===== *)
theory PyStr
  imports Prelude "HOL-Library.Char_ord" "HOL-Library.List_Lexorder"
begin

text \<open>
  Python strings and regular expressions, as far as the modelled code uses them.

  A Python string is a list of code points. The model's \<open>string\<close> holds the code points below
  256 (Latin-1); on those, \<open>lower\<close>, \<open>strip\<close>, \<open>isdigit\<close> and the UTF-8 length below are the
  ones CPython computes. Regular expressions are matched by derivatives, so that the patterns
  of the source are transcribed literally; \<open>re.fullmatch\<close> and \<open>re.match\<close> with a trailing
  \<open>$\<close> are told apart, because \<open>$\<close> also matches before a final newline.
\<close>

section \<open>Characters\<close>

definition cp :: "char \<Rightarrow> nat" where
  "cp c = of_char c"

definition in_range :: "char \<Rightarrow> char \<Rightarrow> char \<Rightarrow> bool" where
  "in_range lo hi c \<longleftrightarrow> cp lo \<le> cp c \<and> cp c \<le> cp hi"

definition is_lower :: "char \<Rightarrow> bool" where
  "is_lower c \<longleftrightarrow> in_range (CHR ''a'') (CHR ''z'') c"

definition is_upper :: "char \<Rightarrow> bool" where
  "is_upper c \<longleftrightarrow> in_range (CHR ''A'') (CHR ''Z'') c"

definition is_dec :: "char \<Rightarrow> bool" where
  "is_dec c \<longleftrightarrow> in_range (CHR ''0'') (CHR ''9'') c"

text \<open>\<^verbatim>\<open>str.lower\<close> on Latin-1: ASCII letters and U+00C0..U+00DE without U+00D7.\<close>

definition lower_char :: "char \<Rightarrow> char" where
  "lower_char c =
     (let n = cp c in
      if (65 \<le> n \<and> n \<le> 90) \<or> (192 \<le> n \<and> n \<le> 222 \<and> n \<noteq> 215) then char_of (n + 32) else c)"

definition lower :: "string \<Rightarrow> string" where
  "lower s = map lower_char s"

text \<open>\<^verbatim>\<open>str.isspace\<close> on Latin-1, the characters \<^verbatim>\<open>str.strip()\<close> removes.\<close>

definition is_space :: "char \<Rightarrow> bool" where
  "is_space c \<longleftrightarrow> (let n = cp c in (9 \<le> n \<and> n \<le> 13) \<or> (28 \<le> n \<and> n \<le> 32) \<or> n = 133 \<or> n = 160)"

text \<open>\<^verbatim>\<open>str.isdigit\<close> also holds of the superscripts U+00B2, U+00B3 and U+00B9.\<close>

definition is_digit_py :: "char \<Rightarrow> bool" where
  "is_digit_py c \<longleftrightarrow> is_dec c \<or> cp c = 178 \<or> cp c = 179 \<or> cp c = 185"

lemma cp_char_of: "n < 256 \<Longrightarrow> cp (char_of n) = n"
  by (simp add: cp_def)

lemma cp_lt: "cp c < 256"
  by (cases c) (simp add: cp_def)

lemma lower_char_idem [simp]: "lower_char (lower_char c) = lower_char c"
proof -
  have "cp (char_of (cp c + 32)) = cp c + 32" if "cp c \<le> 222"
    using that by (simp add: cp_char_of)
  then show ?thesis by (auto simp: lower_char_def Let_def)
qed

lemma lower_idem [simp]: "lower (lower s) = lower s"
  by (simp add: lower_def)

lemma length_lower [simp]: "length (lower s) = length s"
  by (simp add: lower_def)

lemma lower_append: "lower (s @ t) = lower s @ lower t"
  by (simp add: lower_def)

lemma lower_char_id: "\<not> is_upper c \<Longrightarrow> cp c < 192 \<Longrightarrow> lower_char c = c"
  by (auto simp: lower_char_def is_upper_def in_range_def cp_def)

section \<open>String operations\<close>

definition starts_with :: "string \<Rightarrow> string \<Rightarrow> bool" where
  "starts_with s p \<longleftrightarrow> take (length p) s = p"

definition ends_with :: "string \<Rightarrow> string \<Rightarrow> bool" where
  "ends_with s p \<longleftrightarrow> length p \<le> length s \<and> drop (length s - length p) s = p"

text \<open>\<^verbatim>\<open>s.lstrip(chars)\<close>, \<^verbatim>\<open>s.rstrip(chars)\<close>, \<^verbatim>\<open>s.strip(chars)\<close>, the set as a predicate.\<close>

definition lstrip :: "(char \<Rightarrow> bool) \<Rightarrow> string \<Rightarrow> string" where
  "lstrip P s = dropWhile P s"

definition rstrip :: "(char \<Rightarrow> bool) \<Rightarrow> string \<Rightarrow> string" where
  "rstrip P s = rev (dropWhile P (rev s))"

definition strip :: "(char \<Rightarrow> bool) \<Rightarrow> string \<Rightarrow> string" where
  "strip P s = rstrip P (lstrip P s)"

text \<open>\<^verbatim>\<open>s.split(c)\<close> on one character: never empty.\<close>

fun split_on :: "char \<Rightarrow> string \<Rightarrow> string list" where
  "split_on d [] = [[]]"
| "split_on d (c # cs) =
     (if c = d then [] # split_on d cs
      else (case split_on d cs of [] \<Rightarrow> [[c]] | w # ws \<Rightarrow> (c # w) # ws))"

text \<open>\<^verbatim>\<open>s.partition(c)[0]\<close>, and \<^verbatim>\<open>s.rpartition(c)\<close> as its head and tail.\<close>

definition before_first :: "char \<Rightarrow> string \<Rightarrow> string" where
  "before_first d s = takeWhile (\<lambda>c. c \<noteq> d) s"

definition after_last :: "char \<Rightarrow> string \<Rightarrow> string" where
  "after_last d s = rev (takeWhile (\<lambda>c. c \<noteq> d) (rev s))"

definition before_last :: "char \<Rightarrow> string \<Rightarrow> string" where
  "before_last d s = rev (drop 1 (dropWhile (\<lambda>c. c \<noteq> d) (rev s)))"

definition contains_str :: "string \<Rightarrow> string \<Rightarrow> bool" where
  "contains_str p s \<longleftrightarrow> (\<exists>i \<in> set [0..<Suc (length s)]. take (length p) (drop i s) = p)"

fun join :: "string \<Rightarrow> string list \<Rightarrow> string" where
  "join sep [] = []"
| "join sep [w] = w"
| "join sep (w # ws) = w @ sep @ join sep ws"

text \<open>\<^verbatim>\<open>len(s.encode("utf-8"))\<close> on Latin-1: two bytes from U+0080 on.\<close>

definition utf8_len :: "string \<Rightarrow> nat" where
  "utf8_len s = sum_list (map (\<lambda>c. if cp c < 128 then 1 else 2) s)"

text \<open>\<^verbatim>\<open>str(n)\<close> for a natural number, and \<^verbatim>\<open>int(s)\<close> on ASCII digits.\<close>

fun nat_str :: "nat \<Rightarrow> string" where
  "nat_str n = (if n < 10 then [char_of (48 + n)] else nat_str (n div 10) @ [char_of (48 + n mod 10)])"

declare nat_str.simps [simp del]

definition nat_of_dec :: "string \<Rightarrow> nat" where
  "nat_of_dec s = foldl (\<lambda>a c. 10 * a + (cp c - 48)) 0 s"

definition int_str :: "int \<Rightarrow> string" where
  "int_str i = (if i < 0 then CHR ''-'' # nat_str (nat (- i)) else nat_str (nat i))"

lemma nat_of_dec_append1: "nat_of_dec (s @ [c]) = 10 * nat_of_dec s + (cp c - 48)"
  by (simp add: nat_of_dec_def)

lemma nat_str_roundtrip: "nat_of_dec (nat_str n) = n"
proof (induction n rule: nat_str.induct)
  case (1 n)
  show ?case
  proof (cases "n < 10")
    case True
    then show ?thesis by (subst nat_str.simps) (simp add: nat_of_dec_def cp_char_of)
  next
    case False
    with 1 have "nat_of_dec (nat_str (n div 10)) = n div 10" by simp
    with False show ?thesis
      by (subst nat_str.simps) (simp add: nat_of_dec_append1 cp_char_of)
  qed
qed

lemma nat_str_inj: "nat_str m = nat_str n \<Longrightarrow> m = n"
  by (metis nat_str_roundtrip)

lemma nat_str_0: "nat_str 0 = ''0''"
  by code_simp

lemma nat_str_nonempty [simp]: "nat_str n \<noteq> []"
  by (subst nat_str.simps) simp

lemma nat_str_digits: "\<forall>c \<in> set (nat_str n). is_dec c"
proof (induction n rule: nat_str.induct)
  case (1 n)
  have d: "is_dec (char_of (48 + d))" if "d < 10" for d :: nat
    using that by (simp add: is_dec_def in_range_def cp_def)
  show ?case
  proof (cases "n < 10")
    case True
    then show ?thesis by (subst nat_str.simps) (simp add: d)
  next
    case False
    with 1 show ?thesis by (subst nat_str.simps) (simp add: d)
  qed
qed

lemma split_on_nonempty [simp]: "split_on d s \<noteq> []"
  by (cases s) (auto split: list.splits)

lemma split_on_join: "join [d] (split_on d s) = s"
proof (induction s)
  case Nil
  then show ?case by simp
next
  case (Cons c s)
  obtain w ws where w: "split_on d s = w # ws" by (cases "split_on d s") auto
  with Cons show ?case by (cases ws) auto
qed

lemma split_on_no_sep: "w \<in> set (split_on d s) \<Longrightarrow> d \<notin> set w"
  by (induction s arbitrary: w) (fastforce split: if_splits list.splits)+

lemma last_part: "d \<in> set s \<Longrightarrow> before_last d s @ d # after_last d s = s"
proof -
  assume "d \<in> set s"
  then have d: "d \<in> set (rev s)" by simp
  have "takeWhile (\<lambda>c. c \<noteq> d) (rev s) @ dropWhile (\<lambda>c. c \<noteq> d) (rev s) = rev s" by simp
  moreover have "dropWhile (\<lambda>c. c \<noteq> d) (rev s) = d # drop 1 (dropWhile (\<lambda>c. c \<noteq> d) (rev s))"
    using d hd_dropWhile[of "\<lambda>c. c \<noteq> d" "rev s"]
    by (cases "dropWhile (\<lambda>c. c \<noteq> d) (rev s)") auto
  ultimately have "rev s = takeWhile (\<lambda>c. c \<noteq> d) (rev s) @ d # drop 1 (dropWhile (\<lambda>c. c \<noteq> d) (rev s))"
    by metis
  then have "s = rev (takeWhile (\<lambda>c. c \<noteq> d) (rev s) @ d # drop 1 (dropWhile (\<lambda>c. c \<noteq> d) (rev s)))"
    by (metis rev_rev_ident)
  then show ?thesis by (simp add: before_last_def after_last_def)
qed

lemma after_last_no_sep: "d \<notin> set (after_last d s)"
  by (auto simp: after_last_def dest: set_takeWhileD)

section \<open>UUIDs\<close>

text \<open>\<^verbatim>\<open>str(uuid)\<close>: 32 hexadecimal digits in groups of 8, 4, 4, 4 and 12.\<close>

definition hex_digit :: "nat \<Rightarrow> char" where
  "hex_digit d = (if d < 10 then char_of (48 + d) else char_of (87 + d))"

fun hex_pad :: "nat \<Rightarrow> nat \<Rightarrow> string" where
  "hex_pad 0 n = []"
| "hex_pad (Suc k) n = hex_pad k (n div 16) @ [hex_digit (n mod 16)]"

definition uuid_str :: "nat \<Rightarrow> string" where
  "uuid_str n =
     (let h = hex_pad 32 n
      in take 8 h @ ''-'' @ take 4 (drop 8 h) @ ''-'' @ take 4 (drop 12 h) @ ''-'' @
         take 4 (drop 16 h) @ ''-'' @ drop 20 h)"

text \<open>What stripping leaves.\<close>

lemma strip_ends:
  assumes "strip P s \<noteq> []"
  shows "\<not> P (hd (strip P s))" "\<not> P (last (strip P s))"
proof -
  let ?l = "dropWhile P s"
  have r: "strip P s = rev (dropWhile P (rev ?l))" by (simp add: strip_def rstrip_def lstrip_def)
  with assms have n: "dropWhile P (rev ?l) \<noteq> []" by auto
  show "\<not> P (last (strip P s))" unfolding r using hd_dropWhile[OF n] n by (simp add: last_rev)
  have "?l \<noteq> []" by (metis n dropWhile.simps(1) rev.simps(1))
  then have h: "\<not> P (hd ?l)" by (rule hd_dropWhile)
  have "?l = strip P s @ rev (takeWhile P (rev ?l))"
    unfolding r by (metis rev_append rev_rev_ident takeWhile_dropWhile_id)
  then have "hd ?l = hd (strip P s)" using assms by (metis hd_append2)
  with h show "\<not> P (hd (strip P s))" by simp
qed

lemma strip_subset: "set (strip P s) \<subseteq> set s"
  unfolding strip_def rstrip_def lstrip_def using set_dropWhileD[of _ P] by (metis set_rev subsetI)

lemma length_strip: "length (strip P s) \<le> length s"
  unfolding strip_def rstrip_def lstrip_def
  by (metis length_dropWhile_le length_rev order_trans)

end
