(* ===== verification/Rx.thy ===== *)
theory Rx
  imports PyStr
begin

text \<open>
  Regular expressions by derivatives, executable, with the language they denote. The patterns
  of the source are written with these constructors; \<open>re_fullmatch\<close> is Python's
  \<^verbatim>\<open>re.fullmatch\<close> and \<open>re_match_end\<close> is \<^verbatim>\<open>re.match\<close> of a pattern that ends in \<^verbatim>\<open>$\<close>.
\<close>

named_theorems rx_lang \<open>languages of the derived regular expressions\<close>

datatype rx =
    RNone
  | REps
  | RCls "char \<Rightarrow> bool"
  | RSeq rx rx
  | RAlt rx rx
  | RStar rx

fun lang :: "rx \<Rightarrow> string set" where
  "lang RNone = {}"
| "lang REps = {[]}"
| "lang (RCls P) = {[c] |c. P c}"
| "lang (RSeq r s) = {u @ v |u v. u \<in> lang r \<and> v \<in> lang s}"
| "lang (RAlt r s) = lang r \<union> lang s"
| "lang (RStar r) = {concat ws |ws. set ws \<subseteq> lang r}"

fun nullable :: "rx \<Rightarrow> bool" where
  "nullable RNone = False"
| "nullable REps = True"
| "nullable (RCls P) = False"
| "nullable (RSeq r s) = (nullable r \<and> nullable s)"
| "nullable (RAlt r s) = (nullable r \<or> nullable s)"
| "nullable (RStar r) = True"

text \<open>Smart constructors keep the derivatives small.\<close>

fun mk_seq :: "rx \<Rightarrow> rx \<Rightarrow> rx" where
  "mk_seq RNone s = RNone"
| "mk_seq REps s = s"
| "mk_seq r s = RSeq r s"

fun mk_alt :: "rx \<Rightarrow> rx \<Rightarrow> rx" where
  "mk_alt RNone s = s"
| "mk_alt r RNone = r"
| "mk_alt r s = RAlt r s"

fun deriv :: "char \<Rightarrow> rx \<Rightarrow> rx" where
  "deriv c RNone = RNone"
| "deriv c REps = RNone"
| "deriv c (RCls P) = (if P c then REps else RNone)"
| "deriv c (RSeq r s) =
     (if nullable r then mk_alt (mk_seq (deriv c r) s) (deriv c s) else mk_seq (deriv c r) s)"
| "deriv c (RAlt r s) = mk_alt (deriv c r) (deriv c s)"
| "deriv c (RStar r) = mk_seq (deriv c r) (RStar r)"

fun re_fullmatch :: "rx \<Rightarrow> string \<Rightarrow> bool" where
  "re_fullmatch r [] = nullable r"
| "re_fullmatch r (c # cs) = re_fullmatch (deriv c r) cs"

definition newline :: char where
  "newline = char_of (10::nat)"

definition re_match_end :: "rx \<Rightarrow> string \<Rightarrow> bool" where
  "re_match_end r s \<longleftrightarrow>
     re_fullmatch r s \<or> (s \<noteq> [] \<and> last s = newline \<and> re_fullmatch r (butlast s))"

section \<open>The matcher decides the language\<close>

lemma nullable_lang: "nullable r \<longleftrightarrow> [] \<in> lang r"
  by (induction r) (auto intro: exI[of _ "[]"])

lemma lang_mk_seq [simp]: "lang (mk_seq r s) = lang (RSeq r s)"
  by (cases r) auto

lemma lang_mk_alt [simp]: "lang (mk_alt r s) = lang (RAlt r s)"
  by (cases "(r, s)" rule: mk_alt.cases) auto

lemma star_Cons:
  "c # w \<in> lang (RStar r) \<longleftrightarrow> (\<exists>u v. w = u @ v \<and> c # u \<in> lang r \<and> v \<in> lang (RStar r))"
proof
  assume "c # w \<in> lang (RStar r)"
  then obtain ws where ws: "c # w = concat ws" "set ws \<subseteq> lang r" by auto
  then show "\<exists>u v. w = u @ v \<and> c # u \<in> lang r \<and> v \<in> lang (RStar r)"
  proof (induction ws)
    case Nil
    then show ?case by simp
  next
    case (Cons x ws)
    show ?case
    proof (cases x)
      case Nil
      with Cons show ?thesis by auto
    next
      case (Cons d u)
      with Cons.prems have "w = u @ concat ws" "c # u \<in> lang r" "set ws \<subseteq> lang r" by auto
      then show ?thesis by auto
    qed
  qed
next
  assume "\<exists>u v. w = u @ v \<and> c # u \<in> lang r \<and> v \<in> lang (RStar r)"
  then obtain u ws where "w = u @ concat ws" "c # u \<in> lang r" "set ws \<subseteq> lang r" by auto
  then have "c # w = concat ((c # u) # ws) \<and> set ((c # u) # ws) \<subseteq> lang r" by auto
  then show "c # w \<in> lang (RStar r)" unfolding lang.simps by blast
qed

lemma seq_Cons:
  "c # w \<in> lang (RSeq r s) \<longleftrightarrow>
     (\<exists>u v. w = u @ v \<and> c # u \<in> lang r \<and> v \<in> lang s) \<or> ([] \<in> lang r \<and> c # w \<in> lang s)"
  by (auto simp: Cons_eq_append_conv)

lemma deriv_lang: "w \<in> lang (deriv c r) \<longleftrightarrow> c # w \<in> lang r"
proof (induction r arbitrary: w)
  case (RSeq r s)
  then show ?case unfolding seq_Cons by (auto simp: nullable_lang)
next
  case (RStar r)
  then show ?case unfolding star_Cons by auto
qed auto

theorem re_fullmatch_lang: "re_fullmatch r s \<longleftrightarrow> s \<in> lang r"
  by (induction s arbitrary: r) (simp_all add: nullable_lang deriv_lang)

lemma re_match_end_lang:
  "re_match_end r s \<longleftrightarrow> s \<in> lang r \<or> (\<exists>t. s = t @ [newline] \<and> t \<in> lang r)"
  by (auto simp: re_match_end_def re_fullmatch_lang) (metis append_butlast_last_id)

section \<open>Derived patterns\<close>

fun rx_upto :: "nat \<Rightarrow> rx \<Rightarrow> rx" where
  "rx_upto 0 r = REps"
| "rx_upto (Suc n) r = RAlt REps (RSeq r (rx_upto n r))"

fun rx_exactly :: "nat \<Rightarrow> rx \<Rightarrow> rx" where
  "rx_exactly 0 r = REps"
| "rx_exactly (Suc n) r = RSeq r (rx_exactly n r)"

text \<open>\<^verbatim>\<open>r{m,n}\<close>, \<^verbatim>\<open>r+\<close>, \<^verbatim>\<open>r?\<close> and a literal.\<close>

definition rx_rep :: "nat \<Rightarrow> nat \<Rightarrow> rx \<Rightarrow> rx" where
  "rx_rep m n r = RSeq (rx_exactly m r) (rx_upto (n - m) r)"

definition rx_plus :: "rx \<Rightarrow> rx" where
  "rx_plus r = RSeq r (RStar r)"

definition rx_opt :: "rx \<Rightarrow> rx" where
  "rx_opt r = RAlt r REps"

fun rx_lit :: "string \<Rightarrow> rx" where
  "rx_lit [] = REps"
| "rx_lit (c # cs) = RSeq (RCls (\<lambda>d. d = c)) (rx_lit cs)"

lemma Nil_in_seq_cls: "[] \<notin> lang (RSeq (RCls P) r)"
  by auto

lemma Cons_in_seq_cls: "c # w \<in> lang (RSeq (RCls P) r) \<longleftrightarrow> P c \<and> w \<in> lang r"
  unfolding seq_Cons by auto

lemma lang_cls_Cons:
  "lang (RSeq (RCls P) r) = {c # w |c w. P c \<and> w \<in> lang r}"
  by (auto simp: Cons_in_seq_cls simp del: lang.simps(4)) (auto simp: Cons_eq_append_conv)

lemma lang_upto_cls [rx_lang]:
  "lang (rx_upto n (RCls P)) = {s. length s \<le> n \<and> (\<forall>c \<in> set s. P c)}"
proof (induction n)
  case 0
  then show ?case by auto
next
  case (Suc n)
  have "s \<in> lang (rx_upto (Suc n) (RCls P)) \<longleftrightarrow> length s \<le> Suc n \<and> (\<forall>c \<in> set s. P c)" for s
    unfolding rx_upto.simps using Suc by (cases s) (auto simp: Cons_in_seq_cls Nil_in_seq_cls simp del: lang.simps(4))
  then show ?case by blast
qed

lemma lang_exactly_cls [rx_lang]:
  "lang (rx_exactly n (RCls P)) = {s. length s = n \<and> (\<forall>c \<in> set s. P c)}"
proof (induction n)
  case 0
  then show ?case by auto
next
  case (Suc n)
  have "s \<in> lang (rx_exactly (Suc n) (RCls P)) \<longleftrightarrow> length s = Suc n \<and> (\<forall>c \<in> set s. P c)" for s
    unfolding rx_exactly.simps using Suc by (cases s) (auto simp: Cons_in_seq_cls Nil_in_seq_cls simp del: lang.simps(4))
  then show ?case by blast
qed

lemma lang_rep_cls [rx_lang]:
  assumes "m \<le> n"
  shows "lang (rx_rep m n (RCls P)) = {s. m \<le> length s \<and> length s \<le> n \<and> (\<forall>c \<in> set s. P c)}"
    (is "?L = ?R")
proof
  show "?L \<subseteq> ?R" using assms by (auto simp: rx_rep_def rx_lang)
  show "?R \<subseteq> ?L"
  proof
    fix s
    assume s: "s \<in> ?R"
    then have "s = take m s @ drop m s" "take m s \<in> lang (rx_exactly m (RCls P))"
      "drop m s \<in> lang (rx_upto (n - m) (RCls P))"
      using assms by (auto simp: rx_lang dest: in_set_takeD in_set_dropD)
    then show "s \<in> ?L" unfolding rx_rep_def lang.simps by blast
  qed
qed

lemma lang_star_cls [rx_lang]: "lang (RStar (RCls P)) = {s. \<forall>c \<in> set s. P c}"
proof -
  have "s \<in> lang (RStar (RCls P)) \<longleftrightarrow> (\<forall>c \<in> set s. P c)" for s
  proof (induction s)
    case Nil
    then show ?case by (auto intro: exI[of _ "[]"])
  next
    case (Cons c s)
    then show ?case unfolding star_Cons by auto
  qed
  then show ?thesis by blast
qed

lemma lang_plus_cls [rx_lang]: "lang (rx_plus (RCls P)) = {s. s \<noteq> [] \<and> (\<forall>c \<in> set s. P c)}"
proof -
  have "s \<in> lang (rx_plus (RCls P)) \<longleftrightarrow> s \<noteq> [] \<and> (\<forall>c \<in> set s. P c)" for s
    unfolding rx_plus_def lang_cls_Cons lang_star_cls by (cases s) auto
  then show ?thesis by blast
qed

lemma lang_opt [rx_lang]: "lang (rx_opt r) = insert [] (lang r)"
  by (auto simp: rx_opt_def)

lemma lang_lit [rx_lang]: "lang (rx_lit s) = {s}"
  by (induction s) auto

text \<open>
  The shape of a DNS label and of its relatives: one end character, optionally followed by a
  middle and another end character.
\<close>

definition bounded_by :: "(char \<Rightarrow> bool) \<Rightarrow> (char \<Rightarrow> bool) \<Rightarrow> string \<Rightarrow> bool" where
  "bounded_by E M s \<longleftrightarrow> s \<noteq> [] \<and> E (hd s) \<and> E (last s) \<and> (\<forall>c \<in> set s. M c)"

lemma lang_bounded:
  assumes em: "\<And>c. E c \<Longrightarrow> M c" and L: "lang m = {w. Q w \<and> (\<forall>c \<in> set w. M c)}"
  shows "s \<in> lang (RSeq (RCls E) (rx_opt (RSeq m (RCls E)))) \<longleftrightarrow>
     bounded_by E M s \<and> (length s = 1 \<or> Q (butlast (tl s)))" (is "?l \<longleftrightarrow> ?r")
proof
  assume ?l
  then obtain c t where s: "s = c # t" "E c" "t \<in> lang (rx_opt (RSeq m (RCls E)))"
    by (auto simp: lang_cls_Cons)
  then consider "t = []" | w d where "t = w @ [d]" "w \<in> lang m" "E d"
    by (auto simp: rx_lang)
  then show ?r using s em by cases (auto simp: bounded_by_def L)
next
  assume r: ?r
  then obtain c t where s: "s = c # t" "E c" by (cases s) (auto simp: bounded_by_def)
  show ?l
  proof (cases t rule: rev_cases)
    case Nil
    with s show ?thesis by (auto simp: rx_lang)
  next
    case (snoc w d)
    with r s have "w \<in> lang m" "E d" by (auto simp: bounded_by_def L)
    with s snoc have "t \<in> lang (rx_opt (RSeq m (RCls E)))" by (auto simp: rx_lang)
    with s show ?thesis by (simp add: Cons_in_seq_cls del: lang.simps)
  qed
qed

end
