(* ===== verification/Json.thy ===== *)
theory Json
  imports Rx "HOL-Library.AList"
begin

text \<open>
  JSON values as Python holds them after \<^verbatim>\<open>json.loads\<close>: a dict is an association list in
  insertion order, with \<open>AList.update\<close> as \<^verbatim>\<open>d[k] = v\<close> (an existing key keeps its place, a new
  one goes last). A float is kept as the literal it was read from: the code never computes with
  one. Copying (\<^verbatim>\<open>deepcopy\<close>) is the identity on these values.
\<close>

datatype json =
    JNull
  | JBool bool
  | JInt int
  | JFloat string
  | JStr string
  | JList "json list"
  | JObj "(string \<times> json) list"

type_synonym pydict = "(string \<times> json) list"

definition dget :: "pydict \<Rightarrow> string \<Rightarrow> json option" where
  "dget d k = map_of d k"

definition dset :: "string \<Rightarrow> json \<Rightarrow> pydict \<Rightarrow> pydict" where
  "dset k v d = AList.update k v d"

text \<open>\<^verbatim>\<open>bool(v)\<close>, and \<^verbatim>\<open>v or {}\<close> where \<open>v\<close> may be missing or not an object.\<close>

fun truthy :: "json \<Rightarrow> bool" where
  "truthy JNull = False"
| "truthy (JBool b) = b"
| "truthy (JInt i) = (i \<noteq> 0)"
| "truthy (JFloat s) = (\<exists>c \<in> set (takeWhile (\<lambda>c. c \<noteq> CHR ''e'' \<and> c \<noteq> CHR ''E'') s). is_dec c \<and> c \<noteq> CHR ''0'')"
| "truthy (JStr s) = (s \<noteq> [])"
| "truthy (JList xs) = (xs \<noteq> [])"
| "truthy (JObj d) = (d \<noteq> [])"

definition obj_or_empty :: "json option \<Rightarrow> pydict" where
  "obj_or_empty v = (case v of Some (JObj d) \<Rightarrow> d | _ \<Rightarrow> [])"

definition dict_or_empty :: "pydict option \<Rightarrow> pydict" where
  "dict_or_empty d = (case d of None \<Rightarrow> [] | Some d \<Rightarrow> d)"

text \<open>Every dict in the value has unique keys, as a Python dict does.\<close>

fun json_ok :: "json \<Rightarrow> bool" where
  "json_ok (JList xs) = list_all json_ok xs"
| "json_ok (JObj d) = (distinct (map fst d) \<and> list_all (\<lambda>kv. json_ok (snd kv)) d)"
| "json_ok _ = True"

definition dict_ok :: "pydict \<Rightarrow> bool" where
  "dict_ok d = json_ok (JObj d)"

definition is_obj :: "json \<Rightarrow> bool" where
  "is_obj v = (case v of JObj _ \<Rightarrow> True | _ \<Rightarrow> False)"

text \<open>The value at a path of keys.\<close>

fun jpath :: "string list \<Rightarrow> json \<Rightarrow> json option" where
  "jpath [] v = Some v"
| "jpath (k # ks) (JObj d) = (case map_of d k of None \<Rightarrow> None | Some v \<Rightarrow> jpath ks v)"
| "jpath (k # ks) _ = None"

lemma is_obj_simps [simp]:
  "is_obj (JObj d)" "\<not> is_obj JNull" "\<not> is_obj (JBool b)" "\<not> is_obj (JInt i)" "\<not> is_obj (JFloat s)"
  "\<not> is_obj (JStr s)" "\<not> is_obj (JList xs)"
  by (simp_all add: is_obj_def)

lemma jpath_Cons_not_obj: "\<not> is_obj v \<Longrightarrow> jpath (k # ks) v = None"
  by (cases v) auto

lemma map_of_dset [simp]: "map_of (dset k v d) = (map_of d)(k \<mapsto> v)"
  by (simp add: dset_def update_conv')

lemma distinct_dset: "distinct (map fst d) \<Longrightarrow> distinct (map fst (dset k v d))"
  by (simp add: dset_def distinct_update)

lemma set_dset_subset: "set (dset k v d) \<subseteq> insert (k, v) (set d)"
  by (induction d) (auto simp: dset_def)

lemma dict_ok_dset: "dict_ok d \<Longrightarrow> json_ok v \<Longrightarrow> dict_ok (dset k v d)"
  using set_dset_subset[of k v d] by (auto simp: dict_ok_def distinct_dset list_all_iff)

lemma json_ok_map_of: "json_ok (JObj d) \<Longrightarrow> map_of d k = Some v \<Longrightarrow> json_ok v"
  by (auto simp: list_all_iff dest!: map_of_SomeD)

lemma json_ok_entry: "(k, v) \<in> set d \<Longrightarrow> list_all (\<lambda>kv. json_ok (snd kv)) d \<Longrightarrow> json_ok v"
  by (auto simp: list_all_iff)

lemma dict_ok_value: "dict_ok d \<Longrightarrow> map_of d k = Some v \<Longrightarrow> json_ok v"
  unfolding dict_ok_def by (rule json_ok_map_of)

lemma json_size_map_of: "(k, v) \<in> set d \<Longrightarrow> size v < size (JObj d)"
  by (induction d) auto

lemma jpath_Cons_iff: "jpath (k # ks) v = Some x \<longleftrightarrow> (\<exists>d y. v = JObj d \<and> map_of d k = Some y \<and> jpath ks y = Some x)"
  by (cases v) (auto split: option.splits)

text \<open>Dropping or changing entries of a dict by their key.\<close>

lemma map_of_filter_key: "map_of (filter (\<lambda>kv. P (fst kv)) d) k = (if P k then map_of d k else None)"
  by (induction d) auto

lemma map_of_filter_entry:
  "distinct (map fst d) \<Longrightarrow>
   map_of (filter (\<lambda>kv. P (fst kv) (snd kv)) d) k =
     (case map_of d k of None \<Rightarrow> None | Some v \<Rightarrow> if P k v then Some v else None)"
  by (induction d) (auto split: option.splits simp: map_of_eq_None_iff image_iff)

end
