(* ===== verification/Interfaces.thy ===== *)
theory Interfaces
  imports Prelude
begin

text \<open>
  The contracts between components, as locales. \<open>guarded\<close> is what every transactional service
  promises (an operation that succeeds keeps the invariant, one that raises is rolled back);
  \<open>job_queue\<close> is what the services that request a reconcile rely on; \<open>work_queue\<close> is what a
  worker's claim loop relies on. The predicate \<open>one_open\<close> states a partial unique index.
\<close>

section \<open>Transactions\<close>

text \<open>A request that raises is rolled back: the state is the one before it.\<close>

definition attempt :: "('op \<Rightarrow> 's \<Rightarrow> 'e + 's) \<Rightarrow> 'op \<Rightarrow> 's \<Rightarrow> 's" where
  "attempt step x s = (case step x s of Inl _ \<Rightarrow> s | Inr s' \<Rightarrow> s')"

fun history :: "('op \<Rightarrow> 's \<Rightarrow> 'e + 's) \<Rightarrow> 'op list \<Rightarrow> 's \<Rightarrow> 's" where
  "history step [] s = s"
| "history step (x # xs) s = history step xs (attempt step x s)"

locale guarded =
  fixes step :: "'op \<Rightarrow> 's \<Rightarrow> 'e + 's"
    and inv :: "'s \<Rightarrow> bool"
  assumes preserves: "inv s \<Longrightarrow> step x s = Inr s' \<Longrightarrow> inv s'"
begin

lemma attempt_inv: "inv s \<Longrightarrow> inv (attempt step x s)"
  by (auto simp: attempt_def split: sum.splits dest: preserves)

lemma history_inv: "inv s \<Longrightarrow> inv (history step xs s)"
  by (induction xs arbitrary: s) (simp_all add: attempt_inv)

end

section \<open>Partial unique indexes\<close>

text \<open>At most one row per slot among the rows that occupy one.\<close>

definition one_open :: "('r \<Rightarrow> 'k) \<Rightarrow> ('r \<Rightarrow> bool) \<Rightarrow> 'r list \<Rightarrow> bool" where
  "one_open slot occ rs \<longleftrightarrow> distinct (map slot (filter occ rs))"

definition slot_taken :: "('r \<Rightarrow> 'k) \<Rightarrow> ('r \<Rightarrow> bool) \<Rightarrow> 'k \<Rightarrow> 'r list \<Rightarrow> bool" where
  "slot_taken slot occ k rs \<longleftrightarrow> (\<exists>r \<in> set rs. occ r \<and> slot r = k)"

lemma one_open_Nil [simp]: "one_open slot occ []"
  by (simp add: one_open_def)

lemma one_open_snoc:
  "one_open slot occ (rs @ [r]) \<longleftrightarrow>
     one_open slot occ rs \<and> (occ r \<longrightarrow> \<not> slot_taken slot occ (slot r) rs)"
  by (auto simp: one_open_def slot_taken_def image_iff)

lemma one_open_unique:
  assumes "one_open slot occ rs" "r \<in> set rs" "q \<in> set rs" "occ r" "occ q" "slot r = slot q"
  shows "r = q"
  using assms by (fastforce simp: one_open_def distinct_map inj_on_def)

lemma slot_taken_snoc:
  "slot_taken slot occ k (rs @ [r]) \<longleftrightarrow> slot_taken slot occ k rs \<or> (occ r \<and> slot r = k)"
  by (auto simp: slot_taken_def)

lemma one_open_row_upd:
  assumes "one_open slot occ rs" and "\<And>r. slot (f r) = slot r"
    and "\<And>r. r \<in> set rs \<Longrightarrow> key r = k \<Longrightarrow> occ (f r) \<Longrightarrow> occ r"
  shows "one_open slot occ (row_upd key k f rs)"
  using assms
proof (induction rs)
  case Nil
  then show ?case by (simp add: table_simps)
next
  case (Cons r rs)
  have sub: "slot ` set (filter occ (row_upd key k f rs)) \<subseteq> slot ` set (filter occ rs)"
    using Cons.prems(2,3) by (fastforce simp: set_row_upd image_iff)
  from Cons have "one_open slot occ (row_upd key k f rs)"
    by (auto simp: one_open_def split: if_splits)
  with sub Cons.prems show ?case
    by (fastforce simp: one_open_def table_simps split: if_splits)
qed

lemma one_open_filter: "one_open slot occ rs \<Longrightarrow> one_open slot occ (filter P rs)"
  by (induction rs) (auto simp: one_open_def split: if_splits)

text \<open>Replacing a row keeps the index when no other row holds the slot of the new one.\<close>

lemma one_open_replace:
  assumes "keyed key rs" "one_open slot occ rs" "\<not> (occ p \<and> slot_taken slot occ (slot p) (filter (\<lambda>q. key q \<noteq> key p) rs))"
  shows "one_open slot occ (row_upd key (key p) (\<lambda>_. p) rs)"
  using assms
proof (induction rs)
  case Nil
  then show ?case by (simp add: table_simps)
next
  case (Cons r rs)
  show ?case
  proof (cases "key r = key p")
    case True
    then have out: "\<forall>q \<in> set rs. key q \<noteq> key p" using Cons.prems(1) by (metis distinct.simps(2) imageI list.map(2) list.set_map)
    then have "row_upd key (key p) (\<lambda>_. p) rs = rs" "filter (\<lambda>q. key q \<noteq> key p) rs = rs"
      by (simp_all add: row_upd_def map_idI filter_id_conv)
    then show ?thesis using True Cons.prems(2,3) by (auto simp: table_simps one_open_def slot_taken_def split: if_splits)
  next
    case False
    have IH: "one_open slot occ (row_upd key (key p) (\<lambda>_. p) rs)"
      using Cons.prems False by (intro Cons.IH) (auto simp: one_open_def slot_taken_def split: if_splits)
    have sep: "slot x \<noteq> slot r" if "occ r" "x \<in> set (row_upd key (key p) (\<lambda>_. p) rs)" "occ x" for x
    proof -
      from that(2) consider "x = p" | "x \<in> set rs" by (auto simp: row_upd_def split: if_splits)
      then show ?thesis
      proof cases
        case 1
        then have "\<not> slot_taken slot occ (slot p) (filter (\<lambda>q. key q \<noteq> key p) (r # rs))" using Cons.prems(3) that(3) by simp
        then show ?thesis using 1 False that(1) by (auto simp: slot_taken_def)
      next
        case 2
        then show ?thesis using Cons.prems(2) that(1,3) by (auto simp: one_open_def image_iff)
      qed
    qed
    have "slot r \<notin> slot ` set (filter occ (row_upd key (key p) (\<lambda>_. p) rs))" if "occ r"
    proof
      assume "slot r \<in> slot ` set (filter occ (row_upd key (key p) (\<lambda>_. p) rs))"
      then obtain x where "slot r = slot x" "x \<in> set (row_upd key (key p) (\<lambda>_. p) rs)" "occ x" by auto
      then show False using sep[OF that] by metis
    qed
    then show ?thesis using IH False by (simp add: table_simps one_open_def)
  qed
qed

section \<open>What a service that requests work relies on\<close>

text \<open>
  \<open>enqueue d\<close> adds an open item for \<open>d\<close>; it is refused exactly when \<open>d\<close> already has one or is
  unknown. A client that marks \<open>d\<close> as busy in the same transaction keeps every busy entity
  covered by an open item.
\<close>

locale job_queue =
  fixes enqueue :: "'d \<Rightarrow> 'q \<Rightarrow> 'e + 'q"
    and open_for :: "'q \<Rightarrow> 'd \<Rightarrow> bool"
    and known :: "'d \<Rightarrow> bool"
    and inv :: "'q \<Rightarrow> bool"
  assumes enqueue_opens: "enqueue d q = Inr q' \<Longrightarrow> open_for q' e \<longleftrightarrow> open_for q e \<or> e = d"
    and enqueue_refuses: "(\<exists>x. enqueue d q = Inl x) \<longleftrightarrow> open_for q d \<or> \<not> known d"
    and enqueue_inv: "inv q \<Longrightarrow> enqueue d q = Inr q' \<Longrightarrow> inv q'"
begin

lemma enqueue_succeeds: "known d \<Longrightarrow> \<not> open_for q d \<Longrightarrow> \<exists>q'. enqueue d q = Inr q'"
  using enqueue_refuses[of d q] by (cases "enqueue d q") auto

lemma enqueue_blocked: "open_for q d \<Longrightarrow> enqueue d q \<noteq> Inr q'"
  using enqueue_refuses[of d q] by (cases "enqueue d q") auto

lemma busy_stays_covered:
  assumes cover: "\<And>e. busy e \<Longrightarrow> open_for q e" and ok: "enqueue d q = Inr q'"
    and b: "busy' e" and grow: "busy' e \<Longrightarrow> busy e \<or> e = d"
  shows "open_for q' e"
  using assms enqueue_opens[OF ok, of e] by blast

text \<open>Requesting twice without the work finishing in between is refused.\<close>

lemma second_request_refused:
  assumes "enqueue d q = Inr q'"
  shows "\<exists>x. enqueue d q' = Inl x"
  using enqueue_opens[OF assms, of d] enqueue_refuses[of d q'] by blast

end

section \<open>What a claim loop relies on\<close>

text \<open>
  \<open>claim\<close> takes one item; \<open>backlog\<close> counts what is claimable. A claim that finds nothing means
  the backlog is empty, and each claim takes exactly one item off it, so a worker that keeps
  claiming drains the queue in as many steps as there are items and then stops.
\<close>

fun claims :: "('s \<Rightarrow> 'j option \<times> 's) \<Rightarrow> nat \<Rightarrow> 's \<Rightarrow> 'j list \<times> 's" where
  "claims c 0 s = ([], s)"
| "claims c (Suc n) s =
     (case c s of (None, s') \<Rightarrow> ([], s')
      | (Some j, s') \<Rightarrow> (case claims c n s' of (js, s'') \<Rightarrow> (j # js, s'')))"

locale work_queue =
  fixes claim :: "'s \<Rightarrow> 'j option \<times> 's"
    and backlog :: "'s \<Rightarrow> nat"
    and inv :: "'s \<Rightarrow> bool"
  assumes claim_none: "inv s \<Longrightarrow> fst (claim s) = None \<longleftrightarrow> backlog s = 0"
    and claim_none_id: "claim s = (None, s') \<Longrightarrow> s' = s"
    and claim_some: "inv s \<Longrightarrow> claim s = (Some j, s') \<Longrightarrow> backlog s = Suc (backlog s')"
    and claim_inv: "inv s \<Longrightarrow> claim s = (r, s') \<Longrightarrow> inv s'"
begin

lemma claims_length:
  assumes "inv s"
  shows "length (fst (claims claim n s)) = min n (backlog s) \<and>
    backlog (snd (claims claim n s)) = backlog s - n \<and>
    inv (snd (claims claim n s))"
  using assms
proof (induction n arbitrary: s)
  case 0
  then show ?case by simp
next
  case (Suc n)
  obtain r t where c: "claim s = (r, t)" by (cases "claim s")
  show ?case
  proof (cases r)
    case None
    with c have "t = s" by (simp add: claim_none_id)
    with c None Suc.prems show ?thesis using claim_none[of s] by simp
  next
    case (Some j)
    with c Suc.prems have "inv t" "backlog s = Suc (backlog t)"
      using claim_inv claim_some by auto
    with Suc.IH[of t] c Some show ?thesis by (cases "claims claim n t") auto
  qed
qed

end

end
