(* ===== verification/TemplateValues.thy ===== *)
theory TemplateValues
  imports Json Interfaces "HOL-Library.Multiset"
begin

text \<open>
  \<^verbatim>\<open>api/app/services/template_values.py\<close>: merging of chart values, the partition of a template
  schema into a chart half and a vars half, the routing markers, and the validation of values and
  vars. The JSON Schema validator itself (\<^verbatim>\<open>jsonschema.validate\<close>) is the parameter \<open>jsv\<close>.
\<close>

section \<open>Sizes and merging\<close>

definition size_units :: "(string \<times> nat) list" where
  "size_units = [(''Ti'', 2 ^ 40), (''Gi'', 2 ^ 30), (''Mi'', 2 ^ 20), (''Ki'', 2 ^ 10)]"

definition bytes_to_k8s_size :: "nat \<Rightarrow> string" where
  "bytes_to_k8s_size n =
     (if n = 0 then ''0''
      else case find (\<lambda>(u, d). d \<le> n \<and> n mod d = 0) size_units of
             Some (u, d) \<Rightarrow> nat_str (n div d) @ u
           | None \<Rightarrow> nat_str n)"

function (sequential) deep_merge :: "json \<Rightarrow> json \<Rightarrow> json"
  and merge_items :: "pydict \<Rightarrow> pydict \<Rightarrow> pydict" where
  "deep_merge (JObj base) (JObj override) = JObj (merge_items base override)"
| "deep_merge base override = override"
| "merge_items merged [] = merged"
| "merge_items merged ((k, v) # rest) =
     merge_items (case map_of merged k of
                    Some old \<Rightarrow> dset k (deep_merge old v) merged
                  | None \<Rightarrow> dset k v merged) rest"
  by pat_completeness auto
termination
  by (relation "measure (\<lambda>x. case x of Inl (b, v) \<Rightarrow> Suc (2 * size v) | Inr (m, d) \<Rightarrow> 2 * size (JObj d))")
     auto

text \<open>
  The type checks of \<^verbatim>\<open>merge_values_scoped\<close> refuse anything that is not an object or \<open>None\<close>.
\<close>

definition require_dict :: "string \<Rightarrow> json option \<Rightarrow> pydict option result" where
  "require_dict name v =
     (case v of None \<Rightarrow> Inr None
      | Some (JObj d) \<Rightarrow> Inr (Some d)
      | Some _ \<Rightarrow> Inl (IntegrityErr (name @ '' must be an object'')))"

definition merge_scope :: "pydict \<Rightarrow> pydict option \<Rightarrow> pydict" where
  "merge_scope base over = (case over of None \<Rightarrow> base | Some d \<Rightarrow> merge_items base d)"

definition merge_values_scoped ::
  "json option \<Rightarrow> json option \<Rightarrow> json option \<Rightarrow> pydict result"
where
  "merge_values_scoped defaults user_delta system =
     bindR (require_dict ''defaults'' defaults) (\<lambda>d.
     bindR (require_dict ''user_scope_delta'' user_delta) (\<lambda>u.
     bindR (require_dict ''system_overrides'' system) (\<lambda>s.
     Inr (merge_scope (merge_scope (dict_or_empty d) u) s))))"

section \<open>The two halves of a schema\<close>

definition target_key :: string where "target_key = ''x-caelus-target''"
definition sensitive_key :: string where "sensitive_key = ''x-caelus-sensitive''"
definition vars_additional_key :: string where "vars_additional_key = ''x-caelus-vars-additional''"

definition document_keywords :: "string list" where
  "document_keywords = [''allOf'', ''anyOf'', ''oneOf'', ''not'', ''if'', ''then'', ''else'',
     ''dependentRequired'', ''dependentSchemas'', ''dependencies'']"

definition key_set_keywords :: "string list" where
  "key_set_keywords = [''additionalProperties'', ''unevaluatedProperties'', ''patternProperties'',
     ''propertyNames'', ''minProperties'', ''maxProperties'']"

definition is_runtime :: "json option \<Rightarrow> bool" where
  "is_runtime prop = (case prop of Some (JObj d) \<Rightarrow> map_of d target_key = Some (JStr ''runtime'') | _ \<Rightarrow> False)"

definition schema_declares_vars :: "pydict option \<Rightarrow> bool" where
  "schema_declares_vars schema =
     (case schema of None \<Rightarrow> False
      | Some s \<Rightarrow> list_ex (\<lambda>kv. is_runtime (Some (snd kv))) (obj_or_empty (map_of s ''properties'')))"

text \<open>A \<open>required\<close> entry that is no string names no property, and so stays in the chart half.\<close>

definition required_runtime :: "pydict \<Rightarrow> json \<Rightarrow> bool" where
  "required_runtime properties r = (case r of JStr k \<Rightarrow> is_runtime (map_of properties k) | _ \<Rightarrow> False)"

definition schema_required :: "pydict \<Rightarrow> json list" where
  "schema_required s = (case map_of s ''required'' of Some (JList rs) \<Rightarrow> rs | _ \<Rightarrow> [])"

definition strip_marker :: "json \<Rightarrow> json" where
  "strip_marker v = (case v of JObj d \<Rightarrow> JObj (filter (\<lambda>kv. fst kv \<noteq> target_key) d) | _ \<Rightarrow> v)"

definition chart_projection :: "pydict \<Rightarrow> pydict" where
  "chart_projection s =
     (let props = obj_or_empty (map_of s ''properties'');
          kept = filter (\<lambda>kv. fst kv \<noteq> ''properties'' \<and> fst kv \<noteq> ''required'' \<and> fst kv \<notin> set document_keywords) s
      in dset ''required'' (JList (filter (\<lambda>r. \<not> required_runtime props r) (schema_required s)))
         (dset ''properties'' (JObj (filter (\<lambda>kv. \<not> is_runtime (Some (snd kv))) props)) kept))"

definition vars_projection :: "pydict \<Rightarrow> pydict" where
  "vars_projection s =
     (let props = obj_or_empty (map_of s ''properties'')
      in (case map_of s ''$schema'' of None \<Rightarrow> [] | Some v \<Rightarrow> [(''$schema'', v)]) @
         [(''type'', JStr ''object''),
          (''additionalProperties'',
             JBool (case map_of s vars_additional_key of None \<Rightarrow> False | Some v \<Rightarrow> truthy v)),
          (''properties'',
             JObj (map (\<lambda>kv. (fst kv, strip_marker (snd kv)))
                    (filter (\<lambda>kv. is_runtime (Some (snd kv))) props))),
          (''required'', JList (filter (required_runtime props) (schema_required s)))])"

record projections =
  pr_chart :: "pydict option"
  pr_vars :: "pydict option"

definition derive_projections :: "pydict option \<Rightarrow> projections" where
  "derive_projections schema =
     (case schema of
        None \<Rightarrow> \<lparr>pr_chart = None, pr_vars = None\<rparr>
      | Some [] \<Rightarrow> \<lparr>pr_chart = None, pr_vars = None\<rparr>
      | Some s \<Rightarrow> \<lparr>pr_chart = Some (chart_projection s), pr_vars = Some (vars_projection s)\<rparr>)"

section \<open>Names and markers of vars\<close>

definition name_start :: "char \<Rightarrow> bool" where
  "name_start c \<longleftrightarrow> is_upper c \<or> is_lower c \<or> c = CHR ''_''"

definition name_rest :: "char \<Rightarrow> bool" where
  "name_rest c \<longleftrightarrow> name_start c \<or> is_dec c"

text \<open>\<^verbatim>\<open>^[A-Za-z_][A-Za-z0-9_]{0,63}$\<close>\<close>

definition var_name_re :: rx where
  "var_name_re = RSeq (RCls name_start) (rx_rep 0 63 (RCls name_rest))"

definition reserved_var_prefixes :: "string list" where
  "reserved_var_prefixes = [''CAELUS_'', ''AWS_'', ''S3_'', ''RAILPACK_'']"

definition reserved_var_names :: "string list" where
  "reserved_var_names = [''BUCKET_NAME'', ''PORT'']"

definition check_var_name :: "string \<Rightarrow> unit result" where
  "check_var_name name =
     (if \<not> re_match_end var_name_re name
      then Inl (ValidationErr (name @ '': a var's name is an environment variable name and must match ^[A-Za-z_][A-Za-z0-9_]{0,63}$''))
      else if name \<in> set reserved_var_names
      then Inl (ValidationErr (name @ '': '' @ name @ '' is reserved by the platform''))
      else case find (starts_with name) reserved_var_prefixes of
             Some p \<Rightarrow> Inl (ValidationErr (name @ '': the '' @ p @ ''* namespace is reserved by the platform''))
           | None \<Rightarrow> Inr ())"

text \<open>
  Every dict of the document that carries a marker, by its position. The code compares nodes by
  identity with the members of \<open>properties\<close>; in a JSON document that is the position
  \<open>properties.k\<close>.
\<close>

datatype pstep = PKey string | PIdx nat

fun render_path :: "string \<Rightarrow> pstep list \<Rightarrow> string" where
  "render_path acc [] = acc"
| "render_path acc (PKey k # ps) = render_path (if acc = [] then k else acc @ ''.'' @ k) ps"
| "render_path acc (PIdx i # ps) = render_path (acc @ ''['' @ nat_str i @ '']'') ps"

fun marked_nodes :: "pstep list \<Rightarrow> json \<Rightarrow> pstep list list"
  and marked_items :: "pstep list \<Rightarrow> pydict \<Rightarrow> pstep list list"
  and marked_elems :: "pstep list \<Rightarrow> nat \<Rightarrow> json list \<Rightarrow> pstep list list" where
  "marked_nodes p (JObj d) =
     (if target_key \<in> fst ` set d \<or> sensitive_key \<in> fst ` set d then [p] else []) @ marked_items p d"
| "marked_nodes p (JList xs) = marked_elems p 0 xs"
| "marked_nodes p _ = []"
| "marked_items p [] = []"
| "marked_items p ((k, v) # d) = marked_nodes (p @ [PKey k]) v @ marked_items p d"
| "marked_elems p i [] = []"
| "marked_elems p i (x # xs) = marked_nodes (p @ [PIdx i]) x @ marked_elems p (Suc i) xs"

fun top_level_property :: "pstep list \<Rightarrow> bool" where
  "top_level_property [PKey p, PKey k] = (p = ''properties'')"
| "top_level_property _ = False"

definition is_jbool :: "json \<Rightarrow> bool" where
  "is_jbool v = (case v of JBool _ \<Rightarrow> True | _ \<Rightarrow> False)"

definition get_default :: "pydict \<Rightarrow> string \<Rightarrow> json \<Rightarrow> json" where
  "get_default d k v = (case map_of d k of None \<Rightarrow> v | Some x \<Rightarrow> x)"

definition scalar_types :: "json list" where
  "scalar_types = [JStr ''string'', JStr ''number'', JStr ''integer'', JStr ''boolean'']"

definition squote :: string where
  "squote = [char_of (39::nat)]"

definition dquote :: string where
  "dquote = [char_of (34::nat)]"

definition check_property :: "string \<times> json \<Rightarrow> unit \<Rightarrow> unit result" where
  "check_property np u =
     (case np of (name, JObj prop) \<Rightarrow>
        let target = get_default prop target_key (JStr ''chart'') in
        if target \<notin> {JStr ''chart'', JStr ''runtime''}
        then Inl (ValidationErr (name @ '': '' @ target_key @ '' must be '' @ squote @ ''chart'' @ squote @
               '' or '' @ squote @ ''runtime'' @ squote))
        else if target \<noteq> JStr ''runtime''
        then guardR (map_of prop sensitive_key = None)
               (ValidationErr (name @ '': '' @ sensitive_key @ '' is legal only on a '' @ target_key @
                  '': runtime property''))
        else if \<not> is_jbool (get_default prop sensitive_key (JBool False))
        then Inl (ValidationErr (name @ '': '' @ sensitive_key @ '' must be true or false''))
        else if get_default prop ''type'' JNull \<notin> set scalar_types
        then Inl (ValidationErr (name @ '': a runtime property must be one of string, number, integer, boolean''))
        else check_var_name name
      | _ \<Rightarrow> Inr ())"

definition check_var_markers :: "pydict option \<Rightarrow> unit result" where
  "check_var_markers schema =
     (case dict_or_empty schema of
        [] \<Rightarrow> Inr ()
      | kv # rest \<Rightarrow>
          let s = kv # rest in
          if \<not> is_jbool (get_default s vars_additional_key (JBool False))
          then Inl (ValidationErr (vars_additional_key @ '' must be true or false''))
          else case find (\<lambda>p. \<not> top_level_property p) (marked_nodes [] (JObj s)) of
                 Some p \<Rightarrow> Inl (ValidationErr (render_path [] p @
                     '': routing markers are legal only on a top-level property''))
               | None \<Rightarrow> foldR check_property (obj_or_empty (map_of s ''properties'')) ())"

section \<open>Validation\<close>

text \<open>
  The validator's verdict: accepted, a broken schema, or the first violation with the fields of
  \<^verbatim>\<open>jsonschema.ValidationError\<close> the code reads.
\<close>

record violation =
  vi_message :: string
  vi_json_path :: string
  vi_absolute_path :: "string list"
  vi_validator :: string
  vi_instance :: json
  vi_validator_value :: "json list"

datatype verdict = Valid | BadSchema string | Invalid violation

type_synonym validator = "json \<Rightarrow> pydict \<Rightarrow> verdict"

definition bad_schema :: "string \<Rightarrow> error" where
  "bad_schema m = IntegrityErr (''product template has an invalid values_schema_json: '' @ m)"

definition validate_user_values :: "validator \<Rightarrow> pydict option \<Rightarrow> pydict option \<Rightarrow> unit result" where
  "validate_user_values jsv uv schema =
     (case (dict_or_empty uv, pr_chart (derive_projections schema)) of
        ([], None) \<Rightarrow> Inr ()
      | (_ # _, None) \<Rightarrow> Inl (IntegrityErr ''user_values_json not supported on this product template'')
      | (_, Some chart) \<Rightarrow>
          (case jsv (case uv of None \<Rightarrow> JNull | Some d \<Rightarrow> JObj d) chart of
             Valid \<Rightarrow> Inr ()
           | BadSchema m \<Rightarrow> Inl (bad_schema m)
           | Invalid v \<Rightarrow> Inl (IntegrityErr (''user_values_json is invalid: '' @ vi_message v))))"

text \<open>\<^verbatim>\<open>^[+-]?[0-9]+$\<close> and \<^verbatim>\<open>^[+-]?([0-9]+(\.[0-9]*)?|\.[0-9]+)([eE][+-]?[0-9]+)?$\<close>\<close>

definition sign_re :: rx where
  "sign_re = rx_opt (RCls (\<lambda>c. c = CHR ''+'' \<or> c = CHR ''-''))"

definition integer_re :: rx where
  "integer_re = RSeq sign_re (rx_plus (RCls is_dec))"

definition number_re :: rx where
  "number_re =
     RSeq sign_re
       (RSeq (RAlt (RSeq (rx_plus (RCls is_dec)) (rx_opt (RSeq (rx_lit ''.'') (RStar (RCls is_dec)))))
                   (RSeq (rx_lit ''.'') (rx_plus (RCls is_dec))))
             (rx_opt (RSeq (RCls (\<lambda>c. c = CHR ''e'' \<or> c = CHR ''E''))
                           (RSeq sign_re (rx_plus (RCls is_dec))))))"

text \<open>\<^verbatim>\<open>int(s)\<close> on what \<open>integer_re\<close> matched: surrounding whitespace (a final newline) is dropped.\<close>

definition py_int :: "string \<Rightarrow> int" where
  "py_int s = (case strip is_space s of
      [] \<Rightarrow> 0
    | c # cs \<Rightarrow> if c = CHR ''-'' then - int (nat_of_dec cs)
               else if c = CHR ''+'' then int (nat_of_dec cs) else int (nat_of_dec (c # cs)))"

definition coerce_var :: "json \<Rightarrow> json option \<Rightarrow> json" where
  "coerce_var value declared =
     (case (value, declared) of
        (JStr s, Some (JObj d)) \<Rightarrow>
          (let t = map_of d ''type'' in
           if t = Some (JStr ''boolean'')
           then (if s = ''true'' then JBool True else if s = ''false'' then JBool False else value)
           else if t = Some (JStr ''integer'')
           then (if re_match_end integer_re s then JInt (py_int s) else value)
           else if t = Some (JStr ''number'')
           then (if re_match_end number_re s then JFloat (strip is_space s) else value)
           else value)
      | _ \<Rightarrow> value)"

definition coerced :: "(string \<times> string) list \<Rightarrow> pydict \<Rightarrow> pydict" where
  "coerced vars declared = map (\<lambda>(k, v). (k, coerce_var (JStr v) (map_of declared k))) vars"

definition var_error :: "violation \<Rightarrow> string" where
  "var_error v =
     (let path = vi_json_path v;
          location = (if starts_with path ''$'' then ''vars'' @ drop 1 path else path)
      in location @ '': failed constraint '' @ dquote @ vi_validator v @ dquote)"

definition declared_vars :: "pydict option \<Rightarrow> pydict" where
  "declared_vars projection = obj_or_empty (map_of (dict_or_empty projection) ''properties'')"

definition validate_vars ::
  "validator \<Rightarrow> (string \<times> string) list \<Rightarrow> pydict option \<Rightarrow> unit result"
where
  "validate_vars jsv vars projection =
     (case dict_or_empty projection of
        [] \<Rightarrow> guardR (vars = []) (ValidationErr ''vars are not supported on this product template'')
      | kv # rest \<Rightarrow>
          let p = kv # rest;
              declared = declared_vars (Some p);
              undeclared = sort (filter (\<lambda>k. k \<notin> fst ` set declared) (map fst vars))
          in if \<not> truthy (get_default p ''additionalProperties'' (JBool False)) \<and> undeclared \<noteq> []
             then Inl (ValidationErr (''vars not declared by this product template: '' @ join '', '' undeclared))
             else (case jsv (JObj (coerced vars declared)) p of
                     Valid \<Rightarrow> Inr ()
                   | BadSchema m \<Rightarrow> Inl (bad_schema m)
                   | Invalid v \<Rightarrow> Inl (ValidationErr (var_error v))))"

definition document_error :: "violation \<Rightarrow> pydict \<Rightarrow> string list \<Rightarrow> string" where
  "document_error v schema var_keys =
     (let missing = (case vi_instance v of
                       JObj d \<Rightarrow> [k. JStr k \<leftarrow> vi_validator_value v, k \<notin> fst ` set d]
                     | _ \<Rightarrow> []);
          path = vi_absolute_path v @ (if vi_validator v = ''required'' then take 1 missing else []);
          failed = ''failed constraint '' @ dquote @ vi_validator v @ dquote
      in case path of
           [] \<Rightarrow> ''values: '' @ failed
         | k # _ \<Rightarrow>
             let prop = map_of (obj_or_empty (map_of schema ''properties'')) k;
                 prefix = (if k \<in> set var_keys \<or> is_runtime prop then ''vars.''
                           else if prop \<noteq> None then ''user_values_json.'' else [])
             in prefix @ join ''.'' path @ '': '' @ failed)"

definition validate_document ::
  "validator \<Rightarrow> pydict option \<Rightarrow> (string \<times> string) list \<Rightarrow> pydict option \<Rightarrow> (string \<Rightarrow> error) \<Rightarrow> unit result"
where
  "validate_document jsv uv vars schema err =
     (case dict_or_empty schema of
        [] \<Rightarrow> Inr ()
      | kv # rest \<Rightarrow>
          let s = kv # rest;
              declared = declared_vars (pr_vars (derive_projections (Some s)));
              document = fold (\<lambda>(k, v) d. dset k v d) (coerced vars declared) (dict_or_empty uv)
          in (case jsv (JObj document) (filter (\<lambda>kv. fst kv \<notin> set key_set_keywords) s) of
                Valid \<Rightarrow> Inr ()
              | BadSchema m \<Rightarrow> Inl (bad_schema m)
              | Invalid v \<Rightarrow> Inl (err (document_error v s (map fst vars)))))"

section \<open>Merging: the law of each key and the precedence of the scopes\<close>

lemma map_of_merge_items:
  "distinct (map fst d) \<Longrightarrow>
   map_of (merge_items m d) k =
     (case map_of d k of None \<Rightarrow> map_of m k
      | Some v \<Rightarrow> Some (case map_of m k of None \<Rightarrow> v | Some x \<Rightarrow> deep_merge x v))"
proof (induction d arbitrary: m)
  case Nil
  then show ?case by simp
next
  case (Cons kv d)
  obtain a v where kv: "kv = (a, v)" by (cases kv)
  with Cons.prems have "map_of d a = None" by (auto simp: map_of_eq_None_iff)
  with Cons kv show ?case by (auto split: option.splits)
qed

lemma deep_merge_not_obj: "\<not> is_obj b \<or> \<not> is_obj v \<Longrightarrow> deep_merge b v = v"
  by (cases b; cases v) auto

lemma deep_merge_ok:
  "json_ok b \<Longrightarrow> json_ok v \<Longrightarrow> json_ok (deep_merge b v)"
  "dict_ok m \<Longrightarrow> dict_ok d \<Longrightarrow> dict_ok (merge_items m d)"
proof (induction b v and m d rule: deep_merge_merge_items.induct)
  case (4 merged k v rest)
  have v: "json_ok v" "dict_ok rest" using "4.prems"(2) by (auto simp: dict_ok_def)
  have "dict_ok (case map_of merged k of Some old \<Rightarrow> dset k (deep_merge old v) merged | None \<Rightarrow> dset k v merged)"
    using 4 v by (auto split: option.splits intro!: dict_ok_dset dest: dict_ok_value)
  with "4.IH"(2) v show ?case by simp
qed (auto simp: dict_ok_def)

text \<open>An override says nothing about a path when it stops, by a missing key, on the way there.\<close>

fun silent :: "string list \<Rightarrow> json \<Rightarrow> bool" where
  "silent (k # ks) (JObj d) = (case map_of d k of None \<Rightarrow> True | Some v \<Rightarrow> silent ks v)"
| "silent _ _ = False"

lemma silent_no_value: "silent p v \<Longrightarrow> jpath p v = None"
  by (induction p v rule: silent.induct) (auto split: option.splits)

lemma merged_leaf:
  assumes "json_ok over" "jpath p over = Some v" "\<not> is_obj v"
  shows "jpath p (deep_merge base over) = Some v"
  using assms
proof (induction p arbitrary: base over)
  case Nil
  then show ?case by (simp add: deep_merge_not_obj)
next
  case (Cons k p)
  from Cons.prems obtain d x where d: "over = JObj d" "map_of d k = Some x" "jpath p x = Some v"
    by (cases over) (auto split: option.splits)
  with Cons.prems have x: "json_ok x" "distinct (map fst d)" by (auto dest: json_ok_entry)
  show ?case
  proof (cases base)
    case (JObj b)
    with d x Cons.IH[OF x(1) d(3) Cons.prems(3)] d(3) show ?thesis
      by (auto simp: map_of_merge_items split: option.splits)
  qed (use d in auto)
qed

lemma merged_silent:
  assumes "json_ok over" "silent p over"
  shows "jpath p (deep_merge base over) = jpath p base"
  using assms
proof (induction p arbitrary: base over)
  case Nil
  then show ?case by simp
next
  case (Cons k p)
  from Cons.prems obtain d where d: "over = JObj d" by (cases over) auto
  show ?case
  proof (cases base)
    case (JObj b)
    show ?thesis
    proof (cases "map_of d k")
      case None
      with JObj d Cons.prems show ?thesis by (simp add: map_of_merge_items)
    next
      case (Some x)
      with d Cons.prems have x: "json_ok x" "silent p x" by (auto dest: json_ok_entry)
      with JObj d Some Cons.prems Cons.IH[OF x] silent_no_value[OF x(2)] show ?thesis
        by (auto simp: map_of_merge_items split: option.splits)
    qed
  qed (use d silent_no_value[OF Cons.prems(2)] in auto)
qed

lemma merge_scope_JObj: "JObj (merge_scope b (Some d)) = deep_merge (JObj b) (JObj d)"
  by (simp add: merge_scope_def)

lemma merge_scope_ok: "dict_ok b \<Longrightarrow> (\<And>d. over = Some d \<Longrightarrow> dict_ok d) \<Longrightarrow> dict_ok (merge_scope b over)"
  by (auto simp: merge_scope_def deep_merge_ok split: option.splits)

lemma merge_values_scoped_dicts:
  "merge_values_scoped (Some (JObj d)) (Some (JObj u)) (Some (JObj s)) = Inr (merge_items (merge_items d u) s)"
  by (simp add: merge_values_scoped_def require_dict_def dict_or_empty_def merge_scope_def)

text \<open>
  Precedence of the three scopes, path by path: a system override's value is the merged value
  whatever the template and the user say; where the system says nothing the user's value is; and
  where both are silent the template's is, including its absence.
\<close>

theorem merge_precedence:
  assumes "dict_ok u" "dict_ok s"
    and m: "merge_values_scoped (Some (JObj d)) (Some (JObj u)) (Some (JObj s)) = Inr m"
  shows "(jpath p (JObj s) = Some v \<and> \<not> is_obj v \<longrightarrow> jpath p (JObj m) = Some v) \<and>
    (silent p (JObj s) \<and> jpath p (JObj u) = Some v \<and> \<not> is_obj v \<longrightarrow> jpath p (JObj m) = Some v) \<and>
    (silent p (JObj s) \<and> silent p (JObj u) \<longrightarrow> jpath p (JObj m) = jpath p (JObj d))"
proof -
  have "JObj m = deep_merge (deep_merge (JObj d) (JObj u)) (JObj s)"
    using m by (simp add: merge_values_scoped_dicts)
  then show ?thesis
    using assms(1,2) unfolding dict_ok_def by (simp add: merged_leaf merged_silent del: jpath.simps silent.simps deep_merge.simps)
qed

theorem merge_precedence_witness:
  "jpath [''caelus'', ''plan''] (JObj (merge_items (merge_items [(''caelus'', JObj [(''plan'', JInt 1)])]
      [(''caelus'', JObj [(''plan'', JInt 99)]), (''x'', JBool True)])
      [(''caelus'', JObj [(''plan'', JInt 2)])])) = Some (JInt 2)"
proof -
  let ?d = "[(''caelus'', JObj [(''plan'', JInt 1)])]"
  let ?u = "[(''caelus'', JObj [(''plan'', JInt 99)]), (''x'', JBool True)]"
  let ?s = "[(''caelus'', JObj [(''plan'', JInt 2)])]"
  have "dict_ok ?u" "dict_ok ?s" by (simp_all add: dict_ok_def)
  from merge_precedence[OF this merge_values_scoped_dicts, of "[''caelus'', ''plan'']" "JInt 2" ?d]
  show ?thesis by simp
qed

section \<open>The projections partition the schema\<close>

definition schema_props :: "pydict \<Rightarrow> pydict" where
  "schema_props s = obj_or_empty (map_of s ''properties'')"

lemma chart_projection_get:
  "map_of (chart_projection s) k =
     (if k = ''required'' then Some (JList (filter (\<lambda>r. \<not> required_runtime (schema_props s) r) (schema_required s)))
      else if k = ''properties'' then Some (JObj (filter (\<lambda>kv. \<not> is_runtime (Some (snd kv))) (schema_props s)))
      else if k \<in> set document_keywords then None else map_of s k)"
  by (simp add: chart_projection_def schema_props_def Let_def
      map_of_filter_key[of "\<lambda>k. k \<noteq> ''properties'' \<and> k \<noteq> ''required'' \<and> k \<notin> set document_keywords"])

lemma vars_projection_get:
  "map_of (vars_projection s) ''properties'' =
     Some (JObj (map (\<lambda>kv. (fst kv, strip_marker (snd kv)))
       (filter (\<lambda>kv. is_runtime (Some (snd kv))) (schema_props s))))"
  "map_of (vars_projection s) ''required'' =
     Some (JList (filter (required_runtime (schema_props s)) (schema_required s)))"
  "map_of (vars_projection s) ''additionalProperties'' =
     Some (JBool (case map_of s vars_additional_key of None \<Rightarrow> False | Some v \<Rightarrow> truthy v))"
  by (auto simp: vars_projection_def schema_props_def Let_def map_add_def split: option.splits)

lemma declared_vars_projection:
  "declared_vars (Some (vars_projection s)) =
     map (\<lambda>kv. (fst kv, strip_marker (snd kv))) (filter (\<lambda>kv. is_runtime (Some (snd kv))) (schema_props s))"
  by (simp add: declared_vars_def dict_or_empty_def vars_projection_get obj_or_empty_def)

text \<open>
  The two halves of a template schema partition it: every property of the schema is in exactly
  one of them, as the marker says; every \<open>required\<close> name is required by exactly the half that holds
  the property; the keywords that relate properties to one another are in neither, every other
  root keyword of the schema is in the chart half; and the vars half is closed unless the schema
  opens it.
\<close>

theorem projections_partition:
  assumes "s \<noteq> []" "dict_ok s" "derive_projections (Some s) = \<lparr>pr_chart = Some c, pr_vars = Some v\<rparr>"
  shows "set (map fst (schema_props s)) = set (map fst (schema_props c)) \<union> set (map fst (schema_props v)) \<and>
    set (map fst (schema_props c)) \<inter> set (map fst (schema_props v)) = {} \<and>
    (\<forall>k \<in> set (map fst (schema_props v)). is_runtime (map_of (schema_props s) k)) \<and>
    mset (schema_required s) = mset (schema_required c) + mset (schema_required v) \<and>
    (\<forall>k. JStr k \<in> set (schema_required v) \<longrightarrow> k \<in> set (map fst (schema_props v))) \<and>
    (\<forall>k. k \<notin> {''properties'', ''required''} \<longrightarrow>
       map_of c k = (if k \<in> set document_keywords then None else map_of s k)) \<and>
    (map_of v ''additionalProperties'' = Some (JBool True) \<longleftrightarrow>
       (\<exists>x. map_of s vars_additional_key = Some x \<and> truthy x))"
proof -
  have cv: "c = chart_projection s" "v = vars_projection s"
    using assms by (cases s; simp add: derive_projections_def)+
  have sub: "schema_props c = filter (\<lambda>kv. \<not> is_runtime (Some (snd kv))) (schema_props s)"
    "schema_props v = map (\<lambda>kv. (fst kv, strip_marker (snd kv))) (filter (\<lambda>kv. is_runtime (Some (snd kv))) (schema_props s))"
    unfolding cv by (simp_all add: schema_props_def[of "chart_projection s"] schema_props_def[of "vars_projection s"]
        chart_projection_get vars_projection_get obj_or_empty_def)
  have d: "distinct (map fst (schema_props s))"
  proof (cases "map_of s ''properties''")
    case None
    then show ?thesis by (simp add: schema_props_def obj_or_empty_def)
  next
    case (Some x)
    with dict_ok_value[OF assms(2) this] show ?thesis
      by (cases x) (auto simp: schema_props_def obj_or_empty_def)
  qed
  have keys: "set (map fst (schema_props c)) = {k. \<exists>x. map_of (schema_props s) k = Some x \<and> \<not> is_runtime (Some x)}"
    "set (map fst (schema_props v)) = {k. \<exists>x. map_of (schema_props s) k = Some x \<and> is_runtime (Some x)}"
    "set (map fst (schema_props s)) = {k. \<exists>x. map_of (schema_props s) k = Some x}"
    unfolding sub using d by (force simp: image_iff)+
  have req: "schema_required c = filter (\<lambda>r. \<not> required_runtime (schema_props s) r) (schema_required s)"
    "schema_required v = filter (required_runtime (schema_props s)) (schema_required s)"
    unfolding cv by (simp_all add: schema_required_def[of "chart_projection s"]
        schema_required_def[of "vars_projection s"] chart_projection_get vars_projection_get)
  have "k \<in> set (map fst (schema_props v))" if "JStr k \<in> set (schema_required v)" for k
    using that unfolding req keys by (auto simp: required_runtime_def is_runtime_def split: option.splits)
  moreover have "mset (schema_required s) = mset (schema_required c) + mset (schema_required v)"
    unfolding req using multiset_partition[of "mset (schema_required s)" "required_runtime (schema_props s)"]
    by (simp add: union_commute)
  moreover have "set (map fst (schema_props s)) = set (map fst (schema_props c)) \<union> set (map fst (schema_props v))"
    "set (map fst (schema_props c)) \<inter> set (map fst (schema_props v)) = {}"
    "\<forall>k \<in> set (map fst (schema_props v)). is_runtime (map_of (schema_props s) k)"
    unfolding keys by auto
  moreover have "\<forall>k. k \<notin> {''properties'', ''required''} \<longrightarrow>
       map_of c k = (if k \<in> set document_keywords then None else map_of s k)"
    "map_of v ''additionalProperties'' = Some (JBool True) \<longleftrightarrow>
       (\<exists>x. map_of s vars_additional_key = Some x \<and> truthy x)"
    unfolding cv by (simp_all add: chart_projection_get vars_projection_get split: option.splits)
  ultimately show ?thesis by blast
qed

definition demo_schema :: pydict where
  "demo_schema =
     [(''type'', JStr ''object''),
      (''properties'', JObj
         [(''replicas'', JObj [(''type'', JStr ''integer'')]),
          (''TOKEN'', JObj [(''type'', JStr ''string''), (''x-caelus-target'', JStr ''runtime''),
                            (''x-caelus-sensitive'', JBool True)])]),
      (''required'', JList [JStr ''TOKEN'', JStr ''replicas'']),
      (''allOf'', JList []),
      (''x-caelus-vars-additional'', JBool True)]"

lemmas schema_eval = demo_schema_def schema_props_def schema_required_def chart_projection_def vars_projection_def
  obj_or_empty_def is_runtime_def target_key_def sensitive_key_def vars_additional_key_def
  document_keywords_def required_runtime_def strip_marker_def dset_def Let_def

lemma demo_schema_ok: "demo_schema \<noteq> []" "dict_ok demo_schema"
  by (simp_all add: demo_schema_def dict_ok_def)

theorem projections_partition_witness:
  "set (map fst (schema_props (chart_projection demo_schema))) = {''replicas''} \<and>
   set (map fst (schema_props (vars_projection demo_schema))) = {''TOKEN''} \<and>
   map_of (chart_projection demo_schema) ''allOf'' = None \<and>
   map_of (vars_projection demo_schema) ''additionalProperties'' = Some (JBool True)"
proof -
  have "derive_projections (Some demo_schema) =
      \<lparr>pr_chart = Some (chart_projection demo_schema), pr_vars = Some (vars_projection demo_schema)\<rparr>"
    by (simp add: derive_projections_def demo_schema_def)
  note p = projections_partition[OF demo_schema_ok this]
  then have "map_of (chart_projection demo_schema) ''allOf'' = None"
    by (auto simp: document_keywords_def)
  with p show ?thesis by (simp add: schema_eval)
qed

section \<open>Sizes\<close>

lemma find_size_unit:
  "find (\<lambda>(u, d). d \<le> n \<and> n mod d = 0) size_units = Some (u, d) \<Longrightarrow>
     (u, d) \<in> set size_units \<and> 0 < d \<and> d dvd n \<and>
     (\<forall>(u', d') \<in> set size_units. 0 < n \<longrightarrow> d' dvd n \<longrightarrow> d' \<le> d)"
  by (auto simp: size_units_def dvd_eq_mod_eq_0 dest: dvd_imp_le split: if_splits)

text \<open>What a Kubernetes quantity written by the code denotes.\<close>

definition k8s_bytes :: "string \<Rightarrow> nat" where
  "k8s_bytes q =
     nat_of_dec (takeWhile is_dec q) *
     (case map_of size_units (dropWhile is_dec q) of None \<Rightarrow> 1 | Some d \<Rightarrow> d)"

lemma takeWhile_nat_str:
  "u = [] \<or> \<not> is_dec (hd u) \<Longrightarrow>
    takeWhile is_dec (nat_str n @ u) = nat_str n \<and> dropWhile is_dec (nat_str n @ u) = u"
  using nat_str_digits[of n] by (cases u) (auto simp: takeWhile_append dropWhile_append)

lemma unit_no_digit: "(u, d) \<in> set size_units \<Longrightarrow> u \<noteq> [] \<and> \<not> is_dec (hd u) \<and> map_of size_units u = Some d"
  by (auto simp: size_units_def is_dec_def in_range_def cp_def)

text \<open>
  A byte count is projected into Helm values without loss: the quantity written denotes exactly
  the count, so different counts give different quantities; and it is written in the largest binary
  unit that divides the count.
\<close>

theorem bytes_to_k8s_size_exact:
  "k8s_bytes (bytes_to_k8s_size n) = n \<and>
   (\<exists>u m. bytes_to_k8s_size n = nat_str m @ u \<and>
      (\<forall>(u', d') \<in> set size_units. 0 < n \<and> d' dvd n \<longrightarrow> (\<exists>d. (u, d) \<in> set size_units \<and> d' \<le> d)))"
proof (cases "find (\<lambda>(u, d). d \<le> n \<and> n mod d = 0) size_units")
  case None
  then have b: "bytes_to_k8s_size n = nat_str n" by (simp add: bytes_to_k8s_size_def nat_str_0)
  have "\<not> d' dvd n" if "(u', d') \<in> set size_units" "0 < n" for u' d'
  proof
    assume d: "d' dvd n"
    with that have "d' \<le> n" "n mod d' = 0" by (auto dest: dvd_imp_le)
    from None that(1) \<open>d' \<le> n\<close> have "0 < n mod d'" by (fastforce simp: find_None_iff)
    with \<open>n mod d' = 0\<close> show False by simp
  qed
  then have "\<forall>(u', d') \<in> set size_units. \<not> (0 < n \<and> d' dvd n)" by blast
  note none = this
  have "map_of size_units [] = None" by (simp add: size_units_def)
  moreover have "takeWhile is_dec (nat_str n) = nat_str n" "dropWhile is_dec (nat_str n) = []"
    using takeWhile_nat_str[of "[]" n] by simp_all
  ultimately have "k8s_bytes (bytes_to_k8s_size n) = n"
    unfolding b k8s_bytes_def by (simp only: option.case nat_str_roundtrip mult_1_right)
  moreover have "bytes_to_k8s_size n = nat_str n @ []" using b by simp
  ultimately show ?thesis using none by blast
next
  case (Some ud)
  then obtain u d where f: "find (\<lambda>(u, d). d \<le> n \<and> n mod d = 0) size_units = Some (u, d)" by (cases ud) auto
  note fu = find_size_unit[OF f]
  with unit_no_digit have u: "u \<noteq> []" "\<not> is_dec (hd u)" "map_of size_units u = Some d" by blast+
  have "n \<noteq> 0"
  proof
    assume n: "n = 0"
    from f show False unfolding size_units_def n by simp
  qed
  with f have b: "bytes_to_k8s_size n = nat_str (n div d) @ u" by (simp add: bytes_to_k8s_size_def)
  with takeWhile_nat_str[of u "n div d"] u fu show ?thesis
    by (intro conjI exI[of _ u] exI[of _ "n div d"]) (auto simp: k8s_bytes_def nat_str_roundtrip)
qed

theorem bytes_to_k8s_size_exact_witness:
  "k8s_bytes (bytes_to_k8s_size 5368709120) = 5368709120"
  using bytes_to_k8s_size_exact[of 5368709120] by blast

section \<open>Names of vars\<close>

definition var_name_shape :: "string \<Rightarrow> bool" where
  "var_name_shape s \<longleftrightarrow> s \<noteq> [] \<and> length s \<le> 64 \<and> name_start (hd s) \<and> (\<forall>c \<in> set s. name_rest c)"

lemma var_name_re_lang: "s \<in> lang var_name_re \<longleftrightarrow> var_name_shape s"
  by (cases s) (auto simp: var_name_re_def var_name_shape_def Cons_in_seq_cls Nil_in_seq_cls rx_lang name_rest_def
      simp del: lang.simps(4))

lemma var_name_match: "re_match_end var_name_re s \<longleftrightarrow> var_name_shape s \<or> (\<exists>t. s = t @ [newline] \<and> var_name_shape t)"
  by (simp add: re_match_end_lang var_name_re_lang)

lemma check_var_name_ok:
  "check_var_name s = Inr () \<longleftrightarrow>
     re_match_end var_name_re s \<and> s \<notin> set reserved_var_names \<and> (\<forall>p \<in> set reserved_var_prefixes. \<not> starts_with s p)"
  by (auto simp: check_var_name_def find_None_iff find_Some_iff split: option.splits)

text \<open>
  The names \<^verbatim>\<open>check_var_name\<close> accepts: an environment variable name of at most 64 characters that
  is not reserved, or such a name followed by one newline. The newline is not what the check means
  to accept: \<^verbatim>\<open>$\<close> in the pattern also matches before a final newline, so \<^verbatim>\<open>PORT\<close> with a newline passes
  although \<^verbatim>\<open>PORT\<close> is reserved.
\<close>

theorem check_var_name_accepts:
  "(check_var_name s = Inr () \<longleftrightarrow>
     (\<exists>t. (s = t \<or> s = t @ [newline]) \<and> var_name_shape t \<and> s \<notin> set reserved_var_names \<and>
        (\<forall>p \<in> set reserved_var_prefixes. \<not> starts_with s p))) \<and>
   check_var_name ''PORT'' \<noteq> Inr () \<and> check_var_name (''PORT'' @ [newline]) = Inr ()"
proof (intro conjI)
  show "check_var_name s = Inr () \<longleftrightarrow>
     (\<exists>t. (s = t \<or> s = t @ [newline]) \<and> var_name_shape t \<and> s \<notin> set reserved_var_names \<and>
        (\<forall>p \<in> set reserved_var_prefixes. \<not> starts_with s p))"
    unfolding check_var_name_ok var_name_match by blast
  show "check_var_name ''PORT'' \<noteq> Inr ()"
    by (simp add: check_var_name_ok reserved_var_names_def)
  have "var_name_shape ''PORT''"
    by (simp add: var_name_shape_def name_start_def name_rest_def is_upper_def in_range_def cp_def)
  then show "check_var_name (''PORT'' @ [newline]) = Inr ()"
    unfolding check_var_name_ok var_name_match
    by (auto simp: reserved_var_names_def reserved_var_prefixes_def starts_with_def newline_def)
qed

theorem check_var_name_accepts_witness: "check_var_name ''TOKEN'' = Inr ()"
proof -
  have "var_name_shape ''TOKEN''"
    by (simp add: var_name_shape_def name_start_def name_rest_def is_upper_def in_range_def cp_def)
  moreover have "''TOKEN'' \<notin> set reserved_var_names" "\<forall>p \<in> set reserved_var_prefixes. \<not> starts_with ''TOKEN'' p"
    by (simp_all add: reserved_var_names_def reserved_var_prefixes_def starts_with_def)
  ultimately show ?thesis using check_var_name_accepts[of "''TOKEN''"] by blast
qed

section \<open>Coercion of wire strings\<close>

lemma integer_re_dec: "s \<noteq> [] \<Longrightarrow> \<forall>c \<in> set s. is_dec c \<Longrightarrow> re_match_end integer_re s"
  "s \<noteq> [] \<Longrightarrow> \<forall>c \<in> set s. is_dec c \<Longrightarrow> re_match_end integer_re (CHR ''-'' # s)"
proof -
  assume s: "s \<noteq> []" "\<forall>c \<in> set s. is_dec c"
  then have p: "s \<in> lang (rx_plus (RCls is_dec))" by (simp add: rx_lang)
  have "[] \<in> lang sign_re" "[CHR ''-''] \<in> lang sign_re" by (simp_all add: sign_re_def rx_lang)
  with p have "[] @ s \<in> lang integer_re" "[CHR ''-''] @ s \<in> lang integer_re"
    unfolding integer_re_def lang.simps by blast+
  then show "re_match_end integer_re s" "re_match_end integer_re (CHR ''-'' # s)"
    by (simp_all add: re_match_end_lang)
qed

lemma strip_none: "(\<forall>c \<in> set s. \<not> P c) \<Longrightarrow> strip P s = s"
proof -
  assume "\<forall>c \<in> set s. \<not> P c"
  then have "dropWhile P s = s" "dropWhile P (rev s) = rev s"
    by (auto simp: dropWhile_eq_self_iff last_rev hd_rev)
  then show ?thesis by (simp add: strip_def rstrip_def lstrip_def)
qed

lemma dec_not_special: "is_dec c \<Longrightarrow> \<not> is_space c \<and> c \<noteq> CHR ''-'' \<and> c \<noteq> CHR ''+''"
  by (auto simp: is_dec_def is_space_def in_range_def cp_def Let_def)

text \<open>
  A var declared as an integer is validated as the number the user typed: every integer's
  decimal spelling is coerced to that integer, and a string that is no decimal integer is passed
  through as the string, so that the schema rejects it by its type.
\<close>

theorem coerce_var_integer:
  "coerce_var (JStr (int_str i)) (Some (JObj [(''type'', JStr ''integer'')])) = JInt i \<and>
   (\<not> re_match_end integer_re s \<longrightarrow>
      coerce_var (JStr s) (Some (JObj [(''type'', JStr ''integer'')])) = JStr s)"
proof
  define s where "s = nat_str (nat \<bar>i\<bar>)"
  have s: "s \<noteq> []" "\<forall>c \<in> set s. is_dec c" using nat_str_digits by (auto simp: s_def)
  have v: "nat_of_dec s = nat \<bar>i\<bar>" by (simp add: s_def nat_str_roundtrip)
  obtain c cs where c: "s = c # cs" "is_dec c" using s by (cases s) auto
  have sp: "\<forall>c \<in> set s. \<not> is_space c" "\<not> is_space (CHR ''-'')"
    using s dec_not_special by (auto simp: is_space_def cp_def)
  show "coerce_var (JStr (int_str i)) (Some (JObj [(''type'', JStr ''integer'')])) = JInt i"
  proof (cases "i < 0")
    case True
    then have "int_str i = CHR ''-'' # s" by (simp add: int_str_def s_def)
    with True s v sp strip_none[of "CHR ''-'' # s" is_space] show ?thesis
      by (simp add: coerce_var_def integer_re_dec py_int_def)
  next
    case False
    then have "int_str i = s" by (simp add: int_str_def s_def)
    with False s v sp c dec_not_special[of c] strip_none[of s is_space] show ?thesis
      by (simp add: coerce_var_def integer_re_dec py_int_def)
  qed
qed (simp add: coerce_var_def)

theorem coerce_var_integer_witness:
  "coerce_var (JStr ''1_0'') (Some (JObj [(''type'', JStr ''integer'')])) = JStr ''1_0''"
proof -
  have "\<not> re_match_end integer_re ''1_0''" by code_simp
  with coerce_var_integer[of 0 "''1_0''"] show ?thesis by simp
qed

end
