(* ===== verification/HostnamePaths.thy ===== *)
theory HostnamePaths
  imports Json TemplateValues
begin

text \<open>
  Where a template keeps its hostname: reading and writing a value along a path
  (\<^verbatim>\<open>api/app/util.py\<close>), the paths a values schema marks with the title \<^verbatim>\<open>hostname\<close>, and the
  normalization of the value found there, all of \<^verbatim>\<open>api/app/services/deployments.py\<close>. As in the
  code, a path is a sequence of strings in which \<^verbatim>\<open>"*"\<close> stands for the first element of a list.
\<close>

section \<open>Values along a path\<close>

fun walk_path :: "json \<Rightarrow> string list \<Rightarrow> json option" where
  "walk_path v [] = Some v"
| "walk_path v (k # ks) =
     (if k = ''*'' then (case v of JList (x # _) \<Rightarrow> walk_path x ks | _ \<Rightarrow> None)
      else (case v of JObj d \<Rightarrow> (case map_of d k of Some x \<Rightarrow> walk_path x ks | None \<Rightarrow> None) | _ \<Rightarrow> None))"

definition value_for_path :: "pydict option \<Rightarrow> string list \<Rightarrow> json option" where
  "value_for_path data path = walk_path (JObj (dict_or_empty data)) path"

fun put_path :: "json \<Rightarrow> string list \<Rightarrow> json \<Rightarrow> json" where
  "put_path v [] x = v"
| "put_path v [k] x =
     (if k = ''*'' then (case v of JList (_ # ys) \<Rightarrow> JList (x # ys) | _ \<Rightarrow> v)
      else (case v of JObj d \<Rightarrow> JObj (dset k x d) | _ \<Rightarrow> v))"
| "put_path v (k # k' # ks) x =
     (if k = ''*'' then (case v of JList (y # ys) \<Rightarrow> JList (put_path y (k' # ks) x # ys) | _ \<Rightarrow> v)
      else (case v of JObj d \<Rightarrow> (case map_of d k of Some y \<Rightarrow> JObj (dset k (put_path y (k' # ks) x) d) | None \<Rightarrow> v)
            | _ \<Rightarrow> v))"

definition set_value_at_path :: "pydict option \<Rightarrow> string list \<Rightarrow> json \<Rightarrow> pydict option" where
  "set_value_at_path data path x =
     (case data of None \<Rightarrow> None
      | Some d \<Rightarrow> if d = [] \<or> path = [] then Some d
                  else (case put_path (JObj d) path x of JObj d' \<Rightarrow> Some d' | _ \<Rightarrow> Some d))"

section \<open>Hostname paths of a schema\<close>

lemma size_map_of: "map_of d k = Some v \<Longrightarrow> size v < size (JObj d)"
  by (rule json_size_map_of[OF map_of_SomeD])

lemma size_element: "x \<in> set xs \<Longrightarrow> size x < size (JList xs)"
  by (induction xs) auto

definition entry_values :: "json option \<Rightarrow> (string \<times> json) list" where
  "entry_values v = (case v of Some (JObj d) \<Rightarrow> d | _ \<Rightarrow> [])"

definition element_values :: "json option \<Rightarrow> json list" where
  "element_values v = (case v of Some (JList xs) \<Rightarrow> xs | _ \<Rightarrow> [])"

text \<open>\<^verbatim>\<open>schema.get("$defs") or schema.get("definitions")\<close>\<close>

definition schema_definitions :: "pydict \<Rightarrow> json option" where
  "schema_definitions d =
     (case map_of d ''$defs'' of Some v \<Rightarrow> if truthy v then Some v else map_of d ''definitions''
      | None \<Rightarrow> map_of d ''definitions'')"

lemma size_entry_values: "map_of d k = Some v \<Longrightarrow> kv \<in> set (entry_values (Some v)) \<Longrightarrow> size (snd kv) < size (JObj d)"
  using size_map_of[of d k v] json_size_map_of[of "fst kv" "snd kv"]
  by (cases v) (fastforce simp: entry_values_def)+

lemma size_element_values: "map_of d k = Some v \<Longrightarrow> x \<in> set (element_values (Some v)) \<Longrightarrow> size x < size (JObj d)"
  using size_map_of[of d k v] size_element[of x]
  by (cases v) (fastforce simp: element_values_def)+

lemma entry_values_None [simp]: "entry_values None = []"
  by (simp add: entry_values_def)

lemma element_values_None [simp]: "element_values None = []"
  by (simp add: element_values_def)

lemma size_entry_get: "kv \<in> set (entry_values (map_of d k)) \<Longrightarrow> size (snd kv) < size (JObj d)"
  by (cases "map_of d k") (simp_all add: size_entry_values del: json.size)

lemma size_element_get: "x \<in> set (element_values (map_of d k)) \<Longrightarrow> size x < size (JObj d)"
  by (cases "map_of d k") (simp_all add: size_element_values del: json.size)

lemma size_definitions: "kv \<in> set (entry_values (schema_definitions d)) \<Longrightarrow> size (snd kv) < size (JObj d)"
  by (auto simp: schema_definitions_def size_entry_get size_entry_values simp del: json.size split: option.splits if_splits)

definition sub_object :: "json option \<Rightarrow> json list" where
  "sub_object v = (case v of Some (JObj d) \<Rightarrow> [JObj d] | _ \<Rightarrow> [])"

lemma size_sub_object: "x \<in> set (sub_object (map_of d k)) \<Longrightarrow> size x < size (JObj d)"
  using size_map_of[of d k x] by (auto simp: sub_object_def simp del: json.size split: option.splits json.splits)

definition titled_hostname :: "pydict \<Rightarrow> bool" where
  "titled_hostname d = (case map_of d ''title'' of Some (JStr t) \<Rightarrow> lower t = ''hostname'' | _ \<Rightarrow> False)"

function iter_hostname_paths :: "json \<Rightarrow> string list \<Rightarrow> string list list" where
  "iter_hostname_paths (JObj d) path =
     (if path \<noteq> [] \<and> titled_hostname d then [path] else []) @
     concat (map (\<lambda>kv. iter_hostname_paths (snd kv) (path @ [fst kv])) (entry_values (map_of d ''properties''))) @
     concat (map (\<lambda>x. iter_hostname_paths x (path @ [''*''])) (sub_object (map_of d ''items'') @ element_values (map_of d ''items''))) @
     concat (map (\<lambda>x. iter_hostname_paths x path) (element_values (map_of d ''allOf''))) @
     concat (map (\<lambda>x. iter_hostname_paths x path) (element_values (map_of d ''anyOf''))) @
     concat (map (\<lambda>x. iter_hostname_paths x path) (element_values (map_of d ''oneOf''))) @
     concat (map (\<lambda>x. iter_hostname_paths x path) (element_values (map_of d ''prefixItems''))) @
     concat (map (\<lambda>x. iter_hostname_paths x path) (sub_object (map_of d ''additionalProperties''))) @
     concat (map (\<lambda>kv. iter_hostname_paths (snd kv) path) (entry_values (schema_definitions d)))"
| "iter_hostname_paths (JList xs) path = concat (map (\<lambda>x. iter_hostname_paths x path) xs)"
| "iter_hostname_paths JNull path = []"
| "iter_hostname_paths (JBool b) path = []"
| "iter_hostname_paths (JInt i) path = []"
| "iter_hostname_paths (JFloat s) path = []"
| "iter_hostname_paths (JStr s) path = []"
  by pat_completeness auto
termination
  by (relation "measure (\<lambda>(v, _). size v)")
    (auto simp: size_entry_get size_element_get size_sub_object size_definitions size_element simp del: json.size)

section \<open>Normalization\<close>

text \<open>
  \<open>str_of\<close> is Python's \<^verbatim>\<open>str\<close> on a value that is not a string; \<open>complete\<close> validates the lowercased
  value and returns the name to store. Only the first path of the schema is looked at. The result
  is the hostname with the values it was written back into.
\<close>

definition normalize_hostname ::
  "(json \<Rightarrow> string) \<Rightarrow> (string \<Rightarrow> string result) \<Rightarrow> pydict option \<Rightarrow> pydict option \<Rightarrow>
     (string option \<times> pydict option) result"
where
  "normalize_hostname str_of complete schema values =
     (case schema of None \<Rightarrow> Inr (None, values)
      | Some sch \<Rightarrow>
        (case iter_hostname_paths (JObj sch) [] of [] \<Rightarrow> Inr (None, values)
         | path # _ \<Rightarrow>
           (case value_for_path values path of None \<Rightarrow> Inr (None, values)
            | Some v \<Rightarrow>
                if v = JNull then Inr (None, values)
                else bindR (complete (lower (case v of JStr s \<Rightarrow> s | _ \<Rightarrow> str_of v))) (\<lambda>hostname.
                       Inr (Some hostname, set_value_at_path values path (JStr hostname))))))"

section \<open>What is written back is what is read\<close>

lemma put_path_step:
  "ks \<noteq> [] \<Longrightarrow> put_path v (k # ks) x =
     (if k = ''*'' then (case v of JList (y # ys) \<Rightarrow> JList (put_path y ks x # ys) | _ \<Rightarrow> v)
      else (case v of JObj d \<Rightarrow> (case map_of d k of Some y \<Rightarrow> JObj (dset k (put_path y ks x) d) | None \<Rightarrow> v) | _ \<Rightarrow> v))"
  by (cases ks) auto

lemma walk_put_path:
  "walk_path v p = Some y \<Longrightarrow> p \<noteq> [] \<Longrightarrow> walk_path (put_path v p x) p = Some x"
proof (induction p arbitrary: v)
  case (Cons k ks)
  show ?case
  proof (cases "ks = []")
    case True
    with Cons.prems show ?thesis by (auto split: if_splits json.splits list.splits option.splits)
  next
    case False
    note ih = Cons.IH[OF _ False]
    consider (star) z zs where "k = ''*''" "v = JList (z # zs)" "walk_path z ks = Some y"
      | (key) d z where "k \<noteq> ''*''" "v = JObj d" "map_of d k = Some z" "walk_path z ks = Some y"
      using Cons.prems(1) by (auto split: if_splits json.splits list.splits option.splits)
    then show ?thesis
    proof cases
      case star
      with ih[OF star(3)] show ?thesis by (simp only: put_path_step[OF False]) simp
    next
      case key
      with ih[OF key(4)] show ?thesis by (simp only: put_path_step[OF False]) simp
    qed
  qed
qed simp

lemma put_path_obj: "\<exists>d'. put_path (JObj d) p x = JObj d'"
  by (cases p rule: list.exhaust; cases "tl p") (auto split: option.splits)

lemma value_after_set:
  assumes "value_for_path data p = Some y" "p \<noteq> []"
  shows "value_for_path (set_value_at_path data p x) p = Some x"
proof (cases "dict_or_empty data")
  case Nil
  with assms show ?thesis
    by (cases p) (auto simp: value_for_path_def split: if_splits)
next
  case (Cons kv d)
  then have d: "data = Some (kv # d)" by (simp add: dict_or_empty_def split: option.splits)
  obtain d' where d': "put_path (JObj (kv # d)) p x = JObj d'" using put_path_obj by blast
  have "walk_path (JObj (kv # d)) p = Some y" using assms(1) d by (simp add: value_for_path_def dict_or_empty_def)
  then have "walk_path (JObj d') p = Some x" using walk_put_path assms(2) d' by metis
  with d d' assms(2) show ?thesis by (simp add: set_value_at_path_def value_for_path_def dict_or_empty_def)
qed

lemma iter_hostname_paths_nonempty: "path \<in> set (iter_hostname_paths v p) \<Longrightarrow> path \<noteq> []"
  by (induction v p rule: iter_hostname_paths.induct) (auto split: if_splits)

text \<open>A hostname is returned only for a path the schema marks, completed from the value there.\<close>

lemma normalize_hostname_Some:
  assumes "normalize_hostname str_of complete schema values = Inr (Some h, values')"
  obtains sch path rest v where "schema = Some sch" "iter_hostname_paths (JObj sch) [] = path # rest"
    "value_for_path values path = Some v" "complete (lower (case v of JStr s \<Rightarrow> s | _ \<Rightarrow> str_of v)) = Inr h"
    "values' = set_value_at_path values path (JStr h)" "value_for_path values' path = Some (JStr h)"
proof -
  from assms obtain sch path rest v where a: "schema = Some sch" "iter_hostname_paths (JObj sch) [] = path # rest"
    "value_for_path values path = Some v" "complete (lower (case v of JStr s \<Rightarrow> s | _ \<Rightarrow> str_of v)) = Inr h"
    "values' = set_value_at_path values path (JStr h)"
    by (auto simp: normalize_hostname_def result_simps simp del: iter_hostname_paths.simps
        split: option.splits list.splits if_splits)
  have "path \<noteq> []" by (rule iter_hostname_paths_nonempty[of path "JObj sch" "[]"]) (simp only: a(2) list.set_intros(1))
  with a value_after_set[OF a(3)] that show thesis by auto
qed

lemma normalize_hostname_None:
  "normalize_hostname str_of complete schema values = Inr (None, values') \<Longrightarrow> values' = values"
  by (auto simp: normalize_hostname_def result_simps simp del: iter_hostname_paths.simps
      split: option.splits list.splits if_splits)

section \<open>Where a schema keeps what\<close>

text \<open>
  A schema keeps at a path what one of its subschemas says: down the properties by their names, into the
  elements of an array by \<^verbatim>\<open>*\<close>, and through the combinators and the definitions at the same place.
\<close>

inductive schema_keeps :: "json \<Rightarrow> string list \<Rightarrow> pydict \<Rightarrow> bool" where
  here: "schema_keeps (JObj d) [] d"
| property: "(k, v) \<in> set (entry_values (map_of d ''properties'')) \<Longrightarrow> schema_keeps v p e \<Longrightarrow> schema_keeps (JObj d) (k # p) e"
| item: "v \<in> set (sub_object (map_of d ''items'') @ element_values (map_of d ''items'')) \<Longrightarrow> schema_keeps v p e \<Longrightarrow>
    schema_keeps (JObj d) (''*'' # p) e"
| part: "k \<in> {''allOf'', ''anyOf'', ''oneOf'', ''prefixItems''} \<Longrightarrow> v \<in> set (element_values (map_of d k)) \<Longrightarrow> schema_keeps v p e \<Longrightarrow>
    schema_keeps (JObj d) p e"
| additional: "v \<in> set (sub_object (map_of d ''additionalProperties'')) \<Longrightarrow> schema_keeps v p e \<Longrightarrow> schema_keeps (JObj d) p e"
| def_entry: "(k, v) \<in> set (entry_values (schema_definitions d)) \<Longrightarrow> schema_keeps v p e \<Longrightarrow> schema_keeps (JObj d) p e"
| element: "v \<in> set xs \<Longrightarrow> schema_keeps v p e \<Longrightarrow> schema_keeps (JList xs) p e"

lemma iter_hostname_paths_sound:
  "q \<in> set (iter_hostname_paths v path) \<Longrightarrow> \<exists>p d. q = path @ p \<and> schema_keeps v p d \<and> titled_hostname d"
proof (induction v path arbitrary: q rule: iter_hostname_paths.induct)
  case (1 d path)
  from 1(9) consider "path \<noteq> []" "titled_hostname d" "q = path"
    | kv where "kv \<in> set (entry_values (map_of d ''properties''))" "q \<in> set (iter_hostname_paths (snd kv) (path @ [fst kv]))"
    | x where "x \<in> set (sub_object (map_of d ''items'') @ element_values (map_of d ''items''))" "q \<in> set (iter_hostname_paths x (path @ [''*'']))"
    | x where "x \<in> set (element_values (map_of d ''allOf''))" "q \<in> set (iter_hostname_paths x path)"
    | x where "x \<in> set (element_values (map_of d ''anyOf''))" "q \<in> set (iter_hostname_paths x path)"
    | x where "x \<in> set (element_values (map_of d ''oneOf''))" "q \<in> set (iter_hostname_paths x path)"
    | x where "x \<in> set (element_values (map_of d ''prefixItems''))" "q \<in> set (iter_hostname_paths x path)"
    | x where "x \<in> set (sub_object (map_of d ''additionalProperties''))" "q \<in> set (iter_hostname_paths x path)"
    | kv where "kv \<in> set (entry_values (schema_definitions d))" "q \<in> set (iter_hostname_paths (snd kv) path)"
    by (auto split: if_splits)
  then show ?case
  proof cases
    case 1
    then show ?thesis using here by blast
  next
    case (2 kv)
    from "1.IH"(1)[OF 2] obtain p e where "q = (path @ [fst kv]) @ p" "schema_keeps (snd kv) p e" "titled_hostname e" by blast
    moreover have "(fst kv, snd kv) \<in> set (entry_values (map_of d ''properties''))" using 2(1) by simp
    ultimately show ?thesis using property by (metis append.assoc append_Cons append_Nil)
  next
    case (3 x)
    from "1.IH"(2)[OF 3] obtain p e where "q = (path @ [''*'']) @ p" "schema_keeps x p e" "titled_hostname e" by blast
    then show ?thesis using item[OF 3(1)] by (metis append.assoc append_Cons append_Nil)
  next
    case (4 x)
    from "1.IH"(3)[OF 4] show ?thesis using part[of "''allOf''", OF _ 4(1)] by blast
  next
    case (5 x)
    from "1.IH"(4)[OF 5] show ?thesis using part[of "''anyOf''", OF _ 5(1)] by blast
  next
    case (6 x)
    from "1.IH"(5)[OF 6] show ?thesis using part[of "''oneOf''", OF _ 6(1)] by blast
  next
    case (7 x)
    from "1.IH"(6)[OF 7] show ?thesis using part[of "''prefixItems''", OF _ 7(1)] by blast
  next
    case (8 x)
    from "1.IH"(7)[OF 8] show ?thesis using additional[OF 8(1)] by blast
  next
    case (9 kv)
    from "1.IH"(8)[OF 9] show ?thesis using def_entry[of "fst kv" "snd kv"] 9(1) by (metis prod.collapse)
  qed
next
  case (2 xs path)
  then show ?case using element by fastforce
qed simp_all

end
