(* ===== verification/Naming.thy ===== *)
theory Naming
  imports Rx Interfaces
begin

text \<open>
  Names of Helm releases and namespaces, \<^verbatim>\<open>api/app/services/reconcile_naming.py\<close>: slugs, trimmed
  bases, random base-36 suffixes and the checked assembly. The random source behind
  \<^verbatim>\<open>secrets.choice\<close> is a function from draws to numbers.
\<close>

section \<open>Definitions\<close>

definition is_alnum :: "char \<Rightarrow> bool" where
  "is_alnum c \<longleftrightarrow> is_lower c \<or> is_dec c"

definition is_label_char :: "char \<Rightarrow> bool" where
  "is_label_char c \<longleftrightarrow> is_alnum c \<or> c = CHR ''-''"

text \<open>\<^verbatim>\<open>[a-z0-9]([a-z0-9-]{0,61}[a-z0-9])?\<close>, \<^verbatim>\<open>[0-9a-z]{6}\<close> and \<^verbatim>\<open>[0-9a-z]{9}\<close>\<close>

definition dns_label_re :: rx where
  "dns_label_re =
     RSeq (RCls is_alnum) (rx_opt (RSeq (rx_upto 61 (RCls is_label_char)) (RCls is_alnum)))"

definition suffix6_re :: rx where
  "suffix6_re = rx_exactly 6 (RCls is_alnum)"

definition suffix9_re :: rx where
  "suffix9_re = rx_exactly 9 (RCls is_alnum)"

text \<open>\<^verbatim>\<open>re.compile(r"[...]+").sub(r, s)\<close>: each maximal run becomes one replacement.\<close>

function sub_runs :: "(char \<Rightarrow> bool) \<Rightarrow> char \<Rightarrow> string \<Rightarrow> string" where
  "sub_runs P r [] = []"
| "sub_runs P r (c # cs) =
     (if P c then r # sub_runs P r (dropWhile P cs) else c # sub_runs P r cs)"
  by pat_completeness auto
termination
  by (relation "measure (\<lambda>(P, r, s). length s)") (auto simp: length_dropWhile_le less_Suc_eq_le)

definition slugify_token :: "string \<Rightarrow> string" where
  "slugify_token value =
     (let lowered = lower value;
          replaced = sub_runs (\<lambda>c. \<not> is_alnum c) (CHR ''-'') lowered;
          collapsed = sub_runs (\<lambda>c. c = CHR ''-'') (CHR ''-'') replaced
      in strip (\<lambda>c. c = CHR ''-'') collapsed)"

definition is_valid_dns_label :: "string \<Rightarrow> bool" where
  "is_valid_dns_label s = re_fullmatch dns_label_re s"

definition base36 :: string where
  "base36 = ''0123456789abcdefghijklmnopqrstuvwxyz''"

definition generate_suffix :: "nat \<Rightarrow> (nat \<Rightarrow> nat) \<Rightarrow> string" where
  "generate_suffix n rnd = map (\<lambda>i. base36 ! (rnd i mod length base36)) [0..<n]"

definition trim_base :: "string \<Rightarrow> nat \<Rightarrow> string" where
  "trim_base base max_len =
     (let trimmed = strip (\<lambda>c. c = CHR ''-'') (take max_len base)
      in if trimmed \<noteq> [] then trimmed else ''dep'')"

definition normalize_suffix6 :: "string \<Rightarrow> string result" where
  "normalize_suffix6 s =
     (if re_fullmatch suffix6_re s then Inr s else Inl (PyValueError ''suffix must match [0-9a-z]{6}''))"

definition normalize_suffix9 :: "string \<Rightarrow> string result" where
  "normalize_suffix9 s =
     (if re_fullmatch suffix9_re s then Inr s else Inl (PyValueError ''suffix must match [0-9a-z]{9}''))"

definition generate_deployment_name ::
  "(nat \<Rightarrow> nat) \<Rightarrow> string \<Rightarrow> string option \<Rightarrow> string result"
where
  "generate_deployment_name rnd product_name suffix =
     bindR (case suffix of Some s \<Rightarrow> normalize_suffix6 s | None \<Rightarrow> Inr (generate_suffix 6 rnd)) (\<lambda>sfx.
       let name = trim_base (slugify_token product_name) 20 @ ''-'' @ sfx
       in if length name > 27 \<or> \<not> is_valid_dns_label name
          then Inl (PyValueError ''generated deployment name is not a valid DNS label'')
          else Inr name)"

definition generate_deployment_namespace ::
  "(nat \<Rightarrow> nat) \<Rightarrow> string \<Rightarrow> string \<Rightarrow> string option \<Rightarrow> string result"
where
  "generate_deployment_namespace rnd product_name user_email suffix =
     (let product = trim_base (slugify_token product_name) 20;
          local_part = trim_base (slugify_token (before_first (CHR ''@'') user_email)) 10
      in bindR (case suffix of Some s \<Rightarrow> normalize_suffix9 s | None \<Rightarrow> Inr (generate_suffix 9 rnd)) (\<lambda>sfx.
           let namespace = product @ ''-'' @ local_part @ ''-'' @ sfx
           in if length namespace > 41 \<or> \<not> is_valid_dns_label namespace
              then Inl (PyValueError ''generated deployment namespace is not a valid DNS label'')
              else Inr namespace))"

section \<open>Slugs and bases\<close>

text \<open>A base that can be joined with hyphens: nonempty, of label characters, with alphanumeric ends.\<close>

abbreviation slug_like :: "string \<Rightarrow> bool" where
  "slug_like \<equiv> bounded_by is_alnum is_label_char"

lemma alnum_label: "is_alnum c \<Longrightarrow> is_label_char c"
  by (simp add: is_label_char_def)

lemma hyphen_not_alnum [simp]: "\<not> is_alnum (CHR ''-'')"
  by (simp add: is_alnum_def is_lower_def is_dec_def in_range_def cp_def)

lemma label_hyphen [simp]: "is_label_char (CHR ''-'')"
  by (simp add: is_label_char_def)

lemma dns_label_lang:
  "is_valid_dns_label s \<longleftrightarrow> slug_like s \<and> length s \<le> 63"
proof -
  have L: "lang (rx_upto 61 (RCls is_label_char)) = {w. length w \<le> 61 \<and> (\<forall>c \<in> set w. is_label_char c)}"
    by (simp add: rx_lang)
  show ?thesis
    unfolding is_valid_dns_label_def re_fullmatch_lang dns_label_re_def
    using lang_bounded[OF alnum_label L, where s = s]
    by (cases s) (auto simp: bounded_by_def simp del: lang.simps)
qed

lemma set_sub_runs: "set (sub_runs P r s) \<subseteq> insert r {c \<in> set s. \<not> P c}"
  by (induction P r s rule: sub_runs.induct) (auto dest: set_dropWhileD)

lemma slugify_chars: "c \<in> set (slugify_token s) \<Longrightarrow> is_label_char c"
proof -
  assume "c \<in> set (slugify_token s)"
  then have "c \<in> set (sub_runs (\<lambda>c. c = CHR ''-'') (CHR ''-'')
      (sub_runs (\<lambda>c. \<not> is_alnum c) (CHR ''-'') (lower s)))"
    by (auto simp: slugify_token_def strip_def rstrip_def lstrip_def Let_def dest!: set_dropWhileD)
  then have "c = CHR ''-'' \<or> c \<in> set (sub_runs (\<lambda>c. \<not> is_alnum c) (CHR ''-'') (lower s))"
    using set_sub_runs by blast
  then show ?thesis using set_sub_runs by (fastforce simp: is_label_char_def)
qed

lemma trim_base_slug:
  assumes "\<forall>c \<in> set s. is_label_char c"
  shows "slug_like (trim_base s n)" "length (trim_base s n) \<le> max n 3"
proof -
  let ?t = "strip (\<lambda>c. c = CHR ''-'') (take n s)"
  have dep: "slug_like ''dep''"
    by (simp add: bounded_by_def is_label_char_def is_alnum_def is_lower_def in_range_def cp_def)
  have c: "\<forall>c \<in> set ?t. is_label_char c"
    using assms strip_subset[of _ "take n s"] set_take_subset[of n s] by blast
  have "slug_like ?t" if "?t \<noteq> []"
  proof -
    have "is_alnum (hd ?t)" "is_alnum (last ?t)"
      using strip_ends[OF that] c that by (auto simp: is_label_char_def)
    with c that show ?thesis by (simp add: bounded_by_def)
  qed
  with dep show "slug_like (trim_base s n)" by (simp add: trim_base_def Let_def)
  show "length (trim_base s n) \<le> max n 3"
    using length_strip[of "\<lambda>c. c = CHR ''-''" "take n s"] by (auto simp: trim_base_def Let_def)
qed

lemma trim_slug:
  "slug_like (trim_base (slugify_token s) n)" "length (trim_base (slugify_token s) n) \<le> max n 3"
  using trim_base_slug slugify_chars by blast+

lemma slug_join: "slug_like a \<Longrightarrow> slug_like b \<Longrightarrow> slug_like (a @ CHR ''-'' # b)"
  by (auto simp: bounded_by_def)

lemma base36_alnum: "\<forall>c \<in> set base36. is_alnum c"
  by (simp add: base36_def is_alnum_def is_lower_def is_dec_def in_range_def cp_def)

lemma generate_suffix_shape:
  "length (generate_suffix n rnd) = n" "\<forall>c \<in> set (generate_suffix n rnd). is_alnum c"
proof -
  have "base36 ! (k mod length base36) \<in> set base36" for k
    by (intro nth_mem mod_less_divisor) (simp add: base36_def)
  with base36_alnum show "\<forall>c \<in> set (generate_suffix n rnd). is_alnum c"
    by (auto simp: generate_suffix_def)
qed (simp add: generate_suffix_def)

lemma alnum_slug: "0 < length s \<Longrightarrow> \<forall>c \<in> set s. is_alnum c \<Longrightarrow> slug_like s"
  using alnum_label by (auto simp: bounded_by_def)

lemma suffix_lang:
  "re_fullmatch suffix6_re s \<longleftrightarrow> length s = 6 \<and> (\<forall>c \<in> set s. is_alnum c)"
  "re_fullmatch suffix9_re s \<longleftrightarrow> length s = 9 \<and> (\<forall>c \<in> set s. is_alnum c)"
  unfolding re_fullmatch_lang suffix6_re_def suffix9_re_def lang_exactly_cls by simp_all

lemma name_assembly:
  assumes "slug_like sfx" "length sfx = 6"
  shows "length (trim_base (slugify_token p) 20 @ ''-'' @ sfx) \<le> 27"
    "is_valid_dns_label (trim_base (slugify_token p) 20 @ ''-'' @ sfx)"
  using trim_slug(1)[of p 20] trim_slug(2)[of p 20] slug_join[OF _ assms(1), of "trim_base (slugify_token p) 20"]
    assms by (simp_all add: dns_label_lang)

lemma namespace_assembly:
  assumes "slug_like sfx" "length sfx = 9"
  shows "length (trim_base (slugify_token p) 20 @ ''-'' @ trim_base (slugify_token e) 10 @ ''-'' @ sfx) \<le> 41"
    "is_valid_dns_label (trim_base (slugify_token p) 20 @ ''-'' @ trim_base (slugify_token e) 10 @ ''-'' @ sfx)"
proof -
  note l = trim_slug(2)[of p 20] trim_slug(2)[of e 10]
  then show "length (trim_base (slugify_token p) 20 @ ''-'' @ trim_base (slugify_token e) 10 @ ''-'' @ sfx) \<le> 41"
    using assms by simp
  show "is_valid_dns_label (trim_base (slugify_token p) 20 @ ''-'' @ trim_base (slugify_token e) 10 @ ''-'' @ sfx)"
    unfolding dns_label_lang
    using l assms slug_join[OF trim_slug(1)[of p 20] slug_join[OF trim_slug(1)[of e 10] assms(1)]] by simp
qed

section \<open>Generated names\<close>

lemma generate_deployment_name_eq:
  "generate_deployment_name rnd p suffix =
     (case suffix of
        None \<Rightarrow> Inr (trim_base (slugify_token p) 20 @ ''-'' @ generate_suffix 6 rnd)
      | Some s \<Rightarrow> if length s = 6 \<and> (\<forall>c \<in> set s. is_alnum c)
                  then Inr (trim_base (slugify_token p) 20 @ ''-'' @ s)
                  else Inl (PyValueError ''suffix must match [0-9a-z]{6}''))"
proof -
  have ok: "length (trim_base (slugify_token p) 20 @ ''-'' @ s) \<le> 27 \<and>
      is_valid_dns_label (trim_base (slugify_token p) 20 @ ''-'' @ s)"
    if "length s = 6" "\<forall>c \<in> set s. is_alnum c" for s
    using name_assembly[OF alnum_slug[of s]] that by simp
  note g = ok[OF generate_suffix_shape[of 6 rnd]]
  show ?thesis
  proof (cases suffix)
    case None
    with g show ?thesis by (simp add: generate_deployment_name_def Let_def)
  next
    case (Some s)
    with ok[of s] show ?thesis
      by (auto simp: generate_deployment_name_def Let_def normalize_suffix6_def suffix_lang)
  qed
qed

lemma generate_deployment_namespace_eq:
  "generate_deployment_namespace rnd p email suffix =
     (let base = trim_base (slugify_token p) 20 @ ''-'' @
                 trim_base (slugify_token (before_first (CHR ''@'') email)) 10 @ ''-''
      in case suffix of
        None \<Rightarrow> Inr (base @ generate_suffix 9 rnd)
      | Some s \<Rightarrow> if length s = 9 \<and> (\<forall>c \<in> set s. is_alnum c) then Inr (base @ s)
                  else Inl (PyValueError ''suffix must match [0-9a-z]{9}''))"
proof -
  let ?e = "before_first (CHR ''@'') email"
  have ok: "length (trim_base (slugify_token p) 20 @ ''-'' @ trim_base (slugify_token ?e) 10 @ ''-'' @ s) \<le> 41 \<and>
      is_valid_dns_label (trim_base (slugify_token p) 20 @ ''-'' @ trim_base (slugify_token ?e) 10 @ ''-'' @ s)"
    if "length s = 9" "\<forall>c \<in> set s. is_alnum c" for s
    using namespace_assembly[OF alnum_slug[of s]] that by simp
  note g = ok[OF generate_suffix_shape[of 9 rnd]]
  show ?thesis
  proof (cases suffix)
    case None
    with g show ?thesis by (simp add: generate_deployment_namespace_def Let_def)
  next
    case (Some s)
    with ok[of s] show ?thesis
      by (auto simp: generate_deployment_namespace_def Let_def normalize_suffix9_def suffix_lang)
  qed
qed

text \<open>
  Naming is total: whatever the product is called and whatever the address of its owner, the
  generated release name and namespace are valid DNS labels of at most 27 and 41 characters, so the
  check at the end of each generator never fires.
\<close>

theorem generated_names_valid:
  "\<exists>name namespace.
     generate_deployment_name rnd product None = Inr name \<and>
     generate_deployment_namespace rnd' product email None = Inr namespace \<and>
     is_valid_dns_label name \<and> length name \<le> 27 \<and>
     is_valid_dns_label namespace \<and> length namespace \<le> 41"
proof -
  have sfx: "slug_like (generate_suffix n r)" if "0 < n" for n r
    using that by (intro alnum_slug) (simp_all add: generate_suffix_shape)
  show ?thesis
    using name_assembly[OF sfx[of 6 rnd] generate_suffix_shape(1), of product]
      namespace_assembly[OF sfx[of 9 rnd'] generate_suffix_shape(1), of product "before_first (CHR ''@'') email"]
    by (simp add: generate_deployment_name_eq generate_deployment_namespace_eq Let_def)
qed

end
