(* ===== verification/Jobs.thy ===== *)
theory Jobs
  imports Interfaces
begin

text \<open>
  The reconcile job queue, \<^verbatim>\<open>api/app/services/jobs.py\<close> over the table
  \<^verbatim>\<open>deployment_reconcile_job\<close> of \<^verbatim>\<open>api/app/models/core.py\<close>: enqueueing under the partial
  unique index, claiming with leases and SKIP LOCKED, deferring, completing conditionally on the
  lease, listing and deduplicating. Rows other transactions hold locked are a parameter
  (\<open>skip\<close>); the lease is \<^verbatim>\<open>lease_interval()\<close>.
\<close>

section \<open>State\<close>

datatype job_status = JQueued | JRunning | JDone | JFailed

datatype job_reason = ForCreate | ForUpdate | ForDelete | ForPower

record job =
  job_id :: nat
  job_dep :: uuid
  job_reason :: job_reason
  job_status :: job_status
  job_run_after :: time
  job_attempt :: nat
  job_locked_by :: "string option"
  job_locked_at :: "time option"
  job_last_error :: "string option"
  job_created_at :: time
  job_updated_at :: time

record job_table =
  jt_rows :: "job list"
  jt_next :: nat

text \<open>The index \<^verbatim>\<open>uq_open_reconcile_job_per_deployment\<close> ranges over these rows.\<close>

definition job_open :: "job \<Rightarrow> bool" where
  "job_open j \<longleftrightarrow> job_status j \<in> {JQueued, JRunning}"

definition open_job_for :: "job_table \<Rightarrow> uuid \<Rightarrow> bool" where
  "open_job_for jt d = slot_taken job_dep job_open d (jt_rows jt)"

section \<open>Operations\<close>

text \<open>
  \<open>known\<close> says which deployments exist: the insert raises an \<open>IntegrityError\<close> for the unique
  index and for the foreign key alike, and the code turns both into the same exception.
\<close>

definition enqueue_job ::
  "(uuid \<Rightarrow> bool) \<Rightarrow> time \<Rightarrow> job_reason \<Rightarrow> time option \<Rightarrow> uuid \<Rightarrow> job_table \<Rightarrow> (job \<times> job_table) result"
where
  "enqueue_job known now reason run_after d jt =
     (if open_job_for jt d \<or> \<not> known d
      then Inl (InProgressErr ''A deployment job is already queued or running'')
      else let j = \<lparr>job_id = jt_next jt, job_dep = d, job_reason = reason, job_status = JQueued,
                    job_run_after = (case run_after of None \<Rightarrow> now | Some t \<Rightarrow> t),
                    job_attempt = 0, job_locked_by = None, job_locked_at = None,
                    job_last_error = None, job_created_at = now, job_updated_at = now\<rparr>
           in Inr (j, jt\<lparr>jt_rows := jt_rows jt @ [j], jt_next := Suc (jt_next jt)\<rparr>))"

definition job_order :: "job \<Rightarrow> time \<times> nat" where
  "job_order j = (job_run_after j, job_id j)"

definition list_jobs :: "job_status list \<Rightarrow> uuid option \<Rightarrow> nat \<Rightarrow> job_table \<Rightarrow> job list" where
  "list_jobs statuses d limit jt =
     take limit (sort_key job_order
       (filter (\<lambda>j. (statuses \<noteq> [] \<longrightarrow> job_status j \<in> set statuses) \<and>
                    (case d of None \<Rightarrow> True | Some d' \<Rightarrow> job_dep j = d')) (jt_rows jt)))"

definition claimable :: "time \<Rightarrow> time \<Rightarrow> job \<Rightarrow> bool" where
  "claimable now cutoff j \<longleftrightarrow>
     (job_status j = JQueued \<and> job_run_after j \<le> now) \<or>
     (job_status j = JRunning \<and>
       (case job_locked_at j of None \<Rightarrow> True | Some t \<Rightarrow> t < cutoff))"

text \<open>What a claim writes; \<open>attempt\<close> counts the leases taken over from a dead worker.\<close>

definition claim_row :: "time \<Rightarrow> string \<Rightarrow> job \<Rightarrow> job" where
  "claim_row now w j =
     j\<lparr>job_status := JRunning, job_locked_by := Some w, job_locked_at := Some now,
       job_updated_at := now,
       job_attempt := (if job_status j = JRunning then Suc (job_attempt j) else job_attempt j)\<rparr>"

definition claim_next_job ::
  "(job \<Rightarrow> bool) \<Rightarrow> nat \<Rightarrow> time \<Rightarrow> string \<Rightarrow> job_table \<Rightarrow> job option \<times> job_table"
where
  "claim_next_job skip lease now w jt =
     (case first_by job_order
             (filter (\<lambda>j. claimable now (now - int lease) j \<and> \<not> skip j) (jt_rows jt)) of
        None \<Rightarrow> (None, jt)
      | Some j \<Rightarrow>
          (Some (claim_row now w j),
           jt\<lparr>jt_rows := row_upd job_id (job_id j) (claim_row now w) (jt_rows jt)\<rparr>))"

definition held_by :: "string option \<Rightarrow> job \<Rightarrow> bool" where
  "held_by worker j \<longleftrightarrow> (case worker of None \<Rightarrow> True | Some w \<Rightarrow> job_locked_by j = Some w)"

text \<open>
  \<^verbatim>\<open>UPDATE ... WHERE id = :id [AND locked_by = :worker]\<close>. The unique index is checked on the
  rows it leaves: reopening a finished job while another is open is an uncaught constraint error.
\<close>

definition update_job ::
  "nat \<Rightarrow> string option \<Rightarrow> (job \<Rightarrow> job) \<Rightarrow> job_table \<Rightarrow> (job \<times> job_table) result"
where
  "update_job jid worker f jt =
     (case row_get job_id jid (jt_rows jt) of
        None \<Rightarrow> Inl (NotFoundErr ''Job not found'')
      | Some j \<Rightarrow>
          let rows' = row_upd job_id jid (\<lambda>j. if held_by worker j then f j else j) (jt_rows jt)
          in if one_open job_dep job_open rows'
             then Inr (if held_by worker j then f j else j, jt\<lparr>jt_rows := rows'\<rparr>)
             else Inl (DbIntegrityError ''uq_open_reconcile_job_per_deployment''))"

definition defer_job ::
  "time \<Rightarrow> nat \<Rightarrow> time \<Rightarrow> string option \<Rightarrow> job_table \<Rightarrow> (job \<times> job_table) result"
where
  "defer_job now jid delay worker jt =
     update_job jid worker
       (\<lambda>j. j\<lparr>job_status := JQueued, job_run_after := now + delay, job_locked_by := None,
              job_locked_at := None, job_updated_at := now\<rparr>) jt"

definition complete_job ::
  "time \<Rightarrow> nat \<Rightarrow> job_status \<Rightarrow> string option \<Rightarrow> string option \<Rightarrow> job_table \<Rightarrow> (job \<times> job_table) result"
where
  "complete_job now jid status err worker jt =
     update_job jid worker
       (\<lambda>j. j\<lparr>job_status := status, job_last_error := err, job_locked_by := None,
              job_locked_at := None, job_updated_at := now\<rparr>) jt"

definition mark_job_done ::
  "time \<Rightarrow> nat \<Rightarrow> string option \<Rightarrow> job_table \<Rightarrow> (job \<times> job_table) result"
where
  "mark_job_done now jid worker jt = complete_job now jid JDone None worker jt"

definition mark_job_failed ::
  "time \<Rightarrow> nat \<Rightarrow> string \<Rightarrow> string option \<Rightarrow> job_table \<Rightarrow> (job \<times> job_table) result"
where
  "mark_job_failed now jid err worker jt = complete_job now jid JFailed (Some err) worker jt"

definition dedupe_open_jobs :: "uuid \<Rightarrow> job_table \<Rightarrow> nat \<times> job_table" where
  "dedupe_open_jobs d jt =
     (let jobs = sort_key job_id (filter (\<lambda>j. job_dep j = d \<and> job_open j) (jt_rows jt))
      in if length jobs \<le> 1 then (0, jt)
         else (length jobs - 1,
               jt\<lparr>jt_rows := filter (\<lambda>j. j \<notin> set (tl jobs)) (jt_rows jt)\<rparr>))"

text \<open>The requests a queue can see, each at an instant.\<close>

datatype job_op =
    Enqueue uuid job_reason "time option"
  | Claim string
  | Defer nat time "string option"
  | MarkDone nat "string option"
  | MarkFailed nat string "string option"
  | Dedupe uuid

fun job_step ::
  "(uuid \<Rightarrow> bool) \<Rightarrow> (job \<Rightarrow> bool) \<Rightarrow> nat \<Rightarrow> time \<times> job_op \<Rightarrow> job_table \<Rightarrow> job_table result"
where
  "job_step known skip lease (now, Enqueue d r t) jt = map_sum id snd (enqueue_job known now r t d jt)"
| "job_step known skip lease (now, Claim w) jt = Inr (snd (claim_next_job skip lease now w jt))"
| "job_step known skip lease (now, Defer i dl w) jt = map_sum id snd (defer_job now i dl w jt)"
| "job_step known skip lease (now, MarkDone i w) jt = map_sum id snd (mark_job_done now i w jt)"
| "job_step known skip lease (now, MarkFailed i e w) jt = map_sum id snd (mark_job_failed now i e w jt)"
| "job_step known skip lease (now, Dedupe d) jt = Inr (snd (dedupe_open_jobs d jt))"

section \<open>The invariant of the queue\<close>

text \<open>
  Ids are unique and below the sequence, a job is locked exactly while it runs, and no
  deployment has two open jobs.
\<close>

definition lock_ok :: "job \<Rightarrow> bool" where
  "lock_ok j \<longleftrightarrow> (job_status j = JRunning \<longleftrightarrow> job_locked_by j \<noteq> None) \<and>
     (job_locked_by j = None \<longleftrightarrow> job_locked_at j = None)"

definition jobs_wf :: "job_table \<Rightarrow> bool" where
  "jobs_wf jt \<longleftrightarrow> keyed job_id (jt_rows jt) \<and> (\<forall>j \<in> set (jt_rows jt). job_id j < jt_next jt \<and> lock_ok j) \<and>
     one_open job_dep job_open (jt_rows jt)"

lemma jobs_wfD:
  assumes "jobs_wf jt"
  shows "keyed job_id (jt_rows jt)" "j \<in> set (jt_rows jt) \<Longrightarrow> job_id j < jt_next jt"
    "j \<in> set (jt_rows jt) \<Longrightarrow> lock_ok j" "one_open job_dep job_open (jt_rows jt)"
  using assms by (auto simp: jobs_wf_def)

lemma keyed_row_upd: "(\<And>r. job_id (f r) = job_id r) \<Longrightarrow> keyed job_id rs \<Longrightarrow> keyed job_id (row_upd job_id k f rs)"
  by (simp add: map_key_row_upd)

lemma jobs_wf_row_upd:
  assumes wf: "jobs_wf jt" and id: "\<And>r. job_id (f r) = job_id r"
    and lk: "\<And>r. r \<in> set (jt_rows jt) \<Longrightarrow> job_id r = k \<Longrightarrow> lock_ok (f r)"
    and one: "one_open job_dep job_open (row_upd job_id k f (jt_rows jt))"
  shows "jobs_wf (jt\<lparr>jt_rows := row_upd job_id k f (jt_rows jt)\<rparr>)"
  using assms jobs_wfD[OF wf] unfolding jobs_wf_def
  by (auto simp: keyed_row_upd set_row_upd)

lemma claim_row_simps [simp]:
  "job_id (claim_row now w j) = job_id j" "job_dep (claim_row now w j) = job_dep j"
  "job_status (claim_row now w j) = JRunning" "job_locked_by (claim_row now w j) = Some w"
  "job_locked_at (claim_row now w j) = Some now" "job_run_after (claim_row now w j) = job_run_after j"
  by (simp_all add: claim_row_def)

lemma claimable_open: "claimable now cutoff j \<Longrightarrow> job_open j"
  by (auto simp: claimable_def job_open_def)

lemma enqueue_job_Inr:
  "enqueue_job known now r t d jt = Inr (j, jt') \<longleftrightarrow>
     \<not> open_job_for jt d \<and> known d \<and> jt_rows jt' = jt_rows jt @ [j] \<and> jt_next jt' = Suc (jt_next jt) \<and>
     j = \<lparr>job_id = jt_next jt, job_dep = d, job_reason = r, job_status = JQueued,
          job_run_after = (case t of None \<Rightarrow> now | Some t \<Rightarrow> t), job_attempt = 0, job_locked_by = None,
          job_locked_at = None, job_last_error = None, job_created_at = now, job_updated_at = now\<rparr>"
  by (cases jt; cases jt') (auto simp: enqueue_job_def Let_def)

lemma enqueue_job_wf:
  assumes "jobs_wf jt" "enqueue_job known now r t d jt = Inr (j, jt')"
  shows "jobs_wf jt'"
  using assms by (fastforce simp: enqueue_job_Inr jobs_wf_def one_open_snoc open_job_for_def lock_ok_def)

lemma claim_next_job_Some:
  assumes "claim_next_job skip lease now w jt = (Some j', jt')"
  obtains j where "j \<in> set (jt_rows jt)" "claimable now (now - int lease) j" "\<not> skip j"
    "j' = claim_row now w j" "jt' = jt\<lparr>jt_rows := row_upd job_id (job_id j) (claim_row now w) (jt_rows jt)\<rparr>"
    "\<And>q. q \<in> set (jt_rows jt) \<Longrightarrow> claimable now (now - int lease) q \<Longrightarrow> \<not> skip q \<Longrightarrow> job_order j \<le> job_order q"
proof -
  from assms obtain j where f: "first_by job_order
      (filter (\<lambda>j. claimable now (now - int lease) j \<and> \<not> skip j) (jt_rows jt)) = Some j"
    and r: "j' = claim_row now w j" "jt' = jt\<lparr>jt_rows := row_upd job_id (job_id j) (claim_row now w) (jt_rows jt)\<rparr>"
    by (auto simp: claim_next_job_def split: option.splits)
  show thesis using that[of j] first_by_in[OF f] first_by_least[OF f] r by auto
qed

lemma claim_next_job_None:
  "claim_next_job skip lease now w jt = (None, jt') \<longleftrightarrow>
     jt' = jt \<and> (\<forall>j \<in> set (jt_rows jt). claimable now (now - int lease) j \<longrightarrow> skip j)"
proof -
  let ?xs = "filter (\<lambda>j. claimable now (now - int lease) j \<and> \<not> skip j) (jt_rows jt)"
  have "claim_next_job skip lease now w jt = (None, jt') \<longleftrightarrow> jt' = jt \<and> first_by job_order ?xs = None"
    by (auto simp: claim_next_job_def simp del: first_by_None_iff split: option.splits)
  then show ?thesis by (auto simp: filter_empty_conv)
qed

lemma claim_next_job_wf:
  assumes wf: "jobs_wf jt" and c: "claim_next_job skip lease now w jt = (r, jt')"
  shows "jobs_wf jt'"
proof (cases r)
  case None
  with c wf show ?thesis by (simp add: claim_next_job_None)
next
  case (Some j')
  with c obtain j where j: "j \<in> set (jt_rows jt)" "claimable now (now - int lease) j"
    and jt': "jt' = jt\<lparr>jt_rows := row_upd job_id (job_id j) (claim_row now w) (jt_rows jt)\<rparr>"
    by (blast elim: claim_next_job_Some)
  have same: "q = j" if "q \<in> set (jt_rows jt)" "job_id q = job_id j" for q
    using keyed_unique[OF jobs_wfD(1)[OF wf] that(1) j(1) that(2)] .
  have "one_open job_dep job_open (row_upd job_id (job_id j) (claim_row now w) (jt_rows jt))"
    using jobs_wfD(4)[OF wf] same claimable_open[OF j(2)] by (intro one_open_row_upd) auto
  then show ?thesis unfolding jt'
    by (intro jobs_wf_row_upd[OF wf]) (auto simp: lock_ok_def)
qed

lemma update_job_Inr:
  assumes "update_job jid worker f jt = Inr (r, jt')"
  obtains j where "row_get job_id jid (jt_rows jt) = Some j" "r = (if held_by worker j then f j else j)"
    "jt' = jt\<lparr>jt_rows := row_upd job_id jid (\<lambda>j. if held_by worker j then f j else j) (jt_rows jt)\<rparr>"
    "one_open job_dep job_open (jt_rows jt')"
  using assms by (auto simp: update_job_def Let_def split: option.splits if_splits)

lemma update_job_wf:
  assumes "jobs_wf jt" "update_job jid worker f jt = Inr (r, jt')"
    and "\<And>j. job_id (f j) = job_id j" "\<And>j. lock_ok (f j)"
  shows "jobs_wf jt'"
  using assms by (elim update_job_Inr) (auto intro!: jobs_wf_row_upd simp: jobs_wfD)

lemma dedupe_open_jobs_wf:
  assumes "jobs_wf jt"
  shows "jobs_wf (snd (dedupe_open_jobs d jt))"
  using assms
  by (auto simp: dedupe_open_jobs_def Let_def jobs_wf_def one_open_filter distinct_map_filter)

lemma job_step_wf:
  assumes "jobs_wf jt" "job_step known skip lease x jt = Inr jt'"
  shows "jobs_wf jt'"
proof -
  obtain now op where x: "x = (now, op)" by (cases x)
  have [simp]: "lock_ok (j\<lparr>job_status := JQueued, job_run_after := a, job_locked_by := None, job_locked_at := None, job_updated_at := b\<rparr>)"
    "s \<noteq> JRunning \<Longrightarrow> lock_ok (j\<lparr>job_status := s, job_last_error := e, job_locked_by := None, job_locked_at := None, job_updated_at := b\<rparr>)"
    for j a b e s by (simp_all add: lock_ok_def)
  note upd = update_job_wf[OF assms(1)]
  show ?thesis
  proof (cases op)
    case (Claim w)
    with assms x show ?thesis by (cases "claim_next_job skip lease now w jt") (auto dest: claim_next_job_wf)
  next
    case (Dedupe d)
    with assms x show ?thesis by (auto simp: dedupe_open_jobs_wf)
  next
    case (Enqueue d r t)
    with assms x obtain j where "enqueue_job known now r t d jt = Inr (j, jt')"
      by (cases "enqueue_job known now r t d jt") auto
    with assms(1) show ?thesis by (rule enqueue_job_wf)
  next
    case (Defer i dl w)
    with assms x obtain r where "defer_job now i dl w jt = Inr (r, jt')"
      by (cases "defer_job now i dl w jt") auto
    then show ?thesis unfolding defer_job_def by (rule upd) simp_all
  next
    case (MarkDone i w)
    with assms x obtain r where "mark_job_done now i w jt = Inr (r, jt')"
      by (cases "mark_job_done now i w jt") auto
    then show ?thesis unfolding mark_job_done_def complete_job_def by (rule upd) simp_all
  next
    case (MarkFailed i e w)
    with assms x obtain r where "mark_job_failed now i e w jt = Inr (r, jt')"
      by (cases "mark_job_failed now i e w jt") auto
    then show ?thesis unfolding mark_job_failed_def complete_job_def by (rule upd) simp_all
  qed
qed

section \<open>Contracts\<close>

interpretation jobs: guarded "job_step known skip lease" jobs_wf for known skip lease
  by unfold_locales (rule job_step_wf)

text \<open>The services request a reconcile through \<open>enqueue_job\<close>.\<close>

interpretation jobq: job_queue
  "\<lambda>d jt. map_sum id snd (enqueue_job known now reason run_after d jt)" open_job_for known jobs_wf
  for known now reason run_after
proof unfold_locales
  fix d e :: uuid and q q' :: job_table
  assume ok: "map_sum id snd (enqueue_job known now reason run_after d q) = Inr q'"
  then obtain j where j: "enqueue_job known now reason run_after d q = Inr (j, q')"
    by (cases "enqueue_job known now reason run_after d q") auto
  then show "open_job_for q' e \<longleftrightarrow> open_job_for q e \<or> e = d"
    by (auto simp: enqueue_job_Inr open_job_for_def slot_taken_snoc job_open_def)
  show "jobs_wf q \<Longrightarrow> jobs_wf q'" using j by (simp add: enqueue_job_wf)
next
  fix d and q
  show "(\<exists>x. map_sum id snd (enqueue_job known now reason run_after d q) = Inl x) \<longleftrightarrow>
      open_job_for q d \<or> \<not> known d"
    by (auto simp: enqueue_job_def Let_def)
qed

text \<open>A worker that nobody else races claims until the queue has nothing due.\<close>

definition job_backlog :: "nat \<Rightarrow> time \<Rightarrow> job_table \<Rightarrow> nat" where
  "job_backlog lease now jt = length (filter (claimable now (now - int lease)) (jt_rows jt))"

lemma claim_row_not_claimable: "\<not> claimable now (now - int lease) (claim_row now w j)"
  by (simp add: claimable_def)

interpretation jobw: work_queue "claim_next_job (\<lambda>_. False) lease now w" "job_backlog lease now" jobs_wf
  for lease now w
proof unfold_locales
  fix s
  show "fst (claim_next_job (\<lambda>_. False) lease now w s) = None \<longleftrightarrow> job_backlog lease now s = 0"
    using claim_next_job_None[of "\<lambda>_. False" lease now w s s]
    by (cases "claim_next_job (\<lambda>_. False) lease now w s")
      (auto simp: job_backlog_def filter_empty_conv claim_next_job_None)
next
  fix s s'
  show "claim_next_job (\<lambda>_. False) lease now w s = (None, s') \<Longrightarrow> s' = s"
    by (simp add: claim_next_job_None)
next
  fix s j s'
  assume wf: "jobs_wf s" and c: "claim_next_job (\<lambda>_. False) lease now w s = (Some j, s')"
  then show "job_backlog lease now s = Suc (job_backlog lease now s')"
    by (elim claim_next_job_Some)
      (simp add: job_backlog_def row_upd_filter_length[OF jobs_wfD(1)[OF wf]] claim_row_not_claimable)
next
  fix s r s'
  show "jobs_wf s \<Longrightarrow> claim_next_job (\<lambda>_. False) lease now w s = (r, s') \<Longrightarrow> jobs_wf s'"
    by (rule claim_next_job_wf)
qed

section \<open>Properties\<close>

definition empty_jobs :: job_table where
  "empty_jobs = \<lparr>jt_rows = [], jt_next = 1\<rparr>"

definition demo_jobs :: job_table where
  "demo_jobs = history (job_step (\<lambda>_. True) (\<lambda>_. False) 60)
     [(0, Enqueue 7 ForCreate None), (5, Claim ''w1''), (6, Enqueue 8 ForUpdate None)] empty_jobs"

lemma empty_jobs_wf: "jobs_wf empty_jobs"
  by (simp add: jobs_wf_def empty_jobs_def)

lemma demo_jobs_wf: "jobs_wf demo_jobs"
  unfolding demo_jobs_def by (rule jobs.history_inv[OF empty_jobs_wf])

lemmas job_eval = demo_jobs_def empty_jobs_def attempt_def enqueue_job_def open_job_for_def slot_taken_def
  job_open_def claim_next_job_def claimable_def first_by_def job_order_def claim_row_def table_simps Let_def

lemma demo_jobs_eval:
  "demo_jobs = \<lparr>jt_rows =
     [\<lparr>job_id = 1, job_dep = 7, job_reason = ForCreate, job_status = JRunning, job_run_after = 0,
       job_attempt = 0, job_locked_by = Some ''w1'', job_locked_at = Some 5, job_last_error = None,
       job_created_at = 0, job_updated_at = 5\<rparr>,
      \<lparr>job_id = 2, job_dep = 8, job_reason = ForUpdate, job_status = JQueued, job_run_after = 6,
       job_attempt = 0, job_locked_by = None, job_locked_at = None, job_last_error = None,
       job_created_at = 6, job_updated_at = 6\<rparr>], jt_next = 3\<rparr>"
  by (simp add: job_eval numeral_eq_Suc)

text \<open>
  C25. Whatever requests arrive, in whatever order and at whatever instants, and whichever of them
  are refused: job ids stay unique, a job carries a lock exactly while it runs, and no deployment
  ever has two open (queued or running) jobs.
\<close>

theorem job_queue_invariant:
  "jobs_wf (history (job_step known skip lease) ops empty_jobs)"
  by (rule jobs.history_inv[OF empty_jobs_wf])

text \<open>
  A claim takes a job that is queued and due, or running with its lease expired; of those not
  locked elsewhere it takes the one with the least \<open>(run_after, id)\<close>; it writes the lock, the
  running status and, only when it took over a running job, one more attempt; and it changes no
  other row.
\<close>

theorem claim_takes_oldest_claimable:
  assumes "jobs_wf jt" "claim_next_job skip lease now w jt = (Some j', jt')"
  shows "\<exists>j \<in> set (jt_rows jt). claimable now (now - int lease) j \<and> \<not> skip j \<and> j' = claim_row now w j \<and>
     (\<forall>q \<in> set (jt_rows jt). claimable now (now - int lease) q \<and> \<not> skip q \<longrightarrow> job_order j \<le> job_order q) \<and>
     job_attempt j' = job_attempt j + (if job_status j = JRunning then 1 else 0) \<and>
     (\<forall>i. i \<noteq> job_id j \<longrightarrow> row_get job_id i (jt_rows jt') = row_get job_id i (jt_rows jt)) \<and>
     row_get job_id (job_id j) (jt_rows jt') = Some j'"
proof -
  from assms(2) obtain j where j: "j \<in> set (jt_rows jt)" "claimable now (now - int lease) j" "\<not> skip j"
    "j' = claim_row now w j" "jt' = jt\<lparr>jt_rows := row_upd job_id (job_id j) (claim_row now w) (jt_rows jt)\<rparr>"
    "\<And>q. q \<in> set (jt_rows jt) \<Longrightarrow> claimable now (now - int lease) q \<Longrightarrow> \<not> skip q \<Longrightarrow> job_order j \<le> job_order q"
    by (blast elim: claim_next_job_Some)
  have "row_get job_id (job_id j) (jt_rows jt) = Some j"
    using row_get_keyed[OF jobs_wfD(1)[OF assms(1)]] j(1) by blast
  with j show ?thesis
    by (intro bexI[of _ j]) (auto simp: row_get_upd_same row_get_upd_other claim_row_def)
qed

theorem claim_takes_oldest_claimable_witness:
  "\<exists>j \<in> set (jt_rows demo_jobs). claimable 70 10 j \<and> job_id j = 1 \<and> job_attempt (claim_row 70 ''w2'' j) = 1"
proof -
  have "claim_next_job (\<lambda>_. False) 60 70 ''w2'' demo_jobs =
     (Some (claim_row 70 ''w2'' (jt_rows demo_jobs ! 0)),
      demo_jobs\<lparr>jt_rows := row_upd job_id 1 (claim_row 70 ''w2'') (jt_rows demo_jobs)\<rparr>)"
    unfolding demo_jobs_eval by (simp add: job_eval)
  from claim_takes_oldest_claimable[OF demo_jobs_wf this] show ?thesis
    unfolding demo_jobs_eval by (auto simp: claim_row_def claimable_def)
qed

text \<open>
  Within one lease, two workers never hold the same job: after a claim at \<open>now\<close>, a claim at any
  later instant up to the end of that lease takes a different job.
\<close>

theorem no_double_claim_within_lease:
  assumes "jobs_wf jt" "claim_next_job skip lease now w jt = (Some j, jt')"
    and "now \<le> now'" "now' \<le> now + int lease"
    and "claim_next_job skip' lease now' w' jt' = (Some k, jt'')"
  shows "job_id k \<noteq> job_id j"
proof
  assume same: "job_id k = job_id j"
  from assms(2) obtain j0 where j: "j = claim_row now w j0" "j0 \<in> set (jt_rows jt)"
    and jt': "jt' = jt\<lparr>jt_rows := row_upd job_id (job_id j0) (claim_row now w) (jt_rows jt)\<rparr>"
    by (blast elim: claim_next_job_Some)
  from assms(5) obtain k0 where k0: "k0 \<in> set (jt_rows jt')" "claimable now' (now' - int lease) k0"
    and "k = claim_row now' w' k0"
    by (blast elim: claim_next_job_Some)
  with same j have "job_id k0 = job_id j0" by simp
  with k0(1) jt' obtain q where "k0 = claim_row now w q" by (auto elim: in_row_updE)
  with k0(2) assms(3,4) show False by (auto simp: claimable_def)
qed

theorem no_double_claim_within_lease_witness:
  "\<exists>j k. fst (claim_next_job (\<lambda>_. False) 60 70 ''w2'' demo_jobs) = Some j \<and>
     fst (claim_next_job (\<lambda>_. False) 60 80 ''w3'' (snd (claim_next_job (\<lambda>_. False) 60 70 ''w2'' demo_jobs))) = Some k \<and>
     job_id k \<noteq> job_id j"
proof -
  let ?c = "claim_next_job (\<lambda>_. False) 60 70 ''w2'' demo_jobs"
  let ?d = "claim_next_job (\<lambda>_. False) 60 80 ''w3'' (snd ?c)"
  have c: "?c = (Some (claim_row 70 ''w2'' (jt_rows demo_jobs ! 0)), snd ?c)"
    and d: "?d = (Some (claim_row 80 ''w3'' (jt_rows demo_jobs ! 1)), snd ?d)"
    unfolding demo_jobs_eval by (simp_all add: job_eval)
  have "job_id (claim_row 80 ''w3'' (jt_rows demo_jobs ! 1)) \<noteq> job_id (claim_row 70 ''w2'' (jt_rows demo_jobs ! 0))"
    by (rule no_double_claim_within_lease[OF demo_jobs_wf c _ _ d]) simp_all
  with c d show ?thesis by (metis fst_conv)
qed

text \<open>
  A worker that lost its lease writes nothing: completing or deferring a job under a worker id
  that no longer holds the lock leaves the whole table unchanged and returns the row as it stands,
  and so does a second report of a result by the worker that already reported it.
\<close>

theorem stale_worker_writes_nothing:
  assumes "jobs_wf jt" "row_get job_id i (jt_rows jt) = Some j" "job_locked_by j \<noteq> Some w"
  shows "mark_job_done now i (Some w) jt = Inr (j, jt) \<and>
    mark_job_failed now i e (Some w) jt = Inr (j, jt) \<and>
    defer_job now i delay (Some w) jt = Inr (j, jt)"
proof -
  have same: "q = j" if "q \<in> set (jt_rows jt)" "job_id q = i" for q
    using that assms(2) row_get_keyed[OF jobs_wfD(1)[OF assms(1)]] by (metis option.inject)
  have "row_upd job_id i (\<lambda>j. if held_by (Some w) j then f j else j) (jt_rows jt) = jt_rows jt" for f
    by (rule row_upd_id) (use same assms(3) in \<open>auto simp: held_by_def\<close>)
  then have "update_job i (Some w) f jt = Inr (j, jt)" for f
    using assms jobs_wfD(4)[OF assms(1)] by (simp add: update_job_def held_by_def Let_def)
  then show ?thesis
    by (simp_all add: mark_job_done_def mark_job_failed_def complete_job_def defer_job_def)
qed

theorem stale_worker_writes_nothing_witness:
  "mark_job_done 90 1 (Some ''w9'') demo_jobs = Inr (jt_rows demo_jobs ! 0, demo_jobs)"
  using stale_worker_writes_nothing[OF demo_jobs_wf, of 1 "jt_rows demo_jobs ! 0" "''w9''"]
  by (simp add: demo_jobs_eval table_simps)

text \<open>
  No open job is ever stranded: once every open job is due and every lease has expired, a single
  worker that keeps claiming claims as many jobs as are open (queued ones and ones left running by
  dead workers alike), and one further claim finds nothing.
\<close>

theorem no_open_job_is_stranded:
  assumes "jobs_wf jt"
    and "\<forall>j \<in> set (jt_rows jt). job_run_after j \<le> now \<and>
       (case job_locked_at j of None \<Rightarrow> True | Some t \<Rightarrow> t + int lease < now)"
    and "n = length (filter job_open (jt_rows jt))"
  shows "length (fst (claims (claim_next_job (\<lambda>_. False) lease now w) n jt)) = n \<and>
    fst (claim_next_job (\<lambda>_. False) lease now w (snd (claims (claim_next_job (\<lambda>_. False) lease now w) n jt))) = None"
proof -
  have "claimable now (now - int lease) j \<longleftrightarrow> job_open j" if "j \<in> set (jt_rows jt)" for j
    using that assms(2) by (cases "job_status j") (auto simp: claimable_def job_open_def split: option.splits)
  then have "job_backlog lease now jt = n"
    unfolding job_backlog_def assms(3) by (metis (mono_tags, lifting) filter_cong)
  with jobw.claims_length[OF assms(1), of lease now w n] show ?thesis
    by (simp add: jobw.claim_none)
qed

theorem no_open_job_is_stranded_witness:
  "length (fst (claims (claim_next_job (\<lambda>_. False) 60 100 ''w'') 2 demo_jobs)) = 2"
proof -
  have "\<forall>j \<in> set (jt_rows demo_jobs). job_run_after j \<le> 100 \<and>
       (case job_locked_at j of None \<Rightarrow> True | Some t \<Rightarrow> t + int 60 < 100)"
    "2 = length (filter job_open (jt_rows demo_jobs))"
    by (simp_all add: demo_jobs_eval job_open_def)
  from no_open_job_is_stranded[OF demo_jobs_wf this] show ?thesis by blast
qed

end
