(* ===== verification/Models.thy ===== *)
theory Models
  imports Json Jobs
begin

text \<open>
  The data model, \<^verbatim>\<open>api/app/models/core.py\<close>, \<^verbatim>\<open>models/billing.py\<close> and \<^verbatim>\<open>models/build.py\<close>: one
  record per table the modelled services read or write, the derived properties of the rows, the
  database they form, and the constraints the tables declare. Also the settings of
  \<^verbatim>\<open>config.py\<close> the services read.
\<close>

section \<open>Accounts, products and plans\<close>

record user =
  u_id :: user_id
  u_email :: string
  u_subject :: "string option"
  u_customer :: "string option"
  u_tos_version :: "string option"
  u_tos_at :: "time option"
  u_handle :: "string option"
  u_deleted_at :: "time option"

record product =
  p_id :: nat
  p_name :: string
  p_slug :: "string option"
  p_template_id :: "nat option"

record template =
  t_id :: nat
  t_product :: nat
  t_chart_ref :: string
  t_chart_version :: string
  t_chart_digest :: "string option"
  t_system_values :: "pydict option"
  t_schema :: "pydict option"
  t_deleted_at :: "time option"

record plan =
  pl_id :: nat
  pl_name :: string
  pl_product :: nat
  pl_template_id :: "nat option"

datatype billing_interval = Monthly | Annual

record plan_template =
  pt_id :: nat
  pt_plan :: nat
  pt_price_cents :: int
  pt_interval :: billing_interval
  pt_storage_bytes :: "nat option"
  pt_database_bytes :: "nat option"
  pt_deleted_at :: "time option"

datatype sub_status = SubActive | SubCancelled

datatype payment_status = PayPending | PayCurrent | PayArrears

datatype mollie_status = MOpen | MPending | MAuthorized | MPaid | MCanceled | MExpired | MFailed

record subscription =
  sub_id :: nat
  sub_plan_template :: nat
  sub_user :: user_id
  sub_status :: sub_status
  sub_payment :: payment_status
  sub_cancelled_at :: "time option"
  sub_mollie_id :: "string option"
  sub_mandate :: "string option"

record mollie_payment =
  mp_sub :: nat
  mp_mollie_id :: string
  mp_status :: mollie_status
  mp_sequence :: string
  mp_amount_cents :: int

section \<open>Deployments, releases and power\<close>

datatype dep_status = DPending | DProvisioning | DReady | DDeleting | DError | DDeleted

record deployment =
  d_id :: uuid
  d_user :: user_id
  d_desired_template :: nat
  d_applied_template :: "nat option"
  d_desired_release :: uuid
  d_applied_release :: "uuid option"
  d_desired_power :: "nat option"
  d_applied_power :: "nat option"
  d_hostname :: "string option"
  d_name :: string
  d_namespace :: string
  d_values :: "pydict option"
  d_status :: dep_status
  d_generation :: nat
  d_last_error :: "string option"
  d_last_reconcile_at :: "time option"
  d_created_at :: time
  d_deleted_at :: "time option"
  d_subscription :: nat

record release =
  r_id :: uuid
  r_number :: nat
  r_dep :: uuid
  r_template :: nat
  r_build :: "uuid option"
  r_values :: "pydict option"
  r_created_at :: time
  r_started_at :: "time option"
  r_ended_at :: "time option"
  r_error :: "string option"
  r_helm_revision :: "nat option"

datatype release_status = Queued | InFlight | Abandoned | Failed | Succeeded

text \<open>\<^verbatim>\<open>DeploymentReleaseORM.status\<close>: derived, with an empty error string as no error.\<close>

definition release_status :: "nat \<Rightarrow> time \<Rightarrow> release \<Rightarrow> release_status" where
  "release_status lease now r =
     (case r_started_at r of
        None \<Rightarrow> Queued
      | Some started \<Rightarrow>
          (case r_ended_at r of
             None \<Rightarrow> if now - started > int lease then Abandoned else InFlight
           | Some _ \<Rightarrow>
               (case r_error r of None \<Rightarrow> Succeeded | Some e \<Rightarrow> if e = [] then Succeeded else Failed)))"

datatype power_state = PRunning | PStopped

datatype power_reason = PManual | PPayment

record power_row =
  pw_id :: nat
  pw_dep :: uuid
  pw_state :: power_state
  pw_reason :: power_reason
  pw_actor :: "user_id option"
  pw_created_at :: time
  pw_started_at :: "time option"
  pw_ended_at :: "time option"
  pw_error :: "string option"

text \<open>
  A row with a ciphertext column and the fingerprint of the key that produced it; the models of
  \<^verbatim>\<open>ENCRYPTED_COLUMNS\<close> extend it. A var row without ciphertext is a tombstone: the table's
  check constraint ties the two nulls together.
\<close>

record sealed =
  s_id :: nat
  s_cipher :: "string option"
  s_key_id :: "string option"

record var_row = sealed +
  v_dep :: uuid
  v_key :: string
  v_sensitive :: bool
  v_created_by :: user_id
  v_created_at :: time

datatype quota_state = QuotaOk | QuotaWarned | QuotaReadonly | QuotaBlocked

record database_row = sealed +
  dd_dep :: uuid
  dd_db_name :: string
  dd_role_name :: string
  dd_quota :: quota_state
  dd_size :: "nat option"
  dd_measured_at :: "time option"
  dd_warned_threshold :: "nat option"
  dd_warned_at :: "time option"
  dd_readonly_at :: "time option"
  dd_blocked_at :: "time option"
  dd_purge_after :: "time option"

record release_var =
  rv_release :: uuid
  rv_var :: nat

section \<open>Builds\<close>

datatype build_status = BQueued | BRunning | BSucceeded | BFailed | BCanceled

type_synonym bytes = "char list"

record build =
  b_id :: uuid
  b_dep :: uuid
  b_artifact :: string
  b_status :: build_status
  b_created_at :: time
  b_started_at :: "time option"
  b_finished_at :: "time option"
  b_job_id :: "string option"
  b_image :: "string option"
  b_log :: bytes

section \<open>The database\<close>

record db =
  db_users :: "user list"
  db_products :: "product list"
  db_templates :: "template list"
  db_plans :: "plan list"
  db_plan_templates :: "plan_template list"
  db_subs :: "subscription list"
  db_payments :: "mollie_payment list"
  db_deps :: "deployment list"
  db_rels :: "release list"
  db_powers :: "power_row list"
  db_vars :: "var_row list"
  db_relvars :: "release_var list"
  db_databases :: "database_row list"
  db_builds :: "build list"
  db_jobs :: job_table

definition empty_db :: db where
  "empty_db = \<lparr>db_users = [], db_products = [], db_templates = [], db_plans = [], db_plan_templates = [],
     db_subs = [], db_payments = [], db_deps = [], db_rels = [], db_powers = [], db_vars = [],
     db_relvars = [], db_databases = [], db_builds = [], db_jobs = \<lparr>jt_rows = [], jt_next = 1\<rparr>\<rparr>"

text \<open>\<^verbatim>\<open>session.get(Model, id)\<close>, per table.\<close>

abbreviation get_user :: "db \<Rightarrow> user_id \<Rightarrow> user option" where
  "get_user s i \<equiv> row_get u_id i (db_users s)"
abbreviation get_product :: "db \<Rightarrow> nat \<Rightarrow> product option" where
  "get_product s i \<equiv> row_get p_id i (db_products s)"
abbreviation get_template :: "db \<Rightarrow> nat \<Rightarrow> template option" where
  "get_template s i \<equiv> row_get t_id i (db_templates s)"
abbreviation get_plan :: "db \<Rightarrow> nat \<Rightarrow> plan option" where
  "get_plan s i \<equiv> row_get pl_id i (db_plans s)"
abbreviation get_plan_template :: "db \<Rightarrow> nat \<Rightarrow> plan_template option" where
  "get_plan_template s i \<equiv> row_get pt_id i (db_plan_templates s)"
abbreviation get_sub :: "db \<Rightarrow> nat \<Rightarrow> subscription option" where
  "get_sub s i \<equiv> row_get sub_id i (db_subs s)"
abbreviation get_dep :: "db \<Rightarrow> uuid \<Rightarrow> deployment option" where
  "get_dep s i \<equiv> row_get d_id i (db_deps s)"
abbreviation get_rel :: "db \<Rightarrow> uuid \<Rightarrow> release option" where
  "get_rel s i \<equiv> row_get r_id i (db_rels s)"
abbreviation get_power :: "db \<Rightarrow> nat \<Rightarrow> power_row option" where
  "get_power s i \<equiv> row_get pw_id i (db_powers s)"
abbreviation get_build :: "db \<Rightarrow> uuid \<Rightarrow> build option" where
  "get_build s i \<equiv> row_get b_id i (db_builds s)"

text \<open>A relationship through a nullable foreign key.\<close>

definition via :: "('k \<Rightarrow> 'r option) \<Rightarrow> 'k option \<Rightarrow> 'r option" where
  "via get k = (case k of None \<Rightarrow> None | Some i \<Rightarrow> get i)"

text \<open>The next value of an identity column.\<close>

definition next_id :: "('r \<Rightarrow> nat) \<Rightarrow> 'r list \<Rightarrow> nat" where
  "next_id key rs = Suc (foldr max (map key rs) 0)"

definition known_dep :: "db \<Rightarrow> uuid \<Rightarrow> bool" where
  "known_dep s d \<longleftrightarrow> (\<exists>x \<in> set (db_deps s). d_id x = d)"

text \<open>\<^verbatim>\<open>DeploymentORM.power\<close>: null pointers mean running; the reason is that of a stop.\<close>

record power_read =
  pr_desired :: power_state
  pr_applied :: power_state
  pr_reason :: "power_reason option"

definition power_state_of :: "power_row option \<Rightarrow> power_state" where
  "power_state_of p = (case p of None \<Rightarrow> PRunning | Some r \<Rightarrow> pw_state r)"

definition deployment_power :: "db \<Rightarrow> deployment \<Rightarrow> power_read" where
  "deployment_power s d =
     (let desired = via (get_power s) (d_desired_power d);
          applied = via (get_power s) (d_applied_power d)
      in \<lparr>pr_desired = power_state_of desired, pr_applied = power_state_of applied,
          pr_reason = (case desired of
                         Some r \<Rightarrow> if pw_state r = PStopped then Some (pw_reason r) else None
                       | None \<Rightarrow> None)\<rparr>)"

section \<open>Constraints the tables declare\<close>

text \<open>
  The partial unique indexes of \<^verbatim>\<open>deployment\<close> and \<^verbatim>\<open>deployment_release\<close>. SQL treats nulls in an
  index as distinct, so a deployment without a hostname occupies no slot of either hostname index.
\<close>

definition live_host :: "deployment \<Rightarrow> bool" where
  "live_host d \<longleftrightarrow> d_status d \<noteq> DDeleted \<and> d_hostname d \<noteq> None"

definition host_slot :: "deployment \<Rightarrow> string" where
  "host_slot d = (case d_hostname d of None \<Rightarrow> [] | Some h \<Rightarrow> lower h)"

definition uq_hostname_active :: "deployment list \<Rightarrow> bool" where
  "uq_hostname_active = one_open host_slot live_host"

definition uq_deployment_active :: "deployment list \<Rightarrow> bool" where
  "uq_deployment_active = one_open (\<lambda>d. (d_user d, host_slot d, d_desired_template d)) live_host"

definition uq_deployment_namespace :: "deployment list \<Rightarrow> bool" where
  "uq_deployment_namespace ds = distinct (map d_namespace ds)"

definition uq_release_number :: "release list \<Rightarrow> bool" where
  "uq_release_number rs = distinct (map (\<lambda>r. (r_dep r, r_number r)) rs)"

definition constraints :: "db \<Rightarrow> bool" where
  "constraints s \<longleftrightarrow> uq_hostname_active (db_deps s) \<and> uq_deployment_active (db_deps s) \<and>
     uq_deployment_namespace (db_deps s) \<and> uq_release_number (db_rels s) \<and>
     keyed d_id (db_deps s) \<and> keyed r_id (db_rels s)"

text \<open>A flush or a commit that violates one raises.\<close>

definition flush :: "db \<Rightarrow> db result" where
  "flush s = (if constraints s then Inr s else Inl (DbIntegrityError ''unique constraint''))"

section \<open>Settings\<close>

text \<open>
  The settings the services read. Durations (the lease, the grace of an unreleased build) are given in
  the unit of instants.
\<close>

record settings =
  st_domain :: string
  st_tenant_domain :: string
  st_platform_domains :: "string list"
  st_tls_issuer :: string
  st_reserved_handles :: "string list"
  st_tos_version :: string
  st_lease :: nat
  st_past_images :: nat
  st_prune_grace :: nat
  st_s3_endpoint :: string
  st_s3_region :: string
  st_ssh_platform_key :: string
  st_verify_url :: string
  st_oidc_issuer :: string
  st_oidc_client_keys :: string
  st_registry_host :: string
  st_registry_pull_key :: string
  st_parking_host :: string
  st_parking_port :: nat
  st_pooler_host :: string
  st_pooler_port :: nat
  st_environment :: string
  st_netpol_name :: string
  st_mailer_netpol_name :: string
  st_ingress_namespace :: string
  st_ingress_pod_label :: string
  st_sshpiper_namespace :: string
  st_sshpiper_pod_label :: string
  st_sidecar_port :: nat
  st_dns_ip :: string
  st_pooler_namespace :: string
  st_pooler_pod_label :: string
  st_egress_except :: "string list"
  st_mailer_namespace :: string
  st_mailer_pod_label :: string
  st_mailer_port :: nat
  st_gate_image :: string
  st_gate_deadline :: nat
  st_bucket_max_objects :: nat
  st_bucket_expiry_days :: nat
  st_purge_grace_days :: nat
  st_db_admin_user :: string
  st_log_tail_lines :: nat

section \<open>Lemmas\<close>

lemma uq_deployment_active_implied: "uq_hostname_active ds \<Longrightarrow> uq_deployment_active ds"
  by (auto simp: uq_hostname_active_def uq_deployment_active_def one_open_def distinct_map inj_on_def)

lemma foldr_max_le: "x \<in> set xs \<Longrightarrow> x \<le> foldr max xs (0::nat)"
  by (induction xs) auto

lemma next_id_fresh: "r \<in> set rs \<Longrightarrow> key r < next_id key rs"
  by (simp add: next_id_def foldr_max_le less_Suc_eq_le)

lemma next_id_new: "next_id key rs \<notin> key ` set rs"
  by (metis image_iff less_irrefl next_id_fresh)

lemma row_get_in: "row_get key k rs = Some r \<Longrightarrow> r \<in> set rs"
  and row_get_key: "row_get key k rs = Some r \<Longrightarrow> key r = k"
  using row_get_SomeD by metis+

lemma known_dep_iff: "known_dep s d \<longleftrightarrow> get_dep s d \<noteq> None"
  by (auto simp: known_dep_def row_get_None_iff image_iff)

lemma via_Some: "via get k = Some r \<longleftrightarrow> (\<exists>i. k = Some i \<and> get i = Some r)"
  by (auto simp: via_def split: option.splits)

lemma via_None [simp]: "via get None = None"
  by (simp add: via_def)

lemma constraintsD:
  assumes "constraints s"
  shows "uq_hostname_active (db_deps s)" "uq_deployment_namespace (db_deps s)"
    "uq_release_number (db_rels s)" "keyed d_id (db_deps s)" "keyed r_id (db_rels s)"
  using assms by (simp_all add: constraints_def)

lemma flush_Inr [result_simps]: "flush s = Inr t \<longleftrightarrow> constraints s \<and> t = s"
  by (auto simp: flush_def)

text \<open>
  The status of a release never leaves \<open>Failed\<close> or \<open>Succeeded\<close> by the passing of time, and a
  release in flight becomes abandoned exactly when its lease is over.
\<close>

lemma release_status_ended: "r_ended_at r \<noteq> None \<Longrightarrow> release_status lease now r = release_status lease 0 r"
  by (auto simp: release_status_def split: option.splits)

lemma release_status_abandoned:
  "release_status lease now r = Abandoned \<longleftrightarrow>
     (\<exists>t. r_started_at r = Some t \<and> r_ended_at r = None \<and> t + int lease < now)"
  by (auto simp: release_status_def split: option.splits if_splits)

end
