(* ===== verification/VarCrypto.thy ===== *)
theory VarCrypto
  imports Models TemplateValues
begin

text \<open>
  Encryption of stored secrets, \<^verbatim>\<open>api/app/services/var_crypto.py\<close>: the keyring, the startup check
  and the rotation sweep over every encrypted column. Fernet and the fingerprint hash are
  parameters; the nonce of an encryption is an argument.
\<close>

section \<open>The keyring\<close>

text \<open>
  \<open>fer_fp\<close> is the fingerprint of a configured key (\<open>None\<close> when it is not base64), \<open>fer_valid\<close>
  whether \<^verbatim>\<open>Fernet(key)\<close> accepts it, \<open>fer_dec\<close> is \<open>None\<close> on \<^verbatim>\<open>InvalidToken\<close>.
\<close>

record fernet =
  fer_fp :: "string \<Rightarrow> string option"
  fer_valid :: "string \<Rightarrow> bool"
  fer_enc :: "nat \<Rightarrow> string \<Rightarrow> string \<Rightarrow> string"
  fer_dec :: "string \<Rightarrow> string \<Rightarrow> string option"

text \<open>Documented behaviour of Fernet: a token decrypts under its own key, whatever its nonce.\<close>

definition fernet_ok :: "fernet \<Rightarrow> bool" where
  "fernet_ok fer \<longleftrightarrow> (\<forall>n k p. fer_dec fer k (fer_enc fer n k p) = Some p)"

text \<open>Fingerprints with their keys, the current key first.\<close>

type_synonym keyring = "(string \<times> string) list"

definition key_fingerprint :: "fernet \<Rightarrow> string \<Rightarrow> string result" where
  "key_fingerprint fer key =
     (case fer_fp fer key of
        None \<Rightarrow> Inl (EncryptionErr ''not a valid Fernet key'') | Some fp \<Rightarrow> Inr fp)"

definition add_key :: "fernet \<Rightarrow> string \<Rightarrow> keyring \<Rightarrow> keyring result" where
  "add_key fer key ring =
     bindR (key_fingerprint fer key) (\<lambda>fp.
       if \<not> fer_valid fer key then Inl (EncryptionErr ''not a valid Fernet key'')
       else if fp \<in> fst ` set ring
       then Inl (EncryptionErr (''two configured keys share the fingerprint '' @ fp))
       else Inr (ring @ [(fp, key)]))"

definition make_keyring :: "fernet \<Rightarrow> string list \<Rightarrow> keyring result" where
  "make_keyring fer keys = foldR (add_key fer) keys []"

definition key_ids :: "keyring \<Rightarrow> string list" where
  "key_ids ring = map fst ring"

definition current_key_id :: "keyring \<Rightarrow> string result" where
  "current_key_id ring =
     (case ring of
        [] \<Rightarrow> Inl (EncryptionErr ''no encryption key is configured (CAELUS_VAR_ENCRYPTION_KEYS is empty)'')
      | (fp, _) # _ \<Rightarrow> Inr fp)"

definition encrypt :: "fernet \<Rightarrow> keyring \<Rightarrow> nat \<Rightarrow> string \<Rightarrow> (string \<times> string) result" where
  "encrypt fer ring nonce plaintext =
     bindR (current_key_id ring) (\<lambda>kid.
       Inr (fer_enc fer nonce (the (map_of ring kid)) plaintext, kid))"

definition decrypt :: "fernet \<Rightarrow> keyring \<Rightarrow> string \<Rightarrow> string \<Rightarrow> string result" where
  "decrypt fer ring ciphertext kid =
     (case map_of ring kid of
        None \<Rightarrow> Inl (EncryptionErr (''value was encrypted with key '' @ kid @ '', which is not configured''))
      | Some key \<Rightarrow>
          (case fer_dec fer key ciphertext of
             None \<Rightarrow> Inl (EncryptionErr (''value naming key '' @ kid @ '' could not be decrypted with it''))
           | Some p \<Rightarrow> Inr p))"

section \<open>The startup check\<close>

definition stored_key_ids :: "'a sealed_scheme list \<Rightarrow> string list" where
  "stored_key_ids rows = [k. Some k \<leftarrow> map s_key_id rows]"

text \<open>The registry of encrypted columns: the label of each and the key ids stored in it.\<close>

definition encrypted_columns :: "db \<Rightarrow> (string \<times> string list) list" where
  "encrypted_columns s =
     [(''deployment_var.value_encrypted'', stored_key_ids (db_vars s)),
      (''deployment_database.password_encrypted'', stored_key_ids (db_databases s))]"

definition sort_uniq :: "string list \<Rightarrow> string list" where
  "sort_uniq xs = remdups (sort xs)"

definition holding :: "db \<Rightarrow> string list" where
  "holding s = [label. (label, ids) \<leftarrow> encrypted_columns s, ids \<noteq> []]"

definition declaring :: "db \<Rightarrow> nat list" where
  "declaring s = [t_id t. t \<leftarrow> db_templates s, t_deleted_at t = None \<and> schema_declares_vars (t_schema t)]"

definition unreadable :: "keyring \<Rightarrow> db \<Rightarrow> (string \<times> string list) list" where
  "unreadable ring s =
     [(label, sort_uniq (filter (\<lambda>k. k \<notin> set (key_ids ring)) ids)).
        (label, ids) \<leftarrow> encrypted_columns s, \<exists>k \<in> set ids. k \<notin> set (key_ids ring)]"

definition verify_keyring :: "fernet \<Rightarrow> string list \<Rightarrow> db \<Rightarrow> unit result" where
  "verify_keyring fer keys s =
     bindR (make_keyring fer keys) (\<lambda>ring.
       if ring = [] \<and> holding s \<noteq> []
       then Inl (EncryptionErr (''no encryption key is configured while encrypted values are stored in '' @
              join '', '' (sort (holding s))))
       else if ring = [] \<and> declaring s \<noteq> []
       then Inl (EncryptionErr (''no encryption key is configured while product templates declare vars: '' @
              join '', '' (map nat_str (declaring s))))
       else if unreadable ring s \<noteq> []
       then Inl (EncryptionErr (''stored values name encryption key(s) that are not configured: '' @
              join ''; '' (map (\<lambda>(label, ids). label @ '': '' @ join '', '' ids) (sort (unreadable ring s)))))
       else Inr ())"

section \<open>The rotation sweep\<close>

text \<open>A row that names a key, and not the current one.\<close>

definition stale :: "string \<Rightarrow> 'a sealed_scheme \<Rightarrow> bool" where
  "stale current r \<longleftrightarrow> (case s_key_id r of None \<Rightarrow> False | Some k \<Rightarrow> k \<noteq> current)"

definition reseal :: "fernet \<Rightarrow> keyring \<Rightarrow> (nat \<Rightarrow> nat) \<Rightarrow> 'a sealed_scheme \<Rightarrow> 'a sealed_scheme result" where
  "reseal fer ring nonce r =
     (case (s_cipher r, s_key_id r) of
        (Some c, Some kid) \<Rightarrow>
          bindR (decrypt fer ring c kid) (\<lambda>p.
          bindR (encrypt fer ring (nonce (s_id r)) p) (\<lambda>(c', kid').
            Inr (r\<lparr>s_cipher := Some c', s_key_id := Some kid'\<rparr>)))
      | _ \<Rightarrow> Inl (PyValueError ''AssertionError''))"

text \<open>The rows of a batch replaced by their new versions, by id.\<close>

definition put_rows :: "'a sealed_scheme list \<Rightarrow> 'a sealed_scheme list \<Rightarrow> 'a sealed_scheme list" where
  "put_rows news rows =
     map (\<lambda>r. case row_get s_id (s_id r) news of None \<Rightarrow> r | Some n \<Rightarrow> n) rows"

definition next_batch :: "string \<Rightarrow> nat \<Rightarrow> 'a sealed_scheme list \<Rightarrow> 'a sealed_scheme list" where
  "next_batch current n rows = take n (sort_key s_id (filter (stale current) rows))"

lemma mapR_Inr: "mapR f xs = Inr ys \<Longrightarrow> list_all2 (\<lambda>x y. f x = Inr y) xs ys"
  by (induction xs arbitrary: ys) (auto simp: result_simps)

lemma mapR_to: "mapR f xs = Inr ys \<Longrightarrow> y \<in> set ys \<Longrightarrow> \<exists>x \<in> set xs. f x = Inr y"
  and mapR_from: "mapR f xs = Inr ys \<Longrightarrow> x \<in> set xs \<Longrightarrow> \<exists>y \<in> set ys. f x = Inr y"
  by (induction xs arbitrary: ys) (auto simp: result_simps)

lemma reseal_Inr:
  assumes "reseal fer ring nonce r = Inr r'" "current_key_id ring = Inr current"
  shows "s_id r' = s_id r" "s_key_id r' = Some current" "\<not> stale current r'"
  using assms by (auto simp: reseal_def result_simps encrypt_def stale_def split: option.splits prod.splits)

lemma put_rows_fewer:
  assumes m: "mapR (reseal fer ring nonce) b = Inr news" and c: "current_key_id ring = Inr current"
    and b: "b \<noteq> []" "set b \<subseteq> set (filter (stale current) rows)"
  shows "length (filter (stale current) (put_rows news rows)) < length (filter (stale current) rows)"
proof -
  have fresh: "\<not> stale current n" if "n \<in> set news" for n
    using mapR_to[OF m that] reseal_Inr(3)[OF _ c] by blast
  have le: "length (filter (stale current) (put_rows news xs)) \<le> length (filter (stale current) xs)" for xs
    using fresh by (induction xs) (auto simp: put_rows_def split: option.splits dest: row_get_in)
  obtain x where x: "x \<in> set b" using b(1) by (cases b) auto
  then obtain n where n: "n \<in> set news" "s_id n = s_id x"
    using mapR_from[OF m x] reseal_Inr(1)[OF _ c] by blast
  from x b(2) have "x \<in> set rows" and sx: "stale current x" by auto
  then obtain us vs where r: "rows = us @ x # vs" by (meson split_list)
  obtain n' where n': "row_get s_id (s_id x) news = Some n'"
    using n by (metis image_eqI not_None_eq row_get_None_iff)
  have "put_rows news rows = put_rows news us @ n' # put_rows news vs"
    using r n' by (simp add: put_rows_def)
  moreover have "\<not> stale current n'" using fresh row_get_in[OF n'] .
  ultimately show ?thesis using r sx le[of us] le[of vs] by simp
qed

text \<open>
  One column's loop: batches until no row is stale. The result is the error that stopped it, if
  any, with the count and the rows committed by then: each batch is its own transaction.
\<close>

function rotate_column ::
  "fernet \<Rightarrow> keyring \<Rightarrow> (nat \<Rightarrow> nat) \<Rightarrow> nat \<Rightarrow> 'a sealed_scheme list \<Rightarrow> nat \<Rightarrow>
     error option \<times> nat \<times> 'a sealed_scheme list"
where
  "rotate_column fer ring nonce n rows rotated =
     (case current_key_id ring of
        Inl e \<Rightarrow> (Some e, rotated, rows)
      | Inr current \<Rightarrow>
          let batch = next_batch current n rows in
          if batch = [] then (None, rotated, rows)
          else (case mapR (reseal fer ring nonce) batch of
                  Inl e \<Rightarrow> (Some e, rotated, rows)
                | Inr news \<Rightarrow> rotate_column fer ring nonce n (put_rows news rows) (rotated + length batch)))"
  by pat_completeness auto
termination
proof (relation "measure (\<lambda>(fer, ring, nonce, n, rows, rotated).
    case current_key_id ring of Inl _ \<Rightarrow> 0 | Inr c \<Rightarrow> length (filter (stale c) rows))")
  fix fer :: fernet and ring nonce n and rows :: "'a sealed_scheme list" and rotated :: nat
    and current batch news
  assume a: "current_key_id ring = Inr current" "batch = next_batch current n rows" "batch \<noteq> []"
    "mapR (reseal fer ring nonce) batch = Inr news"
  have "set batch \<subseteq> set (filter (stale current) rows)"
    using set_take_subset[of n "sort_key s_id (filter (stale current) rows)"] by (simp add: a(2) next_batch_def)
  from put_rows_fewer[OF a(4,1,3) this] a(1)
  show "((fer, ring, nonce, n, put_rows news rows, rotated + length batch), fer, ring, nonce, n, rows, rotated)
    \<in> measure (\<lambda>(fer, ring, nonce, n, rows, rotated).
        case current_key_id ring of Inl _ \<Rightarrow> 0 | Inr c \<Rightarrow> length (filter (stale c) rows))"
    by simp
qed simp

declare rotate_column.simps [simp del]

definition rotate_encrypted_values ::
  "fernet \<Rightarrow> keyring \<Rightarrow> (nat \<Rightarrow> nat) \<Rightarrow> int \<Rightarrow> db \<Rightarrow> error option \<times> nat \<times> db"
where
  "rotate_encrypted_values fer ring nonce batch_size s =
     (if batch_size < 1 then (Some (EncryptionErr ''batch_size must be >= 1''), 0, s)
      else case current_key_id ring of
        Inl e \<Rightarrow> (Some e, 0, s)
      | Inr _ \<Rightarrow>
          (case rotate_column fer ring nonce (nat batch_size) (db_vars s) 0 of
             (Some e, n, rows) \<Rightarrow> (Some e, n, s\<lparr>db_vars := rows\<rparr>)
           | (None, n, rows) \<Rightarrow>
               (case rotate_column fer ring nonce (nat batch_size) (db_databases s) n of
                  (e, m, rows') \<Rightarrow> (e, m, s\<lparr>db_vars := rows, db_databases := rows'\<rparr>))))"

section \<open>What rotation keeps\<close>

text \<open>The plaintext a row holds under a keyring.\<close>

definition plain :: "fernet \<Rightarrow> keyring \<Rightarrow> 'a sealed_scheme \<Rightarrow> string option" where
  "plain fer ring r =
     (case (s_cipher r, s_key_id r) of
        (Some c, Some kid) \<Rightarrow> (case decrypt fer ring c kid of Inr p \<Rightarrow> Some p | Inl _ \<Rightarrow> None)
      | _ \<Rightarrow> None)"

definition same_secret :: "fernet \<Rightarrow> keyring \<Rightarrow> 'a sealed_scheme \<Rightarrow> 'a sealed_scheme \<Rightarrow> bool" where
  "same_secret fer ring r r' \<longleftrightarrow>
     s_id r' = s_id r \<and> sealed.more r' = sealed.more r \<and> plain fer ring r' = plain fer ring r \<and>
     (s_key_id r' = None \<longleftrightarrow> s_key_id r = None)"

lemma same_secret_refl: "same_secret fer ring r r"
  by (simp add: same_secret_def)

lemma same_secret_trans: "same_secret fer ring a b \<Longrightarrow> same_secret fer ring b c \<Longrightarrow> same_secret fer ring a c"
  by (simp add: same_secret_def)

lemma encrypt_decrypt:
  assumes "fernet_ok fer" "encrypt fer ring nonce p = Inr (c, kid)"
  shows "decrypt fer ring c kid = Inr p"
proof (cases ring)
  case (Cons a rest)
  with assms show ?thesis
    by (cases a) (auto simp: encrypt_def current_key_id_def decrypt_def fernet_ok_def)
qed (use assms in \<open>simp add: encrypt_def current_key_id_def\<close>)

lemma reseal_same:
  assumes "fernet_ok fer" "reseal fer ring nonce r = Inr r'"
  shows "same_secret fer ring r r'"
proof -
  from assms(2) obtain c kid p c' kid' where r: "s_cipher r = Some c" "s_key_id r = Some kid"
    "decrypt fer ring c kid = Inr p" "encrypt fer ring (nonce (s_id r)) p = Inr (c', kid')"
    "r' = r\<lparr>s_cipher := Some c', s_key_id := Some kid'\<rparr>"
    by (auto simp: reseal_def result_simps split: option.splits)
  with encrypt_decrypt[OF assms(1) r(4)] show ?thesis
    by (cases r) (simp add: same_secret_def plain_def)
qed

lemma put_rows_same:
  assumes "fernet_ok fer" "mapR (reseal fer ring nonce) b = Inr news" "set b \<subseteq> set rows" "keyed s_id rows"
  shows "list_all2 (same_secret fer ring) rows (put_rows news rows)"
proof -
  have "same_secret fer ring r (case row_get s_id (s_id r) news of None \<Rightarrow> r | Some n \<Rightarrow> n)" if "r \<in> set rows" for r
  proof (cases "row_get s_id (s_id r) news")
    case (Some n)
    then obtain x where x: "x \<in> set b" "reseal fer ring nonce x = Inr n"
      using mapR_to[OF assms(2)] row_get_in by metis
    with reseal_same[OF assms(1) x(2)] row_get_key[OF Some] have "s_id x = s_id r" by (simp add: same_secret_def)
    with x assms(3) that have "x = r" using keyed_unique[OF assms(4)] by blast
    with Some reseal_same[OF assms(1) x(2)] show ?thesis by simp
  qed (simp add: same_secret_refl)
  then show ?thesis by (auto simp: put_rows_def list_all2_conv_all_nth)
qed

lemma list_all2_source: "list_all2 P xs ys \<Longrightarrow> y \<in> set ys \<Longrightarrow> \<exists>x \<in> set xs. P x y"
  by (induction rule: list_all2_induct) auto

lemma rotate_column_stop:
  "current_key_id ring = Inr cur \<Longrightarrow> next_batch cur n rows = [] \<Longrightarrow>
     rotate_column fer ring nonce n rows k = (None, k, rows)"
  by (subst rotate_column.simps) simp

lemma rotate_column_fail:
  "current_key_id ring = Inr cur \<Longrightarrow> next_batch cur n rows \<noteq> [] \<Longrightarrow>
     mapR (reseal fer ring nonce) (next_batch cur n rows) = Inl e \<Longrightarrow>
     rotate_column fer ring nonce n rows k = (Some e, k, rows)"
  by (subst rotate_column.simps) simp

lemma rotate_column_next:
  "current_key_id ring = Inr cur \<Longrightarrow> next_batch cur n rows \<noteq> [] \<Longrightarrow>
     mapR (reseal fer ring nonce) (next_batch cur n rows) = Inr news \<Longrightarrow>
     rotate_column fer ring nonce n rows k =
       rotate_column fer ring nonce n (put_rows news rows) (k + length (next_batch cur n rows))"
  by (subst rotate_column.simps) simp

lemma same_secret_ids: "list_all2 (same_secret fer ring) rows rows' \<Longrightarrow> map s_id rows' = map s_id rows"
  by (induction rule: list_all2_induct) (auto simp: same_secret_def)

lemma next_batch_sub: "set (next_batch cur n rows) \<subseteq> set (filter (stale cur) rows)"
  using set_take_subset[of n "sort_key s_id (filter (stale cur) rows)"] by (simp add: next_batch_def)

lemma mapR_Inl: "mapR f xs = Inl e \<Longrightarrow> \<exists>x \<in> set xs. f x = Inl e"
  by (induction xs) (auto simp: result_simps)

lemma reseal_Inl:
  assumes "reseal fer ring nonce r = Inl e" "current_key_id ring = Inr cur"
  shows "plain fer ring r = None"
  using assms by (auto simp: reseal_def plain_def encrypt_def result_simps split: option.splits sum.splits)

lemma rotate_column_spec:
  assumes "fernet_ok fer" "current_key_id ring = Inr cur" "0 < n" "keyed s_id rows"
    "rotate_column fer ring nonce n rows k = (e, m, rows')"
  shows "list_all2 (same_secret fer ring) rows rows' \<and> (e = None \<longrightarrow> (\<forall>r \<in> set rows'. \<not> stale cur r)) \<and>
    (e \<noteq> None \<longrightarrow> (\<exists>r \<in> set rows. s_key_id r \<noteq> None \<and> plain fer ring r = None))"
  using assms
proof (induction fer ring nonce n rows k rule: rotate_column.induct)
  case (1 fer ring nonce n rows k)
  note cur = "1.prems"(2)
  let ?b = "next_batch cur n rows"
  show ?case
  proof (cases "?b = []")
    case True
    with "1.prems"(3) have "filter (stale cur) rows = []"
      unfolding next_batch_def by (metis length_0_conv length_sort less_not_refl take_eq_Nil)
    moreover from "1.prems"(5) have "e = None" "rows' = rows" unfolding rotate_column_stop[OF cur True] by simp_all
    moreover have "list_all2 (same_secret fer ring) rows rows" by (rule list.rel_refl) (rule same_secret_refl)
    ultimately show ?thesis by (simp add: filter_empty_conv)
  next
    case False
    note sub = next_batch_sub[of cur n rows]
    show ?thesis
    proof (cases "mapR (reseal fer ring nonce) ?b")
      case (Inl x)
      obtain r where r: "r \<in> set ?b" "reseal fer ring nonce r = Inl x" using mapR_Inl[OF Inl] by blast
      from r(1) sub have "r \<in> set rows" "stale cur r" by auto
      then have "s_key_id r \<noteq> None" by (auto simp: stale_def split: option.splits)
      with \<open>r \<in> set rows\<close> reseal_Inl[OF r(2) cur] have
        "\<exists>r \<in> set rows. s_key_id r \<noteq> None \<and> plain fer ring r = None" by blast
      moreover from "1.prems"(5) have "e \<noteq> None" "rows' = rows"
        unfolding rotate_column_fail[OF cur False Inl] by auto
      moreover have "list_all2 (same_secret fer ring) rows rows" by (rule list.rel_refl) (rule same_secret_refl)
      ultimately show ?thesis by auto
    next
      case (Inr news)
      from sub have sub': "set ?b \<subseteq> set rows" by auto
      note same = put_rows_same[OF "1.prems"(1) Inr sub' "1.prems"(4)]
      from "1.prems"(5) have step: "rotate_column fer ring nonce n (put_rows news rows) (k + length ?b) = (e, m, rows')"
        unfolding rotate_column_next[OF cur False Inr] .
      have "keyed s_id (put_rows news rows)" using same_secret_ids[OF same] "1.prems"(4) by simp
      note IH = "1.IH"[OF cur refl False Inr "1.prems"(1-3) this step]
      have "list_all2 (same_secret fer ring) rows rows'"
        by (rule list_all2_trans[OF same_secret_trans same conjunct1[OF IH]])
      moreover have "\<exists>r \<in> set rows. s_key_id r \<noteq> None \<and> plain fer ring r = None"
        if "\<exists>r \<in> set (put_rows news rows). s_key_id r \<noteq> None \<and> plain fer ring r = None"
      proof -
        from that obtain r' where r': "r' \<in> set (put_rows news rows)" "s_key_id r' \<noteq> None"
          "plain fer ring r' = None" by blast
        from list_all2_source[OF same r'(1)] obtain r where r: "r \<in> set rows" "same_secret fer ring r r'" by blast
        with r' show ?thesis unfolding same_secret_def by metis
      qed
      ultimately show ?thesis using IH by auto
    qed
  qed
qed

section \<open>Keyrings\<close>

lemma add_key_Inr:
  "add_key fer key ring = Inr ring' \<Longrightarrow> \<exists>fp. fer_fp fer key = Some fp \<and> fp \<notin> fst ` set ring \<and> ring' = ring @ [(fp, key)]"
  by (auto simp: add_key_def key_fingerprint_def result_simps split: option.splits if_splits)

lemma make_keyring_shape:
  assumes "foldR (add_key fer) keys ring = Inr ring'" "distinct (map fst ring)"
  shows "distinct (map fst ring') \<and> (\<exists>more. ring' = ring @ more \<and> map snd more = keys)"
  using assms
proof (induction keys arbitrary: ring)
  case (Cons k ks)
  then obtain mid where m: "add_key fer k ring = Inr mid" "foldR (add_key fer) ks mid = Inr ring'"
    by (auto simp: result_simps)
  from add_key_Inr[OF m(1)] obtain fp where fp: "fp \<notin> fst ` set ring" "mid = ring @ [(fp, k)]" by blast
  with Cons.prems(2) have "distinct (map fst mid)" by simp
  from Cons.IH[OF m(2) this] fp(2) show ?case by force
qed simp

lemma make_keyring_Cons:
  assumes "make_keyring fer (k # ks) = Inr ring"
  obtains fp rest where "ring = (fp, k) # rest" "make_keyring fer [k] = Inr [(fp, k)]"
proof -
  from assms obtain mid where m: "add_key fer k [] = Inr mid" "foldR (add_key fer) ks mid = Inr ring"
    by (auto simp: make_keyring_def result_simps)
  from add_key_Inr[OF m(1)] obtain fp where fp: "mid = [(fp, k)]" by auto
  with make_keyring_shape[OF m(2)] obtain more where "ring = (fp, k) # more" by auto
  with m(1) fp show thesis by (intro that[of fp more]) (simp_all add: make_keyring_def)
qed

lemma stored_key_ids_set: "k \<in> set (stored_key_ids rows) \<longleftrightarrow> (\<exists>r \<in> set rows. s_key_id r = Some k)"
  by (force simp: stored_key_ids_def)

text \<open>Every key a stored row names is in the ring.\<close>

definition all_readable_by :: "keyring \<Rightarrow> db \<Rightarrow> bool" where
  "all_readable_by ring s \<longleftrightarrow>
     (\<forall>r \<in> set (db_vars s). \<forall>k. s_key_id r = Some k \<longrightarrow> k \<in> set (key_ids ring)) \<and>
     (\<forall>r \<in> set (db_databases s). \<forall>k. s_key_id r = Some k \<longrightarrow> k \<in> set (key_ids ring))"

lemma all_readable_columns:
  "all_readable_by ring s \<longleftrightarrow>
     set (stored_key_ids (db_vars s)) \<subseteq> set (key_ids ring) \<and>
     set (stored_key_ids (db_databases s)) \<subseteq> set (key_ids ring)"
  by (simp add: all_readable_by_def subset_iff stored_key_ids_set) blast

lemma verify_keyring_Inr:
  "verify_keyring fer keys s = Inr () \<longleftrightarrow>
     (\<exists>ring. make_keyring fer keys = Inr ring \<and> all_readable_by ring s \<and>
       (ring = [] \<longrightarrow> (\<forall>t \<in> set (db_templates s). t_deleted_at t = None \<longrightarrow> \<not> schema_declares_vars (t_schema t))))"
proof -
  have unread: "unreadable ring s = [] \<longleftrightarrow> all_readable_by ring s" for ring
    unfolding unreadable_def by (simp add: all_readable_columns encrypted_columns_def subset_iff) blast
  have hold: "holding s = [] \<longleftrightarrow> all_readable_by [] s"
    by (simp add: holding_def all_readable_columns encrypted_columns_def key_ids_def)
  have decl: "declaring s = [] \<longleftrightarrow>
      (\<forall>t \<in> set (db_templates s). t_deleted_at t = None \<longrightarrow> \<not> schema_declares_vars (t_schema t))"
    by (auto simp: declaring_def)
  show ?thesis
  proof (cases "make_keyring fer keys")
    case (Inr ring)
    then show ?thesis unfolding verify_keyring_def Inr bindR.simps unread hold decl by auto
  qed (simp add: verify_keyring_def)
qed

section \<open>Properties\<close>

lemma all_fresh_readable:
  assumes "\<forall>r \<in> set (db_vars s). \<not> stale fp r" "\<forall>r \<in> set (db_databases s). \<not> stale fp r"
  shows "all_readable_by [(fp, k)] s"
  using assms by (auto simp: all_readable_by_def stale_def key_ids_def)

text \<open>
  C40. Rotation never loses a secret. Whatever happens, every row of both encrypted columns keeps its
  identity, its other columns and its plaintext. The sweep only stops with an error at a row that
  was already unreadable; when it finishes, no row names an older key, and the startup check passes
  with the current key alone, so every other key can be retired.
\<close>

theorem rotation_lossless:
  assumes fer: "fernet_ok fer" and ring: "make_keyring fer (key # older) = Inr ring"
    and n: "1 \<le> batch" and ids: "keyed s_id (db_vars s)" "keyed s_id (db_databases s)"
    and rot: "rotate_encrypted_values fer ring nonce batch s = (e, swept, s')"
  shows "list_all2 (same_secret fer ring) (db_vars s) (db_vars s') \<and>
    list_all2 (same_secret fer ring) (db_databases s) (db_databases s') \<and>
    (e \<noteq> None \<longrightarrow> (\<exists>r \<in> set (db_vars s). s_key_id r \<noteq> None \<and> plain fer ring r = None) \<or>
                   (\<exists>r \<in> set (db_databases s). s_key_id r \<noteq> None \<and> plain fer ring r = None)) \<and>
    (e = None \<longrightarrow> verify_keyring fer [key] s' = Inr ())"
proof -
  obtain fp rest where r: "ring = (fp, key) # rest" "make_keyring fer [key] = Inr [(fp, key)]"
    using make_keyring_Cons[OF ring] by blast
  then have cur: "current_key_id ring = Inr fp" by (simp add: current_key_id_def)
  have n': "0 < nat batch" "\<not> batch < 1" using n by simp_all
  obtain e1 m1 vs where a: "rotate_column fer ring nonce (nat batch) (db_vars s) 0 = (e1, m1, vs)"
    by (cases "rotate_column fer ring nonce (nat batch) (db_vars s) 0") auto
  obtain e2 m2 ds where b: "rotate_column fer ring nonce (nat batch) (db_databases s) m1 = (e2, m2, ds)"
    by (cases "rotate_column fer ring nonce (nat batch) (db_databases s) m1") auto
  note va = rotate_column_spec[OF fer cur n'(1) ids(1) a] and vb = rotate_column_spec[OF fer cur n'(1) ids(2) b]
  have refl: "list_all2 (same_secret fer ring) (db_databases s) (db_databases s)"
    by (rule list.rel_refl) (rule same_secret_refl)
  show ?thesis
  proof (cases e1)
    case (Some x)
    with rot cur n' a have "e = Some x" "s' = s\<lparr>db_vars := vs\<rparr>" by (simp_all add: rotate_encrypted_values_def)
    with va Some refl show ?thesis by simp
  next
    case None
    with rot cur n' a b have s': "e = e2" "s' = s\<lparr>db_vars := vs, db_databases := ds\<rparr>"
      by (simp_all add: rotate_encrypted_values_def)
    have "all_readable_by [(fp, key)] s'" if "e2 = None"
      using va vb None that by (intro all_fresh_readable) (auto simp: s')
    then have "verify_keyring fer [key] s' = Inr ()" if "e2 = None"
      using that r(2) by (simp add: verify_keyring_Inr)
    with va vb None s' show ?thesis by simp
  qed
qed

text \<open>
  A process that passes the startup check can name the key of every secret in storage: its
  configured keys have distinct fingerprints, among them every fingerprint a stored row names.
\<close>

theorem verified_keyring_covers:
  assumes "verify_keyring fer keys s = Inr ()"
  shows "\<exists>ring. make_keyring fer keys = Inr ring \<and> map snd ring = keys \<and> distinct (map fst ring) \<and>
    (\<forall>k. Some k \<in> s_key_id ` set (db_vars s) \<union> s_key_id ` set (db_databases s) \<longrightarrow>
       (\<exists>key \<in> set keys. map_of ring k = Some key))"
proof -
  from assms obtain ring where r: "make_keyring fer keys = Inr ring" "all_readable_by ring s"
    by (auto simp: verify_keyring_Inr)
  from make_keyring_shape[of fer keys "[]" ring] r(1) have m: "map snd ring = keys" "distinct (map fst ring)"
    by (auto simp: make_keyring_def)
  have "\<exists>key \<in> set keys. map_of ring k = Some key" if "k \<in> set (key_ids ring)" for k
  proof -
    from that obtain key where k: "(k, key) \<in> set ring" by (auto simp: key_ids_def)
    with m have "map_of ring k = Some key" "key \<in> set keys" by force+
    then show ?thesis by blast
  qed
  with r m show ?thesis by (auto simp: all_readable_by_def)
qed

text \<open>A keyring of two keys and a store swept from the older to the newer.\<close>

definition demo_fernet :: fernet where
  "demo_fernet = \<lparr>fer_fp = (\<lambda>k. Some (take 2 k)), fer_valid = (\<lambda>k. k \<noteq> []),
     fer_enc = (\<lambda>n k p. k @ p), fer_dec = (\<lambda>k c. if starts_with c k then Some (drop (length k) c) else None)\<rparr>"

definition demo_var :: var_row where
  "demo_var = \<lparr>s_id = 1, s_cipher = Some ''k1-hunter2'', s_key_id = Some ''k1'', v_dep = 7, v_key = ''TOKEN'',
     v_sensitive = True, v_created_by = 1, v_created_at = 0\<rparr>"

lemma demo_fernet_ok: "fernet_ok demo_fernet"
  by (simp add: fernet_ok_def demo_fernet_def starts_with_def)

lemma demo_ring: "make_keyring demo_fernet [''k2-'', ''k1-''] = Inr [(''k2'', ''k2-''), (''k1'', ''k1-'')]"
  by (simp add: make_keyring_def add_key_def key_fingerprint_def demo_fernet_def)

lemma demo_rotation:
  "rotate_encrypted_values demo_fernet [(''k2'', ''k2-''), (''k1'', ''k1-'')] id 200 (empty_db\<lparr>db_vars := [demo_var]\<rparr>) =
     (None, 1, empty_db\<lparr>db_vars := [demo_var\<lparr>s_cipher := Some ''k2-hunter2'', s_key_id := Some ''k2''\<rparr>]\<rparr>)"
  by (simp add: rotate_encrypted_values_def rotate_column.simps current_key_id_def next_batch_def stale_def
      demo_var_def reseal_def decrypt_def encrypt_def demo_fernet_def starts_with_def put_rows_def
      table_simps empty_db_def)

theorem rotation_lossless_witness:
  "verify_keyring demo_fernet [''k2-'']
     (empty_db\<lparr>db_vars := [demo_var\<lparr>s_cipher := Some ''k2-hunter2'', s_key_id := Some ''k2''\<rparr>]\<rparr>) = Inr ()"
  using rotation_lossless[OF demo_fernet_ok demo_ring _ _ _ demo_rotation]
  by (simp add: empty_db_def)

theorem verified_keyring_covers_witness:
  "\<exists>ring. make_keyring demo_fernet [''k2-'', ''k1-''] = Inr ring \<and> map_of ring ''k1'' = Some ''k1-''"
proof -
  have "verify_keyring demo_fernet [''k2-'', ''k1-''] (empty_db\<lparr>db_vars := [demo_var]\<rparr>) = Inr ()"
    by (simp add: verify_keyring_Inr demo_ring all_readable_by_def empty_db_def demo_var_def key_ids_def)
  from verified_keyring_covers[OF this] demo_ring show ?thesis by auto
qed

end
