(* ===== verification/Hostnames.thy ===== *)
theory Hostnames
  imports Naming Models
begin

text \<open>
  Hostnames of deployments, \<^verbatim>\<open>api/app/services/hostnames.py\<close>: completing a bare label beneath the
  owner's handle, the format check, the tenant pattern, availability, and the DNS target of custom
  domains. The DNS (\<^verbatim>\<open>dnspython\<close> and the name servers) is a parameter.
\<close>

section \<open>Patterns\<close>

definition is_letter_digit :: "char \<Rightarrow> bool" where
  "is_letter_digit c \<longleftrightarrow> is_lower c \<or> is_upper c \<or> is_dec c"

definition is_host_char :: "char \<Rightarrow> bool" where
  "is_host_char c \<longleftrightarrow> is_letter_digit c \<or> c = CHR ''-''"

text \<open>
  \<^verbatim>\<open>[a-zA-Z0-9](?:[a-zA-Z0-9-]{0,61}[a-zA-Z0-9])?\<close>, \<^verbatim>\<open>[a-z0-9](?:[a-z0-9-]*[a-z0-9])?\<close> and
  \<^verbatim>\<open>[a-z0-9]{2,20}\<close>; the code matches all three with \<^verbatim>\<open>.match\<close> and \<^verbatim>\<open>$\<close>.
\<close>

definition label_re :: rx where
  "label_re =
     RSeq (RCls is_letter_digit)
       (rx_opt (RSeq (rx_upto 61 (RCls is_host_char)) (RCls is_letter_digit)))"

definition app_label_re :: rx where
  "app_label_re =
     RSeq (RCls is_alnum) (rx_opt (RSeq (RStar (RCls is_label_char)) (RCls is_alnum)))"

definition handle_re :: rx where
  "handle_re = rx_rep 2 20 (RCls is_alnum)"

definition preview_prefix :: string where
  "preview_prefix = ''preview-''"

section \<open>Definitions\<close>

definition is_dot :: "char \<Rightarrow> bool" where
  "is_dot c \<longleftrightarrow> c = CHR ''.''"

definition check_format :: "string \<Rightarrow> unit result" where
  "check_format fqdn =
     (if fqdn = [] \<or> 253 < length fqdn then Inl (HostnameErr ''invalid'')
      else let labels = split_on (CHR ''.'') (rstrip is_dot fqdn)
           in if length labels < 2 then Inl (HostnameErr ''invalid'')
              else if \<exists>l \<in> set labels. l = [] \<or> \<not> re_match_end label_re l
                   then Inl (HostnameErr ''invalid'')
                   else Inr ())"

definition under :: "string \<Rightarrow> string \<Rightarrow> bool" where
  "under fqdn domain \<longleftrightarrow> domain \<noteq> [] \<and> (fqdn = domain \<or> ends_with fqdn (CHR ''.'' # domain))"

definition complete_hostname :: "settings \<Rightarrow> string option \<Rightarrow> string \<Rightarrow> string result" where
  "complete_hostname st handle value =
     (let v = lower value in
      if CHR ''.'' \<in> set v then Inr v
      else case handle of
             None \<Rightarrow> Inl (HostnameErr ''invalid'')
           | Some h \<Rightarrow> if h = [] then Inl (HostnameErr ''invalid'')
                       else Inr (v @ ''-'' @ h @ ''.'' @ st_tenant_domain st))"

definition tenant_label :: "string \<Rightarrow> string \<Rightarrow> string" where
  "tenant_label fqdn domain =
     (if fqdn \<noteq> domain then take (length fqdn - (length domain + 1)) fqdn else [])"

definition handle_or_empty :: "string option \<Rightarrow> string" where
  "handle_or_empty h = (case h of None \<Rightarrow> [] | Some x \<Rightarrow> x)"

definition check_tenant_label :: "settings \<Rightarrow> string option \<Rightarrow> string \<Rightarrow> unit result" where
  "check_tenant_label st handle fqdn =
     (let label = tenant_label fqdn (st_tenant_domain st) in
      if label = [] \<or> CHR ''.'' \<in> set label \<or> CHR ''-'' \<notin> set label then Inl (HostnameErr ''invalid'')
      else let app = before_last (CHR ''-'') label; owner = after_last (CHR ''-'') label in
        if \<not> re_match_end handle_re owner \<or> 34 < length app \<or> \<not> re_match_end app_label_re app
           \<or> contains_str ''--'' app
        then Inl (HostnameErr ''invalid'')
        else if owner \<noteq> lower (handle_or_empty handle) then Inl (HostnameErr ''claimed'')
        else if starts_with app preview_prefix then Inl (HostnameErr ''reserved'')
        else Inr ())"

definition host_taken :: "deployment list \<Rightarrow> string \<Rightarrow> uuid option \<Rightarrow> bool" where
  "host_taken deps fqdn exclude \<longleftrightarrow>
     (\<exists>d \<in> set deps. d_hostname d = Some fqdn \<and> d_status d \<noteq> DDeleted \<and>
        (case exclude of None \<Rightarrow> True | Some i \<Rightarrow> d_id d \<noteq> i))"

definition check_available :: "deployment list \<Rightarrow> string \<Rightarrow> uuid option \<Rightarrow> unit result" where
  "check_available deps fqdn exclude = guardR (\<not> host_taken deps fqdn exclude) (HostnameErr ''in_use'')"

text \<open>
  The DNS: the name servers of a name's zone (\<open>None\<close> when they cannot be determined), and the
  answer to a query, by the system resolver or by given name servers. \<open>NoRecords\<close> is
  \<^verbatim>\<open>NXDOMAIN\<close> or \<^verbatim>\<open>NoAnswer\<close>, \<open>DnsFail\<close> any other \<^verbatim>\<open>DNSException\<close>.
\<close>

datatype dns_answer = Records "string list" | NoRecords | DnsFail

record dns =
  dns_zone_ns :: "string \<Rightarrow> string list option"
  dns_system :: "string \<Rightarrow> string \<Rightarrow> dns_answer"
  dns_servers :: "string list \<Rightarrow> string \<Rightarrow> string \<Rightarrow> dns_answer"

fun answer_list :: "dns_answer \<Rightarrow> string list" where
  "answer_list (Records rs) = rs"
| "answer_list NoRecords = []"
| "answer_list DnsFail = []"

definition authoritative_resolver :: "dns \<Rightarrow> string \<Rightarrow> string list option" where
  "authoritative_resolver net fqdn =
     (case dns_zone_ns net fqdn of
        None \<Rightarrow> None
      | Some names \<Rightarrow>
          let ips = concat (map (\<lambda>ns. answer_list (dns_system net ns ''A'') @ answer_list (dns_system net ns ''AAAA'')) names)
          in if ips = [] then None else Some ips)"

definition lookup_rr :: "dns \<Rightarrow> string \<Rightarrow> string \<Rightarrow> string list option \<Rightarrow> string list result" where
  "lookup_rr net fqdn rdtype resolver =
     (case (case resolver of None \<Rightarrow> dns_system net fqdn rdtype | Some ips \<Rightarrow> dns_servers net ips fqdn rdtype) of
        Records rs \<Rightarrow> Inr rs
      | NoRecords \<Rightarrow> Inr []
      | DnsFail \<Rightarrow>
          if resolver = None then Inl (HostnameErr ''not_resolving'')
          else (case dns_system net fqdn rdtype of
                  Records rs \<Rightarrow> Inr rs
                | NoRecords \<Rightarrow> Inr []
                | DnsFail \<Rightarrow> Inl (HostnameErr ''not_resolving'')))"

definition addresses :: "dns \<Rightarrow> string \<Rightarrow> string list option \<Rightarrow> string set result" where
  "addresses net fqdn resolver =
     bindR (lookup_rr net fqdn ''A'' resolver) (\<lambda>a.
     bindR (lookup_rr net fqdn ''AAAA'' resolver) (\<lambda>b. Inr (set a \<union> set b)))"

definition cname_target :: "settings \<Rightarrow> string" where
  "cname_target st = (if st_tenant_domain st \<noteq> [] then st_tenant_domain st else st_domain st)"

definition check_dns_target :: "dns \<Rightarrow> settings \<Rightarrow> string \<Rightarrow> unit result" where
  "check_dns_target net st fqdn =
     (if st_domain st = [] then Inr ()
      else let target = cname_target st; resolver = authoritative_resolver net fqdn in
        bindR (lookup_rr net fqdn ''CNAME'' resolver) (\<lambda>cname.
          case cname of
            c # _ \<Rightarrow> guardR (lower (rstrip is_dot c) = lower target) (HostnameErr ''not_resolving'')
          | [] \<Rightarrow>
              bindR (addresses net fqdn resolver) (\<lambda>addrs.
                if addrs = {} then Inl (HostnameErr ''not_resolving'')
                else bindR (addresses net target (authoritative_resolver net target)) (\<lambda>platform.
                  guardR (addrs \<subseteq> platform) (HostnameErr ''not_resolving'')))))"

definition require_valid_hostname ::
  "dns \<Rightarrow> settings \<Rightarrow> deployment list \<Rightarrow> string option \<Rightarrow> uuid option \<Rightarrow> string \<Rightarrow> string result"
where
  "require_valid_hostname net st deps handle exclude value =
     bindR (complete_hostname st handle value) (\<lambda>fqdn.
     bindR (check_format fqdn) (\<lambda>_.
       if under fqdn (st_tenant_domain st)
       then bindR (check_tenant_label st handle fqdn) (\<lambda>_.
            bindR (check_available deps fqdn exclude) (\<lambda>_. Inr fqdn))
       else if \<exists>d \<in> set (st_platform_domains st). under fqdn d
       then Inl (HostnameErr ''reserved'')
       else bindR (check_available deps fqdn exclude) (\<lambda>_.
            bindR (check_dns_target net st fqdn) (\<lambda>_. Inr fqdn))))"

section \<open>Splitting a hostname\<close>

lemma split_on_sep: "d \<notin> set l \<Longrightarrow> split_on d (l @ d # r) = l # split_on d r"
  by (induction l) auto

lemma split_on_whole: "d \<notin> set l \<Longrightarrow> split_on d l = [l]"
  by (induction l) auto

lemma rstrip_append: "rstrip P (a @ b) = (if \<forall>c \<in> set b. P c then rstrip P a else a @ rstrip P b)"
  by (auto simp: rstrip_def dropWhile_append)

lemma under_split:
  assumes "under fqdn d" "fqdn \<noteq> d"
  shows "fqdn = tenant_label fqdn d @ CHR ''.'' # d"
proof -
  from assms have e: "length (CHR ''.'' # d) \<le> length fqdn"
    "drop (length fqdn - length (CHR ''.'' # d)) fqdn = CHR ''.'' # d"
    by (auto simp: under_def ends_with_def)
  have "fqdn = take (length fqdn - length (CHR ''.'' # d)) fqdn @ drop (length fqdn - length (CHR ''.'' # d)) fqdn"
    by simp
  with e assms(2) show ?thesis by (simp add: tenant_label_def)
qed

lemma under_composed: "d \<noteq> [] \<Longrightarrow> under (l @ CHR ''.'' # d) d"
  by (simp add: under_def ends_with_def)

lemma tenant_label_composed: "tenant_label (l @ CHR ''.'' # d) d = l"
  by (simp add: tenant_label_def)

lemma last_parts:
  assumes "d \<notin> set b"
  shows "before_last d (a @ d # b) = a" "after_last d (a @ d # b) = b"
proof -
  have "takeWhile (\<lambda>c. c \<noteq> d) (rev b @ d # rev a) = rev b" "dropWhile (\<lambda>c. c \<noteq> d) (rev b @ d # rev a) = d # rev a"
    using assms by (auto simp: takeWhile_append dropWhile_append)
  then show "before_last d (a @ d # b) = a" "after_last d (a @ d # b) = b"
    by (simp_all add: before_last_def after_last_def)
qed

section \<open>Label languages\<close>

abbreviation host_label :: "string \<Rightarrow> bool" where
  "host_label s \<equiv> bounded_by is_letter_digit is_host_char s \<and> length s \<le> 63"

lemma letter_digit_host: "is_letter_digit c \<Longrightarrow> is_host_char c"
  by (simp add: is_host_char_def)

lemma label_lang: "s \<in> lang label_re \<longleftrightarrow> host_label s"
proof -
  have L: "lang (rx_upto 61 (RCls is_host_char)) = {w. length w \<le> 61 \<and> (\<forall>c \<in> set w. is_host_char c)}"
    by (simp add: rx_lang)
  show ?thesis
    unfolding label_re_def using lang_bounded[OF letter_digit_host L, where s = s]
    by (cases s) (auto simp: bounded_by_def simp del: lang.simps)
qed

lemma app_label_lang: "s \<in> lang app_label_re \<longleftrightarrow> slug_like s"
proof -
  have L: "lang (RStar (RCls is_label_char)) = {w. True \<and> (\<forall>c \<in> set w. is_label_char c)}"
    by (simp add: rx_lang del: lang.simps)
  show ?thesis
    unfolding app_label_re_def using lang_bounded[OF alnum_label L, where s = s]
    by (simp del: lang.simps)
qed

definition handle_shape :: "string \<Rightarrow> bool" where
  "handle_shape h \<longleftrightarrow> 2 \<le> length h \<and> length h \<le> 20 \<and> (\<forall>c \<in> set h. is_alnum c)"

lemma handle_lang: "s \<in> lang handle_re \<longleftrightarrow> handle_shape s"
  by (simp add: handle_re_def handle_shape_def lang_rep_cls)

lemma newline_char: "newline = CHR 0x0A"
  by (simp add: newline_def char_of_def bit_0)

lemma lower_char_newline: "lower_char c = newline \<Longrightarrow> c = newline"
proof (rule ccontr)
  assume l: "lower_char c = newline" and n: "c \<noteq> newline"
  then have "char_of (cp c + 32) = newline" and c: "cp c \<le> 222"
    by (auto simp: lower_char_def Let_def split: if_splits)
  then have "cp (char_of (cp c + 32)) = cp newline" by simp
  moreover have "cp (char_of (cp c + 32)) = cp c + 32" using c by (simp add: cp_char_of)
  moreover have "cp newline = 10" by (simp add: newline_def cp_def)
  ultimately show False by simp
qed

lemma newline_not_host [simp]: "\<not> is_host_char newline"
  by (simp add: newline_char is_host_char_def is_letter_digit_def is_lower_def is_upper_def is_dec_def in_range_def cp_def)

lemma alnum_host: "is_alnum c \<Longrightarrow> is_letter_digit c"
  by (auto simp: is_alnum_def is_letter_digit_def)

lemma label_char_host: "is_label_char c \<Longrightarrow> is_host_char c"
  by (auto simp: is_label_char_def is_host_char_def alnum_host)

lemma newline_not_alnum [simp]: "\<not> is_alnum newline" "\<not> is_label_char newline"
  using newline_not_host alnum_host letter_digit_host label_char_host by blast+

lemma hyphen_dot_alnum [simp]: "\<not> is_alnum (CHR ''.'')"
  by (simp add: is_alnum_def is_lower_def is_dec_def in_range_def cp_def)

lemma label_dot [simp]: "\<not> is_label_char (CHR ''.'')"
  by (simp add: is_label_char_def)

lemma label_match_last:
  assumes "re_match_end label_re (l @ [c])" "c \<noteq> newline"
  shows "host_label (l @ [c])"
  using assms by (auto simp: re_match_end_lang label_lang)

lemma lower_alnum: "is_alnum c \<Longrightarrow> lower_char c = c"
  by (rule lower_char_id) (auto simp: is_alnum_def is_lower_def is_upper_def is_dec_def in_range_def cp_def)

lemma lower_handle: "handle_shape h \<Longrightarrow> lower h = h"
  by (simp add: handle_shape_def lower_def lower_alnum map_idI)

section \<open>What an accepted tenant hostname is\<close>

definition app_label_ok :: "string \<Rightarrow> bool" where
  "app_label_ok app \<longleftrightarrow>
     slug_like app \<and> length app \<le> 34 \<and> \<not> contains_str ''--'' app \<and> \<not> starts_with app preview_prefix"

text \<open>The hostname \<^verbatim>\<open><app>-<handle>.<tenant domain>\<close>.\<close>

definition tenant_name :: "string \<Rightarrow> string \<Rightarrow> string \<Rightarrow> string" where
  "tenant_name app h domain = app @ CHR ''-'' # h @ CHR ''.'' # domain"

lemma require_valid_split:
  "require_valid_hostname net st deps handle exclude value = Inr fqdn \<longleftrightarrow>
     complete_hostname st handle value = Inr fqdn \<and> check_format fqdn = Inr () \<and>
     check_available deps fqdn exclude = Inr () \<and>
     (if under fqdn (st_tenant_domain st) then check_tenant_label st handle fqdn = Inr ()
      else (\<forall>d \<in> set (st_platform_domains st). \<not> under fqdn d) \<and> check_dns_target net st fqdn = Inr ())"
  by (auto simp: require_valid_hostname_def result_simps check_available_def)

lemma check_format_first_label:
  assumes "check_format (l @ CHR ''.'' # d) = Inr ()" "CHR ''.'' \<notin> set l"
  shows "re_match_end label_re l" "l \<noteq> []"
proof -
  have "re_match_end label_re l \<and> l \<noteq> []"
  proof (cases "\<forall>c \<in> set d. is_dot c")
    case True
    have "CHR ''.'' \<notin> set (rstrip is_dot l)"
      using assms(2) by (auto simp: rstrip_def dest: set_dropWhileD)
    moreover have "rstrip is_dot (l @ CHR ''.'' # d) = rstrip is_dot l"
      unfolding rstrip_append using True by (auto simp: is_dot_def)
    ultimately have "split_on (CHR ''.'') (rstrip is_dot (l @ CHR ''.'' # d)) = [rstrip is_dot l]"
      by (simp add: split_on_whole)
    with assms(1) show ?thesis by (simp add: check_format_def Let_def split: if_splits)
  next
    case False
    have "rstrip is_dot ((l @ [CHR ''.'']) @ d) = (l @ [CHR ''.'']) @ rstrip is_dot d"
      unfolding rstrip_append by (rule if_not_P[OF False])
    with split_on_sep[OF assms(2), of "rstrip is_dot d"]
    have "split_on (CHR ''.'') (rstrip is_dot (l @ CHR ''.'' # d)) = l # split_on (CHR ''.'') (rstrip is_dot d)"
      by simp
    with assms(1) show ?thesis by (simp add: check_format_def Let_def split: if_splits)
  qed
  then show "re_match_end label_re l" "l \<noteq> []" by auto
qed

lemma label_match_tail:
  assumes "re_match_end label_re (a @ CHR ''-'' # b)" "newline \<notin> set b"
  shows "host_label (a @ CHR ''-'' # b)"
proof (cases b rule: rev_cases)
  case Nil
  with assms(1) label_match_last[of "a" "CHR ''-''"] show ?thesis by (simp add: newline_char)
next
  case (snoc b' c)
  with assms label_match_last[of "a @ CHR ''-'' # b'" c] show ?thesis by auto
qed

lemma tenant_hostname_sound:
  assumes ok: "require_valid_hostname net st deps handle exclude value = Inr fqdn"
    and u: "under fqdn (st_tenant_domain st)" and nl: "newline \<notin> set (handle_or_empty handle)"
  shows "\<exists>app. fqdn = tenant_name app (lower (handle_or_empty handle)) (st_tenant_domain st) \<and>
    app_label_ok app \<and> handle_shape (lower (handle_or_empty handle)) \<and> \<not> host_taken deps fqdn exclude"
proof -
  let ?td = "st_tenant_domain st" and ?label = "tenant_label fqdn (st_tenant_domain st)"
  let ?h = "lower (handle_or_empty handle)"
  define app where "app = before_last (CHR ''-'') ?label"
  from ok u have c: "check_format fqdn = Inr ()" "check_tenant_label st handle fqdn = Inr ()"
    "\<not> host_taken deps fqdn exclude"
    by (simp_all add: require_valid_split check_available_def result_simps)
  then have l: "?label \<noteq> []" "CHR ''.'' \<notin> set ?label" "CHR ''-'' \<in> set ?label"
    and o: "after_last (CHR ''-'') ?label = ?h" "re_match_end handle_re ?h"
    and a: "length app \<le> 34" "re_match_end app_label_re app" "\<not> contains_str ''--'' app"
      "\<not> starts_with app preview_prefix"
    by (auto simp: check_tenant_label_def app_def Let_def split: if_splits)
  from l(1) have "fqdn \<noteq> ?td" by (auto simp: tenant_label_def)
  with u have f: "fqdn = ?label @ CHR ''.'' # ?td" by (rule under_split)
  from last_part[OF l(3)] o(1) have lab: "?label = app @ CHR ''-'' # ?h" by (simp add: app_def)
  have nlh: "newline \<notin> set ?h"
    using nl by (auto simp: lower_def dest: lower_char_newline[OF sym])
  from check_format_first_label[OF _ l(2), of ?td] c(1) f have "re_match_end label_re ?label" by simp
  then have "host_label ?label" using label_match_tail nlh lab by metis
  then have "newline \<notin> set ?label" by (auto simp: bounded_by_def)
  with lab have "newline \<notin> set app" by simp
  with a(2) o(2) nlh have "slug_like app" "handle_shape ?h"
    by (auto simp: re_match_end_lang app_label_lang handle_lang)
  with a lab f c(3) show ?thesis by (intro exI[of _ app]) (simp add: tenant_name_def app_label_ok_def)
qed

text \<open>
  A name is beneath a domain when it is the domain or ends in a dot and the domain. A handle with a trailing
  line break, which no claim stores, would still not let one into the application label.
\<close>

definition beneath :: "string \<Rightarrow> string \<Rightarrow> bool" where
  "beneath h d \<longleftrightarrow> d \<noteq> [] \<and> (h = d \<or> (\<exists>l. h = l @ CHR ''.'' # d))"

lemma under_beneath: "under h d \<longleftrightarrow> beneath h d"
  using under_split[of h d] under_composed[of d] by (auto simp: beneath_def under_def)

lemma tenant_hostname_app:
  assumes ok: "require_valid_hostname net st deps handle exclude value = Inr fqdn" and u: "under fqdn (st_tenant_domain st)"
  shows "\<exists>app. fqdn = tenant_name app (lower (handle_or_empty handle)) (st_tenant_domain st) \<and> app_label_ok app"
proof -
  let ?td = "st_tenant_domain st" and ?label = "tenant_label fqdn (st_tenant_domain st)" and ?h = "lower (handle_or_empty handle)"
  define app where "app = before_last (CHR ''-'') ?label"
  from ok u have c: "check_format fqdn = Inr ()" "check_tenant_label st handle fqdn = Inr ()"
    by (simp_all add: require_valid_split)
  then have l: "?label \<noteq> []" "CHR ''.'' \<notin> set ?label" "CHR ''-'' \<in> set ?label" and o: "after_last (CHR ''-'') ?label = ?h"
    and a: "length app \<le> 34" "re_match_end app_label_re app" "\<not> contains_str ''--'' app" "\<not> starts_with app preview_prefix"
    by (auto simp: check_tenant_label_def app_def Let_def split: if_splits)
  from l(1) have "fqdn \<noteq> ?td" by (auto simp: tenant_label_def)
  with u have f: "fqdn = ?label @ CHR ''.'' # ?td" by (rule under_split)
  from last_part[OF l(3)] o have lab: "?label = app @ CHR ''-'' # ?h" by (simp add: app_def)
  from check_format_first_label[OF _ l(2), of ?td] c(1) f have "re_match_end label_re (app @ CHR ''-'' # ?h)" by (simp add: lab)
  then obtain t where t: "host_label t" "app @ CHR ''-'' # ?h = t \<or> app @ CHR ''-'' # ?h = t @ [newline]"
    unfolding re_match_end_lang label_lang by metis
  then have "set app \<subseteq> set t"
  proof (cases "app @ CHR ''-'' # ?h = t")
    case False
    then have "butlast (app @ CHR ''-'' # ?h) = t" using t(2) by (metis butlast_snoc)
    then show ?thesis by (auto simp: butlast_append)
  qed auto
  moreover have "newline \<notin> set t" using t(1) by (auto simp: bounded_by_def)
  ultimately have "slug_like app" using a(2) by (auto simp: re_match_end_lang app_label_lang)
  with a lab f show ?thesis by (intro exI[of _ app]) (simp add: tenant_name_def app_label_ok_def)
qed

text \<open>A configured tenant domain: a well-formed name of at most 190 characters.\<close>

definition domain_ok :: "string \<Rightarrow> bool" where
  "domain_ok d \<longleftrightarrow> d \<noteq> [] \<and> length d \<le> 190 \<and> \<not> is_dot (last d) \<and>
     (\<forall>l \<in> set (split_on (CHR ''.'') d). host_label l)"

lemma tenant_format:
  assumes "slug_like app" "length app \<le> 34" "handle_shape h" "domain_ok d"
  shows "check_format (tenant_name app h d) = Inr ()"
proof -
  let ?l = "app @ CHR ''-'' # h"
  have hs: "slug_like h" by (rule alnum_slug) (use assms(3) in \<open>auto simp: handle_shape_def\<close>)
  have sl: "slug_like ?l" by (rule slug_join[OF assms(1) hs])
  then have nodot: "CHR ''.'' \<notin> set ?l"
    using label_dot unfolding bounded_by_def by blast
  have hl: "host_label ?l"
    using sl assms(2,3) label_char_host alnum_host by (auto simp: bounded_by_def handle_shape_def)
  have d: "d \<noteq> []" "\<not> is_dot (last d)" using assms(4) by (auto simp: domain_ok_def)
  then have "dropWhile is_dot (rev d) = rev d" by (simp add: dropWhile_eq_self_iff hd_rev)
  with d have "\<not> (\<forall>c \<in> set d. is_dot c)" "rstrip is_dot d = d" by (auto simp: rstrip_def)
  then have "rstrip is_dot ((?l @ [CHR ''.'']) @ d) = (?l @ [CHR ''.'']) @ d"
    using rstrip_append[of is_dot "?l @ [CHR ''.'']" d] by presburger
  then have "split_on (CHR ''.'') (rstrip is_dot (tenant_name app h d)) = ?l # split_on (CHR ''.'') d"
    using split_on_sep[OF nodot, of d] by (simp add: tenant_name_def)
  moreover have "length (tenant_name app h d) \<le> 253"
    using assms by (simp add: tenant_name_def handle_shape_def domain_ok_def)
  moreover have "\<forall>l \<in> insert ?l (set (split_on (CHR ''.'') d)). l \<noteq> [] \<and> re_match_end label_re l"
    using hl assms(4) by (auto simp: domain_ok_def re_match_end_lang label_lang bounded_by_def)
  moreover have "1 \<le> length (split_on (CHR ''.'') d)"
    using split_on_nonempty[of "CHR ''.''" d] by (cases "split_on (CHR ''.'') d") auto
  ultimately show ?thesis
    by (auto simp: check_format_def Let_def tenant_name_def)
qed

lemma tenant_name_under: "d \<noteq> [] \<Longrightarrow> under (tenant_name app h d) d"
  using under_composed[of d "app @ CHR ''-'' # h"] by (simp add: tenant_name_def)

lemma tenant_label_ok:
  assumes "app_label_ok app" "handle_shape h" "st_tenant_domain st \<noteq> []"
  shows "check_tenant_label st (Some h) (tenant_name app h (st_tenant_domain st)) = Inr ()"
proof -
  have nd: "CHR ''.'' \<notin> set app" "CHR ''.'' \<notin> set h" "CHR ''-'' \<notin> set h"
    using assms(1,2) by (auto simp: app_label_ok_def bounded_by_def is_label_char_def handle_shape_def)
  have lab: "tenant_label (tenant_name app h (st_tenant_domain st)) (st_tenant_domain st) = app @ CHR ''-'' # h"
    using tenant_label_composed[of "app @ CHR ''-'' # h"] by (simp add: tenant_name_def)
  show ?thesis
    unfolding check_tenant_label_def lab Let_def last_parts[OF nd(3)]
    using assms nd by (auto simp: app_label_ok_def handle_or_empty_def lower_handle
        re_match_end_lang app_label_lang handle_lang)
qed

lemma tenant_name_inj:
  assumes "tenant_name a h d = tenant_name b g d" "CHR ''-'' \<notin> set h" "CHR ''-'' \<notin> set g"
  shows "a = b \<and> h = g"
proof -
  from assms(1) have "a @ CHR ''-'' # h = b @ CHR ''-'' # g" by (simp add: tenant_name_def)
  then show ?thesis using last_parts[OF assms(2), of a] last_parts[OF assms(3), of b] by simp
qed

lemma handle_no_newline: "handle_shape h \<Longrightarrow> newline \<notin> set h"
  and handle_no_hyphen: "handle_shape h \<Longrightarrow> CHR ''-'' \<notin> set h"
  by (auto simp: handle_shape_def)

text \<open>
  What a bare application label gets: under an account's handle, \<open>app\<close> is accepted exactly
  when its lowercase spelling is 1 to 34 lowercase letters, digits and single inner hyphens, does
  not start with the reserved \<^verbatim>\<open>preview-\<close>, and \<^verbatim>\<open><app>-<handle>.<tenant domain>\<close> is free; that is the
  name returned, and no DNS query decides it.
\<close>

theorem bare_label_accepted:
  assumes "domain_ok (st_tenant_domain st)" "handle_shape h" "CHR ''.'' \<notin> set (lower label)"
  shows "require_valid_hostname net st deps (Some h) exclude label = Inr fqdn \<longleftrightarrow>
    fqdn = tenant_name (lower label) h (st_tenant_domain st) \<and> app_label_ok (lower label) \<and>
    \<not> host_taken deps fqdn exclude"
proof -
  let ?td = "st_tenant_domain st"
  have td: "?td \<noteq> []" and h: "h \<noteq> []" using assms by (auto simp: domain_ok_def handle_shape_def)
  have c: "complete_hostname st (Some h) label = Inr (tenant_name (lower label) h ?td)"
    using assms(3) h by (simp add: complete_hostname_def tenant_name_def)
  have e: "lower (handle_or_empty (Some h)) = h" "newline \<notin> set (handle_or_empty (Some h))"
    using assms(2) by (simp_all add: handle_or_empty_def lower_handle handle_no_newline)
  show ?thesis
  proof
    assume r: "require_valid_hostname net st deps (Some h) exclude label = Inr fqdn"
    with c have f: "fqdn = tenant_name (lower label) h ?td" by (simp add: require_valid_split)
    from tenant_hostname_sound[OF r _ e(2)] e(1) f tenant_name_under[OF td] obtain app where
      "fqdn = tenant_name app h ?td" "app_label_ok app" "\<not> host_taken deps fqdn exclude" by auto
    with f tenant_name_inj[of app h ?td "lower label" h] handle_no_hyphen[OF assms(2)]
    show "fqdn = tenant_name (lower label) h ?td \<and> app_label_ok (lower label) \<and> \<not> host_taken deps fqdn exclude"
      by auto
  next
    assume "fqdn = tenant_name (lower label) h ?td \<and> app_label_ok (lower label) \<and> \<not> host_taken deps fqdn exclude"
    with assms c td show "require_valid_hostname net st deps (Some h) exclude label = Inr fqdn"
      using tenant_format[of "lower label" h ?td] tenant_label_ok[of "lower label" h st]
      by (auto simp: require_valid_split tenant_name_under check_available_def result_simps app_label_ok_def)
  qed
qed

text \<open>How a name reaches the platform: by its CNAME, or by addresses that are all the platform's.\<close>

definition reaches_platform :: "dns \<Rightarrow> settings \<Rightarrow> string \<Rightarrow> bool" where
  "reaches_platform net st fqdn \<longleftrightarrow>
     (case lookup_rr net fqdn ''CNAME'' (authoritative_resolver net fqdn) of
        Inr (c # _) \<Rightarrow> lower (rstrip is_dot c) = lower (cname_target st)
      | Inr [] \<Rightarrow>
          (case (addresses net fqdn (authoritative_resolver net fqdn),
                 addresses net (cname_target st) (authoritative_resolver net (cname_target st))) of
             (Inr own, Inr platform) \<Rightarrow> own \<noteq> {} \<and> own \<subseteq> platform
           | _ \<Rightarrow> False)
      | Inl _ \<Rightarrow> False)"

lemma check_dns_target_iff:
  "check_dns_target net st fqdn = Inr () \<longleftrightarrow> st_domain st = [] \<or> reaches_platform net st fqdn"
proof (cases "lookup_rr net fqdn ''CNAME'' (authoritative_resolver net fqdn)")
  case (Inr cs)
  then show ?thesis
    by (cases cs; cases "addresses net fqdn (authoritative_resolver net fqdn)";
        cases "addresses net (cname_target st) (authoritative_resolver net (cname_target st))")
      (simp_all add: check_dns_target_def reaches_platform_def result_simps Let_def)
qed (simp add: check_dns_target_def reaches_platform_def Let_def)

text \<open>
  Ownership: a hostname under the tenant domain is accepted for one handle only, and outside
  the tenant domain no name under any platform domain is accepted, nor one that does not reach the
  platform: its CNAME is the platform's name, or it has addresses, all among the platform's.
\<close>

theorem hostname_ownership:
  assumes ok: "require_valid_hostname net st deps handle exclude value = Inr fqdn"
    and ok': "require_valid_hostname net' st deps' handle' exclude' value' = Inr fqdn"
    and nl: "newline \<notin> set (handle_or_empty handle)" "newline \<notin> set (handle_or_empty handle')"
  shows "if under fqdn (st_tenant_domain st)
    then lower (handle_or_empty handle) = lower (handle_or_empty handle')
    else (\<forall>d \<in> set (st_platform_domains st). \<not> under fqdn d) \<and> \<not> host_taken deps fqdn exclude \<and>
      (st_domain st = [] \<or> reaches_platform net st fqdn)"
proof (cases "under fqdn (st_tenant_domain st)")
  case True
  obtain a b where n: "fqdn = tenant_name a (lower (handle_or_empty handle)) (st_tenant_domain st)"
    "fqdn = tenant_name b (lower (handle_or_empty handle')) (st_tenant_domain st)"
    and s: "handle_shape (lower (handle_or_empty handle))" "handle_shape (lower (handle_or_empty handle'))"
    using tenant_hostname_sound[OF ok True nl(1)] tenant_hostname_sound[OF ok' True nl(2)] by blast
  from n have "tenant_name a (lower (handle_or_empty handle)) (st_tenant_domain st) =
      tenant_name b (lower (handle_or_empty handle')) (st_tenant_domain st)" by simp
  from tenant_name_inj[OF this handle_no_hyphen[OF s(1)] handle_no_hyphen[OF s(2)]] True
  show ?thesis by simp
next
  case False
  with ok show ?thesis
    by (simp add: require_valid_split check_available_def result_simps check_dns_target_iff)
qed

section \<open>Instances\<close>

definition demo_settings :: settings where
  "demo_settings = \<lparr>st_domain = ''freepod.eu'', st_tenant_domain = ''freepod.app'',
     st_platform_domains = [''freepod.eu'', ''freepod.app''], st_tls_issuer = ''letsencrypt'',
     st_reserved_handles = [''admin''], st_tos_version = ''2026-01-01'',
     st_lease = 600000000, st_past_images = 2, st_prune_grace = 86400000000,
     st_s3_endpoint = ''https://s3.freepod.eu'', st_s3_region = ''garage'', st_ssh_platform_key = [],
     st_verify_url = [], st_oidc_issuer = [], st_oidc_client_keys = [], st_registry_host = [],
     st_registry_pull_key = [], st_parking_host = ''parking'', st_parking_port = 8000,
     st_pooler_host = ''pooler'', st_pooler_port = 6432, st_environment = ''dev'',
     st_netpol_name = ''caelus-baseline'', st_mailer_netpol_name = ''caelus-mailer'',
     st_ingress_namespace = ''traefik'', st_ingress_pod_label = ''traefik'', st_sshpiper_namespace = ''sshpiper'',
     st_sshpiper_pod_label = ''sshpiper'', st_sidecar_port = 2222, st_dns_ip = ''10.43.0.10'',
     st_pooler_namespace = ''db'', st_pooler_pod_label = ''pgbouncer'', st_egress_except = [''10.0.0.0/8''],
     st_mailer_namespace = ''mail'', st_mailer_pod_label = ''mailer'', st_mailer_port = 25,
     st_gate_image = ''gate:1'', st_gate_deadline = 30, st_bucket_max_objects = 100000, st_bucket_expiry_days = 1,
     st_purge_grace_days = 7, st_db_admin_user = ''admin'', st_log_tail_lines = 20\<rparr>"

text \<open>A DNS in which every name has one address, the same for all, and no CNAME.\<close>

definition demo_dns :: dns where
  "demo_dns = \<lparr>dns_zone_ns = (\<lambda>_. None),
     dns_system = (\<lambda>_ t. if t = ''A'' then Records [''10.0.0.1''] else NoRecords),
     dns_servers = (\<lambda>_ _ _. DnsFail)\<rparr>"

lemmas host_eval = is_letter_digit_def is_host_char_def is_label_char_def is_alnum_def is_lower_def
  is_upper_def is_dec_def in_range_def cp_def is_dot_def lower_def lower_char_def

lemma demo_domain_ok: "domain_ok (st_tenant_domain demo_settings)"
  by (simp add: domain_ok_def demo_settings_def bounded_by_def host_eval)

theorem bare_label_accepted_witness:
  "require_valid_hostname demo_dns demo_settings [] (Some ''ada42'') None ''Wiki'' =
     Inr ''wiki-ada42.freepod.app'' \<and>
   require_valid_hostname demo_dns demo_settings [] (Some ''ada42'') None ''preview-x'' \<noteq>
     Inr ''preview-x-ada42.freepod.app''"
proof -
  have h: "handle_shape ''ada42''" by (simp add: handle_shape_def host_eval)
  have l: "lower ''Wiki'' = ''wiki''" "lower ''preview-x'' = ''preview-x''" by code_simp+
  then have d: "CHR ''.'' \<notin> set (lower ''Wiki'')" "CHR ''.'' \<notin> set (lower ''preview-x'')" by simp_all
  note b = bare_label_accepted[OF demo_domain_ok h d(1)] bare_label_accepted[OF demo_domain_ok h d(2)]
  have "app_label_ok (lower ''Wiki'')" "\<not> app_label_ok (lower ''preview-x'')"
    unfolding l by (simp_all add: app_label_ok_def bounded_by_def host_eval contains_str_def starts_with_def
        preview_prefix_def upt_rec[of 0] upt_rec[of 1] upt_rec[of 2] upt_rec[of 3] upt_rec[of 4])
  then show ?thesis unfolding b l by (simp add: tenant_name_def demo_settings_def host_taken_def)
qed

lemma demo_custom: "require_valid_hostname demo_dns demo_settings [] h None ''shop.example.com'' = Inr ''shop.example.com''"
proof -
  have "require_valid_hostname demo_dns demo_settings [] h None ''shop.example.com'' =
      Inr ''shop.example.com'' \<longleftrightarrow> check_format ''shop.example.com'' = Inr ()"
    by (simp add: require_valid_split complete_hostname_def host_eval check_available_def host_taken_def
        under_def ends_with_def demo_settings_def check_dns_target_def lookup_rr_def addresses_def
        demo_dns_def authoritative_resolver_def guardR_def)
  also have "\<dots>"
    by (simp add: check_format_def re_match_end_lang label_lang bounded_by_def host_eval rstrip_def)
  finally show ?thesis by simp
qed

theorem hostname_ownership_witness:
  "\<not> under ''shop.example.com'' (st_tenant_domain demo_settings) \<and>
   \<not> under ''shop.example.com'' ''freepod.eu''"
proof -
  have u: "\<not> under ''shop.example.com'' (st_tenant_domain demo_settings)"
    by (simp add: under_def ends_with_def demo_settings_def)
  show ?thesis
    using hostname_ownership[OF demo_custom[of None] demo_custom[of None]] u by (simp add: handle_or_empty_def demo_settings_def)
qed

text \<open>
  The last label may end in a newline: \<^verbatim>\<open>_LABEL_RE.match\<close> with \<^verbatim>\<open>$\<close> accepts a name that
  RFC 1123 does not allow.
\<close>

lemma check_format_newline: "check_format (''shop.example.com'' @ [newline]) = Inr ()"
proof -
  have "rstrip is_dot (''shop.example.com'' @ [newline]) = ''shop.example.com'' @ [newline]"
    by (simp add: rstrip_def is_dot_def newline_char)
  moreover have "split_on (CHR ''.'') (''shop.example.com'' @ [newline]) = [''shop'', ''example'', ''com'' @ [newline]]"
    by (simp add: newline_char)
  moreover have "re_match_end label_re (''com'' @ [newline])"
    unfolding re_match_end_lang label_lang by (intro disjI2 exI[of _ "''com''"]) (simp add: bounded_by_def host_eval)
  moreover have "re_match_end label_re ''shop''" "re_match_end label_re ''example''"
    by (simp_all add: re_match_end_lang label_lang bounded_by_def host_eval)
  ultimately show ?thesis by (simp add: check_format_def)
qed

end
