(* ===== verification/Users.thy ===== *)
theory Users
  imports Hostnames
begin

text \<open>
  Accounts, \<^verbatim>\<open>api/app/services/users.py\<close>: creation, soft deletion, the acceptance of the terms of
  service, and handles, which own the tenant hostnames. The state is the \<^verbatim>\<open>user\<close> table; SSH keys,
  dropped on deletion, are not part of it.
\<close>

section \<open>Operations\<close>

definition user_live :: "user \<Rightarrow> bool" where
  "user_live u \<longleftrightarrow> u_deleted_at u = None"

definition uq_user_active :: "user list \<Rightarrow> bool" where
  "uq_user_active = one_open (\<lambda>u. lower (u_email u)) user_live"

definition holds_handle :: "user \<Rightarrow> bool" where
  "holds_handle u \<longleftrightarrow> u_deleted_at u = None \<and> u_handle u \<noteq> None"

definition uq_user_handle_active :: "user list \<Rightarrow> bool" where
  "uq_user_handle_active = one_open (\<lambda>u. lower (handle_or_empty (u_handle u))) holds_handle"

definition create_user :: "string \<Rightarrow> user list \<Rightarrow> (user \<times> user list) result" where
  "create_user email us =
     (let u = \<lparr>u_id = next_id u_id us, u_email = email, u_subject = None, u_customer = None,
               u_tos_version = None, u_tos_at = None, u_handle = None, u_deleted_at = None\<rparr>
      in if uq_user_active (us @ [u]) then Inr (u, us @ [u])
         else Inl (IntegrityErr (''Email already in use: '' @ email)))"

definition list_users :: "user list \<Rightarrow> user list" where
  "list_users us = filter user_live us"

definition get_live_user :: "user list \<Rightarrow> user_id \<Rightarrow> user result" where
  "get_live_user us i =
     (case row_get u_id i (filter user_live us) of
        None \<Rightarrow> Inl (NotFoundErr ''User not found'') | Some u \<Rightarrow> Inr u)"

definition record_tos_acceptance ::
  "settings \<Rightarrow> time \<Rightarrow> user_id \<Rightarrow> string \<Rightarrow> user list \<Rightarrow> user list result"
where
  "record_tos_acceptance st now i version us =
     (if version \<noteq> st_tos_version st
      then Inl (IntegrityErr ''Terms of Service have changed; please re-review and accept the current version'')
      else Inr (row_upd u_id i (\<lambda>u. u\<lparr>u_tos_version := Some version, u_tos_at := Some now\<rparr>) us))"

definition handle_suffix :: "settings \<Rightarrow> string option \<Rightarrow> string option" where
  "handle_suffix st handle =
     (case handle of
        None \<Rightarrow> None
      | Some h \<Rightarrow> if h = [] then None else Some (''-'' @ h @ ''.'' @ st_tenant_domain st))"

definition handle_taken :: error where
  "handle_taken = CodedIntegrityErr ''That handle is already held by another account'' ''handle_taken''"

definition check_handle :: "settings \<Rightarrow> string \<Rightarrow> user list \<Rightarrow> unit result" where
  "check_handle st candidate us =
     (if \<not> re_match_end handle_re candidate
      then Inl (CodedValidationErr ''A handle is 2-20 lowercase letters and digits only'' ''handle_invalid'')
      else if candidate \<in> set (st_reserved_handles st)
      then Inl (CodedValidationErr ''That handle is reserved by the platform'' ''handle_reserved'')
      else if \<exists>u \<in> set us. map_option lower (u_handle u) = Some candidate
      then Inl handle_taken
      else Inr ())"

text \<open>The handle read back, and the table; with \<open>dry_run\<close> nothing is written.\<close>

definition claim_handle ::
  "settings \<Rightarrow> user \<Rightarrow> string \<Rightarrow> bool \<Rightarrow> user list \<Rightarrow> (string \<times> user list) result"
where
  "claim_handle st u handle dry_run us =
     (let candidate = lower (strip is_space handle) in
      case u_handle u of
        Some held \<Rightarrow>
          if candidate = held then Inr (held, us)
          else Inl (CodedIntegrityErr ''This account already holds a handle, which cannot be changed or released''
                      ''handle_already_claimed'')
      | None \<Rightarrow>
          bindR (check_handle st candidate us) (\<lambda>_.
            if dry_run then Inr (candidate, us)
            else let us' = row_upd u_id (u_id u) (\<lambda>r. r\<lparr>u_handle := Some candidate\<rparr>) us
                 in if uq_user_handle_active us' then Inr (candidate, us') else Inl handle_taken))"

definition delete_user :: "time \<Rightarrow> user_id \<Rightarrow> user list \<Rightarrow> user list result" where
  "delete_user now i us =
     bindR (get_live_user us i) (\<lambda>_. Inr (row_upd u_id i (\<lambda>u. u\<lparr>u_deleted_at := Some now\<rparr>) us))"

datatype account_op =
    CreateUser string
  | AcceptTos user_id time string
  | ClaimHandle user_id string bool
  | DeleteUser user_id time

text \<open>A request carries the caller's account, which has been looked up among the live ones.\<close>

fun account_step :: "settings \<Rightarrow> account_op \<Rightarrow> user list \<Rightarrow> user list result" where
  "account_step st (CreateUser email) us = map_sum id snd (create_user email us)"
| "account_step st (AcceptTos i now v) us =
     bindR (get_live_user us i) (\<lambda>_. record_tos_acceptance st now i v us)"
| "account_step st (ClaimHandle i h dry) us =
     bindR (get_live_user us i) (\<lambda>u. map_sum id snd (claim_handle st u h dry us))"
| "account_step st (DeleteUser i now) us = delete_user now i us"

section \<open>The invariant\<close>

text \<open>
  Every stored handle has the shape \<^verbatim>\<open>HANDLE_RE\<close> asks for, and no two accounts, deleted ones
  included, hold the same.
\<close>

definition handles_of :: "user list \<Rightarrow> (user_id \<times> string) set" where
  "handles_of us = {(u_id u, h) |u h. u \<in> set us \<and> u_handle u = Some h}"

definition users_wf :: "user list \<Rightarrow> bool" where
  "users_wf us \<longleftrightarrow> keyed u_id us \<and> uq_user_active us \<and>
     (\<forall>(i, h) \<in> handles_of us. handle_shape h \<and> (\<forall>(j, g) \<in> handles_of us. h = g \<longrightarrow> i = j))"

lemma get_live_user_Inr: "get_live_user us i = Inr u \<Longrightarrow> u \<in> set us \<and> u_id u = i \<and> user_live u"
  by (auto simp: get_live_user_def split: option.splits dest: row_get_SomeD)

lemma strip_no_newline: "newline \<notin> {hd (strip is_space s), last (strip is_space s)} \<or> strip is_space s = []"
proof (cases "strip is_space s = []")
  case False
  have "is_space newline" by (simp add: is_space_def newline_def cp_def)
  with strip_ends[OF False] show ?thesis by auto
qed simp

lemma claimed_shape:
  assumes "re_match_end handle_re (lower (strip is_space s))"
  shows "handle_shape (lower (strip is_space s))"
proof -
  let ?t = "strip is_space s"
  have "\<not> (\<exists>t. lower ?t = t @ [newline])"
  proof
    assume "\<exists>t. lower ?t = t @ [newline]"
    then have ne: "?t \<noteq> []" and "last (lower ?t) = newline" by (auto simp: lower_def)
    then have "lower_char (last ?t) = newline" by (simp add: lower_def last_map)
    then have "last ?t = newline" by (rule lower_char_newline)
    with ne strip_no_newline[of s] show False by simp
  qed
  with assms show ?thesis unfolding re_match_end_lang handle_lang by blast
qed

lemma in_handles: "(i, h) \<in> handles_of us \<longleftrightarrow> (\<exists>u \<in> set us. u_id u = i \<and> u_handle u = Some h)"
  by (auto simp: handles_of_def)

lemma handles_of_upd:
  assumes "\<And>r. u_id (f r) = u_id r" "\<And>r. u_handle (f r) = u_handle r"
  shows "handles_of (row_upd u_id i f us) = handles_of us"
proof -
  let ?g = "\<lambda>r. if u_id r = i then f r else r"
  have g: "u_id (?g r) = u_id r" "u_handle (?g r) = u_handle r" for r using assms by simp_all
  have "(\<exists>u \<in> set (row_upd u_id i f us). u_id u = j \<and> u_handle u = Some h) \<longleftrightarrow>
      (\<exists>u \<in> set us. u_id (?g u) = j \<and> u_handle (?g u) = Some h)" for j h
    unfolding row_upd_def set_map by blast
  then show ?thesis unfolding g by (auto simp: in_handles)
qed

lemma claim_handle_new:
  assumes wf: "users_wf us" and u: "u \<in> set us" "u_handle u = None"
    and c: "claim_handle st u h False us = Inr (c, us')"
  shows "handle_shape c" "c \<notin> snd ` handles_of us" "handles_of us' = insert (u_id u, c) (handles_of us)"
    "keyed u_id us'" "uq_user_active us'"
proof -
  obtain k where k: "k = lower (strip is_space h)" by blast
  from c u(2) have "check_handle st k us = Inr () \<and> k = c \<and> row_upd u_id (u_id u) (\<lambda>r. r\<lparr>u_handle := Some k\<rparr>) us = us'"
    unfolding claim_handle_def k[symmetric] by (clarsimp simp: result_simps Let_def split: if_splits)
  with k have c': "c = lower (strip is_space h)" "check_handle st c us = Inr ()"
    "us' = row_upd u_id (u_id u) (\<lambda>r. r\<lparr>u_handle := Some c\<rparr>) us"
    by metis+
  from c' have m: "re_match_end handle_re c" and free: "\<forall>u \<in> set us. map_option lower (u_handle u) \<noteq> Some c"
    by (simp_all add: check_handle_def split: if_splits)
  from claimed_shape[of h] m c'(1) show s: "handle_shape c" by simp
  show "c \<notin> snd ` handles_of us"
  proof
    assume "c \<in> snd ` handles_of us"
    then obtain w where "w \<in> set us" "u_handle w = Some c" by (auto simp: handles_of_def)
    with free s show False by (auto simp: lower_handle)
  qed
  have k: "keyed u_id us" using wf by (simp add: users_wf_def)
  have only: "r = u" if "r \<in> set us" "u_id r = u_id u" for r
    using keyed_unique[OF k that(1) u(1) that(2)] .
  have "set us' = {r \<in> set us. u_id r \<noteq> u_id u} \<union> {u\<lparr>u_handle := Some c\<rparr>}"
    using only u(1) by (auto simp: c'(3) set_row_upd)
  then have "(j, g) \<in> handles_of us' \<longleftrightarrow>
      (\<exists>r \<in> set us. u_id r \<noteq> u_id u \<and> u_id r = j \<and> u_handle r = Some g) \<or> (j = u_id u \<and> g = c)" for j g
    unfolding in_handles by auto
  then have "(j, g) \<in> handles_of us' \<longleftrightarrow> (j, g) = (u_id u, c) \<or> (j, g) \<in> handles_of us" for j g
    using only u(2) unfolding in_handles by (metis option.distinct(1) prod.inject)
  then show "handles_of us' = insert (u_id u, c) (handles_of us)" by auto
  show "keyed u_id us'" using k by (simp add: c'(3) map_key_row_upd)
  have "uq_user_active us" using wf by (simp add: users_wf_def)
  then show "uq_user_active us'"
    unfolding c'(3) uq_user_active_def by (rule one_open_row_upd) (auto simp: user_live_def)
qed

lemma claim_handle_old:
  "claim_handle st u h dry us = Inr (c, us') \<Longrightarrow> u_handle u \<noteq> None \<or> dry \<Longrightarrow> us' = us"
  by (cases "u_handle u") (auto simp: claim_handle_def Let_def result_simps split: if_splits)

lemma users_wf_upd:
  assumes "users_wf us" "\<And>r. u_id (f r) = u_id r" "\<And>r. u_handle (f r) = u_handle r"
    "\<And>r. u_email (f r) = u_email r" "\<And>r. user_live (f r) \<Longrightarrow> user_live r"
  shows "users_wf (row_upd u_id i f us)"
  using assms unfolding users_wf_def uq_user_active_def
  by (simp add: handles_of_upd map_key_row_upd one_open_row_upd)

lemma users_wf_create:
  assumes "users_wf us" "create_user e us = Inr (u, us')"
  shows "users_wf us'" "handles_of us' = handles_of us"
proof -
  from assms(2) have u: "us' = us @ [u]" "u_id u = next_id u_id us" "u_handle u = None" "uq_user_active us'"
    by (auto simp: create_user_def Let_def split: if_splits)
  then show h: "handles_of us' = handles_of us" by (auto simp: handles_of_def)
  have "u_id u \<notin> u_id ` set us" using u(2) by (simp add: next_id_new)
  with assms(1) u show "users_wf us'"
    unfolding users_wf_def h by (simp add: u(1))
qed

lemma account_step_wf:
  assumes wf: "users_wf us" and s: "account_step st x us = Inr us'"
  shows "users_wf us'" "handles_of us \<subseteq> handles_of us'"
proof -
  have "users_wf us' \<and> handles_of us \<subseteq> handles_of us'"
  proof (cases x)
    case (CreateUser e)
    with s obtain u where "create_user e us = Inr (u, us')" by (cases "create_user e us") auto
    with users_wf_create[OF wf this] show ?thesis by simp
  next
    case (AcceptTos i now v)
    with s have "us' = row_upd u_id i (\<lambda>u. u\<lparr>u_tos_version := Some v, u_tos_at := Some now\<rparr>) us"
      by (simp add: result_simps record_tos_acceptance_def split: if_splits)
    with wf show ?thesis by (auto intro!: users_wf_upd simp: handles_of_upd user_live_def)
  next
    case (DeleteUser i now)
    with s have "us' = row_upd u_id i (\<lambda>u. u\<lparr>u_deleted_at := Some now\<rparr>) us"
      by (auto simp: result_simps delete_user_def)
    with wf show ?thesis by (auto intro!: users_wf_upd simp: handles_of_upd user_live_def)
  next
    case (ClaimHandle i h dry)
    with s obtain u where u: "get_live_user us i = Inr u" and m: "map_sum id snd (claim_handle st u h dry us) = Inr us'"
      by (auto simp: result_simps)
    then obtain c where c: "claim_handle st u h dry us = Inr (c, us')"
      by (cases "claim_handle st u h dry us") auto
    show ?thesis
    proof (cases "u_handle u = None \<and> \<not> dry")
      case True
      have iu: "u \<in> set us" using get_live_user_Inr[OF u] by simp
      from True c have "claim_handle st u h False us = Inr (c, us')" by simp
      note n = claim_handle_new[OF wf iu _ this]
      from True wf n show ?thesis
        by (auto simp: users_wf_def image_iff)
    next
      case False
      with c have "us' = us" using claim_handle_old by blast
      with wf show ?thesis by simp
    qed
  qed
  then show "users_wf us'" "handles_of us \<subseteq> handles_of us'" by auto
qed

interpretation accounts: guarded "account_step st" users_wf
  by unfold_locales (rule account_step_wf(1))

lemma history_handles:
  "users_wf us \<Longrightarrow> handles_of us \<subseteq> handles_of (history (account_step st) xs us)"
proof (induction xs arbitrary: us)
  case (Cons x xs)
  have "handles_of us \<subseteq> handles_of (attempt (account_step st) x us)"
    using account_step_wf(2)[OF Cons.prems] by (auto simp: attempt_def split: sum.splits)
  moreover have "users_wf (attempt (account_step st) x us)" by (rule accounts.attempt_inv[OF Cons.prems])
  ultimately show ?case using Cons.IH by fastforce
qed simp

text \<open>
  A handle is permanent and exclusive: an account that holds one holds it after any sequence of
  requests, its own deletion included, and no other account ever comes to hold it; every handle is 2
  to 20 lowercase letters and digits.
\<close>

theorem handle_permanent:
  assumes "users_wf us" "u \<in> set us" "u_handle u = Some h"
  shows "handle_shape h \<and>
    (\<exists>v \<in> set (history (account_step st) xs us). u_id v = u_id u \<and> u_handle v = Some h) \<and>
    (\<forall>v \<in> set (history (account_step st) xs us). u_handle v = Some h \<longrightarrow> u_id v = u_id u)"
proof -
  let ?us' = "history (account_step st) xs us"
  have "(u_id u, h) \<in> handles_of us" using assms(2,3) by (auto simp: in_handles)
  then have i: "(u_id u, h) \<in> handles_of ?us'" using history_handles[OF assms(1)] by blast
  have "users_wf ?us'" by (rule accounts.history_inv[OF assms(1)])
  with i have "handle_shape h" "\<forall>(j, g) \<in> handles_of ?us'. h = g \<longrightarrow> u_id u = j"
    unfolding users_wf_def by blast+
  with i show ?thesis by (auto simp: in_handles)
qed

definition demo_user :: user where
  "demo_user = \<lparr>u_id = 1, u_email = ''ada@example.com'', u_subject = None, u_customer = None,
     u_tos_version = Some ''2026-01-01'', u_tos_at = None, u_handle = Some ''ada42'', u_deleted_at = None\<rparr>"

theorem handle_permanent_witness:
  "\<exists>v \<in> set (history (account_step demo_settings) [DeleteUser 1 5, CreateUser ''b@x'', ClaimHandle 2 ''ada42'' False] [demo_user]).
     u_id v = 1 \<and> u_handle v = Some ''ada42''"
proof -
  have h: "handle_shape ''ada42''" by (simp add: handle_shape_def host_eval)
  have "handles_of [demo_user] = {(1, ''ada42'')}" by (auto simp: handles_of_def demo_user_def)
  then have "users_wf [demo_user]" using h by (simp add: users_wf_def uq_user_active_def one_open_def)
  then have "handle_shape ''ada42'' \<and> (\<exists>v \<in> set (history (account_step demo_settings)
       [DeleteUser 1 5, CreateUser ''b@x'', ClaimHandle 2 ''ada42'' False] [demo_user]).
      u_id v = u_id demo_user \<and> u_handle v = Some ''ada42'') \<and>
    (\<forall>v \<in> set (history (account_step demo_settings)
       [DeleteUser 1 5, CreateUser ''b@x'', ClaimHandle 2 ''ada42'' False] [demo_user]).
      u_handle v = Some ''ada42'' \<longrightarrow> u_id v = u_id demo_user)"
    by (rule handle_permanent) (simp_all add: demo_user_def)
  moreover have "u_id demo_user = 1" by (simp add: demo_user_def)
  ultimately show ?thesis by metis
qed

end
