(* ===== verification/Vars.thy ===== *)
theory Vars
  imports VarCrypto Users
begin

text \<open>
  Deployment vars, \<^verbatim>\<open>api/app/services/vars.py\<close>: the append-only history and its head, merge and replace
  writes, release snapshots, \<^verbatim>\<open>pending\<close> and the reads. The row lock the code takes on the
  deployment makes each operation atomic here.
\<close>

section \<open>Head\<close>

text \<open>The ids \<^verbatim>\<open>max(id) ... GROUP BY key\<close> of one deployment's rows.\<close>

definition newest_ids :: "var_row list \<Rightarrow> uuid \<Rightarrow> nat list" where
  "newest_ids rows d =
     [s_id r. r \<leftarrow> rows, v_dep r = d \<and> (\<forall>q \<in> set rows. v_dep q = d \<and> v_key q = v_key r \<longrightarrow> s_id q \<le> s_id r)]"

definition head :: "var_row list \<Rightarrow> uuid \<Rightarrow> var_row list" where
  "head rows d =
     sort_key v_key (filter (\<lambda>r. s_id r \<in> set (newest_ids rows d) \<and> s_cipher r \<noteq> None) rows)"

abbreviation var_at :: "var_row list \<Rightarrow> string \<Rightarrow> var_row option" where
  "var_at rows k \<equiv> row_get v_key k rows"

text \<open>The keyring and the seeds a process encrypts with.\<close>

record crypto =
  cr_fernet :: fernet
  cr_ring :: keyring
  cr_nonce :: "nat \<Rightarrow> nat"

definition plaintext :: "crypto \<Rightarrow> var_row \<Rightarrow> string result" where
  "plaintext cr r =
     (case (s_cipher r, s_key_id r) of
        (Some c, Some k) \<Rightarrow> decrypt (cr_fernet cr) (cr_ring cr) c k
      | _ \<Rightarrow> Inl (PyValueError ''AssertionError''))"

section \<open>Writes\<close>

text \<open>
  One entry of a write. The value is three-valued: absent (\<open>None\<close>) leaves it unchanged, null
  (\<open>Some None\<close>) deletes the var, a string sets it.
\<close>

record var_write =
  vw_value :: "string option option"
  vw_sensitive :: "bool option"

definition bool_word :: "bool \<Rightarrow> string" where
  "bool_word b = (if b then ''true'' else ''false'')"

definition resolve_sensitive ::
  "string \<Rightarrow> var_write \<Rightarrow> pydict \<Rightarrow> var_row option \<Rightarrow> bool result"
where
  "resolve_sensitive key entry declared existing =
     (case map_of declared key of
        Some (JObj prop) \<Rightarrow>
          let schema_sensitive = truthy (get_default prop sensitive_key (JBool False))
          in if vw_sensitive entry \<notin> {None, Some schema_sensitive}
             then Inl (ValidationErr (key @ '': this product template declares sensitive='' @
                         bool_word schema_sensitive @ '' for this var''))
             else Inr schema_sensitive
      | _ \<Rightarrow> Inr (case vw_sensitive entry of
                      Some b \<Rightarrow> b
                    | None \<Rightarrow> (case existing of Some r \<Rightarrow> v_sensitive r | None \<Rightarrow> False)))"

type_synonym var_set = "(string \<times> string \<times> bool) list"

definition max_var_value_bytes :: nat where "max_var_value_bytes = 8 * 1024"
definition max_vars_total_bytes :: nat where "max_vars_total_bytes = 128 * 1024"
definition max_vars_per_deployment :: nat where "max_vars_per_deployment = 256"

definition limit_step :: "string \<times> string \<times> bool \<Rightarrow> nat \<Rightarrow> nat result" where
  "limit_step = (\<lambda>(key, plain, _) total.
     let size = utf8_len plain
     in if size > max_var_value_bytes then Inl (ValidationErr (key @ '': value exceeds the 8192 byte limit''))
        else Inr (total + size))"

definition check_limits :: "var_set \<Rightarrow> unit result" where
  "check_limits desired =
     (if length desired > max_vars_per_deployment
      then Inl (ValidationErr (''a deployment may hold at most 256 vars; this write would leave '' @ nat_str (length desired)))
      else bindR (foldR limit_step desired 0) (\<lambda>total.
           if total > max_vars_total_bytes
           then Inl (ValidationErr (''a deployment's vars may total at most 131072 bytes; this write would leave '' @ nat_str total))
           else Inr ()))"

text \<open>The first loop of \<^verbatim>\<open>write_vars\<close>: what the entries set and what they delete.\<close>

definition entry_step ::
  "crypto \<Rightarrow> var_row list \<Rightarrow> pydict \<Rightarrow> string \<times> var_write \<Rightarrow> var_set \<times> string list \<Rightarrow> (var_set \<times> string list) result"
where
  "entry_step cr current declared =
     (\<lambda>(key, entry) (desired, deletions).
        bindR (check_var_name key) (\<lambda>_.
          let existing = var_at current key in
          if vw_value entry = Some None then Inr (desired, deletions @ [key])
          else bindR (case vw_value entry of
                        Some (Some v) \<Rightarrow> Inr v
                      | _ \<Rightarrow> (case existing of
                                None \<Rightarrow> Inl (ValidationErr (key @ '': no value supplied and this var does not exist''))
                              | Some r \<Rightarrow> plaintext cr r)) (\<lambda>plain.
               bindR (resolve_sensitive key entry declared existing) (\<lambda>sens.
                 if vw_value entry = None \<and> \<not> sens \<and> (\<exists>r. existing = Some r \<and> v_sensitive r)
                 then Inl (ValidationErr (key @ '': making a sensitive var readable requires a new value''))
                 else Inr (desired @ [(key, plain, sens)], deletions)))))"

text \<open>The second loop: what the entries do not name stays, or goes when the write replaces.\<close>

definition keep_step ::
  "crypto \<Rightarrow> bool \<Rightarrow> var_row \<Rightarrow> var_set \<times> string list \<Rightarrow> (var_set \<times> string list) result"
where
  "keep_step cr replace r =
     (\<lambda>(desired, deletions).
        if v_key r \<in> fst ` set desired \<or> v_key r \<in> set deletions then Inr (desired, deletions)
        else if replace then Inr (desired, deletions @ [v_key r])
        else bindR (plaintext cr r) (\<lambda>p. Inr (desired @ [(v_key r, p, v_sensitive r)], deletions)))"

definition add_var ::
  "time \<Rightarrow> uuid \<Rightarrow> user_id \<Rightarrow> string \<Rightarrow> (string \<times> string) option \<Rightarrow> bool \<Rightarrow> var_row list \<Rightarrow> var_row list"
where
  "add_var now d actor key sealed_value sens rows =
     rows @ [\<lparr>s_id = next_id s_id rows, s_cipher = map_option fst sealed_value,
              s_key_id = map_option snd sealed_value, v_dep = d, v_key = key, v_sensitive = sens,
              v_created_by = actor, v_created_at = now\<rparr>]"

text \<open>The third loop inserts a row per var that differs from head, the fourth a tombstone per deletion.\<close>

definition set_step ::
  "crypto \<Rightarrow> time \<Rightarrow> uuid \<Rightarrow> user_id \<Rightarrow> var_row list \<Rightarrow> string \<times> string \<times> bool \<Rightarrow> var_row list \<Rightarrow> var_row list result"
where
  "set_step cr now d actor current =
     (\<lambda>(key, plain, sens) rows.
        let existing = var_at current key in
        bindR (case existing of
                 Some r \<Rightarrow> if v_sensitive r = sens
                           then bindR (plaintext cr r) (\<lambda>p. Inr (p = plain)) else Inr False
               | None \<Rightarrow> Inr False) (\<lambda>same.
          if same then Inr rows
          else bindR (encrypt (cr_fernet cr) (cr_ring cr) (cr_nonce cr (next_id s_id rows)) plain) (\<lambda>cipher.
                 Inr (add_var now d actor key (Some cipher) sens rows))))"

definition delete_step :: "time \<Rightarrow> uuid \<Rightarrow> user_id \<Rightarrow> var_row list \<Rightarrow> string \<Rightarrow> var_row list \<Rightarrow> var_row list" where
  "delete_step now d actor current key rows =
     (if var_at current key = None then rows else add_var now d actor key None False rows)"

definition desired_vars ::
  "crypto \<Rightarrow> var_row list \<Rightarrow> pydict \<Rightarrow> (string \<times> var_write) list \<Rightarrow> bool \<Rightarrow> (var_set \<times> string list) result"
where
  "desired_vars cr current declared entries replace =
     bindR (foldR (entry_step cr current declared) entries ([], [])) (foldR (keep_step cr replace) current)"

definition write_vars ::
  "validator \<Rightarrow> crypto \<Rightarrow> time \<Rightarrow> deployment \<Rightarrow> user_id \<Rightarrow> (string \<times> var_write) list \<Rightarrow> bool \<Rightarrow>
     (string \<Rightarrow> error) \<Rightarrow> db \<Rightarrow> db result"
where
  "write_vars jsv cr now dep actor entries replace document_err s =
     (let current = head (db_vars s) (d_id dep) in
      case get_template s (d_desired_template dep) of
        None \<Rightarrow> Inl (NotFoundErr ''Template not found'')
      | Some t \<Rightarrow>
          let schema = t_schema t; projection = pr_vars (derive_projections schema) in
          if entries \<noteq> [] \<and> projection = None
          then Inl (ValidationErr ''vars are not supported on this product template'')
          else bindR (desired_vars cr current (declared_vars projection) entries replace) (\<lambda>(desired, deletions).
            let plaintexts = map (\<lambda>(k, p, _). (k, p)) desired in
            bindR (validate_vars jsv plaintexts projection) (\<lambda>_.
            bindR (validate_document jsv (d_values dep) plaintexts schema document_err) (\<lambda>_.
            bindR (check_limits desired) (\<lambda>_.
            bindR (foldR (set_step cr now (d_id dep) actor current) (sort_key fst desired) (db_vars s)) (\<lambda>rows.
              Inr (s\<lparr>db_vars := fold (delete_step now (d_id dep) actor current) (sort deletions) rows\<rparr>)))))))"

definition require_phase :: "string \<Rightarrow> unit result" where
  "require_phase phase = guardR (phase = ''runtime'') (NotFoundErr ''Unknown phase'')"

definition assert_writable :: "deployment \<Rightarrow> unit result" where
  "assert_writable dep =
     guardR (d_status dep \<noteq> DDeleting) (InProgressErr ''Deployment is being deleted; its vars cannot be written'')"

definition delete_var ::
  "validator \<Rightarrow> crypto \<Rightarrow> time \<Rightarrow> deployment \<Rightarrow> user_id \<Rightarrow> string \<Rightarrow> db \<Rightarrow> db result"
where
  "delete_var jsv cr now dep actor key s =
     write_vars jsv cr now dep actor [(key, \<lparr>vw_value = Some None, vw_sensitive = None\<rparr>)] False ValidationErr s"

section \<open>Snapshots and pending\<close>

definition snapshot_release :: "uuid \<Rightarrow> uuid \<Rightarrow> db \<Rightarrow> db" where
  "snapshot_release rel dep s =
     s\<lparr>db_relvars := db_relvars s @ map (\<lambda>r. \<lparr>rv_release = rel, rv_var = s_id r\<rparr>) (head (db_vars s) dep)\<rparr>"

definition bound_ids :: "db \<Rightarrow> uuid \<Rightarrow> nat list" where
  "bound_ids s rel = [rv_var b. b \<leftarrow> db_relvars s, rv_release b = rel]"

definition snapshot :: "db \<Rightarrow> uuid \<Rightarrow> var_row list" where
  "snapshot s rel = sort_key v_key (filter (\<lambda>r. s_id r \<in> set (bound_ids s rel)) (db_vars s))"

definition pending :: "db \<Rightarrow> deployment \<Rightarrow> bool" where
  "pending s dep =
     (let head_ids = s_id ` set (head (db_vars s) (d_id dep)) in
      case d_applied_release dep of
        None \<Rightarrow> head_ids \<noteq> {}
      | Some rel \<Rightarrow> head_ids \<noteq> set (bound_ids s rel))"

section \<open>Reads\<close>

record var_writer =
  vwr_id :: user_id
  vwr_email :: "string option"

text \<open>\<open>vrd_value\<close> is the serialised field: \<open>None\<close> when the serializer drops it.\<close>

record var_read =
  vrd_value :: "string option"
  vrd_sensitive :: bool
  vrd_updated_at :: time
  vrd_updated_by :: var_writer

record vars_read =
  vrs_vars :: "(string \<times> var_read) list"
  vrs_pending :: bool

definition writer_of :: "user list \<Rightarrow> user_id \<Rightarrow> var_writer" where
  "writer_of us i = \<lparr>vwr_id = i, vwr_email = map_option u_email (row_get u_id i us)\<rparr>"

definition read_entry :: "crypto \<Rightarrow> user list \<Rightarrow> var_row \<Rightarrow> var_read result" where
  "read_entry cr us r =
     bindR (if v_sensitive r then Inr None else map_sum id Some (plaintext cr r)) (\<lambda>v.
       Inr \<lparr>vrd_value = v, vrd_sensitive = v_sensitive r, vrd_updated_at = v_created_at r,
            vrd_updated_by = writer_of us (v_created_by r)\<rparr>)"

definition read_rows :: "crypto \<Rightarrow> user list \<Rightarrow> var_row list \<Rightarrow> (string \<times> var_read) list result" where
  "read_rows cr us rows = mapR (\<lambda>r. bindR (read_entry cr us r) (\<lambda>v. Inr (v_key r, v))) rows"

definition read_vars :: "crypto \<Rightarrow> db \<Rightarrow> deployment \<Rightarrow> vars_read result" where
  "read_vars cr s dep =
     bindR (read_rows cr (db_users s) (head (db_vars s) (d_id dep))) (\<lambda>vs.
       Inr \<lparr>vrs_vars = vs, vrs_pending = pending s dep\<rparr>)"

definition read_snapshot :: "crypto \<Rightarrow> db \<Rightarrow> uuid \<Rightarrow> (string \<times> var_read) list result" where
  "read_snapshot cr s rel = read_rows cr (db_users s) (snapshot s rel)"

definition read_var :: "crypto \<Rightarrow> db \<Rightarrow> deployment \<Rightarrow> string \<Rightarrow> vars_read result" where
  "read_var cr s dep key =
     (case var_at (head (db_vars s) (d_id dep)) key of
        None \<Rightarrow> Inl (NotFoundErr ''Var not found'')
      | Some r \<Rightarrow> bindR (read_entry cr (db_users s) r) (\<lambda>v.
          Inr \<lparr>vrs_vars = [(key, v)], vrs_pending = pending s dep\<rparr>))"

section \<open>Head resolution\<close>

text \<open>A row is the newest of its key, and the configuration a key has: plaintext and sensitivity.\<close>

definition newest :: "var_row list \<Rightarrow> var_row \<Rightarrow> bool" where
  "newest rows r \<longleftrightarrow> (\<forall>q \<in> set rows. v_dep q = v_dep r \<and> v_key q = v_key r \<longrightarrow> s_id q \<le> s_id r)"

definition config :: "crypto \<Rightarrow> var_row list \<Rightarrow> uuid \<Rightarrow> string \<Rightarrow> (string \<times> bool) option" where
  "config cr rows d k =
     (case var_at (head rows d) k of
        None \<Rightarrow> None
      | Some r \<Rightarrow> (case plaintext cr r of Inl _ \<Rightarrow> None | Inr p \<Rightarrow> Some (p, v_sensitive r)))"

lemma newest_ids_set:
  "i \<in> set (newest_ids rows d) \<longleftrightarrow> (\<exists>r \<in> set rows. s_id r = i \<and> v_dep r = d \<and> newest rows r)"
  by (force simp: newest_ids_def newest_def)

lemma head_iff:
  assumes "keyed s_id rows"
  shows "r \<in> set (head rows d) \<longleftrightarrow> r \<in> set rows \<and> v_dep r = d \<and> newest rows r \<and> s_cipher r \<noteq> None"
  using keyed_unique[OF assms] by (auto simp: head_def newest_ids_set)

lemma head_unique:
  assumes "keyed s_id rows" "r \<in> set (head rows d)" "q \<in> set (head rows d)" "v_key r = v_key q"
  shows "r = q"
proof -
  have "s_id r \<le> s_id q" "s_id q \<le> s_id r" using assms by (auto simp: head_iff newest_def)
  then have "s_id r = s_id q" by simp
  with assms show ?thesis using keyed_unique[OF assms(1), of r q] by (auto simp: head_iff)
qed

lemma var_at_head:
  assumes "keyed s_id rows"
  shows "var_at (head rows d) k = Some r \<longleftrightarrow>
    r \<in> set rows \<and> v_dep r = d \<and> v_key r = k \<and> newest rows r \<and> s_cipher r \<noteq> None"
proof
  assume "var_at (head rows d) k = Some r"
  then show "r \<in> set rows \<and> v_dep r = d \<and> v_key r = k \<and> newest rows r \<and> s_cipher r \<noteq> None"
    using head_iff[OF assms] row_get_SomeD by fastforce
next
  assume r: "r \<in> set rows \<and> v_dep r = d \<and> v_key r = k \<and> newest rows r \<and> s_cipher r \<noteq> None"
  then have h: "r \<in> set (head rows d)" by (simp add: head_iff[OF assms])
  with r obtain q where q: "var_at (head rows d) k = Some q"
    by (metis image_eqI not_None_eq row_get_None_iff)
  then have "q = r" using head_unique[OF assms row_get_in[OF q] h] row_get_key[OF q] r by simp
  with q show "var_at (head rows d) k = Some r" by simp
qed

lemma var_at_head_None:
  assumes "keyed s_id rows"
  shows "var_at (head rows d) k = None \<longleftrightarrow>
    (\<forall>r \<in> set rows. v_dep r = d \<and> v_key r = k \<and> newest rows r \<longrightarrow> s_cipher r = None)"
  using var_at_head[OF assms, where d = d and k = k] by (metis not_None_eq)

definition new_var :: "time \<Rightarrow> uuid \<Rightarrow> user_id \<Rightarrow> string \<Rightarrow> (string \<times> string) option \<Rightarrow> bool \<Rightarrow> var_row list \<Rightarrow> var_row" where
  "new_var now d actor key sv sens rows =
     \<lparr>s_id = next_id s_id rows, s_cipher = map_option fst sv, s_key_id = map_option snd sv, v_dep = d,
      v_key = key, v_sensitive = sens, v_created_by = actor, v_created_at = now\<rparr>"

lemma add_var_eq: "add_var now d actor key sv sens rows = rows @ [new_var now d actor key sv sens rows]"
  by (simp add: add_var_def new_var_def)

lemma add_var_keyed: "keyed s_id rows \<Longrightarrow> keyed s_id (add_var now d actor key sv sens rows)"
  using next_id_new[of s_id rows] by (simp add: add_var_eq new_var_def)

lemma newest_add:
  assumes "r \<in> set (add_var now d actor key sv sens rows)"
  shows "newest (add_var now d actor key sv sens rows) r \<longleftrightarrow>
    r = new_var now d actor key sv sens rows \<or> (newest rows r \<and> \<not> (v_dep r = d \<and> v_key r = key))"
proof -
  let ?n = "new_var now d actor key sv sens rows"
  have less: "s_id q < s_id ?n" if "q \<in> set rows" for q
    using next_id_fresh[of q rows s_id] that by (simp add: new_var_def)
  have n: "v_dep ?n = d" "v_key ?n = key" by (simp_all add: new_var_def)
  have all: "(\<forall>q \<in> set (rows @ [?n]). P q) \<longleftrightarrow> (\<forall>q \<in> set rows. P q) \<and> P ?n" for P by auto
  show ?thesis
  proof (cases "r = ?n")
    case True
    have "newest (rows @ [?n]) ?n" unfolding newest_def all using less by (simp add: less_imp_le)
    with True show ?thesis by (simp add: add_var_eq)
  next
    case False
    with assms have "r \<in> set rows" by (simp add: add_var_eq)
    then have "\<not> s_id ?n \<le> s_id r" using less by (simp add: not_le)
    with False n show ?thesis unfolding add_var_eq newest_def all by auto
  qed
qed

lemma var_at_add:
  assumes "keyed s_id rows"
  shows "var_at (head (add_var now d actor key sv sens rows) d') k =
    (if d' = d \<and> k = key then (if sv = None then None else Some (new_var now d actor key sv sens rows))
     else var_at (head rows d') k)" (is "?l = ?r")
proof -
  let ?rows' = "add_var now d actor key sv sens rows" and ?n = "new_var now d actor key sv sens rows"
  note k' = add_var_keyed[OF assms, of now d actor key sv sens]
  have n: "v_dep ?n = d" "v_key ?n = key" "s_cipher ?n = None \<longleftrightarrow> sv = None" "?n \<notin> set rows"
    using next_id_fresh[of ?n rows s_id] by (auto simp: new_var_def)
  have in': "r \<in> set ?rows' \<longleftrightarrow> r \<in> set rows \<or> r = ?n" for r by (auto simp: add_var_eq)
  have "?l = Some r \<longleftrightarrow> ?r = Some r" for r
    unfolding var_at_head[OF k'] in'
    using newest_add[of r now d actor key sv sens rows] n var_at_head[OF assms, where d = d' and k = k and r = r]
    by (auto simp: in')
  then show ?thesis by (metis not_None_eq)
qed

section \<open>The loops of a write\<close>

definition grown :: "uuid \<Rightarrow> var_row list \<Rightarrow> var_row list \<Rightarrow> bool" where
  "grown d rows rows' \<longleftrightarrow> keyed s_id rows' \<and> (\<exists>added. rows' = rows @ added \<and> (\<forall>r \<in> set added. v_dep r = d))"

lemma grown_refl: "keyed s_id rows \<Longrightarrow> grown d rows rows"
  by (simp add: grown_def)

lemma grown_trans: "grown d a b \<Longrightarrow> grown d b c \<Longrightarrow> grown d a c"
  by (fastforce simp: grown_def)

lemma grown_add: "keyed s_id rows \<Longrightarrow> grown d rows (add_var now d actor key sv sens rows)"
  using add_var_keyed[of rows now d actor key sv sens] by (simp add: grown_def add_var_eq new_var_def)

lemma grown_keyed: "grown d rows rows' \<Longrightarrow> keyed s_id rows'"
  by (simp add: grown_def)

text \<open>Only the heads named by \<open>ks\<close> differ.\<close>

definition heads_same :: "uuid \<Rightarrow> string set \<Rightarrow> var_row list \<Rightarrow> var_row list \<Rightarrow> bool" where
  "heads_same d ks rows rows' \<longleftrightarrow>
     (\<forall>d' k. d' \<noteq> d \<or> k \<notin> ks \<longrightarrow> var_at (head rows' d') k = var_at (head rows d') k)"

lemma heads_same_refl: "heads_same d ks rows rows"
  by (simp add: heads_same_def)

lemma heads_same_trans:
  "heads_same d ks a b \<Longrightarrow> heads_same d ks' b c \<Longrightarrow> heads_same d (ks \<union> ks') a c"
  by (simp add: heads_same_def)

lemma heads_sameD:
  "heads_same d ks rows rows' \<Longrightarrow> k \<notin> ks \<Longrightarrow> var_at (head rows' d) k = var_at (head rows d) k"
  by (simp add: heads_same_def)

lemma heads_same_config:
  "heads_same d ks rows rows' \<Longrightarrow> d' \<noteq> d \<or> k \<notin> ks \<Longrightarrow> config cr rows' d' k = config cr rows d' k"
  by (simp add: heads_same_def config_def)

lemma heads_same_add: "keyed s_id rows \<Longrightarrow> heads_same d {key} rows (add_var now d actor key sv sens rows)"
  by (auto simp: heads_same_def var_at_add)

lemma plaintext_new:
  assumes "fernet_ok (cr_fernet cr)"
    "encrypt (cr_fernet cr) (cr_ring cr) nonce p = Inr (c, kid)" "s_cipher r = Some c" "s_key_id r = Some kid"
  shows "plaintext cr r = Inr p"
  using encrypt_decrypt[OF assms(1,2)] assms(3,4) by (simp add: plaintext_def)

lemma set_step_spec:
  assumes fer: "fernet_ok (cr_fernet cr)" and k: "keyed s_id rows"
    and cur: "var_at (head rows d) key = var_at current key"
    and ok: "set_step cr now d actor current (key, p, b) rows = Inr rows'"
  shows "grown d rows rows'" "heads_same d {key} rows rows'" "config cr rows' d key = Some (p, b)"
proof -
  let ?same = "case var_at current key of
      Some r \<Rightarrow> if v_sensitive r = b then bindR (plaintext cr r) (\<lambda>p'. Inr (p' = p)) else Inr False
    | None \<Rightarrow> (Inr False :: bool result)"
  from ok obtain same where s: "?same = Inr same" and o: "if same then rows' = rows else
      (\<exists>c. encrypt (cr_fernet cr) (cr_ring cr) (cr_nonce cr (next_id s_id rows)) p = Inr c \<and>
        rows' = add_var now d actor key (Some c) b rows)"
    by (auto simp: set_step_def Let_def result_simps split: if_splits)
  have "grown d rows rows' \<and> heads_same d {key} rows rows' \<and> config cr rows' d key = Some (p, b)"
  proof (cases same)
    case True
    with s obtain r where "var_at current key = Some r" "v_sensitive r = b" "plaintext cr r = Inr p"
      by (auto simp: result_simps split: option.splits if_splits)
    with True o cur k show ?thesis by (simp add: grown_refl heads_same_refl config_def)
  next
    case False
    with o obtain c kid where c: "encrypt (cr_fernet cr) (cr_ring cr) (cr_nonce cr (next_id s_id rows)) p = Inr (c, kid)"
      "rows' = add_var now d actor key (Some (c, kid)) b rows" by auto
    have "plaintext cr (new_var now d actor key (Some (c, kid)) b rows) = Inr p"
      by (rule plaintext_new[OF fer c(1)]) (simp_all add: new_var_def)
    then have "config cr rows' d key = Some (p, b)"
      unfolding c(2) config_def var_at_add[OF k] by (simp add: new_var_def)
    with c(2) grown_add[OF k] heads_same_add[OF k] show ?thesis by simp
  qed
  then show "grown d rows rows'" "heads_same d {key} rows rows'" "config cr rows' d key = Some (p, b)" by auto
qed

lemma set_loop_spec:
  assumes fer: "fernet_ok (cr_fernet cr)" and k: "keyed s_id rows" and dist: "distinct (map fst ds)"
    and cur: "\<And>key. key \<in> fst ` set ds \<Longrightarrow> var_at (head rows d) key = var_at current key"
    and ok: "foldR (set_step cr now d actor current) ds rows = Inr rows'"
  shows "grown d rows rows' \<and> heads_same d (fst ` set ds) rows rows' \<and>
    (\<forall>(key, p, b) \<in> set ds. config cr rows' d key = Some (p, b))"
  using k dist cur ok
proof (induction ds arbitrary: rows)
  case Nil
  then show ?case by (simp add: grown_refl heads_same_refl)
next
  case (Cons x ds)
  obtain key p b where x: "x = (key, p, b)" by (cases x)
  from Cons.prems(4) x obtain mid where m: "set_step cr now d actor current (key, p, b) rows = Inr mid"
    "foldR (set_step cr now d actor current) ds mid = Inr rows'" by (auto simp: result_simps)
  have c0: "var_at (head rows d) key = var_at current key" using Cons.prems(3) x by simp
  note s = set_step_spec[OF fer Cons.prems(1) c0 m(1)]
  have fresh: "key \<notin> fst ` set ds" using Cons.prems(2) x by auto
  have cur': "var_at (head mid d) k' = var_at current k'" if "k' \<in> fst ` set ds" for k'
    using heads_sameD[OF s(2), of k'] that fresh Cons.prems(3)[of k'] by auto
  have d': "distinct (map fst ds)" using Cons.prems(2) by simp
  note i = Cons.IH[OF grown_keyed[OF s(1)] d' cur' m(2)]
  have "config cr rows' d key = Some (p, b)"
    using heads_same_config[OF conjunct1[OF conjunct2[OF i]], of d key] fresh s(3) by simp
  moreover have "heads_same d (fst ` set (x # ds)) rows rows'"
    using heads_same_trans[OF s(2) conjunct1[OF conjunct2[OF i]]] x by simp
  ultimately show ?case using i grown_trans[OF s(1)] x by auto
qed

lemma delete_loop_spec:
  assumes k: "keyed s_id rows" and dist: "distinct ks"
    and cur: "\<And>key. key \<in> set ks \<Longrightarrow> var_at (head rows d) key = var_at current key"
  shows "grown d rows (fold (delete_step now d actor current) ks rows) \<and>
    heads_same d (set ks) rows (fold (delete_step now d actor current) ks rows) \<and>
    (\<forall>key \<in> set ks. config cr (fold (delete_step now d actor current) ks rows) d key = None)"
  using k dist cur
proof (induction ks arbitrary: rows)
  case Nil
  then show ?case by (simp add: grown_refl heads_same_refl)
next
  case (Cons key ks)
  let ?mid = "delete_step now d actor current key rows"
  have c0: "var_at (head rows d) key = var_at current key" using Cons.prems(3) by simp
  have s: "grown d rows ?mid" "heads_same d {key} rows ?mid" "var_at (head ?mid d) key = None"
    using c0 Cons.prems(1)
    by (auto simp: delete_step_def grown_refl grown_add heads_same_refl heads_same_add var_at_add)
  have cur': "var_at (head ?mid d) k' = var_at current k'" if "k' \<in> set ks" for k'
    using heads_sameD[OF s(2), where k = k'] that Cons.prems(2) Cons.prems(3)[of k'] by auto
  have d': "distinct ks" using Cons.prems(2) by simp
  note i = Cons.IH[OF grown_keyed[OF s(1)] d' cur']
  have "config cr (fold (delete_step now d actor current) ks ?mid) d key = None"
    using heads_same_config[OF conjunct1[OF conjunct2[OF i]], of d key] Cons.prems(2) s(3) by (simp add: config_def)
  moreover have "heads_same d (set (key # ks)) rows (fold (delete_step now d actor current) ks ?mid)"
    using heads_same_trans[OF s(2) conjunct1[OF conjunct2[OF i]]] by simp
  ultimately show ?case using i grown_trans[OF s(1)] by auto
qed

section \<open>What a write intends\<close>

text \<open>
  The configuration the request asks for: an entry sets, deletes or re-flags its var, and every other
  var stays (a merge) or goes (a replace).
\<close>

definition intended ::
  "crypto \<Rightarrow> var_row list \<Rightarrow> pydict \<Rightarrow> (string \<times> var_write) list \<Rightarrow> bool \<Rightarrow> string \<Rightarrow> (string \<times> bool) option"
where
  "intended cr current declared entries replace k =
     (let old = (case var_at current k of
                   None \<Rightarrow> None
                 | Some r \<Rightarrow> (case plaintext cr r of Inl _ \<Rightarrow> None | Inr p \<Rightarrow> Some (p, v_sensitive r)))
      in case map_of entries k of
           None \<Rightarrow> if replace then None else old
         | Some e \<Rightarrow>
             (case resolve_sensitive k e declared (var_at current k) of
                Inl _ \<Rightarrow> None
              | Inr sens \<Rightarrow>
                  (case vw_value e of
                     Some None \<Rightarrow> None
                   | Some (Some v) \<Rightarrow> Some (v, sens)
                   | None \<Rightarrow> map_option (\<lambda>(p, _). (p, sens)) old)))"

definition planned :: "(string \<Rightarrow> (string \<times> bool) option) \<Rightarrow> var_set \<times> string list \<Rightarrow> bool" where
  "planned f = (\<lambda>(desired, deletions).
     distinct (map fst desired) \<and> distinct deletions \<and> fst ` set desired \<inter> set deletions = {} \<and>
     (\<forall>(k, p, b) \<in> set desired. f k = Some (p, b)) \<and> (\<forall>k \<in> set deletions. f k = None))"

definition plan_keys :: "var_set \<times> string list \<Rightarrow> string set" where
  "plan_keys = (\<lambda>(desired, deletions). fst ` set desired \<union> set deletions)"

lemma planned_set:
  assumes "planned f (des, del)" "k \<notin> plan_keys (des, del)" "f k = Some (p, b)"
  shows "planned f (des @ [(k, p, b)], del)" "plan_keys (des @ [(k, p, b)], del) = insert k (plan_keys (des, del))"
  using assms by (auto simp: planned_def plan_keys_def)

lemma planned_del:
  assumes "planned f (des, del)" "k \<notin> plan_keys (des, del)" "f k = None"
  shows "planned f (des, del @ [k])" "plan_keys (des, del @ [k]) = insert k (plan_keys (des, del))"
  using assms by (auto simp: planned_def plan_keys_def)

lemma entry_step_spec:
  assumes ok: "entry_step cr current declared (key, e) st = Inr st'"
    and e: "map_of entries key = Some e" and p: "planned (intended cr current declared entries replace) st"
    and new: "key \<notin> plan_keys st"
  shows "planned (intended cr current declared entries replace) st' \<and> plan_keys st' = insert key (plan_keys st)"
proof -
  obtain des del where st: "st = (des, del)" by (cases st)
  show ?thesis
  proof (cases "vw_value e = Some None")
    case True
    with ok st have "st' = (des, del @ [key])" by (auto simp: entry_step_def Let_def result_simps)
    with True e p new st show ?thesis
      by (auto simp: planned_def plan_keys_def intended_def Let_def split: sum.splits)
  next
    case False
    with ok st obtain plain sens where s: "st' = (des @ [(key, plain, sens)], del)"
      "resolve_sensitive key e declared (var_at current key) = Inr sens"
      and v: "(case vw_value e of Some (Some v) \<Rightarrow> Inr v
          | _ \<Rightarrow> (case var_at current key of
                   None \<Rightarrow> Inl (ValidationErr (key @ '': no value supplied and this var does not exist''))
                 | Some r \<Rightarrow> plaintext cr r)) = Inr plain"
      by (auto simp: entry_step_def Let_def result_simps split: if_splits)
    have "intended cr current declared entries replace key = Some (plain, sens)"
      using e s(2) v False by (auto simp: intended_def Let_def split: option.splits)
    with s(1) planned_set[OF p[unfolded st] new[unfolded st]] st show ?thesis by simp
  qed
qed

lemma entry_loop_spec:
  assumes "foldR (entry_step cr current declared) es st = Inr st'" "distinct (map fst es)"
    "\<And>k e. (k, e) \<in> set es \<Longrightarrow> map_of entries k = Some e"
    "planned (intended cr current declared entries replace) st" "fst ` set es \<inter> plan_keys st = {}"
  shows "planned (intended cr current declared entries replace) st' \<and> plan_keys st' = fst ` set es \<union> plan_keys st"
  using assms
proof (induction es arbitrary: st)
  case (Cons x es)
  obtain k e where x: "x = (k, e)" by (cases x)
  with Cons.prems(1) obtain mid where m: "entry_step cr current declared (k, e) st = Inr mid"
    "foldR (entry_step cr current declared) es mid = Inr st'" by (auto simp: result_simps)
  have "map_of entries k = Some e" "k \<notin> plan_keys st" using Cons.prems(3,5) x by auto
  note s = entry_step_spec[OF m(1) this(1) Cons.prems(4) this(2)]
  have "fst ` set es \<inter> plan_keys mid = {}" using s Cons.prems(2,5) x by auto
  with Cons.IH[OF m(2)] Cons.prems s x show ?case by auto
qed simp

lemma keep_step_spec:
  assumes ok: "keep_step cr replace r st = Inr st'" and r: "var_at current (v_key r) = Some r"
    and e: "map_of entries (v_key r) = None \<or> v_key r \<in> plan_keys st"
    and p: "planned (intended cr current declared entries replace) st"
  shows "planned (intended cr current declared entries replace) st' \<and> plan_keys st' = insert (v_key r) (plan_keys st)"
proof -
  obtain des del where st: "st = (des, del)" by (cases st)
  show ?thesis
  proof (cases "v_key r \<in> plan_keys st")
    case True
    with ok st have "st' = st" by (auto simp: keep_step_def plan_keys_def)
    with True p show ?thesis by auto
  next
    case False
    with ok st have s: "if replace then st' = (des, del @ [v_key r])
        else (\<exists>q. plaintext cr r = Inr q \<and> st' = (des @ [(v_key r, q, v_sensitive r)], del))"
      by (auto simp: keep_step_def plan_keys_def result_simps)
    from False e r have "intended cr current declared entries replace (v_key r) = (if replace then None else
        (case plaintext cr r of Inl _ \<Rightarrow> None | Inr p \<Rightarrow> Some (p, v_sensitive r)))"
      by (simp add: intended_def)
    with s show ?thesis
      using planned_set[OF p[unfolded st] False[unfolded st]] planned_del[OF p[unfolded st] False[unfolded st]] st
      by (auto split: if_splits)
  qed
qed

lemma keep_loop_spec:
  assumes "foldR (keep_step cr replace) rs st = Inr st'" "\<And>r. r \<in> set rs \<Longrightarrow> var_at current (v_key r) = Some r"
    "fst ` set entries \<subseteq> plan_keys st" "planned (intended cr current declared entries replace) st"
  shows "planned (intended cr current declared entries replace) st' \<and> plan_keys st' = v_key ` set rs \<union> plan_keys st"
  using assms
proof (induction rs arbitrary: st)
  case (Cons r rs)
  then obtain mid where m: "keep_step cr replace r st = Inr mid" "foldR (keep_step cr replace) rs mid = Inr st'"
    by (auto simp: result_simps)
  have "map_of entries (v_key r) = None \<or> v_key r \<in> plan_keys st"
    using Cons.prems(3) by (auto simp: map_of_eq_None_iff)
  note s = keep_step_spec[OF m(1) Cons.prems(2)[of r] this Cons.prems(4)]
  from Cons.IH[OF m(2)] Cons.prems s show ?case by auto
qed simp

lemma desired_vars_spec:
  assumes ok: "desired_vars cr current declared entries replace = Inr (desired, deletions)"
    and dist: "distinct (map fst entries)" and cur: "\<And>r. r \<in> set current \<Longrightarrow> var_at current (v_key r) = Some r"
  shows "planned (intended cr current declared entries replace) (desired, deletions)"
    "plan_keys (desired, deletions) = fst ` set entries \<union> v_key ` set current"
proof -
  from ok obtain mid where m: "foldR (entry_step cr current declared) entries ([], []) = Inr mid"
    "foldR (keep_step cr replace) current mid = Inr (desired, deletions)"
    by (auto simp: desired_vars_def result_simps)
  have "planned (intended cr current declared entries replace) mid \<and> plan_keys mid = fst ` set entries \<union> plan_keys ([], [])"
    by (rule entry_loop_spec[OF m(1) dist]) (simp_all add: dist planned_def plan_keys_def)
  then have a: "planned (intended cr current declared entries replace) mid" "plan_keys mid = fst ` set entries"
    by (simp_all add: plan_keys_def)
  with keep_loop_spec[OF m(2) cur, of entries declared]
  show "planned (intended cr current declared entries replace) (desired, deletions)"
    "plan_keys (desired, deletions) = fst ` set entries \<union> v_key ` set current" by auto
qed

section \<open>Writes as a whole\<close>

lemma write_vars_Inr:
  assumes "write_vars jsv cr now dep actor entries replace err s = Inr s'"
  obtains t desired deletions rows where
    "get_template s (d_desired_template dep) = Some t"
    "desired_vars cr (head (db_vars s) (d_id dep)) (declared_vars (pr_vars (derive_projections (t_schema t)))) entries replace
       = Inr (desired, deletions)"
    "validate_vars jsv (map (\<lambda>(k, p, _). (k, p)) desired) (pr_vars (derive_projections (t_schema t))) = Inr ()"
    "validate_document jsv (d_values dep) (map (\<lambda>(k, p, _). (k, p)) desired) (t_schema t) err = Inr ()"
    "check_limits desired = Inr ()"
    "foldR (set_step cr now (d_id dep) actor (head (db_vars s) (d_id dep))) (sort_key fst desired) (db_vars s) = Inr rows"
    "s' = s\<lparr>db_vars := fold (delete_step now (d_id dep) actor (head (db_vars s) (d_id dep))) (sort deletions) rows\<rparr>"
  using assms by (auto simp: write_vars_def Let_def result_simps split: option.splits if_splits)

lemma head_keyed: "keyed s_id rows \<Longrightarrow> r \<in> set (head rows d) \<Longrightarrow> var_at (head rows d) (v_key r) = Some r"
  using head_iff var_at_head by blast

lemma config_not_head:
  "var_at (head rows d) k = None \<Longrightarrow> config cr rows d k = None"
  by (simp add: config_def)

lemma intended_absent:
  assumes "k \<notin> fst ` set entries" "var_at current k = None"
  shows "intended cr current declared entries replace k = None"
proof -
  have "map_of entries k = None" using assms(1) by (auto simp: map_of_eq_None_iff)
  then show ?thesis using assms(2) by (simp add: intended_def)
qed

lemma write_vars_spec:
  assumes fer: "fernet_ok (cr_fernet cr)" and ids: "keyed s_id (db_vars s)" and dist: "distinct (map fst entries)"
    and ok: "write_vars jsv cr now dep actor entries replace err s = Inr s'"
    and t: "get_template s (d_desired_template dep) = Some t"
  shows "grown (d_id dep) (db_vars s) (db_vars s') \<and> (\<exists>vs. s' = s\<lparr>db_vars := vs\<rparr>) \<and>
    config cr (db_vars s') (d_id dep) =
      intended cr (head (db_vars s) (d_id dep)) (declared_vars (pr_vars (derive_projections (t_schema t)))) entries replace \<and>
    (\<forall>d. d \<noteq> d_id dep \<longrightarrow> config cr (db_vars s') d = config cr (db_vars s) d)"
proof -
  let ?d = "d_id dep" and ?cur = "head (db_vars s) (d_id dep)"
  let ?decl = "declared_vars (pr_vars (derive_projections (t_schema t)))"
  let ?f = "intended cr ?cur ?decl entries replace"
  obtain desired deletions rows where
    dv: "desired_vars cr ?cur ?decl entries replace = Inr (desired, deletions)"
    and set_ok: "foldR (set_step cr now ?d actor ?cur) (sort_key fst desired) (db_vars s) = Inr rows"
    and s': "s' = s\<lparr>db_vars := fold (delete_step now ?d actor ?cur) (sort deletions) rows\<rparr>"
    using write_vars_Inr[OF ok] t by (metis option.inject)
  note p = desired_vars_spec[OF dv dist head_keyed[OF ids]]
  have pl: "distinct (map fst desired)" "distinct deletions" "fst ` set desired \<inter> set deletions = {}"
    "\<forall>(k, p, b) \<in> set desired. ?f k = Some (p, b)" "\<forall>k \<in> set deletions. ?f k = None"
    using p(1) by (simp_all add: planned_def)
  have ds: "distinct (map fst (sort_key fst desired))"
    using pl(1) by (metis distinct_map distinct_sort set_sort)
  have "grown ?d (db_vars s) rows \<and> heads_same ?d (fst ` set (sort_key fst desired)) (db_vars s) rows \<and>
      (\<forall>(key, p, b) \<in> set (sort_key fst desired). config cr rows ?d key = Some (p, b))"
    by (rule set_loop_spec[OF fer ids ds _ set_ok]) simp
  then have a: "grown ?d (db_vars s) rows" "heads_same ?d (fst ` set desired) (db_vars s) rows"
    "\<And>k p b. (k, p, b) \<in> set desired \<Longrightarrow> config cr rows ?d k = Some (p, b)" by auto
  let ?rows' = "fold (delete_step now ?d actor ?cur) (sort deletions) rows"
  have cur: "var_at (head rows ?d) key = var_at ?cur key" if "key \<in> set (sort deletions)" for key
    using heads_sameD[OF a(2)] pl(3) that by auto
  have "grown ?d rows ?rows' \<and> heads_same ?d (set (sort deletions)) rows ?rows' \<and>
      (\<forall>key \<in> set (sort deletions). config cr ?rows' ?d key = None)"
    by (rule delete_loop_spec[OF grown_keyed[OF a(1)] _ cur]) (simp_all add: pl(2))
  then have b: "grown ?d rows ?rows'" "heads_same ?d (set deletions) rows ?rows'"
    "\<And>k. k \<in> set deletions \<Longrightarrow> config cr ?rows' ?d k = None" by simp_all
  have "config cr ?rows' ?d k = ?f k" for k
  proof -
    consider (des) "k \<in> fst ` set desired" | (del) "k \<in> set deletions"
      | (no) "k \<notin> fst ` set desired" "k \<notin> set deletions" by blast
    then show ?thesis
    proof cases
      case des
      then obtain p0 b0 where i: "(k, p0, b0) \<in> set desired" by auto
      then have "config cr rows ?d k = Some (p0, b0)" "?f k = Some (p0, b0)" using a(3) pl(4) by auto
      moreover have "k \<notin> set deletions" using des pl(3) by blast
      ultimately show ?thesis using heads_same_config[OF b(2)] by metis
    next
      case del
      with b(3) pl(5) show ?thesis by simp
    next
      case no
      then have k: "k \<notin> fst ` set entries" "k \<notin> v_key ` set ?cur" using p(2) by (auto simp: plan_keys_def)
      then have at: "var_at ?cur k = None" by (simp add: row_get_None_iff)
      then have "config cr (db_vars s) ?d k = None" by (rule config_not_head)
      then have "config cr ?rows' ?d k = None"
        using heads_same_config[OF a(2)] heads_same_config[OF b(2)] no by metis
      with intended_absent[OF k(1) at] show ?thesis by simp
    qed
  qed
  moreover have "config cr ?rows' d k = config cr (db_vars s) d k" if "d \<noteq> ?d" for d k
    using heads_same_config[OF a(2)] heads_same_config[OF b(2)] that by metis
  moreover have "grown ?d (db_vars s) ?rows'" using grown_trans[OF a(1) b(1)] .
  ultimately show ?thesis unfolding s' by (intro conjI) (auto simp: fun_eq_iff)
qed

text \<open>A write that asks for what head already holds appends nothing.\<close>

lemma set_loop_same:
  assumes "\<And>k p b. (k, p, b) \<in> set ds \<Longrightarrow> \<exists>r. var_at current k = Some r \<and> v_sensitive r = b \<and> plaintext cr r = Inr p"
  shows "foldR (set_step cr now d actor current) ds rows = Inr rows"
  using assms
proof (induction ds)
  case (Cons x ds)
  obtain k p b where x: "x = (k, p, b)" by (cases x)
  with Cons.prems[of k p b] obtain r where "var_at current k = Some r" "v_sensitive r = b" "plaintext cr r = Inr p" by auto
  then have "set_step cr now d actor current x rows = Inr rows" by (simp add: x set_step_def)
  with Cons show ?case by simp
qed simp

lemma delete_loop_same:
  "(\<And>k. k \<in> set ks \<Longrightarrow> var_at current k = None) \<Longrightarrow> fold (delete_step now d actor current) ks rows = rows"
  by (induction ks) (auto simp: delete_step_def)

lemma write_vars_same:
  assumes ids: "keyed s_id (db_vars s)" and dist: "distinct (map fst entries)"
    and ok: "write_vars jsv cr now dep actor entries replace err s = Inr s'"
    and t: "get_template s (d_desired_template dep) = Some t"
    and same: "intended cr (head (db_vars s) (d_id dep)) (declared_vars (pr_vars (derive_projections (t_schema t)))) entries replace
      = config cr (db_vars s) (d_id dep)"
    and readable: "\<forall>r \<in> set (head (db_vars s) (d_id dep)). \<exists>p. plaintext cr r = Inr p"
  shows "db_vars s' = db_vars s"
proof -
  let ?d = "d_id dep" and ?cur = "head (db_vars s) (d_id dep)"
  let ?decl = "declared_vars (pr_vars (derive_projections (t_schema t)))"
  obtain desired deletions rows where
    dv: "desired_vars cr ?cur ?decl entries replace = Inr (desired, deletions)"
    and set_ok: "foldR (set_step cr now ?d actor ?cur) (sort_key fst desired) (db_vars s) = Inr rows"
    and s': "s' = s\<lparr>db_vars := fold (delete_step now ?d actor ?cur) (sort deletions) rows\<rparr>"
    using write_vars_Inr[OF ok] t by (metis option.inject)
  from desired_vars_spec(1)[OF dv dist head_keyed[OF ids]] same
  have p: "\<forall>(k, p, b) \<in> set desired. config cr (db_vars s) ?d k = Some (p, b)"
    "\<forall>k \<in> set deletions. config cr (db_vars s) ?d k = None" by (simp_all add: planned_def)
  have none: "var_at ?cur k = None" if k: "k \<in> set deletions" for k
  proof (cases "var_at ?cur k")
    case (Some r)
    then obtain q where "plaintext cr r = Inr q" using readable row_get_in[OF Some] by blast
    with p(2) k Some show ?thesis by (auto simp: config_def)
  qed
  have keep: "\<exists>r. var_at ?cur k = Some r \<and> v_sensitive r = b \<and> plaintext cr r = Inr q"
    if "(k, q, b) \<in> set (sort_key fst desired)" for k q b
    using p(1) that by (auto simp: config_def split: option.splits sum.splits)
  have "rows = db_vars s"
    using set_loop_same[of "sort_key fst desired" ?cur cr now ?d actor "db_vars s", OF keep] set_ok by simp
  moreover have "fold (delete_step now ?d actor ?cur) (sort deletions) rows = rows"
    by (rule delete_loop_same) (simp add: none)
  ultimately show ?thesis by (simp add: s')
qed

section \<open>Properties\<close>

text \<open>
  C37. What a write does: the configuration of the deployment becomes exactly what the request
  intends, on every key, the configuration of every other deployment is what it was, the history
  only grows, by rows of this deployment, and a request that asks for what is already there writes
  nothing.
\<close>

theorem write_vars_effect:
  assumes "fernet_ok (cr_fernet cr)" and ids: "keyed s_id (db_vars s)" and dist: "distinct (map fst entries)"
    and ok: "write_vars jsv cr now dep actor entries replace err s = Inr s'"
    and t: "get_template s (d_desired_template dep) = Some t"
    and want: "want = intended cr (head (db_vars s) (d_id dep))
        (declared_vars (pr_vars (derive_projections (t_schema t)))) entries replace"
  shows "config cr (db_vars s') (d_id dep) = want \<and>
    (\<forall>d. d \<noteq> d_id dep \<longrightarrow> config cr (db_vars s') d = config cr (db_vars s) d) \<and>
    (\<exists>added. db_vars s' = db_vars s @ added \<and> (\<forall>r \<in> set added. v_dep r = d_id dep) \<and>
       (want = config cr (db_vars s) (d_id dep) \<and>
        (\<forall>r \<in> set (head (db_vars s) (d_id dep)). \<exists>p. plaintext cr r = Inr p) \<longrightarrow> added = []))"
proof -
  note w = write_vars_spec[OF assms(1) ids dist ok t]
  then obtain added where a: "db_vars s' = db_vars s @ added" "\<forall>r \<in> set added. v_dep r = d_id dep"
    by (auto simp: grown_def)
  have "added = []" if "want = config cr (db_vars s) (d_id dep)"
    "\<forall>r \<in> set (head (db_vars s) (d_id dep)). \<exists>p. plaintext cr r = Inr p"
    using write_vars_same[OF ids dist ok t] that want a(1) by simp
  with w want a show ?thesis by blast
qed

lemma snapshot_release_other:
  "rel \<noteq> rel' \<Longrightarrow> snapshot (snapshot_release rel' d s) rel = snapshot s rel"
  by (simp add: snapshot_def snapshot_release_def bound_ids_def o_def)

lemma snapshot_grown:
  assumes "grown d (db_vars s) (db_vars s')" "db_relvars s' = db_relvars s"
    "\<forall>b \<in> set (db_relvars s). rv_var b \<in> s_id ` set (db_vars s)"
  shows "snapshot s' rel = snapshot s rel"
proof -
  from assms(1) obtain added where a: "db_vars s' = db_vars s @ added" "keyed s_id (db_vars s @ added)"
    by (auto simp: grown_def)
  have "bound_ids s' rel = bound_ids s rel" by (simp add: bound_ids_def assms(2))
  moreover have "s_id r \<notin> set (bound_ids s rel)" if "r \<in> set added" for r
  proof
    assume "s_id r \<in> set (bound_ids s rel)"
    then have "s_id r \<in> s_id ` set (db_vars s)" using assms(3) by (auto simp: bound_ids_def)
    with a(2) that show False by auto
  qed
  ultimately show ?thesis by (simp add: snapshot_def a(1) filter_False)
qed

lemma snapshot_of_head:
  assumes "keyed s_id (db_vars s)" "set (bound_ids s rel) = s_id ` set (head (db_vars s) d)"
  shows "snapshot s rel = head (db_vars s) d"
proof -
  have "r \<in> set (head (db_vars s) d) \<longleftrightarrow> s_id r \<in> s_id ` set (head (db_vars s) d)" if "r \<in> set (db_vars s)" for r
    using keyed_unique[OF assms(1) that] head_iff[OF assms(1)] by (auto simp: image_iff)
  then have "filter (\<lambda>r. s_id r \<in> set (bound_ids s rel)) (db_vars s) =
      filter (\<lambda>r. s_id r \<in> set (newest_ids (db_vars s) d) \<and> s_cipher r \<noteq> None) (db_vars s)"
    unfolding assms(2) by (intro filter_cong) (auto simp: head_def)
  then show ?thesis by (simp add: snapshot_def head_def)
qed

text \<open>
  A release is reproducible: the snapshot bound when it is created is exactly the head of that
  moment, and neither a later write of any deployment's vars nor the snapshot of another release
  changes it.
\<close>

theorem release_snapshot_frozen:
  assumes ids: "keyed s_id (db_vars s)" and fk: "\<forall>b \<in> set (db_relvars s). rv_var b \<in> s_id ` set (db_vars s)"
    and new: "bound_ids s rel = []" and s1: "s1 = snapshot_release rel d s" and fer: "fernet_ok (cr_fernet cr)"
    and w: "distinct (map fst entries)" "write_vars jsv cr now dep actor entries replace err s1 = Inr s2"
    and other: "rel' \<noteq> rel"
  shows "snapshot s1 rel = head (db_vars s) d \<and>
    snapshot (snapshot_release rel' (d_id dep) s2) rel = head (db_vars s) d"
proof -
  have b: "bound_ids s1 rel = map s_id (head (db_vars s) d)"
    using new by (simp add: s1 snapshot_release_def bound_ids_def o_def)
  have v: "db_vars s1 = db_vars s" by (simp add: s1 snapshot_release_def)
  have a: "snapshot s1 rel = head (db_vars s) d"
    using snapshot_of_head[of s1 rel d] ids b v by simp
  have fk1: "\<forall>b \<in> set (db_relvars s1). rv_var b \<in> s_id ` set (db_vars s1)"
    using fk head_iff[OF ids] by (auto simp: s1 snapshot_release_def)
  obtain t where t: "get_template s1 (d_desired_template dep) = Some t" by (rule write_vars_Inr[OF w(2)])
  have g: "grown (d_id dep) (db_vars s1) (db_vars s2)" "\<exists>vs. s2 = s1\<lparr>db_vars := vs\<rparr>"
    using write_vars_spec[OF fer _ w t] ids v by auto
  then have "snapshot s2 rel = snapshot s1 rel" using snapshot_grown[OF g(1) _ fk1] by auto
  with a other show ?thesis by (simp add: snapshot_release_other)
qed

text \<open>
  \<open>pending\<close> is false exactly when the applied release was bound to the very rows that are head:
  then a rollout would give the pod the environment it has. (It is true after a value is changed and
  changed back, which the rows record as a change: see \<open>pending_after_revert\<close>.)
\<close>

theorem pending_exact:
  assumes ids: "keyed s_id (db_vars s)" and fk: "\<forall>b \<in> set (db_relvars s). rv_var b \<in> s_id ` set (db_vars s)"
    and rel: "d_applied_release dep = Some rel"
  shows "\<not> pending s dep \<longleftrightarrow> snapshot s rel = head (db_vars s) (d_id dep)"
proof
  assume "\<not> pending s dep"
  with rel have "set (bound_ids s rel) = s_id ` set (head (db_vars s) (d_id dep))" by (auto simp: pending_def Let_def)
  then show "snapshot s rel = head (db_vars s) (d_id dep)" by (rule snapshot_of_head[OF ids])
next
  assume h: "snapshot s rel = head (db_vars s) (d_id dep)"
  have "set (bound_ids s rel) \<subseteq> s_id ` set (db_vars s)" using fk by (auto simp: bound_ids_def)
  then have "s_id ` set (snapshot s rel) = set (bound_ids s rel)" by (auto simp: snapshot_def)
  with h rel show "\<not> pending s dep" by (simp add: pending_def)
qed

text \<open>A sensitive row with its ciphertext blanked.\<close>

definition blind :: "var_row \<Rightarrow> var_row" where
  "blind r = (if v_sensitive r
              then r\<lparr>s_cipher := map_option (\<lambda>_. []) (s_cipher r), s_key_id := map_option (\<lambda>_. []) (s_key_id r)\<rparr>
              else r)"

lemma blind_simps [simp]:
  "s_id (blind r) = s_id r" "v_dep (blind r) = v_dep r" "v_key (blind r) = v_key r"
  "v_sensitive (blind r) = v_sensitive r" "v_created_by (blind r) = v_created_by r"
  "v_created_at (blind r) = v_created_at r" "s_cipher (blind r) = None \<longleftrightarrow> s_cipher r = None"
  "(\<exists>y. s_cipher (blind r) = Some y) \<longleftrightarrow> (\<exists>y. s_cipher r = Some y)"
  by (simp_all add: blind_def)

lemma sort_key_map: "(\<And>x. f (g x) = f x) \<Longrightarrow> sort_key f (map g xs) = map g (sort_key f xs)"
proof (induction xs)
  case (Cons x xs)
  have "insort_key f (g x) (map g ys) = map g (insort_key f x ys)" for ys
    using Cons.prems by (induction ys) simp_all
  with Cons show ?case by simp
qed simp

lemma head_blind: "head (map blind rows) d = map blind (head rows d)"
proof -
  have n: "newest_ids (map blind rows) d = newest_ids rows d"
    unfolding newest_ids_def by (simp add: o_def cong: if_cong)
  show ?thesis
    unfolding head_def n filter_map by (simp add: o_def sort_key_map)
qed

lemma read_entry_blind: "read_entry cr us (blind r) = read_entry cr us r"
  by (simp add: read_entry_def) (simp add: blind_def)

lemma read_rows_blind: "read_rows cr us (map blind rows) = read_rows cr us rows"
  by (induction rows) (simp_all add: read_rows_def read_entry_blind)

lemma pending_blind: "pending (s\<lparr>db_vars := map blind (db_vars s)\<rparr>) dep = pending s dep"
  by (cases "d_applied_release dep") (simp_all add: pending_def bound_ids_def head_blind image_image)

lemma read_vars_blind: "read_vars cr (s\<lparr>db_vars := map blind (db_vars s)\<rparr>) dep = read_vars cr s dep"
  by (simp add: read_vars_def head_blind read_rows_blind pending_blind)

lemma snapshot_blind: "snapshot (s\<lparr>db_vars := map blind (db_vars s)\<rparr>) rel = map blind (snapshot s rel)"
  by (simp add: snapshot_def bound_ids_def filter_map o_def sort_key_map)

lemma read_snapshot_blind: "read_snapshot cr (s\<lparr>db_vars := map blind (db_vars s)\<rparr>) rel = read_snapshot cr s rel"
  by (simp add: read_snapshot_def snapshot_blind read_rows_blind)

lemma var_at_blind: "var_at (map blind rows) k = map_option blind (var_at rows k)"
  by (induction rows) (simp_all add: table_simps)

lemma read_var_blind: "read_var cr (s\<lparr>db_vars := map blind (db_vars s)\<rparr>) dep k = read_var cr s dep k"
  by (simp add: read_var_def head_blind var_at_blind pending_blind read_entry_blind split: option.splits)

text \<open>Two tables that agree when blinded are read the same by any reader that does not see what blinding hides.\<close>

lemma blind_reader:
  assumes "\<And>s. f (s\<lparr>db_vars := map blind (db_vars s)\<rparr>) = f s" "map blind vs = map blind ws"
  shows "f (s\<lparr>db_vars := vs\<rparr>) = f (s\<lparr>db_vars := ws\<rparr>)"
  using assms(1)[of "s\<lparr>db_vars := vs\<rparr>"] assms(1)[of "s\<lparr>db_vars := ws\<rparr>"] assms(2) by simp

lemma read_entry_hides: "read_entry cr us r = Inr v \<Longrightarrow> vrd_sensitive v \<Longrightarrow> vrd_value v = None"
  by (auto simp: read_entry_def result_simps split: if_splits)

lemma read_rows_hides: "read_rows cr us rows = Inr xs \<Longrightarrow> (k, v) \<in> set xs \<Longrightarrow> vrd_sensitive v \<Longrightarrow> vrd_value v = None"
  by (induction rows arbitrary: xs) (auto simp: read_rows_def result_simps read_entry_hides)

text \<open>What the three endpoints report: a deployment's vars, one of them, and those a release was rolled out with.\<close>

inductive reported :: "crypto \<Rightarrow> db \<Rightarrow> deployment \<Rightarrow> string \<Rightarrow> var_read \<Rightarrow> bool" for cr s dep where
  all_vars: "read_vars cr s dep = Inr x \<Longrightarrow> (k, v) \<in> set (vrs_vars x) \<Longrightarrow> reported cr s dep k v"
| one_var: "read_var cr s dep key = Inr x \<Longrightarrow> (k, v) \<in> set (vrs_vars x) \<Longrightarrow> reported cr s dep k v"
| of_release: "read_snapshot cr s rel = Inr xs \<Longrightarrow> (k, v) \<in> set xs \<Longrightarrow> reported cr s dep k v"

lemma reported_hides: "reported cr s dep k v \<Longrightarrow> vrd_sensitive v \<Longrightarrow> vrd_value v = None"
  by (induction rule: reported.induct)
    (auto simp: read_vars_def read_var_def read_snapshot_def result_simps read_rows_hides read_entry_hides split: option.splits)

text \<open>
  C38. Secrets cannot be read back: what the three reads of vars (all vars of a deployment, a single var,
  the vars a release was rolled out with) answer is the same for any two databases that differ only in the
  ciphertexts of sensitive rows and the keys they name, and a var reported as sensitive comes without a
  value.
\<close>

theorem sensitive_values_never_read:
  assumes "map blind vs = map blind ws"
  shows "read_vars cr (s\<lparr>db_vars := vs\<rparr>) dep = read_vars cr (s\<lparr>db_vars := ws\<rparr>) dep \<and>
    read_var cr (s\<lparr>db_vars := vs\<rparr>) dep key = read_var cr (s\<lparr>db_vars := ws\<rparr>) dep key \<and>
    read_snapshot cr (s\<lparr>db_vars := vs\<rparr>) rel = read_snapshot cr (s\<lparr>db_vars := ws\<rparr>) rel \<and>
    (\<forall>k v. reported cr (s\<lparr>db_vars := vs\<rparr>) dep k v \<and> vrd_sensitive v \<longrightarrow> vrd_value v = None)"
  using blind_reader[of "\<lambda>s. read_vars cr s dep", OF read_vars_blind assms]
    blind_reader[of "\<lambda>s. read_var cr s dep key", OF read_var_blind assms]
    blind_reader[of "\<lambda>s. read_snapshot cr s rel", OF read_snapshot_blind assms] reported_hides by blast

lemma entry_unchanged_keeps_flag:
  assumes "foldR (entry_step cr current declared) es st = Inr st'" "(k, e) \<in> set es" "vw_value e = None"
  shows "\<exists>r b. var_at current k = Some r \<and> resolve_sensitive k e declared (var_at current k) = Inr b \<and>
    (v_sensitive r \<longrightarrow> b)"
  using assms
proof (induction es arbitrary: st)
  case (Cons x es)
  then obtain mid where m: "entry_step cr current declared x st = Inr mid"
    "foldR (entry_step cr current declared) es mid = Inr st'" by (auto simp: result_simps)
  show ?case
  proof (cases "x = (k, e)")
    case True
    with m(1) Cons.prems(3) show ?thesis
      by (cases st) (auto simp: entry_step_def Let_def result_simps split: option.splits if_splits)
  next
    case False
    with Cons m(2) show ?thesis by auto
  qed
qed simp

text \<open>
  A secret is never exposed by omission: a var that was sensitive and is readable after a write got
  a new value in that very write, which is the value it now has.
\<close>

theorem no_silent_exposure:
  assumes "fernet_ok (cr_fernet cr)" "keyed s_id (db_vars s)" and dist: "distinct (map fst entries)"
    and ok: "write_vars jsv cr now dep actor entries replace err s = Inr s'"
    and old: "config cr (db_vars s) (d_id dep) k = Some (p, True)"
    and exposed: "config cr (db_vars s') (d_id dep) k = Some (q, False)"
  shows "\<exists>e. map_of entries k = Some e \<and> vw_value e = Some (Some q)"
proof -
  let ?cur = "head (db_vars s) (d_id dep)"
  obtain t desired deletions where t: "get_template s (d_desired_template dep) = Some t"
    and dv: "desired_vars cr ?cur (declared_vars (pr_vars (derive_projections (t_schema t)))) entries replace = Inr (desired, deletions)"
    by (rule write_vars_Inr[OF ok])
  let ?decl = "declared_vars (pr_vars (derive_projections (t_schema t)))"
  from write_vars_spec[OF assms(1,2) dist ok t] exposed
  have i: "intended cr ?cur ?decl entries replace k = Some (q, False)" by simp
  from old obtain r where r: "var_at ?cur k = Some r" "v_sensitive r" "plaintext cr r = Inr p"
    by (auto simp: config_def split: option.splits sum.splits)
  obtain mid where f: "foldR (entry_step cr ?cur ?decl) entries ([], []) = Inr mid"
    using dv by (auto simp: desired_vars_def result_simps)
  show ?thesis
  proof (cases "map_of entries k")
    case None
    with i r show ?thesis by (auto simp: intended_def split: if_splits)
  next
    case (Some e)
    then have in_e: "(k, e) \<in> set entries" by (rule map_of_SomeD)
    show ?thesis
    proof (cases "vw_value e")
      case None
      from entry_unchanged_keeps_flag[OF f in_e None] r
      have "resolve_sensitive k e ?decl (Some r) = Inr True" by auto
      with Some None i r show ?thesis by (simp add: intended_def)
    next
      case (Some v)
      with \<open>map_of entries k = Some e\<close> i show ?thesis
        by (auto simp: intended_def Let_def split: sum.splits option.splits)
    qed
  qed
qed

lemma limit_step_Inr: "limit_step (k, p, b) n = Inr m \<longleftrightarrow> utf8_len p \<le> 8192 \<and> m = n + utf8_len p"
  by (auto simp: limit_step_def Let_def max_var_value_bytes_def)

lemma check_limits_Inr:
  assumes "check_limits ds = Inr ()"
  shows "length ds \<le> 256" "\<forall>(k, p, b) \<in> set ds. utf8_len p \<le> 8192"
    "sum_list (map (\<lambda>(k, p, b). utf8_len p) ds) \<le> 131072"
proof -
  have fold: "foldR limit_step xs n = Inr m \<Longrightarrow>
      m = n + sum_list (map (\<lambda>(k, p, b). utf8_len p) xs) \<and> (\<forall>(k, p, b) \<in> set xs. utf8_len p \<le> 8192)" for xs n m
  proof (induction xs arbitrary: n)
    case (Cons x xs)
    obtain k p b where x: "x = (k, p, b)" by (cases x)
    with Cons show ?case
      by (fastforce simp: result_simps limit_step_Inr)
  qed simp
  from assms obtain total where "foldR limit_step ds 0 = Inr total" "total \<le> 131072" "length ds \<le> 256"
    by (auto simp: check_limits_def result_simps max_vars_per_deployment_def max_vars_total_bytes_def split: if_splits)
  with fold[of ds 0 total] show "length ds \<le> 256" "\<forall>(k, p, b) \<in> set ds. utf8_len p \<le> 8192"
    "sum_list (map (\<lambda>(k, p, b). utf8_len p) ds) \<le> 131072" by auto
qed

text \<open>
  The head a write leaves is bounded: at most 256 vars, of at most 8192 bytes of UTF-8 each and
  131072 bytes in total, whatever was there before.
\<close>

theorem written_head_bounded:
  assumes "fernet_ok (cr_fernet cr)" "keyed s_id (db_vars s)" and dist: "distinct (map fst entries)"
    and ok: "write_vars jsv cr now dep actor entries replace err s = Inr s'"
    and c: "c = config cr (db_vars s') (d_id dep)"
  shows "finite (dom c) \<and> card (dom c) \<le> 256 \<and> (\<forall>k p b. c k = Some (p, b) \<longrightarrow> utf8_len p \<le> 8192) \<and>
    (\<Sum>k \<in> dom c. utf8_len (fst (the (c k)))) \<le> 131072"
proof -
  let ?cur = "head (db_vars s) (d_id dep)"
  obtain t desired deletions where t: "get_template s (d_desired_template dep) = Some t"
    and dv: "desired_vars cr ?cur (declared_vars (pr_vars (derive_projections (t_schema t)))) entries replace = Inr (desired, deletions)"
    and lim: "check_limits desired = Inr ()"
    by (rule write_vars_Inr[OF ok])
  note l = check_limits_Inr[OF lim]
  from write_vars_spec[OF assms(1,2) dist ok t] c
  have ci: "c = intended cr ?cur (declared_vars (pr_vars (derive_projections (t_schema t)))) entries replace" by simp
  note p = desired_vars_spec[OF dv dist head_keyed[OF assms(2)]]
  have vals: "c k = Some (v, b)" if "(k, v, b) \<in> set desired" for k v b
    using p(1) that ci by (auto simp: planned_def)
  have d: "dom c = fst ` set desired"
  proof
    show "fst ` set desired \<subseteq> dom c" using vals by force
    show "dom c \<subseteq> fst ` set desired"
    proof
      fix k assume "k \<in> dom c"
      then have n: "c k \<noteq> None" by auto
      then have "k \<notin> set deletions" using p(1) ci by (auto simp: planned_def)
      moreover have "k \<in> plan_keys (desired, deletions)"
      proof (rule ccontr)
        assume "k \<notin> plan_keys (desired, deletions)"
        then have "k \<notin> fst ` set entries" "var_at ?cur k = None" using p(2) by (auto simp: row_get_None_iff)
        then have "c k = None" unfolding ci by (rule intended_absent)
        with n show False by simp
      qed
      ultimately show "k \<in> fst ` set desired" by (simp add: plan_keys_def)
    qed
  qed
  have dk: "distinct (map fst desired)" using p(1) by (simp add: planned_def)
  have "card (dom c) = length desired" using d dk distinct_card[of "map fst desired"] by simp
  moreover have "utf8_len v \<le> 8192" if "c k = Some (v, b)" for k v b
  proof -
    from that d obtain v' b' where i: "(k, v', b') \<in> set desired" by force
    with vals[OF i] that l(2) show ?thesis by auto
  qed
  moreover have "(\<Sum>k \<in> dom c. utf8_len (fst (the (c k)))) = sum_list (map (\<lambda>(k, v, b). utf8_len v) desired)"
  proof -
    have "(\<Sum>k \<in> dom c. utf8_len (fst (the (c k)))) = sum_list (map (\<lambda>k. utf8_len (fst (the (c k)))) (map fst desired))"
      using dk d by (metis list.set_map sum_list_distinct_conv_sum_set)
    also have "\<dots> = sum_list (map (\<lambda>(k, v, b). utf8_len v) desired)"
      using vals by (auto simp: o_def intro!: arg_cong[where f = sum_list])
    finally show ?thesis .
  qed
  ultimately show ?thesis using l d by simp
qed

section \<open>Instances\<close>

definition demo_template :: template where
  "demo_template = \<lparr>t_id = 1, t_product = 1, t_chart_ref = ''oci://charts/wiki'', t_chart_version = ''1.0.0'',
     t_chart_digest = None, t_system_values = None, t_schema = Some demo_schema, t_deleted_at = None\<rparr>"

definition demo_dep :: deployment where
  "demo_dep = \<lparr>d_id = 7, d_user = 1, d_desired_template = 1, d_applied_template = Some 1,
     d_desired_release = 70, d_applied_release = Some 70, d_desired_power = None, d_applied_power = None,
     d_hostname = Some ''wiki-ada42.freepod.app'', d_name = ''wiki-abc123'', d_namespace = ''wiki-ada-abcdef123'',
     d_values = Some [], d_status = DReady, d_generation = 1, d_last_error = None, d_last_reconcile_at = None,
     d_created_at = 0, d_deleted_at = None, d_subscription = 1\<rparr>"

definition demo_crypto :: crypto where
  "demo_crypto = \<lparr>cr_fernet = demo_fernet, cr_ring = [(''k1'', ''k1-'')], cr_nonce = id\<rparr>"

definition accept_all :: validator where
  "accept_all = (\<lambda>_ _. Valid)"

definition demo_world :: db where
  "demo_world = empty_db\<lparr>db_users := [demo_user], db_templates := [demo_template], db_vars := [demo_var],
     db_relvars := [\<lparr>rv_release = 70, rv_var = 1\<rparr>]\<rparr>"

definition demo_set :: "string \<Rightarrow> (string \<times> var_write) list" where
  "demo_set v = [(''TOKEN'', \<lparr>vw_value = Some (Some v), vw_sensitive = None\<rparr>)]"

definition demo_new_var :: "nat \<Rightarrow> string \<Rightarrow> var_row" where
  "demo_new_var i v = demo_var\<lparr>s_id := i, s_cipher := Some (''k1-'' @ v), v_created_at := 5\<rparr>"

lemma demo_vars_projection:
  "pr_vars (derive_projections (Some demo_schema)) = Some (vars_projection demo_schema)"
  "declared_vars (Some (vars_projection demo_schema)) = [(''TOKEN'', JObj [(''type'', JStr ''string''), (''x-caelus-sensitive'', JBool True)])]"
  by (simp_all add: derive_projections_def declared_vars_def dict_or_empty_def schema_eval)

lemma demo_name: "check_var_name ''TOKEN'' = Inr ()"
proof -
  have "var_name_shape ''TOKEN''"
    by (simp add: var_name_shape_def name_start_def name_rest_def is_upper_def in_range_def cp_def)
  then show ?thesis
    by (simp add: check_var_name_ok var_name_match reserved_var_names_def reserved_var_prefixes_def starts_with_def)
qed

lemma demo_worldkeyed: "keyed s_id (db_vars demo_world)" "d_id demo_dep = 7"
  "get_template demo_world (d_desired_template demo_dep) = Some demo_template"
  "distinct (map fst (demo_set v))"
  by (simp_all add: demo_world_def empty_db_def demo_dep_def demo_template_def table_simps demo_set_def)

lemma demo_head: "head (db_vars demo_world) 7 = [demo_var]"
  by (simp add: demo_world_def empty_db_def head_def newest_ids_def demo_var_def)

lemma demo_head2:
  "head [demo_var, demo_new_var 2 v] 7 = [demo_new_var 2 v]"
  "head [demo_var, demo_new_var 2 v, demo_new_var 3 w] 7 = [demo_new_var 3 w]"
  by (simp_all add: head_def newest_ids_def demo_var_def demo_new_var_def)

lemma demo_plain: "plaintext demo_crypto demo_var = Inr ''hunter2''" "plaintext demo_crypto (demo_new_var i v) = Inr v"
  by (simp_all add: plaintext_def demo_var_def demo_new_var_def decrypt_def demo_crypto_def demo_fernet_def starts_with_def)

text \<open>The write of one value, under a template that declares the var or under an open one.\<close>

definition open_template :: template where
  "open_template = demo_template\<lparr>t_schema := Some [(vars_additional_key, JBool True)]\<rparr>"

lemma open_projection:
  "pr_vars (derive_projections (Some [(vars_additional_key, JBool True)])) =
     Some (vars_projection [(vars_additional_key, JBool True)])"
  "declared_vars (Some (vars_projection [(vars_additional_key, JBool True)])) = []"
  by (simp_all add: derive_projections_def declared_vars_def dict_or_empty_def vars_projection_def
      vars_additional_key_def obj_or_empty_def schema_required_def)

lemma demo_set_step:
  assumes "v \<noteq> ''hunter2'' \<or> \<not> b"
  shows "set_step demo_crypto 5 7 1 [demo_var] (''TOKEN'', v, b) [demo_var] =
    Inr [demo_var, demo_new_var 2 v\<lparr>v_sensitive := b\<rparr>]"
proof -
  have at: "var_at [demo_var] ''TOKEN'' = Some demo_var" "v_sensitive demo_var"
    by (simp_all add: table_simps demo_var_def)
  show ?thesis
    using assms at demo_plain(1)
    by (auto simp: set_step_def encrypt_def demo_crypto_def current_key_id_def add_var_def next_id_def demo_var_def
        demo_new_var_def demo_fernet_def)
qed

lemma demo_limits: "utf8_len v \<le> 100 \<Longrightarrow> check_limits [(k, v, b)] = Inr ()"
  by (simp add: check_limits_def limit_step_def max_var_value_bytes_def
      max_vars_total_bytes_def max_vars_per_deployment_def)

lemma demo_write:
  assumes "v \<noteq> ''hunter2''" "utf8_len v \<le> 100" "db_vars s = [demo_var]" "db_templates s = [demo_template]"
  shows "write_vars accept_all demo_crypto 5 demo_dep 1 (demo_set v) False ValidationErr s =
    Inr (s\<lparr>db_vars := [demo_var, demo_new_var 2 v]\<rparr>)"
proof -
  have d: "t_schema demo_template = Some demo_schema" by (simp add: demo_template_def)
  have g: "get_template s (d_desired_template demo_dep) = Some demo_template"
    by (simp add: assms(4) demo_dep_def demo_template_def table_simps)
  have h: "head (db_vars s) (d_id demo_dep) = [demo_var]"
    using demo_head by (simp add: assms(3) demo_dep_def demo_world_def)
  have at: "var_at [demo_var] ''TOKEN'' = Some demo_var" "v_key demo_var = ''TOKEN''"
    by (simp_all add: table_simps demo_var_def)
  have rs: "resolve_sensitive ''TOKEN'' \<lparr>vw_value = Some (Some v), vw_sensitive = None\<rparr>
      [(''TOKEN'', JObj [(''type'', JStr ''string''), (''x-caelus-sensitive'', JBool True)])] x = Inr True" for x
    by (simp add: resolve_sensitive_def get_default_def sensitive_key_def)
  have dv: "desired_vars demo_crypto [demo_var]
      [(''TOKEN'', JObj [(''type'', JStr ''string''), (''x-caelus-sensitive'', JBool True)])] (demo_set v) False =
      Inr ([(''TOKEN'', v, True)], [])"
    by (simp add: desired_vars_def demo_set_def entry_step_def demo_name rs keep_step_def at)
  have vv: "validate_vars accept_all [(''TOKEN'', v)] (Some (vars_projection demo_schema)) = Inr ()"
    by (simp add: validate_vars_def dict_or_empty_def schema_eval accept_all_def get_default_def declared_vars_def)
  have vd: "validate_document accept_all uv [(''TOKEN'', v)] (Some demo_schema) e = Inr ()" for uv e
    by (simp add: validate_document_def dict_or_empty_def demo_schema_def accept_all_def)
  have n: "demo_new_var 2 v\<lparr>v_sensitive := True\<rparr> = demo_new_var 2 v" by (simp add: demo_new_var_def demo_var_def)
  show ?thesis
    unfolding write_vars_def Let_def g h option.case d demo_vars_projection
    using demo_set_step[of v True] assms(1)
    by (simp add: dv vv vd demo_limits[OF assms(2)] n assms(3) demo_worldkeyed(2) del: demo_vars_projection One_nat_def)
qed

lemma open_write:
  assumes "utf8_len v \<le> 100" "db_vars s = [demo_var]" "db_templates s = [open_template]"
  shows "write_vars accept_all demo_crypto 5 demo_dep 1 [(''TOKEN'', \<lparr>vw_value = Some (Some v), vw_sensitive = Some False\<rparr>)]
      False ValidationErr s = Inr (s\<lparr>db_vars := [demo_var, demo_new_var 2 v\<lparr>v_sensitive := False\<rparr>]\<rparr>)"
proof -
  have d: "t_schema open_template = Some [(vars_additional_key, JBool True)]" by (simp add: open_template_def)
  have g: "get_template s (d_desired_template demo_dep) = Some open_template"
    by (simp add: assms(3) demo_dep_def open_template_def demo_template_def table_simps)
  have h: "head (db_vars s) (d_id demo_dep) = [demo_var]"
    using demo_head by (simp add: assms(2) demo_dep_def demo_world_def)
  have at: "var_at [demo_var] ''TOKEN'' = Some demo_var" "v_key demo_var = ''TOKEN''"
    by (simp_all add: table_simps demo_var_def)
  have dv: "desired_vars demo_crypto [demo_var] []
      [(''TOKEN'', \<lparr>vw_value = Some (Some v), vw_sensitive = Some False\<rparr>)] False = Inr ([(''TOKEN'', v, False)], [])"
    by (simp add: desired_vars_def entry_step_def demo_name keep_step_def at resolve_sensitive_def)
  have vv: "validate_vars accept_all [(''TOKEN'', v)] (Some (vars_projection [(vars_additional_key, JBool True)])) = Inr ()"
    by (simp add: validate_vars_def dict_or_empty_def vars_projection_def vars_additional_key_def obj_or_empty_def
        schema_required_def accept_all_def get_default_def declared_vars_def)
  have vd: "validate_document accept_all uv [(''TOKEN'', v)] (Some [(vars_additional_key, JBool True)]) e = Inr ()" for uv e
    by (simp add: validate_document_def dict_or_empty_def accept_all_def)
  show ?thesis
    unfolding write_vars_def Let_def g h option.case d open_projection
    using demo_set_step[of v False]
    by (simp add: dv vv vd demo_limits[OF assms(1)] assms(2) demo_worldkeyed(2) del: One_nat_def)
qed

lemma demo_fer: "fernet_ok (cr_fernet demo_crypto)"
  using demo_fernet_ok by (simp add: demo_crypto_def)

lemma demo_world_rows: "db_vars demo_world = [demo_var]" "db_templates demo_world = [demo_template]"
  "db_relvars demo_world = [\<lparr>rv_release = 70, rv_var = 1\<rparr>]"
  by (simp_all add: demo_world_def empty_db_def)

theorem write_vars_effect_witness:
  "config demo_crypto [demo_var, demo_new_var 2 ''swordfish''] 7 ''TOKEN'' = Some (''swordfish'', True)"
proof -
  have u: "utf8_len ''swordfish'' \<le> 100" by (simp add: utf8_len_def cp_def)
  have t: "get_template demo_world (d_desired_template demo_dep) = Some demo_template" by (rule demo_worldkeyed(3))
  note w = write_vars_effect[OF demo_fer demo_worldkeyed(1,4) demo_write[OF _ u demo_world_rows(1,2)] t refl]
  have "t_schema demo_template = Some demo_schema" by (simp add: demo_template_def)
  then have "intended demo_crypto (head (db_vars demo_world) 7)
      (declared_vars (pr_vars (derive_projections (t_schema demo_template)))) (demo_set ''swordfish'') False ''TOKEN'' =
    Some (''swordfish'', True)"
    by (simp add: intended_def demo_set_def demo_vars_projection resolve_sensitive_def get_default_def sensitive_key_def)
  then show ?thesis using w by (simp add: demo_worldkeyed(2))
qed

theorem release_snapshot_frozen_witness:
  "snapshot (demo_world\<lparr>db_relvars := [\<lparr>rv_release = 70, rv_var = 1\<rparr>, \<lparr>rv_release = 71, rv_var = 1\<rparr>,
      \<lparr>rv_release = 72, rv_var = 2\<rparr>], db_vars := [demo_var, demo_new_var 2 ''swordfish'']\<rparr>) 71 = [demo_var]"
proof -
  let ?s1 = "snapshot_release 71 7 demo_world"
  have s1: "db_vars ?s1 = [demo_var]" "db_templates ?s1 = [demo_template]"
    by (simp_all add: snapshot_release_def demo_world_rows)
  have u: "utf8_len ''swordfish'' \<le> 100" by (simp add: utf8_len_def cp_def)
  note w = demo_write[OF _ u s1]
  have fk: "\<forall>b \<in> set (db_relvars demo_world). rv_var b \<in> s_id ` set (db_vars demo_world)"
    "bound_ids demo_world 71 = []"
    by (simp_all add: demo_world_rows demo_var_def bound_ids_def)
  have h: "head (db_vars demo_world) 7 = [demo_var]" by (rule demo_head)
  then have h1: "head [demo_var] 7 = [demo_var]" by (simp only: demo_world_rows)
  have "snapshot (snapshot_release 72 (d_id demo_dep) (?s1\<lparr>db_vars := [demo_var, demo_new_var 2 ''swordfish'']\<rparr>)) 71 = [demo_var]"
    using release_snapshot_frozen[OF demo_worldkeyed(1) fk refl demo_fer demo_worldkeyed(4) w, of 72] h by simp
  moreover have "snapshot_release 72 (d_id demo_dep) (?s1\<lparr>db_vars := [demo_var, demo_new_var 2 ''swordfish'']\<rparr>) =
      demo_world\<lparr>db_relvars := [\<lparr>rv_release = 70, rv_var = 1\<rparr>, \<lparr>rv_release = 71, rv_var = 1\<rparr>,
      \<lparr>rv_release = 72, rv_var = 2\<rparr>], db_vars := [demo_var, demo_new_var 2 ''swordfish'']\<rparr>"
    by (simp add: snapshot_release_def demo_world_rows demo_worldkeyed(2) h1 demo_head2)
       (simp add: demo_new_var_def demo_var_def)
  ultimately show ?thesis by simp
qed

text \<open>A value changed and changed back.\<close>

definition reverted_world :: db where
  "reverted_world = demo_world\<lparr>db_vars := [demo_var, demo_new_var 2 ''swordfish'', demo_new_var 3 ''hunter2'']\<rparr>"

lemma pending_after_revert:
  "pending reverted_world demo_dep" "config demo_crypto (db_vars reverted_world) 7 = config demo_crypto (db_vars demo_world) 7"
proof -
  have h: "head (db_vars reverted_world) 7 = [demo_new_var 3 ''hunter2'']"
    by (simp add: reverted_world_def demo_head2)
  have b: "bound_ids reverted_world 70 = [1]" by (simp add: bound_ids_def reverted_world_def demo_world_rows)
  show "pending reverted_world demo_dep"
    using h b by (simp add: pending_def demo_dep_def demo_new_var_def)
  show "config demo_crypto (db_vars reverted_world) 7 = config demo_crypto (db_vars demo_world) 7"
    unfolding config_def h demo_head
    by (rule ext) (simp add: table_simps demo_plain, simp add: demo_new_var_def demo_var_def)
qed

theorem pending_exact_witness:
  "\<not> pending demo_world demo_dep \<and> snapshot reverted_world 70 \<noteq> head (db_vars reverted_world) 7"
proof -
  have a: "d_applied_release demo_dep = Some 70" "d_id demo_dep = 7" by (simp_all add: demo_dep_def)
  have s: "snapshot demo_world 70 = [demo_var]" "bound_ids demo_world 70 = [1]"
    by (simp_all add: snapshot_def bound_ids_def demo_world_rows demo_var_def)
  have k: "keyed s_id (db_vars reverted_world)"
    "\<forall>b \<in> set (db_relvars reverted_world). rv_var b \<in> s_id ` set (db_vars reverted_world)"
    "\<forall>b \<in> set (db_relvars demo_world). rv_var b \<in> s_id ` set (db_vars demo_world)"
    by (simp_all add: reverted_world_def demo_world_rows demo_new_var_def demo_var_def)
  show ?thesis
    using pending_exact[OF demo_worldkeyed(1) k(3) a(1)] pending_exact[OF k(1,2) a(1)] pending_after_revert(1)
      s(1) demo_head a(2) by simp
qed

theorem sensitive_values_never_read_witness:
  "read_vars demo_crypto (empty_db\<lparr>db_vars := [demo_var]\<rparr>) demo_dep =
     read_vars demo_crypto (empty_db\<lparr>db_vars := [demo_var\<lparr>s_cipher := Some ''other''\<rparr>]\<rparr>) demo_dep \<and>
   read_var demo_crypto (empty_db\<lparr>db_vars := [demo_var]\<rparr>) demo_dep ''TOKEN'' =
     read_var demo_crypto (empty_db\<lparr>db_vars := [demo_var\<lparr>s_cipher := Some ''other''\<rparr>]\<rparr>) demo_dep ''TOKEN''"
  using sensitive_values_never_read[of "[demo_var]" "[demo_var\<lparr>s_cipher := Some ''other''\<rparr>]"]
  by (simp add: blind_def demo_var_def)

theorem no_silent_exposure_witness:
  "\<exists>e. map_of [(''TOKEN'', \<lparr>vw_value = Some (Some ''public''), vw_sensitive = Some False\<rparr>)] ''TOKEN'' = Some e \<and>
     vw_value e = Some (Some ''public'')"
proof -
  let ?s = "demo_world\<lparr>db_templates := [open_template]\<rparr>"
  let ?new = "demo_new_var 2 ''public''\<lparr>v_sensitive := False\<rparr>"
  have s: "db_vars ?s = [demo_var]" "db_templates ?s = [open_template]" "keyed s_id (db_vars ?s)"
    by (simp_all add: demo_world_rows)
  have u: "utf8_len ''public'' \<le> 100" by (simp add: utf8_len_def cp_def)
  note w = open_write[OF u s(1,2)]
  have old: "config demo_crypto (db_vars ?s) (d_id demo_dep) ''TOKEN'' = Some (''hunter2'', True)"
    using demo_head by (simp add: config_def demo_worldkeyed(2) demo_plain demo_world_rows table_simps)
      (simp add: demo_var_def)
  have h: "head [demo_var, ?new] 7 = [?new]" by (simp add: head_def newest_ids_def demo_var_def demo_new_var_def)
  have p: "plaintext demo_crypto ?new = Inr ''public''"
    using demo_plain(2)[of 2 "''public''"] by (simp add: plaintext_def)
  have new: "config demo_crypto (db_vars (?s\<lparr>db_vars := [demo_var, ?new]\<rparr>)) (d_id demo_dep) ''TOKEN'' = Some (''public'', False)"
    by (simp add: config_def demo_worldkeyed(2) h p table_simps) (simp add: demo_new_var_def demo_var_def)
  show ?thesis by (rule no_silent_exposure[OF demo_fer s(3) _ w old new]) simp
qed

theorem written_head_bounded_witness:
  "card (dom (config demo_crypto [demo_var, demo_new_var 2 ''swordfish''] 7)) \<le> 256"
proof -
  have u: "utf8_len ''swordfish'' \<le> 100" by (simp add: utf8_len_def cp_def)
  show ?thesis
    using written_head_bounded[OF demo_fer demo_worldkeyed(1,4) demo_write[OF _ u demo_world_rows(1,2)] refl]
    by (simp add: demo_worldkeyed(2))
qed

end
