(* ===== verification/Retention.thy ===== *)
theory Retention
  imports Models Users "HOL-Library.Multiset"
begin

text \<open>
  Which of an owner's registry images are kept, \<^verbatim>\<open>api/app/services/image_retention.py\<close>, and the prune
  that removes the tags of the others, \<^verbatim>\<open>api/app/services/registry_prune.py\<close>. The registry is a
  parameter.
\<close>

section \<open>Image references\<close>

definition is_hex :: "char \<Rightarrow> bool" where
  "is_hex c \<longleftrightarrow> in_range (CHR ''a'') (CHR ''f'') c \<or> is_dec c"

text \<open>\<^verbatim>\<open>re.escape(owner) + r"@sha256:[a-f0-9]{64}"\<close>, matched in full\<close>

definition owner_image_re :: "nat \<Rightarrow> rx" where
  "owner_image_re owner = RSeq (rx_lit (nat_str owner @ ''@sha256:'')) (rx_exactly 64 (RCls is_hex))"

fun strings_in :: "json \<Rightarrow> string list" where
  "strings_in (JObj d) = concat (map (\<lambda>kv. strings_in (snd kv)) d)"
| "strings_in (JList xs) = concat (map strings_in xs)"
| "strings_in (JStr s) = [s]"
| "strings_in _ = []"

definition owner_images :: "nat \<Rightarrow> json \<Rightarrow> string list" where
  "owner_images owner v = remdups (filter (re_fullmatch (owner_image_re owner)) (strings_in v))"

section \<open>The stream of releases and builds\<close>

datatype reason = Applied | Desired | Earlier | FreshBuild

definition rank :: "reason \<Rightarrow> nat" where
  "rank r = (case r of Applied \<Rightarrow> 3 | Desired \<Rightarrow> 2 | Earlier \<Rightarrow> 1 | FreshBuild \<Rightarrow> 0)"

record retention =
  rt_images :: "string \<Rightarrow> reason option"
  rt_fresh :: "uuid list"
  rt_build_images :: "string \<Rightarrow> string option"

definition retains :: "retention \<Rightarrow> string \<Rightarrow> bool" where
  "retains rt img \<longleftrightarrow> rt_images rt img \<noteq> None"

definition label_image :: "reason \<Rightarrow> string \<Rightarrow> (string \<Rightarrow> reason option) \<Rightarrow> string \<Rightarrow> reason option" where
  "label_image why img images =
     (case images img of
        None \<Rightarrow> images(img \<mapsto> why)
      | Some r \<Rightarrow> if rank why > rank r then images(img \<mapsto> why) else images)"

text \<open>\<^verbatim>\<open>case when r.id = applied then 2 when r.id = desired then 1 else 0\<close>\<close>

definition current_kind :: "deployment \<Rightarrow> release \<Rightarrow> nat" where
  "current_kind d r =
     (if d_applied_release d = Some (r_id r) then 2 else if r_id r = d_desired_release d then 1 else 0)"

definition json_of :: "pydict option \<Rightarrow> json" where
  "json_of v = (case v of None \<Rightarrow> JNull | Some d \<Rightarrow> JObj d)"

text \<open>A deployment's releases, \<^verbatim>\<open>order by current desc, number desc\<close>.\<close>

definition release_stream :: "release list \<Rightarrow> deployment \<Rightarrow> (nat \<times> json) list" where
  "release_stream rels d =
     map (\<lambda>r. (current_kind d r, json_of (r_values r)))
       (sort_key (\<lambda>r. (- int (current_kind d r), - int (r_number r))) (filter (\<lambda>r. r_dep r = d_id d) rels))"

definition is_fresh_row :: "time \<Rightarrow> build \<Rightarrow> bool" where
  "is_fresh_row since b \<longleftrightarrow>
     b_status b \<in> {BQueued, BRunning} \<or>
     (b_status b = BSucceeded \<and> (case b_finished_at b of None \<Rightarrow> False | Some t \<Rightarrow> since \<le> t))"

definition grace_start :: "settings \<Rightarrow> time \<Rightarrow> time" where
  "grace_start st now = now - int (st_prune_grace st)"

definition is_fresh :: "settings \<Rightarrow> time \<Rightarrow> build \<Rightarrow> bool" where
  "is_fresh st now b = is_fresh_row (grace_start st now) b"

definition has_image :: "build \<Rightarrow> bool" where
  "has_image b \<longleftrightarrow> (case b_image b of None \<Rightarrow> False | Some i \<Rightarrow> i \<noteq> [])"

section \<open>Retention\<close>

text \<open>One deployment's group: its current images are labelled at once, earlier ones collected.\<close>

fun take_new :: "nat \<Rightarrow> string list \<Rightarrow> string list \<Rightarrow> string list \<Rightarrow> string list" where
  "take_new past current [] earlier = earlier"
| "take_new past current (i # is) earlier =
     take_new past current is
       (if i \<notin> set current \<and> i \<notin> set earlier \<and> length earlier < past then earlier @ [i] else earlier)"

fun walk_group ::
  "nat \<Rightarrow> nat \<Rightarrow> (nat \<times> json) list \<Rightarrow> string list \<Rightarrow> string list \<Rightarrow> (string \<Rightarrow> reason option) \<Rightarrow>
     string list \<times> (string \<Rightarrow> reason option)"
where
  "walk_group owner past [] current earlier images = (earlier, images)"
| "walk_group owner past ((cur, v) # rows) current earlier images =
     (let own = owner_images owner v in
      if cur \<noteq> 0
      then walk_group owner past rows (current @ own) earlier
             (fold (label_image (if cur = 2 then Applied else Desired)) own images)
      else if length earlier \<ge> past then walk_group owner past rows current earlier images
      else walk_group owner past rows current (take_new past current (sort own) earlier) images)"

definition retain_deployment ::
  "nat \<Rightarrow> nat \<Rightarrow> release list \<Rightarrow> deployment \<Rightarrow> (string \<Rightarrow> reason option) \<Rightarrow> string \<Rightarrow> reason option"
where
  "retain_deployment owner past rels d images =
     (case walk_group owner past (release_stream rels d) [] [] images of
        (earlier, images') \<Rightarrow> fold (label_image Earlier) earlier images')"

definition retain_build :: "time \<Rightarrow> build \<Rightarrow> retention \<Rightarrow> retention" where
  "retain_build since b rt =
     (let rt1 = (if has_image b then rt\<lparr>rt_build_images := (rt_build_images rt)(uuid_str (b_id b) := b_image b)\<rparr> else rt)
      in if is_fresh_row since b
         then rt1\<lparr>rt_fresh := rt_fresh rt1 @ [b_id b],
                  rt_images := (if has_image b then label_image FreshBuild (the (b_image b)) (rt_images rt1)
                                else rt_images rt1)\<rparr>
         else rt1)"

definition no_retention :: retention where
  "no_retention = \<lparr>rt_images = (\<lambda>_. None), rt_fresh = [], rt_build_images = (\<lambda>_. None)\<rparr>"

text \<open>The rows the query selects for an owner, in its order.\<close>

definition owner_deps :: "db \<Rightarrow> nat \<Rightarrow> deployment list" where
  "owner_deps s owner = sort_key d_id (filter (\<lambda>d. d_user d = owner \<and> d_deleted_at d = None) (db_deps s))"

definition owner_builds :: "db \<Rightarrow> nat \<Rightarrow> bool \<Rightarrow> time \<Rightarrow> build list" where
  "owner_builds s owner fresh_only since =
     filter (\<lambda>b. (\<exists>d \<in> set (db_deps s). d_id d = b_dep b \<and> d_user d = owner) \<and>
                 (fresh_only \<longrightarrow> is_fresh_row since b)) (db_builds s)"

definition retention_for :: "settings \<Rightarrow> time \<Rightarrow> bool \<Rightarrow> db \<Rightarrow> nat \<Rightarrow> retention" where
  "retention_for st now fresh_only s owner =
     (let since = grace_start st now;
          images = fold (retain_deployment owner (st_past_images st) (db_rels s)) (owner_deps s owner) (\<lambda>_. None)
      in fold (retain_build since) (owner_builds s owner fresh_only since) (no_retention\<lparr>rt_images := images\<rparr>))"

text \<open>What a deployment write checks, and what the prune goes by.\<close>

definition owner_retention :: "settings \<Rightarrow> time \<Rightarrow> db \<Rightarrow> nat \<Rightarrow> retention" where
  "owner_retention st now s owner = retention_for st now True s owner"

definition retentions :: "settings \<Rightarrow> time \<Rightarrow> db \<Rightarrow> nat \<Rightarrow> retention" where
  "retentions st now s owner = retention_for st now False s owner"

section \<open>The prune\<close>

text \<open>
  A registry answers for a repository's tags and digests and deletes tags; \<open>None\<close> and \<open>False\<close> are
  an \<^verbatim>\<open>httpx.HTTPError\<close>. \<open>build_id\<close> is \<^verbatim>\<open>UUID(tag)\<close>, \<open>None\<close> on its \<^verbatim>\<open>ValueError\<close>.
\<close>

record registry =
  rg_digest :: "nat \<Rightarrow> string \<Rightarrow> string option"
  rg_delete :: "nat \<Rightarrow> string \<Rightarrow> bool"

record prune_report =
  pr_kept :: "(string \<times> reason) list"
  pr_removed :: "string list"
  pr_failed :: "string list"

definition tag_image :: "registry \<Rightarrow> retention \<Rightarrow> nat \<Rightarrow> string \<Rightarrow> string option" where
  "tag_image reg rt owner tag =
     (case rt_build_images rt tag of
        Some img \<Rightarrow> Some img
      | None \<Rightarrow> map_option (\<lambda>digest. nat_str owner @ ''@'' @ digest) (rg_digest reg owner tag))"

definition prune_tag ::
  "registry \<Rightarrow> (string \<Rightarrow> uuid option) \<Rightarrow> retention \<Rightarrow> bool \<Rightarrow> nat \<Rightarrow> string \<Rightarrow> prune_report \<Rightarrow> prune_report"
where
  "prune_tag reg build_id rt dry_run owner tag rep =
     (if \<exists>b \<in> set (rt_fresh rt). build_id tag = Some b
      then rep\<lparr>pr_kept := pr_kept rep @ [(tag, FreshBuild)]\<rparr>
      else case tag_image reg rt owner tag of
        None \<Rightarrow> rep\<lparr>pr_failed := pr_failed rep @ [tag]\<rparr>
      | Some img \<Rightarrow>
          (case rt_images rt img of
             Some why \<Rightarrow> rep\<lparr>pr_kept := pr_kept rep @ [(tag, why)]\<rparr>
           | None \<Rightarrow>
               if \<not> dry_run \<and> \<not> rg_delete reg owner tag then rep\<lparr>pr_failed := pr_failed rep @ [tag]\<rparr>
               else rep\<lparr>pr_removed := pr_removed rep @ [tag]\<rparr>))"

definition prune_owner ::
  "registry \<Rightarrow> (string \<Rightarrow> uuid option) \<Rightarrow> retention \<Rightarrow> bool \<Rightarrow> nat \<Rightarrow> string list \<Rightarrow> prune_report"
where
  "prune_owner reg build_id rt dry_run owner tags =
     fold (prune_tag reg build_id rt dry_run owner) tags \<lparr>pr_kept = [], pr_removed = [], pr_failed = []\<rparr>"

section \<open>What is retained\<close>

text \<open>The distinct elements of a list in the order of their first occurrence.\<close>

function first_seen :: "'a list \<Rightarrow> 'a list" where
  "first_seen [] = []"
| "first_seen (x # xs) = x # first_seen (filter (\<lambda>y. y \<noteq> x) xs)"
  by pat_completeness auto
termination
  by (relation "measure length") (auto simp: less_Suc_eq_le)

definition current_images :: "nat \<Rightarrow> release list \<Rightarrow> deployment \<Rightarrow> string set" where
  "current_images owner rels d =
     {i. \<exists>r \<in> set rels. r_dep r = d_id d \<and> (d_applied_release d = Some (r_id r) \<or> r_id r = d_desired_release d) \<and>
         i \<in> set (owner_images owner (json_of (r_values r)))}"

text \<open>The releases that are not current, newest first.\<close>

definition past_releases :: "release list \<Rightarrow> deployment \<Rightarrow> release list" where
  "past_releases rels d =
     sort_key (\<lambda>r. - int (r_number r)) (filter (\<lambda>r. r_dep r = d_id d \<and> current_kind d r = 0) rels)"

definition earlier_images :: "nat \<Rightarrow> nat \<Rightarrow> release list \<Rightarrow> deployment \<Rightarrow> string list" where
  "earlier_images owner past rels d =
     take past (first_seen (filter (\<lambda>i. i \<notin> current_images owner rels d)
       (concat (map (\<lambda>r. sort (owner_images owner (json_of (r_values r)))) (past_releases rels d)))))"

definition collect_new :: "string set \<Rightarrow> string list \<Rightarrow> string list \<Rightarrow> string list" where
  "collect_new cur is acc = acc @ first_seen (filter (\<lambda>i. i \<notin> cur \<and> i \<notin> set acc) is)"

lemma collect_new_Nil [simp]: "collect_new cur [] acc = acc"
  by (simp add: collect_new_def)

lemma collect_new_Cons [simp]:
  "collect_new cur (i # is) acc =
     (if i \<in> cur \<or> i \<in> set acc then collect_new cur is acc else collect_new cur is (acc @ [i]))"
proof -
  have "filter (\<lambda>y. y \<noteq> i) (filter (\<lambda>y. y \<notin> cur \<and> y \<notin> set acc) is) =
      filter (\<lambda>y. y \<notin> cur \<and> y \<notin> set (acc @ [i])) is"
    unfolding filter_filter by (rule filter_cong) auto
  then show ?thesis by (auto simp: collect_new_def)
qed

lemma collect_new_append: "collect_new cur (xs @ ys) acc = collect_new cur ys (collect_new cur xs acc)"
  by (induction xs arbitrary: acc) auto

lemma collect_new_prefix: "\<exists>more. collect_new cur is acc = acc @ more"
  by (simp add: collect_new_def)

lemma take_new_collect:
  "take_new past cur is (take past acc) = take past (collect_new (set cur) is acc)"
proof (induction "is" arbitrary: acc)
  case (Cons i "is")
  consider (skip) "i \<in> set cur" | (seen) "i \<in> set acc" "i \<notin> set cur" | (fresh) "i \<notin> set acc" "i \<notin> set cur" by blast
  then show ?case
  proof cases
    case skip
    with Cons show ?thesis by simp
  next
    case seen
    have "i \<in> set (take past acc) \<or> \<not> length (take past acc) < past"
    proof (rule ccontr)
      assume n: "\<not> (i \<in> set (take past acc) \<or> \<not> length (take past acc) < past)"
      then have "length acc < past" by (simp add: min_def split: if_splits)
      then have "take past acc = acc" by simp
      with n seen show False by simp
    qed
    with Cons seen show ?thesis by auto
  next
    case fresh
    then have nt: "i \<notin> set (take past acc)" using in_set_takeD by fast
    show ?thesis
    proof (cases "length acc < past")
      case True
      then have eq: "take past acc @ [i] = take past (acc @ [i])" by simp
      have "take_new past cur (i # is) (take past acc) = take_new past cur is (take past acc @ [i])"
        using fresh nt True by simp
      also have "\<dots> = take past (collect_new (set cur) is (acc @ [i]))"
        unfolding eq by (rule Cons.IH)
      finally show ?thesis using fresh by simp
    next
      case False
      then have eq: "take past acc = take past (acc @ [i])" by simp
      have "take_new past cur (i # is) (take past acc) = take_new past cur is (take past acc)"
        using fresh nt False by simp
      also have "\<dots> = take past (collect_new (set cur) is (acc @ [i]))"
        unfolding eq by (rule Cons.IH)
      finally show ?thesis using fresh by simp
    qed
  qed
qed simp

lemma take_collect_full:
  "past \<le> length acc \<Longrightarrow> take past (collect_new cur is acc) = take past acc"
  using collect_new_prefix[of cur "is" acc] by auto

lemma walk_past:
  assumes "\<forall>(c, v) \<in> set rows. c = 0"
  shows "walk_group owner past rows current (take past acc) images =
    (take past (collect_new (set current) (concat (map (\<lambda>(c, v). sort (owner_images owner v)) rows)) acc), images)"
  using assms
proof (induction rows arbitrary: acc)
  case (Cons row rows)
  obtain v where row: "row = (0, v)" using Cons.prems by (cases row) auto
  show ?case
  proof (cases "past \<le> length (take past acc)")
    case True
    then have full: "past \<le> length acc" by simp
    have "past \<le> length (collect_new (set current) (sort (owner_images owner v)) acc)"
      using full by (simp add: collect_new_def)
    with full True row Cons.IH[of acc] Cons.prems show ?thesis
      by (simp add: Let_def collect_new_append take_collect_full)
  next
    case False
    let ?acc = "collect_new (set current) (sort (owner_images owner v)) acc"
    have "walk_group owner past (row # rows) current (take past acc) images =
        walk_group owner past rows current (take_new past current (sort (owner_images owner v)) (take past acc)) images"
      using False row by (simp add: Let_def)
    also have "\<dots> = walk_group owner past rows current (take past ?acc) images"
      by (simp only: take_new_collect)
    also have "\<dots> = (take past (collect_new (set current) (concat (map (\<lambda>(c, v). sort (owner_images owner v)) rows)) ?acc), images)"
      by (rule Cons.IH) (use Cons.prems in auto)
    finally show ?thesis by (simp add: row collect_new_append)
  qed
qed simp

lemma label_image_dom: "dom (label_image why i images) = insert i (dom images)"
  by (auto simp: label_image_def split: option.splits if_splits)

lemma fold_label_dom: "dom (fold (label_image why) is images) = set is \<union> dom images"
  by (induction "is" arbitrary: images) (auto simp: label_image_dom)

lemma walk_current:
  assumes "\<forall>(c, v) \<in> set cs. c \<noteq> 0"
  shows "\<exists>images'. walk_group owner past (cs @ rows) current earlier images =
      walk_group owner past rows (current @ concat (map (\<lambda>(c, v). owner_images owner v) cs)) earlier images' \<and>
    dom images' = dom images \<union> set (concat (map (\<lambda>(c, v). owner_images owner v) cs))"
  using assms
proof (induction cs arbitrary: current images)
  case Nil
  show ?case by (rule exI[of _ images]) simp
next
  case (Cons row cs)
  obtain c v where row: "row = (c, v)" "c \<noteq> 0" using Cons.prems by (cases row) auto
  let ?im = "fold (label_image (if c = 2 then Applied else Desired)) (owner_images owner v) images"
  from Cons.IH[of "current @ owner_images owner v" ?im] Cons.prems obtain images' where
    "walk_group owner past (cs @ rows) (current @ owner_images owner v) earlier ?im =
       walk_group owner past rows ((current @ owner_images owner v) @ concat (map (\<lambda>(c, v). owner_images owner v) cs)) earlier images'"
    "dom images' = dom ?im \<union> set (concat (map (\<lambda>(c, v). owner_images owner v) cs))" by auto
  then show ?case
    by (intro exI[of _ images']) (simp add: row Let_def fold_label_dom Un_ac)
qed

lemma sort_key_cong_on:
  assumes "\<And>x y. x \<in> set xs \<Longrightarrow> y \<in> set xs \<Longrightarrow> (f x \<le> f y) = (g x \<le> g y)"
  shows "sort_key f xs = sort_key g xs"
proof -
  have ins: "insort_key f x ys = insort_key g x ys"
    if "\<And>y. y \<in> set ys \<Longrightarrow> (f x \<le> f y) = (g x \<le> g y)" for x ys
    using that by (induction ys) auto
  have "foldr (insort_key f) ys [] = foldr (insort_key g) ys []" if "set ys \<subseteq> set xs" for ys
    using that
  proof (induction ys)
    case (Cons y ys)
    have "set (foldr (insort_key g) ys []) = set ys"
      by (induction ys) (auto simp: set_insort_key)
    with Cons show ?case by (auto intro!: ins assms)
  qed simp
  then show ?thesis by (simp add: sort_key_def)
qed

lemma sorted_key_split:
  fixes f :: "'a \<Rightarrow> 'b :: linorder"
  assumes "sorted (map f xs)" "\<And>x y. P x \<Longrightarrow> \<not> P y \<Longrightarrow> f x < f y"
  shows "xs = filter P xs @ filter (\<lambda>x. \<not> P x) xs"
  using assms(1)
proof (induction xs)
  case (Cons x xs)
  show ?case
  proof (cases "P x")
    case True
    with Cons show ?thesis by simp
  next
    case False
    have "\<not> P y" if "y \<in> set xs" for y
      using Cons.prems that assms(2)[OF _ False, of y] by fastforce
    then have "filter P xs = []" "filter (\<lambda>x. \<not> P x) xs = xs" by (auto simp: filter_empty_conv filter_id_conv)
    with False show ?thesis by simp
  qed
qed simp

lemma past_key:
  "sort_key (\<lambda>r. (- int (current_kind d r), - int (r_number r))) (filter (\<lambda>r. r_dep r = d_id d \<and> current_kind d r = 0) rels) =
   past_releases rels d"
  unfolding past_releases_def by (rule sort_key_cong_on) (auto simp: less_eq_prod_def)

lemma release_stream_split:
  "\<exists>cs. release_stream rels d = cs @ map (\<lambda>r. (0, json_of (r_values r))) (past_releases rels d) \<and>
     (\<forall>(c, v) \<in> set cs. c \<noteq> 0) \<and>
     set (concat (map (\<lambda>(c, v). owner_images owner v) cs)) = current_images owner rels d"
proof -
  let ?k = "\<lambda>r. (- int (current_kind d r), - int (r_number r))"
  let ?rs = "sort_key ?k (filter (\<lambda>r. r_dep r = d_id d) rels)"
  let ?P = "\<lambda>r. current_kind d r \<noteq> 0"
  have "?rs = filter ?P ?rs @ filter (\<lambda>r. \<not> ?P r) ?rs"
    by (rule sorted_key_split[where f = ?k]) (simp_all add: less_prod_def)
  also have "filter (\<lambda>r. \<not> ?P r) ?rs = past_releases rels d"
    by (simp add: filter_sort past_key[symmetric] conj_commute)
  finally have rs: "?rs = filter ?P ?rs @ past_releases rels d" .
  let ?row = "\<lambda>r. (current_kind d r, json_of (r_values r))"
  have "map ?row (past_releases rels d) = map (\<lambda>r. (0, json_of (r_values r))) (past_releases rels d)"
    by (auto simp: past_releases_def)
  with arg_cong[OF rs, of "map ?row"] have
    "release_stream rels d = map ?row (filter ?P ?rs) @ map (\<lambda>r. (0, json_of (r_values r))) (past_releases rels d)"
    by (simp add: release_stream_def)
  moreover have "current_kind d r \<noteq> 0 \<longleftrightarrow> d_applied_release d = Some (r_id r) \<or> r_id r = d_desired_release d" for r
    by (simp add: current_kind_def)
  then have "set (concat (map (\<lambda>(c, v). owner_images owner v) (map ?row (filter ?P ?rs)))) = current_images owner rels d"
    by (auto simp: current_images_def)
  ultimately show ?thesis by (intro exI[of _ "map ?row (filter ?P ?rs)"]) auto
qed

lemma collect_new_start: "collect_new cur is [] = first_seen (filter (\<lambda>i. i \<notin> cur) is)"
  by (simp add: collect_new_def)

lemma retain_deployment_dom:
  "dom (retain_deployment owner past rels d images) =
     dom images \<union> current_images owner rels d \<union> set (earlier_images owner past rels d)"
proof -
  obtain cs where cs: "release_stream rels d = cs @ map (\<lambda>r. (0, json_of (r_values r))) (past_releases rels d)"
    "\<forall>(c, v) \<in> set cs. c \<noteq> 0"
    "set (concat (map (\<lambda>(c, v). owner_images owner v) cs)) = current_images owner rels d"
    using release_stream_split[of rels d owner] by blast
  let ?cur = "concat (map (\<lambda>(c, v). owner_images owner v) cs)"
  let ?past = "map (\<lambda>r. (0 :: nat, json_of (r_values r))) (past_releases rels d)"
  obtain images' where w: "walk_group owner past (cs @ ?past) [] [] images = walk_group owner past ?past ?cur [] images'"
    and dom: "dom images' = dom images \<union> current_images owner rels d"
    using walk_current[OF cs(2), of owner past ?past "[]" "[]" images] cs(3) by auto
  have "walk_group owner past ?past ?cur (take past []) images' =
      (take past (collect_new (set ?cur) (concat (map (\<lambda>(c, v). sort (owner_images owner v)) ?past)) []), images')"
    by (rule walk_past) auto
  then have "walk_group owner past ?past ?cur [] images' = (earlier_images owner past rels d, images')"
    by (simp add: collect_new_start earlier_images_def cs(3) comp_def del: set_concat)
  then show ?thesis
    by (simp add: retain_deployment_def cs(1) w fold_label_dom dom Un_ac)
qed

lemma fold_deployments_dom:
  "dom (fold (retain_deployment owner past rels) ds images) =
     dom images \<union> (\<Union>d \<in> set ds. current_images owner rels d \<union> set (earlier_images owner past rels d))"
  by (induction ds arbitrary: images) (auto simp: retain_deployment_dom)

lemma retain_build_dom:
  "dom (rt_images (retain_build since b rt)) =
     dom (rt_images rt) \<union> (if is_fresh_row since b \<and> has_image b then {the (b_image b)} else {})"
  by (simp add: retain_build_def Let_def label_image_dom)

lemma retain_build_fresh:
  "set (rt_fresh (retain_build since b rt)) = set (rt_fresh rt) \<union> (if is_fresh_row since b then {b_id b} else {})"
  by (simp add: retain_build_def Let_def)

lemma fold_builds_dom:
  "dom (rt_images (fold (retain_build since) bs rt)) =
     dom (rt_images rt) \<union> {i. \<exists>b \<in> set bs. is_fresh_row since b \<and> has_image b \<and> b_image b = Some i}"
proof (induction bs arbitrary: rt)
  case (Cons b bs)
  have "(if is_fresh_row since b \<and> has_image b then {the (b_image b)} else {}) =
      {i. is_fresh_row since b \<and> has_image b \<and> b_image b = Some i}"
    by (auto simp: has_image_def split: option.splits)
  with Cons show ?case by (auto simp: retain_build_dom)
qed simp

lemma fold_builds_fresh:
  "set (rt_fresh (fold (retain_build since) bs rt)) =
     set (rt_fresh rt) \<union> {i. \<exists>b \<in> set bs. is_fresh_row since b \<and> b_id b = i}"
  by (induction bs arbitrary: rt) (auto simp: retain_build_fresh)

text \<open>The images a fresh build of the owner recorded.\<close>

definition fresh_images :: "settings \<Rightarrow> time \<Rightarrow> db \<Rightarrow> nat \<Rightarrow> string set" where
  "fresh_images st now s owner =
     {i. \<exists>b \<in> set (db_builds s). is_fresh st now b \<and> b_image b = Some i \<and> i \<noteq> [] \<and>
         (\<exists>d \<in> set (db_deps s). d_id d = b_dep b \<and> d_user d = owner)}"

definition ledger_images :: "settings \<Rightarrow> db \<Rightarrow> nat \<Rightarrow> string set" where
  "ledger_images st s owner =
     (\<Union>d \<in> {d \<in> set (db_deps s). d_user d = owner \<and> d_deleted_at d = None}.
        current_images owner (db_rels s) d \<union> set (earlier_images owner (st_past_images st) (db_rels s) d))"

lemma retention_for_dom:
  "dom (rt_images (retention_for st now fresh_only s owner)) = ledger_images st s owner \<union> fresh_images st now s owner"
proof -
  have "set (owner_deps s owner) = {d \<in> set (db_deps s). d_user d = owner \<and> d_deleted_at d = None}"
    by (auto simp: owner_deps_def)
  moreover have "{i. \<exists>b \<in> set (owner_builds s owner fresh_only (grace_start st now)).
        is_fresh_row (grace_start st now) b \<and> has_image b \<and> b_image b = Some i} = fresh_images st now s owner"
    by (auto simp: fresh_images_def owner_builds_def is_fresh_def has_image_def)
  ultimately show ?thesis
    by (simp add: retention_for_def Let_def fold_builds_dom fold_deployments_dom ledger_images_def no_retention_def)
qed

lemma retains_iff:
  "retains (retention_for st now fresh_only s owner) img \<longleftrightarrow>
     img \<in> ledger_images st s owner \<or> img \<in> fresh_images st now s owner"
  using retention_for_dom[of st now fresh_only s owner] by (auto simp: retains_def dom_def)

lemma first_seen_props: "distinct (first_seen xs) \<and> set (first_seen xs) = set xs"
  by (induction xs rule: first_seen.induct) auto

lemma earlier_images_bounded:
  "length (earlier_images owner past rels d) \<le> past" "distinct (earlier_images owner past rels d)"
  "set (earlier_images owner past rels d) \<inter> current_images owner rels d = {}"
proof -
  let ?xs = "filter (\<lambda>i. i \<notin> current_images owner rels d)
       (concat (map (\<lambda>r. sort (owner_images owner (json_of (r_values r)))) (past_releases rels d)))"
  have e: "earlier_images owner past rels d = take past (first_seen ?xs)" by (simp add: earlier_images_def)
  have f: "distinct (first_seen ?xs)" "set (first_seen ?xs) = set ?xs" using first_seen_props[of ?xs] by simp_all
  show "length (earlier_images owner past rels d) \<le> past" unfolding e by simp
  show "distinct (earlier_images owner past rels d)" unfolding e using f(1) by (rule distinct_take)
  show "set (earlier_images owner past rels d) \<inter> current_images owner rels d = {}"
    unfolding e using set_take_subset[of past "first_seen ?xs"] unfolding f(2) by auto
qed

section \<open>The prune and the ledger\<close>

text \<open>What one tag's turn adds to the report.\<close>

lemma prune_tag_removed:
  assumes "t \<in> set (pr_removed (prune_tag reg build_id rt dry_run owner tag rep))"
  shows "t \<in> set (pr_removed rep) \<or>
    (t = tag \<and> (\<forall>b \<in> set (rt_fresh rt). build_id tag \<noteq> Some b) \<and>
       (\<exists>img. tag_image reg rt owner tag = Some img \<and> \<not> retains rt img))"
  using assms by (auto simp: prune_tag_def retains_def split: if_splits option.splits)

lemma fold_prune_removed:
  assumes "t \<in> set (pr_removed (fold (prune_tag reg build_id rt dry_run owner) tags rep))"
  shows "t \<in> set (pr_removed rep) \<or>
    (t \<in> set tags \<and> (\<forall>b \<in> set (rt_fresh rt). build_id t \<noteq> Some b) \<and>
       (\<exists>img. tag_image reg rt owner t = Some img \<and> \<not> retains rt img))"
  using assms
proof (induction tags arbitrary: rep)
  case (Cons tag tags)
  then have "t \<in> set (pr_removed (prune_tag reg build_id rt dry_run owner tag rep)) \<or>
    (t \<in> set tags \<and> (\<forall>b \<in> set (rt_fresh rt). build_id t \<noteq> Some b) \<and>
       (\<exists>img. tag_image reg rt owner t = Some img \<and> \<not> retains rt img))" by simp
  then show ?case using prune_tag_removed by fastforce
qed simp

definition judged :: "prune_report \<Rightarrow> string multiset" where
  "judged rep = mset (map fst (pr_kept rep)) + mset (pr_removed rep) + mset (pr_failed rep)"

lemma prune_tag_judged:
  "judged (prune_tag reg build_id rt dry_run owner tag rep) = add_mset tag (judged rep)"
  by (simp add: judged_def prune_tag_def split: option.splits)

lemma fold_prune_judged:
  "judged (fold (prune_tag reg build_id rt dry_run owner) tags rep) = mset tags + judged rep"
  by (induction tags arbitrary: rep) (simp_all add: prune_tag_judged)

lemma build_fresh_exact:
  "set (rt_fresh (retention_for st now fresh_only s owner)) =
     {i. \<exists>b \<in> set (db_builds s). is_fresh st now b \<and> b_id b = i \<and>
           (\<exists>d \<in> set (db_deps s). d_id d = b_dep b \<and> d_user d = owner)}"
  by (auto simp: retention_for_def Let_def fold_builds_fresh no_retention_def owner_builds_def is_fresh_def)

section \<open>Properties\<close>

text \<open>
  Exactly what is retained, and that the two readers agree. An image of the owner is retained
  if and only if a live deployment of the owner has it in its applied or desired release, or among
  the newest distinct images of its other releases (at most \<^verbatim>\<open>registry_retained_past_images\<close> of them,
  none of them a current one), or a fresh build of the owner recorded it. The retention a
  deployment write checks and the one the prune goes by retain the same images and hold the same
  builds fresh, although the first reads only the fresh builds and the second reads all of them.
\<close>

theorem retention_exact:
  "(retains (owner_retention st now s owner) img \<longleftrightarrow>
      (\<exists>d \<in> set (db_deps s). d_user d = owner \<and> d_deleted_at d = None \<and>
         (img \<in> current_images owner (db_rels s) d \<or>
          img \<in> set (earlier_images owner (st_past_images st) (db_rels s) d))) \<or>
      img \<in> fresh_images st now s owner) \<and>
   length (earlier_images owner (st_past_images st) (db_rels s) d) \<le> st_past_images st \<and>
   set (earlier_images owner (st_past_images st) (db_rels s) d) \<inter> current_images owner (db_rels s) d = {} \<and>
   (retains (retentions st now s owner) img \<longleftrightarrow> retains (owner_retention st now s owner) img) \<and>
   set (rt_fresh (retentions st now s owner)) = set (rt_fresh (owner_retention st now s owner))"
  using earlier_images_bounded
  by (auto simp: owner_retention_def retentions_def retains_iff ledger_images_def build_fresh_exact)

text \<open>
  The prune removes nothing a write could still use. Every tag the prune of an owner's
  repository removes resolves to an image that the retention check of a deployment write also
  finds not retained, and names no fresh build; a tag whose image cannot be resolved is never
  removed. Every listed tag ends in exactly one of kept, removed and failed.
\<close>

theorem prune_safe:
  "(\<forall>tag. tag \<in> set (pr_removed (prune_owner reg build_id (retentions st now s owner) dry_run owner tags)) \<longrightarrow>
      tag \<in> set tags \<and>
      (\<forall>b \<in> set (db_builds s). is_fresh st now b \<longrightarrow> build_id tag = Some (b_id b) \<longrightarrow>
         (\<forall>d \<in> set (db_deps s). d_id d = b_dep b \<longrightarrow> d_user d \<noteq> owner)) \<and>
      (\<exists>img. tag_image reg (retentions st now s owner) owner tag = Some img \<and>
         \<not> retains (owner_retention st now s owner) img)) \<and>
   judged (prune_owner reg build_id (retentions st now s owner) dry_run owner tags) = mset tags"
proof (intro conjI allI impI)
  fix tag
  assume "tag \<in> set (pr_removed (prune_owner reg build_id (retentions st now s owner) dry_run owner tags))"
  then have r: "tag \<in> set tags" "\<forall>b \<in> set (rt_fresh (retentions st now s owner)). build_id tag \<noteq> Some b"
    "\<exists>img. tag_image reg (retentions st now s owner) owner tag = Some img \<and> \<not> retains (retentions st now s owner) img"
    using fold_prune_removed unfolding prune_owner_def by fastforce+
  from r(1) show "tag \<in> set tags" .
  from r(3) show "\<exists>img. tag_image reg (retentions st now s owner) owner tag = Some img \<and>
      \<not> retains (owner_retention st now s owner) img"
    by (auto simp: owner_retention_def retentions_def retains_iff)
  from r(2) show "\<forall>b \<in> set (db_builds s). is_fresh st now b \<longrightarrow> build_id tag = Some (b_id b) \<longrightarrow>
      (\<forall>d \<in> set (db_deps s). d_id d = b_dep b \<longrightarrow> d_user d \<noteq> owner)"
    by (auto simp: retentions_def build_fresh_exact)
qed (simp add: prune_owner_def fold_prune_judged, simp add: judged_def)

section \<open>Witnesses\<close>

definition kept_build :: build where
  "kept_build = \<lparr>b_id = 5, b_dep = 7, b_artifact = ''a'', b_status = BSucceeded, b_created_at = 0,
     b_started_at = Some 0, b_finished_at = Some 50, b_job_id = None, b_image = Some ''1@new'', b_log = []\<rparr>"

definition kept_dep :: deployment where
  "kept_dep = \<lparr>d_id = 7, d_user = 1, d_desired_template = 3, d_applied_template = None, d_desired_release = 11,
     d_applied_release = None, d_desired_power = None, d_applied_power = None, d_hostname = None, d_name = ''app'',
     d_namespace = ''ns'', d_values = None, d_status = DReady, d_generation = 1, d_last_error = None,
     d_last_reconcile_at = None, d_created_at = 0, d_deleted_at = None, d_subscription = 1\<rparr>"

definition kept_db :: db where
  "kept_db = empty_db\<lparr>db_deps := [kept_dep], db_builds := [kept_build]\<rparr>"

definition demo_registry :: registry where
  "demo_registry = \<lparr>rg_digest = (\<lambda>_ t. if t = ''old'' then Some ''gone'' else if t = ''latest'' then Some ''new'' else None),
     rg_delete = (\<lambda>_ _. True)\<rparr>"

lemma uuid_five: "uuid_str 5 = ''00000000-0000-0000-0000-000000000005''"
  by code_simp

lemma owner_one: "nat_str 1 = ''1''"
  by code_simp

lemma kept_retentions:
  "retentions demo_settings 100 kept_db 1 =
     \<lparr>rt_images = (\<lambda>_. None)(''1@new'' \<mapsto> FreshBuild), rt_fresh = [5], rt_build_images = (\<lambda>_. None)(uuid_str 5 \<mapsto> ''1@new'')\<rparr>"
  by (simp add: retentions_def retention_for_def Let_def grace_start_def demo_settings_def owner_deps_def kept_db_def
      empty_db_def kept_dep_def kept_build_def retain_deployment_def release_stream_def owner_builds_def no_retention_def
      retain_build_def is_fresh_row_def has_image_def label_image_def)

lemma prune_safe_witness:
  "tag_image demo_registry (retentions demo_settings 100 kept_db 1) 1 ''old'' = Some ''1@gone'' \<and>
   \<not> retains (owner_retention demo_settings 100 kept_db 1) ''1@gone''"
proof -
  have "''old'' \<in> set (pr_removed (prune_owner demo_registry (\<lambda>_. None) (retentions demo_settings 100 kept_db 1) False 1
      [''latest'', ''old'', ''odd'']))"
    by (simp add: prune_owner_def prune_tag_def kept_retentions tag_image_def demo_registry_def uuid_five owner_one del: One_nat_def)
  then have "\<exists>img. tag_image demo_registry (retentions demo_settings 100 kept_db 1) 1 ''old'' = Some img \<and>
      \<not> retains (owner_retention demo_settings 100 kept_db 1) img"
    using prune_safe[of demo_registry "\<lambda>_. None" demo_settings 100 kept_db 1 False "[''latest'', ''old'', ''odd'']"]
    by blast
  moreover have "tag_image demo_registry (retentions demo_settings 100 kept_db 1) 1 ''old'' = Some ''1@gone''"
    by (simp add: kept_retentions tag_image_def demo_registry_def uuid_five owner_one del: One_nat_def)
  ultimately show ?thesis by simp
qed

lemma retention_exact_witness:
  "retains (owner_retention demo_settings 100 kept_db 1) ''1@new''"
proof -
  have "''1@new'' \<in> fresh_images demo_settings 100 kept_db 1"
    by (simp add: fresh_images_def is_fresh_def is_fresh_row_def grace_start_def demo_settings_def kept_db_def empty_db_def
        kept_build_def kept_dep_def)
  then show ?thesis using retention_exact[of demo_settings 100 kept_db 1 "''1@new''" kept_dep] by blast
qed

end
