(* ===== verification/Deployments.thy ===== *)
theory Deployments
  imports HostnamePaths Naming Vars Retention
begin

text \<open>
  Deployments, \<^verbatim>\<open>api/app/services/deployments.py\<close>: creation, update, deletion, and the reads of the
  release ledger, with the subscription row creation starts
  (\<^verbatim>\<open>services/subscriptions.py: create_subscription\<close>). Each operation is one transaction over the
  database of \<open>Models\<close>; one that raises leaves no trace, which \<open>attempt\<close> of \<open>Interfaces\<close> expresses.
\<close>

section \<open>What the operations are given\<close>

text \<open>
  The parameters of a request: settings, DNS, the JSON schema validator, encryption, the clock,
  Python's \<^verbatim>\<open>str\<close> on values that are not strings, the random numbers of each naming attempt, and
  the two fresh \<^verbatim>\<open>uuid4\<close> values.
\<close>

record env =
  e_settings :: settings
  e_dns :: dns
  e_jsv :: validator
  e_crypto :: crypto
  e_now :: time
  e_str :: "json \<Rightarrow> string"
  e_name_rnd :: "nat \<Rightarrow> nat"
  e_ns_rnd :: "nat \<Rightarrow> nat \<Rightarrow> nat"
  e_dep_id :: uuid
  e_rel_id :: uuid

text \<open>The payment provider; a refusal of its API raises. \<open>e_urls\<close> of a payment are \<^verbatim>\<open>amend_url\<close>'s.\<close>

record first_payment =
  fp_customer :: string
  fp_amount :: int
  fp_description :: string
  fp_key :: string

record payment_provider =
  pv_customer :: "string \<Rightarrow> string \<Rightarrow> string result"
  pv_first :: "first_payment \<Rightarrow> (string \<times> string) result"

record dep_create =
  dc_user :: user_id
  dc_template :: nat
  dc_values :: pydict
  dc_plan_template :: nat
  dc_build :: "uuid option"
  dc_vars :: "(string \<times> var_write) list"

text \<open>\<open>du_build\<close> is three-valued: \<open>None\<close> is an omitted field, \<open>Some None\<close> an explicit null.\<close>

record dep_update =
  du_id :: uuid
  du_user :: "user_id option"
  du_template :: nat
  du_values :: "pydict option"
  du_build :: "uuid option option"
  du_vars :: "(string \<times> var_write) list"

section \<open>Checks\<close>

definition get_deployment_orm :: "db \<Rightarrow> user_id option \<Rightarrow> uuid \<Rightarrow> deployment result" where
  "get_deployment_orm s user i =
     (case get_dep s i of
        Some d \<Rightarrow> if user = None \<or> user = Some (d_user d) then Inr d else Inl (NotFoundErr ''Deployment not found'')
      | None \<Rightarrow> Inl (NotFoundErr ''Deployment not found''))"

definition readable_deployment :: "db \<Rightarrow> user_id option \<Rightarrow> uuid \<Rightarrow> deployment result" where
  "readable_deployment s user i =
     bindR (get_deployment_orm s user i) (\<lambda>d.
       if d_status d = DDeleted then Inl (NotFoundErr ''Deployment not found'') else Inr d)"

definition validate_build_reference :: "db \<Rightarrow> uuid option \<Rightarrow> uuid option \<Rightarrow> unit result" where
  "validate_build_reference s dep build_id =
     (case build_id of None \<Rightarrow> Inr ()
      | Some b \<Rightarrow>
          (case get_build s b of
             Some build \<Rightarrow> guardR (dep = Some (b_dep build)) (ValidationErr ''Unknown build'')
           | None \<Rightarrow> Inl (ValidationErr ''Unknown build'')))"

definition release_images :: "nat \<Rightarrow> release option \<Rightarrow> string list" where
  "release_images owner r = (case r of None \<Rightarrow> [] | Some rel \<Rightarrow> owner_images owner (json_of (r_values rel)))"

text \<open>
  The images a write references that nothing it already runs accounts for: those of the values and,
  for a build that is not fresh, the build's; without those of the current releases and of a fresh
  build.
\<close>

definition unknown_images ::
  "settings \<Rightarrow> time \<Rightarrow> db \<Rightarrow> user_id \<Rightarrow> build option \<Rightarrow> pydict option \<Rightarrow> deployment option \<Rightarrow> string list"
where
  "unknown_images st now s owner build values dep =
     (let current = (case dep of None \<Rightarrow> []
                     | Some d \<Rightarrow> release_images owner (get_rel s (d_desired_release d)) @
                                 release_images owner (via (get_rel s) (d_applied_release d)));
          referenced = owner_images owner (json_of values);
          (referenced', current') =
            (case build of
               Some b \<Rightarrow> if \<not> has_image b then (referenced, current)
                         else if is_fresh st now b then (referenced, current @ [the (b_image b)])
                         else (referenced @ [the (b_image b)], current)
             | None \<Rightarrow> (referenced, current))
      in filter (\<lambda>i. i \<notin> set current') referenced')"

definition validate_retained_images ::
  "settings \<Rightarrow> time \<Rightarrow> db \<Rightarrow> user_id \<Rightarrow> uuid option \<Rightarrow> pydict option \<Rightarrow> deployment option \<Rightarrow> unit result"
where
  "validate_retained_images st now s owner build_id values dep =
     (let build = via (get_build s) build_id; unknown = unknown_images st now s owner build values dep
      in if unknown = [] then Inr ()
         else let rt = owner_retention st now s owner
              in if \<exists>b i. build = Some b \<and> b_image b = Some i \<and> i \<in> set unknown \<and> \<not> retains rt i
                 then Inl (CodedValidationErr ''image_not_retained'' ''build'')
                 else if \<exists>i \<in> set unknown. \<not> retains rt i
                 then Inl (CodedValidationErr ''image_not_retained'' ''values'')
                 else Inr ())"

definition contains_string :: "pydict option \<Rightarrow> string \<Rightarrow> bool" where
  "contains_string values needle \<longleftrightarrow> needle \<in> set (strings_in (json_of values))"

definition release_build_id :: "db \<Rightarrow> deployment \<Rightarrow> dep_update \<Rightarrow> pydict option \<Rightarrow> uuid option" where
  "release_build_id s d up values =
     (case du_build up of
        Some b \<Rightarrow> b
      | None \<Rightarrow>
          (case via (get_build s) (Option.bind (via (get_rel s) (d_applied_release d)) r_build) of
             None \<Rightarrow> None
           | Some build \<Rightarrow>
               if has_image build \<and> contains_string values (the (b_image build)) then Some (b_id build) else None))"

text \<open>\<^verbatim>\<open>(max(number) or 0) + 1\<close> over the deployment's releases\<close>

definition next_release_number :: "db \<Rightarrow> uuid \<Rightarrow> nat" where
  "next_release_number s dep = Suc (foldr max (map r_number (filter (\<lambda>r. r_dep r = dep) (db_rels s))) 0)"

definition validate_plan_template :: "db \<Rightarrow> nat \<Rightarrow> nat \<Rightarrow> plan_template result" where
  "validate_plan_template s i product_id =
     (case get_plan_template s i of
        None \<Rightarrow> Inl (ValidationErr ''Plan template version not found or deleted'')
      | Some ptv \<Rightarrow>
          if pt_deleted_at ptv \<noteq> None then Inl (ValidationErr ''Plan template version not found or deleted'')
          else (case get_plan s (pt_plan ptv) of
                  None \<Rightarrow> Inl (PyValueError ''AttributeError'')
                | Some p \<Rightarrow>
                    if pl_product p \<noteq> product_id then Inl (ValidationErr ''Plan template does not belong to this product'')
                    else if pl_template_id p \<noteq> Some (pt_id ptv)
                    then Inl (ValidationErr ''Plan template is not the current canonical version for its plan'')
                    else Inr ptv))"

definition namespace_attempts :: nat where "namespace_attempts = 5"

fun allocate_namespace :: "nat \<Rightarrow> nat \<Rightarrow> (nat \<Rightarrow> nat \<Rightarrow> nat) \<Rightarrow> db \<Rightarrow> string \<Rightarrow> string \<Rightarrow> string result" where
  "allocate_namespace i 0 rnd s product_name email =
     Inl (CaelusErr ''could not allocate a free deployment namespace'')"
| "allocate_namespace i (Suc n) rnd s product_name email =
     bindR (generate_deployment_namespace (rnd i) product_name email None) (\<lambda>candidate.
       if \<forall>d \<in> set (db_deps s). d_namespace d \<noteq> candidate then Inr candidate
       else allocate_namespace (Suc i) n rnd s product_name email)"

section \<open>Subscriptions\<close>

definition create_subscription :: "nat \<Rightarrow> user_id \<Rightarrow> payment_status \<Rightarrow> db \<Rightarrow> (subscription \<times> db) result" where
  "create_subscription plan_template_id user payment s =
     (case get_plan_template s plan_template_id of
        None \<Rightarrow> Inl (ValidationErr ''Plan template version not found or deleted'')
      | Some tmpl \<Rightarrow>
          if pt_deleted_at tmpl \<noteq> None then Inl (ValidationErr ''Plan template version not found or deleted'')
          else let sub = \<lparr>sub_id = next_id sub_id (db_subs s), sub_plan_template = plan_template_id, sub_user = user,
                          sub_status = SubActive, sub_payment = payment, sub_cancelled_at = None,
                          sub_mollie_id = None, sub_mandate = None\<rparr>
               in Inr (sub, s\<lparr>db_subs := db_subs s @ [sub]\<rparr>))"

section \<open>The first payment\<close>

definition payment_description :: "db \<Rightarrow> nat \<Rightarrow> uuid \<Rightarrow> string result" where
  "payment_description s sub dep =
     (case Option.bind (get_sub s sub) (\<lambda>x. Option.bind (get_plan_template s (sub_plan_template x)) (\<lambda>ptv. get_plan s (pt_plan ptv))) of
        None \<Rightarrow> Inl (PyValueError ''AttributeError'')
      | Some p \<Rightarrow>
          (case get_product s (pl_product p) of
             None \<Rightarrow> Inl (PyValueError ''AttributeError'')
           | Some prd \<Rightarrow> Inr (p_name prd @ '' -- '' @ pl_name p @ '' (instance '' @ uuid_str dep @ '')'')))"

definition ensure_customer :: "payment_provider \<Rightarrow> user \<Rightarrow> uuid \<Rightarrow> db \<Rightarrow> (string \<times> db) result" where
  "ensure_customer pv u dep s =
     (case u_customer u of
        Some (c # cs) \<Rightarrow> Inr (c # cs, s)
      | _ \<Rightarrow> bindR (pv_customer pv (u_email u) (''customer_'' @ uuid_str dep)) (\<lambda>c.
               Inr (c, s\<lparr>db_users := row_upd u_id (u_id u) (\<lambda>x. x\<lparr>u_customer := Some c\<rparr>) (db_users s)\<rparr>)))"

definition start_payment :: "payment_provider \<Rightarrow> user \<Rightarrow> plan_template \<Rightarrow> nat \<Rightarrow> uuid \<Rightarrow> db \<Rightarrow> (string \<times> db) result" where
  "start_payment pv u ptv sub dep s =
     bindR (ensure_customer pv u dep s) (\<lambda>(customer, s1).
     bindR (payment_description s1 sub dep) (\<lambda>desc.
     bindR (pv_first pv \<lparr>fp_customer = customer, fp_amount = pt_price_cents ptv, fp_description = desc,
                         fp_key = ''first_payment_'' @ uuid_str dep\<rparr>) (\<lambda>(payment_id, url).
       Inr (url, s1\<lparr>db_payments := db_payments s1 @
              [\<lparr>mp_sub = sub, mp_mollie_id = payment_id, mp_status = MOpen, mp_sequence = ''first'',
                mp_amount_cents = pt_price_cents ptv\<rparr>]\<rparr>))))"

section \<open>Creation\<close>

text \<open>\<^verbatim>\<open>JobService(session).enqueue_job\<close> on the job table of the database.\<close>

definition request_reconcile :: "time \<Rightarrow> job_reason \<Rightarrow> uuid \<Rightarrow> db \<Rightarrow> db result" where
  "request_reconcile now why dep s =
     bindR (map_sum id snd (enqueue_job (known_dep s) now why None dep (db_jobs s))) (\<lambda>jt. Inr (s\<lparr>db_jobs := jt\<rparr>))"

text \<open>The commit of a creation turns an integrity error into the service's own.\<close>

definition flush_or :: "string \<Rightarrow> db \<Rightarrow> db result" where
  "flush_or m s = (if constraints s then Inr s else Inl (IntegrityErr m))"

text \<open>What is checked before anything is written: the user, the template, the plan and the completed values.\<close>

definition check_create ::
  "env \<Rightarrow> dep_create \<Rightarrow> db \<Rightarrow> (user \<times> product \<times> plan_template \<times> string option \<times> pydict option) result"
where
  "check_create env p s =
     (case get_user s (dc_user p) of None \<Rightarrow> Inl (NotFoundErr ''User not found'')
      | Some u \<Rightarrow> if u_deleted_at u \<noteq> None then Inl (NotFoundErr ''User not found'') else
     (case get_template s (dc_template p) of None \<Rightarrow> Inl (NotFoundErr ''Template not found'')
      | Some t \<Rightarrow>
     (case get_product s (t_product t) of None \<Rightarrow> Inl (PyValueError ''AttributeError'')
      | Some prd \<Rightarrow>
        if p_template_id prd \<noteq> Some (t_id t)
        then Inl (IntegrityErr ''Template is not the current canonical for this product'')
        else if u_handle u = None
        then Inl (CodedValidationErr ''handle_required'' ''A handle must be claimed before deploying'')
        else
          bindR (normalize_hostname (e_str env)
                   (require_valid_hostname (e_dns env) (e_settings env) (db_deps s) (u_handle u) None)
                   (t_schema t) (Some (dc_values p))) (\<lambda>(hostname, values).
          bindR (validate_user_values (e_jsv env) values (t_schema t)) (\<lambda>_.
          bindR (validate_plan_template s (dc_plan_template p) (t_product t)) (\<lambda>ptv.
            if u_tos_version u = None
            then Inl (ValidationErr ''Terms of Service must be accepted before deploying'')
            else
              bindR (validate_build_reference s None (dc_build p)) (\<lambda>_.
              bindR (validate_retained_images (e_settings env) (e_now env) s (dc_user p) None values None) (\<lambda>_.
                Inr (u, prd, ptv, hostname, values)))))))))"

definition new_deployment :: "env \<Rightarrow> dep_create \<Rightarrow> string \<Rightarrow> string \<Rightarrow> string option \<Rightarrow> pydict option \<Rightarrow> bool \<Rightarrow> nat \<Rightarrow> deployment" where
  "new_deployment env p name ns hostname values is_paid sub =
     \<lparr>d_id = e_dep_id env, d_user = dc_user p, d_desired_template = dc_template p, d_applied_template = None,
      d_desired_release = e_rel_id env, d_applied_release = None, d_desired_power = None, d_applied_power = None,
      d_hostname = hostname, d_name = name, d_namespace = ns, d_values = values,
      d_status = (if is_paid then DPending else DProvisioning), d_generation = 1, d_last_error = None,
      d_last_reconcile_at = None, d_created_at = e_now env, d_deleted_at = None, d_subscription = sub\<rparr>"

definition new_release :: "env \<Rightarrow> nat \<Rightarrow> uuid \<Rightarrow> nat \<Rightarrow> uuid option \<Rightarrow> pydict option \<Rightarrow> release" where
  "new_release env number dep template_id build values =
     \<lparr>r_id = e_rel_id env, r_number = number, r_dep = dep, r_template = template_id, r_build = build,
      r_values = values, r_created_at = e_now env, r_started_at = None, r_ended_at = None, r_error = None,
      r_helm_revision = None\<rparr>"

text \<open>The deployment, its first release, its vars and their snapshot, before payment.\<close>

definition insert_deployment ::
  "env \<Rightarrow> dep_create \<Rightarrow> user \<Rightarrow> product \<Rightarrow> string option \<Rightarrow> pydict option \<Rightarrow> bool \<Rightarrow> db \<Rightarrow> (nat \<times> db) result"
where
  "insert_deployment env p u prd hostname values is_paid s =
     bindR (create_subscription (dc_plan_template p) (dc_user p) (if is_paid then PayPending else PayCurrent) s) (\<lambda>(sub, s1).
     bindR (generate_deployment_name (e_name_rnd env) (p_name prd) None) (\<lambda>name.
     bindR (allocate_namespace 0 namespace_attempts (e_ns_rnd env) s1 (p_name prd) (u_email u)) (\<lambda>ns.
       let d = new_deployment env p name ns hostname values is_paid (sub_id sub) in
       bindR (flush (s1\<lparr>db_deps := db_deps s1 @ [d],
                        db_rels := db_rels s1 @ [new_release env 1 (d_id d) (dc_template p) (dc_build p) values]\<rparr>)) (\<lambda>s2.
       bindR (write_vars (e_jsv env) (e_crypto env) (e_now env) d (u_id u) (dc_vars p) False IntegrityErr s2) (\<lambda>s3.
         Inr (sub_id sub, snapshot_release (e_rel_id env) (e_dep_id env) s3))))))"

definition create_deployment ::
  "env \<Rightarrow> payment_provider option \<Rightarrow> dep_create \<Rightarrow> db \<Rightarrow> (string option \<times> db) result"
where
  "create_deployment env pv p s =
     bindR (check_create env p s) (\<lambda>(u, prd, ptv, hostname, values).
       let is_paid = pv \<noteq> None \<and> pt_price_cents ptv > 0 in
       bindR (insert_deployment env p u prd hostname values is_paid s) (\<lambda>(sub, s1).
         if is_paid
         then bindR (start_payment (the pv) u ptv sub (e_dep_id env) s1) (\<lambda>(url, s2).
              bindR (flush_or ''Deployment already exists'' s2) (\<lambda>s3. Inr (Some url, s3)))
         else bindR (flush_or ''Deployment already exists'' s1) (\<lambda>s2.
              bindR (request_reconcile (e_now env) ForCreate (e_dep_id env) s2) (\<lambda>s3. Inr (None, s3)))))"

section \<open>Update\<close>

text \<open>What is checked before the guarded \<^verbatim>\<open>UPDATE\<close>; the result is what the update will store.\<close>

definition check_update ::
  "env \<Rightarrow> dep_update \<Rightarrow> deployment \<Rightarrow> db \<Rightarrow> (string option \<times> pydict option \<times> uuid option) result"
where
  "check_update env up d s =
     (if du_template up < d_desired_template d
      then Inl (IntegrityErr ''Can only upgrade to newer versions, not downgrade'') else
     (case get_template s (du_template up) of None \<Rightarrow> Inl (NotFoundErr ''Template not found'')
      | Some target \<Rightarrow>
        if (case get_template s (d_desired_template d) of None \<Rightarrow> False | Some cur \<Rightarrow> t_product target \<noteq> t_product cur)
        then Inl (IntegrityErr ''Upgrade template must belong to the same product'')
        else
          bindR (normalize_hostname (e_str env)
                   (require_valid_hostname (e_dns env) (e_settings env) (db_deps s)
                      (Option.bind (get_user s (d_user d)) u_handle) (Some (d_id d)))
                   (t_schema target) (case du_values up of Some v \<Rightarrow> Some v | None \<Rightarrow> d_values d)) (\<lambda>(hostname, values).
          bindR (validate_user_values (e_jsv env) values (t_schema target)) (\<lambda>_.
          bindR (validate_build_reference s (Some (d_id d)) (Option.bind (du_build up) id)) (\<lambda>_.
          bindR (validate_retained_images (e_settings env) (e_now env) s (d_user d) (Option.bind (du_build up) id) values (Some d)) (\<lambda>_.
            Inr (hostname, values, release_build_id s d up values)))))))"

definition roll_out :: "dep_update \<Rightarrow> uuid \<Rightarrow> string option \<Rightarrow> pydict option \<Rightarrow> deployment \<Rightarrow> deployment" where
  "roll_out up rel hostname values d =
     d\<lparr>d_desired_template := du_template up, d_values := values, d_hostname := hostname, d_status := DProvisioning,
       d_desired_release := rel, d_generation := Suc (d_generation d), d_last_error := None\<rparr>"

text \<open>The guarded \<^verbatim>\<open>UPDATE\<close> and everything after it, in one transaction.\<close>

definition apply_update ::
  "env \<Rightarrow> dep_update \<Rightarrow> deployment \<Rightarrow> string option \<Rightarrow> pydict option \<Rightarrow> uuid option \<Rightarrow> db \<Rightarrow> db result"
where
  "apply_update env up d hostname values build s =
     (if d_status d \<notin> {DReady, DError} then Inl (IntegrityErr ''Deployment is not in ready state'')
      else
        bindR (flush (s\<lparr>db_deps := row_upd d_id (d_id d) (roll_out up (e_rel_id env) hostname values) (db_deps s),
                        db_rels := db_rels s @ [new_release env (next_release_number s (d_id d)) (d_id d)
                                                  (du_template up) build values]\<rparr>)) (\<lambda>s3.
        bindR (write_vars (e_jsv env) (e_crypto env) (e_now env) (roll_out up (e_rel_id env) hostname values d)
                 (d_user d) (du_vars up) False IntegrityErr s3) (\<lambda>s4.
        bindR (request_reconcile (e_now env) ForUpdate (d_id d) (snapshot_release (e_rel_id env) (d_id d) s4)) flush)))"

definition update_deployment :: "env \<Rightarrow> dep_update \<Rightarrow> db \<Rightarrow> db result" where
  "update_deployment env up s =
     bindR (get_deployment_orm s (du_user up) (du_id up)) (\<lambda>d.
     bindR (check_update env up d s) (\<lambda>(hostname, values, build).
       apply_update env up d hostname values build s))"

section \<open>Deletion\<close>

definition mark_deleting :: "time \<Rightarrow> deployment \<Rightarrow> deployment" where
  "mark_deleting now d =
     d\<lparr>d_status := DDeleting, d_generation := Suc (d_generation d), d_last_error := None, d_deleted_at := Some now\<rparr>"

definition delete_deployment :: "time \<Rightarrow> user_id \<Rightarrow> uuid \<Rightarrow> db \<Rightarrow> db result" where
  "delete_deployment now user i s =
     bindR (get_deployment_orm s (Some user) i) (\<lambda>d.
       if d_status d \<in> {DDeleting, DDeleted} then Inr s
       else bindR (request_reconcile now ForDelete i (s\<lparr>db_deps := row_upd d_id i (mark_deleting now) (db_deps s)\<rparr>)) flush)"

section \<open>Reads\<close>

definition list_deployments :: "user_id option \<Rightarrow> db \<Rightarrow> deployment list" where
  "list_deployments user s =
     filter (\<lambda>d. d_status d \<noteq> DDeleted \<and> (user = None \<or> user = Some (d_user d))) (db_deps s)"

definition get_deployment :: "crypto \<Rightarrow> user_id option \<Rightarrow> uuid \<Rightarrow> db \<Rightarrow> (deployment \<times> vars_read) result" where
  "get_deployment cr user i s =
     bindR (readable_deployment s user i) (\<lambda>d. bindR (read_vars cr s d) (\<lambda>v. Inr (d, v)))"

definition list_releases :: "user_id option \<Rightarrow> uuid \<Rightarrow> db \<Rightarrow> (release \<times> build option) list result" where
  "list_releases user i s =
     bindR (readable_deployment s user i) (\<lambda>_.
       Inr (map (\<lambda>r. (r, via (get_build s) (r_build r)))
              (sort_key (\<lambda>r. - int (r_number r)) (filter (\<lambda>r. r_dep r = i) (db_rels s)))))"

definition get_release ::
  "crypto \<Rightarrow> user_id option \<Rightarrow> uuid \<Rightarrow> nat \<Rightarrow> db \<Rightarrow> (release \<times> build option \<times> (string \<times> var_read) list) result"
where
  "get_release cr user i number s =
     bindR (readable_deployment s user i) (\<lambda>_.
       case find (\<lambda>r. r_dep r = i \<and> r_number r = number) (db_rels s) of
         None \<Rightarrow> Inl (NotFoundErr ''Release not found'')
       | Some r \<Rightarrow> bindR (read_snapshot cr s (r_id r)) (\<lambda>vs. Inr (r, via (get_build s) (r_build r), vs)))"

section \<open>The effect of each operation on the tables\<close>

lemma write_vars_frame:
  assumes "write_vars jsv cr now dep actor entries replace err s = Inr s'"
  obtains vs where "s' = s\<lparr>db_vars := vs\<rparr>"
  using write_vars_Inr[OF assms] by metis

lemma request_reconcile_Inr:
  "request_reconcile now why dep s = Inr s' \<longleftrightarrow>
     (\<exists>j jt. enqueue_job (known_dep s) now why None dep (db_jobs s) = Inr (j, jt) \<and> s' = s\<lparr>db_jobs := jt\<rparr>)"
  by (cases "enqueue_job (known_dep s) now why None dep (db_jobs s)") (auto simp: request_reconcile_def)

lemma request_reconcile_open:
  assumes "request_reconcile now why dep s = Inr s'"
  shows "open_job_for (db_jobs s') e \<longleftrightarrow> open_job_for (db_jobs s) e \<or> e = dep"
    "jobs_wf (db_jobs s) \<Longrightarrow> jobs_wf (db_jobs s')" "\<not> open_job_for (db_jobs s) dep"
proof -
  obtain j jt where j: "enqueue_job (known_dep s) now why None dep (db_jobs s) = Inr (j, jt)"
    "s' = s\<lparr>db_jobs := jt\<rparr>" using assms request_reconcile_Inr by blast
  have q: "map_sum id snd (enqueue_job (known_dep s) now why None dep (db_jobs s)) = Inr (db_jobs s')"
    using j by simp
  show "open_job_for (db_jobs s') e \<longleftrightarrow> open_job_for (db_jobs s) e \<or> e = dep"
    by (rule jobq.enqueue_opens[OF q])
  show "jobs_wf (db_jobs s) \<Longrightarrow> jobs_wf (db_jobs s')" by (rule jobq.enqueue_inv[OF _ q])
  show "\<not> open_job_for (db_jobs s) dep" using j(1) by (simp add: enqueue_job_Inr)
qed

lemma get_deployment_orm_Inr [result_simps]:
  "get_deployment_orm s user i = Inr d \<longleftrightarrow> get_dep s i = Some d \<and> (user = None \<or> user = Some (d_user d))"
  by (auto simp: get_deployment_orm_def split: option.splits)

lemma flush_or_Inr [result_simps]: "flush_or m s = Inr t \<longleftrightarrow> constraints s \<and> t = s"
  by (auto simp: flush_or_def)

lemma roll_out_simps [simp]:
  "d_id (roll_out up rel h v d) = d_id d" "d_user (roll_out up rel h v d) = d_user d"
  "d_namespace (roll_out up rel h v d) = d_namespace d" "d_applied_release (roll_out up rel h v d) = d_applied_release d"
  "d_desired_release (roll_out up rel h v d) = rel" "d_status (roll_out up rel h v d) = DProvisioning"
  "d_deleted_at (roll_out up rel h v d) = d_deleted_at d" "d_hostname (roll_out up rel h v d) = h"
  "d_values (roll_out up rel h v d) = v" "d_applied_template (roll_out up rel h v d) = d_applied_template d"
  by (simp_all add: roll_out_def)

lemma mark_deleting_simps [simp]:
  "d_id (mark_deleting now d) = d_id d" "d_namespace (mark_deleting now d) = d_namespace d"
  "d_status (mark_deleting now d) = DDeleting" "d_desired_release (mark_deleting now d) = d_desired_release d"
  "d_applied_release (mark_deleting now d) = d_applied_release d" "d_deleted_at (mark_deleting now d) = Some now"
  by (simp_all add: mark_deleting_def)

lemma new_release_simps [simp]:
  "r_id (new_release env n d t b v) = e_rel_id env" "r_dep (new_release env n d t b v) = d"
  "r_number (new_release env n d t b v) = n" "r_values (new_release env n d t b v) = v"
  "r_template (new_release env n d t b v) = t" "r_build (new_release env n d t b v) = b"
  by (simp_all add: new_release_def)

lemma known_dep_cong: "map d_id (db_deps s) = map d_id (db_deps t) \<Longrightarrow> known_dep s = known_dep t"
  by (rule ext) (simp add: known_dep_iff row_get_None_iff flip: set_map)

lemma apply_update_Inr:
  assumes ok: "apply_update env up d h v b s = Inr s'" and
    s2: "s2 = s\<lparr>db_deps := row_upd d_id (d_id d) (roll_out up (e_rel_id env) h v) (db_deps s),
      db_rels := db_rels s @ [new_release env (next_release_number s (d_id d)) (d_id d) (du_template up) b v]\<rparr>"
  obtains vs j jt where
    "d_status d \<in> {DReady, DError}" "constraints s'" "write_vars (e_jsv env) (e_crypto env) (e_now env)
       (roll_out up (e_rel_id env) h v d) (d_user d) (du_vars up) False IntegrityErr s2 = Inr (s2\<lparr>db_vars := vs\<rparr>)"
    "enqueue_job (known_dep s) (e_now env) ForUpdate None (d_id d) (db_jobs s) = Inr (j, jt)"
    "s' = (snapshot_release (e_rel_id env) (d_id d) (s2\<lparr>db_vars := vs\<rparr>))\<lparr>db_jobs := jt\<rparr>"
proof -
  from ok s2 have st: "d_status d \<in> {DReady, DError}" by (auto simp: apply_update_def split: if_splits)
  from ok st obtain s4 where w: "write_vars (e_jsv env) (e_crypto env) (e_now env)
       (roll_out up (e_rel_id env) h v d) (d_user d) (du_vars up) False IntegrityErr s2 = Inr s4"
    and r: "bindR (request_reconcile (e_now env) ForUpdate (d_id d) (snapshot_release (e_rel_id env) (d_id d) s4)) flush = Inr s'"
    unfolding apply_update_def s2[symmetric] by (auto simp: bindR_Inr_iff flush_Inr split: if_splits)
  obtain vs where vs: "s4 = s2\<lparr>db_vars := vs\<rparr>" by (rule write_vars_frame[OF w])
  let ?s4 = "snapshot_release (e_rel_id env) (d_id d) s4"
  from r have r': "request_reconcile (e_now env) ForUpdate (d_id d) ?s4 = Inr s'" "constraints s'"
    by (simp_all add: bindR_Inr_iff flush_Inr)
  have k: "known_dep ?s4 = known_dep s"
    by (rule known_dep_cong) (simp add: vs s2 snapshot_release_def table_simps)
  have "db_jobs ?s4 = db_jobs s" by (simp add: vs s2 snapshot_release_def)
  with r'(1) k obtain j jt where "enqueue_job (known_dep s) (e_now env) ForUpdate None (d_id d) (db_jobs s) = Inr (j, jt)"
    "s' = ?s4\<lparr>db_jobs := jt\<rparr>" unfolding request_reconcile_Inr by metis
  with that[OF st r'(2) w[unfolded vs]] vs show thesis by blast
qed

lemma update_deployment_Inr:
  assumes "update_deployment env up s = Inr s'"
  obtains d h v b where "get_dep s (du_id up) = Some d" "du_user up = None \<or> du_user up = Some (d_user d)"
    "check_update env up d s = Inr (h, v, b)" "apply_update env up d h v b s = Inr s'"
  using assms unfolding update_deployment_def bindR_Inr_iff get_deployment_orm_Inr by auto

lemma insert_deployment_Inr:
  assumes "insert_deployment env p u prd h v paid s = Inr (sub, s')"
  obtains name ns subs vs where
    "s' = snapshot_release (e_rel_id env) (e_dep_id env)
       (s\<lparr>db_subs := subs, db_deps := db_deps s @ [new_deployment env p name ns h v paid sub],
          db_rels := db_rels s @ [new_release env 1 (e_dep_id env) (dc_template p) (dc_build p) v], db_vars := vs\<rparr>)"
    "generate_deployment_name (e_name_rnd env) (p_name prd) None = Inr name"
    "allocate_namespace 0 namespace_attempts (e_ns_rnd env) (s\<lparr>db_subs := subs\<rparr>) (p_name prd) (u_email u) = Inr ns"
    "write_vars (e_jsv env) (e_crypto env) (e_now env) (new_deployment env p name ns h v paid sub) (u_id u) (dc_vars p)
       False IntegrityErr
       (s\<lparr>db_subs := subs, db_deps := db_deps s @ [new_deployment env p name ns h v paid sub],
          db_rels := db_rels s @ [new_release env 1 (e_dep_id env) (dc_template p) (dc_build p) v]\<rparr>) =
     Inr (s\<lparr>db_subs := subs, db_deps := db_deps s @ [new_deployment env p name ns h v paid sub],
          db_rels := db_rels s @ [new_release env 1 (e_dep_id env) (dc_template p) (dc_build p) v], db_vars := vs\<rparr>)"
    "\<exists>x. subs = db_subs s @ [x] \<and> sub_id x = sub \<and> sub_user x = dc_user p \<and> sub_plan_template x = dc_plan_template p \<and>
       sub_status x = SubActive \<and> sub_payment x = (if paid then PayPending else PayCurrent) \<and> sub_mollie_id x = None"
proof -
  from assms obtain x s1 name ns where a:
    "create_subscription (dc_plan_template p) (dc_user p) (if paid then PayPending else PayCurrent) s = Inr (x, s1)"
    "generate_deployment_name (e_name_rnd env) (p_name prd) None = Inr name"
    "allocate_namespace 0 namespace_attempts (e_ns_rnd env) s1 (p_name prd) (u_email u) = Inr ns"
    unfolding insert_deployment_def by (elim bindR2E bindRE)
  from a(1) have s1: "s1 = s\<lparr>db_subs := db_subs s @ [x]\<rparr>" and x: "sub_user x = dc_user p"
    "sub_plan_template x = dc_plan_template p" "sub_status x = SubActive" "sub_mollie_id x = None"
    "sub_payment x = (if paid then PayPending else PayCurrent)"
    by (auto simp: create_subscription_def Let_def split: option.splits if_splits)
  let ?d = "new_deployment env p name ns h v paid (sub_id x)"
  let ?r = "new_release env 1 (e_dep_id env) (dc_template p) (dc_build p) v"
  let ?s2 = "s1\<lparr>db_deps := db_deps s1 @ [?d], db_rels := db_rels s1 @ [?r]\<rparr>"
  have di: "d_id ?d = e_dep_id env" by (simp add: new_deployment_def)
  have "bindR (flush ?s2) (\<lambda>s2. bindR (write_vars (e_jsv env) (e_crypto env) (e_now env) ?d (u_id u) (dc_vars p) False IntegrityErr s2)
      (\<lambda>s3. Inr (sub_id x, snapshot_release (e_rel_id env) (e_dep_id env) s3))) = Inr (sub, s')"
    using assms unfolding insert_deployment_def a(1) bindR.simps prod.case a(2) a(3) Let_def di .
  then obtain s3 where w: "write_vars (e_jsv env) (e_crypto env) (e_now env) ?d (u_id u) (dc_vars p) False IntegrityErr ?s2 = Inr s3"
    and e: "sub = sub_id x" "s' = snapshot_release (e_rel_id env) (e_dep_id env) s3"
    unfolding bindR_Inr_iff flush_Inr sum.inject prod.inject by metis
  obtain vs where vs: "s3 = ?s2\<lparr>db_vars := vs\<rparr>" by (rule write_vars_frame[OF w])
  show thesis
    by (rule that[where subs = "db_subs s @ [x]" and name = name and ns = ns and vs = vs]) (use a w vs e s1 x in simp_all)
qed

lemma new_deployment_simps [simp]:
  "d_id (new_deployment env p name ns h v paid sub) = e_dep_id env"
  "d_user (new_deployment env p name ns h v paid sub) = dc_user p"
  "d_status (new_deployment env p name ns h v paid sub) = (if paid then DPending else DProvisioning)"
  "d_desired_release (new_deployment env p name ns h v paid sub) = e_rel_id env"
  "d_applied_release (new_deployment env p name ns h v paid sub) = None"
  "d_hostname (new_deployment env p name ns h v paid sub) = h"
  "d_deleted_at (new_deployment env p name ns h v paid sub) = None"
  "d_subscription (new_deployment env p name ns h v paid sub) = sub"
  "d_namespace (new_deployment env p name ns h v paid sub) = ns"
  "d_name (new_deployment env p name ns h v paid sub) = name"
  "d_values (new_deployment env p name ns h v paid sub) = v"
  by (simp_all add: new_deployment_def)

text \<open>Payment touches only the user's customer id and the payment table.\<close>

lemma start_payment_Inr:
  assumes "start_payment pv u ptv sub dep s = Inr (url, s')"
  obtains us pay where "s' = s\<lparr>db_users := us, db_payments := db_payments s @ [pay]\<rparr>"
    "mp_sub pay = sub" "mp_status pay = MOpen" "mp_sequence pay = ''first''" "mp_amount_cents pay = pt_price_cents ptv"
    "us = db_users s \<or> (\<exists>c. us = row_upd u_id (u_id u) (\<lambda>x. x\<lparr>u_customer := Some c\<rparr>) (db_users s))"
proof -
  from assms obtain c s1 where "ensure_customer pv u dep s = Inr (c, s1)"
    unfolding start_payment_def by (elim bindR2E)
  moreover from this have "s1 = s\<lparr>db_users := db_users s1\<rparr> \<and>
      (db_users s1 = db_users s \<or> (\<exists>c. db_users s1 = row_upd u_id (u_id u) (\<lambda>x. x\<lparr>u_customer := Some c\<rparr>) (db_users s)))"
    by (auto simp: ensure_customer_def bindR_Inr_iff split: option.splits list.splits)
  ultimately obtain us where s1: "s1 = s\<lparr>db_users := us\<rparr>" "ensure_customer pv u dep s = Inr (c, s1)"
    "us = db_users s \<or> (\<exists>c. us = row_upd u_id (u_id u) (\<lambda>x. x\<lparr>u_customer := Some c\<rparr>) (db_users s))" by metis
  from assms obtain pid where
    "s' = s1\<lparr>db_payments := db_payments s1 @ [\<lparr>mp_sub = sub, mp_mollie_id = pid, mp_status = MOpen,
        mp_sequence = ''first'', mp_amount_cents = pt_price_cents ptv\<rparr>]\<rparr>"
    unfolding start_payment_def s1(2) bindR.simps prod.case by (auto simp: bindR_Inr_iff split: prod.splits)
  with s1 that show thesis by simp
qed

lemma create_deployment_Inr:
  assumes "create_deployment env pv p s = Inr (url, s')"
  obtains u prd ptv h v sub s1 where
    "check_create env p s = Inr (u, prd, ptv, h, v)"
    "insert_deployment env p u prd h v (pv \<noteq> None \<and> pt_price_cents ptv > 0) s = Inr (sub, s1)" "constraints s'"
    "(\<not> (pv \<noteq> None \<and> pt_price_cents ptv > 0) \<and> url = None \<and> request_reconcile (e_now env) ForCreate (e_dep_id env) s1 = Inr s') \<or>
     (pv \<noteq> None \<and> pt_price_cents ptv > 0 \<and> (\<exists>link. url = Some link \<and> start_payment (the pv) u ptv sub (e_dep_id env) s1 = Inr (link, s')))"
proof -
  from assms obtain u prd ptv h v where a: "check_create env p s = Inr (u, prd, ptv, h, v)"
    unfolding create_deployment_def by (elim bindRE) (auto split: prod.splits)
  let ?paid = "pv \<noteq> None \<and> pt_price_cents ptv > 0"
  have c: "bindR (insert_deployment env p u prd h v ?paid s) (\<lambda>(sub, s1).
         if ?paid
         then bindR (start_payment (the pv) u ptv sub (e_dep_id env) s1) (\<lambda>(url, s2).
              bindR (flush_or ''Deployment already exists'' s2) (\<lambda>s3. Inr (Some url, s3)))
         else bindR (flush_or ''Deployment already exists'' s1) (\<lambda>s2.
              bindR (request_reconcile (e_now env) ForCreate (e_dep_id env) s2) (\<lambda>s3. Inr (None, s3)))) = Inr (url, s')"
    using assms unfolding create_deployment_def a bindR.simps prod.case Let_def .
  then obtain sub s1 where i: "insert_deployment env p u prd h v ?paid s = Inr (sub, s1)"
    by (elim bindR2E)
  note c' = c[unfolded i bindR.simps prod.case]
  show thesis
  proof (cases ?paid)
    case True
    with c' obtain link where "start_payment (the pv) u ptv sub (e_dep_id env) s1 = Inr (link, s')" "url = Some link" "constraints s'"
      by (auto simp only: if_True simp_thms bindR_Inr_iff flush_or_Inr split: prod.splits)
    with True that[OF a i] show thesis by blast
  next
    case False
    then have "bindR (flush_or ''Deployment already exists'' s1) (\<lambda>s2.
        bindR (request_reconcile (e_now env) ForCreate (e_dep_id env) s2) (\<lambda>s3. Inr (None, s3))) = Inr (url, s')"
      using c' by (simp only: if_False)
    then have r: "request_reconcile (e_now env) ForCreate (e_dep_id env) s1 = Inr s'" "url = None" "constraints s1"
      by (auto simp: bindR_Inr_iff flush_or_Inr)
    then have "constraints s'" by (auto simp: request_reconcile_Inr constraints_def)
    with r False that[OF a i] show thesis by blast
  qed
qed

section \<open>What every request keeps\<close>

text \<open>A deployment waiting for a worker has an open job; without one it would wait forever.\<close>

definition covered :: "db \<Rightarrow> bool" where
  "covered s \<longleftrightarrow> (\<forall>d \<in> set (db_deps s). d_status d \<in> {DProvisioning, DDeleting} \<longrightarrow> open_job_for (db_jobs s) (d_id d))"

text \<open>The release pointers name releases of the same deployment.\<close>

definition own_release :: "db \<Rightarrow> uuid \<Rightarrow> uuid \<Rightarrow> bool" where
  "own_release s dep i \<longleftrightarrow> (\<exists>r \<in> set (db_rels s). r_id r = i \<and> r_dep r = dep)"

definition ledger_ok :: "db \<Rightarrow> bool" where
  "ledger_ok s \<longleftrightarrow> (\<forall>d \<in> set (db_deps s). own_release s (d_id d) (d_desired_release d) \<and>
     (\<forall>i. d_applied_release d = Some i \<longrightarrow> own_release s (d_id d) i))"

text \<open>A deployment is being or has been deleted exactly when its deletion was requested.\<close>

definition deletion_ok :: "db \<Rightarrow> bool" where
  "deletion_ok s \<longleftrightarrow> (\<forall>d \<in> set (db_deps s). d_status d \<in> {DDeleting, DDeleted} \<longrightarrow> d_deleted_at d \<noteq> None)"

definition world_ok :: "db \<Rightarrow> bool" where
  "world_ok s \<longleftrightarrow> constraints s \<and> jobs_wf (db_jobs s) \<and> covered s \<and> ledger_ok s \<and> deletion_ok s"

lemmas world_defs = world_ok_def covered_def ledger_ok_def own_release_def deletion_ok_def

lemma delete_deployment_Inr:
  assumes "delete_deployment now user i s = Inr s'"
  obtains d where "get_dep s i = Some d" "d_user d = user" "d_status d \<in> {DDeleting, DDeleted}" "s' = s"
  | d jt where "get_dep s i = Some d" "d_user d = user" "d_status d \<notin> {DDeleting, DDeleted}" "constraints s'"
    "request_reconcile now ForDelete i (s\<lparr>db_deps := row_upd d_id i (mark_deleting now) (db_deps s)\<rparr>) = Inr s'"
    "s' = s\<lparr>db_deps := row_upd d_id i (mark_deleting now) (db_deps s), db_jobs := jt\<rparr>"
proof -
  from assms obtain d where d: "get_dep s i = Some d" "d_user d = user"
    "(if d_status d \<in> {DDeleting, DDeleted} then Inr s
       else bindR (request_reconcile now ForDelete i (s\<lparr>db_deps := row_upd d_id i (mark_deleting now) (db_deps s)\<rparr>)) flush) = Inr s'"
    unfolding delete_deployment_def by (elim bindRE) (auto simp: get_deployment_orm_Inr)
  show thesis
  proof (cases "d_status d \<in> {DDeleting, DDeleted}")
    case True
    with d(3) have "s' = s" by (simp only: if_True sum.inject)
    with d(1,2) True that(1) show thesis by blast
  next
    case False
    with d(3) have r: "request_reconcile now ForDelete i (s\<lparr>db_deps := row_upd d_id i (mark_deleting now) (db_deps s)\<rparr>) = Inr s'"
      "constraints s'" by (simp_all only: if_False bindR_Inr_iff flush_Inr) auto
    then obtain jt where "s' = s\<lparr>db_deps := row_upd d_id i (mark_deleting now) (db_deps s), db_jobs := jt\<rparr>"
      by (auto simp: request_reconcile_Inr)
    with d(1,2) r False that(2) show thesis by blast
  qed
qed

text \<open>One deployment changes and its request is queued: the rest stays covered.\<close>

lemma world_ok_request:
  assumes ok: "world_ok s" and req: "request_reconcile now why i t = Inr s'" and c: "constraints s'"
    and jobs: "db_jobs t = db_jobs s"
    and rels: "set (db_rels s) \<subseteq> set (db_rels t)"
    and deps: "\<And>d. d \<in> set (db_deps t) \<Longrightarrow> d \<in> set (db_deps s) \<or>
      (d_id d = i \<and> own_release t i (d_desired_release d) \<and> (\<forall>k. d_applied_release d = Some k \<longrightarrow> own_release t i k) \<and>
       (d_status d \<in> {DDeleting, DDeleted} \<longrightarrow> d_deleted_at d \<noteq> None))"
  shows "world_ok s'"
proof -
  obtain j jt where s': "s' = t\<lparr>db_jobs := jt\<rparr>" using req request_reconcile_Inr by blast
  note o = request_reconcile_open[OF req]
  have "jobs_wf (db_jobs s')" using o(2) ok jobs by (simp add: world_ok_def)
  moreover have "covered s'"
    using deps ok o(1) jobs unfolding world_ok_def covered_def s' by (simp del: insert_iff) blast
  moreover have "ledger_ok s'"
    using deps ok rels unfolding world_ok_def ledger_ok_def own_release_def s' by simp blast
  moreover have "deletion_ok s'"
    using deps ok unfolding world_ok_def deletion_ok_def s' by (simp del: insert_iff) blast
  ultimately show ?thesis using c by (simp add: world_ok_def)
qed

lemma world_ok_delete:
  assumes "world_ok s" "delete_deployment now user i s = Inr s'"
  shows "world_ok s'"
  using assms(2)
proof (cases rule: delete_deployment_Inr)
  case (2 d jt)
  show ?thesis
  proof (rule world_ok_request[OF assms(1) 2(5) 2(4)])
    fix e assume "e \<in> set (db_deps (s\<lparr>db_deps := row_upd d_id i (mark_deleting now) (db_deps s)\<rparr>))"
    then have "e \<in> set (row_upd d_id i (mark_deleting now) (db_deps s))" by simp
    then show "e \<in> set (db_deps s) \<or> (d_id e = i \<and>
        own_release (s\<lparr>db_deps := row_upd d_id i (mark_deleting now) (db_deps s)\<rparr>) i (d_desired_release e) \<and>
        (\<forall>k. d_applied_release e = Some k \<longrightarrow> own_release (s\<lparr>db_deps := row_upd d_id i (mark_deleting now) (db_deps s)\<rparr>) i k) \<and>
        (d_status e \<in> {DDeleting, DDeleted} \<longrightarrow> d_deleted_at e \<noteq> None))"
      using assms(1) by (cases rule: in_row_updE) (auto simp: world_ok_def ledger_ok_def own_release_def)
  qed simp_all
qed (use assms(1) in simp)

lemma apply_update_effect:
  assumes "apply_update env up d h v b s = Inr s'"
  obtains vs jt where "d_status d \<in> {DReady, DError}" "constraints s'"
    "enqueue_job (known_dep s) (e_now env) ForUpdate None (d_id d) (db_jobs s) = Inr jt"
    "s' = s\<lparr>db_deps := row_upd d_id (d_id d) (roll_out up (e_rel_id env) h v) (db_deps s),
            db_rels := db_rels s @ [new_release env (next_release_number s (d_id d)) (d_id d) (du_template up) b v],
            db_vars := vs, db_relvars := db_relvars s' , db_jobs := snd jt\<rparr>"
    "set (bound_ids s' (e_rel_id env)) = set (bound_ids s (e_rel_id env)) \<union> s_id ` set (head vs (d_id d))"
proof -
  let ?s2 = "s\<lparr>db_deps := row_upd d_id (d_id d) (roll_out up (e_rel_id env) h v) (db_deps s),
      db_rels := db_rels s @ [new_release env (next_release_number s (d_id d)) (d_id d) (du_template up) b v]\<rparr>"
  from apply_update_Inr[OF assms refl] obtain vs j jt where a: "d_status d \<in> {DReady, DError}" "constraints s'"
    "enqueue_job (known_dep s) (e_now env) ForUpdate None (d_id d) (db_jobs s) = Inr (j, jt)"
    "s' = (snapshot_release (e_rel_id env) (d_id d) (?s2\<lparr>db_vars := vs\<rparr>))\<lparr>db_jobs := jt\<rparr>" by metis
  show thesis
    by (rule that[OF a(1,2,3)]) (simp_all add: a(4) snapshot_release_def bound_ids_def o_def)
qed

lemma world_ok_apply_update:
  assumes ok: "world_ok s" and d: "get_dep s i = Some d" and u: "apply_update env up d h v b s = Inr s'"
  shows "world_ok s'"
proof -
  let ?t = "s\<lparr>db_deps := row_upd d_id (d_id d) (roll_out up (e_rel_id env) h v) (db_deps s),
      db_rels := db_rels s @ [new_release env (next_release_number s (d_id d)) (d_id d) (du_template up) b v],
      db_vars := db_vars s', db_relvars := db_relvars s'\<rparr>"
  from apply_update_effect[OF u] obtain vs jt where a: "constraints s'"
    "enqueue_job (known_dep s) (e_now env) ForUpdate None (d_id d) (db_jobs s) = Inr jt"
    "s' = s\<lparr>db_deps := row_upd d_id (d_id d) (roll_out up (e_rel_id env) h v) (db_deps s),
            db_rels := db_rels s @ [new_release env (next_release_number s (d_id d)) (d_id d) (du_template up) b v],
            db_vars := vs, db_relvars := db_relvars s' , db_jobs := snd jt\<rparr>"
    by metis
  have k: "known_dep ?t = known_dep s" by (rule known_dep_cong) (simp add: table_simps)
  have s': "s' = ?t\<lparr>db_jobs := snd jt\<rparr>" by (subst a(3), subst a(3)) simp
  have "request_reconcile (e_now env) ForUpdate (d_id d) ?t = Inr s'"
    unfolding request_reconcile_Inr k by (rule exI[of _ "fst jt"], rule exI[of _ "snd jt"]) (use a(2) s' in simp)
  then show ?thesis
  proof (rule world_ok_request[OF ok _ a(1)])
    fix e assume "e \<in> set (db_deps ?t)"
    then consider "e \<in> set (db_deps s)" | q where "q \<in> set (db_deps s)" "d_id q = d_id d" "e = roll_out up (e_rel_id env) h v q"
      by (auto elim: in_row_updE)
    then show "e \<in> set (db_deps s) \<or> (d_id e = d_id d \<and> own_release ?t (d_id d) (d_desired_release e) \<and>
        (\<forall>k. d_applied_release e = Some k \<longrightarrow> own_release ?t (d_id d) k) \<and>
        (d_status e \<in> {DDeleting, DDeleted} \<longrightarrow> d_deleted_at e \<noteq> None))"
    proof cases
      case (2 q)
      with ok have "\<forall>k. d_applied_release q = Some k \<longrightarrow> own_release s (d_id d) k"
        unfolding world_ok_def ledger_ok_def by metis
      then show ?thesis using 2 by (auto simp: own_release_def)
    qed simp
  qed auto
qed

lemma world_ok_update: "world_ok s \<Longrightarrow> update_deployment env up s = Inr s' \<Longrightarrow> world_ok s'"
  using world_ok_apply_update by (metis update_deployment_Inr)

lemma world_ok_create:
  assumes ok: "world_ok s" and c: "create_deployment env pv p s = Inr (url, s')"
  shows "world_ok s'"
proof -
  from c obtain u prd ptv h v sub s1 where
    i: "insert_deployment env p u prd h v (pv \<noteq> None \<and> pt_price_cents ptv > 0) s = Inr (sub, s1)" and cs: "constraints s'" and
    fin: "(\<not> (pv \<noteq> None \<and> pt_price_cents ptv > 0) \<and> url = None \<and> request_reconcile (e_now env) ForCreate (e_dep_id env) s1 = Inr s') \<or>
     (pv \<noteq> None \<and> pt_price_cents ptv > 0 \<and> (\<exists>link. url = Some link \<and> start_payment (the pv) u ptv sub (e_dep_id env) s1 = Inr (link, s')))"
    by (rule create_deployment_Inr)
  define paid where "paid \<longleftrightarrow> pv \<noteq> None \<and> pt_price_cents ptv > 0"
  from i obtain name ns subs vs where s1: "s1 = snapshot_release (e_rel_id env) (e_dep_id env)
       (s\<lparr>db_subs := subs, db_deps := db_deps s @ [new_deployment env p name ns h v paid sub],
          db_rels := db_rels s @ [new_release env 1 (e_dep_id env) (dc_template p) (dc_build p) v], db_vars := vs\<rparr>)"
    unfolding paid_def by (rule insert_deployment_Inr)
  let ?d = "new_deployment env p name ns h v paid sub"
  have t: "db_jobs s1 = db_jobs s" "set (db_rels s) \<subseteq> set (db_rels s1)" "set (db_deps s1) = insert ?d (set (db_deps s))"
    "own_release s1 (e_dep_id env) (e_rel_id env)"
    by (auto simp: s1 snapshot_release_def own_release_def)
  from fin consider (free) "request_reconcile (e_now env) ForCreate (e_dep_id env) s1 = Inr s'"
    | (paid) link where "paid" "start_payment (the pv) u ptv sub (e_dep_id env) s1 = Inr (link, s')"
    unfolding paid_def by blast
  then show ?thesis
  proof cases
    case free
    then show ?thesis
      by (rule world_ok_request[OF ok _ cs t(1,2)]) (use t(3,4) in \<open>auto split: if_splits\<close>)
  next
    case paid
    obtain us pay where s': "s' = s1\<lparr>db_users := us, db_payments := db_payments s1 @ [pay]\<rparr>"
      by (rule start_payment_Inr[OF paid(2)])
    have "covered s'" using ok t paid(1) by (auto simp: s' world_ok_def covered_def)
    moreover have "ledger_ok s'" using ok t unfolding world_ok_def ledger_ok_def own_release_def s' by simp blast
    moreover have "deletion_ok s'" using ok t paid(1) by (auto simp: s' world_ok_def deletion_ok_def)
    ultimately show ?thesis using cs ok t(1) by (simp add: world_ok_def s')
  qed
qed

end
