(* ===== verification/DeploymentPower.thy ===== *)
theory DeploymentPower
  imports Deployments
begin

text \<open>
  Stopping and starting a deployment, \<^verbatim>\<open>api/app/services/power.py\<close>. A request records a power row
  and moves the desired pointer in the transaction that queues the reconcile which applies it.
\<close>

section \<open>Operations\<close>

definition locked_deployment :: "db \<Rightarrow> user_id \<Rightarrow> uuid \<Rightarrow> deployment result" where
  "locked_deployment s user i =
     (case get_dep s i of
        Some d \<Rightarrow> if d_user d = user \<and> d_status d \<noteq> DDeleted then Inr d else Inl (NotFoundErr ''Deployment not found'')
      | None \<Rightarrow> Inl (NotFoundErr ''Deployment not found''))"

definition new_power :: "time \<Rightarrow> uuid \<Rightarrow> power_state \<Rightarrow> user_id option \<Rightarrow> power_row list \<Rightarrow> power_row" where
  "new_power now i target actor rows =
     \<lparr>pw_id = next_id pw_id rows, pw_dep = i, pw_state = target, pw_reason = PManual, pw_actor = actor,
      pw_created_at = now, pw_started_at = None, pw_ended_at = None, pw_error = None\<rparr>"

definition change_power :: "time \<Rightarrow> user_id \<Rightarrow> uuid \<Rightarrow> user_id option \<Rightarrow> power_state \<Rightarrow> db \<Rightarrow> db result" where
  "change_power now user i actor target s =
     bindR (locked_deployment s user i) (\<lambda>d.
       let desired = via (get_power s) (d_desired_power d) in
       if power_state_of desired = target then Inr s
       else if d_status d \<noteq> DReady then Inl (ConflictErr ''deployment_not_ready'' ''only a ready deployment'')
       else if target = PRunning \<and> (\<exists>r. desired = Some r \<and> pw_reason r \<noteq> PManual)
       then Inl (ConflictErr ''not_startable'' ''stopped for payment'')
       else
         let row = new_power now i target actor (db_powers s) in
         request_reconcile now ForPower i
           (s\<lparr>db_powers := db_powers s @ [row],
              db_deps := row_upd d_id i (\<lambda>d. d\<lparr>d_desired_power := Some (pw_id row)\<rparr>) (db_deps s)\<rparr>))"

definition stop_deployment :: "time \<Rightarrow> user_id \<Rightarrow> uuid \<Rightarrow> user_id option \<Rightarrow> db \<Rightarrow> db result" where
  "stop_deployment now user i actor = change_power now user i actor PStopped"

definition start_deployment :: "time \<Rightarrow> user_id \<Rightarrow> uuid \<Rightarrow> user_id option \<Rightarrow> db \<Rightarrow> db result" where
  "start_deployment now user i actor = change_power now user i actor PRunning"

section \<open>Effects\<close>

lemma change_power_Inr:
  assumes "change_power now user i actor target s = Inr s'"
  obtains (same) d where "get_dep s i = Some d" "d_user d = user" "d_status d \<noteq> DDeleted"
      "power_state_of (via (get_power s) (d_desired_power d)) = target" "s' = s"
    | (moved) d jt row where "get_dep s i = Some d" "d_user d = user" "d_status d = DReady"
      "power_state_of (via (get_power s) (d_desired_power d)) \<noteq> target"
      "\<not> (target = PRunning \<and> (\<exists>r. via (get_power s) (d_desired_power d) = Some r \<and> pw_reason r \<noteq> PManual))"
      "row = new_power now i target actor (db_powers s)"
      "request_reconcile now ForPower i (s\<lparr>db_powers := db_powers s @ [row],
         db_deps := row_upd d_id i (\<lambda>d. d\<lparr>d_desired_power := Some (pw_id row)\<rparr>) (db_deps s)\<rparr>) = Inr s'"
      "s' = s\<lparr>db_powers := db_powers s @ [row],
         db_deps := row_upd d_id i (\<lambda>d. d\<lparr>d_desired_power := Some (pw_id row)\<rparr>) (db_deps s), db_jobs := jt\<rparr>"
proof -
  from assms obtain d where d: "locked_deployment s user i = Inr d"
    unfolding change_power_def by (elim bindRE)
  note c = assms[unfolded change_power_def d bindR.simps Let_def]
  from d have l: "get_dep s i = Some d" "d_user d = user" "d_status d \<noteq> DDeleted"
    by (auto simp: locked_deployment_def split: option.splits if_splits)
  show thesis
  proof (cases "power_state_of (via (get_power s) (d_desired_power d)) = target")
    case True
    with c have "s' = s" by simp
    with l True that(1) show thesis by blast
  next
    case False
    define row where "row = new_power now i target actor (db_powers s)"
    from c False have g: "d_status d = DReady"
      "\<not> (target = PRunning \<and> (\<exists>r. via (get_power s) (d_desired_power d) = Some r \<and> pw_reason r \<noteq> PManual))"
      by (auto split: if_splits)
    from c False g have r: "request_reconcile now ForPower i (s\<lparr>db_powers := db_powers s @ [row],
         db_deps := row_upd d_id i (\<lambda>d. d\<lparr>d_desired_power := Some (pw_id row)\<rparr>) (db_deps s)\<rparr>) = Inr s'"
      unfolding row_def by (simp split: if_splits)
    then obtain jt where "s' = s\<lparr>db_powers := db_powers s @ [row],
         db_deps := row_upd d_id i (\<lambda>d. d\<lparr>d_desired_power := Some (pw_id row)\<rparr>) (db_deps s), db_jobs := jt\<rparr>"
      by (auto simp: request_reconcile_Inr)
    with that(2)[OF l(1,2) g(1) False g(2) row_def r] show thesis by blast
  qed
qed

lemma constraints_power:
  assumes "constraints s" "\<And>d. f d = d\<lparr>d_desired_power := d_desired_power (f d)\<rparr>"
  shows "constraints (s\<lparr>db_powers := p, db_deps := row_upd d_id i f (db_deps s), db_jobs := jt\<rparr>)"
proof -
  have f: "d_id (f d) = d_id d" "d_namespace (f d) = d_namespace d" "host_slot (f d) = host_slot d"
    "live_host (f d) = live_host d" for d
    by (subst assms(2), simp add: host_slot_def live_host_def)+
  have "uq_hostname_active (row_upd d_id i f (db_deps s))"
    using assms(1) f by (auto simp: constraints_def uq_hostname_active_def intro!: one_open_row_upd)
  then show ?thesis
    using assms(1) f uq_deployment_active_implied
    by (simp add: constraints_def uq_deployment_namespace_def table_simps)
qed

lemma world_ok_power:
  assumes ok: "world_ok s" and c: "change_power now user i actor target s = Inr s'"
  shows "world_ok s'"
  using c
proof (cases rule: change_power_Inr)
  case (moved d jt row)
  let ?f = "\<lambda>d. d\<lparr>d_desired_power := Some (pw_id row)\<rparr>"
  have "constraints s'" unfolding moved(8) by (rule constraints_power) (use ok in \<open>simp_all add: world_ok_def\<close>)
  then show ?thesis
  proof (rule world_ok_request[OF ok moved(7)])
    fix e assume "e \<in> set (db_deps (s\<lparr>db_powers := db_powers s @ [row], db_deps := row_upd d_id i ?f (db_deps s)\<rparr>))"
    then have "e \<in> set (row_upd d_id i ?f (db_deps s))" by simp
    then show "e \<in> set (db_deps s) \<or> (d_id e = i \<and>
        own_release (s\<lparr>db_powers := db_powers s @ [row], db_deps := row_upd d_id i ?f (db_deps s)\<rparr>) i (d_desired_release e) \<and>
        (\<forall>k. d_applied_release e = Some k \<longrightarrow>
          own_release (s\<lparr>db_powers := db_powers s @ [row], db_deps := row_upd d_id i ?f (db_deps s)\<rparr>) i k) \<and>
        (d_status e \<in> {DDeleting, DDeleted} \<longrightarrow> d_deleted_at e \<noteq> None))"
      using ok by (cases rule: in_row_updE) (auto simp: world_ok_def ledger_ok_def own_release_def deletion_ok_def)
  qed simp_all
qed (use ok in simp)

end
