(* ===== verification/Requests.thy ===== *)
theory Requests
  imports DeploymentPower
begin

text \<open>
  What the deployment requests guarantee, over \<open>Deployments\<close> and \<open>DeploymentPower\<close>: the invariant every
  history of requests keeps, the effect of each request on the ledger, and the checks an accepted
  write has passed.
\<close>

section \<open>Histories of requests\<close>

datatype request =
    Create env "payment_provider option" dep_create
  | Update env dep_update
  | Delete time user_id uuid
  | Stop time user_id uuid "user_id option"
  | Start time user_id uuid "user_id option"

fun request_step :: "request \<Rightarrow> db \<Rightarrow> db result" where
  "request_step (Create env pv p) s = map_sum id snd (create_deployment env pv p s)"
| "request_step (Update env up) s = update_deployment env up s"
| "request_step (Delete now user i) s = delete_deployment now user i s"
| "request_step (Stop now user i actor) s = stop_deployment now user i actor s"
| "request_step (Start now user i actor) s = start_deployment now user i actor s"

fun_cases request_step_createE: "request_step (Create env pv p) s = Inr s'"

lemma request_step_world_ok:
  assumes "world_ok s" "request_step x s = Inr s'"
  shows "world_ok s'"
proof (cases x)
  case (Create env pv p)
  with assms(2) obtain url where "create_deployment env pv p s = Inr (url, s')"
    by (cases "create_deployment env pv p s") auto
  with assms(1) show ?thesis by (rule world_ok_create)
next
  case (Update env up)
  with assms(2) have "update_deployment env up s = Inr s'" by simp
  with assms(1) show ?thesis by (rule world_ok_update)
next
  case (Delete now user i)
  with assms(2) have "delete_deployment now user i s = Inr s'" by simp
  with assms(1) show ?thesis by (rule world_ok_delete)
next
  case (Stop now user i actor)
  with assms(2) have "change_power now user i actor PStopped s = Inr s'" by (simp add: stop_deployment_def)
  with assms(1) show ?thesis by (rule world_ok_power)
next
  case (Start now user i actor)
  with assms(2) have "change_power now user i actor PRunning s = Inr s'" by (simp add: start_deployment_def)
  with assms(1) show ?thesis by (rule world_ok_power)
qed

interpretation requests: guarded request_step world_ok
  by unfold_locales (rule request_step_world_ok)

text \<open>
  C1. Whatever requests users make, in whatever order and with whatever outcome: a deployment that
  is provisioning or deleting has an open job in the queue, which a worker will claim; no two
  deployments that are not deleted share a hostname, letter case aside, and no two share a
  namespace; the desired and the applied release of each deployment are releases of that
  deployment, and no two of its releases share a number.
\<close>

theorem requests_keep_world:
  assumes "world_ok s" and t: "t = history request_step xs s"
  shows "(\<forall>d \<in> set (db_deps t). d_status d = DProvisioning \<or> d_status d = DDeleting \<longrightarrow>
       (\<exists>j \<in> set (jt_rows (db_jobs t)). job_dep j = d_id d \<and> job_open j)) \<and>
    (\<forall>d \<in> set (db_deps t). \<forall>e \<in> set (db_deps t). d_id d \<noteq> d_id e \<longrightarrow>
       d_namespace d \<noteq> d_namespace e \<and>
       (d_status d \<noteq> DDeleted \<and> d_status e \<noteq> DDeleted \<longrightarrow>
          (\<forall>g h. d_hostname d = Some g \<and> d_hostname e = Some h \<longrightarrow> lower g \<noteq> lower h))) \<and>
    (\<forall>d \<in> set (db_deps t). \<forall>i. d_desired_release d = i \<or> d_applied_release d = Some i \<longrightarrow>
       (\<exists>r \<in> set (db_rels t). r_id r = i \<and> r_dep r = d_id d)) \<and>
    (\<forall>q \<in> set (db_rels t). \<forall>r \<in> set (db_rels t). r_dep q = r_dep r \<and> r_number q = r_number r \<longrightarrow> q = r)"
proof -
  have ok: "world_ok t" unfolding t by (rule requests.history_inv[OF assms(1)])
  note c = constraintsD[of t]
  have "\<exists>j \<in> set (jt_rows (db_jobs t)). job_dep j = d_id d \<and> job_open j"
    if "d \<in> set (db_deps t)" "d_status d = DProvisioning \<or> d_status d = DDeleting" for d
    using ok that by (auto simp: world_ok_def covered_def open_job_for_def slot_taken_def)
  moreover have "d_namespace d \<noteq> d_namespace e"
    if "d \<in> set (db_deps t)" "e \<in> set (db_deps t)" "d_id d \<noteq> d_id e" for d e
    using c(2) ok that keyed_unique[of d_namespace "db_deps t" d e]
    by (auto simp: world_ok_def uq_deployment_namespace_def)
  moreover have "lower g \<noteq> lower h"
    if "d \<in> set (db_deps t)" "e \<in> set (db_deps t)" "d_id d \<noteq> d_id e" "d_status d \<noteq> DDeleted" "d_status e \<noteq> DDeleted"
      "d_hostname d = Some g" "d_hostname e = Some h" for d e g h
    using c(1) ok that one_open_unique[of host_slot live_host "db_deps t" d e]
    by (auto simp: world_ok_def uq_hostname_active_def live_host_def host_slot_def)
  moreover have "\<exists>r \<in> set (db_rels t). r_id r = i \<and> r_dep r = d_id d"
    if "d \<in> set (db_deps t)" "d_desired_release d = i \<or> d_applied_release d = Some i" for d i
    using ok that by (auto simp: world_ok_def ledger_ok_def own_release_def)
  moreover have "q = r"
    if "q \<in> set (db_rels t)" "r \<in> set (db_rels t)" "r_dep q = r_dep r \<and> r_number q = r_number r" for q r
    using c(3) ok that keyed_unique[of "\<lambda>r. (r_dep r, r_number r)" "db_rels t" q r]
    by (auto simp: world_ok_def uq_release_number_def)
  ultimately show ?thesis by blast
qed

section \<open>The effect of an update\<close>

lemma next_number_above:
  assumes "r \<in> set (db_rels s)" "r_dep r = dep"
  shows "r_number r < next_release_number s dep"
  using assms by (auto simp: next_release_number_def less_Suc_eq_le intro!: foldr_max_le)

lemma apply_update_tables:
  assumes "apply_update env up d h v b s = Inr s'"
  shows "db_deps s' = row_upd d_id (d_id d) (roll_out up (e_rel_id env) h v) (db_deps s)"
    "db_rels s' = db_rels s @ [new_release env (next_release_number s (d_id d)) (d_id d) (du_template up) b v]"
    "db_users s' = db_users s" "db_builds s' = db_builds s"
  by (rule apply_update_effect[OF assms]; erule ssubst; simp)+

lemma row_get_of_keyed: "keyed key rs \<Longrightarrow> r \<in> set rs \<Longrightarrow> row_get key (key r) rs = Some r"
  by (simp add: row_get_keyed)

text \<open>
  C2. What an accepted update does: the deployment was ready or in error with no open job; it is
  provisioning now with a job queued for it; its desired release is a new release, numbered above
  every earlier one, that carries exactly the values and template stored with the deployment and
  is bound to the vars that are head; what is applied, every other deployment and every earlier
  release are untouched.
\<close>

theorem update_effect:
  assumes ok: "world_ok s" and u: "update_deployment env up s = Inr s'" and d: "get_dep s (du_id up) = Some d"
    and fresh: "bound_ids s (e_rel_id env) = []"
  shows "\<exists>r d'. d_status d \<in> {DReady, DError} \<and> \<not> open_job_for (db_jobs s) (d_id d) \<and>
    get_dep s' (du_id up) = Some d' \<and> d_status d' = DProvisioning \<and> open_job_for (db_jobs s') (d_id d) \<and>
    db_rels s' = db_rels s @ [r] \<and> d_desired_release d' = r_id r \<and> r_dep r = d_id d \<and>
    (\<forall>q \<in> set (db_rels s). r_dep q = d_id d \<longrightarrow> r_number q < r_number r) \<and>
    r_values r = d_values d' \<and> r_template r = d_desired_template d' \<and> d_desired_template d \<le> d_desired_template d' \<and>
    set (bound_ids s' (r_id r)) = s_id ` set (head (db_vars s') (d_id d)) \<and>
    d_applied_release d' = d_applied_release d \<and> d_applied_template d' = d_applied_template d \<and>
    (\<forall>i. i \<noteq> du_id up \<longrightarrow> get_dep s' i = get_dep s i)"
proof -
  from u d obtain h v b where c: "check_update env up d s = Inr (h, v, b)" and a: "apply_update env up d h v b s = Inr s'"
    by (metis update_deployment_Inr option.inject)
  have i: "du_id up = d_id d" using row_get_key[OF d] by simp
  have down: "d_desired_template d \<le> du_template up" using c by (auto simp: check_update_def split: if_splits)
  let ?r = "new_release env (next_release_number s (d_id d)) (d_id d) (du_template up) b v"
  from a obtain vs jt where e: "d_status d \<in> {DReady, DError}"
    "enqueue_job (known_dep s) (e_now env) ForUpdate None (d_id d) (db_jobs s) = Inr jt"
    "s' = s\<lparr>db_deps := row_upd d_id (d_id d) (roll_out up (e_rel_id env) h v) (db_deps s), db_rels := db_rels s @ [?r],
            db_vars := vs, db_relvars := db_relvars s' , db_jobs := snd jt\<rparr>"
    and b: "set (bound_ids s' (e_rel_id env)) = set (bound_ids s (e_rel_id env)) \<union> s_id ` set (head vs (d_id d))"
    by (rule apply_update_effect)
  have f: "db_deps s' = row_upd d_id (d_id d) (roll_out up (e_rel_id env) h v) (db_deps s)" "db_rels s' = db_rels s @ [?r]"
    "db_vars s' = vs" "db_jobs s' = snd jt" by (subst e(3), simp)+
  have g: "get_dep s' (du_id up) = Some (roll_out up (e_rel_id env) h v d)"
    using d by (simp add: f i row_get_upd_same)
  have o: "\<forall>k. k \<noteq> du_id up \<longrightarrow> get_dep s' k = get_dep s k" by (simp add: f i row_get_upd_other)
  have "\<not> open_job_for (db_jobs s) (d_id d)" "open_job_for (db_jobs s') (d_id d)"
    using jobq.enqueue_opens[of "known_dep s" "e_now env" ForUpdate None "d_id d" "db_jobs s" "snd jt" "d_id d"] e(2)
    by (cases jt, simp add: enqueue_job_Inr, simp add: f)
  with e(1) f g o b fresh down show ?thesis
    by (intro exI[of _ ?r] exI[of _ "roll_out up (e_rel_id env) h v d"])
      (simp add: next_number_above roll_out_def del: insert_iff)
qed

section \<open>The images an accepted update references\<close>

lemma release_images_in: "i \<in> set (release_images owner x) \<Longrightarrow> \<exists>r. x = Some r \<and> i \<in> set (owner_images owner (json_of (r_values r)))"
  by (cases x) (simp_all add: release_images_def)

lemma release_images_current:
  assumes "world_ok s" "d \<in> set (db_deps s)" "i \<in> set (release_images owner (get_rel s (d_desired_release d)) @
      release_images owner (via (get_rel s) (d_applied_release d)))"
  shows "i \<in> current_images owner (db_rels s) d"
proof -
  from assms(3) consider "i \<in> set (release_images owner (get_rel s (d_desired_release d)))"
    | "i \<in> set (release_images owner (via (get_rel s) (d_applied_release d)))" by auto
  then obtain k r where k: "get_rel s k = Some r" "k = d_desired_release d \<or> d_applied_release d = Some k"
    "i \<in> set (owner_images owner (json_of (r_values r)))"
  proof cases
    case 1
    from release_images_in[OF this] that show thesis by blast
  next
    case 2
    from release_images_in[OF this] obtain r where r: "via (get_rel s) (d_applied_release d) = Some r"
      "i \<in> set (owner_images owner (json_of (r_values r)))" by blast
    from r(1) obtain k where "d_applied_release d = Some k" "get_rel s k = Some r" unfolding via_Some by blast
    with r(2) that show thesis by blast
  qed
  then have "own_release s (d_id d) k" using assms(1,2) by (auto simp: world_ok_def ledger_ok_def)
  then obtain q where "q \<in> set (db_rels s)" "r_id q = k" "r_dep q = d_id d" by (auto simp: own_release_def)
  moreover from this have "q = r"
    using row_get_in[OF k(1)] row_get_key[OF k(1)] constraintsD(5) assms(1) keyed_unique[of r_id "db_rels s" q r]
    by (auto simp: world_ok_def)
  ultimately show ?thesis using k by (auto simp: current_images_def)
qed

lemma referenced_unknown:
  assumes "i \<in> set (owner_images owner (json_of v))" "i \<notin> set (unknown_images st now s owner build v dep)"
  shows "(\<exists>d. dep = Some d \<and> i \<in> set (release_images owner (get_rel s (d_desired_release d)) @
      release_images owner (via (get_rel s) (d_applied_release d)))) \<or>
    (\<exists>b. build = Some b \<and> is_fresh st now b \<and> has_image b \<and> b_image b = Some i)"
  using assms
  by (auto simp: unknown_images_def Let_def has_image_def split: option.splits if_splits)

lemma validate_retained_images_ok:
  assumes "validate_retained_images st now s owner build_id v dep = Inr ()"
    "i \<in> set (unknown_images st now s owner (via (get_build s) build_id) v dep)"
  shows "retains (owner_retention st now s owner) i"
  using assms by (auto simp: validate_retained_images_def Let_def split: if_splits)

lemma check_update_Inr:
  assumes "check_update env up d s = Inr (h, v, b)"
  obtains target where "get_template s (du_template up) = Some target" "d_desired_template d \<le> du_template up"
    "normalize_hostname (e_str env) (require_valid_hostname (e_dns env) (e_settings env) (db_deps s)
       (Option.bind (get_user s (d_user d)) u_handle) (Some (d_id d))) (t_schema target)
       (case du_values up of Some v \<Rightarrow> Some v | None \<Rightarrow> d_values d) = Inr (h, v)"
    "validate_user_values (e_jsv env) v (t_schema target) = Inr ()"
    "validate_build_reference s (Some (d_id d)) (Option.bind (du_build up) id) = Inr ()"
    "validate_retained_images (e_settings env) (e_now env) s (d_user d) (Option.bind (du_build up) id) v (Some d) = Inr ()"
    "b = release_build_id s d up v"
proof -
  have le: "\<not> du_template up < d_desired_template d"
  proof
    assume "du_template up < d_desired_template d"
    with assms show False by (simp add: check_update_def)
  qed
  obtain target where t: "get_template s (du_template up) = Some target"
    using assms le by (cases "get_template s (du_template up)") (simp_all add: check_update_def)
  note c = assms[unfolded check_update_def if_not_P[OF le] t option.case]
  have "\<not> (case get_template s (d_desired_template d) of None \<Rightarrow> False | Some cur \<Rightarrow> t_product target \<noteq> t_product cur)"
  proof
    assume p: "case get_template s (d_desired_template d) of None \<Rightarrow> False | Some cur \<Rightarrow> t_product target \<noteq> t_product cur"
    show False using c[unfolded if_P[OF p]] by simp
  qed
  from c[unfolded if_not_P[OF this]] show thesis
    by (elim bindR2E bindRE) (rule that[OF t], use le in auto)
qed

lemma update_checked_images:
  assumes ok: "world_ok s" and u: "update_deployment env up s = Inr s'" and d: "get_dep s (du_id up) = Some d"
    and live: "d_deleted_at d = None" and d': "get_dep s' (du_id up) = Some d'"
    and i: "i \<in> set (owner_images (d_user d) (json_of (d_values d')))"
  shows "retains (retentions (e_settings env) (e_now env) s (d_user d)) i"
proof -
  let ?st = "e_settings env" and ?now = "e_now env" and ?bid = "Option.bind (du_build up) id"
  from u d obtain h v b where c: "check_update env up d s = Inr (h, v, b)" and a: "apply_update env up d h v b s = Inr s'"
    by (metis update_deployment_Inr option.inject)
  have k: "du_id up = d_id d" and m: "d \<in> set (db_deps s)" using row_get_key[OF d] row_get_in[OF d] by simp_all
  have chk: "validate_build_reference s (Some (d_id d)) ?bid = Inr ()"
    "validate_retained_images ?st ?now s (d_user d) ?bid v (Some d) = Inr ()"
    by (rule check_update_Inr[OF c], assumption)+
  have "db_deps s' = row_upd d_id (d_id d) (roll_out up (e_rel_id env) h v) (db_deps s)"
    by (rule apply_update_tables(1)[OF a])
  then have "d' = roll_out up (e_rel_id env) h v d" using d d' by (simp add: k row_get_upd_same)
  with i have iv: "i \<in> set (owner_images (d_user d) (json_of v))" by simp
  have "i \<in> ledger_images ?st s (d_user d) \<or> i \<in> fresh_images ?st ?now s (d_user d)"
  proof (cases "i \<in> set (unknown_images ?st ?now s (d_user d) (via (get_build s) ?bid) v (Some d))")
    case True
    from validate_retained_images_ok[OF chk(2) this] show ?thesis by (simp add: owner_retention_def retains_iff)
  next
    case False
    from referenced_unknown[OF iv this] consider
      (cur) "i \<in> set (release_images (d_user d) (get_rel s (d_desired_release d)) @
          release_images (d_user d) (via (get_rel s) (d_applied_release d)))"
      | (built) bl where "via (get_build s) ?bid = Some bl" "is_fresh ?st ?now bl" "has_image bl" "b_image bl = Some i" by blast
    then show ?thesis
    proof cases
      case cur
      have "i \<in> current_images (d_user d) (db_rels s) d" by (rule release_images_current[OF ok m cur])
      then show ?thesis using m live by (auto simp: ledger_images_def)
    next
      case built
      then obtain x where x: "?bid = Some x" "get_build s x = Some bl" by (auto simp: via_Some)
      with chk(1) have own: "b_dep bl = d_id d" by (simp add: validate_build_reference_def guardR_Inr_iff)
      have "i \<in> fresh_images ?st ?now s (d_user d)"
        unfolding fresh_images_def mem_Collect_eq
        by (intro bexI[OF _ row_get_in[OF x(2)]] conjI bexI[OF _ m]) (use built own in \<open>simp_all add: has_image_def\<close>)
      then show ?thesis ..
    qed
  qed
  then show ?thesis by (simp add: retentions_def retains_iff)
qed

text \<open>A prune of an owner's repository that goes by these rows removes no tag that resolves to the image.\<close>

definition prune_spares :: "settings \<Rightarrow> time \<Rightarrow> db \<Rightarrow> nat \<Rightarrow> string \<Rightarrow> bool" where
  "prune_spares st now s owner img \<longleftrightarrow>
     (\<forall>reg build_id dry_run tags tag.
        tag \<in> set (pr_removed (prune_owner reg build_id (retentions st now s owner) dry_run owner tags)) \<longrightarrow>
        tag_image reg (retentions st now s owner) owner tag \<noteq> Some img)"

lemma retained_spared: "retains (retentions st now s owner) img \<Longrightarrow> prune_spares st now s owner img"
  using fold_prune_removed unfolding prune_spares_def prune_owner_def by fastforce

lemma update_desires_images:
  assumes ok: "world_ok s" and u: "update_deployment env up s = Inr s'" and d: "get_dep s (du_id up) = Some d"
    and live: "d_deleted_at d = None" and d': "get_dep s' (du_id up) = Some d'"
    and i: "i \<in> set (owner_images (d_user d) (json_of (d_values d')))"
  shows "retains (retentions st now s' (d_user d)) i"
proof -
  from u d obtain h v b where a: "apply_update env up d h v b s = Inr s'" by (metis update_deployment_Inr option.inject)
  have k: "du_id up = d_id d" using row_get_key[OF d] by simp
  note T = apply_update_tables[OF a]
  have d'_eq: "d' = roll_out up (e_rel_id env) h v d" using d d' by (simp add: T(1) k row_get_upd_same)
  have ok': "world_ok s'" by (rule world_ok_update[OF ok u])
  let ?r = "new_release env (next_release_number s (d_id d)) (d_id d) (du_template up) b v"
  have "?r \<in> set (db_rels s')" by (simp add: T(2))
  then have "get_rel s' (r_id ?r) = Some ?r" using ok' constraintsD(5)[of s'] by (intro row_get_of_keyed) (simp_all add: world_ok_def)
  then have "get_rel s' (d_desired_release d') = Some ?r" by (simp add: d'_eq)
  then have "i \<in> set (release_images (d_user d) (get_rel s' (d_desired_release d')))"
    using i by (simp add: release_images_def d'_eq)
  then have "i \<in> current_images (d_user d) (db_rels s') d'" by (intro release_images_current[OF ok' row_get_in[OF d']]) simp
  moreover have "d_user d' = d_user d" "d_deleted_at d' = None" using live by (simp_all add: d'_eq roll_out_def)
  ultimately have "i \<in> ledger_images st s' (d_user d)" using row_get_in[OF d'] by (auto simp: ledger_images_def)
  then show ?thesis by (simp add: retentions_def retains_iff)
qed

text \<open>
  C9. An accepted update pulls only images that are kept. Every reference to the owner's own images among
  the values of the new release, of a deployment that is not deleted, is retained at the moment of the
  write by the rule the prune goes by, so that a prune running just before the write removes no tag of
  it; and once the update is written a prune that finds these rows, at whatever time and under whatever
  settings, removes none either. (A tag that an earlier prune removed, when the image was not retained,
  is not brought back: see \<open>left_image_returns\<close>.)
\<close>

theorem accepted_images_retained:
  assumes "world_ok s" "update_deployment env up s = Inr s'" "get_dep s (du_id up) = Some d"
    "d_deleted_at d = None" "get_dep s' (du_id up) = Some d'" "i \<in> set (owner_images (d_user d) (json_of (d_values d')))"
  shows "retains (retentions (e_settings env) (e_now env) s (d_user d)) i \<and>
    prune_spares (e_settings env) (e_now env) s (d_user d) i \<and> (\<forall>st now. prune_spares st now s' (d_user d) i)"
  using update_checked_images[OF assms] update_desires_images[OF assms] retained_spared by blast

section \<open>What no request takes back\<close>

lemma create_deployment_tables:
  assumes "create_deployment env pv p s = Inr (url, s')"
  obtains u prd ptv h v name ns sub where
    "check_create env p s = Inr (u, prd, ptv, h, v)"
    "db_deps s' = db_deps s @ [new_deployment env p name ns h v (pv \<noteq> None \<and> pt_price_cents ptv > 0) sub]"
    "db_rels s' = db_rels s @ [new_release env 1 (e_dep_id env) (dc_template p) (dc_build p) v]"
    "\<exists>x. db_subs s' = db_subs s @ [x] \<and> sub_id x = sub \<and> sub_user x = dc_user p \<and> sub_status x = SubActive \<and>
       sub_payment x = (if pv \<noteq> None \<and> pt_price_cents ptv > 0 then PayPending else PayCurrent)"
    "url = None \<longleftrightarrow> \<not> (pv \<noteq> None \<and> pt_price_cents ptv > 0)"
    "url = None \<longrightarrow> open_job_for (db_jobs s') (e_dep_id env) \<and> db_payments s' = db_payments s"
    "url \<noteq> None \<longrightarrow> db_jobs s' = db_jobs s \<and> (\<exists>pay. db_payments s' = db_payments s @ [pay] \<and> mp_sub pay = sub \<and>
       mp_status pay = MOpen \<and> mp_sequence pay = ''first'' \<and> mp_amount_cents pay = pt_price_cents ptv)"
    "db_powers s' = db_powers s" "\<And>e. open_job_for (db_jobs s) e \<Longrightarrow> open_job_for (db_jobs s') e"
proof -
  from assms obtain u prd ptv h v sub s1 where c: "check_create env p s = Inr (u, prd, ptv, h, v)" and
    i: "insert_deployment env p u prd h v (pv \<noteq> None \<and> pt_price_cents ptv > 0) s = Inr (sub, s1)" and
    fin: "(\<not> (pv \<noteq> None \<and> pt_price_cents ptv > 0) \<and> url = None \<and> request_reconcile (e_now env) ForCreate (e_dep_id env) s1 = Inr s') \<or>
     (pv \<noteq> None \<and> pt_price_cents ptv > 0 \<and> (\<exists>link. url = Some link \<and> start_payment (the pv) u ptv sub (e_dep_id env) s1 = Inr (link, s')))"
    by (rule create_deployment_Inr)
  define paid where "paid \<longleftrightarrow> pv \<noteq> None \<and> pt_price_cents ptv > 0"
  from i obtain name ns subs vs where s1: "s1 = snapshot_release (e_rel_id env) (e_dep_id env)
       (s\<lparr>db_subs := subs, db_deps := db_deps s @ [new_deployment env p name ns h v paid sub],
          db_rels := db_rels s @ [new_release env 1 (e_dep_id env) (dc_template p) (dc_build p) v], db_vars := vs\<rparr>)"
    and sb: "\<exists>x. subs = db_subs s @ [x] \<and> sub_id x = sub \<and> sub_user x = dc_user p \<and> sub_plan_template x = dc_plan_template p \<and>
       sub_status x = SubActive \<and> sub_payment x = (if paid then PayPending else PayCurrent) \<and> sub_mollie_id x = None"
    unfolding paid_def by (rule insert_deployment_Inr)
  have f: "db_deps s1 = db_deps s @ [new_deployment env p name ns h v paid sub]" "db_subs s1 = subs"
    "db_rels s1 = db_rels s @ [new_release env 1 (e_dep_id env) (dc_template p) (dc_build p) v]"
    "db_jobs s1 = db_jobs s" "db_payments s1 = db_payments s" "db_powers s1 = db_powers s" by (simp_all add: s1 snapshot_release_def)
  from fin consider (free) "\<not> paid" "url = None" "request_reconcile (e_now env) ForCreate (e_dep_id env) s1 = Inr s'"
    | (paid) link where "paid" "url = Some link" "start_payment (the pv) u ptv sub (e_dep_id env) s1 = Inr (link, s')"
    unfolding paid_def by blast
  then show thesis
  proof cases
    case free
    then obtain jt where s': "s' = s1\<lparr>db_jobs := jt\<rparr>" unfolding request_reconcile_Inr by blast
    show thesis
      by (rule that[OF c, of name ns sub, folded paid_def])
        (use free s' f sb request_reconcile_open(1)[OF free(3)] in \<open>simp_all, metis\<close>)
  next
    case paid
    obtain us pay where s': "s' = s1\<lparr>db_users := us, db_payments := db_payments s1 @ [pay]\<rparr>"
      "mp_sub pay = sub" "mp_status pay = MOpen" "mp_sequence pay = ''first''" "mp_amount_cents pay = pt_price_cents ptv"
      by (rule start_payment_Inr[OF paid(3)])
    show thesis
      by (rule that[OF c, of name ns sub, folded paid_def]) (use paid s' f sb in \<open>simp_all, metis\<close>)
  qed
qed

lemma request_step_monotone:
  assumes ok: "world_ok s" and x: "request_step x s = Inr s'"
  shows "(\<exists>rs. db_rels s' = db_rels s @ rs) \<and>
    (\<forall>d \<in> set (db_deps s). d_status d \<in> {DDeleting, DDeleted} \<longrightarrow> d \<in> set (db_deps s'))"
proof -
  have uniq: "d = e" if "d \<in> set (db_deps s)" "get_dep s i = Some e" "d_id d = i" for d e i
    using constraintsD(4) ok that row_get_in[OF that(2)] row_get_key[OF that(2)] keyed_unique[of d_id "db_deps s" d e]
    by (auto simp: world_ok_def)
  have keep: "d \<in> set (row_upd d_id i f (db_deps s))"
    if "get_dep s i = Some e" "d_status e \<notin> {DDeleting, DDeleted}" "d \<in> set (db_deps s)" "d_status d \<in> {DDeleting, DDeleted}" for d e i f
    using uniq[OF that(3,1)] that by (auto simp: set_row_upd)
  have power: ?thesis if "change_power now user i actor target s = Inr s'" for now user i actor target
    using that
  proof (cases rule: change_power_Inr)
    case (moved d jt row)
    then show ?thesis using keep[OF moved(1)] by simp
  qed simp
  show ?thesis
  proof (cases x)
    case (Create env pv p)
    with x obtain url where "create_deployment env pv p s = Inr (url, s')" by (cases "create_deployment env pv p s") auto
    then show ?thesis by (rule create_deployment_tables) simp
  next
    case (Update env up)
    with x have "update_deployment env up s = Inr s'" by simp
    then obtain d h v b where d: "get_dep s (du_id up) = Some d" and a: "apply_update env up d h v b s = Inr s'"
      by (rule update_deployment_Inr)
    obtain vs jt where "d_status d \<in> {DReady, DError}" by (rule apply_update_effect[OF a])
    then show ?thesis using keep[OF d] row_get_key[OF d] apply_update_tables(1,2)[OF a] by auto
  next
    case (Delete now user i)
    with x have "delete_deployment now user i s = Inr s'" by simp
    then show ?thesis
    proof (cases rule: delete_deployment_Inr)
      case (2 d jt)
      then show ?thesis using keep[OF 2(1,3)] by (simp del: insert_iff)
    qed simp
  next
    case (Stop now user i actor)
    with x show ?thesis by (intro power[of now user i actor PStopped]) (simp add: stop_deployment_def)
  next
    case (Start now user i actor)
    with x show ?thesis by (intro power[of now user i actor PRunning]) (simp add: start_deployment_def)
  qed
qed

text \<open>
  C11. No request takes anything back: over any history of requests the release ledger only grows
  at its end, so every release stays as it was recorded, and the row of a deployment that is being
  or has been deleted is never changed again by a user's request.
\<close>

theorem requests_take_nothing_back:
  assumes "world_ok s" and "d \<in> set (db_deps s)" and "d_status d \<in> {DDeleting, DDeleted}"
  shows "(\<exists>rs. db_rels (history request_step xs s) = db_rels s @ rs) \<and>
    d \<in> set (db_deps (history request_step xs s))"
  using assms
proof (induction xs arbitrary: s)
  case (Cons x xs)
  let ?t = "attempt request_step x s"
  have "world_ok ?t" using Cons.prems(1) by (rule requests.attempt_inv)
  moreover have "(\<exists>rs. db_rels ?t = db_rels s @ rs) \<and> d \<in> set (db_deps ?t)"
    using request_step_monotone[OF Cons.prems(1), of x] Cons.prems(2,3)
    by (cases "request_step x s") (auto simp: attempt_def)
  ultimately show ?case using Cons.IH[of ?t] Cons.prems(3) by auto
qed simp

section \<open>The effect of a creation\<close>

lemma check_create_Inr:
  assumes "check_create env p s = Inr (u, prd, ptv, h, v)"
  obtains t pl where "get_user s (dc_user p) = Some u" "u_deleted_at u = None" "get_template s (dc_template p) = Some t"
    "get_product s (t_product t) = Some prd" "p_template_id prd = Some (t_id t)" "u_handle u \<noteq> None"
    "normalize_hostname (e_str env) (require_valid_hostname (e_dns env) (e_settings env) (db_deps s) (u_handle u) None)
       (t_schema t) (Some (dc_values p)) = Inr (h, v)"
    "validate_user_values (e_jsv env) v (t_schema t) = Inr ()"
    "validate_plan_template s (dc_plan_template p) (t_product t) = Inr ptv" "u_tos_version u \<noteq> None"
    "validate_build_reference s None (dc_build p) = Inr ()"
    "validate_retained_images (e_settings env) (e_now env) s (dc_user p) None v None = Inr ()"
proof -
  obtain u' where u': "get_user s (dc_user p) = Some u'"
    using assms by (cases "get_user s (dc_user p)") (simp_all add: check_create_def)
  note c1 = assms[unfolded check_create_def u' option.case]
  have live: "u_deleted_at u' = None" using c1 by (cases "u_deleted_at u'") simp_all
  obtain t where t: "get_template s (dc_template p) = Some t"
    using c1 live by (cases "get_template s (dc_template p)") simp_all
  obtain prd' where prd': "get_product s (t_product t) = Some prd'"
    using c1 live t by (cases "get_product s (t_product t)") simp_all
  have nn: "\<not> u_deleted_at u' \<noteq> None" using live by simp
  note c2 = c1[unfolded if_not_P[OF nn] t prd' option.case]
  have canon: "\<not> p_template_id prd' \<noteq> Some (t_id t)"
  proof
    assume "p_template_id prd' \<noteq> Some (t_id t)"
    from c2[unfolded if_P[OF this]] show False by simp
  qed
  note c3 = c2[unfolded if_not_P[OF canon]]
  have hd: "\<not> u_handle u' = None"
  proof
    assume "u_handle u' = None"
    from c3[unfolded if_P[OF this]] show False by simp
  qed
  note c4 = c3[unfolded if_not_P[OF hd]]
  from c4 obtain h' v' ptv' where n: "normalize_hostname (e_str env)
       (require_valid_hostname (e_dns env) (e_settings env) (db_deps s) (u_handle u') None)
       (t_schema t) (Some (dc_values p)) = Inr (h', v')"
    "validate_user_values (e_jsv env) v' (t_schema t) = Inr ()"
    "validate_plan_template s (dc_plan_template p) (t_product t) = Inr ptv'"
    and r: "(if u_tos_version u' = None then Inl (ValidationErr ''Terms of Service must be accepted before deploying'')
       else bindR (validate_build_reference s None (dc_build p)) (\<lambda>_.
            bindR (validate_retained_images (e_settings env) (e_now env) s (dc_user p) None v' None) (\<lambda>_.
              Inr (u', prd', ptv', h', v')))) = Inr (u, prd, ptv, h, v)"
    by (elim bindR2E bindRE) simp
  have tos: "\<not> u_tos_version u' = None"
  proof
    assume "u_tos_version u' = None"
    from r[unfolded if_P[OF this]] show False by simp
  qed
  from r[unfolded if_not_P[OF tos]] have e: "validate_build_reference s None (dc_build p) = Inr ()"
    "validate_retained_images (e_settings env) (e_now env) s (dc_user p) None v' None = Inr ()"
    "u' = u" "prd' = prd" "ptv' = ptv" "h' = h" "v' = v"
    by (auto simp: bindR_Inr_iff)
  show thesis
    by (rule that[of t]) (use u' live t prd' canon hd n tos e in simp_all)
qed

lemma validate_plan_template_Inr:
  "validate_plan_template s i product_id = Inr ptv \<Longrightarrow>
     get_plan_template s i = Some ptv \<and> pt_deleted_at ptv = None \<and>
     (\<exists>p. get_plan s (pt_plan ptv) = Some p \<and> pl_product p = product_id \<and> pl_template_id p = Some (pt_id ptv))"
  by (auto simp: validate_plan_template_def split: option.splits if_splits)

text \<open>
  C8. What an accepted creation does, and for whom: only for a live account that holds a handle and
  has accepted the terms, on the canonical template of a product and the canonical version of one of
  its plans, and naming no build. It adds one deployment and its release number 1, carrying the same
  values, and one active subscription. Either nothing is owed, the deployment is provisioning and a
  job is queued; or a first payment of the plan's price is open, the deployment and the subscription
  are pending, and no job is queued: nothing runs before it is paid.
\<close>

theorem create_effect:
  assumes "create_deployment env pv p s = Inr (url, s')"
  shows "\<exists>u t prd ptv pl d r x.
    get_user s (dc_user p) = Some u \<and> u_deleted_at u = None \<and> u_handle u \<noteq> None \<and> u_tos_version u \<noteq> None \<and>
    get_template s (dc_template p) = Some t \<and> get_product s (t_product t) = Some prd \<and> p_template_id prd = Some (t_id t) \<and>
    get_plan_template s (dc_plan_template p) = Some ptv \<and> pt_deleted_at ptv = None \<and>
    get_plan s (pt_plan ptv) = Some pl \<and> pl_product pl = t_product t \<and> pl_template_id pl = Some (pt_id ptv) \<and>
    dc_build p = None \<and>
    db_deps s' = db_deps s @ [d] \<and> d_user d = dc_user p \<and> d_applied_release d = None \<and>
    db_rels s' = db_rels s @ [r] \<and> r_id r = d_desired_release d \<and> r_number r = 1 \<and> r_values r = d_values d \<and>
    db_subs s' = db_subs s @ [x] \<and> sub_id x = d_subscription d \<and> sub_status x = SubActive \<and>
    (if pv = None \<or> pt_price_cents ptv \<le> 0
     then url = None \<and> d_status d = DProvisioning \<and> sub_payment x = PayCurrent \<and> open_job_for (db_jobs s') (d_id d) \<and>
       db_payments s' = db_payments s
     else url \<noteq> None \<and> d_status d = DPending \<and> sub_payment x = PayPending \<and> db_jobs s' = db_jobs s \<and>
       (\<exists>pay. db_payments s' = db_payments s @ [pay] \<and> mp_sub pay = sub_id x \<and> mp_status pay = MOpen \<and>
          mp_amount_cents pay = pt_price_cents ptv))"
proof -
  from assms obtain u prd ptv h v name ns sub where c: "check_create env p s = Inr (u, prd, ptv, h, v)" and
    deps: "db_deps s' = db_deps s @ [new_deployment env p name ns h v (pv \<noteq> None \<and> pt_price_cents ptv > 0) sub]" and
    rels: "db_rels s' = db_rels s @ [new_release env 1 (e_dep_id env) (dc_template p) (dc_build p) v]" and
    subs: "\<exists>x. db_subs s' = db_subs s @ [x] \<and> sub_id x = sub \<and> sub_user x = dc_user p \<and> sub_status x = SubActive \<and>
       sub_payment x = (if pv \<noteq> None \<and> pt_price_cents ptv > 0 then PayPending else PayCurrent)" and
    url: "url = None \<longleftrightarrow> \<not> (pv \<noteq> None \<and> pt_price_cents ptv > 0)" and
    free: "url = None \<longrightarrow> open_job_for (db_jobs s') (e_dep_id env) \<and> db_payments s' = db_payments s" and
    paid: "url \<noteq> None \<longrightarrow> db_jobs s' = db_jobs s \<and> (\<exists>pay. db_payments s' = db_payments s @ [pay] \<and> mp_sub pay = sub \<and>
       mp_status pay = MOpen \<and> mp_sequence pay = ''first'' \<and> mp_amount_cents pay = pt_price_cents ptv)"
    by (rule create_deployment_tables)
  from c obtain t where g: "get_user s (dc_user p) = Some u" "u_deleted_at u = None" "get_template s (dc_template p) = Some t"
    "get_product s (t_product t) = Some prd" "p_template_id prd = Some (t_id t)" "u_handle u \<noteq> None" "u_tos_version u \<noteq> None"
    and pt: "validate_plan_template s (dc_plan_template p) (t_product t) = Inr ptv"
    and b: "validate_build_reference s None (dc_build p) = Inr ()"
    by (rule check_create_Inr)
  from validate_plan_template_Inr[OF pt] obtain pl where pl: "get_plan_template s (dc_plan_template p) = Some ptv"
    "pt_deleted_at ptv = None" "get_plan s (pt_plan ptv) = Some pl" "pl_product pl = t_product t" "pl_template_id pl = Some (pt_id ptv)"
    by blast
  from b have nb: "dc_build p = None"
    by (auto simp: validate_build_reference_def guardR_Inr_iff split: option.splits)
  from subs obtain x where x: "db_subs s' = db_subs s @ [x]" "sub_id x = sub" "sub_status x = SubActive"
    "sub_payment x = (if pv \<noteq> None \<and> pt_price_cents ptv > 0 then PayPending else PayCurrent)" by blast
  let ?d = "new_deployment env p name ns h v (pv \<noteq> None \<and> pt_price_cents ptv > 0) sub"
  let ?r = "new_release env 1 (e_dep_id env) (dc_template p) (dc_build p) v"
  have "if pv = None \<or> pt_price_cents ptv \<le> 0
     then url = None \<and> d_status ?d = DProvisioning \<and> sub_payment x = PayCurrent \<and> open_job_for (db_jobs s') (d_id ?d) \<and>
       db_payments s' = db_payments s
     else url \<noteq> None \<and> d_status ?d = DPending \<and> sub_payment x = PayPending \<and> db_jobs s' = db_jobs s \<and>
       (\<exists>pay. db_payments s' = db_payments s @ [pay] \<and> mp_sub pay = sub_id x \<and> mp_status pay = MOpen \<and>
          mp_amount_cents pay = pt_price_cents ptv)"
  proof (cases "pv = None \<or> pt_price_cents ptv \<le> 0")
    case True
    then have n: "\<not> (pv \<noteq> None \<and> pt_price_cents ptv > 0)" by auto
    have "url = None" using url n by blast
    moreover have "\<not> (pv \<noteq> None \<and> 0 < pt_price_cents ptv)" using n .
    ultimately show ?thesis using free x(4) unfolding if_P[OF True] if_not_P[OF n]
      by (simp split del: if_split) (use n in auto)
  next
    case False
    then have n: "pv \<noteq> None \<and> pt_price_cents ptv > 0" by auto
    show ?thesis using url paid x(2,4) n unfolding if_not_P[OF False] if_P[OF n] by auto
  qed
  with deps rels x g pl nb show ?thesis
    by (intro exI[of _ u] exI[of _ t] exI[of _ prd] exI[of _ ptv] exI[of _ pl] exI[of _ ?d] exI[of _ ?r] exI[of _ x])
      (simp split del: if_split)
qed

section \<open>The hostname a write stores\<close>





section \<open>Power\<close>

text \<open>
  What may happen to the tables before a worker finishes a job: a request of any user, a claim, or a
  worker putting a job off.
\<close>

datatype event =
    Asks request
  | Claims "job \<Rightarrow> bool" nat time string
  | Defers time nat time "string option"

fun event_step :: "event \<Rightarrow> db \<Rightarrow> db result" where
  "event_step (Asks x) s = request_step x s"
| "event_step (Claims skip lease now w) s = Inr (s\<lparr>db_jobs := snd (claim_next_job skip lease now w (db_jobs s))\<rparr>)"
| "event_step (Defers now jid delay w) s =
     bindR (defer_job now jid delay w (db_jobs s)) (\<lambda>(j, jt). Inr (s\<lparr>db_jobs := jt\<rparr>))"

text \<open>While a deployment has an open job, its row, the job and the recorded powers stay.\<close>

definition keeps_busy :: "uuid \<Rightarrow> db \<Rightarrow> db \<Rightarrow> bool" where
  "keeps_busy i s s' \<longleftrightarrow> get_dep s' i = get_dep s i \<and> open_job_for (db_jobs s') i \<and> (\<exists>ps. db_powers s' = db_powers s @ ps)"

lemma keeps_busy_trans: "keeps_busy i s t \<Longrightarrow> keeps_busy i t u \<Longrightarrow> keeps_busy i s u"
  by (auto simp: keeps_busy_def)

lemma request_keeps_busy:
  assumes d: "get_dep s i = Some d" and busy: "open_job_for (db_jobs s) i" and x: "request_step x s = Inr s'"
  shows "keeps_busy i s s'"
proof -
  have other: "k \<noteq> i \<and> open_job_for (db_jobs t) i" if "request_reconcile now why k u = Inr t" "db_jobs u = db_jobs s" for now why k u t
    using request_reconcile_open(1,3)[OF that(1)] that(2) busy by auto
  have same: "keeps_busy i s s" using busy by (simp add: keeps_busy_def)
  have power: "keeps_busy i s s'" if "change_power now user k actor target s = Inr s'" for now user k actor target
    using that
  proof (cases rule: change_power_Inr)
    case (moved d0 jt row)
    from other[OF moved(7)] moved(8) show ?thesis by (simp add: keeps_busy_def row_get_upd_other)
  qed (use same in simp)
  show ?thesis
  proof (cases x)
    case (Create env pv p)
    with x obtain url where "create_deployment env pv p s = Inr (url, s')" by (cases "create_deployment env pv p s") auto
    then show ?thesis
      by (rule create_deployment_tables) (use d busy in \<open>simp add: keeps_busy_def row_get_append\<close>)
  next
    case (Update env up)
    with x have "update_deployment env up s = Inr s'" by simp
    then obtain d0 h v b where a: "apply_update env up d0 h v b s = Inr s'" by (rule update_deployment_Inr)
    obtain vs jt where e: "enqueue_job (known_dep s) (e_now env) ForUpdate None (d_id d0) (db_jobs s) = Inr jt"
        "s' = s\<lparr>db_deps := row_upd d_id (d_id d0) (roll_out up (e_rel_id env) h v) (db_deps s),
            db_rels := db_rels s @ [new_release env (next_release_number s (d_id d0)) (d_id d0) (du_template up) b v],
            db_vars := vs, db_relvars := db_relvars s', db_jobs := snd jt\<rparr>"
      by (rule apply_update_effect[OF a])
    have "request_reconcile (e_now env) ForUpdate (d_id d0) s = Inr (s\<lparr>db_jobs := snd jt\<rparr>)"
      by (simp add: request_reconcile_def e(1))
    from other[OF this refl] have ne: "d_id d0 \<noteq> i" "open_job_for (snd jt) i" by simp_all
    have "get_dep s' i = get_dep s i" using ne(1) by (simp add: apply_update_tables(1)[OF a] row_get_upd_other)
    moreover have "db_jobs s' = snd jt" "db_powers s' = db_powers s" by (subst e(2); simp)+
    ultimately show ?thesis using ne(2) by (simp add: keeps_busy_def)
  next
    case (Delete now user k)
    with x have "delete_deployment now user k s = Inr s'" by simp
    then show ?thesis
    proof (cases rule: delete_deployment_Inr)
      case (2 d0 jt)
      from other[OF 2(5)] 2(6) show ?thesis by (simp add: keeps_busy_def row_get_upd_other)
    qed (use same in simp)
  next
    case (Stop now user k actor)
    with x show ?thesis by (intro power[of now user k actor PStopped]) (simp add: stop_deployment_def)
  next
    case (Start now user k actor)
    with x show ?thesis by (intro power[of now user k actor PRunning]) (simp add: start_deployment_def)
  qed
qed

lemma open_row_upd:
  assumes "open_job_for jt i" "\<And>j. job_open j \<Longrightarrow> job_open (f j) \<and> job_dep (f j) = job_dep j"
  shows "open_job_for (jt\<lparr>jt_rows := row_upd job_id k f (jt_rows jt)\<rparr>) i"
proof -
  from assms(1) obtain j where j: "j \<in> set (jt_rows jt)" "job_open j" "job_dep j = i" by (auto simp: open_job_for_def slot_taken_def)
  show ?thesis
  proof (cases "job_id j = k")
    case True
    with j have "f j \<in> set (row_upd job_id k f (jt_rows jt))" by (auto simp: set_row_upd)
    with assms(2)[OF j(2)] j(3) show ?thesis by (auto simp: open_job_for_def slot_taken_def)
  next
    case False
    with j have "j \<in> set (row_upd job_id k f (jt_rows jt))" by (auto simp: set_row_upd)
    with j show ?thesis by (auto simp: open_job_for_def slot_taken_def)
  qed
qed

lemma event_keeps_busy:
  assumes d: "get_dep s i = Some d" and busy: "open_job_for (db_jobs s) i" and x: "event_step x s = Inr s'"
  shows "keeps_busy i s s'"
proof (cases x)
  case (Asks r)
  with x request_keeps_busy[OF d busy] show ?thesis by simp
next
  case (Claims skip lease now w)
  obtain c jt where c: "claim_next_job skip lease now w (db_jobs s) = (c, jt)" by fastforce
  have "open_job_for jt i"
  proof (cases c)
    case None
    with c busy show ?thesis by (simp add: claim_next_job_None)
  next
    case (Some j')
    from c[unfolded this] show ?thesis
    proof (rule claim_next_job_Some)
      fix j
      assume "jt = (db_jobs s)\<lparr>jt_rows := row_upd job_id (job_id j) (claim_row now w) (jt_rows (db_jobs s))\<rparr>"
      then show ?thesis using open_row_upd[OF busy, of "claim_row now w"] by (simp add: claim_row_def job_open_def)
    qed
  qed
  with x Claims c show ?thesis by (auto simp: keeps_busy_def)
next
  case (Defers now jid delay w)
  with x obtain j jt where c: "defer_job now jid delay w (db_jobs s) = Inr (j, jt)" and s': "s' = s\<lparr>db_jobs := jt\<rparr>"
    by (auto simp: bindR_Inr_iff)
  from c[unfolded defer_job_def] have "open_job_for jt i"
  proof (rule update_job_Inr)
    assume "jt = (db_jobs s)\<lparr>jt_rows := row_upd job_id jid (\<lambda>j. if held_by w j then j\<lparr>job_status := JQueued, job_run_after := now + delay, job_locked_by := None,
              job_locked_at := None, job_updated_at := now\<rparr> else j) (jt_rows (db_jobs s))\<rparr>"
    then show ?thesis by (simp only:) (rule open_row_upd[OF busy], simp add: job_open_def)
  qed
  with s' show ?thesis by (simp add: keeps_busy_def)
qed

lemma history_keeps_busy:
  assumes "get_dep s i = Some d" "open_job_for (db_jobs s) i"
  shows "keeps_busy i s (history event_step es s)"
  using assms
proof (induction es arbitrary: s)
  case (Cons e es)
  have k: "keeps_busy i s (attempt event_step e s)"
    using event_keeps_busy[OF Cons.prems, of e] Cons.prems(2) by (auto simp: attempt_def keeps_busy_def split: sum.splits)
  with Cons.prems(1) have "get_dep (attempt event_step e s) i = Some d" "open_job_for (db_jobs (attempt event_step e s)) i"
    by (simp_all add: keeps_busy_def)
  from keeps_busy_trans[OF k Cons.IH[OF this]] show ?case by simp
qed (simp add: keeps_busy_def)

text \<open>
  C12. A power request: one that asks for the power the deployment already asks for changes nothing,
  whatever the status. Any other is accepted only for a ready deployment with no open job, and never
  starts one stopped for payment; it records one row and queues one job, what is applied and the
  status stay as they are. From then on, whatever requests users make and whatever jobs workers claim, take over
  and put off, until a worker finishes the job, the owner's opposite request is refused.
\<close>

theorem power_request_effect:
  assumes ok: "world_ok s" and c: "change_power now user i actor target s = Inr s'" and d: "get_dep s i = Some d"
    and fk: "\<forall>k. d_applied_power d = Some k \<longrightarrow> get_power s k \<noteq> None" and other: "target' \<noteq> target"
  shows "if pr_desired (deployment_power s d) = target then s' = s
    else d_status d = DReady \<and> \<not> open_job_for (db_jobs s) i \<and> open_job_for (db_jobs s') i \<and>
      (target = PRunning \<longrightarrow> pr_reason (deployment_power s d) \<noteq> Some PPayment) \<and>
      (\<exists>d' row. get_dep s' i = Some d' \<and> db_powers s' = db_powers s @ [row] \<and> pw_state row = target \<and>
         d' = d\<lparr>d_desired_power := Some (pw_id row)\<rparr> \<and> pr_desired (deployment_power s' d') = target \<and>
         pr_applied (deployment_power s' d') = pr_applied (deployment_power s d)) \<and>
      (\<exists>m. change_power now' user i actor' target' (history event_step es s') = Inl (InProgressErr m))"
  using c
proof (cases rule: change_power_Inr)
  case (same d0)
  with d show ?thesis by (simp add: deployment_power_def Let_def)
next
  case (moved d0 jt row)
  then have d0: "d0 = d" using d by simp
  let ?d' = "d\<lparr>d_desired_power := Some (pw_id row)\<rparr>"
  have ne: "pr_desired (deployment_power s d) \<noteq> target" using moved(4) by (simp add: d0 deployment_power_def Let_def)
  have s': "db_powers s' = db_powers s @ [row]" "db_deps s' = row_upd d_id i (\<lambda>d. d\<lparr>d_desired_power := Some (pw_id row)\<rparr>) (db_deps s)"
    by (simp_all add: moved(8))
  have g: "get_dep s' i = Some ?d'" unfolding s' using d by (subst row_get_upd_same) simp_all
  have id: "pw_id row = next_id pw_id (db_powers s)" "pw_state row = target" "pw_reason row = PManual"
    by (simp_all add: moved(6) new_power_def)
  have none: "get_power s (pw_id row) = None"
    using next_id_new[of pw_id "db_powers s"] by (simp add: row_get_None_iff id)
  have new: "get_power s' (pw_id row) = Some row"
    using none by (simp add: s' row_get_append table_simps)
  have old: "get_power s' k = get_power s k" if "get_power s k \<noteq> None" for k
    using that by (auto simp: s' row_get_append)
  have des: "pr_desired (deployment_power s' ?d') = target"
    by (simp add: deployment_power_def Let_def via_def new power_state_of_def id(2))
  have app: "pr_applied (deployment_power s' ?d') = pr_applied (deployment_power s d)"
    using old fk by (cases "d_applied_power d") (auto simp: deployment_power_def Let_def via_def)
  note o = request_reconcile_open[OF moved(7)]
  have jobs: "\<not> open_job_for (db_jobs s) i" "open_job_for (db_jobs s') i" using o(1)[of i] o(3) by simp_all
  have reason: "target = PRunning \<longrightarrow> pr_reason (deployment_power s d) \<noteq> Some PPayment"
    using moved(5) by (auto simp: d0 deployment_power_def Let_def split: option.splits if_splits)
  let ?t = "history event_step es s'"
  from history_keeps_busy[OF g jobs(2), of es] obtain ps where t: "get_dep ?t i = Some ?d'" "open_job_for (db_jobs ?t) i"
      "db_powers ?t = db_powers s' @ ps"
    by (auto simp: keeps_busy_def g)
  have row: "via (get_power ?t) (d_desired_power ?d') = Some row" using new by (simp add: via_def t(3) row_get_append)
  have "locked_deployment ?t user i = Inr ?d'"
    using moved(2,3) by (simp add: locked_deployment_def t(1) d0)
  moreover have "request_reconcile now' ForPower i u = Inl (InProgressErr ''A deployment job is already queued or running'')"
    if "db_jobs u = db_jobs ?t" for u
    using t(2) that by (simp add: request_reconcile_def enqueue_job_def)
  ultimately have "\<exists>m. change_power now' user i actor' target' ?t = Inl (InProgressErr m)"
    using other moved(3) id(2,3) row by (simp add: change_power_def Let_def d0 power_state_of_def)
  with ne g s'(1) id(2) des app jobs reason moved(3) show ?thesis
    unfolding if_not_P[OF ne] d0 by blast
qed

end
