(* ===== verification/Shop.thy ===== *)
theory Shop
  imports Requests
begin

text \<open>
  A small platform on which the properties of the deployment services are exercised: one account,
  one product with an open schema and one that keeps a hostname, a free and a paid plan, and one
  running deployment whose four releases carried four different images. It also shows that an image
  that has left retention can come back.
\<close>

section \<open>The platform\<close>

definition tenant_img :: "char \<Rightarrow> string" where
  "tenant_img c = ''1@sha256:'' @ replicate 64 c"

definition img_values :: "char \<Rightarrow> pydict" where
  "img_values c = [(''image'', JStr (tenant_img c))]"

definition img_release :: "nat \<Rightarrow> char \<Rightarrow> release" where
  "img_release n c = \<lparr>r_id = 69 + n, r_number = n, r_dep = 7, r_template = 1, r_build = None, r_values = Some (img_values c),
     r_created_at = 0, r_started_at = Some 1, r_ended_at = Some 2, r_error = None, r_helm_revision = Some n\<rparr>"

definition shop_dep :: deployment where
  "shop_dep = demo_dep\<lparr>d_desired_release := 73, d_applied_release := Some 73, d_hostname := None,
     d_values := Some (img_values CHR ''d'')\<rparr>"

definition host_template :: template where
  "host_template = open_template\<lparr>t_id := 2, t_product := 2,
     t_schema := Some [(''properties'', JObj [(''host'', JObj [(''title'', JStr ''Hostname'')])])]\<rparr>"

definition shop_plans :: "plan list" where
  "shop_plans = [\<lparr>pl_id = 1, pl_name = ''free'', pl_product = 2, pl_template_id = Some 1\<rparr>,
     \<lparr>pl_id = 2, pl_name = ''pro'', pl_product = 2, pl_template_id = Some 2\<rparr>]"

definition shop_plan_templates :: "plan_template list" where
  "shop_plan_templates =
     [\<lparr>pt_id = 1, pt_plan = 1, pt_price_cents = 0, pt_interval = Monthly, pt_storage_bytes = None, pt_database_bytes = None, pt_deleted_at = None\<rparr>,
      \<lparr>pt_id = 2, pt_plan = 2, pt_price_cents = 999, pt_interval = Monthly, pt_storage_bytes = None, pt_database_bytes = None, pt_deleted_at = None\<rparr>]"

definition shop :: db where
  "shop = empty_db\<lparr>db_users := [demo_user],
     db_products := [\<lparr>p_id = 1, p_name = ''custom'', p_slug = None, p_template_id = Some 1\<rparr>,
                     \<lparr>p_id = 2, p_name = ''wiki'', p_slug = None, p_template_id = Some 2\<rparr>],
     db_templates := [open_template, host_template], db_plans := shop_plans, db_plan_templates := shop_plan_templates,
     db_deps := [shop_dep],
     db_rels := [img_release 1 CHR ''a'', img_release 2 CHR ''b'', img_release 3 CHR ''c'', img_release 4 CHR ''d'']\<rparr>"

definition shop_env :: env where
  "shop_env = \<lparr>e_settings = demo_settings, e_dns = demo_dns, e_jsv = accept_all, e_crypto = demo_crypto, e_now = 5,
     e_str = (\<lambda>_. []), e_name_rnd = (\<lambda>_. 0), e_ns_rnd = (\<lambda>_ _. 0), e_dep_id = 8, e_rel_id = 80\<rparr>"

definition roll_back :: dep_update where
  "roll_back = \<lparr>du_id = 7, du_user = Some 1, du_template = 1, du_values = Some (img_values CHR ''c''), du_build = None, du_vars = []\<rparr>"

lemma shop_tables:
  "db_deps shop = [shop_dep]" "db_jobs shop = \<lparr>jt_rows = [], jt_next = 1\<rparr>" "db_vars shop = []" "db_builds shop = []"
  "db_rels shop = [img_release 1 CHR ''a'', img_release 2 CHR ''b'', img_release 3 CHR ''c'', img_release 4 CHR ''d'']"
  "db_relvars shop = []" "db_users shop = [demo_user]" "db_templates shop = [open_template, host_template]"
  "db_powers shop = []" "db_payments shop = []" "db_subs shop = []"
  by (simp_all add: shop_def empty_db_def)

lemma shop_dep_simps [simp]:
  "d_id shop_dep = 7" "d_user shop_dep = 1" "d_status shop_dep = DReady" "d_desired_release shop_dep = 73"
  "d_applied_release shop_dep = Some 73" "d_hostname shop_dep = None" "d_deleted_at shop_dep = None"
  "d_desired_template shop_dep = 1" "d_namespace shop_dep = ''wiki-ada-abcdef123''"
  "d_desired_power shop_dep = None" "d_applied_power shop_dep = None"
  by (simp_all add: shop_dep_def demo_dep_def)

lemma img_release_simps [simp]:
  "r_id (img_release n c) = 69 + n" "r_number (img_release n c) = n" "r_dep (img_release n c) = 7"
  "r_values (img_release n c) = Some (img_values c)"
  by (simp_all add: img_release_def)

lemma shop_ok: "world_ok shop"
  unfolding world_defs constraints_def
  by (simp add: shop_tables uq_hostname_active_def uq_deployment_active_def one_open_def live_host_def
      uq_deployment_namespace_def uq_release_number_def jobs_wf_def)

section \<open>Images\<close>

lemma tenant_img_inj [simp]: "tenant_img c = tenant_img c' \<longleftrightarrow> c = c'"
  by (simp add: tenant_img_def)

lemma owner_images_img:
  assumes "is_hex c"
  shows "owner_images 1 (json_of (Some (img_values c))) = [tenant_img c]"
proof -
  have "tenant_img c \<in> lang (owner_image_re 1)"
    using assms by (auto simp: owner_image_re_def rx_lang owner_one tenant_img_def simp del: One_nat_def)
  then show ?thesis by (simp add: owner_images_def json_of_def img_values_def re_fullmatch_lang)
qed

lemmas owner_images_simp [simp] = owner_images_img[unfolded One_nat_def]

lemma hex_abcd [simp]: "is_hex (CHR ''a'')" "is_hex (CHR ''b'')" "is_hex (CHR ''c'')" "is_hex (CHR ''d'')"
  by (simp_all add: is_hex_def in_range_def cp_def)

text \<open>What is current and what is earlier, before and after going back to an earlier image.\<close>

definition rolled_dep :: deployment where
  "rolled_dep = roll_out roll_back 80 None (Some (img_values CHR ''c'')) shop_dep"

definition rolled_rels :: "release list" where
  "rolled_rels = db_rels shop @ [new_release shop_env 5 7 1 None (Some (img_values CHR ''c''))]"

lemma shop_env_simps [simp]:
  "e_settings shop_env = demo_settings" "e_jsv shop_env = accept_all" "e_crypto shop_env = demo_crypto" "e_now shop_env = 5"
  "e_dep_id shop_env = 8" "e_rel_id shop_env = 80" "e_dns shop_env = demo_dns"
  by (simp_all add: shop_env_def)

lemma shop_current: "current_images 1 (db_rels shop) shop_dep = {tenant_img CHR ''d''}"
  by (auto simp: current_images_def shop_tables)

lemma shop_past: "past_releases (db_rels shop) shop_dep = [img_release 3 CHR ''c'', img_release 2 CHR ''b'', img_release 1 CHR ''a'']"
  by (simp add: past_releases_def shop_tables current_kind_def del: One_nat_def)

lemma shop_earlier: "earlier_images 1 2 (db_rels shop) shop_dep = [tenant_img CHR ''c'', tenant_img CHR ''b'']"
  unfolding earlier_images_def shop_current shop_past by (simp add: numeral_2_eq_2)

lemma rolled_current: "current_images 1 rolled_rels rolled_dep = {tenant_img CHR ''c'', tenant_img CHR ''d''}"
  by (auto simp: current_images_def shop_tables rolled_rels_def rolled_dep_def)

lemma rolled_past: "past_releases rolled_rels rolled_dep = [img_release 3 CHR ''c'', img_release 2 CHR ''b'', img_release 1 CHR ''a'']"
  by (simp add: past_releases_def rolled_rels_def rolled_dep_def shop_tables current_kind_def del: One_nat_def)

lemma rolled_earlier: "earlier_images 1 2 rolled_rels rolled_dep = [tenant_img CHR ''b'', tenant_img CHR ''a'']"
  unfolding earlier_images_def rolled_current rolled_past by (simp add: numeral_2_eq_2)

lemma shop_retained:
  "retains (owner_retention demo_settings now shop 1) i \<longleftrightarrow> i \<in> {tenant_img CHR ''d'', tenant_img CHR ''c'', tenant_img CHR ''b''}"
proof -
  have "{d \<in> set (db_deps shop). d_user d = 1 \<and> d_deleted_at d = None} = {shop_dep}" by (auto simp: shop_tables)
  moreover have "fresh_images demo_settings now shop 1 = {}" by (simp add: fresh_images_def shop_tables)
  moreover have "st_past_images demo_settings = 2" by (simp add: demo_settings_def)
  ultimately show ?thesis
    by (simp add: owner_retention_def retains_iff ledger_images_def shop_current shop_earlier del: One_nat_def) blast
qed

section \<open>The update back to an earlier image\<close>

text \<open>A write that says nothing of vars, of a deployment that has none, writes nothing.\<close>

lemma write_no_vars:
  assumes "db_vars s = []" "get_template s (d_desired_template dep) = Some t" "t_schema t = Some sch" "sch \<noteq> []"
  shows "write_vars accept_all cr now dep actor [] False err s = Inr s"
proof -
  obtain kv rest where sch: "sch = kv # rest" using assms(4) by (cases sch) auto
  have h: "head (db_vars s) (d_id dep) = []" by (simp add: assms(1) head_def)
  have d: "desired_vars cr [] dv [] False = Inr ([], [])" for dv by (simp add: desired_vars_def)
  have p: "pr_vars (derive_projections (t_schema t)) = Some (vars_projection sch)"
    by (simp add: derive_projections_def assms(3) sch)
  obtain kv' rest' where v: "vars_projection sch = kv' # rest'"
    by (cases "vars_projection sch") (auto simp: vars_projection_def Let_def)
  have vv: "validate_vars accept_all [] (Some (vars_projection sch)) = Inr ()"
    by (simp add: validate_vars_def dict_or_empty_def v accept_all_def Let_def)
  have vd: "validate_document accept_all uv [] (Some sch) e = Inr ()" for uv e
    by (simp add: validate_document_def dict_or_empty_def accept_all_def Let_def sch)
  have l: "check_limits [] = Inr ()" by (simp add: check_limits_def max_vars_per_deployment_def)
  show ?thesis
    unfolding write_vars_def Let_def assms(2) option.case h p d bindR.simps prod.case
    by (simp add: vv vd l assms(1,3))
qed

definition rolled_shop :: db where
  "rolled_shop = shop\<lparr>db_deps := [rolled_dep], db_rels := rolled_rels\<rparr>"

lemma roll_back_check: "check_update shop_env roll_back shop_dep shop = Inr (None, Some (img_values CHR ''c''), None)"
proof -
  have t: "get_template shop 1 = Some open_template"
    by (simp add: shop_tables table_simps open_template_def demo_template_def)
  have s: "t_schema open_template = Some [(vars_additional_key, JBool True)]" by (simp add: open_template_def)
  have n: "normalize_hostname str c (t_schema open_template) uv = Inr (None, uv)" for str c uv
    by (simp add: normalize_hostname_def s vars_additional_key_def titled_hostname_def sub_object_def schema_definitions_def)
  have v: "validate_user_values accept_all uv (t_schema open_template) = Inr ()" for uv
    by (simp add: validate_user_values_def s derive_projections_def accept_all_def split: list.splits)
  have u: "unknown_images demo_settings 5 shop 1 None (Some (img_values CHR ''c'')) (Some shop_dep) = [tenant_img CHR ''c'']"
    by (simp add: unknown_images_def Let_def release_images_def shop_tables table_simps via_def)
  have r: "validate_retained_images demo_settings 5 shop 1 None (Some (img_values CHR ''c'')) (Some shop_dep) = Inr ()"
    unfolding validate_retained_images_def Let_def via_None u by (simp add: shop_retained del: One_nat_def)
  have b: "release_build_id shop shop_dep roll_back uv = None" for uv
    by (simp add: release_build_id_def roll_back_def via_def shop_tables table_simps img_release_def)
  show ?thesis
    by (simp add: check_update_def roll_back_def t n v r b[unfolded roll_back_def] validate_build_reference_def del: One_nat_def)
qed

definition rolled_jobs :: job_table where
  "rolled_jobs = \<lparr>jt_rows = [\<lparr>job_id = 1, job_dep = 7, job_reason = ForUpdate, job_status = JQueued, job_run_after = 5,
     job_attempt = 0, job_locked_by = None, job_locked_at = None, job_last_error = None, job_created_at = 5, job_updated_at = 5\<rparr>],
     jt_next = 2\<rparr>"

lemma roll_back_accepted: "update_deployment shop_env roll_back shop = Inr (rolled_shop\<lparr>db_jobs := rolled_jobs\<rparr>)"
proof -
  have g: "get_deployment_orm shop (Some 1) 7 = Inr shop_dep"
    by (simp add: get_deployment_orm_def shop_tables table_simps)
  have num: "next_release_number shop 7 = 5" by (simp add: next_release_number_def shop_tables)
  have r: "db_rels shop @ [new_release shop_env (next_release_number shop 7) 7 1 None (Some (img_values CHR ''c''))] = rolled_rels"
    by (simp add: num rolled_rels_def)
  have d: "row_upd d_id 7 (roll_out roll_back 80 None (Some (img_values CHR ''c''))) (db_deps shop) = [rolled_dep]"
    by (simp add: shop_tables table_simps rolled_dep_def)
  have dd: "d_id rolled_dep = 7" "d_hostname rolled_dep = None" "d_desired_template rolled_dep = 1"
    by (simp_all add: rolled_dep_def) (simp add: roll_out_def roll_back_def)
  have c: "constraints (shop\<lparr>db_deps := [rolled_dep], db_rels := rolled_rels\<rparr>)" "constraints (rolled_shop\<lparr>db_jobs := j\<rparr>)" for j
    by (simp_all add: constraints_def uq_hostname_active_def uq_deployment_active_def one_open_def live_host_def dd
        uq_deployment_namespace_def uq_release_number_def rolled_rels_def shop_tables rolled_shop_def)
  have w: "write_vars accept_all demo_crypto 5 rolled_dep 1 [] False IntegrityErr (shop\<lparr>db_deps := [rolled_dep], db_rels := rolled_rels\<rparr>) =
      Inr (shop\<lparr>db_deps := [rolled_dep], db_rels := rolled_rels\<rparr>)"
    by (rule write_no_vars[of _ _ open_template "[(vars_additional_key, JBool True)]"])
      (simp_all add: shop_tables dd table_simps open_template_def demo_template_def)
  have s: "snapshot_release 80 7 (shop\<lparr>db_deps := [rolled_dep], db_rels := rolled_rels\<rparr>) = rolled_shop"
    by (simp add: snapshot_release_def shop_tables head_def rolled_shop_def)
  have q: "request_reconcile 5 ForUpdate 7 rolled_shop = Inr (rolled_shop\<lparr>db_jobs := rolled_jobs\<rparr>)"
    by (simp add: request_reconcile_def enqueue_job_def open_job_for_def slot_taken_def rolled_shop_def shop_tables
        known_dep_def dd Let_def rolled_jobs_def)
  have a: "apply_update shop_env roll_back shop_dep None (Some (img_values CHR ''c'')) None shop =
      Inr (rolled_shop\<lparr>db_jobs := rolled_jobs\<rparr>)"
    unfolding apply_update_def shop_dep_simps shop_env_simps
    by (simp add: r d roll_back_def[THEN arg_cong[of _ _ du_template]] roll_back_def[THEN arg_cong[of _ _ du_vars]]
        flush_def c w s q rolled_dep_def[symmetric] del: One_nat_def)
  show ?thesis
    unfolding update_deployment_def
    by (simp add: roll_back_def[THEN arg_cong[of _ _ du_id]] roll_back_def[THEN arg_cong[of _ _ du_user]] g roll_back_check a
        del: One_nat_def)
qed

lemma rolled_retained: "retains (owner_retention demo_settings now (rolled_shop\<lparr>db_jobs := j\<rparr>) 1) (tenant_img CHR ''a'')"
proof -
  have d: "rolled_dep \<in> {d \<in> set (db_deps (rolled_shop\<lparr>db_jobs := j\<rparr>)). d_user d = 1 \<and> d_deleted_at d = None}"
    by (simp add: rolled_dep_def rolled_shop_def)
  have "db_rels (rolled_shop\<lparr>db_jobs := j\<rparr>) = rolled_rels" "st_past_images demo_settings = 2"
    by (simp_all add: rolled_shop_def demo_settings_def)
  then have "tenant_img CHR ''a'' \<in> ledger_images demo_settings (rolled_shop\<lparr>db_jobs := j\<rparr>) 1"
    unfolding ledger_images_def by (intro UN_I[OF d]) (simp add: rolled_earlier del: One_nat_def)
  then show ?thesis by (simp add: owner_retention_def retains_iff)
qed

text \<open>
  C16. Leaving retention is not permanent. On this platform the image of release 1 is not retained:
  its deployment has shipped four images and keeps two beside the running one. An accepted update
  that goes back to the image of release 3, which is retained, makes the image of release 1 retained
  again, although no build produced it in between: the current release takes that image out of the
  earlier ones, and the oldest image moves up into the slot. A write may then reference an image the
  prune has already removed.
\<close>

theorem left_image_returns:
  "world_ok shop \<and> \<not> retains (owner_retention demo_settings 5 shop 1) (tenant_img CHR ''a'') \<and>
   (\<exists>s'. update_deployment shop_env roll_back shop = Inr s' \<and> db_builds s' = db_builds shop \<and>
      retains (owner_retention demo_settings 5 s' 1) (tenant_img CHR ''a''))"
proof -
  have "db_builds (rolled_shop\<lparr>db_jobs := rolled_jobs\<rparr>) = db_builds shop" by (simp add: rolled_shop_def)
  with shop_ok roll_back_accepted rolled_retained shop_retained[of 5 "tenant_img CHR ''a''"] show ?thesis by auto
qed

section \<open>Witnesses\<close>

lemma shop_get_dep: "get_dep shop 7 = Some shop_dep"
  by (simp add: shop_tables table_simps)

lemma rolled_get_dep: "get_dep (rolled_shop\<lparr>db_jobs := j\<rparr>) 7 = Some rolled_dep"
  by (simp add: rolled_shop_def table_simps rolled_dep_def)

theorem update_effect_witness:
  "\<exists>r. db_rels (rolled_shop\<lparr>db_jobs := rolled_jobs\<rparr>) = db_rels shop @ [r] \<and> 4 < r_number r \<and>
     open_job_for rolled_jobs 7"
proof -
  have e: "du_id roll_back = 7" by (simp add: roll_back_def)
  have "bound_ids shop (e_rel_id shop_env) = []" by (simp add: bound_ids_def shop_tables)
  from update_effect[OF shop_ok roll_back_accepted shop_get_dep[folded e] this] obtain r where
    r: "db_rels (rolled_shop\<lparr>db_jobs := rolled_jobs\<rparr>) = db_rels shop @ [r]"
    "\<forall>q \<in> set (db_rels shop). r_dep q = 7 \<longrightarrow> r_number q < r_number r" "open_job_for rolled_jobs 7"
    by auto
  from r(2) have "4 < r_number r" by (simp add: shop_tables)
  with r(1,3) show ?thesis by blast
qed

theorem accepted_images_retained_witness:
  "retains (retentions demo_settings 5 shop 1) (tenant_img CHR ''c'') \<and>
   prune_spares demo_settings 1000000000000 (rolled_shop\<lparr>db_jobs := rolled_jobs\<rparr>) 1 (tenant_img CHR ''c'')"
proof -
  have e: "du_id roll_back = 7" by (simp add: roll_back_def)
  have v: "d_values rolled_dep = Some (img_values CHR ''c'')" by (simp add: rolled_dep_def)
  have "tenant_img CHR ''c'' \<in> set (owner_images (d_user shop_dep) (json_of (d_values rolled_dep)))"
    by (simp add: v)
  from accepted_images_retained[OF shop_ok roll_back_accepted shop_get_dep[folded e] _ rolled_get_dep[folded e] this]
  show ?thesis by simp
qed

theorem requests_keep_world_witness:
  "\<exists>j \<in> set (jt_rows (db_jobs (history request_step [Update shop_env roll_back] shop))). job_dep j = 7 \<and> job_open j"
proof -
  have t: "history request_step [Update shop_env roll_back] shop = rolled_shop\<lparr>db_jobs := rolled_jobs\<rparr>"
    by (simp add: attempt_def roll_back_accepted)
  have d: "rolled_dep \<in> set (db_deps (rolled_shop\<lparr>db_jobs := rolled_jobs\<rparr>))" "d_status rolled_dep = DProvisioning" "d_id rolled_dep = 7"
    by (simp_all add: rolled_shop_def rolled_dep_def)
  from requests_keep_world[OF shop_ok t[symmetric]] d show ?thesis unfolding t by metis
qed

definition gone_dep :: deployment where
  "gone_dep = shop_dep\<lparr>d_status := DDeleted, d_deleted_at := Some 3\<rparr>"

definition gone_shop :: db where
  "gone_shop = shop\<lparr>db_deps := [gone_dep]\<rparr>"

theorem requests_take_nothing_back_witness:
  "gone_dep \<in> set (db_deps (history request_step [Update shop_env roll_back, Delete 9 1 7, Stop 9 1 7 None] gone_shop))"
proof -
  have g: "d_id gone_dep = 7" "d_status gone_dep = DDeleted" "d_hostname gone_dep = None"
    "d_desired_release gone_dep = 73" "d_applied_release gone_dep = Some 73" "d_deleted_at gone_dep = Some 3"
    by (simp_all add: gone_dep_def)
  have "world_ok gone_shop"
    using shop_ok unfolding world_defs constraints_def
    by (simp add: shop_tables gone_shop_def g uq_hostname_active_def uq_deployment_active_def one_open_def live_host_def
      uq_deployment_namespace_def uq_release_number_def jobs_wf_def)
  then have "(\<exists>rs. db_rels (history request_step [Update shop_env roll_back, Delete 9 1 7, Stop 9 1 7 None] gone_shop) =
      db_rels gone_shop @ rs) \<and>
    gone_dep \<in> set (db_deps (history request_step [Update shop_env roll_back, Delete 9 1 7, Stop 9 1 7 None] gone_shop))"
    by (rule requests_take_nothing_back) (simp_all add: gone_shop_def g)
  then show ?thesis ..
qed

lemma shop_stop: "change_power 5 1 7 None PStopped shop = Inr (shop\<lparr>db_powers := [new_power 5 7 PStopped None []],
    db_deps := [shop_dep\<lparr>d_desired_power := Some 1\<rparr>], db_jobs := rolled_jobs\<lparr>jt_rows := map (\<lambda>j. j\<lparr>job_reason := ForPower\<rparr>) (jt_rows rolled_jobs)\<rparr>\<rparr>)"
proof -
  have l: "locked_deployment shop 1 7 = Inr shop_dep" by (simp add: locked_deployment_def shop_get_dep)
  show ?thesis
    by (simp add: change_power_def l via_def power_state_of_def shop_tables Let_def new_power_def next_id_def table_simps
        request_reconcile_def enqueue_job_def open_job_for_def slot_taken_def known_dep_def rolled_jobs_def del: One_nat_def)
qed

theorem power_request_effect_witness:
  "\<exists>m. change_power 10 1 7 None PRunning (history event_step [Asks (Delete 6 1 7), Claims (\<lambda>_. False) 60 8 ''w'', Defers 9 1 5 (Some ''w'')]
    (shop\<lparr>db_powers := [new_power 5 7 PStopped None []],
    db_deps := [shop_dep\<lparr>d_desired_power := Some 1\<rparr>], db_jobs := rolled_jobs\<lparr>jt_rows := map (\<lambda>j. j\<lparr>job_reason := ForPower\<rparr>) (jt_rows rolled_jobs)\<rparr>\<rparr>)) =
     Inl (InProgressErr m)"
proof -
  have fk: "\<forall>k. d_applied_power shop_dep = Some k \<longrightarrow> get_power shop k \<noteq> None" by simp
  have ne: "pr_desired (deployment_power shop shop_dep) \<noteq> PStopped"
    by (simp add: deployment_power_def Let_def via_def power_state_of_def)
  from power_request_effect[OF shop_ok shop_stop shop_get_dep fk, of PRunning 10 None] show ?thesis
    unfolding if_not_P[OF ne] by (metis power_state.distinct(1))
qed

text \<open>A creation with a custom hostname, on the free plan.\<close>

definition new_shop :: db where
  "new_shop = shop\<lparr>db_deps := [], db_rels := []\<rparr>"

definition wiki_create :: dep_create where
  "wiki_create = \<lparr>dc_user = 1, dc_template = 2, dc_values = [(''host'', JStr ''shop.example.com'')], dc_plan_template = 1,
     dc_build = None, dc_vars = []\<rparr>"

lemma new_shop_tables:
  "db_deps new_shop = []" "db_rels new_shop = []" "db_jobs new_shop = \<lparr>jt_rows = [], jt_next = 1\<rparr>" "db_vars new_shop = []"
  "db_users new_shop = [demo_user]" "db_templates new_shop = [open_template, host_template]" "db_subs new_shop = []"
  "db_plan_templates new_shop = shop_plan_templates" "db_plans new_shop = shop_plans" "db_relvars new_shop = []"
  "db_products new_shop = [\<lparr>p_id = 1, p_name = ''custom'', p_slug = None, p_template_id = Some 1\<rparr>,
                     \<lparr>p_id = 2, p_name = ''wiki'', p_slug = None, p_template_id = Some 2\<rparr>]"
  by (simp_all add: new_shop_def shop_def empty_db_def)

lemma host_template_simps:
  "t_id host_template = 2" "t_product host_template = 2"
  "t_schema host_template = Some [(''properties'', JObj [(''host'', JObj [(''title'', JStr ''Hostname'')])])]"
  by (simp_all add: host_template_def)

lemma wiki_check:
  "\<exists>ptv. check_create shop_env wiki_create new_shop =
     Inr (demo_user, \<lparr>p_id = 2, p_name = ''wiki'', p_slug = None, p_template_id = Some 2\<rparr>, ptv, Some ''shop.example.com'',
          Some [(''host'', JStr ''shop.example.com'')])"
proof -
  have u: "get_user new_shop 1 = Some demo_user" "u_deleted_at demo_user = None" "u_handle demo_user = Some ''ada42''"
    "u_tos_version demo_user = Some ''2026-01-01''"
    by (simp_all add: new_shop_tables table_simps demo_user_def)
  have t: "get_template new_shop 2 = Some host_template" "get_product new_shop 2 =
      Some \<lparr>p_id = 2, p_name = ''wiki'', p_slug = None, p_template_id = Some 2\<rparr>"
    by (simp_all add: new_shop_tables table_simps host_template_simps open_template_def demo_template_def)
  have l: "lower ''shop.example.com'' = ''shop.example.com''" "lower ''Hostname'' = ''hostname''" by code_simp+
  have paths: "iter_hostname_paths (JObj [(''properties'', JObj [(''host'', JObj [(''title'', JStr ''Hostname'')])])]) [] = [[''host'']]"
    by (simp add: entry_values_def titled_hostname_def sub_object_def schema_definitions_def l(2))
  have n: "normalize_hostname (e_str shop_env) (require_valid_hostname demo_dns demo_settings [] (Some ''ada42'') None)
      (t_schema host_template) (Some [(''host'', JStr ''shop.example.com'')]) =
     Inr (Some ''shop.example.com'', Some [(''host'', JStr ''shop.example.com'')])"
    unfolding normalize_hostname_def host_template_simps option.case paths list.case
    by (simp add: value_for_path_def dict_or_empty_def l(1) demo_custom set_value_at_path_def dset_def)
  have v: "validate_user_values accept_all uv (t_schema host_template) = Inr ()" for uv
    by (simp add: validate_user_values_def host_template_simps derive_projections_def accept_all_def split: list.splits)
  obtain ptv where p: "validate_plan_template new_shop 1 2 = Inr ptv"
    by (simp add: validate_plan_template_def new_shop_tables shop_plan_templates_def shop_plans_def table_simps)
  have i: "owner_images 1 (json_of (Some [(''host'', JStr ''shop.example.com'')])) = []"
    by (simp add: owner_images_def json_of_def re_fullmatch_lang owner_image_re_def rx_lang owner_one del: One_nat_def)
  have r: "validate_retained_images demo_settings 5 new_shop 1 None (Some [(''host'', JStr ''shop.example.com'')]) None = Inr ()"
    by (simp add: validate_retained_images_def Let_def unknown_images_def i del: One_nat_def)
  show ?thesis
    by (rule exI[of _ ptv])
      (simp add: check_create_def wiki_create_def u t n v p r host_template_simps(1,2) new_shop_tables(1) validate_build_reference_def
        del: One_nat_def)
qed

lemma wiki_created: "\<exists>s'. create_deployment shop_env None wiki_create new_shop = Inr (None, s')"
proof -
  let ?prd = "\<lparr>p_id = 2, p_name = ''wiki'', p_slug = None, p_template_id = Some 2\<rparr>"
  let ?h = "Some ''shop.example.com''" and ?v = "Some [(''host'', JStr ''shop.example.com'')]"
  obtain ptv where c: "check_create shop_env wiki_create new_shop = Inr (demo_user, ?prd, ptv, ?h, ?v)"
    using wiki_check by blast
  obtain name where name: "generate_deployment_name (e_name_rnd shop_env) ''wiki'' None = Inr name"
    by (simp add: generate_deployment_name_eq Let_def)
  obtain ns where ns: "generate_deployment_namespace (e_ns_rnd shop_env 0) ''wiki'' (u_email demo_user) None = Inr ns"
    by (simp add: generate_deployment_namespace_eq Let_def)
  let ?sub = "\<lparr>sub_id = 1, sub_plan_template = 1, sub_user = 1, sub_status = SubActive, sub_payment = PayCurrent,
     sub_cancelled_at = None, sub_mollie_id = None, sub_mandate = None\<rparr>"
  let ?s1 = "new_shop\<lparr>db_subs := [?sub]\<rparr>"
  have sub: "create_subscription 1 1 PayCurrent new_shop = Inr (?sub, ?s1)"
    by (simp add: create_subscription_def new_shop_tables shop_plan_templates_def table_simps next_id_def Let_def)
  let ?d = "new_deployment shop_env wiki_create name ns ?h ?v False 1"
  let ?r = "new_release shop_env 1 8 2 None ?v"
  let ?s2 = "?s1\<lparr>db_deps := [?d], db_rels := [?r]\<rparr>"
  have al: "allocate_namespace 0 namespace_attempts (e_ns_rnd shop_env) ?s1 ''wiki'' (u_email demo_user) = Inr ns"
    by (simp add: namespace_attempts_def numeral_eq_Suc ns new_shop_tables)
  have t: "d_desired_template (new_deployment shop_env wiki_create name ns a b c x) = 2" for a b c x by (simp add: new_deployment_def wiki_create_def)
  have cs: "constraints ?s2"
    by (simp add: constraints_def uq_hostname_active_def uq_deployment_active_def one_open_def
        uq_deployment_namespace_def uq_release_number_def)
  have w: "write_vars accept_all demo_crypto 5 ?d 1 [] False IntegrityErr ?s2 = Inr ?s2"
    by (rule write_no_vars[of _ _ host_template "[(''properties'', JObj [(''host'', JObj [(''title'', JStr ''Hostname'')])])]"])
      (simp_all add: new_shop_tables t table_simps host_template_simps open_template_def demo_template_def)
  have p: "dc_user wiki_create = 1" "dc_template wiki_create = 2" "dc_plan_template wiki_create = 1" "dc_build wiki_create = None"
    "dc_vars wiki_create = []" "u_id demo_user = 1" by (simp_all add: wiki_create_def demo_user_def)
  have i: "insert_deployment shop_env wiki_create demo_user ?prd ?h ?v False new_shop = Inr (1, snapshot_release 80 8 ?s2)"
    unfolding insert_deployment_def p if_False sub bindR.simps prod.case
    using name al w cs by (simp add: flush_def new_shop_tables p del: One_nat_def)
  let ?s3 = "snapshot_release 80 8 ?s2"
  have f: "constraints ?s3" "known_dep ?s3 8" "db_jobs ?s3 = \<lparr>jt_rows = [], jt_next = 1\<rparr>"
    using cs by (simp_all add: constraints_def snapshot_release_def known_dep_def new_shop_tables)
  obtain s' where "request_reconcile 5 ForCreate 8 ?s3 = Inr s'"
    using f(2,3) by (simp add: request_reconcile_def enqueue_job_def open_job_for_def slot_taken_def Let_def)
  then show ?thesis
    by (simp add: create_deployment_def c i flush_or_def f(1) del: One_nat_def)
qed

theorem create_effect_witness:
  "\<exists>s' d. create_deployment shop_env None wiki_create new_shop = Inr (None, s') \<and> db_deps s' = [d] \<and>
     d_status d = DProvisioning \<and> open_job_for (db_jobs s') (d_id d)"
proof -
  obtain s' where s': "create_deployment shop_env None wiki_create new_shop = Inr (None, s')" using wiki_created by blast
  from create_effect[OF s'] obtain d where "db_deps s' = db_deps new_shop @ [d]"
    "d_status d = DProvisioning" "open_job_for (db_jobs s') (d_id d)" by auto
  with s' show ?thesis by (auto simp: new_shop_tables)
qed


end
