(* ===== verification/Billing.thy ===== *)
theory Billing
  imports Shop
begin

text \<open>
  Subscriptions and payments: the services of \<^verbatim>\<open>api/app/services/subscriptions.py\<close>, the endpoint that
  changes a subscription (\<^verbatim>\<open>api/app/api/subscriptions.py\<close>) and the notifications of the payment
  provider (\<^verbatim>\<open>api/app/api/webhooks.py\<close>). A request is one transaction: an exception leaves nothing
  behind. The provider's API is a parameter; the payload it returns is stored but never read back, so
  the rows do not carry it. \<open>bp_start\<close> is today's date plus a number of months.
\<close>

section \<open>Reading and changing a subscription\<close>

definition get_subscription :: "db \<Rightarrow> nat \<Rightarrow> subscription result" where
  "get_subscription s i = (case get_sub s i of None \<Rightarrow> Inl (NotFoundErr ''Subscription not found'') | Some x \<Rightarrow> Inr x)"

definition list_subscriptions_for_user :: "db \<Rightarrow> user_id \<Rightarrow> subscription list" where
  "list_subscriptions_for_user s u = filter (\<lambda>x. sub_user x = u) (db_subs s)"

definition put_sub :: "subscription \<Rightarrow> db \<Rightarrow> db" where
  "put_sub x s = s\<lparr>db_subs := row_upd sub_id (sub_id x) (\<lambda>_. x) (db_subs s)\<rparr>"

definition cancel_subscription :: "time \<Rightarrow> nat \<Rightarrow> db \<Rightarrow> db result" where
  "cancel_subscription now i s =
     bindR (get_subscription s i) (\<lambda>x.
       Inr (if sub_status x \<noteq> SubCancelled then put_sub (x\<lparr>sub_status := SubCancelled, sub_cancelled_at := Some now\<rparr>) s else s))"

definition update_payment_status :: "nat \<Rightarrow> payment_status \<Rightarrow> db \<Rightarrow> db result" where
  "update_payment_status i p s =
     bindR (get_subscription s i) (\<lambda>x. Inr (put_sub (x\<lparr>sub_payment := p\<rparr>) s))"

text \<open>The caller is a user id with the administrator flag.\<close>

definition require_subscription_owner :: "db \<Rightarrow> user_id \<Rightarrow> bool \<Rightarrow> nat \<Rightarrow> unit result" where
  "require_subscription_owner s caller admin i =
     (case get_sub s i of
        None \<Rightarrow> Inl (NotFoundErr ''Subscription not found'')
      | Some x \<Rightarrow> if sub_user x \<noteq> caller \<and> \<not> admin then Inl (CaelusErr ''Forbidden'') else Inr ())"

record sub_update =
  su_status :: "sub_status option"
  su_payment :: "payment_status option"

definition update_subscription :: "time \<Rightarrow> user_id \<Rightarrow> bool \<Rightarrow> nat \<Rightarrow> sub_update \<Rightarrow> db \<Rightarrow> db result" where
  "update_subscription now caller admin i u s =
     bindR (require_subscription_owner s caller admin i) (\<lambda>_.
       (case su_status u of
          Some SubCancelled \<Rightarrow> cancel_subscription now i s
        | Some SubActive \<Rightarrow> Inl (ValidationErr ''Reactivating a cancelled subscription is not supported'')
        | None \<Rightarrow>
            (case su_payment u of
               Some p \<Rightarrow> update_payment_status i p s
             | None \<Rightarrow> Inl (ValidationErr ''No valid update fields provided''))))"

section \<open>The provider's notifications\<close>

record payment_info =
  pi_status :: string
  pi_mandate :: "string option"
  pi_subscription :: "string option"

record recurring =
  rc_customer :: "string option"
  rc_mandate :: "string option"
  rc_amount :: int
  rc_interval :: string
  rc_start :: string
  rc_description :: string
  rc_key :: string

record billing_provider =
  bp_get :: "string \<Rightarrow> payment_info result"
  bp_subscribe :: "recurring \<Rightarrow> string result"
  bp_start :: "time \<Rightarrow> nat \<Rightarrow> string"

definition mollie_interval :: "billing_interval \<Rightarrow> string" where
  "mollie_interval b = (case b of Monthly \<Rightarrow> ''1 month'' | Annual \<Rightarrow> ''12 months'')"

definition interval_months :: "billing_interval \<Rightarrow> nat" where
  "interval_months b = (case b of Monthly \<Rightarrow> 1 | Annual \<Rightarrow> 12)"

definition mollie_status_of :: "string \<Rightarrow> mollie_status result" where
  "mollie_status_of v =
     (case map_of [(''open'', MOpen), (''pending'', MPending), (''authorized'', MAuthorized), (''paid'', MPaid),
                   (''canceled'', MCanceled), (''expired'', MExpired), (''failed'', MFailed)] v of
        None \<Rightarrow> Inl (PyValueError ''not a valid MolliePaymentStatus'') | Some m \<Rightarrow> Inr m)"

definition one_or_none :: "('r \<Rightarrow> bool) \<Rightarrow> 'r list \<Rightarrow> 'r option result" where
  "one_or_none P rs =
     (case filter P rs of [] \<Rightarrow> Inr None | [r] \<Rightarrow> Inr (Some r) | _ \<Rightarrow> Inl (PyValueError ''MultipleResultsFound''))"

text \<open>A value the code follows through a relationship; a missing one is an \<^verbatim>\<open>AttributeError\<close>.\<close>

definition present :: "'a option \<Rightarrow> 'a result" where
  "present x = (case x of None \<Rightarrow> Inl (PyValueError ''AttributeError'') | Some v \<Rightarrow> Inr v)"

definition truthy_text :: "string option \<Rightarrow> bool" where
  "truthy_text v \<longleftrightarrow> v \<noteq> None \<and> v \<noteq> Some []"

definition set_payment :: "payment_status \<Rightarrow> nat \<Rightarrow> db \<Rightarrow> db" where
  "set_payment p i s = s\<lparr>db_subs := row_upd sub_id i (\<lambda>x. x\<lparr>sub_payment := p\<rparr>) (db_subs s)\<rparr>"

text \<open>The first payment: the waiting deployments start, a reconcile is queued for each only if the
  subscription was pending, and the recurring subscription is created unless it exists.\<close>

definition begin_provisioning :: "nat \<Rightarrow> deployment \<Rightarrow> deployment" where
  "begin_provisioning i d = (if d_subscription d = i \<and> d_status d = DPending then d\<lparr>d_status := DProvisioning\<rparr> else d)"

definition in_provisioning :: "nat \<Rightarrow> deployment \<Rightarrow> bool" where
  "in_provisioning i d \<longleftrightarrow> d_subscription d = i \<and> d_status d = DProvisioning"

definition create_recurring :: "billing_provider \<Rightarrow> time \<Rightarrow> payment_info \<Rightarrow> nat \<Rightarrow> db \<Rightarrow> db result" where
  "create_recurring bp now info i s =
     bindR (present (get_sub s i)) (\<lambda>x.
       if truthy_text (sub_mollie_id x) then Inr s
       else
         bindR (present (get_plan_template s (sub_plan_template x))) (\<lambda>ptv.
         bindR (present (get_plan s (pt_plan ptv))) (\<lambda>_.
         bindR (present (get_user s (sub_user x))) (\<lambda>u.
         bindR (case filter (\<lambda>d. d_subscription d = i) (db_deps s) of [] \<Rightarrow> Inl (PyValueError ''IndexError'') | d # _ \<Rightarrow> Inr d) (\<lambda>d.
         bindR (payment_description s (d_subscription d) (d_id d)) (\<lambda>desc.
         bindR (bp_subscribe bp \<lparr>rc_customer = u_customer u, rc_mandate = pi_mandate info, rc_amount = pt_price_cents ptv,
                  rc_interval = mollie_interval (pt_interval ptv), rc_start = bp_start bp now (interval_months (pt_interval ptv)),
                  rc_description = desc, rc_key = ''subscription_'' @ nat_str i\<rparr>) (\<lambda>mid.
           Inr (s\<lparr>db_subs := row_upd sub_id i (\<lambda>x. x\<lparr>sub_mollie_id := Some mid\<rparr>) (db_subs s)\<rparr>))))))))"

definition handle_first_payment_paid :: "billing_provider \<Rightarrow> time \<Rightarrow> payment_info \<Rightarrow> subscription \<Rightarrow> db \<Rightarrow> db result" where
  "handle_first_payment_paid bp now info x s =
     (let i = sub_id x;
          s1 = s\<lparr>db_subs := row_upd sub_id i (\<lambda>x. x\<lparr>sub_payment := PayCurrent, sub_mandate := pi_mandate info\<rparr>) (db_subs s),
                 db_deps := map (begin_provisioning i) (db_deps s)\<rparr>
      in bindR (if sub_payment x = PayPending
                then bindR (flush s1) (\<lambda>s1.
                     foldR (\<lambda>d. request_reconcile now ForCreate (d_id d)) (filter (in_provisioning i) (db_deps s1)) s1)
                else Inr s1)
           (create_recurring bp now info i))"

text \<open>The payment a notification is about and its subscription; a recurring one is recorded when first seen.\<close>

definition locate_payment :: "payment_info \<Rightarrow> string \<Rightarrow> db \<Rightarrow> ((mollie_payment \<times> subscription) option \<times> db) result" where
  "locate_payment info pid s =
     bindR (one_or_none (\<lambda>p. mp_mollie_id p = pid) (db_payments s)) (\<lambda>known.
       (case known of
          Some p \<Rightarrow> bindR (present (get_sub s (mp_sub p))) (\<lambda>x. Inr (Some (p, x), s))
        | None \<Rightarrow>
            if truthy_text (pi_subscription info)
            then bindR (one_or_none (\<lambda>x. sub_mollie_id x = pi_subscription info) (db_subs s)) (\<lambda>found.
                 (case found of
                    None \<Rightarrow> Inr (None, s)
                  | Some x \<Rightarrow>
                      bindR (mollie_status_of (pi_status info)) (\<lambda>m.
                      bindR (present (get_plan_template s (sub_plan_template x))) (\<lambda>ptv.
                      let p = \<lparr>mp_sub = sub_id x, mp_mollie_id = pid, mp_status = m, mp_sequence = ''recurring'',
                               mp_amount_cents = pt_price_cents ptv\<rparr>
                      in Inr (Some (p, x), s\<lparr>db_payments := db_payments s @ [p]\<rparr>)))))
            else Inr (None, s)))"

definition settle_payment ::
  "billing_provider \<Rightarrow> time \<Rightarrow> payment_info \<Rightarrow> mollie_payment \<Rightarrow> subscription \<Rightarrow> db \<Rightarrow> db result"
where
  "settle_payment bp now info p x s =
     (let is_first = mp_sequence p = ''first'';
          is_paid = pi_status info = ''paid'';
          is_failed = pi_status info \<in> {''failed'', ''expired'', ''canceled''}
      in if is_first \<and> is_paid then handle_first_payment_paid bp now info x s
         else if is_failed then Inr (set_payment PayArrears (sub_id x) s)
         else if is_paid then Inr (if sub_payment x \<noteq> PayCurrent then set_payment PayCurrent (sub_id x) s else s)
         else Inr s)"

definition mollie_webhook :: "billing_provider option \<Rightarrow> time \<Rightarrow> string \<Rightarrow> db \<Rightarrow> db result" where
  "mollie_webhook provider now pid s =
     (case provider of
        None \<Rightarrow> Inr s
      | Some bp \<Rightarrow>
          (case bp_get bp pid of
             Inl _ \<Rightarrow> Inr s
           | Inr info \<Rightarrow>
               bindR (locate_payment info pid s) (\<lambda>(found, s1).
               (case found of
                  None \<Rightarrow> Inr s1
                | Some (p, x) \<Rightarrow>
                    bindR (mollie_status_of (pi_status info)) (\<lambda>m.
                    bindR (settle_payment bp now info p x
                             (s1\<lparr>db_payments := row_upd mp_mollie_id pid (\<lambda>p. p\<lparr>mp_status := m\<rparr>) (db_payments s1)\<rparr>)) flush)))))"

section \<open>The effect of a notification\<close>

lemma one_or_none_Inr:
  "one_or_none P rs = Inr (Some r) \<longleftrightarrow> filter P rs = [r]"
  "one_or_none P rs = Inr None \<longleftrightarrow> filter P rs = []"
  by (auto simp: one_or_none_def split: list.splits)

lemma present_Inr [result_simps]: "present x = Inr v \<longleftrightarrow> x = Some v"
  by (cases x) (simp_all add: present_def)

lemma begin_simps [simp]:
  "d_id (begin_provisioning i d) = d_id d" "d_namespace (begin_provisioning i d) = d_namespace d"
  "d_hostname (begin_provisioning i d) = d_hostname d" "d_user (begin_provisioning i d) = d_user d"
  "d_desired_template (begin_provisioning i d) = d_desired_template d" "d_subscription (begin_provisioning i d) = d_subscription d"
  "d_desired_release (begin_provisioning i d) = d_desired_release d" "d_applied_release (begin_provisioning i d) = d_applied_release d"
  "d_deleted_at (begin_provisioning i d) = d_deleted_at d" "live_host (begin_provisioning i d) = live_host d"
  "host_slot (begin_provisioning i d) = host_slot d"
  by (simp_all add: begin_provisioning_def live_host_def host_slot_def)

lemma request_all:
  assumes "foldR (\<lambda>d. request_reconcile now why (d_id d)) ds s = Inr s'"
  shows "s' = s\<lparr>db_jobs := db_jobs s'\<rparr>" "open_job_for (db_jobs s') e \<longleftrightarrow> open_job_for (db_jobs s) e \<or> e \<in> d_id ` set ds"
    "jobs_wf (db_jobs s) \<Longrightarrow> jobs_wf (db_jobs s')"
proof -
  have "s' = s\<lparr>db_jobs := db_jobs s'\<rparr> \<and> (open_job_for (db_jobs s') e \<longleftrightarrow> open_job_for (db_jobs s) e \<or> e \<in> d_id ` set ds) \<and>
      (jobs_wf (db_jobs s) \<longrightarrow> jobs_wf (db_jobs s'))"
    using assms
  proof (induction ds arbitrary: s)
    case (Cons d ds)
    then obtain t where t: "request_reconcile now why (d_id d) s = Inr t" "foldR (\<lambda>d. request_reconcile now why (d_id d)) ds t = Inr s'"
      by (auto simp: bindR_Inr_iff)
    obtain jt where "t = s\<lparr>db_jobs := jt\<rparr>" using t(1) request_reconcile_Inr by blast
    with Cons.IH[OF t(2)] request_reconcile_open[OF t(1)] show ?case by auto
  qed simp
  then show "s' = s\<lparr>db_jobs := db_jobs s'\<rparr>" "open_job_for (db_jobs s') e \<longleftrightarrow> open_job_for (db_jobs s) e \<or> e \<in> d_id ` set ds"
    "jobs_wf (db_jobs s) \<Longrightarrow> jobs_wf (db_jobs s')" by auto
qed

text \<open>What a notification can change: the billing rows, the waiting deployments, the queue.\<close>

definition billing_change :: "db \<Rightarrow> db \<Rightarrow> bool" where
  "billing_change s s' \<longleftrightarrow> (\<exists>subs pays. s' = s\<lparr>db_subs := subs, db_payments := pays\<rparr>)"

lemma billing_change_intros:
  "billing_change s s" "billing_change s (s\<lparr>db_subs := subs\<rparr>)" "billing_change s (s\<lparr>db_payments := pays\<rparr>)"
  "billing_change s (s\<lparr>db_subs := subs, db_payments := pays\<rparr>)"
proof -
  show "billing_change s s"
    unfolding billing_change_def by (intro exI[of _ "db_subs s"] exI[of _ "db_payments s"]) simp
  show "billing_change s (s\<lparr>db_subs := subs\<rparr>)"
    unfolding billing_change_def by (intro exI[of _ subs] exI[of _ "db_payments s"]) simp
  show "billing_change s (s\<lparr>db_payments := pays\<rparr>)"
    unfolding billing_change_def by (intro exI[of _ "db_subs s"] exI[of _ pays]) simp
  show "billing_change s (s\<lparr>db_subs := subs, db_payments := pays\<rparr>)" unfolding billing_change_def by blast
qed

lemma billing_change_trans:
  assumes "billing_change s t" "billing_change t u"
  shows "billing_change s u"
proof -
  obtain subs pays subs' pays' where "t = s\<lparr>db_subs := subs, db_payments := pays\<rparr>" "u = t\<lparr>db_subs := subs', db_payments := pays'\<rparr>"
    using assms unfolding billing_change_def by blast
  then have "u = s\<lparr>db_subs := subs', db_payments := pays'\<rparr>" by simp
  then show ?thesis by (simp add: billing_change_intros)
qed

lemma billing_change_tables:
  "billing_change s s' \<Longrightarrow> db_deps s' = db_deps s \<and> db_jobs s' = db_jobs s \<and> db_rels s' = db_rels s"
  by (auto simp: billing_change_def)

lemma create_recurring_change:
  assumes "create_recurring bp now info i s = Inr s'"
  shows "billing_change s s'"
proof -
  have "s' = s \<or> (\<exists>subs. s' = s\<lparr>db_subs := subs\<rparr>)"
    using assms unfolding create_recurring_def bindR_Inr_iff by (auto simp: bindR_Inr_iff split: if_splits)
  then show ?thesis by (auto intro: billing_change_intros)
qed

definition started_by :: "nat \<Rightarrow> bool \<Rightarrow> db \<Rightarrow> db \<Rightarrow> bool" where
  "started_by i was_pending s s' \<longleftrightarrow>
     db_deps s' = map (begin_provisioning i) (db_deps s) \<and> db_rels s' = db_rels s \<and>
     (jobs_wf (db_jobs s) \<longrightarrow> jobs_wf (db_jobs s')) \<and>
     (\<forall>e. open_job_for (db_jobs s') e \<longleftrightarrow> open_job_for (db_jobs s) e \<or>
        (was_pending \<and> e \<in> d_id ` set (filter (in_provisioning i) (db_deps s'))))"

lemma first_payment_started:
  assumes "handle_first_payment_paid bp now info x s = Inr s'"
  shows "started_by (sub_id x) (sub_payment x = PayPending) s s'"
proof -
  let ?i = "sub_id x"
  let ?s1 = "s\<lparr>db_subs := row_upd sub_id ?i (\<lambda>x. x\<lparr>sub_payment := PayCurrent, sub_mandate := pi_mandate info\<rparr>) (db_subs s),
      db_deps := map (begin_provisioning ?i) (db_deps s)\<rparr>"
  let ?q = "filter (in_provisioning ?i) (db_deps ?s1)"
  from assms obtain t where t: "(if sub_payment x = PayPending
        then bindR (flush ?s1) (\<lambda>s1. foldR (\<lambda>d. request_reconcile now ForCreate (d_id d)) (filter (in_provisioning ?i) (db_deps s1)) s1)
        else Inr ?s1) = Inr t" "create_recurring bp now info ?i t = Inr s'"
    unfolding handle_first_payment_paid_def Let_def bindR_Inr_iff by blast
  have c: "db_deps s' = db_deps t" "db_jobs s' = db_jobs t" "db_rels s' = db_rels t"
    using billing_change_tables[OF create_recurring_change[OF t(2)]] by auto
  show ?thesis
  proof (cases "sub_payment x = PayPending")
    case True
    with t(1) have f: "foldR (\<lambda>d. request_reconcile now ForCreate (d_id d)) ?q ?s1 = Inr t"
      by (auto simp: bindR_Inr_iff flush_Inr)
    have "t = ?s1\<lparr>db_jobs := db_jobs t\<rparr>" by (rule request_all(1)[OF f])
    then have d: "db_deps t = db_deps ?s1" "db_rels t = db_rels ?s1" by (metis db.select_convs(8,9) db.surjective db.update_convs(15))+
    with request_all(2,3)[OF f] c True show ?thesis unfolding started_by_def by simp
  next
    case False
    with t(1) have "t = ?s1" by simp
    with c False show ?thesis by (simp add: started_by_def)
  qed
qed

lemma first_payment_queue:
  assumes "handle_first_payment_paid bp now info x s = Inr s'" "sub_payment x \<noteq> PayPending"
  shows "db_jobs s' = db_jobs s"
  using assms billing_change_tables[OF create_recurring_change]
  by (fastforce simp: handle_first_payment_paid_def Let_def)

lemma locate_payment_Inr:
  assumes "locate_payment info pid s = Inr (found, s1)"
  obtains (nothing) "found = None" "s1 = s"
  | (known) p x where "found = Some (p, x)" "s1 = s" "filter (\<lambda>p. mp_mollie_id p = pid) (db_payments s) = [p]" "get_sub s (mp_sub p) = Some x"
  | (recorded) p x m where "found = Some (p, x)" "s1 = s\<lparr>db_payments := db_payments s @ [p]\<rparr>"
      "filter (\<lambda>p. mp_mollie_id p = pid) (db_payments s) = []" "x \<in> set (db_subs s)" "mp_sub p = sub_id x" "mp_mollie_id p = pid"
      "mp_sequence p = ''recurring''" "mollie_status_of (pi_status info) = Inr m" "mp_status p = m"
proof -
  from assms obtain known where k: "one_or_none (\<lambda>p. mp_mollie_id p = pid) (db_payments s) = Inr known"
    unfolding locate_payment_def by (elim bindRE)
  note rest = assms[unfolded locate_payment_def k bindR.simps]
  show thesis
  proof (cases known)
    case (Some p)
    with rest k that(2) show thesis by (auto simp: bindR_Inr_iff present_Inr one_or_none_Inr)
  next
    case None
    show thesis
    proof (cases "truthy_text (pi_subscription info)")
      case False
      with rest None that(1) show thesis by simp
    next
      case True
      with rest None obtain z where z: "one_or_none (\<lambda>x. sub_mollie_id x = pi_subscription info) (db_subs s) = Inr z"
        by (auto simp: bindR_Inr_iff)
      note rest = rest[unfolded None option.case if_P[OF True] z bindR.simps]
      show thesis
      proof (cases z)
        case None
        with rest that(1) show thesis by simp
      next
        case (Some x)
        with z have "x \<in> set (filter (\<lambda>x. sub_mollie_id x = pi_subscription info) (db_subs s))" by (simp add: one_or_none_Inr)
        then have x: "x \<in> set (db_subs s)" by simp
        from rest[unfolded Some option.case] obtain m where m: "mollie_status_of (pi_status info) = Inr m" by (elim bindRE)
        from rest[unfolded Some option.case m bindR.simps] obtain ptv where "present (get_plan_template s (sub_plan_template x)) = Inr ptv"
          by (elim bindRE)
        note rest = rest[unfolded Some option.case m bindR.simps this Let_def sum.inject prod.inject]
        have "filter (\<lambda>p. mp_mollie_id p = pid) (db_payments s) = []" using k None by (simp add: one_or_none_Inr)
        with rest m x show thesis by (intro recorded[OF conjunct1[OF rest, symmetric] conjunct2[OF rest, symmetric]]) simp_all
      qed
    qed
  qed
qed

lemma settle_change:
  assumes "settle_payment bp now info p x s = Inr s'" "\<not> (mp_sequence p = ''first'' \<and> pi_status info = ''paid'')"
  shows "billing_change s s'"
  using assms by (auto simp: settle_payment_def Let_def set_payment_def intro: billing_change_intros split: if_splits)

lemma mollie_webhook_Inr:
  assumes "mollie_webhook provider now pid s = Inr s'"
  obtains (billing) "billing_change s s'"
  | (started) bp info p x pays where "provider = Some bp" "bp_get bp pid = Inr info" "pi_status info = ''paid''"
    "filter (\<lambda>p. mp_mollie_id p = pid) (db_payments s) = [p]" "mp_sequence p = ''first''" "get_sub s (mp_sub p) = Some x"
    "pays = row_upd mp_mollie_id pid (\<lambda>p. p\<lparr>mp_status := MPaid\<rparr>) (db_payments s)"
    "handle_first_payment_paid bp now info x (s\<lparr>db_payments := pays\<rparr>) = Inr s'" "constraints s'"
proof (cases "\<exists>bp info. provider = Some bp \<and> bp_get bp pid = Inr info")
  case False
  with assms have "s' = s" by (auto simp: mollie_webhook_def split: option.splits sum.splits)
  with that(1) billing_change_intros(1) show thesis by simp
next
  case True
  then obtain bp info where b: "provider = Some bp" "bp_get bp pid = Inr info" by blast
  note run = assms[unfolded mollie_webhook_def b option.case sum.case]
  from run obtain found s1 where l: "locate_payment info pid s = Inr (found, s1)" by (elim bindR2E)
  note run = run[unfolded l bindR.simps prod.case]
  have change: "billing_change s s1" using l by (cases rule: locate_payment_Inr) (auto intro: billing_change_intros)
  show thesis
  proof (cases found)
    case None
    with run change that(1) show thesis by simp
  next
    case (Some px)
    obtain p x where px: "px = (p, x)" by (cases px)
    let ?s2 = "\<lambda>m. s1\<lparr>db_payments := row_upd mp_mollie_id pid (\<lambda>p. p\<lparr>mp_status := m\<rparr>) (db_payments s1)\<rparr>"
    from run[unfolded Some px option.case prod.case] obtain m where m: "mollie_status_of (pi_status info) = Inr m"
      and st: "settle_payment bp now info p x (?s2 m) = Inr s'" "constraints s'"
      by (auto simp: bindR_Inr_iff flush_Inr)
    show thesis
    proof (cases "mp_sequence p = ''first'' \<and> pi_status info = ''paid''")
      case False
      have "billing_change s1 (?s2 m)" by (rule billing_change_intros)
      from billing_change_trans[OF billing_change_trans[OF change this] settle_change[OF st(1) False]]
      have "billing_change s s'" .
      with that(1) show thesis .
    next
      case True
      have k: "s1 = s" "filter (\<lambda>p. mp_mollie_id p = pid) (db_payments s) = [p]" "get_sub s (mp_sub p) = Some x"
        using l True by (cases rule: locate_payment_Inr; simp add: Some px)+
      have "m = MPaid" using True m by (simp add: mollie_status_of_def)
      with st True k(1) have "handle_first_payment_paid bp now info x (?s2 MPaid) = Inr s'" by (simp add: settle_payment_def)
      from that(2)[OF b _ k(2) _ k(3) refl this[unfolded k(1)] st(2)] True show thesis by blast
    qed
  qed
qed

lemma constraints_started:
  "db_deps s' = map (begin_provisioning i) (db_deps s) \<Longrightarrow> db_rels s' = db_rels s \<Longrightarrow> constraints s \<Longrightarrow> constraints s'"
  by (simp add: constraints_def uq_hostname_active_def uq_deployment_active_def uq_deployment_namespace_def one_open_def
      filter_map o_def)

lemma world_ok_covered:
  assumes ok: "world_ok s" and st: "started_by i b s s'"
  shows "world_ok s' \<longleftrightarrow> covered s'"
proof -
  have d: "db_deps s' = map (begin_provisioning i) (db_deps s)" "db_rels s' = db_rels s" using st by (simp_all add: started_by_def)
  have "constraints s'" by (rule constraints_started[OF d]) (use ok in \<open>simp add: world_ok_def\<close>)
  moreover have "jobs_wf (db_jobs s')" using ok st by (simp add: world_ok_def started_by_def)
  moreover have "ledger_ok s'" using ok by (auto simp: world_ok_def ledger_ok_def own_release_def d)
  moreover have "deletion_ok s'"
    using ok by (auto simp: world_ok_def deletion_ok_def d begin_provisioning_def)
  ultimately show ?thesis by (simp add: world_ok_def)
qed

lemma covered_started:
  assumes ok: "world_ok s" and st: "started_by i b s s'"
  shows "covered s' \<longleftrightarrow> (\<forall>d \<in> set (db_deps s). d_subscription d = i \<and> d_status d = DPending \<longrightarrow> open_job_for (db_jobs s') (d_id d))"
proof -
  have d: "db_deps s' = map (begin_provisioning i) (db_deps s)" using st by (simp add: started_by_def)
  have "open_job_for (db_jobs s') (d_id c)" if "c \<in> set (db_deps s)" "d_status c \<in> {DProvisioning, DDeleting}" for c
    using ok st that unfolding world_ok_def covered_def started_by_def by blast
  moreover have "covered s' \<longleftrightarrow> (\<forall>c \<in> set (db_deps s). d_status (begin_provisioning i c) \<in> {DProvisioning, DDeleting} \<longrightarrow>
      open_job_for (db_jobs s') (d_id c))"
    unfolding covered_def d by simp
  moreover have "d_status (begin_provisioning i c) =
      (if d_subscription c = i \<and> d_status c = DPending then DProvisioning else d_status c)" for c
    by (simp add: begin_provisioning_def)
  ultimately show ?thesis by auto
qed

lemma world_ok_started:
  assumes ok: "world_ok s" and st: "started_by i True s s'"
  shows "world_ok s'"
proof -
  have "open_job_for (db_jobs s') (d_id d)" if "d \<in> set (db_deps s)" "d_subscription d = i" "d_status d = DPending" for d
  proof -
    from that have "begin_provisioning i d \<in> set (filter (in_provisioning i) (db_deps s'))" "d_id (begin_provisioning i d) = d_id d"
      using st by (auto simp: started_by_def begin_provisioning_def in_provisioning_def)
    then show ?thesis using st unfolding started_by_def by (metis imageI)
  qed
  then show ?thesis using world_ok_covered[OF assms] covered_started[OF assms] by blast
qed

section \<open>Properties\<close>

lemma in_provisioning_begun:
  "e \<in> d_id ` set (filter (in_provisioning i) (map (begin_provisioning i) ds)) \<longleftrightarrow>
     (\<exists>d \<in> set ds. d_id d = e \<and> d_subscription d = i \<and> d_status d \<in> {DPending, DProvisioning})"
proof -
  have "in_provisioning i (begin_provisioning i d) \<longleftrightarrow> d_subscription d = i \<and> d_status d \<in> {DPending, DProvisioning}" for d
    by (auto simp: in_provisioning_def begin_provisioning_def)
  then show ?thesis by (auto simp: filter_map image_iff o_def)
qed

text \<open>
  C13. What a payment notification can do, for any payment id and whatever the provider reports. Either it
  leaves every deployment and the queue alone, or the provider reports as paid the one payment recorded under that
  id, and it is the first payment of its subscription. Then exactly the deployments of that subscription that were
  pending go to provisioning. If the subscription was pending too, each of its deployments in provisioning has
  an open job, nothing else is queued, and the platform stays consistent; if it was not (its
  owner or an earlier notification had moved it on), nothing is queued, and the platform is
  consistent afterwards if and only if no deployment of it was pending without a job of its own. No release is
  touched.
\<close>

theorem payment_starts_deployments:
  assumes ok: "world_ok s" and run: "mollie_webhook provider now pid s = Inr s'"
  shows "db_rels s' = db_rels s \<and>
    (db_deps s' = db_deps s \<and> db_jobs s' = db_jobs s \<and> world_ok s' \<or>
     (\<exists>bp info p x. provider = Some bp \<and> bp_get bp pid = Inr info \<and> pi_status info = ''paid'' \<and>
        filter (\<lambda>p. mp_mollie_id p = pid) (db_payments s) = [p] \<and> mp_sequence p = ''first'' \<and> get_sub s (mp_sub p) = Some x \<and>
        db_deps s' = map (\<lambda>d. if d_subscription d = mp_sub p \<and> d_status d = DPending then d\<lparr>d_status := DProvisioning\<rparr> else d) (db_deps s) \<and>
        (if sub_payment x = PayPending
         then world_ok s' \<and> (\<forall>e. open_job_for (db_jobs s') e \<longleftrightarrow> open_job_for (db_jobs s) e \<or>
           (\<exists>d \<in> set (db_deps s). d_id d = e \<and> d_subscription d = mp_sub p \<and> d_status d \<in> {DPending, DProvisioning}))
         else db_jobs s' = db_jobs s \<and> (world_ok s' \<longleftrightarrow>
           (\<forall>d \<in> set (db_deps s). d_subscription d = mp_sub p \<and> d_status d = DPending \<longrightarrow> open_job_for (db_jobs s) (d_id d))))))"
  using run
proof (cases rule: mollie_webhook_Inr)
  case billing
  then have "world_ok s'" using ok by (auto simp: billing_change_def world_defs constraints_def)
  with billing show ?thesis using billing_change_tables by auto
next
  case (started bp info p x pays)
  have i: "sub_id x = mp_sub p" using started(6) by (rule row_get_key)
  let ?s = "s\<lparr>db_payments := pays\<rparr>"
  have ok2: "world_ok ?s" using ok by (simp add: world_defs constraints_def)
  from first_payment_started[OF started(8)] have st: "started_by (mp_sub p) (sub_payment x = PayPending) ?s s'" by (simp only: i)
  then have d: "db_deps s' = map (begin_provisioning (mp_sub p)) (db_deps s)" "db_rels s' = db_rels s"
    by (simp_all add: started_by_def)
  note facts = started(1-6) d[unfolded begin_provisioning_def[abs_def]]
  show ?thesis
  proof (cases "sub_payment x = PayPending")
    case True
    with st have "started_by (mp_sub p) True ?s s'" by simp
    from world_ok_started[OF ok2 this] have "world_ok s'" .
    moreover have "open_job_for (db_jobs s') e \<longleftrightarrow> open_job_for (db_jobs s) e \<or>
           (\<exists>d \<in> set (db_deps s). d_id d = e \<and> d_subscription d = mp_sub p \<and> d_status d \<in> {DPending, DProvisioning})" for e
      using st True unfolding started_by_def d(1) in_provisioning_begun by simp
    ultimately show ?thesis
      using facts True by (intro conjI disjI2 exI[of _ bp] exI[of _ info] exI[of _ p] exI[of _ x]) simp_all
  next
    case False
    have q: "db_jobs s' = db_jobs s" using first_payment_queue[OF started(8)] False by simp
    have "world_ok s' \<longleftrightarrow>
        (\<forall>d \<in> set (db_deps s). d_subscription d = mp_sub p \<and> d_status d = DPending \<longrightarrow> open_job_for (db_jobs s) (d_id d))"
      unfolding world_ok_covered[OF ok2 st] covered_started[OF ok2 st] q by simp
    with q show ?thesis
      using facts False by (intro conjI disjI2 exI[of _ bp] exI[of _ info] exI[of _ p] exI[of _ x]) (simp_all only: if_False simp_thms)
  qed
qed

text \<open>Settling the same payment a second time finds everything as the first time left it.\<close>

lemma begin_twice [simp]: "begin_provisioning i (begin_provisioning i d) = begin_provisioning i d"
  by (simp add: begin_provisioning_def)

definition names_created :: "billing_provider \<Rightarrow> bool" where
  "names_created bp \<longleftrightarrow> (\<forall>r. bp_subscribe bp r \<noteq> Inr [])"

lemma create_recurring_Inr:
  assumes "create_recurring bp now info i s = Inr s'" "names_created bp"
  obtains mid where "truthy_text mid" "s' = s\<lparr>db_subs := row_upd sub_id i (\<lambda>x. x\<lparr>sub_mollie_id := mid\<rparr>) (db_subs s)\<rparr>"
  | x where "get_sub s i = Some x" "truthy_text (sub_mollie_id x)" "s' = s"
proof -
  from assms(1) obtain x where x: "get_sub s i = Some x" unfolding create_recurring_def by (elim bindRE) (simp add: present_Inr)
  show thesis
  proof (cases "truthy_text (sub_mollie_id x)")
    case True
    then have "s' = s" using assms(1) x by (simp add: create_recurring_def present_def)
    with x True show thesis by (rule that(2))
  next
    case False
    have "present (get_sub s i) = Inr x" using x by (simp add: present_def)
    note run = assms(1)[unfolded create_recurring_def this bindR.simps if_not_P[OF False]]
    from run obtain r mid where m: "bp_subscribe bp r = Inr mid"
        "s' = s\<lparr>db_subs := row_upd sub_id i (\<lambda>x. x\<lparr>sub_mollie_id := Some mid\<rparr>) (db_subs s)\<rparr>"
      by (elim bindRE) simp
    have "mid \<noteq> []" using m(1) assms(2) unfolding names_created_def by blast
    then show thesis by (intro that(1)[OF _ m(2)]) (simp add: truthy_text_def)
  qed
qed

lemma first_payment_again:
  assumes run: "handle_first_payment_paid bp now info x s = Inr s'" and x: "get_sub s (sub_id x) = Some x"
    and keyed: "keyed sub_id (db_subs s)" and bp: "names_created bp"
  obtains x' where "get_sub s' (sub_id x) = Some x'" "handle_first_payment_paid bp now' info x' s' = Inr s'" "db_payments s' = db_payments s"
proof -
  let ?i = "sub_id x"
  let ?paid = "\<lambda>x. x\<lparr>sub_payment := PayCurrent, sub_mandate := pi_mandate info\<rparr>"
  let ?s1 = "s\<lparr>db_subs := row_upd sub_id ?i ?paid (db_subs s), db_deps := map (begin_provisioning ?i) (db_deps s)\<rparr>"
  from run obtain t where t: "t = ?s1 \<or> foldR (\<lambda>d. request_reconcile now ForCreate (d_id d)) (filter (in_provisioning ?i) (db_deps ?s1)) ?s1 = Inr t"
      "create_recurring bp now info ?i t = Inr s'"
    by (cases "sub_payment x = PayPending") (auto simp: handle_first_payment_paid_def Let_def bindR_Inr_iff flush_Inr)
  have "t = ?s1\<lparr>db_jobs := db_jobs t\<rparr>"
    using t(1)
  proof
    assume "t = ?s1"
    then show ?thesis by simp
  next
    assume "foldR (\<lambda>d. request_reconcile now ForCreate (d_id d)) (filter (in_provisioning ?i) (db_deps ?s1)) ?s1 = Inr t"
    then show ?thesis by (rule request_all(1))
  qed
  then obtain jt where jt: "t = ?s1\<lparr>db_jobs := jt\<rparr>" by blast
  have gt: "get_sub t ?i = Some (?paid x)" using x by (simp add: jt row_get_upd_same)
  have "\<exists>f. s' = t\<lparr>db_subs := row_upd sub_id ?i f (db_subs t)\<rparr> \<and> (\<forall>y. f y = y\<lparr>sub_mollie_id := sub_mollie_id (f y)\<rparr>) \<and>
      truthy_text (sub_mollie_id (f (?paid x)))"
    using t(2) bp
  proof (cases rule: create_recurring_Inr)
    case (1 mid)
    then show ?thesis by (intro exI[of _ "\<lambda>x. x\<lparr>sub_mollie_id := mid\<rparr>"]) simp
  next
    case (2 y)
    then show ?thesis using gt by (intro exI[of _ id]) (simp add: row_upd_id)
  qed
  then obtain f where f: "s' = t\<lparr>db_subs := row_upd sub_id ?i f (db_subs t)\<rparr>" "\<And>y. f y = y\<lparr>sub_mollie_id := sub_mollie_id (f y)\<rparr>"
      "truthy_text (sub_mollie_id (f (?paid x)))" by blast
  have fs: "sub_id (f y) = sub_id y" "sub_payment (f y) = sub_payment y" "sub_mandate (f y) = sub_mandate y" for y
    by (subst f(2); simp)+
  let ?x = "f (?paid x)"
  have g: "get_sub s' ?i = Some ?x" using gt by (simp add: f(1) row_get_upd_same[of sub_id, OF fs(1)])
  have same: "row_upd sub_id ?i ?paid (db_subs s') = db_subs s'"
  proof (rule row_upd_id)
    fix r assume r: "r \<in> set (db_subs s')" "sub_id r = ?i"
    then obtain y where "r = f (?paid y)"
      by (auto simp: f(1) jt set_row_upd fs)
    then show "?paid r = r" by (simp add: fs)
  qed
  have deps: "map (begin_provisioning ?i) (db_deps s') = db_deps s'" by (simp add: f(1) jt o_def)
  have "s'\<lparr>db_subs := db_subs s', db_deps := db_deps s'\<rparr> = s'" by simp
  then have "handle_first_payment_paid bp now' info ?x s' = create_recurring bp now' info ?i s'"
    by (simp add: handle_first_payment_paid_def Let_def fs same deps)
  also have "\<dots> = Inr s'" using g f(3) by (simp add: create_recurring_def present_def)
  finally show thesis using that g by (simp add: f(1) jt)
qed

lemma set_payment_twice [simp]: "set_payment p i (set_payment p i s) = set_payment p i s"
  by (simp add: set_payment_def row_upd_def o_def)

lemma get_sub_set_payment [simp]: "get_sub (set_payment p i s) i = map_option (\<lambda>x. x\<lparr>sub_payment := p\<rparr>) (get_sub s i)"
  by (simp add: set_payment_def row_get_upd_same)

lemma set_payment_payments [simp]: "db_payments (set_payment p i s) = db_payments s"
  by (simp add: set_payment_def)

lemma settle_again:
  assumes run: "settle_payment bp now info p x s = Inr s'" and x: "get_sub s (sub_id x) = Some x"
    and keyed: "keyed sub_id (db_subs s)" and bp: "names_created bp"
  obtains x' where "get_sub s' (sub_id x) = Some x'" "db_payments s' = db_payments s"
    "\<And>q. mp_sequence q = mp_sequence p \<Longrightarrow> settle_payment bp now' info q x' s' = Inr s'"
proof (cases "mp_sequence p = ''first'' \<and> pi_status info = ''paid''")
  case True
  with run have "handle_first_payment_paid bp now info x s = Inr s'" by (simp add: settle_payment_def)
  from first_payment_again[OF this x keyed bp, of now'] obtain x' where "get_sub s' (sub_id x) = Some x'"
    "handle_first_payment_paid bp now' info x' s' = Inr s'" "db_payments s' = db_payments s" .
  with True that show thesis by (simp add: settle_payment_def)
next
  case False
  note not_first = this
  have id: "sub_id (x\<lparr>sub_payment := v\<rparr>) = sub_id x" for v by simp
  consider "pi_status info \<in> {''failed'', ''expired'', ''canceled''}" "s' = set_payment PayArrears (sub_id x) s"
    | "pi_status info = ''paid''" "sub_payment x \<noteq> PayCurrent" "s' = set_payment PayCurrent (sub_id x) s"
    | "pi_status info \<notin> {''failed'', ''expired'', ''canceled''}" "pi_status info = ''paid'' \<longrightarrow> sub_payment x = PayCurrent" "s' = s"
    using run not_first by (auto simp: settle_payment_def Let_def split: if_splits)
  then show thesis
  proof cases
    case 1
    with x show thesis by (intro that[of "x\<lparr>sub_payment := PayArrears\<rparr>"]) (auto simp: settle_payment_def Let_def)
  next
    case 2
    with x not_first show thesis by (intro that[of "x\<lparr>sub_payment := PayCurrent\<rparr>"]) (auto simp: settle_payment_def Let_def)
  next
    case 3
    with x not_first show thesis by (intro that[of x]) (auto simp: settle_payment_def Let_def)
  qed
qed

lemma webhook_again:
  assumes run: "mollie_webhook provider now pid s = Inr s'" and keyed: "keyed sub_id (db_subs s)"
    and bp: "\<forall>bp. provider = Some bp \<longrightarrow> names_created bp"
  shows "mollie_webhook provider now' pid s' = Inr s'"
proof (cases "\<exists>bp info. provider = Some bp \<and> bp_get bp pid = Inr info")
  case False
  with run show ?thesis by (auto simp: mollie_webhook_def split: option.splits sum.splits)
next
  case True
  then obtain bp info where b: "provider = Some bp" "bp_get bp pid = Inr info" by blast
  note again = run[unfolded mollie_webhook_def b option.case sum.case]
  from again obtain found s1 where l: "locate_payment info pid s = Inr (found, s1)" by (elim bindR2E)
  note again = again[unfolded l bindR.simps prod.case]
  show ?thesis
  proof (cases found)
    case None
    with l have "s1 = s" by (cases rule: locate_payment_Inr) simp_all
    with again None l b show ?thesis by (simp add: mollie_webhook_def)
  next
    case (Some px)
    obtain p x where px: "px = (p, x)" by (cases px)
    from again[unfolded Some px option.case prod.case] obtain m where m: "mollie_status_of (pi_status info) = Inr m"
      and st: "settle_payment bp now info p x (s1\<lparr>db_payments := row_upd mp_mollie_id pid (\<lambda>p. p\<lparr>mp_status := m\<rparr>) (db_payments s1)\<rparr>) = Inr s'"
        "constraints s'"
      by (auto simp: bindR_Inr_iff flush_Inr)
    have one: "filter (\<lambda>p. mp_mollie_id p = pid) (db_payments s1) = [p] \<and> mp_sub p = sub_id x \<and> get_sub s1 (sub_id x) = Some x \<and>
        db_subs s1 = db_subs s"
      using l
    proof (cases rule: locate_payment_Inr)
      case (known q y)
      then have q: "q = p" "y = x" by (simp_all add: Some px)
      have "sub_id x = mp_sub p" using known(4) unfolding q by (rule row_get_key)
      with known q show ?thesis by simp
    next
      case (recorded q y k)
      then have q: "q = p" "y = x" by (simp_all add: Some px)
      with recorded row_get_keyed[OF keyed] show ?thesis by simp
    qed (simp_all add: Some)
    have g: "get_sub s (sub_id x) = Some x" using one by (elim conjE) simp
    obtain x' where x': "get_sub s' (sub_id x) = Some x'"
      "db_payments s' = row_upd mp_mollie_id pid (\<lambda>p. p\<lparr>mp_status := m\<rparr>) (db_payments s1)"
      "\<And>q. mp_sequence q = mp_sequence p \<Longrightarrow> settle_payment bp now' info q x' s' = Inr s'"
      by (rule settle_again[OF st(1), where now' = now']) (use g one keyed bp b(1) in simp_all)
    have "p \<in> set (filter (\<lambda>p. mp_mollie_id p = pid) (db_payments s1))" unfolding one[THEN conjunct1] by simp
    then have pid: "mp_mollie_id p = pid" by simp
    have "filter (\<lambda>p. mp_mollie_id p = pid) (db_payments s') = [p\<lparr>mp_status := m\<rparr>]"
      unfolding x'(2) row_upd_def filter_map using one pid by (simp add: o_def if_distrib[of mp_mollie_id] cong: if_cong)
    then have "locate_payment info pid s' = Inr (Some (p\<lparr>mp_status := m\<rparr>, x'), s')"
      using x'(1) one by (simp add: locate_payment_def one_or_none_def present_def)
    moreover have "row_upd mp_mollie_id pid (\<lambda>p. p\<lparr>mp_status := m\<rparr>) (db_payments s') = db_payments s'"
      unfolding x'(2) by (simp add: row_upd_def o_def)
    ultimately show ?thesis using x'(3) m st(2) by (simp add: mollie_webhook_def b flush_Inr flush_def)
  qed
qed

text \<open>
  C14. Deliveries are idempotent, as the endpoint documents: when a notification has been processed,
  processing it again, at any later time and with the same answer from the provider, changes nothing, be
  the payment a first or a recurring one, known or new, paid, failed or still open.
\<close>

theorem webhook_idempotent:
  assumes "mollie_webhook provider now pid s = Inr s'" and "keyed sub_id (db_subs s)"
    and "\<forall>bp. provider = Some bp \<longrightarrow> names_created bp"
  shows "mollie_webhook provider now' pid s' = Inr s'"
  by (rule webhook_again[OF assms])

section \<open>A deployment that waits for its payment\<close>

definition waiting_dep :: deployment where
  "waiting_dep = shop_dep\<lparr>d_status := DPending, d_applied_release := None, d_applied_template := None\<rparr>"

definition waiting_sub :: subscription where
  "waiting_sub = \<lparr>sub_id = 1, sub_plan_template = 2, sub_user = 1, sub_status = SubActive, sub_payment = PayPending,
     sub_cancelled_at = None, sub_mollie_id = None, sub_mandate = None\<rparr>"

definition waiting_shop :: db where
  "waiting_shop = shop\<lparr>db_deps := [waiting_dep], db_subs := [waiting_sub],
     db_payments := [\<lparr>mp_sub = 1, mp_mollie_id = ''tr_1'', mp_status = MOpen, mp_sequence = ''first'', mp_amount_cents = 999\<rparr>]\<rparr>"

definition paid_provider :: billing_provider where
  "paid_provider = \<lparr>bp_get = (\<lambda>_. Inr \<lparr>pi_status = ''paid'', pi_mandate = Some ''mdt_1'', pi_subscription = None\<rparr>),
     bp_subscribe = (\<lambda>_. Inr ''sub_1''), bp_start = (\<lambda>_ _. ''2026-02-01'')\<rparr>"

lemma waiting_dep_simps [simp]:
  "d_id waiting_dep = 7" "d_user waiting_dep = 1" "d_status waiting_dep = DPending" "d_desired_release waiting_dep = 73"
  "d_applied_release waiting_dep = None" "d_hostname waiting_dep = None" "d_deleted_at waiting_dep = None"
  "d_subscription waiting_dep = 1" "d_namespace waiting_dep = ''wiki-ada-abcdef123''"
  by (simp_all add: waiting_dep_def shop_dep_def demo_dep_def)

lemma waiting_tables:
  "db_deps waiting_shop = [waiting_dep]" "db_subs waiting_shop = [waiting_sub]" "db_jobs waiting_shop = \<lparr>jt_rows = [], jt_next = 1\<rparr>"
  "db_payments waiting_shop = [\<lparr>mp_sub = 1, mp_mollie_id = ''tr_1'', mp_status = MOpen, mp_sequence = ''first'', mp_amount_cents = 999\<rparr>]"
  "db_rels waiting_shop = db_rels shop" "db_users waiting_shop = [demo_user]" "db_plans waiting_shop = shop_plans"
  "db_plan_templates waiting_shop = shop_plan_templates"
  "db_products waiting_shop = [\<lparr>p_id = 1, p_name = ''custom'', p_slug = None, p_template_id = Some 1\<rparr>,
                     \<lparr>p_id = 2, p_name = ''wiki'', p_slug = None, p_template_id = Some 2\<rparr>]"
  by (simp_all add: waiting_shop_def shop_def empty_db_def)

lemma waiting_ok: "world_ok waiting_shop" "keyed sub_id (db_subs waiting_shop)"
proof -
  show "world_ok waiting_shop"
    unfolding world_defs constraints_def
    by (simp add: waiting_tables shop_tables uq_hostname_active_def uq_deployment_active_def one_open_def live_host_def
        uq_deployment_namespace_def uq_release_number_def jobs_wf_def)
  show "keyed sub_id (db_subs waiting_shop)"
    by (simp add: waiting_tables waiting_sub_def)
qed

definition started_dep :: deployment where
  "started_dep = waiting_dep\<lparr>d_status := DProvisioning\<rparr>"

definition paid_subs :: "subscription list" where
  "paid_subs = [waiting_sub\<lparr>sub_payment := PayCurrent, sub_mandate := Some ''mdt_1'', sub_mollie_id := Some ''sub_1''\<rparr>]"

definition paid_payments :: "mollie_payment list" where
  "paid_payments = [\<lparr>mp_sub = 1, mp_mollie_id = ''tr_1'', mp_status = MPaid, mp_sequence = ''first'', mp_amount_cents = 999\<rparr>]"

lemma begin_waiting: "begin_provisioning 1 waiting_dep = started_dep"
  by (simp add: begin_provisioning_def started_dep_def)

text \<open>The payment of a subscription in any state, by the tables it is settled in.\<close>

lemma waiting_recurring:
  assumes "db_subs s = [x]" "sub_id x = 1" "sub_plan_template x = 2" "sub_user x = 1" "sub_mollie_id x = None"
    and "db_deps s = [started_dep]" "db_users s = [demo_user]" "db_plans s = shop_plans" "db_plan_templates s = shop_plan_templates"
    and "db_products s = db_products waiting_shop"
  shows "create_recurring paid_provider now info 1 s = Inr (s\<lparr>db_subs := [x\<lparr>sub_mollie_id := Some ''sub_1''\<rparr>]\<rparr>)"
proof -
  have g: "get_sub s 1 = Some x" "get_user s 1 = Some demo_user" using assms by (simp_all add: table_simps demo_user_def)
  obtain ptv p where pt: "get_plan_template s 2 = Some ptv" "pt_plan ptv = 2" "get_plan s 2 = Some p" "pl_product p = 2"
    using assms(8,9) by (simp add: shop_plan_templates_def shop_plans_def table_simps)
  have d: "d_subscription started_dep = 1" by (simp add: started_dep_def)
  obtain desc where desc: "payment_description s 1 (d_id started_dep) = Inr desc"
    using g pt assms(3,10) by (simp add: payment_description_def waiting_tables table_simps)
  have p: "present (get_sub s 1) = Inr x" "present (get_plan_template s 2) = Inr ptv" "present (get_plan s 2) = Inr p"
    "present (get_user s 1) = Inr demo_user" using g pt by (simp_all add: present_def del: One_nat_def)
  show ?thesis
    unfolding create_recurring_def p(1) bindR.simps assms(3,4,5) p(2) pt(2) p(3,4)
    by (simp add: truthy_text_def assms(1,2,6) d desc[unfolded One_nat_def] paid_provider_def table_simps)
qed

definition first_job :: "time \<Rightarrow> job" where
  "first_job now = \<lparr>job_id = 1, job_dep = 7, job_reason = ForCreate, job_status = JQueued, job_run_after = now, job_attempt = 0,
     job_locked_by = None, job_locked_at = None, job_last_error = None, job_created_at = now, job_updated_at = now\<rparr>"

definition settled_shop :: "job_table \<Rightarrow> db" where
  "settled_shop jt = waiting_shop\<lparr>db_payments := paid_payments, db_subs := paid_subs, db_deps := [started_dep], db_jobs := jt\<rparr>"

definition unpaid :: "payment_status \<Rightarrow> subscription" where
  "unpaid p = waiting_sub\<lparr>sub_payment := p\<rparr>"

lemma unpaid_simps [simp]:
  "sub_id (unpaid p) = 1" "sub_plan_template (unpaid p) = 2" "sub_user (unpaid p) = 1" "sub_mollie_id (unpaid p) = None"
  "sub_payment (unpaid p) = p"
  by (simp_all add: unpaid_def waiting_sub_def)

lemma started_dep_simps [simp]:
  "d_id started_dep = 7" "d_status started_dep = DProvisioning" "d_subscription started_dep = 1"
  "in_provisioning (Suc 0) started_dep"
  by (simp_all add: started_dep_def in_provisioning_def)

lemma waiting_constraints:
  "constraints (waiting_shop\<lparr>db_payments := ps, db_subs := xs, db_deps := [started_dep], db_jobs := jt\<rparr>)"
  "constraints (waiting_shop\<lparr>db_payments := ps, db_subs := xs, db_deps := [started_dep]\<rparr>)"
  by (simp_all add: constraints_def uq_hostname_active_def uq_deployment_active_def uq_deployment_namespace_def one_open_def
      live_host_def started_dep_def waiting_tables shop_tables uq_release_number_def)

lemma webhook_settles:
  "mollie_webhook (Some paid_provider) now ''tr_1'' (waiting_shop\<lparr>db_subs := [unpaid p]\<rparr>) =
     Inr (settled_shop (if p = PayPending then \<lparr>jt_rows = [first_job now], jt_next = 2\<rparr> else \<lparr>jt_rows = [], jt_next = 1\<rparr>))"
  (is "?run = Inr (settled_shop ?jt)")
proof -
  let ?s1 = "\<lambda>p. waiting_shop\<lparr>db_payments := paid_payments,
    db_subs := [(unpaid p)\<lparr>sub_payment := PayCurrent, sub_mandate := Some ''mdt_1''\<rparr>], db_deps := [started_dep]\<rparr>"
  have rec: "create_recurring paid_provider now info 1 ((?s1 p)\<lparr>db_jobs := jt\<rparr>) = Inr (settled_shop jt)" for info jt p
    by (subst waiting_recurring[where x = "(unpaid p)\<lparr>sub_payment := PayCurrent, sub_mandate := Some ''mdt_1''\<rparr>"])
      (simp_all add: waiting_tables settled_shop_def paid_subs_def unpaid_def waiting_sub_def)
  have rec0: "create_recurring paid_provider now info 1 (?s1 p) = Inr (settled_shop \<lparr>jt_rows = [], jt_next = 1\<rparr>)" for info p
    using rec[of info "\<lparr>jt_rows = [], jt_next = 1\<rparr>"] by (simp add: waiting_shop_def shop_def empty_db_def)
  have flush: "flush (?s1 p) = Inr (?s1 p)" for p by (simp only: flush_def waiting_constraints if_True)
  have enq: "request_reconcile now ForCreate 7 (?s1 p) = Inr ((?s1 p)\<lparr>db_jobs := \<lparr>jt_rows = [first_job now], jt_next = 2\<rparr>\<rparr>)" for p
    by (simp add: request_reconcile_def enqueue_job_def waiting_tables open_job_for_def first_job_def
        known_dep_def table_simps numeral_2_eq_2 slot_taken_def Let_def)
  have paid: "handle_first_payment_paid paid_provider now \<lparr>pi_status = ''paid'', pi_mandate = Some ''mdt_1'', pi_subscription = None\<rparr>
      (unpaid p) (waiting_shop\<lparr>db_subs := [unpaid p], db_payments := paid_payments\<rparr>) = Inr (settled_shop ?jt)"
    by (simp add: handle_first_payment_paid_def Let_def row_upd_def waiting_tables begin_waiting[unfolded One_nat_def]
        flush[unfolded One_nat_def] enq[unfolded One_nat_def] rec[unfolded One_nat_def] rec0[unfolded One_nat_def])
  have fin: "constraints (settled_shop jt)" for jt unfolding settled_shop_def by (rule waiting_constraints(1))
  have get: "bp_get paid_provider i = Inr \<lparr>pi_status = ''paid'', pi_mandate = Some ''mdt_1'', pi_subscription = None\<rparr>" for i
    by (simp add: paid_provider_def)
  show ?thesis
    by (simp add: mollie_webhook_def locate_payment_def one_or_none_def present_def waiting_tables table_simps mollie_status_of_def
        settle_payment_def row_upd_def get paid[unfolded paid_payments_def One_nat_def] fin flush_def cong del: if_weak_cong)
qed

lemma unpaid_pending: "waiting_shop\<lparr>db_subs := [unpaid PayPending]\<rparr> = waiting_shop"
  by (simp add: waiting_shop_def unpaid_def waiting_sub_def)

lemma waiting_webhook:
  "mollie_webhook (Some paid_provider) now ''tr_1'' waiting_shop = Inr (settled_shop \<lparr>jt_rows = [first_job now], jt_next = 2\<rparr>)"
  using webhook_settles[of now PayPending] by (simp only: unpaid_pending if_True simp_thms refl)

lemma payment_starts_deployments_witness:
  "\<exists>s'. mollie_webhook (Some paid_provider) 500 ''tr_1'' waiting_shop = Inr s' \<and> world_ok s' \<and>
     map d_status (db_deps waiting_shop) = [DPending] \<and> map d_status (db_deps s') = [DProvisioning] \<and> open_job_for (db_jobs s') 7"
proof -
  let ?s = "settled_shop \<lparr>jt_rows = [first_job 500], jt_next = 2\<rparr>"
  have ne: "db_deps ?s \<noteq> db_deps waiting_shop" by (auto simp: settled_shop_def waiting_tables dest: arg_cong[of _ _ d_status])
  from conjunct2[OF payment_starts_deployments[OF waiting_ok(1) waiting_webhook[of 500]]] have "world_ok ?s"
  proof (elim disjE exE conjE)
    assume "db_deps ?s = db_deps waiting_shop"
    with ne show ?thesis by simp
  next
    fix p x Q R
    assume p: "filter (\<lambda>p. mp_mollie_id p = ''tr_1'') (db_payments waiting_shop) = [p]" "get_sub waiting_shop (mp_sub p) = Some x"
      and w: "if sub_payment x = PayPending then world_ok ?s \<and> Q else R"
    from p(1) have "mp_sub p = 1" by (auto simp: waiting_tables)
    with p(2) have "sub_payment x = PayPending" by (auto simp: waiting_tables table_simps waiting_sub_def split: if_splits)
    with w show ?thesis by simp
  qed
  then show ?thesis
    by (intro exI[of _ ?s]) (simp add: waiting_webhook, simp add: waiting_tables settled_shop_def open_job_for_def slot_taken_def first_job_def job_open_def)
qed

lemma webhook_idempotent_witness:
  "\<exists>s'. mollie_webhook (Some paid_provider) 500 ''tr_1'' waiting_shop = Inr s' \<and> length (jt_rows (db_jobs s')) = 1 \<and>
     mollie_webhook (Some paid_provider) 900 ''tr_1'' s' = Inr s'"
proof -
  have "\<forall>bp. Some paid_provider = Some bp \<longrightarrow> names_created bp" by (simp add: paid_provider_def names_created_def)
  from webhook_idempotent[OF waiting_webhook waiting_ok(2) this] show ?thesis
    using waiting_webhook by (auto simp: settled_shop_def)
qed

text \<open>
  C15. A paid deployment can be left behind. The endpoint lets the owner of a subscription set its payment
  state while the first payment is still open. When the payment then arrives, the deployment goes to
  provisioning, but the subscription is no longer pending, so no reconcile is queued: the world invariant
  is lost, no worker will bring the deployment up until its owner asks for something else, and delivering
  the notification again does not help.
\<close>

theorem paid_yet_stranded:
  "\<exists>s1 s2. world_ok waiting_shop \<and>
     update_subscription 400 1 False 1 \<lparr>su_status = None, su_payment = Some PayCurrent\<rparr> waiting_shop = Inr s1 \<and>
     mollie_webhook (Some paid_provider) 500 ''tr_1'' s1 = Inr s2 \<and>
     map d_status (db_deps s2) = [DProvisioning] \<and> jt_rows (db_jobs s2) = [] \<and> \<not> world_ok s2 \<and>
     mollie_webhook (Some paid_provider) 600 ''tr_1'' s2 = Inr s2"
proof -
  let ?s1 = "waiting_shop\<lparr>db_subs := [unpaid PayCurrent]\<rparr>"
  let ?s2 = "settled_shop \<lparr>jt_rows = [], jt_next = 1\<rparr>"
  have s: "waiting_sub = unpaid PayPending" by (simp add: unpaid_def waiting_sub_def)
  have u: "update_subscription 400 1 False 1 \<lparr>su_status = None, su_payment = Some PayCurrent\<rparr> waiting_shop = Inr ?s1"
    by (simp add: update_subscription_def require_subscription_owner_def update_payment_status_def get_subscription_def table_simps
        waiting_tables s put_sub_def row_upd_def) (simp add: unpaid_def)
  have w: "mollie_webhook (Some paid_provider) 500 ''tr_1'' ?s1 = Inr ?s2" using webhook_settles[of 500 PayCurrent] by simp
  have again: "mollie_webhook (Some paid_provider) 600 ''tr_1'' ?s2 = Inr ?s2"
    by (rule webhook_again[OF w]) (simp_all add: table_simps paid_provider_def names_created_def)
  have "\<not> covered ?s2" by (simp add: covered_def settled_shop_def open_job_for_def slot_taken_def)
  with u w again waiting_ok(1) show ?thesis
    by (intro exI[of _ ?s1] exI[of _ ?s2]) (simp add: settled_shop_def world_ok_def)
qed

end
