(* ===== verification/Effects.thy ===== *)
theory Effects
  imports Models TemplateValues
begin

text \<open>
  Work done outside the database. The reconcile path drives \<^verbatim>\<open>kubectl\<close> and \<^verbatim>\<open>helm\<close>
  (\<^verbatim>\<open>api/app/proc.py\<close>), the tenant PostgreSQL cluster, the Garage admin API and the log store. None
  of these is code of the program: each answer is a parameter, a field of \<open>outside\<close>, that may depend
  on every call made before it, so failures, restarts and other actors are all among the instances.
  A computation (\<open>act\<close>) carries the database and the calls made so far; an exception keeps both, since
  neither a commit nor a command is undone by one.
\<close>

section \<open>Calls and their answers\<close>

text \<open>
  A SQL statement is its text with the identifiers and literals composed into it. A transactional
  session is one call; a statement run in autocommit is one of its own.
\<close>

type_synonym sql = "string \<times> (string \<times> string) list"

datatype call =
    Command "string list" "json option"
  | PgSession "sql list"
  | PgAuto sql
  | PgRoleExists string
  | PgDatabaseExists string
  | PgPublicCanConnect string
  | PgSize string
  | PgTerminate string
  | PgDatabases string
  | PgRoles string
  | Http string string "json option" "(string \<times> string) list"
  | LogTail string time nat
  | SendMail string string

text \<open>A finished process: return code, standard output, standard error.\<close>

record completed =
  cp_code :: nat
  cp_out :: string
  cp_err :: string

text \<open>
  Answers, by their type: \<open>Inl\<close> is the text of an exception, a request is answered with a status and
  a body. \<open>o_json\<close> is \<^verbatim>\<open>json.loads\<close> of an output or a body, \<open>o_token\<close> a fresh random token.
\<close>

record outside =
  o_run :: "call list \<Rightarrow> call \<Rightarrow> completed"
  o_do :: "call list \<Rightarrow> call \<Rightarrow> string + unit"
  o_ask :: "call list \<Rightarrow> call \<Rightarrow> string + bool"
  o_http :: "call list \<Rightarrow> call \<Rightarrow> string + (nat \<times> string)"
  o_num :: "call list \<Rightarrow> call \<Rightarrow> string + nat"
  o_list :: "call list \<Rightarrow> call \<Rightarrow> string + string list"
  o_json :: "string \<Rightarrow> json option"
  o_now :: "call list \<Rightarrow> time"
  o_token :: "call list \<Rightarrow> string"

section \<open>Computations\<close>

record world =
  w_db :: db
  w_calls :: "call list"

type_synonym 'a act = "world \<Rightarrow> 'a result \<times> world"

definition retA :: "'a \<Rightarrow> 'a act" where
  "retA x w = (Inr x, w)"

definition failA :: "error \<Rightarrow> 'a act" where
  "failA e w = (Inl e, w)"

definition liftA :: "'a result \<Rightarrow> 'a act" where
  "liftA r w = (r, w)"

definition bindA :: "'a act \<Rightarrow> ('a \<Rightarrow> 'b act) \<Rightarrow> 'b act" where
  "bindA m f w = (case m w of (Inl e, w') \<Rightarrow> (Inl e, w') | (Inr x, w') \<Rightarrow> f x w')"

abbreviation thenA :: "'a act \<Rightarrow> 'b act \<Rightarrow> 'b act" where
  "thenA m k \<equiv> bindA m (\<lambda>_. k)"

text \<open>\<^verbatim>\<open>try: m except Exception as e: h(e)\<close>\<close>

definition catchA :: "'a act \<Rightarrow> (error \<Rightarrow> 'a act) \<Rightarrow> 'a act" where
  "catchA m h w = (case m w of (Inl e, w') \<Rightarrow> h e w' | (Inr x, w') \<Rightarrow> (Inr x, w'))"

definition whenA :: "bool \<Rightarrow> unit act \<Rightarrow> unit act" where
  "whenA b m = (if b then m else retA ())"

fun eachA :: "('a \<Rightarrow> unit act) \<Rightarrow> 'a list \<Rightarrow> unit act" where
  "eachA f [] = retA ()"
| "eachA f (x # xs) = thenA (f x) (eachA f xs)"

definition readA :: "(db \<Rightarrow> 'a) \<Rightarrow> 'a act" where
  "readA f w = (Inr (f (w_db w)), w)"

text \<open>A change of rows together with its commit.\<close>

definition commitA :: "(db \<Rightarrow> db) \<Rightarrow> unit act" where
  "commitA f w = (Inr (), w\<lparr>w_db := f (w_db w)\<rparr>)"

definition nowA :: "outside \<Rightarrow> time act" where
  "nowA out w = (Inr (o_now out (w_calls w)), w)"

definition tokenA :: "outside \<Rightarrow> string act" where
  "tokenA out w = (Inr (o_token out (w_calls w)), w)"

definition askA :: "(call list \<Rightarrow> call \<Rightarrow> string + 'a) \<Rightarrow> call \<Rightarrow> 'a act" where
  "askA answer c w =
     (case answer (w_calls w) c of
        Inl m \<Rightarrow> (Inl (ExternalErr m), w\<lparr>w_calls := w_calls w @ [c]\<rparr>)
      | Inr x \<Rightarrow> (Inr x, w\<lparr>w_calls := w_calls w @ [c]\<rparr>))"

section \<open>External commands\<close>

text \<open>\<^verbatim>\<open>repr\<close> of a string of Latin-1 characters.\<close>

definition repr_char :: "char \<Rightarrow> char \<Rightarrow> string" where
  "repr_char q c =
     (let n = of_char c :: nat in
      if c = q \<or> n = 92 then [CHR 0x5C, c]
      else if n = 10 then [CHR 0x5C, CHR ''n''] else if n = 13 then [CHR 0x5C, CHR ''r'']
      else if n = 9 then [CHR 0x5C, CHR ''t'']
      else if n < 32 \<or> (127 \<le> n \<and> n < 161) \<or> n = 173 then CHR 0x5C # CHR ''x'' # hex_pad 2 n
      else [c])"

definition py_repr :: "string \<Rightarrow> string" where
  "py_repr s =
     (let q = if CHR 0x27 \<in> set s \<and> CHR 0x22 \<notin> set s then CHR 0x22 else CHR 0x27
      in q # concat (map (repr_char q) s) @ [q])"

definition command_detail :: "completed \<Rightarrow> string" where
  "command_detail r =
     (let detail = strip is_space (if cp_err r = [] then cp_out r else cp_err r)
      in if length detail > 400 then take 397 detail @ ''...'' else detail)"

definition command_error :: "string \<Rightarrow> string list \<Rightarrow> completed \<Rightarrow> error" where
  "command_error message argv r =
     ExternalErr (message @ '' (returncode='' @ nat_str (cp_code r) @ '', command='' @ py_repr (join '' '' argv) @
       '', detail='' @ py_repr (command_detail r) @ '')'')"

definition runA :: "outside \<Rightarrow> string list \<Rightarrow> json option \<Rightarrow> completed act" where
  "runA out argv doc w =
     (Inr (o_run out (w_calls w) (Command argv doc)), w\<lparr>w_calls := w_calls w @ [Command argv doc]\<rparr>)"

definition run_command :: "outside \<Rightarrow> string list \<Rightarrow> json option \<Rightarrow> string \<Rightarrow> completed act" where
  "run_command out argv doc message =
     bindA (runA out argv doc) (\<lambda>r. if cp_code r \<noteq> 0 then failA (command_error message argv r) else retA r)"

text \<open>The \<^verbatim>\<open>except AdapterCommandError\<close> branches that take a missing object as an answer.\<close>

definition mentions :: "string \<Rightarrow> string \<Rightarrow> bool" where
  "mentions sub s = contains_str sub (lower s)"

definition not_found_any :: "completed \<Rightarrow> bool" where
  "not_found_any r \<longleftrightarrow> mentions ''not found'' (cp_err r @ [newline] @ cp_out r)"

definition run_or_missing :: "outside \<Rightarrow> string list \<Rightarrow> string \<Rightarrow> (completed \<Rightarrow> bool) \<Rightarrow> completed option act" where
  "run_or_missing out argv message missing =
     bindA (runA out argv None) (\<lambda>r.
       if cp_code r = 0 then retA (Some r)
       else if missing r then retA None
       else failA (command_error message argv r))"

section \<open>Reasoning\<close>

named_theorems act_simps \<open>one step of a computation\<close>

lemma retA_run [act_simps]: "retA x w = (Inr x, w)" by (simp add: retA_def)
lemma failA_run [act_simps]: "failA e w = (Inl e, w)" by (simp add: failA_def)
lemma liftA_run [act_simps]: "liftA r w = (r, w)" by (simp add: liftA_def)
lemma readA_run [act_simps]: "readA f w = (Inr (f (w_db w)), w)" by (simp add: readA_def)
lemma nowA_run [act_simps]: "nowA out w = (Inr (o_now out (w_calls w)), w)" by (simp add: nowA_def)
lemma tokenA_run [act_simps]: "tokenA out w = (Inr (o_token out (w_calls w)), w)" by (simp add: tokenA_def)
lemma commitA_run [act_simps]: "commitA f w = (Inr (), w\<lparr>w_db := f (w_db w)\<rparr>)" by (simp add: commitA_def)

lemma bindA_Inr_iff [result_simps]:
  "bindA m f w = (Inr y, w') \<longleftrightarrow> (\<exists>x w1. m w = (Inr x, w1) \<and> f x w1 = (Inr y, w'))"
  by (auto simp: bindA_def split: prod.splits sum.splits)

lemma bindA_Inl_iff [result_simps]:
  "bindA m f w = (Inl e, w') \<longleftrightarrow> m w = (Inl e, w') \<or> (\<exists>x w1. m w = (Inr x, w1) \<and> f x w1 = (Inl e, w'))"
  by (auto simp: bindA_def split: prod.splits sum.splits)

lemma bindA_E:
  assumes "bindA m f w = (Inr y, w')"
  obtains x w1 where "m w = (Inr x, w1)" "f x w1 = (Inr y, w')"
  using assms by (auto simp: bindA_Inr_iff)

lemma bindA_run: "m w = (Inr x, w1) \<Longrightarrow> bindA m f w = f x w1"
  by (simp add: bindA_def)

text \<open>
  What a computation adds to the calls. \<open>issues P m\<close>: each call it makes satisfies \<open>P\<close>, whatever the
  answers and whether or not it raises; \<open>phases st lo hi m\<close>: it goes through the stages \<open>lo\<close> to \<open>hi\<close> of
  \<open>st\<close> in order.
\<close>

definition issues :: "(call \<Rightarrow> bool) \<Rightarrow> 'a act \<Rightarrow> bool" where
  "issues P m \<longleftrightarrow> (\<forall>w. \<exists>cs. w_calls (snd (m w)) = w_calls w @ cs \<and> (\<forall>c \<in> set cs. P c))"

definition phases :: "(call \<Rightarrow> nat) \<Rightarrow> nat \<Rightarrow> nat \<Rightarrow> 'a act \<Rightarrow> bool" where
  "phases st lo hi m \<longleftrightarrow>
     (\<forall>w. \<exists>cs. w_calls (snd (m w)) = w_calls w @ cs \<and> sorted (map st cs) \<and>
        (\<forall>c \<in> set cs. lo \<le> st c \<and> st c \<le> hi))"

lemma issues_pure [simp]:
  "issues P (retA x)" "issues P (failA e)" "issues P (liftA r)" "issues P (readA f)" "issues P (commitA g)"
  "issues P (nowA out)" "issues P (tokenA out)"
  by (simp_all add: issues_def act_simps)

lemma issues_bind: "issues P m \<Longrightarrow> (\<And>x. issues P (f x)) \<Longrightarrow> issues P (bindA m f)"
proof -
  assume m: "issues P m" and f: "\<And>x. issues P (f x)"
  show "issues P (bindA m f)"
    unfolding issues_def
  proof (rule allI)
    fix w
    obtain cs where cs: "w_calls (snd (m w)) = w_calls w @ cs" "\<forall>c \<in> set cs. P c"
      using m by (auto simp: issues_def)
    show "\<exists>ds. w_calls (snd (bindA m f w)) = w_calls w @ ds \<and> (\<forall>c \<in> set ds. P c)"
    proof (cases "m w")
      case (Pair r w')
      show ?thesis
      proof (cases r)
        case (Inl e)
        with Pair cs show ?thesis by (auto simp: bindA_def)
      next
        case (Inr x)
        obtain ds where "w_calls (snd (f x w')) = w_calls w' @ ds" "\<forall>c \<in> set ds. P c"
          using f[of x] by (auto simp: issues_def)
        with Pair Inr cs show ?thesis by (intro exI[of _ "cs @ ds"]) (auto simp: bindA_def)
      qed
    qed
  qed
qed

lemma phases_pure [simp]:
  "phases st lo hi (retA x)" "phases st lo hi (failA e)" "phases st lo hi (liftA r)" "phases st lo hi (readA f)"
  "phases st lo hi (commitA g)" "phases st lo hi (nowA out)" "phases st lo hi (tokenA out)"
  by (simp_all add: phases_def act_simps)

lemma phases_within: "issues (\<lambda>c. st c = n) m \<Longrightarrow> phases st n n m"
proof -
  assume m: "issues (\<lambda>c. st c = n) m"
  have "sorted (map st cs)" if "\<forall>c \<in> set cs. st c = n" for cs
    using that by (induction cs) auto
  with m show ?thesis unfolding issues_def phases_def by (metis le_refl)
qed

lemma phases_widen: "phases st a b m \<Longrightarrow> lo \<le> a \<Longrightarrow> b \<le> hi \<Longrightarrow> phases st lo hi m"
  unfolding phases_def by (meson le_trans)

lemma phases_bind:
  assumes m: "phases st lo b m" and f: "\<And>x. phases st c hi (f x)" and le: "b \<le> c" "lo \<le> c" "b \<le> hi"
  shows "phases st lo hi (bindA m f)"
  unfolding phases_def
proof (rule allI)
  fix w
  obtain cs where cs: "w_calls (snd (m w)) = w_calls w @ cs" "sorted (map st cs)" "\<forall>x \<in> set cs. lo \<le> st x \<and> st x \<le> b"
    using m by (auto simp: phases_def)
  obtain r w' where mw: "m w = (r, w')" by (cases "m w")
  show "\<exists>ds. w_calls (snd (bindA m f w)) = w_calls w @ ds \<and> sorted (map st ds) \<and>
      (\<forall>x \<in> set ds. lo \<le> st x \<and> st x \<le> hi)"
  proof (cases r)
    case (Inl e)
    have "\<forall>x \<in> set cs. lo \<le> st x \<and> st x \<le> hi" using cs(3) le(3) order_trans by blast
    with mw Inl cs show ?thesis by (intro exI[of _ cs]) (simp add: bindA_def)
  next
    case (Inr x)
    obtain ds where ds: "w_calls (snd (f x w')) = w_calls w' @ ds" "sorted (map st ds)" "\<forall>y \<in> set ds. c \<le> st y \<and> st y \<le> hi"
      using f[of x] by (auto simp: phases_def)
    have "st y \<le> st z" if "y \<in> set cs" "z \<in> set ds" for y z
      using cs(3) ds(3) le(1) that by (meson order_trans)
    then have s: "sorted (map st (cs @ ds))"
      using cs(2) ds(2) by (auto simp: sorted_append)
    have b: "\<forall>x \<in> set (cs @ ds). lo \<le> st x \<and> st x \<le> hi"
      using cs(3) ds(3) le(2,3) by (metis Un_iff order_trans set_append)
    have "w_calls (snd (bindA m f w)) = w_calls w @ cs @ ds"
      using mw Inr cs(1) ds(1) by (simp add: bindA_def)
    with s b show ?thesis by blast
  qed
qed

lemma issues_ask: "P c \<Longrightarrow> issues P (askA answer c)"
  by (auto simp: issues_def askA_def split: sum.split)

lemma issues_run: "P (Command argv doc) \<Longrightarrow> issues P (runA out argv doc)"
  by (simp add: issues_def runA_def)

lemma issues_if [intro]: "(b \<Longrightarrow> issues P m) \<Longrightarrow> (\<not> b \<Longrightarrow> issues P k) \<Longrightarrow> issues P (if b then m else k)"
  by simp

lemma issues_run_command: "P (Command argv doc) \<Longrightarrow> issues P (run_command out argv doc msg)"
  unfolding run_command_def by (intro issues_bind issues_if issues_run) simp_all

lemma issues_run_or_missing: "P (Command argv None) \<Longrightarrow> issues P (run_or_missing out argv msg missing)"
  unfolding run_or_missing_def by (intro issues_bind issues_if issues_run) simp_all

lemma issues_each: "(\<And>x. x \<in> set xs \<Longrightarrow> issues P (f x)) \<Longrightarrow> issues P (eachA f xs)"
  by (induction xs) (simp_all add: issues_bind)

lemma issues_when: "(b \<Longrightarrow> issues P m) \<Longrightarrow> issues P (whenA b m)"
  by (simp add: whenA_def)

lemma issues_mono: "issues P m \<Longrightarrow> (\<And>c. P c \<Longrightarrow> Q c) \<Longrightarrow> issues Q m"
  unfolding issues_def by meson

lemma issues_catch: "issues P m \<Longrightarrow> (\<And>e. issues P (h e)) \<Longrightarrow> issues P (catchA m h)"
proof -
  assume m: "issues P m" and h: "\<And>e. issues P (h e)"
  have "issues P (bindA (\<lambda>w. (Inr (fst (m w)), snd (m w))) (\<lambda>r. case r of Inl e \<Rightarrow> h e | Inr x \<Rightarrow> retA x))"
    using m h by (intro issues_bind) (auto simp: issues_def act_simps split: sum.split)
  moreover have "catchA m h = bindA (\<lambda>w. (Inr (fst (m w)), snd (m w))) (\<lambda>r. case r of Inl e \<Rightarrow> h e | Inr x \<Rightarrow> retA x)"
    by (rule ext) (simp add: catchA_def bindA_def retA_def split: prod.split sum.split)
  ultimately show ?thesis by simp
qed

lemmas issues_rules = issues_bind issues_if issues_ask issues_run_command issues_run_or_missing issues_each issues_when issues_catch

section \<open>Hoare triples\<close>

text \<open>
  \<open>runs P m Q E\<close>: from a world satisfying \<open>P\<close>, a result \<open>x\<close> leaves one satisfying \<open>Q x\<close> and an exception
  \<open>e\<close> one satisfying \<open>E e\<close>.
\<close>

definition runs :: "(world \<Rightarrow> bool) \<Rightarrow> 'a act \<Rightarrow> ('a \<Rightarrow> world \<Rightarrow> bool) \<Rightarrow> (error \<Rightarrow> world \<Rightarrow> bool) \<Rightarrow> bool" where
  "runs P m Q E \<longleftrightarrow> (\<forall>w. P w \<longrightarrow> (case m w of (Inr x, w') \<Rightarrow> Q x w' | (Inl e, w') \<Rightarrow> E e w'))"

lemma runs_Inr: "runs P m Q E \<Longrightarrow> P w \<Longrightarrow> m w = (Inr x, w') \<Longrightarrow> Q x w'"
  by (fastforce simp: runs_def)

lemma runs_Inl: "runs P m Q E \<Longrightarrow> P w \<Longrightarrow> m w = (Inl e, w') \<Longrightarrow> E e w'"
  by (fastforce simp: runs_def)

lemma runs_weaken:
  "runs P m Q E \<Longrightarrow> (\<And>w. P' w \<Longrightarrow> P w) \<Longrightarrow> (\<And>x w. Q x w \<Longrightarrow> Q' x w) \<Longrightarrow> (\<And>e w. E e w \<Longrightarrow> E' e w) \<Longrightarrow> runs P' m Q' E'"
  by (fastforce simp: runs_def split: prod.splits sum.splits)

lemma runs_pre: "runs P m Q E \<Longrightarrow> (\<And>w. P' w \<Longrightarrow> P w) \<Longrightarrow> runs P' m Q E"
  by (rule runs_weaken)

lemma runs_bind: "runs P m R E \<Longrightarrow> (\<And>x. runs (R x) (f x) Q E) \<Longrightarrow> runs P (bindA m f) Q E"
  by (fastforce simp: runs_def bindA_def split: prod.splits sum.splits)

lemma runs_ret: "runs (Q x) (retA x) Q E"
  by (simp add: runs_def act_simps)

lemma runs_fail: "runs (E e) (failA e) Q E"
  by (simp add: runs_def act_simps)

lemma runs_lift: "runs (\<lambda>w. case r of Inr x \<Rightarrow> Q x w | Inl e \<Rightarrow> E e w) (liftA r) Q E"
  by (simp add: runs_def act_simps)

lemma runs_read: "runs (\<lambda>w. Q (f (w_db w)) w) (readA f) Q E"
  by (simp add: runs_def act_simps)

lemma runs_commit: "runs (\<lambda>w. Q () (w\<lparr>w_db := f (w_db w)\<rparr>)) (commitA f) Q E"
  by (simp add: runs_def act_simps)

lemma runs_now: "runs (\<lambda>w. Q (o_now out (w_calls w)) w) (nowA out) Q E"
  by (simp add: runs_def act_simps)

lemma runs_token: "runs (\<lambda>w. Q (o_token out (w_calls w)) w) (tokenA out) Q E"
  by (simp add: runs_def act_simps)

lemma runs_ask:
  "runs (\<lambda>w. case answer (w_calls w) c of
       Inr x \<Rightarrow> Q x (w\<lparr>w_calls := w_calls w @ [c]\<rparr>)
     | Inl m \<Rightarrow> E (ExternalErr m) (w\<lparr>w_calls := w_calls w @ [c]\<rparr>)) (askA answer c) Q E"
  by (simp add: runs_def askA_def split: sum.splits)

lemma runs_if: "(b \<Longrightarrow> runs P m Q E) \<Longrightarrow> (\<not> b \<Longrightarrow> runs P' k Q E) \<Longrightarrow> runs (\<lambda>w. if b then P w else P' w) (if b then m else k) Q E"
  by simp

lemma runs_catch: "runs P m Q R \<Longrightarrow> (\<And>e. runs (R e) (h e) Q E) \<Longrightarrow> runs P (catchA m h) Q E"
  by (fastforce simp: runs_def catchA_def split: prod.splits sum.splits)

lemma runs_each: "(\<And>x. x \<in> set xs \<Longrightarrow> runs I (f x) (\<lambda>_. I) E) \<Longrightarrow> runs I (eachA f xs) (\<lambda>_. I) E"
proof (induction xs)
  case Nil
  then show ?case by (simp add: runs_def act_simps)
next
  case (Cons x xs)
  then have "runs I (f x) (\<lambda>_. I) E" "runs I (eachA f xs) (\<lambda>_. I) E" by simp_all
  then show ?case by (auto intro: runs_bind)
qed

section \<open>Computations that leave the database alone\<close>

definition keeps_db :: "'a act \<Rightarrow> bool" where
  "keeps_db m \<longleftrightarrow> (\<forall>w. w_db (snd (m w)) = w_db w)"

lemma keeps_dbD: "keeps_db m \<Longrightarrow> m w = (r, w') \<Longrightarrow> w_db w' = w_db w"
  unfolding keeps_db_def by (metis snd_conv)

lemma keeps_db_pure [simp]:
  "keeps_db (retA x)" "keeps_db (failA e)" "keeps_db (liftA r)" "keeps_db (readA f)" "keeps_db (nowA out)"
  "keeps_db (tokenA out)" "keeps_db (askA answer c)" "keeps_db (runA out argv doc)"
  by (simp_all add: keeps_db_def act_simps askA_def runA_def split: sum.split)

lemma keeps_db_bind: "keeps_db m \<Longrightarrow> (\<And>x. keeps_db (f x)) \<Longrightarrow> keeps_db (bindA m f)"
  by (simp add: keeps_db_def bindA_def split: prod.split sum.split) (metis snd_conv)

lemma keeps_db_if: "keeps_db m \<Longrightarrow> keeps_db k \<Longrightarrow> keeps_db (if b then m else k)"
  by simp

lemma keeps_db_when: "keeps_db m \<Longrightarrow> keeps_db (whenA b m)"
  by (simp add: whenA_def)

lemma keeps_db_catch: "keeps_db m \<Longrightarrow> (\<And>e. keeps_db (h e)) \<Longrightarrow> keeps_db (catchA m h)"
  by (simp add: keeps_db_def catchA_def split: prod.split sum.split) (metis snd_conv)

lemma keeps_db_each: "(\<And>x. keeps_db (f x)) \<Longrightarrow> keeps_db (eachA f xs)"
  by (induction xs) (simp_all add: keeps_db_bind)

lemma keeps_db_run_command [simp]: "keeps_db (run_command out argv doc msg)"
  unfolding run_command_def by (intro keeps_db_bind keeps_db_if) simp_all

lemma keeps_db_run_or_missing [simp]: "keeps_db (run_or_missing out argv msg missing)"
  unfolding run_or_missing_def by (intro keeps_db_bind keeps_db_if) simp_all

lemmas keeps_db_rules = keeps_db_bind keeps_db_if keeps_db_when keeps_db_catch keeps_db_each

text \<open>An invariant that a computation keeps, whether or not it raises.\<close>

definition stable :: "(world \<Rightarrow> bool) \<Rightarrow> 'a act \<Rightarrow> bool" where
  "stable I m \<longleftrightarrow> (\<forall>w. I w \<longrightarrow> I (snd (m w)))"

lemma stableD: "stable I m \<Longrightarrow> I w \<Longrightarrow> m w = (r, w') \<Longrightarrow> I w'"
  unfolding stable_def by (metis snd_conv)

lemma stable_pure [simp]:
  "stable I (retA x)" "stable I (failA e)" "stable I (liftA r)" "stable I (readA f)" "stable I (nowA out)" "stable I (tokenA out)"
  by (simp_all add: stable_def act_simps)

lemma stable_commit: "(\<And>w. I w \<Longrightarrow> I (w\<lparr>w_db := f (w_db w)\<rparr>)) \<Longrightarrow> stable I (commitA f)"
  by (simp add: stable_def act_simps)

lemma stable_bind: "stable I m \<Longrightarrow> (\<And>x. stable I (f x)) \<Longrightarrow> stable I (bindA m f)"
  by (simp add: stable_def bindA_def split: prod.split sum.split) (metis snd_conv)

lemma stable_if: "(b \<Longrightarrow> stable I m) \<Longrightarrow> (\<not> b \<Longrightarrow> stable I k) \<Longrightarrow> stable I (if b then m else k)"
  by simp

lemma stable_when: "stable I m \<Longrightarrow> stable I (whenA b m)"
  by (simp add: whenA_def)

lemma stable_catch: "stable I m \<Longrightarrow> (\<And>e. stable I (h e)) \<Longrightarrow> stable I (catchA m h)"
  by (simp add: stable_def catchA_def split: prod.split sum.split) (metis snd_conv)

lemma stable_each: "(\<And>x. stable I (f x)) \<Longrightarrow> stable I (eachA f xs)"
  by (induction xs) (simp_all add: stable_bind)

lemma stable_calls:
  assumes m: "issues P m" "keeps_db m" and step: "\<And>c w. P c \<Longrightarrow> I w \<Longrightarrow> I (w\<lparr>w_calls := w_calls w @ [c]\<rparr>)"
  shows "stable I m"
  unfolding stable_def
proof (intro allI impI)
  fix w assume I: "I w"
  obtain cs where cs: "w_calls (snd (m w)) = w_calls w @ cs" "\<forall>c \<in> set cs. P c"
    using m(1) by (auto simp: issues_def)
  have "I (w\<lparr>w_calls := w_calls w @ cs\<rparr>)" using cs(2)
  proof (induction cs rule: rev_induct)
    case Nil
    with I show ?case by simp
  next
    case (snoc c cs)
    then have "I (w\<lparr>w_calls := w_calls w @ cs\<rparr>)" "P c" by auto
    from step[OF this(2,1)] show ?case by simp
  qed
  moreover have "snd (m w) = w\<lparr>w_calls := w_calls w @ cs\<rparr>"
    using cs(1) m(2) by (simp add: keeps_db_def world.equality)
  ultimately show "I (snd (m w))" by simp
qed

lemmas stable_rules = stable_bind stable_if stable_when stable_catch stable_each

lemma runs_stable: "stable I m \<Longrightarrow> runs I m (\<lambda>_. I) (\<lambda>_. I)"
  by (auto simp: stable_def runs_def split: prod.split sum.split)

lemma stable_runs: "runs I m (\<lambda>_. I) (\<lambda>_. I) \<Longrightarrow> stable I m"
  unfolding stable_def
proof (intro allI impI)
  fix w assume "runs I m (\<lambda>_. I) (\<lambda>_. I)" "I w"
  then show "I (snd (m w))" by (cases "m w"; cases "fst (m w)") (auto simp: runs_def)
qed

lemma runs_result:
  "stable I m \<Longrightarrow> (\<And>w x w'. m w = (Inr x, w') \<Longrightarrow> R x) \<Longrightarrow> runs I m (\<lambda>x w. I w \<and> R x) (\<lambda>_. I)"
  by (auto simp: stable_def runs_def split: prod.split sum.split)

section \<open>Calls that a finished computation has made\<close>

text \<open>\<open>c\<close> was issued, and the command exited with 0.\<close>

definition succeeded :: "outside \<Rightarrow> call list \<Rightarrow> call list \<Rightarrow> call \<Rightarrow> bool" where
  "succeeded out base cs c \<longleftrightarrow> (\<exists>pre post. cs = pre @ c # post \<and> cp_code (o_run out (base @ pre) c) = 0)"

definition makes :: "outside \<Rightarrow> call \<Rightarrow> 'a act \<Rightarrow> bool" where
  "makes out c m \<longleftrightarrow> (\<forall>w x w'. m w = (Inr x, w') \<longrightarrow> (\<exists>cs. w_calls w' = w_calls w @ cs \<and> succeeded out (w_calls w) cs c))"

abbreviation grows :: "'a act \<Rightarrow> bool" where
  "grows m \<equiv> issues (\<lambda>_. True) m"

lemma growsE:
  assumes "issues P m" "m w = (r, w')"
  obtains cs where "w_calls w' = w_calls w @ cs" "\<forall>c \<in> set cs. P c"
  using assms unfolding issues_def by (metis snd_conv)

lemma issues_grows: "issues P m \<Longrightarrow> grows m"
  by (rule issues_mono) auto

lemma succeeded_in: "succeeded out base cs c \<Longrightarrow> c \<in> set cs"
  by (auto simp: succeeded_def)

lemma succeeded_append: "succeeded out base cs c \<Longrightarrow> succeeded out base (cs @ ds) c"
  by (force simp: succeeded_def)

lemma succeeded_prepend: "succeeded out (base @ bs) cs c \<Longrightarrow> succeeded out base (bs @ cs) c"
  unfolding succeeded_def by (metis append.assoc)

lemma makes_first:
  assumes m: "makes out c m" and f: "\<And>x. grows (f x)"
  shows "makes out c (bindA m f)"
  unfolding makes_def
proof (intro allI impI)
  fix w y w' assume "bindA m f w = (Inr y, w')"
  then obtain x w1 where b: "m w = (Inr x, w1)" "f x w1 = (Inr y, w')" by (rule bindA_E)
  obtain cs where cs: "w_calls w1 = w_calls w @ cs" "succeeded out (w_calls w) cs c"
    using m b(1) unfolding makes_def by blast
  from f b(2) obtain ds where "w_calls w' = w_calls w1 @ ds" by (rule growsE)
  with cs have "w_calls w' = w_calls w @ (cs @ ds)" by simp
  with succeeded_append[OF cs(2)] show "\<exists>cs. w_calls w' = w_calls w @ cs \<and> succeeded out (w_calls w) cs c" by blast
qed

lemma makes_later:
  assumes m: "grows m" and f: "\<And>x. makes out c (f x)"
  shows "makes out c (bindA m f)"
  unfolding makes_def
proof (intro allI impI)
  fix w y w' assume "bindA m f w = (Inr y, w')"
  then obtain x w1 where b: "m w = (Inr x, w1)" "f x w1 = (Inr y, w')" by (rule bindA_E)
  from m b(1) obtain bs where bs: "w_calls w1 = w_calls w @ bs" by (rule growsE)
  obtain cs where cs: "w_calls w' = w_calls w1 @ cs" "succeeded out (w_calls w1) cs c"
    using f b(2) unfolding makes_def by blast
  from bs cs have "w_calls w' = w_calls w @ (bs @ cs)" "succeeded out (w_calls w) (bs @ cs) c"
    using succeeded_prepend by auto
  then show "\<exists>cs. w_calls w' = w_calls w @ cs \<and> succeeded out (w_calls w) cs c" by blast
qed

lemma makes_run_command: "makes out (Command argv doc) (run_command out argv doc msg)"
  unfolding makes_def run_command_def
proof (intro allI impI)
  fix w x w' assume "bindA (runA out argv doc) (\<lambda>r. if cp_code r \<noteq> 0 then failA (command_error msg argv r) else retA r) w = (Inr x, w')"
  then have "w_calls w' = w_calls w @ [Command argv doc]" "cp_code (o_run out (w_calls w) (Command argv doc)) = 0"
    by (auto simp: bindA_def runA_def act_simps split: if_splits)
  then show "\<exists>cs. w_calls w' = w_calls w @ cs \<and> succeeded out (w_calls w) cs (Command argv doc)"
    by (intro exI[of _ "[Command argv doc]"]) (simp add: succeeded_def Cons_eq_append_conv)
qed

lemma makes_each: "x \<in> set xs \<Longrightarrow> makes out c (f x) \<Longrightarrow> (\<And>y. grows (f y)) \<Longrightarrow> makes out c (eachA f xs)"
proof (induction xs)
  case (Cons y ys)
  show ?case
  proof (cases "x = y")
    case True
    with Cons show ?thesis by (auto intro: makes_first issues_each)
  next
    case False
    with Cons show ?thesis by (auto intro: makes_later)
  qed
qed simp

lemma makes_if: "\<not> b \<Longrightarrow> makes out c k \<Longrightarrow> makes out c (if b then m else k)"
  by simp

lemma stable_keeps: "keeps_db m \<Longrightarrow> stable (\<lambda>w. P (w_db w)) m"
  by (simp add: stable_def keeps_db_def)

text \<open>A property of every result.\<close>

definition yields :: "('a \<Rightarrow> bool) \<Rightarrow> 'a act \<Rightarrow> bool" where
  "yields R m \<longleftrightarrow> (\<forall>w x w'. m w = (Inr x, w') \<longrightarrow> R x)"

lemma yieldsD: "yields R m \<Longrightarrow> m w = (Inr x, w') \<Longrightarrow> R x"
  unfolding yields_def by blast

lemma yields_bind: "(\<And>x. yields R (f x)) \<Longrightarrow> yields R (bindA m f)"
  unfolding yields_def by (auto simp: bindA_Inr_iff)

lemma yields_pure [simp]: "yields R (retA x) \<longleftrightarrow> R x" "yields R (failA e)"
  by (simp_all add: yields_def act_simps)

lemma yields_if: "(b \<Longrightarrow> yields R m) \<Longrightarrow> (\<not> b \<Longrightarrow> yields R k) \<Longrightarrow> yields R (if b then m else k)"
  by simp

end
