(* ===== verification/NetworkPolicy.thy ===== *)
theory NetworkPolicy
  imports Hostnames TemplateValues
begin

text \<open>
  The isolation of a tenant namespace, \<^verbatim>\<open>api/app/network_policy.py\<close>: its labels and the documents of
  its NetworkPolicies.
\<close>

section \<open>Labels\<close>

definition tenant_namespace_labels :: "(string \<times> string) list" where
  "tenant_namespace_labels =
     [(''caelus.dev/tenant'', ''true''), (''pod-security.kubernetes.io/enforce'', ''baseline''),
      (''pod-security.kubernetes.io/enforce-version'', ''latest'')]"

definition label_char :: "char \<Rightarrow> bool" where
  "label_char c \<longleftrightarrow> is_lower c \<or> is_dec c \<or> c \<in> {CHR ''.'', CHR ''_'', CHR ''-''}"

definition label_trim :: "char \<Rightarrow> bool" where
  "label_trim c \<longleftrightarrow> c \<in> {CHR ''-'', CHR ''_'', CHR ''.''}"

definition label_value :: "string option \<Rightarrow> string option" where
  "label_value raw =
     (case raw of None \<Rightarrow> None
      | Some s \<Rightarrow>
          (let v = strip label_trim (take 63 (map (\<lambda>c. if label_char c then c else CHR ''-'') (lower (strip is_space s))))
           in if v = [] then None else Some v))"

definition add_label :: "string \<times> string option \<Rightarrow> (string \<times> string) list \<Rightarrow> (string \<times> string) list" where
  "add_label kv labels = (case label_value (snd kv) of None \<Rightarrow> labels | Some v \<Rightarrow> AList.update (fst kv) v labels)"

definition deployment_namespace_labels ::
  "string option \<Rightarrow> nat option \<Rightarrow> string option \<Rightarrow> string option \<Rightarrow> (string \<times> string) list"
where
  "deployment_namespace_labels dep_id owner product environment =
     fold add_label
       [(''caelus.dev/deployment-id'', dep_id), (''caelus.dev/owner-id'', map_option nat_str owner),
        (''caelus.dev/product'', product), (''caelus.dev/environment'', environment)]
       tenant_namespace_labels"

text \<open>\<^verbatim>\<open>namespace_labels\<close> of the deployment service: the product's slug, or its name.\<close>

definition namespace_labels :: "settings \<Rightarrow> db \<Rightarrow> deployment \<Rightarrow> (string \<times> string) list" where
  "namespace_labels st s d =
     (let template = (case get_template s (d_desired_template d) of Some t \<Rightarrow> Some t | None \<Rightarrow> via (get_template s) (d_applied_template d));
          product = Option.bind template (\<lambda>t. get_product s (t_product t));
          label = (case product of None \<Rightarrow> None
                   | Some p \<Rightarrow> (case p_slug p of Some (c # cs) \<Rightarrow> Some (c # cs) | _ \<Rightarrow> Some (p_name p)))
      in deployment_namespace_labels (Some (uuid_str (d_id d))) (Some (d_user d)) label (Some (st_environment st)))"

section \<open>Policies\<close>

abbreviation jmap :: "(string \<times> string) list \<Rightarrow> json" where
  "jmap kvs \<equiv> JObj (map (\<lambda>kv. (fst kv, JStr (snd kv))) kvs)"

definition port_of :: "nat \<Rightarrow> string \<Rightarrow> json" where
  "port_of port protocol = JObj [(''port'', JInt (int port)), (''protocol'', JStr protocol)]"

definition pods_in :: "string \<Rightarrow> string \<Rightarrow> string \<Rightarrow> json" where
  "pods_in namespace key label =
     JObj [(''namespaceSelector'', JObj [(''matchLabels'', jmap [(''kubernetes.io/metadata.name'', namespace)])]),
           (''podSelector'', JObj [(''matchLabels'', jmap [(key, label)])])]"

definition own_pods :: json where
  "own_pods = JObj [(''podSelector'', JObj [])]"

definition dns_ports :: json where
  "dns_ports = JList [port_of 53 ''UDP'', port_of 53 ''TCP'']"

definition policy_doc :: "string \<Rightarrow> string \<Rightarrow> pydict \<Rightarrow> json" where
  "policy_doc name namespace spec =
     JObj [(''apiVersion'', JStr ''networking.k8s.io/v1''), (''kind'', JStr ''NetworkPolicy''),
       (''metadata'', JObj [(''name'', JStr name), (''namespace'', JStr namespace),
          (''labels'', jmap [(''app.kubernetes.io/managed-by'', ''caelus'')])]),
       (''spec'', JObj spec)]"

definition build_tenant_baseline_policy :: "settings \<Rightarrow> string \<Rightarrow> json" where
  "build_tenant_baseline_policy st namespace =
     policy_doc (st_netpol_name st) namespace
       [(''podSelector'', JObj []), (''policyTypes'', JList [JStr ''Ingress'', JStr ''Egress'']),
        (''ingress'', JList
           [JObj [(''from'', JList [pods_in (st_ingress_namespace st) ''app.kubernetes.io/name'' (st_ingress_pod_label st)])],
            JObj [(''from'', JList [pods_in (st_sshpiper_namespace st) ''app'' (st_sshpiper_pod_label st)]),
                  (''ports'', JList [port_of (st_sidecar_port st) ''TCP''])],
            JObj [(''from'', JList [own_pods])]]),
        (''egress'', JList
           [JObj [(''to'', JList [own_pods])],
            JObj [(''to'', JList [pods_in ''kube-system'' ''k8s-app'' ''kube-dns'']), (''ports'', dns_ports)],
            JObj [(''to'', JList [JObj [(''ipBlock'', JObj [(''cidr'', JStr (st_dns_ip st @ ''/32''))])]]), (''ports'', dns_ports)],
            JObj [(''to'', JList [pods_in (st_pooler_namespace st) ''app'' (st_pooler_pod_label st)]),
                  (''ports'', JList [port_of (st_pooler_port st) ''TCP''])],
            JObj [(''to'', JList [JObj [(''ipBlock'', JObj [(''cidr'', JStr ''0.0.0.0/0''),
                  (''except'', JList (map JStr (st_egress_except st)))])]])]])]"

definition mailer_egress_policy :: "settings \<Rightarrow> string \<Rightarrow> json" where
  "mailer_egress_policy st namespace =
     policy_doc (st_mailer_netpol_name st) namespace
       [(''podSelector'', JObj []), (''policyTypes'', JList [JStr ''Egress'']),
        (''egress'', JList
           [JObj [(''to'', JList [pods_in (st_mailer_namespace st) ''app'' (st_mailer_pod_label st)]),
                  (''ports'', JList [port_of (st_mailer_port st) ''TCP''])]])]"

definition uses_in_cluster_mailer :: "pydict option \<Rightarrow> settings \<Rightarrow> bool" where
  "uses_in_cluster_mailer system st =
     (case map_of (dict_or_empty system) ''smtp'' of
        Some (JObj smtp) \<Rightarrow>
          (case map_of smtp ''host'' of
             Some (JStr h) \<Rightarrow> starts_with h (''smtp.'' @ st_mailer_namespace st @ ''.svc'')
           | _ \<Rightarrow> False)
      | _ \<Rightarrow> False)"

definition tenant_network_policies :: "settings \<Rightarrow> string \<Rightarrow> pydict option \<Rightarrow> json list" where
  "tenant_network_policies st namespace system =
     build_tenant_baseline_policy st namespace #
     (if uses_in_cluster_mailer system st then [mailer_egress_policy st namespace] else [])"

section \<open>Lemmas\<close>

text \<open>What Kubernetes accepts as a label value: at most 63 characters, alphanumeric at both ends.\<close>

definition valid_label_value :: "string \<Rightarrow> bool" where
  "valid_label_value v \<longleftrightarrow> v \<noteq> [] \<and> length v \<le> 63 \<and> list_all label_char v \<and>
     (is_lower (hd v) \<or> is_dec (hd v)) \<and> (is_lower (last v) \<or> is_dec (last v))"

lemma label_value_valid:
  assumes "label_value raw = Some v"
  shows "valid_label_value v"
proof -
  obtain s where "raw = Some s" using assms by (auto simp: label_value_def split: option.splits)
  moreover define u where "u = take 63 (map (\<lambda>c. if label_char c then c else CHR ''-'') (lower (strip is_space s)))"
  ultimately have v: "v = strip label_trim u" "v \<noteq> []"
    using assms by (auto simp: label_value_def Let_def split: if_splits)
  have "\<forall>c \<in> set u. label_char c"
    unfolding u_def by (auto dest!: in_set_takeD simp: label_char_def)
  then have c: "\<forall>c \<in> set v. label_char c" unfolding v(1) using strip_subset by blast
  have "length v \<le> 63" unfolding v(1) using length_strip[of label_trim u] by (simp add: u_def)
  moreover have "\<not> label_trim (hd v)" "\<not> label_trim (last v)"
    using strip_ends[of label_trim u] v by auto
  moreover have "label_char (hd v)" "label_char (last v)" using c v(2) by auto
  ultimately show ?thesis
    using c v(2) by (auto simp: valid_label_value_def label_char_def label_trim_def list_all_iff)
qed

lemma add_label_entry: "map_of (add_label kv labels) k = (if k = fst kv \<and> label_value (snd kv) \<noteq> None then label_value (snd kv) else map_of labels k)"
  by (auto simp: add_label_def update_conv' split: option.splits)

text \<open>
  Every label put on a tenant namespace has a value Kubernetes accepts, whatever the product is
  called, and no identity label can displace the ones that enforce the jail.
\<close>

theorem namespace_labels_jail:
  "map_of (namespace_labels st s d) ''pod-security.kubernetes.io/enforce'' = Some ''baseline'' \<and>
   map_of (namespace_labels st s d) ''caelus.dev/tenant'' = Some ''true'' \<and>
   (\<forall>k v. map_of (namespace_labels st s d) k = Some v \<longrightarrow> valid_label_value v)"
proof -
  obtain a b c e where n: "namespace_labels st s d = deployment_namespace_labels a b c e"
    by (simp add: namespace_labels_def Let_def)
  have valid: "valid_label_value ''true''" "valid_label_value ''baseline''" "valid_label_value ''latest''"
    by (simp_all add: valid_label_value_def label_char_def is_lower_def is_dec_def in_range_def cp_def)
  have "valid_label_value v" if "map_of (namespace_labels st s d) k = Some v" for k v
    using that valid unfolding n deployment_namespace_labels_def
    by (auto simp: add_label_entry tenant_namespace_labels_def label_value_valid split: if_splits)
  then show ?thesis
    unfolding n by (auto simp: deployment_namespace_labels_def add_label_entry tenant_namespace_labels_def)
qed


theorem namespace_labels_jail_witness:
  "map_of (namespace_labels demo_settings (empty_db\<lparr>db_templates := [\<lparr>t_id = 1, t_product = 1, t_chart_ref = [], t_chart_version = [],
       t_chart_digest = None, t_system_values = None, t_schema = None, t_deleted_at = None\<rparr>],
       db_products := [\<lparr>p_id = 1, p_name = ''-- My Wiki! --'', p_slug = None, p_template_id = None\<rparr>]\<rparr>)
     \<lparr>d_id = 7, d_user = 1, d_desired_template = 1, d_applied_template = None, d_desired_release = 1, d_applied_release = None,
      d_desired_power = None, d_applied_power = None, d_hostname = None, d_name = [], d_namespace = [], d_values = None,
      d_status = DReady, d_generation = 1, d_last_error = None, d_last_reconcile_at = None, d_created_at = 0,
      d_deleted_at = None, d_subscription = 1\<rparr>) ''caelus.dev/product'' = Some ''my-wiki'' \<and>
   valid_label_value ''my-wiki''"
  (is "?m = _ \<and> _")
proof -
  have l: "label_value (Some ''-- My Wiki! --'') = Some ''my-wiki''" by code_simp
  have "label_value (Some ''dev'') = Some ''dev''" by code_simp
  with l have m: "?m = Some ''my-wiki''"
    by (simp add: namespace_labels_def empty_db_def row_get_def deployment_namespace_labels_def add_label_entry
        tenant_namespace_labels_def demo_settings_def)
  with namespace_labels_jail show ?thesis by blast
qed

end
