(* ===== verification/PostRender.thy ===== *)
theory PostRender
  imports TemplateValues
begin

text \<open>
  Helm's post-renderer, \<^verbatim>\<open>api/app/post_render.py\<close>, and the container it injects,
  \<^verbatim>\<open>api/app/egress_gate.py\<close>. A manifest is a JSON document; parsing and printing YAML are
  parameters. Python changes the documents in place; here each step returns the changed one.
  Indexing or calling a method on a value of the wrong type raises, as an error value.
\<close>

section \<open>The egress gate\<close>

definition gate_name :: string where "gate_name = ''caelus-egress-gate''"

text \<open>The script it runs is an argument: a shell program the model does not interpret.\<close>

definition gate_container :: "string \<Rightarrow> string \<Rightarrow> nat \<Rightarrow> pydict" where
  "gate_container script img deadline =
     [(''name'', JStr gate_name), (''image'', JStr img), (''imagePullPolicy'', JStr ''IfNotPresent''),
      (''command'', JList [JStr ''bash'', JStr ''-c'', JStr script]),
      (''terminationMessagePolicy'', JStr ''FallbackToLogsOnError''),
      (''env'', JList [JObj [(''name'', JStr ''GATE_DEADLINE_SECONDS''), (''value'', JStr (nat_str deadline))]]),
      (''resources'', JObj [(''requests'', JObj [(''cpu'', JStr ''10m''), (''memory'', JStr ''8Mi'')]),
                            (''limits'', JObj [(''memory'', JStr ''32Mi'')])]),
      (''securityContext'', JObj
         [(''runAsNonRoot'', JBool True), (''runAsUser'', JInt 65534), (''runAsGroup'', JInt 65534),
          (''allowPrivilegeEscalation'', JBool False), (''readOnlyRootFilesystem'', JBool True),
          (''capabilities'', JObj [(''drop'', JList [JStr ''ALL''])]),
          (''seccompProfile'', JObj [(''type'', JStr ''RuntimeDefault'')])])]"

definition attribute_error :: error where "attribute_error = PyValueError ''AttributeError''"
definition type_error :: error where "type_error = PyValueError ''TypeError''"

text \<open>\<^verbatim>\<open>v or {}\<close> and \<^verbatim>\<open>v or []\<close> where the result must then be a dict, or a list.\<close>

definition dict_or :: "json option \<Rightarrow> pydict result" where
  "dict_or v = (case v of None \<Rightarrow> Inr [] | Some (JObj d) \<Rightarrow> Inr d | Some x \<Rightarrow> if truthy x then Inl attribute_error else Inr [])"

definition list_or :: "json option \<Rightarrow> json list result" where
  "list_or v = (case v of None \<Rightarrow> Inr [] | Some (JList xs) \<Rightarrow> Inr xs | Some x \<Rightarrow> if truthy x then Inl type_error else Inr [])"

definition is_gate :: "json \<Rightarrow> bool result" where
  "is_gate c = (case c of JObj d \<Rightarrow> Inr (map_of d ''name'' = Some (JStr gate_name)) | _ \<Rightarrow> Inl attribute_error)"

fun other_containers :: "json list \<Rightarrow> json list result" where
  "other_containers [] = Inr []"
| "other_containers (c # cs) =
     bindR (is_gate c) (\<lambda>g. bindR (other_containers cs) (\<lambda>rest. Inr (if g then rest else c # rest)))"

definition inject :: "pydict \<Rightarrow> pydict \<Rightarrow> pydict result" where
  "inject pod gate =
     bindR (list_or (map_of pod ''initContainers'')) (\<lambda>cs.
     bindR (other_containers cs) (\<lambda>others.
       Inr (dset ''initContainers'' (JList (JObj gate # others)) pod)))"

section \<open>The pod template of a document\<close>

text \<open>
  Where the pod's \<^verbatim>\<open>metadata\<close> and \<^verbatim>\<open>spec\<close> live: the document itself for a Pod, else the template of its
  spec, or of its job template's.
\<close>

definition pod_place :: "pydict \<Rightarrow> string list result" where
  "pod_place doc =
     (if map_of doc ''kind'' = Some (JStr ''Pod'') then Inr []
      else bindR (dict_or (map_of doc ''spec'')) (\<lambda>spec.
        (case map_of spec ''jobTemplate'' of
           None \<Rightarrow> Inr [''spec'', ''template'']
         | Some jt \<Rightarrow>
             bindR (dict_or (Some jt)) (\<lambda>j.
             bindR (dict_or (map_of j ''spec'')) (\<lambda>_. Inr [''spec'', ''jobTemplate'', ''spec'', ''template''])))))"

definition runs_pod :: "json option \<Rightarrow> pydict option" where
  "runs_pod template =
     (case template of
        Some (JObj t) \<Rightarrow>
          (case map_of t ''spec'' of
             Some (JObj spec) \<Rightarrow> if ''containers'' \<in> fst ` set spec then Some t else None
           | _ \<Rightarrow> None)
      | _ \<Rightarrow> None)"

definition pod_template :: "json \<Rightarrow> (string list \<times> pydict) option result" where
  "pod_template doc =
     (case doc of
        JObj d \<Rightarrow> bindR (pod_place d) (\<lambda>p. Inr (map_option (\<lambda>t. (p, t)) (runs_pod (jpath p doc))))
      | _ \<Rightarrow> Inr None)"

text \<open>\<^verbatim>\<open>{**a, **b}\<close>, and the value at a path of existing keys replaced.\<close>

definition dict_union :: "pydict \<Rightarrow> pydict \<Rightarrow> pydict" where
  "dict_union a b = fold (\<lambda>(k, v). dset k v) b a"

definition annotate :: "pydict \<Rightarrow> pydict \<Rightarrow> pydict result" where
  "annotate template annotations =
     bindR (dict_or (map_of template ''metadata'')) (\<lambda>metadata.
     bindR (dict_or (map_of metadata ''annotations'')) (\<lambda>old.
       Inr (dset ''metadata'' (JObj (dset ''annotations'' (JObj (dict_union old annotations)) metadata)) template)))"

fun jput :: "string list \<Rightarrow> json \<Rightarrow> json \<Rightarrow> json" where
  "jput [] v _ = v"
| "jput (k # ks) v (JObj d) = (case map_of d k of None \<Rightarrow> JObj d | Some x \<Rightarrow> JObj (dset k (jput ks v x) d))"
| "jput (k # ks) v x = x"

definition gated :: "pydict \<Rightarrow> pydict option \<Rightarrow> pydict \<Rightarrow> pydict result" where
  "gated gate annotations t =
     bindR (inject (obj_or_empty (map_of t ''spec'')) gate) (\<lambda>spec.
       (let t' = dset ''spec'' (JObj spec) t
        in case annotations of Some (kv # as) \<Rightarrow> annotate t' (kv # as) | _ \<Rightarrow> Inr t'))"

text \<open>The document with its pod template rewritten, and whether it has one.\<close>

definition rewrite :: "pydict \<Rightarrow> pydict option \<Rightarrow> json \<Rightarrow> (json \<times> bool) result" where
  "rewrite gate annotations doc =
     bindR (pod_template doc) (\<lambda>p.
       (case p of
          None \<Rightarrow> Inr (doc, False)
        | Some (path, t) \<Rightarrow> bindR (gated gate annotations t) (\<lambda>t'. Inr (jput path (JObj t') doc, True))))"

section \<open>The stopped render\<close>

record stopped =
  sp_release :: string
  sp_hostname :: "string option"
  sp_parking_host :: string
  sp_parking_port :: nat

definition parking_name :: "stopped \<Rightarrow> string" where
  "parking_name sp = sp_release sp @ ''-caelus-parking''"

definition parking_service :: "stopped \<Rightarrow> json" where
  "parking_service sp =
     JObj [(''apiVersion'', JStr ''v1''), (''kind'', JStr ''Service''),
       (''metadata'', JObj [(''name'', JStr (parking_name sp))]),
       (''spec'', JObj [(''type'', JStr ''ExternalName''), (''externalName'', JStr (sp_parking_host sp)),
          (''ports'', JList [JObj [(''name'', JStr ''http''), (''port'', JInt (int (sp_parking_port sp))), (''protocol'', JStr ''TCP'')]])])]"

definition parking_backend :: "stopped \<Rightarrow> json" where
  "parking_backend sp =
     JObj [(''service'', JObj [(''name'', JStr (parking_name sp)), (''port'', JObj [(''number'', JInt (int (sp_parking_port sp)))])])]"

text \<open>
  \<^verbatim>\<open>str(host or "")\<close>; a list or a dict prints with brackets and is no hostname, a float as the literal
  it was read from.
\<close>

definition host_text :: "json option \<Rightarrow> string option" where
  "host_text v =
     (case v of None \<Rightarrow> Some []
      | Some x \<Rightarrow> if \<not> truthy x then Some []
          else (case x of JStr s \<Rightarrow> Some s | JInt i \<Rightarrow> Some (int_str i) | JBool _ \<Rightarrow> Some ''True'' | JFloat s \<Rightarrow> Some s | _ \<Rightarrow> None))"

fun reroute_paths :: "json \<Rightarrow> json list \<Rightarrow> json list result" where
  "reroute_paths backend [] = Inr []"
| "reroute_paths backend (JObj p # ps) = bindR (reroute_paths backend ps) (\<lambda>qs. Inr (JObj (dset ''backend'' backend p) # qs))"
| "reroute_paths backend (p # ps) = Inl type_error"

definition reroute_rule :: "stopped \<Rightarrow> string \<Rightarrow> json \<Rightarrow> (json \<times> bool) result" where
  "reroute_rule sp host rule =
     (case rule of
        JObj r \<Rightarrow>
          if map_option lower (host_text (map_of r ''host'')) \<noteq> Some host then Inr (rule, False)
          else bindR (dict_or (map_of r ''http'')) (\<lambda>http.
               bindR (list_or (map_of http ''paths'')) (\<lambda>paths.
               bindR (reroute_paths (parking_backend sp) paths) (\<lambda>qs.
                 if paths = [] then Inr (rule, False)
                 else Inr (JObj (dset ''http'' (JObj (dset ''paths'' (JList qs) http)) r), True))))
      | _ \<Rightarrow> Inr (rule, False))"

fun reroute_rules :: "stopped \<Rightarrow> string \<Rightarrow> json list \<Rightarrow> (json list \<times> bool) result" where
  "reroute_rules sp host [] = Inr ([], False)"
| "reroute_rules sp host (r # rs) =
     bindR (reroute_rule sp host r) (\<lambda>(r', b).
     bindR (reroute_rules sp host rs) (\<lambda>(rs', b'). Inr (r' # rs', b \<or> b')))"

text \<open>Iterating over a dict or a string visits strings, which are not rules.\<close>

definition rule_list :: "json option \<Rightarrow> json list result" where
  "rule_list v =
     (case v of Some (JList xs) \<Rightarrow> Inr xs | Some (JObj _) \<Rightarrow> Inr [] | Some (JStr _) \<Rightarrow> Inr []
      | Some x \<Rightarrow> if truthy x then Inl type_error else Inr [] | None \<Rightarrow> Inr [])"

definition reroute_ingress :: "stopped \<Rightarrow> pydict \<Rightarrow> (json \<times> bool) result" where
  "reroute_ingress sp doc =
     (case sp_hostname sp of
        Some (c # cs) \<Rightarrow>
          bindR (dict_or (map_of doc ''spec'')) (\<lambda>spec.
          bindR (rule_list (map_of spec ''rules'')) (\<lambda>rules.
          bindR (reroute_rules sp (lower (c # cs)) rules) (\<lambda>(rules', changed).
            if changed then Inr (JObj (dset ''spec'' (JObj (dset ''rules'' (JList rules') spec)) doc), True)
            else Inr (JObj doc, False))))
      | _ \<Rightarrow> Inr (JObj doc, False))"

definition set_in_spec :: "string \<Rightarrow> json \<Rightarrow> pydict \<Rightarrow> json result" where
  "set_in_spec k v doc =
     (case map_of doc ''spec'' of
        None \<Rightarrow> Inr (JObj (dset ''spec'' (JObj [(k, v)]) doc))
      | Some (JObj spec) \<Rightarrow> Inr (JObj (dset ''spec'' (JObj (dset k v spec)) doc))
      | Some _ \<Rightarrow> Inl type_error)"

text \<open>\<open>None\<close> drops the document; the flag says whether it changed.\<close>

definition stop :: "stopped \<Rightarrow> json \<Rightarrow> (json \<times> bool) option result" where
  "stop sp doc =
     (case doc of
        JObj d \<Rightarrow>
          (let kind = map_of d ''kind'' in
           if kind \<in> {Some (JStr ''Deployment''), Some (JStr ''StatefulSet'')}
           then bindR (set_in_spec ''replicas'' (JInt 0) d) (\<lambda>x. Inr (Some (x, True)))
           else if kind \<in> {Some (JStr ''Job''), Some (JStr ''CronJob'')}
           then bindR (set_in_spec ''suspend'' (JBool True) d) (\<lambda>x. Inr (Some (x, True)))
           else if kind \<in> {Some (JStr ''HorizontalPodAutoscaler''), Some (JStr ''Pod'')} then Inr None
           else if kind = Some (JStr ''Ingress'') then bindR (reroute_ingress sp d) (\<lambda>x. Inr (Some x))
           else Inr (Some (doc, False)))
      | _ \<Rightarrow> Inr (Some (doc, False)))"

section \<open>Rendering\<close>

text \<open>One document: its gate, then its stop; \<open>None\<close> when the stopped render drops it.\<close>

definition render_doc :: "pydict \<Rightarrow> pydict option \<Rightarrow> stopped option \<Rightarrow> json \<Rightarrow> (json \<times> bool) option result" where
  "render_doc gate annotations sp doc =
     bindR (rewrite gate annotations doc) (\<lambda>(doc', changed).
       (case sp of
          None \<Rightarrow> Inr (Some (doc', changed))
        | Some s \<Rightarrow> bindR (stop s doc') (\<lambda>r. Inr (map_option (\<lambda>(d, b). (d, changed \<or> b)) r))))"

text \<open>\<^verbatim>\<open>^---[ \t]*$\<close> per line; what lies between two such lines, newlines included.\<close>

definition separator_line :: "string \<Rightarrow> bool" where
  "separator_line l \<longleftrightarrow> take 3 l = ''---'' \<and> (\<forall>c \<in> set (drop 3 l). c = CHR 0x20 \<or> c = CHR 0x09)"

fun line_groups :: "string list \<Rightarrow> string list list" where
  "line_groups [] = [[]]"
| "line_groups (l # ls) =
     (if separator_line l then [] # line_groups ls
      else (case line_groups ls of g # gs \<Rightarrow> (l # g) # gs | [] \<Rightarrow> [[l]]))"

definition chunk_text :: "bool \<Rightarrow> bool \<Rightarrow> string list \<Rightarrow> string" where
  "chunk_text first final ls =
     (if ls = [] then (if first \<or> final then [] else [newline])
      else (if first then [] else [newline]) @ join [newline] ls @ (if final then [] else [newline]))"

fun chunk_texts :: "bool \<Rightarrow> string list list \<Rightarrow> string list" where
  "chunk_texts first [] = []"
| "chunk_texts first [g] = [chunk_text first True g]"
| "chunk_texts first (g # gs) = chunk_text first False g # chunk_texts False gs"

definition chunks :: "string \<Rightarrow> string list" where
  "chunks s = chunk_texts True (line_groups (split_on newline s))"

definition is_break :: "char \<Rightarrow> bool" where
  "is_break c \<longleftrightarrow> (let n = cp c in n = 10 \<or> n = 11 \<or> n = 12 \<or> n = 13 \<or> n = 28 \<or> n = 29 \<or> n = 30 \<or> n = 133)"

text \<open>The leading lines of a text that start with \<^verbatim>\<open>#\<close>, under \<^verbatim>\<open>splitlines\<close>.\<close>

function head_lines :: "string \<Rightarrow> string list" where
  "head_lines s =
     (case s of
        c # cs \<Rightarrow>
          if c \<noteq> CHR ''#'' then []
          else (let l = takeWhile (\<lambda>x. \<not> is_break x) s;
                    rest = drop (length l) s
                in l # head_lines (case rest of r # n # t \<Rightarrow> if r = CHR 0x0D \<and> n = newline then t else n # t | _ \<Rightarrow> []))
      | [] \<Rightarrow> [])"
  by pat_completeness auto
termination
proof (relation "measure length", simp)
  fix s :: string and c cs l rest
  assume s: "s = c # cs" "\<not> c \<noteq> CHR ''#''" "l = takeWhile (\<lambda>x. \<not> is_break x) s" "rest = drop (length l) s"
  have "l \<noteq> []" using s by (simp add: is_break_def cp_def)
  then have "length rest < length s" using s by (cases l) auto
  then show "((case rest of r # n # t \<Rightarrow> if r = CHR 0x0D \<and> n = newline then t else n # t | _ \<Rightarrow> []), s) \<in> measure length"
    by (auto split: list.splits)
qed

declare head_lines.simps [simp del]

definition strip_newlines :: "string \<Rightarrow> string" where
  "strip_newlines s = strip (\<lambda>c. c = newline) s"

definition render_chunk ::
  "(string \<Rightarrow> json result) \<Rightarrow> (json \<Rightarrow> string) \<Rightarrow> pydict \<Rightarrow> pydict option \<Rightarrow> stopped option \<Rightarrow> string \<Rightarrow> string option result"
where
  "render_chunk load dump gate annotations sp chunk =
     (if strip is_space chunk = [] then Inr None
      else bindR (load chunk) (\<lambda>doc.
           bindR (render_doc gate annotations sp doc) (\<lambda>r.
             Inr (case r of
                    None \<Rightarrow> None
                  | Some (doc', changed) \<Rightarrow>
                      Some (strip_newlines
                        (if changed then join [newline] (head_lines (strip_newlines chunk) @ [dump doc']) else chunk) @
                        [newline])))))"

fun render_chunks ::
  "(string \<Rightarrow> json result) \<Rightarrow> (json \<Rightarrow> string) \<Rightarrow> pydict \<Rightarrow> pydict option \<Rightarrow> stopped option \<Rightarrow> string list \<Rightarrow> string list result"
where
  "render_chunks load dump gate annotations sp [] = Inr []"
| "render_chunks load dump gate annotations sp (c # cs) =
     bindR (render_chunk load dump gate annotations sp c) (\<lambda>r.
     bindR (render_chunks load dump gate annotations sp cs) (\<lambda>rs.
       Inr (case r of None \<Rightarrow> rs | Some x \<Rightarrow> x # rs)))"

definition parking_chunk :: "(json \<Rightarrow> string) \<Rightarrow> stopped option \<Rightarrow> string list" where
  "parking_chunk dump sp =
     (case sp of
        Some s \<Rightarrow> (case sp_hostname s of
                     Some (_ # _) \<Rightarrow> [''# Source: caelus post-render (stopped)'' @ [newline] @ dump (parking_service s)]
                   | _ \<Rightarrow> [])
      | None \<Rightarrow> [])"

definition render ::
  "(string \<Rightarrow> json result) \<Rightarrow> (json \<Rightarrow> string) \<Rightarrow> string \<Rightarrow> pydict \<Rightarrow> pydict option \<Rightarrow> stopped option \<Rightarrow> string result"
where
  "render load dump manifests gate annotations sp =
     bindR (render_chunks load dump gate annotations sp (chunks manifests)) (\<lambda>out.
       Inr (concat (map (\<lambda>c. ''---'' @ [newline] @ c) (out @ parking_chunk dump sp))))"

section \<open>Every pod is gated\<close>

lemma other_containers_no_gate: "other_containers cs = Inr others \<Longrightarrow> c \<in> set others \<Longrightarrow> is_gate c = Inr False"
  by (induction cs arbitrary: others) (auto simp: result_simps split: if_splits)

lemma inject_Inr:
  assumes "inject pod gate = Inr pod'"
  obtains others where "pod' = dset ''initContainers'' (JList (JObj gate # others)) pod"
    "\<forall>c \<in> set others. is_gate c = Inr False"
  using assms unfolding inject_def by (auto simp: result_simps dest: other_containers_no_gate)

lemma annotate_spec: "annotate t as = Inr t' \<Longrightarrow> map_of t' ''spec'' = map_of t ''spec'' \<and> map_of t' ''kind'' = map_of t ''kind''"
  by (auto simp: annotate_def result_simps)

lemma gated_Inr:
  assumes "gated gate annotations t = Inr t'"
  obtains others where "\<forall>c \<in> set others. is_gate c = Inr False" "map_of t' ''kind'' = map_of t ''kind''"
    "map_of t' ''spec'' = Some (JObj (dset ''initContainers'' (JList (JObj gate # others)) (obj_or_empty (map_of t ''spec''))))"
proof -
  from assms obtain spec where s: "inject (obj_or_empty (map_of t ''spec'')) gate = Inr spec"
      "(case annotations of Some (kv # as) \<Rightarrow> annotate (dset ''spec'' (JObj spec) t) (kv # as) | _ \<Rightarrow> Inr (dset ''spec'' (JObj spec) t)) = Inr t'"
    unfolding gated_def Let_def by (elim bindRE) blast
  from s(1) obtain others where o: "spec = dset ''initContainers'' (JList (JObj gate # others)) (obj_or_empty (map_of t ''spec''))"
      "\<forall>c \<in> set others. is_gate c = Inr False"
    by (rule inject_Inr)
  have "map_of t' ''spec'' = Some (JObj spec) \<and> map_of t' ''kind'' = map_of t ''kind''"
    using s(2) by (auto split: option.splits list.splits dest: annotate_spec)
  with o show ?thesis by (intro that[of others]) auto
qed

lemma runs_pod_Some: "runs_pod x = Some t \<longleftrightarrow> x = Some (JObj t) \<and> (\<exists>spec. map_of t ''spec'' = Some (JObj spec) \<and> ''containers'' \<in> fst ` set spec)"
  by (auto simp: runs_pod_def split: option.splits json.splits if_splits)

lemma keys_dset: "fst ` set (dset k v d) = insert k (fst ` set d)"
  by (induction d) (auto simp: dset_def)

lemma jpath_append: "jpath (p @ q) v = (case jpath p v of None \<Rightarrow> None | Some x \<Rightarrow> jpath q x)"
  by (induction p v rule: jpath.induct) (auto split: option.splits)

lemma jpath_jput: "jpath p d = Some x \<Longrightarrow> jpath p (jput p v d) = Some v"
  by (induction p v d rule: jput.induct) (auto split: option.splits)

lemma pod_place_cases:
  assumes "pod_place d = Inr p" "jpath p (JObj d) = Some x"
  obtains (self) "p = []" "map_of d ''kind'' = Some (JStr ''Pod'')"
  | (workload) s where "p = [''spec'', ''template'']" "map_of d ''kind'' \<noteq> Some (JStr ''Pod'')"
      "map_of d ''spec'' = Some (JObj s)" "map_of s ''jobTemplate'' = None" "map_of s ''template'' = Some x"
  | (cron) s j t where "p = [''spec'', ''jobTemplate'', ''spec'', ''template'']" "map_of d ''kind'' \<noteq> Some (JStr ''Pod'')"
      "map_of d ''spec'' = Some (JObj s)" "map_of s ''jobTemplate'' = Some (JObj j)" "map_of j ''spec'' = Some (JObj t)"
      "map_of t ''template'' = Some x"
proof (cases "map_of d ''kind'' = Some (JStr ''Pod'')")
  case True
  with assms(1) show ?thesis by (intro self) (simp_all add: pod_place_def)
next
  case False
  with assms(1) have "bindR (dict_or (map_of d ''spec'')) (\<lambda>spec.
      (case map_of spec ''jobTemplate'' of None \<Rightarrow> Inr [''spec'', ''template'']
       | Some jt \<Rightarrow> bindR (dict_or (Some jt)) (\<lambda>j. bindR (dict_or (map_of j ''spec'')) (\<lambda>_.
           Inr [''spec'', ''jobTemplate'', ''spec'', ''template''])))) = Inr p"
    by (simp add: pod_place_def)
  then obtain s where s: "dict_or (map_of d ''spec'') = Inr s"
      "(case map_of s ''jobTemplate'' of None \<Rightarrow> Inr [''spec'', ''template'']
       | Some jt \<Rightarrow> bindR (dict_or (Some jt)) (\<lambda>j. bindR (dict_or (map_of j ''spec'')) (\<lambda>_.
           Inr [''spec'', ''jobTemplate'', ''spec'', ''template'']))) = Inr p"
    by (elim bindRE)
  show ?thesis
  proof (cases "map_of s ''jobTemplate''")
    case None
    with s have p: "p = [''spec'', ''template'']" by simp
    then obtain u where u: "map_of d ''spec'' = Some (JObj u)" "map_of u ''template'' = Some x"
      using assms(2) by (auto simp: jpath_Cons_iff simp del: jpath.simps(2))
    with s(1) have "u = s" by (simp add: dict_or_def)
    with u None False p show ?thesis by (intro workload) auto
  next
    case (Some jt)
    with s(2) have p: "p = [''spec'', ''jobTemplate'', ''spec'', ''template'']" by (auto elim!: bindRE)
    then obtain u j v where u: "map_of d ''spec'' = Some (JObj u)" "map_of u ''jobTemplate'' = Some (JObj j)"
        "map_of j ''spec'' = Some (JObj v)" "map_of v ''template'' = Some x"
      using assms(2) by (auto simp: jpath_Cons_iff simp del: jpath.simps(2))
    then show ?thesis using False p by (intro cron) auto
  qed
qed

lemma pod_template_rewritten:
  assumes p: "pod_template doc = Inr (Some (p, t))" and spec: "runs_pod (Some (JObj t')) = Some t'"
    and kind: "map_of t' ''kind'' = map_of t ''kind''"
  shows "pod_template (jput p (JObj t') doc) = Inr (Some (p, t'))"
proof -
  from p obtain d where d: "doc = JObj d" "pod_place d = Inr p" "runs_pod (jpath p doc) = Some t"
    by (auto simp: pod_template_def result_simps split: json.splits)
  then have x: "jpath p (JObj d) = Some (JObj t)" by (simp add: runs_pod_Some)
  from d(2) x show ?thesis
  proof (cases rule: pod_place_cases)
    case self
    with x kind spec d(1) show ?thesis by (simp add: pod_template_def pod_place_def)
  next
    case (workload s)
    with spec d(1) show ?thesis by (simp add: pod_template_def pod_place_def dict_or_def)
  next
    case (cron s j u)
    with spec d(1) show ?thesis by (simp add: pod_template_def pod_place_def dict_or_def)
  qed
qed

lemma rewritten_template_gated:
  assumes "rewrite gate annotations doc = Inr (doc', b)"
  shows "case pod_template doc' of
      Inr (Some (p, t)) \<Rightarrow> b \<and> (\<exists>others. jpath [''spec'', ''initContainers''] (JObj t) = Some (JList (JObj gate # others)) \<and>
        (\<forall>c \<in> set others. is_gate c = Inr False)) \<and>
        jpath p doc' = Some (JObj t) \<and> jpath (p @ [''spec'', ''containers'']) doc' = jpath (p @ [''spec'', ''containers'']) doc
    | Inr None \<Rightarrow> \<not> b \<and> doc' = doc
    | Inl _ \<Rightarrow> False"
proof -
  from assms obtain q where q: "pod_template doc = Inr q"
      "(case q of None \<Rightarrow> Inr (doc, False) | Some (path, t) \<Rightarrow> bindR (gated gate annotations t) (\<lambda>t'. Inr (jput path (JObj t') doc, True))) = Inr (doc', b)"
    by (auto simp: rewrite_def result_simps)
  show ?thesis
  proof (cases q)
    case None
    with q show ?thesis by simp
  next
    case (Some pt)
    obtain p t where pt: "pt = (p, t)" by (cases pt)
    with q Some obtain t' where t': "gated gate annotations t = Inr t'" "doc' = jput p (JObj t') doc" b
      by (auto simp: result_simps)
    from q(1) Some pt have t: "runs_pod (jpath p doc) = Some t"
      by (auto simp: pod_template_def result_simps split: json.splits)
    from t'(1) obtain others where o: "\<forall>c \<in> set others. is_gate c = Inr False" "map_of t' ''kind'' = map_of t ''kind''"
        "map_of t' ''spec'' = Some (JObj (dset ''initContainers'' (JList (JObj gate # others)) (obj_or_empty (map_of t ''spec''))))"
      by (rule gated_Inr)
    have "runs_pod (Some (JObj t')) = Some t'"
      using t o(3) by (auto simp: runs_pod_Some keys_dset obj_or_empty_def)
    with pod_template_rewritten[OF _ _ o(2)] q(1) Some pt t'(2) have "pod_template doc' = Inr (Some (p, t'))" by simp
    moreover from t have x: "jpath p doc = Some (JObj t)" by (simp add: runs_pod_Some)
    then have "jpath p doc' = Some (JObj t')" using t'(2) by (simp add: jpath_jput)
    moreover from this x have "jpath (p @ [''spec'', ''containers'']) doc' = jpath (p @ [''spec'', ''containers'']) doc"
      using o(3) t by (auto simp: jpath_append runs_pod_Some obj_or_empty_def)
    ultimately show ?thesis using o t'(3) by auto
  qed
qed

lemma set_in_spec_Inr:
  assumes "set_in_spec k v d = Inr doc'"
  shows "jpath [''kind''] doc' = map_of d ''kind'' \<and> jpath [''spec'', k] doc' = Some v"
proof -
  have "map_of (dset ''spec'' x d) ''kind'' = map_of d ''kind''" for x by simp
  with assms show ?thesis
    by (auto simp: set_in_spec_def split: option.splits json.splits)
qed

text \<open>
  Where Kubernetes keeps the pod of an object, by the object's kind.
\<close>

definition pod_specs :: "(string \<times> string list) list" where
  "pod_specs =
     (''Pod'', [''spec'']) # (''CronJob'', [''spec'', ''jobTemplate'', ''spec'', ''template'', ''spec'']) #
     map (\<lambda>k. (k, [''spec'', ''template'', ''spec'']))
       [''Deployment'', ''StatefulSet'', ''DaemonSet'', ''ReplicaSet'', ''ReplicationController'', ''Job'']"

lemma pod_specs_paths: "(k, p) \<in> set pod_specs \<Longrightarrow> p = [''spec''] \<or> p = [''spec'', ''template'', ''spec''] \<or>
    p = [''spec'', ''jobTemplate'', ''spec'', ''template'', ''spec'']"
  by (auto simp: pod_specs_def)

lemma jpath_one: "jpath [k] (JObj d) = map_of d k"
  by (simp split: option.split)

lemma jpath_down:
  assumes "jpath (k # k' # ks) (JObj d) = Some x"
  obtains d' where "map_of d k = Some (JObj d')" "jpath (k' # ks) (JObj d') = Some x"
proof (cases "map_of d k")
  case (Some y)
  with assms that show thesis by (cases y) auto
qed (use assms in simp)

lemma pod_template_by_kind:
  assumes k: "jpath [''kind''] doc = Some (JStr k)" "(k, p) \<in> set pod_specs" and c: "jpath (p @ [''containers'']) doc = Some cs"
    and j: "k = ''CronJob'' \<or> jpath [''spec'', ''jobTemplate''] doc = None"
  obtains place t where "p = place @ [''spec'']" "pod_template doc = Inr (Some (place, t))"
proof -
  from k(1) obtain d where d: "doc = JObj d" by (cases doc) auto
  with k(1) have kind: "map_of d ''kind'' = Some (JStr k)" by (simp only: jpath_one)
  from c have c: "jpath (p @ [''containers'']) (JObj d) = Some cs" by (simp only: d)
  have has: "''containers'' \<in> fst ` set s" if "jpath [''containers''] (JObj s) = Some cs" for s
    using that[unfolded jpath_one] by (force dest: map_of_SomeD)
  note defs = pod_template_def pod_place_def runs_pod_def dict_or_def
  from k(2) consider "k = ''Pod''" "p = [''spec'']"
    | "k = ''CronJob''" "p = [''spec'', ''jobTemplate'', ''spec'', ''template'', ''spec'']"
    | "k \<noteq> ''Pod''" "k \<noteq> ''CronJob''" "p = [''spec'', ''template'', ''spec'']"
    by (auto simp: pod_specs_def)
  then show ?thesis
  proof cases
    case 1
    from c[unfolded 1 append.simps] obtain s where s: "map_of d ''spec'' = Some (JObj s)" "''containers'' \<in> fst ` set s"
      by (elim jpath_down) (blast dest: has)
    with 1 d kind show ?thesis by (intro that[of "[]" d]) (simp_all add: defs)
  next
    case 2
    from c[unfolded 2 append.simps] obtain s j u t v where s: "map_of d ''spec'' = Some (JObj s)" "map_of s ''jobTemplate'' = Some (JObj j)"
        "map_of j ''spec'' = Some (JObj u)" "map_of u ''template'' = Some (JObj t)" "map_of t ''spec'' = Some (JObj v)"
        "''containers'' \<in> fst ` set v"
      by (elim jpath_down) (blast dest: has)
    with 2 d kind show ?thesis
      by (intro that[of "[''spec'', ''jobTemplate'', ''spec'', ''template'']" t]) (simp_all add: defs)
  next
    case 3
    from c[unfolded 3(3) append.simps] obtain s t v where s: "map_of d ''spec'' = Some (JObj s)" "map_of s ''template'' = Some (JObj t)"
        "map_of t ''spec'' = Some (JObj v)" "''containers'' \<in> fst ` set v"
      by (elim jpath_down) (blast dest: has)
    moreover have "map_of s ''jobTemplate'' = None" using j 3 d s(1) by (simp split: option.splits)
    ultimately show ?thesis using 3 d kind
      by (intro that[of "[''spec'', ''template'']" t]) (simp_all add: defs)
  qed
qed

text \<open>Stopping a document leaves everything below its spec but the two switches it sets.\<close>

lemma set_in_spec_keeps:
  assumes "set_in_spec k v d = Inr out" "q \<noteq> k"
  shows "jpath (''spec'' # q # qs) out = jpath (''spec'' # q # qs) (JObj d)"
  using assms by (auto simp: set_in_spec_def split: option.splits json.splits)

lemma stop_keeps:
  assumes s: "stop sp doc = Inr (Some (out, b))" and k: "jpath [''kind''] out = Some (JStr k)" "k \<noteq> ''Ingress''"
    and q: "q \<notin> {''replicas'', ''suspend''}"
  shows "jpath [''kind''] doc = Some (JStr k) \<and> jpath (''spec'' # q # qs) out = jpath (''spec'' # q # qs) doc"
proof (cases doc)
  case (JObj d)
  consider "out = doc" | v where "set_in_spec ''replicas'' v d = Inr out" | v where "set_in_spec ''suspend'' v d = Inr out"
    | "reroute_ingress sp d = Inr (out, b)" "map_of d ''kind'' = Some (JStr ''Ingress'')"
    using s JObj by (auto simp: stop_def Let_def result_simps split: if_splits)
  then show ?thesis
  proof cases
    case 2
    from set_in_spec_Inr[OF 2] set_in_spec_keeps[OF 2] k q show ?thesis unfolding JObj jpath_one by simp
  next
    case 3
    from set_in_spec_Inr[OF 3] set_in_spec_keeps[OF 3] k q show ?thesis unfolding JObj jpath_one by simp
  next
    case 4
    then have "jpath [''kind''] out = Some (JStr ''Ingress'')"
      by (auto simp: reroute_ingress_def result_simps split: option.splits list.splits if_splits)
    with k show ?thesis by simp
  qed (use k in simp)
qed (use s k in \<open>auto simp: stop_def\<close>)

text \<open>
  C22. No tenant pod starts outside the gate, in a stopped render or any other: in every document the
  post-renderer emits, whatever of the kinds of Kubernetes that run pods it is, the pod (looked up
  where that kind keeps it: the spec of a Pod, the template of a workload or a Job, the one inside a CronJob's job
  template) has the platform's gate as its first init container, no other init container under the
  gate's name, and the chart's own containers unchanged. The one assumption is that only a CronJob
  has a field \<^verbatim>\<open>jobTemplate\<close> in its spec, as the Kubernetes API has it.
\<close>

theorem every_pod_is_gated:
  assumes r: "render_doc gate annotations sp doc = Inr (Some (out, b))"
    and k: "jpath [''kind''] out = Some (JStr k)" "(k, p) \<in> set pod_specs" and c: "jpath (p @ [''containers'']) out = Some cs"
    and j: "k = ''CronJob'' \<or> jpath [''spec'', ''jobTemplate''] out = None"
  shows "\<exists>others. jpath (p @ [''initContainers'']) out = Some (JList (JObj gate # others)) \<and>
    (\<forall>x \<in> set others. jpath [''name''] x \<noteq> Some (JStr gate_name)) \<and> jpath (p @ [''containers'']) doc = Some cs"
proof -
  from r obtain doc' ch where w: "rewrite gate annotations doc = Inr (doc', ch)"
      and s: "case sp of None \<Rightarrow> out = doc' | Some x \<Rightarrow> \<exists>b'. stop x doc' = Inr (Some (out, b'))"
    unfolding render_doc_def by (elim bindR2E) (auto simp: result_simps split: option.splits)
  have n: "k \<noteq> ''Ingress''" using k(2) by (auto simp: pod_specs_def)
  have same: "jpath [''kind''] doc' = Some (JStr k)"
      "jpath (''spec'' # q # qs) out = jpath (''spec'' # q # qs) doc'" if "q \<notin> {''replicas'', ''suspend''}" for q qs
  proof -
    have "jpath [''kind''] doc' = Some (JStr k) \<and> jpath (''spec'' # q # qs) out = jpath (''spec'' # q # qs) doc'"
    proof (cases sp)
      case (Some x)
      with s obtain b' where "stop x doc' = Inr (Some (out, b'))" by auto
      from stop_keeps[OF this k(1) n that] show ?thesis .
    qed (use s k(1) in simp)
    then show "jpath [''kind''] doc' = Some (JStr k)" "jpath (''spec'' # q # qs) out = jpath (''spec'' # q # qs) doc'" by blast+
  qed
  have p: "\<exists>q qs. q \<notin> {''replicas'', ''suspend''} \<and> p @ [x] = ''spec'' # q # qs" if "x \<notin> {''replicas'', ''suspend''}" for x
    using pod_specs_paths[OF k(2)]
  proof (elim disjE)
    assume "p = [''spec'']"
    with that show ?thesis by (intro exI[of _ x] exI[of _ "[]"]) simp
  next
    assume "p = [''spec'', ''template'', ''spec'']"
    then show ?thesis by (intro exI[of _ "''template''"] exI[of _ "[''spec'', x]"]) simp
  next
    assume "p = [''spec'', ''jobTemplate'', ''spec'', ''template'', ''spec'']"
    then show ?thesis by (intro exI[of _ "''jobTemplate''"] exI[of _ "[''spec'', ''template'', ''spec'', x]"]) simp
  qed
  have at_p: "jpath (p @ [x]) out = jpath (p @ [x]) doc'" if "x \<in> {''containers'', ''initContainers''}" for x
  proof -
    have "x \<notin> {''replicas'', ''suspend''}" using that by auto
    from p[OF this] obtain q qs where "q \<notin> {''replicas'', ''suspend''}" "p @ [x] = ''spec'' # q # qs" by blast
    then show ?thesis using same(2) by simp
  qed
  from same(2)[of "''jobTemplate''" "[]"] j have j': "k = ''CronJob'' \<or> jpath [''spec'', ''jobTemplate''] doc' = None" by simp
  from same(1)[of "''x''"] have k': "jpath [''kind''] doc' = Some (JStr k)" by simp
  from c at_p have c': "jpath (p @ [''containers'']) doc' = Some cs" by simp
  obtain place t where t: "p = place @ [''spec'']" "pod_template doc' = Inr (Some (place, t))"
    by (rule pod_template_by_kind[OF k' k(2) c' j'])
  with rewritten_template_gated[OF w] obtain others where
      o: "jpath [''spec'', ''initContainers''] (JObj t) = Some (JList (JObj gate # others))" "\<forall>x \<in> set others. is_gate x = Inr False"
        "jpath place doc' = Some (JObj t)" "jpath (p @ [''containers'']) doc' = jpath (p @ [''containers'']) doc"
    by auto
  have "jpath [''name''] x \<noteq> Some (JStr gate_name)" if "is_gate x = Inr False" for x
    using that by (auto simp: is_gate_def split: json.splits option.splits)
  moreover have "jpath (p @ [''initContainers'']) doc' = Some (JList (JObj gate # others))"
    using o(1,3) t(1) by (simp add: jpath_append)
  ultimately show ?thesis using o(2,4) at_p c' by (intro exI[of _ others]) auto
qed

text \<open>
  Without the assumption the gate is missed: a Deployment with a stray \<^verbatim>\<open>jobTemplate\<close> is taken for a CronJob,
  and passes as it came.
\<close>

lemma stray_job_template_ungated:
  "rewrite gate annotations (JObj [(''kind'', JStr ''Deployment''), (''spec'', JObj [(''jobTemplate'', JNull), (''template'', pod)])]) =
     Inr (JObj [(''kind'', JStr ''Deployment''), (''spec'', JObj [(''jobTemplate'', JNull), (''template'', pod)])], False)"
  by (simp add: rewrite_def pod_template_def pod_place_def dict_or_def runs_pod_def)

section \<open>A stopped release runs nothing\<close>

text \<open>The kinds that run, or scale, something.\<close>

definition active :: "json \<Rightarrow> bool" where
  "active doc \<longleftrightarrow>
     (case jpath [''kind''] doc of
        Some (JStr k) \<Rightarrow>
          k \<in> {''Pod'', ''HorizontalPodAutoscaler''} \<or>
          k \<in> {''Deployment'', ''StatefulSet''} \<and> jpath [''spec'', ''replicas''] doc \<noteq> Some (JInt 0) \<or>
          k \<in> {''Job'', ''CronJob''} \<and> jpath [''spec'', ''suspend''] doc \<noteq> Some (JBool True)
      | _ \<Rightarrow> False)"

text \<open>An Ingress rule that still sends the deployment's hostname somewhere else than the parking page.\<close>

definition escapes :: "stopped \<Rightarrow> string \<Rightarrow> json \<Rightarrow> bool" where
  "escapes sp host rule \<longleftrightarrow>
     map_option lower (host_text (jpath [''host''] rule)) = Some (lower host) \<and>
     (case jpath [''http'', ''paths''] rule of
        Some (JList ps) \<Rightarrow> \<exists>p \<in> set ps. jpath [''backend''] p \<noteq> Some (parking_backend sp)
      | _ \<Rightarrow> False)"

lemma reroute_paths_parked: "reroute_paths b ps = Inr qs \<Longrightarrow> q \<in> set qs \<Longrightarrow> jpath [''backend''] q = Some b"
  by (induction b ps arbitrary: qs rule: reroute_paths.induct) (auto simp: result_simps)

lemma reroute_rule_parked:
  assumes "reroute_rule sp (lower h) rule = Inr (rule', b)"
  shows "\<not> escapes sp h rule'"
proof (cases rule)
  case (JObj r)
  show ?thesis
  proof (cases "map_option lower (host_text (map_of r ''host'')) = Some (lower h)")
    case False
    with assms JObj show ?thesis by (auto simp: reroute_rule_def escapes_def split: option.splits)
  next
    case True
    obtain http paths qs where h: "dict_or (map_of r ''http'') = Inr http"
        "list_or (map_of http ''paths'') = Inr paths" "reroute_paths (parking_backend sp) paths = Inr qs"
        "(if paths = [] then Inr (JObj r, False) else Inr (JObj (dset ''http'' (JObj (dset ''paths'' (JList qs) http)) r), True)) = (Inr (rule', b) :: (json \<times> bool) result)"
      using assms[unfolded reroute_rule_def JObj json.case if_not_P[OF not_not[THEN iffD2, OF True]]]
      by (elim bindRE) (rule that, assumption+)
    show ?thesis
    proof (cases "paths = []")
      case True
      with h(4) JObj have "rule' = rule" by simp
      moreover have "jpath [''http'', ''paths''] rule \<in> {None, Some (JList [])} \<or> \<not> (\<exists>ps. jpath [''http'', ''paths''] rule = Some (JList ps))"
        using h(1,2) True JObj
        by (auto simp: dict_or_def list_or_def split: option.splits json.splits if_splits)
      ultimately show ?thesis by (auto simp: escapes_def split: option.splits json.splits)
    next
      case False
      with h(4) have "jpath [''http'', ''paths''] rule' = Some (JList qs)" by auto
      then show ?thesis using reroute_paths_parked[OF h(3)] by (simp add: escapes_def)
    qed
  qed
qed (use assms in \<open>auto simp: reroute_rule_def escapes_def\<close>)

lemma reroute_rules_parked:
  "reroute_rules sp (lower h) rs = Inr (rs', b) \<Longrightarrow> r \<in> set rs' \<Longrightarrow> \<not> escapes sp h r"
  by (induction rs arbitrary: rs' b) (auto simp: result_simps dest: reroute_rule_parked)

lemma reroute_ingress_Inr:
  assumes "reroute_ingress sp d = Inr (doc', b)" "sp_hostname sp = Some h" "h \<noteq> []"
    and rs: "jpath [''spec'', ''rules''] doc' = Some (JList rules)" and r: "r \<in> set rules"
  shows "\<not> escapes sp h r"
proof -
  obtain c cs where h: "h = c # cs" using assms(3) by (cases h) auto
  from assms(1,2) h have "bindR (dict_or (map_of d ''spec'')) (\<lambda>spec. bindR (rule_list (map_of spec ''rules'')) (\<lambda>rules.
      bindR (reroute_rules sp (lower h) rules) (\<lambda>(rules', changed).
        if changed then Inr (JObj (dset ''spec'' (JObj (dset ''rules'' (JList rules') spec)) d), True)
        else Inr (JObj d, False)))) = Inr (doc', b)"
    by (simp add: reroute_ingress_def)
  then obtain spec rs0 rs1 ch where s: "dict_or (map_of d ''spec'') = Inr spec" "rule_list (map_of spec ''rules'') = Inr rs0"
      "reroute_rules sp (lower h) rs0 = Inr (rs1, ch)"
      "(if ch then Inr (JObj (dset ''spec'' (JObj (dset ''rules'' (JList rs1) spec)) d), True) else Inr (JObj d, False)) =
       (Inr (doc', b) :: (json \<times> bool) result)"
    by (elim bindRE bindR2E) (rule that, assumption+)
  show ?thesis
  proof (cases ch)
    case True
    with s(4) rs have "rs1 = rules" by auto
    with reroute_rules_parked[OF s(3)] r show ?thesis by blast
  next
    case False
    with s(4) rs have d: "jpath [''spec'', ''rules''] (JObj d) = Some (JList rules)" by auto
    then obtain u where "map_of d ''spec'' = Some (JObj u)" "map_of u ''rules'' = Some (JList rules)"
      by (auto simp: jpath_Cons_iff simp del: jpath.simps(2))
    with s(1,2) have "rs0 = rules" by (auto simp: dict_or_def rule_list_def)
    moreover have "\<not> ch \<Longrightarrow> reroute_rules sp h' rs0 = Inr (rs1, ch) \<Longrightarrow> rs1 = rs0" for h'
      by (induction rs0 arbitrary: rs1 ch)
        (auto simp: result_simps reroute_rule_def split: json.splits if_splits)
    ultimately show ?thesis using reroute_rules_parked[OF s(3)] r False s(3) by blast
  qed
qed

text \<open>
  C23. A stopped render runs nothing of the kinds the renderer knows: no Pod and no autoscaler is
  emitted, every Deployment and StatefulSet has 0 replicas, every Job and CronJob is suspended, and
  every Ingress rule for the deployment's own hostname leads to the parking page.
\<close>

theorem stopped_runs_nothing:
  assumes "render_doc gate annotations (Some sp) doc = Inr (Some (out, b))"
  shows "\<not> active out \<and>
    (jpath [''kind''] out = Some (JStr ''Ingress'') \<and> jpath [''spec'', ''rules''] out = Some (JList rules) \<and> r \<in> set rules \<and>
      sp_hostname sp = Some h \<and> h \<noteq> [] \<longrightarrow> \<not> escapes sp h r)"
proof -
  from assms obtain doc' ch where "rewrite gate annotations doc = Inr (doc', ch)"
      and s: "bindR (stop sp doc') (\<lambda>r. Inr (map_option (\<lambda>(d, b). (d, ch \<or> b)) r)) = Inr (Some (out, b))"
    unfolding render_doc_def by (elim bindR2E) simp
  from s obtain b' where s: "stop sp doc' = Inr (Some (out, b'))"
    by (elim bindRE) auto
  show ?thesis
  proof (cases doc')
    case (JObj d)
    consider (scale) "map_of d ''kind'' \<in> {Some (JStr ''Deployment''), Some (JStr ''StatefulSet'')}" "set_in_spec ''replicas'' (JInt 0) d = Inr out"
      | (suspend) "map_of d ''kind'' \<in> {Some (JStr ''Job''), Some (JStr ''CronJob'')}" "set_in_spec ''suspend'' (JBool True) d = Inr out"
      | (ingress) "map_of d ''kind'' = Some (JStr ''Ingress'')" "reroute_ingress sp d = Inr (out, b')"
      | (other) "map_of d ''kind'' \<notin> Some ` JStr ` {''Deployment'', ''StatefulSet'', ''Job'', ''CronJob'', ''HorizontalPodAutoscaler'', ''Pod'', ''Ingress''}" "out = doc'"
      using s JObj by (auto simp: stop_def Let_def result_simps split: if_splits)
    then show ?thesis
    proof cases
      case scale
      then show ?thesis using set_in_spec_Inr[OF scale(2)] by (auto simp: active_def simp del: jpath.simps)
    next
      case suspend
      then show ?thesis using set_in_spec_Inr[OF suspend(2)] by (auto simp: active_def simp del: jpath.simps)
    next
      case ingress
      have "jpath [''kind''] out = Some (JStr ''Ingress'')"
        using ingress by (auto simp: reroute_ingress_def result_simps split: option.splits list.splits if_splits)
      then show ?thesis using reroute_ingress_Inr[OF ingress(2)] by (auto simp: active_def simp del: jpath.simps)
    next
      case other
      show ?thesis
      proof (cases "map_of d ''kind''")
        case None
        with other JObj show ?thesis by (simp add: active_def)
      next
        case (Some x)
        with other JObj show ?thesis by (cases x) (simp_all add: active_def)
      qed
    qed
  qed (use s in \<open>auto simp: stop_def active_def\<close>)
qed

text \<open>
  The renderer knows no DaemonSet (nor ReplicaSet): a stopped release that has one keeps running it.
\<close>

definition demo_daemon :: json where
  "demo_daemon = JObj [(''kind'', JStr ''DaemonSet''), (''spec'', JObj [(''template'', JObj [(''spec'', JObj [(''containers'', JList [])])])])]"

lemma daemonset_not_stopped: "stop sp demo_daemon = Inr (Some (demo_daemon, False))"
  by (simp add: stop_def demo_daemon_def)

definition demo_gate :: pydict where
  "demo_gate = gate_container ''exit 0'' ''gate:1'' 30"

definition demo_stop :: stopped where
  "demo_stop = \<lparr>sp_release = ''wiki'', sp_hostname = Some ''Wiki.example.com'', sp_parking_host = ''parking'', sp_parking_port = 8000\<rparr>"

definition demo_cron :: "json list \<Rightarrow> json \<Rightarrow> json" where
  "demo_cron cs x = JObj [(''kind'', JStr ''CronJob''), (''spec'', JObj [(''suspend'', x), (''jobTemplate'', JObj [(''spec'', JObj [(''template'',
     JObj [(''spec'', JObj [(''containers'', JList [JObj [(''image'', JStr ''chart:1'')]]), (''initContainers'', JList cs)])])])])])]"

theorem every_pod_is_gated_witness:
  "\<exists>others. jpath [''spec'', ''jobTemplate'', ''spec'', ''template'', ''spec'', ''initContainers''] (demo_cron [JObj demo_gate] (JBool True)) =
     Some (JList (JObj demo_gate # others))"
proof -
  have g: "is_gate (JObj demo_gate) = Inr True" by (simp add: is_gate_def demo_gate_def gate_container_def)
  have r: "render_doc demo_gate None (Some demo_stop) (demo_cron [JObj demo_gate] (JBool False)) = Inr (Some (demo_cron [JObj demo_gate] (JBool True), True))"
    by (simp add: render_doc_def rewrite_def demo_cron_def pod_template_def pod_place_def dict_or_def runs_pod_def gated_def inject_def
        list_or_def obj_or_empty_def dset_def stop_def set_in_spec_def g Let_def)
  show ?thesis
    using every_pod_is_gated[OF r, of "''CronJob''" "[''spec'', ''jobTemplate'', ''spec'', ''template'', ''spec'']"
        "JList [JObj [(''image'', JStr ''chart:1'')]]"]
    by (simp add: demo_cron_def pod_specs_def)
qed

definition demo_rule :: "json \<Rightarrow> json" where
  "demo_rule b = JObj [(''host'', JStr ''wiki.example.com''), (''http'', JObj [(''paths'', JList [JObj [(''backend'', b)]])])]"

definition demo_ingress :: "json \<Rightarrow> json" where
  "demo_ingress b = JObj [(''kind'', JStr ''Ingress''), (''spec'', JObj [(''rules'', JList [demo_rule b])])]"

theorem stopped_runs_nothing_witness:
  "\<not> active (demo_ingress (parking_backend demo_stop)) \<and>
   \<not> escapes demo_stop ''Wiki.example.com'' (demo_rule (parking_backend demo_stop))"
proof -
  have host: "map lower_char ''wiki.example.com'' = ''wiki.example.com''" "map lower_char ''Wiki.example.com'' = ''wiki.example.com''"
    by code_simp+
  have r: "render_doc demo_gate None (Some demo_stop) (demo_ingress JNull) = Inr (Some (demo_ingress (parking_backend demo_stop), True))"
    by (simp add: render_doc_def rewrite_def demo_ingress_def demo_rule_def demo_stop_def pod_template_def pod_place_def dict_or_def runs_pod_def
        stop_def reroute_ingress_def rule_list_def reroute_rule_def host_text_def lower_def host list_or_def dset_def
        del: list.map)
  show ?thesis
    using stopped_runs_nothing[OF r, of "[demo_rule (parking_backend demo_stop)]" "demo_rule (parking_backend demo_stop)" "''Wiki.example.com''"]
    by (simp add: demo_ingress_def demo_stop_def)
qed

end
