(* ===== verification/Provisioner.thy ===== *)
theory Provisioner
  imports Effects NetworkPolicy PostRender
begin

text \<open>
  The adapters over \<^verbatim>\<open>kubectl\<close> and \<^verbatim>\<open>helm\<close>, \<^verbatim>\<open>api/app/provisioner.py\<close>: the commands each operation
  issues, in order, and what it makes of their outcome. A document handed over in a temporary file is
  the second component of the command; the file's name in the arguments is \<open>file_arg\<close>.
\<close>

section \<open>Values read from a command's output\<close>

definition file_arg :: string where "file_arg = ''<file>''"

definition field_or :: "json \<Rightarrow> string \<Rightarrow> json \<Rightarrow> json result" where
  "field_or v k fallback = (case v of JObj d \<Rightarrow> Inr (case map_of d k of None \<Rightarrow> fallback | Some x \<Rightarrow> x) | _ \<Rightarrow> Inl attribute_error)"

definition item_field :: "string \<Rightarrow> json \<Rightarrow> json result" where
  "item_field k v =
     (case v of JObj d \<Rightarrow> (case map_of d k of None \<Rightarrow> Inl (PyValueError (''KeyError: '' @ k)) | Some x \<Rightarrow> Inr x)
      | _ \<Rightarrow> Inl type_error)"

definition as_text :: "json \<Rightarrow> string result" where
  "as_text v = (case v of JStr s \<Rightarrow> Inr s | _ \<Rightarrow> Inl type_error)"

definition parsed :: "outside \<Rightarrow> completed \<Rightarrow> json result" where
  "parsed out r = (case o_json out (cp_out r) of None \<Rightarrow> Inl (PyValueError ''JSONDecodeError'') | Some v \<Rightarrow> Inr v)"

definition parsed_items :: "outside \<Rightarrow> completed \<Rightarrow> json result" where
  "parsed_items out r = bindR (parsed out r) (\<lambda>v. field_or v ''items'' (JList []))"

section \<open>KubeAdapter\<close>

definition namespace_exists :: "outside \<Rightarrow> string \<Rightarrow> bool act" where
  "namespace_exists out name =
     bindA (run_or_missing out [''kubectl'', ''get'', ''namespace'', name, ''-o'', ''name'']
              (''Failed to check namespace '' @ name) not_found_any) (\<lambda>r. retA (r \<noteq> None))"

record namespace_result =
  nr_name :: string
  nr_exists :: bool
  nr_changed :: bool

definition ensure_namespace :: "outside \<Rightarrow> string \<Rightarrow> namespace_result act" where
  "ensure_namespace out name =
     bindA (namespace_exists out name) (\<lambda>there.
       if there then retA \<lparr>nr_name = name, nr_exists = True, nr_changed = False\<rparr>
       else thenA (run_command out [''kubectl'', ''create'', ''namespace'', name] None (''Failed to create namespace '' @ name))
              (retA \<lparr>nr_name = name, nr_exists = True, nr_changed = True\<rparr>))"

definition delete_namespace :: "outside \<Rightarrow> string \<Rightarrow> namespace_result act" where
  "delete_namespace out name =
     bindA (run_or_missing out [''kubectl'', ''delete'', ''namespace'', name, ''--ignore-not-found=true'']
              (''Failed to delete namespace '' @ name) (\<lambda>r. mentions ''not found'' (cp_err r))) (\<lambda>r.
       retA \<lparr>nr_name = name, nr_exists = False, nr_changed = (r \<noteq> None)\<rparr>)"

definition label_namespace :: "outside \<Rightarrow> string \<Rightarrow> (string \<times> string) list \<Rightarrow> unit act" where
  "label_namespace out name labels =
     thenA (run_command out
              ([''kubectl'', ''label'', ''namespace'', name] @ map (\<lambda>(k, v). k @ ''='' @ v) labels @ [''--overwrite''])
              None (''Failed to label namespace '' @ name)) (retA ())"

definition object_exists_by_label :: "outside \<Rightarrow> string \<Rightarrow> string \<Rightarrow> string \<Rightarrow> bool act" where
  "object_exists_by_label out kind namespace selector =
     bindA (run_or_missing out [''kubectl'', ''get'', kind, ''-n'', namespace, ''-l'', selector, ''-o'', ''json'']
              (''Failed to look up '' @ kind @ '' objects in namespace '' @ namespace) not_found_any) (\<lambda>r.
       (case r of None \<Rightarrow> retA False | Some r \<Rightarrow> bindA (liftA (parsed_items out r)) (\<lambda>items. retA (truthy items))))"

definition object_name :: "json \<Rightarrow> string result" where
  "object_name item = bindR (item_field ''metadata'' item) (\<lambda>m. bindR (item_field ''name'' m) as_text)"

definition list_object_names :: "outside \<Rightarrow> string \<Rightarrow> string \<Rightarrow> string \<Rightarrow> string list act" where
  "list_object_names out kind namespace selector =
     bindA (run_command out [''kubectl'', ''get'', kind, ''-n'', namespace, ''-l'', selector, ''-o'', ''json''] None
              (''Failed to list '' @ kind @ '' matching '' @ selector @ '' in namespace '' @ namespace)) (\<lambda>r.
     bindA (liftA (parsed_items out r)) (\<lambda>items.
       liftA (case items of JList xs \<Rightarrow> mapR object_name xs | _ \<Rightarrow> Inl type_error)))"

definition apply_manifest :: "outside \<Rightarrow> json \<Rightarrow> string \<Rightarrow> unit act" where
  "apply_manifest out manifest message =
     thenA (run_command out [''kubectl'', ''apply'', ''-f'', file_arg] (Some manifest) message) (retA ())"

definition secret_doc :: "string \<Rightarrow> string \<Rightarrow> (string \<times> string) list \<Rightarrow> (string \<times> string) list \<Rightarrow> string \<Rightarrow> json" where
  "secret_doc namespace name data labels secret_type =
     JObj [(''apiVersion'', JStr ''v1''), (''kind'', JStr ''Secret''), (''type'', JStr secret_type),
       (''metadata'', JObj [(''name'', JStr name), (''namespace'', JStr namespace), (''labels'', jmap labels)]),
       (''stringData'', jmap data)]"

definition upsert_secret ::
  "outside \<Rightarrow> string \<Rightarrow> string \<Rightarrow> (string \<times> string) list \<Rightarrow> (string \<times> string) list \<Rightarrow> string \<Rightarrow> unit act"
where
  "upsert_secret out namespace name data labels secret_type =
     apply_manifest out (secret_doc namespace name data labels secret_type)
       (''Failed to apply Secret '' @ namespace @ ''/'' @ name)"

definition delete_secrets_by_label :: "outside \<Rightarrow> string \<Rightarrow> string \<Rightarrow> string option \<Rightarrow> unit act" where
  "delete_secrets_by_label out namespace selector except_name =
     thenA (run_command out
              ([''kubectl'', ''delete'', ''secret'', ''-n'', namespace, ''-l'', selector, ''--ignore-not-found''] @
               (case except_name of None \<Rightarrow> [] | Some n \<Rightarrow> [''--field-selector'', ''metadata.name!='' @ n]))
              None (''Failed to delete Secrets matching '' @ selector @ '' in namespace '' @ namespace)) (retA ())"

definition delete_object :: "outside \<Rightarrow> string \<Rightarrow> string \<Rightarrow> string \<Rightarrow> string \<Rightarrow> unit act" where
  "delete_object out kind namespace name message =
     thenA (run_command out [''kubectl'', ''delete'', kind, name, ''-n'', namespace, ''--ignore-not-found''] None message) (retA ())"

text \<open>\<^verbatim>\<open>((item.get("spec") or {}).get("replicas") or 0) <= 0\<close>\<close>

definition runs_replicas :: "json \<Rightarrow> bool result" where
  "runs_replicas item =
     (case item of
        JObj d \<Rightarrow> bindR (dict_or (map_of d ''spec'')) (\<lambda>spec.
          (case map_of spec ''replicas'' of
             None \<Rightarrow> Inr False
           | Some (JInt i) \<Rightarrow> Inr (i > 0) | Some (JBool b) \<Rightarrow> Inr b
           | Some (JFloat s) \<Rightarrow> Inr (truthy (JFloat s) \<and> hd s \<noteq> CHR ''-'')
           | Some x \<Rightarrow> if truthy x then Inl type_error else Inr False))
      | _ \<Rightarrow> Inl attribute_error)"

definition scale_target :: "json \<Rightarrow> string result" where
  "scale_target item =
     bindR (bindR (item_field ''kind'' item) as_text) (\<lambda>kind.
     bindR (object_name item) (\<lambda>name. Inr (lower kind @ ''/'' @ name)))"

definition scale_one :: "outside \<Rightarrow> string \<Rightarrow> json \<Rightarrow> string list act" where
  "scale_one out namespace item =
     bindA (liftA (runs_replicas item)) (\<lambda>up.
       if \<not> up then retA []
       else bindA (liftA (scale_target item)) (\<lambda>target.
            thenA (run_command out [''kubectl'', ''scale'', target, ''-n'', namespace, ''--replicas=0''] None
                     (''Failed to scale '' @ target @ '' to 0 in namespace '' @ namespace))
              (retA [target])))"

fun scale_each :: "outside \<Rightarrow> string \<Rightarrow> json list \<Rightarrow> string list act" where
  "scale_each out namespace [] = retA []"
| "scale_each out namespace (x # xs) =
     bindA (scale_one out namespace x) (\<lambda>a. bindA (scale_each out namespace xs) (\<lambda>b. retA (a @ b)))"

definition scale_running_workloads_to_zero :: "outside \<Rightarrow> string \<Rightarrow> string list act" where
  "scale_running_workloads_to_zero out namespace =
     bindA (run_command out [''kubectl'', ''get'', ''deployments,statefulsets'', ''-n'', namespace, ''-o'', ''json''] None
              (''Failed to list workloads in namespace '' @ namespace)) (\<lambda>r.
     bindA (liftA (parsed_items out r)) (\<lambda>items.
       (case items of JList xs \<Rightarrow> scale_each out namespace xs | _ \<Rightarrow> failA type_error)))"

section \<open>HelmAdapter\<close>

record helm_result =
  hr_release :: string
  hr_namespace :: string
  hr_changed :: bool
  hr_status :: "string option"
  hr_revision :: "int option"

definition release_not_found :: "completed \<Rightarrow> bool" where
  "release_not_found r \<longleftrightarrow> (let text = cp_err r @ [newline] @ cp_out r in mentions ''release: not found'' text \<or> mentions ''not found'' text)"

text \<open>\<^verbatim>\<open>isinstance(revision, int)\<close> also holds of a bool.\<close>

definition as_int :: "json option \<Rightarrow> int option" where
  "as_int v = (case v of Some (JInt i) \<Rightarrow> Some i | Some (JBool b) \<Rightarrow> Some (if b then 1 else 0) | _ \<Rightarrow> None)"

definition release_info :: "json \<Rightarrow> string option \<times> int option" where
  "release_info payload =
     (case payload of
        JObj d \<Rightarrow>
          ((case map_of d ''info'' of
              Some (JObj info) \<Rightarrow> (case map_of info ''status'' of Some (JStr s) \<Rightarrow> Some s | _ \<Rightarrow> None)
            | _ \<Rightarrow> None),
           as_int (map_of d ''version''))
      | _ \<Rightarrow> (None, None))"

definition helm_get_release_status :: "outside \<Rightarrow> string \<Rightarrow> string \<Rightarrow> (string option \<times> int option) act" where
  "helm_get_release_status out release namespace =
     bindA (run_or_missing out [''helm'', ''status'', release, ''--namespace'', namespace, ''--output'', ''json'']
              (''Failed to fetch release status for '' @ release) release_not_found) (\<lambda>r.
       (case r of
          None \<Rightarrow> retA (None, None)
        | Some r \<Rightarrow>
            (case o_json out (cp_out r) of
               None \<Rightarrow> failA (PyValueError (''Invalid JSON from helm status for release '' @ release))
             | Some payload \<Rightarrow> retA (release_info payload))))"

definition with_optional_digest :: "string \<Rightarrow> string option \<Rightarrow> string" where
  "with_optional_digest chart digest =
     (case digest of
        Some (c # cs) \<Rightarrow> if CHR ''@'' \<in> set chart then chart else chart @ ''@'' @ c # cs
      | _ \<Rightarrow> chart)"

record helm_args =
  ha_release :: string
  ha_namespace :: string
  ha_chart :: string
  ha_version :: string
  ha_digest :: "string option"
  ha_values :: pydict
  ha_timeout :: nat
  ha_atomic :: bool
  ha_wait :: bool
  ha_hostname :: "string option"
  ha_stopped :: bool
  ha_parking_host :: string
  ha_parking_port :: nat

definition renderer_arg :: "string \<Rightarrow> string list" where
  "renderer_arg a = [''--post-renderer-args'', a]"

definition helm_command :: "settings \<Rightarrow> helm_args \<Rightarrow> string list" where
  "helm_command st a =
     [''helm'', ''upgrade'', ''--install'', ha_release a, with_optional_digest (ha_chart a) (ha_digest a),
      ''--namespace'', ha_namespace a, ''--timeout'', nat_str (ha_timeout a) @ ''s'', ''-f'', file_arg] @
     (case ha_digest a of Some (_ # _) \<Rightarrow> [] | _ \<Rightarrow> [''--version'', ha_version a]) @
     [''--post-renderer'', ''post-render''] @ renderer_arg (''--image='' @ st_gate_image st) @
     renderer_arg (''--deadline-seconds='' @ nat_str (st_gate_deadline st)) @ renderer_arg (''--release='' @ ha_release a) @
     (case ha_hostname a of Some (c # cs) \<Rightarrow> renderer_arg (''--hostname='' @ c # cs) | _ \<Rightarrow> []) @
     (if ha_stopped a
      then renderer_arg ''--render=stopped'' @ renderer_arg (''--parking-host='' @ ha_parking_host a) @
           renderer_arg (''--parking-port='' @ nat_str (ha_parking_port a))
      else []) @
     (if ha_atomic a then [''--atomic''] else []) @ (if ha_wait a then [''--wait''] else [])"

definition helm_upgrade_install :: "outside \<Rightarrow> settings \<Rightarrow> helm_args \<Rightarrow> helm_result act" where
  "helm_upgrade_install out st a =
     (if ha_stopped a \<and> ha_parking_host a = []
      then failA (IntegrityErr ''A stopped render needs the parking address; set CAELUS_PARKING_HOST'')
      else thenA (run_command out (helm_command st a) (Some (JObj (ha_values a))) (''Failed to upgrade/install release '' @ ha_release a))
             (bindA (helm_get_release_status out (ha_release a) (ha_namespace a)) (\<lambda>(status, revision).
                retA \<lparr>hr_release = ha_release a, hr_namespace = ha_namespace a, hr_changed = True, hr_status = status,
                      hr_revision = revision\<rparr>)))"

definition helm_uninstall :: "outside \<Rightarrow> string \<Rightarrow> string \<Rightarrow> nat \<Rightarrow> bool \<Rightarrow> helm_result act" where
  "helm_uninstall out release namespace timeout wait =
     bindA (run_or_missing out
              ([''helm'', ''uninstall'', release, ''--namespace'', namespace, ''--timeout'', nat_str timeout @ ''s''] @
               (if wait then [''--wait''] else []))
              (''Failed to uninstall release '' @ release) release_not_found) (\<lambda>r.
       retA \<lparr>hr_release = release, hr_namespace = namespace, hr_changed = (r \<noteq> None),
             hr_status = Some (if r = None then ''not-found'' else ''uninstalled''), hr_revision = None\<rparr>)"

section \<open>Provisioner\<close>

definition policy_name :: "json \<Rightarrow> string" where
  "policy_name p = (case jpath [''metadata'', ''name''] p of Some (JStr n) \<Rightarrow> n | _ \<Rightarrow> [])"

definition apply_policy :: "outside \<Rightarrow> string \<Rightarrow> json \<Rightarrow> unit act" where
  "apply_policy out namespace p =
     apply_manifest out p (''Failed to apply NetworkPolicy '' @ policy_name p @ '' in namespace '' @ namespace)"

definition remove_policy :: "outside \<Rightarrow> string \<Rightarrow> string list \<Rightarrow> string \<Rightarrow> unit act" where
  "remove_policy out namespace keep name =
     whenA (name \<notin> set keep)
       (delete_object out ''networkpolicy'' namespace name (''Failed to remove NetworkPolicy '' @ name @ '' in namespace '' @ namespace))"

definition ensure_tenant_network_policies ::
  "outside \<Rightarrow> settings \<Rightarrow> string \<Rightarrow> (string \<times> string) list \<Rightarrow> pydict option \<Rightarrow> unit act"
where
  "ensure_tenant_network_policies out st namespace labels system =
     (let desired = tenant_network_policies st namespace system in
      thenA (label_namespace out namespace (if labels = [] then tenant_namespace_labels else labels))
     (thenA (eachA (apply_policy out namespace) desired)
     (bindA (list_object_names out ''networkpolicy'' namespace ''app.kubernetes.io/managed-by=caelus'') (\<lambda>names.
        eachA (remove_policy out namespace (map policy_name desired)) names))))"

definition ssh_access_selector :: "string \<Rightarrow> string" where
  "ssh_access_selector instance_name = ''caelus.dev/component=ssh,app.kubernetes.io/instance='' @ instance_name"

definition ssh_access_exists :: "outside \<Rightarrow> string \<Rightarrow> string \<Rightarrow> bool act" where
  "ssh_access_exists out namespace instance_name =
     object_exists_by_label out ''service'' namespace (ssh_access_selector instance_name)"

definition sweep_stopped_workloads :: "outside \<Rightarrow> string \<Rightarrow> string list act" where
  "sweep_stopped_workloads = scale_running_workloads_to_zero"

end
