(* ===== verification/Codec.thy ===== *)
theory Codec
  imports Json
begin

text \<open>
  What the code uses of Python's text codecs: \<^verbatim>\<open>base64\<close>, big-endian bytes of an integer,
  \<^verbatim>\<open>json.dumps\<close>, \<^verbatim>\<open>str.split\<close> and \<^verbatim>\<open>str.partition\<close>. A byte is a character.
\<close>

section \<open>Bytes\<close>

fun be_bytes :: "nat \<Rightarrow> nat \<Rightarrow> string" where
  "be_bytes 0 n = []"
| "be_bytes (Suc k) n = be_bytes k (n div 256) @ [char_of (n mod 256)]"

lemma length_be_bytes [simp]: "length (be_bytes k n) = k"
  by (induction k arbitrary: n) simp_all

text \<open>The alphabets differ in their last two characters.\<close>

definition b64_char :: "string \<Rightarrow> nat \<Rightarrow> char" where
  "b64_char tail_chars v =
     (if v < 26 then char_of (65 + v) else if v < 52 then char_of (71 + v) else if v < 62 then char_of (v - 4)
      else tail_chars ! (v - 62))"

fun b64_groups :: "(nat \<Rightarrow> char) \<Rightarrow> nat list \<Rightarrow> string" where
  "b64_groups e [] = []"
| "b64_groups e [a] = [e (a div 4), e (a mod 4 * 16), CHR ''='', CHR ''='']"
| "b64_groups e [a, b] = [e (a div 4), e (a mod 4 * 16 + b div 16), e (b mod 16 * 4), CHR ''='']"
| "b64_groups e (a # b # c # bs) =
     [e (a div 4), e (a mod 4 * 16 + b div 16), e (b mod 16 * 4 + c div 64), e (c mod 64)] @ b64_groups e bs"

definition b64encode :: "string \<Rightarrow> string" where
  "b64encode s = b64_groups (b64_char ''+/'') (map cp s)"

definition urlsafe_b64encode :: "string \<Rightarrow> string" where
  "urlsafe_b64encode s = b64_groups (b64_char ''-_'') (map cp s)"

section \<open>UTF-8\<close>

text \<open>\<^verbatim>\<open>s.encode()\<close> of a Latin-1 string.\<close>

definition utf8_char :: "char \<Rightarrow> string" where
  "utf8_char c = (if cp c < 128 then [c] else [char_of (192 + cp c div 64), char_of (128 + cp c mod 64)])"

definition encode_utf8 :: "string \<Rightarrow> string" where
  "encode_utf8 s = concat (map utf8_char s)"

lemma utf8_char_inj:
  assumes "utf8_char c @ xs = utf8_char d @ ys"
  shows "c = d \<and> xs = ys"
proof -
  have b: "of_char x < (256::nat)" for x by (metis of_char_mod_256 mod_less_divisor zero_less_numeral)
  have inj: "c = d" if "cp c div 64 = cp d div 64" "cp c mod 64 = cp d mod 64"
    using that by (metis cp_def div_mult_mod_eq of_char_eq_iff)
  have dm: "cp x div 64 < 4" "cp x mod 64 < 64" for x
    using b[of x] by (simp_all add: cp_def less_mult_imp_div_less)
  have hi: "cp (char_of (192 + n)) = 192 + n" if "n < 4" for n using that by (simp add: cp_char_of)
  have lo: "cp (char_of (128 + n)) = 128 + n" if "n < 64" for n using that by (simp add: cp_char_of)
  consider "cp c < 128" "cp d < 128" | "cp c < 128" "\<not> cp d < 128" | "\<not> cp c < 128" "cp d < 128"
    | "\<not> cp c < 128" "\<not> cp d < 128" by blast
  then show ?thesis
  proof cases
    case 2
    with assms have "c = char_of (192 + cp d div 64)" by (simp add: utf8_char_def)
    with hi[OF dm(1)[of d]] 2 show ?thesis by simp
  next
    case 3
    with assms have "d = char_of (192 + cp c div 64)" by (simp add: utf8_char_def)
    with hi[OF dm(1)[of c]] 3 show ?thesis by simp
  next
    case 4
    with assms have eq: "char_of (192 + cp c div 64) = (char_of (192 + cp d div 64) :: char)"
        "char_of (128 + cp c mod 64) = (char_of (128 + cp d mod 64) :: char)" "xs = ys"
      by (simp_all only: utf8_char_def if_False append.simps list.inject)
    from arg_cong[OF eq(1), of cp] arg_cong[OF eq(2), of cp] eq(3) inj show ?thesis by (simp add: hi lo dm)
  qed (use assms in \<open>simp add: utf8_char_def\<close>)
qed

lemma encode_utf8_inj: "encode_utf8 s = encode_utf8 t \<Longrightarrow> s = t"
proof (induction s arbitrary: t)
  case Nil
  then show ?case by (cases t) (auto simp: encode_utf8_def utf8_char_def split: if_splits)
next
  case (Cons c s)
  then obtain d t' where t: "t = d # t'"
    by (cases t) (auto simp: encode_utf8_def utf8_char_def split: if_splits)
  with Cons.prems have "utf8_char c @ encode_utf8 s = utf8_char d @ encode_utf8 t'" by (simp add: encode_utf8_def)
  from utf8_char_inj[OF this] Cons.IH t show ?case by simp
qed

lemma encode_utf8_eq [simp]: "encode_utf8 s = encode_utf8 t \<longleftrightarrow> s = t"
  by (auto dest: encode_utf8_inj)

section \<open>json.dumps\<close>

text \<open>The default separators, escapes and \<^verbatim>\<open>ensure_ascii\<close>.\<close>

definition json_escape :: "char \<Rightarrow> string" where
  "json_escape c =
     (let n = cp c in
      if n = 34 then [CHR 0x5C, CHR 0x22] else if n = 92 then [CHR 0x5C, CHR 0x5C]
      else if n = 8 then [CHR 0x5C, CHR ''b''] else if n = 9 then [CHR 0x5C, CHR ''t'']
      else if n = 10 then [CHR 0x5C, CHR ''n''] else if n = 12 then [CHR 0x5C, CHR ''f'']
      else if n = 13 then [CHR 0x5C, CHR ''r'']
      else if n < 32 \<or> 127 \<le> n then CHR 0x5C # CHR ''u'' # hex_pad 4 n else [c])"

definition json_quote :: "string \<Rightarrow> string" where
  "json_quote s = [CHR 0x22] @ concat (map json_escape s) @ [CHR 0x22]"

text \<open>\<open>item_sep\<close> and \<open>key_sep\<close> are the \<^verbatim>\<open>separators\<close>.\<close>

fun dumps_with :: "string \<Rightarrow> string \<Rightarrow> json \<Rightarrow> string" where
  "dumps_with is ks JNull = ''null''"
| "dumps_with is ks (JBool b) = (if b then ''true'' else ''false'')"
| "dumps_with is ks (JInt i) = int_str i"
| "dumps_with is ks (JFloat s) = s"
| "dumps_with is ks (JStr s) = json_quote s"
| "dumps_with is ks (JList xs) = ''['' @ join is (map (dumps_with is ks) xs) @ '']''"
| "dumps_with is ks (JObj d) = ''{'' @ join is (map (\<lambda>(k, v). json_quote k @ ks @ dumps_with is ks v) d) @ ''}''"

definition dumps :: "json \<Rightarrow> string" where
  "dumps = dumps_with '', '' '': ''"

section \<open>Splitting\<close>

text \<open>\<^verbatim>\<open>s.split()\<close>: the runs of characters that are not white space.\<close>

function words_of :: "(char \<Rightarrow> bool) \<Rightarrow> string \<Rightarrow> string list" where
  "words_of sp s =
     (case dropWhile sp s of
        [] \<Rightarrow> []
      | c # cs \<Rightarrow> (c # takeWhile (\<lambda>c. \<not> sp c) cs) # words_of sp (dropWhile (\<lambda>c. \<not> sp c) cs))"

  by pat_completeness auto

termination words_of
proof (relation "measure (length \<circ> snd)")
  fix sp :: "char \<Rightarrow> bool" and s c cs
  assume "dropWhile sp s = c # cs"
  then have "length (c # cs) \<le> length s" by (metis length_dropWhile_le)
  moreover have "length (dropWhile (\<lambda>c. \<not> sp c) cs) \<le> length cs" by (rule length_dropWhile_le)
  ultimately show "((sp, dropWhile (\<lambda>c. \<not> sp c) cs), sp, s) \<in> measure (length \<circ> snd)" by simp
qed simp

declare words_of.simps [simp del]

text \<open>\<^verbatim>\<open>s.partition(c)\<close> and \<^verbatim>\<open>s.rpartition(c)\<close>, without the separator itself.\<close>

definition partition_at :: "char \<Rightarrow> string \<Rightarrow> string \<times> string" where
  "partition_at c s = (before_first c s, drop 1 (dropWhile (\<lambda>d. d \<noteq> c) s))"

definition rpartition_at :: "char \<Rightarrow> string \<Rightarrow> string \<times> string" where
  "rpartition_at c s = (if c \<in> set s then (before_last c s, after_last c s) else ([], s))"

text \<open>\<^verbatim>\<open>list(dict.fromkeys(xs))\<close>: the first of each value, in order.\<close>

fun fromkeys :: "'a list \<Rightarrow> 'a list" where
  "fromkeys [] = []"
| "fromkeys (x # xs) = x # filter (\<lambda>y. y \<noteq> x) (fromkeys xs)"

lemma set_fromkeys [simp]: "set (fromkeys xs) = set xs"
  by (induction xs) auto

lemma distinct_fromkeys [simp]: "distinct (fromkeys xs)"
  by (induction xs) auto

end
