(* ===== verification/RegistryTokens.thy ===== *)
theory RegistryTokens
  imports Codec Effects
begin

text \<open>
  Tokens and pull credentials of the tenant registry: \<^verbatim>\<open>api/app/services/registry_tokens.py\<close> and the
  endpoint \<^verbatim>\<open>api/app/api/registry.py\<close>. Cryptography is a parameter: loading a PEM key, its public
  coordinates, SHA-256, HMAC and the signature over a set of claims. A credential is derived, never
  stored, so verifying one is recomputing it.
\<close>

section \<open>Keys\<close>

datatype reg_error =
    RegistryKey string
  | RegistryCredential string
  | RegistryService string
  | RegistryGrant string
  | RegistryInvalid string

record private_key =
  pk_secret :: nat
  pk_x :: nat
  pk_y :: nat

text \<open>\<open>rc_load\<close>: no PEM private key, a key of another kind, or a P-256 one.\<close>

record access_entry =
  ae_type :: string
  ae_name :: string
  ae_actions :: "string list"

record claims =
  cl_iss :: string
  cl_sub :: string
  cl_aud :: string
  cl_iat :: int
  cl_nbf :: int
  cl_exp :: int
  cl_jti :: string
  cl_access :: "access_entry list"

record reg_crypto =
  rc_load :: "string \<Rightarrow> string + private_key option"
  rc_sha256 :: "string \<Rightarrow> string"
  rc_hmac_hex :: "string \<Rightarrow> string \<Rightarrow> string"
  rc_sign :: "private_key \<Rightarrow> string \<Rightarrow> claims \<Rightarrow> string"

record registry_settings =
  rs_host :: string
  rs_issuer :: string
  rs_signing_key :: string
  rs_hmac_key :: string

definition load_private_key :: "reg_crypto \<Rightarrow> string \<Rightarrow> reg_error + private_key" where
  "load_private_key cr pem =
     (if strip is_space pem = [] then Inl (RegistryKey ''no registry signing key is configured'')
      else (case rc_load cr pem of
              Inl m \<Rightarrow> Inl (RegistryKey (''not a PEM private key: '' @ m))
            | Inr None \<Rightarrow> Inl (RegistryKey ''the registry signing key must be an EC P-256 key'')
            | Inr (Some k) \<Rightarrow> Inr k))"

definition b64url :: "string \<Rightarrow> string" where
  "b64url s = rstrip (\<lambda>c. c = CHR ''='') (urlsafe_b64encode s)"

definition required_members :: "private_key \<Rightarrow> (string \<times> json) list" where
  "required_members k =
     [(''crv'', JStr ''P-256''), (''kty'', JStr ''EC''), (''x'', JStr (b64url (be_bytes 32 (pk_x k)))),
      (''y'', JStr (b64url (be_bytes 32 (pk_y k))))]"

definition key_id :: "reg_crypto \<Rightarrow> private_key \<Rightarrow> string" where
  "key_id cr k = b64url (rc_sha256 cr (encode_utf8 (dumps_with '','' '':'' (JObj (required_members k)))))"

definition public_jwk :: "reg_crypto \<Rightarrow> private_key \<Rightarrow> json" where
  "public_jwk cr k =
     JObj (required_members k @ [(''kid'', JStr (key_id cr k)), (''use'', JStr ''sig''), (''alg'', JStr ''ES256'')])"

definition jwks :: "reg_crypto \<Rightarrow> private_key list \<Rightarrow> json" where
  "jwks cr ks = JObj [(''keys'', JList (map (public_jwk cr) ks))]"

definition sign_claims :: "reg_crypto \<Rightarrow> private_key \<Rightarrow> claims \<Rightarrow> string" where
  "sign_claims cr k c = rc_sign cr k (key_id cr k) c"

section \<open>Issued tokens\<close>

record issued_token =
  it_token :: string
  it_access :: "access_entry list"
  it_issued_at :: int
  it_expires_in :: int

definition token_scope :: "issued_token \<Rightarrow> string" where
  "token_scope t = join '' '' (map (\<lambda>e. ae_type e @ '':'' @ ae_name e @ '':'' @ join '','' (ae_actions e)) (it_access t))"

definition mint ::
  "reg_crypto \<Rightarrow> private_key \<Rightarrow> string \<Rightarrow> string \<Rightarrow> string \<Rightarrow> access_entry list \<Rightarrow> int \<Rightarrow> int \<Rightarrow> string \<Rightarrow> issued_token"
where
  "mint cr k issuer audience subject access ttl now jti =
     \<lparr>it_token = sign_claims cr k
        \<lparr>cl_iss = issuer, cl_sub = subject, cl_aud = audience, cl_iat = now, cl_nbf = now - 60, cl_exp = now + ttl,
         cl_jti = jti, cl_access = access\<rparr>,
      it_access = access, it_issued_at = now, it_expires_in = ttl\<rparr>"

definition repository :: "string \<Rightarrow> string list \<Rightarrow> access_entry" where
  "repository name actions = \<lparr>ae_type = ''repository'', ae_name = name, ae_actions = actions\<rparr>"

definition image_repository :: "string \<Rightarrow> string" where
  "image_repository owner = ''u/'' @ owner"

definition pull_username :: "user_id \<Rightarrow> string" where
  "pull_username u = ''pull-'' @ nat_str u"

definition pull_password :: "reg_crypto \<Rightarrow> string \<Rightarrow> user_id \<Rightarrow> string" where
  "pull_password cr hk u = rc_hmac_hex cr (encode_utf8 hk) (encode_utf8 (''registry-pull:v1:'' @ nat_str u))"

definition pull_dockerconfig :: "reg_crypto \<Rightarrow> string \<Rightarrow> string \<Rightarrow> user_id \<Rightarrow> string" where
  "pull_dockerconfig cr hk host u =
     (let username = pull_username u; password = pull_password cr hk u
      in dumps (JObj [(''auths'', JObj [(host, JObj [(''username'', JStr username), (''password'', JStr password),
           (''auth'', JStr (b64encode (encode_utf8 (username @ '':'' @ password))))])])]))"

section \<open>Verifying a credential\<close>

definition pull_username_re :: rx where
  "pull_username_re = RSeq (rx_lit ''pull-'') (RSeq (RCls (in_range CHR ''1'' CHR ''9'')) (RStar (RCls is_dec)))"

definition verified_owner :: "db \<Rightarrow> reg_crypto \<Rightarrow> string \<Rightarrow> string \<Rightarrow> string \<Rightarrow> reg_error + user_id" where
  "verified_owner s cr hk username password =
     (if \<not> re_fullmatch pull_username_re username then Inl (RegistryCredential ''unknown registry credential'')
      else
        (let u = nat_of_dec (drop 5 username)
         in if encode_utf8 (pull_password cr hk u) \<noteq> encode_utf8 password
            then Inl (RegistryCredential ''unknown registry credential'')
            else (case get_user s u of
                    None \<Rightarrow> Inl (RegistryCredential ''unknown registry credential'')
                  | Some r \<Rightarrow>
                      if u_deleted_at r \<noteq> None then Inl (RegistryCredential ''unknown registry credential'')
                      else Inr u)))"

section \<open>The scope of a pull token\<close>

definition requested_one :: "string \<Rightarrow> (string \<times> string \<times> string list) list" where
  "requested_one scope =
     (let (resource_type, rest) = partition_at CHR '':'' scope; (name, actions) = rpartition_at CHR '':'' rest
      in if resource_type \<noteq> [] \<and> name \<noteq> [] \<and> actions \<noteq> [] then [(resource_type, name, split_on CHR '','' actions)] else [])"

definition requested :: "string list \<Rightarrow> (string \<times> string \<times> string list) list" where
  "requested scopes = concat (map (\<lambda>v. concat (map requested_one (words_of is_space v))) scopes)"

definition pull_access :: "user_id \<Rightarrow> string list \<Rightarrow> access_entry list" where
  "pull_access u scopes =
     (let own = image_repository (nat_str u)
      in if \<exists>(t, n, a) \<in> set (requested scopes). t = ''repository'' \<and> n = own \<and> (''pull'' \<in> set a \<or> ''*'' \<in> set a)
         then [repository own [''pull'']] else [])"

definition signer :: "reg_crypto \<Rightarrow> registry_settings \<Rightarrow> reg_error + private_key" where
  "signer cr rs =
     (if rs_host rs = [] \<or> rs_issuer rs = [] then Inl (RegistryKey ''registry token issuance is not configured'')
      else load_private_key cr (rs_signing_key rs))"

definition issue_pull_token ::
  "reg_crypto \<Rightarrow> registry_settings \<Rightarrow> int \<Rightarrow> string \<Rightarrow> db \<Rightarrow> string \<Rightarrow> string \<Rightarrow> string \<Rightarrow> string list \<Rightarrow> reg_error + issued_token"
where
  "issue_pull_token cr rs now jti s service username password scopes =
     (if rs_hmac_key rs = [] then Inl (RegistryKey ''registry token issuance is not configured'')
      else bindR (signer cr rs) (\<lambda>k.
        if service \<noteq> rs_host rs then Inl (RegistryService (''tokens are issued only for '' @ rs_host rs))
        else bindR (verified_owner s cr (rs_hmac_key rs) username password) (\<lambda>u.
          Inr (mint cr k (rs_issuer rs) (rs_host rs) (pull_username u) (pull_access u scopes) 300 now jti))))"

section \<open>The tokens of operators and of the prune\<close>

definition repository_component :: rx where
  "repository_component =
     (let a = RCls (\<lambda>c. is_lower c \<or> is_dec c)
      in RSeq (rx_plus a) (RStar (RSeq (RAlt (RCls (\<lambda>c. c = CHR ''.'' \<or> c = CHR ''_'')) (RAlt (rx_lit ''__'') (rx_plus (RCls (\<lambda>c. c = CHR ''-'')))))
                                     (rx_plus a))))"

definition repository_name_re :: rx where
  "repository_name_re = RSeq repository_component (RStar (RSeq (rx_lit ''/'') repository_component))"

definition owner_id_re :: rx where
  "owner_id_re = rx_plus (RCls (\<lambda>c. is_lower c \<or> is_dec c))"

definition operator_token ::
  "reg_crypto \<Rightarrow> registry_settings \<Rightarrow> int \<Rightarrow> string \<Rightarrow> string list \<Rightarrow> string list \<Rightarrow> int \<Rightarrow> reg_error + issued_token"
where
  "operator_token cr rs now jti push0 pull0 ttl =
     (let push = fromkeys push0; pull = fromkeys pull0
      in if push = [] \<and> pull = [] then Inl (RegistryInvalid ''name at least one repository'')
         else (case find (\<lambda>n. \<not> re_fullmatch repository_name_re n) (push @ pull) of
                 Some n \<Rightarrow> Inl (RegistryInvalid (''not an exact repository name: '' @ py_repr n))
               | None \<Rightarrow>
                   if \<not> (0 < ttl \<and> ttl \<le> 3600) then Inl (RegistryInvalid ''a token may live at most 3600 seconds'')
                   else bindR (signer cr rs) (\<lambda>k.
                     Inr (mint cr k (rs_issuer rs) (rs_host rs) ''operator''
                       (map (\<lambda>n. repository n [''pull'', ''push'']) push @
                        map (\<lambda>n. repository n [''pull'']) (filter (\<lambda>n. n \<notin> set push) pull)) ttl now jti))))"

definition prune_token ::
  "reg_crypto \<Rightarrow> registry_settings \<Rightarrow> int \<Rightarrow> string \<Rightarrow> string list \<Rightarrow> int \<Rightarrow> reg_error + issued_token"
where
  "prune_token cr rs now jti owners0 ttl =
     (let owners = fromkeys owners0
      in if owners = [] then Inl (RegistryInvalid ''name at least one owner'')
         else if \<not> list_all (re_fullmatch owner_id_re) owners then Inl (RegistryInvalid ''owners are user ids'')
         else if \<not> (0 < ttl \<and> ttl \<le> 3600) then Inl (RegistryInvalid ''a token may live at most 3600 seconds'')
         else bindR (signer cr rs) (\<lambda>k.
           Inr (mint cr k (rs_issuer rs) (rs_host rs) ''prune''
             (map (\<lambda>n. repository (image_repository n) [''pull'', ''delete'']) owners) ttl now jti)))"

section \<open>The endpoint\<close>

datatype http_answer = Answer nat "(string \<times> json) list"

definition issue_answer :: "(issued_token \<Rightarrow> (string \<times> json) list) \<Rightarrow> reg_error + issued_token \<Rightarrow> http_answer" where
  "issue_answer body r =
     (case r of
        Inr t \<Rightarrow> Answer 200 (body t)
      | Inl (RegistryCredential m) \<Rightarrow> Answer 401 [(''detail'', JStr m)]
      | Inl (RegistryKey m) \<Rightarrow> Answer 503 [(''detail'', JStr m)]
      | Inl (RegistryService m) \<Rightarrow> Answer 400 [(''detail'', JStr m), (''code'', JStr ''unknown_service'')]
      | Inl (RegistryGrant m) \<Rightarrow> Answer 400 [(''detail'', JStr m), (''code'', JStr ''unsupported_grant_type'')]
      | Inl (RegistryInvalid m) \<Rightarrow> Answer 400 [(''detail'', JStr m)])"

text \<open>\<open>fmt\<close> is the RFC 3339 form of an instant.\<close>

definition get_token ::
  "reg_crypto \<Rightarrow> registry_settings \<Rightarrow> (int \<Rightarrow> string) \<Rightarrow> int \<Rightarrow> string \<Rightarrow> db \<Rightarrow> string \<Rightarrow> string list \<Rightarrow> (string \<times> string) option \<Rightarrow> http_answer"
where
  "get_token cr rs fmt now jti s service scope credentials =
     (case credentials of
        None \<Rightarrow> Answer 401 [(''detail'', JStr ''a credential is required'')]
      | Some (username, password) \<Rightarrow>
          issue_answer (\<lambda>t. [(''token'', JStr (it_token t)), (''access_token'', JStr (it_token t)),
              (''expires_in'', JInt (it_expires_in t)), (''issued_at'', JStr (fmt (it_issued_at t)))])
            (issue_pull_token cr rs now jti s service username password scope))"

definition post_token ::
  "reg_crypto \<Rightarrow> registry_settings \<Rightarrow> (int \<Rightarrow> string) \<Rightarrow> int \<Rightarrow> string \<Rightarrow> db \<Rightarrow> string \<Rightarrow> string \<Rightarrow> string \<Rightarrow> string \<Rightarrow> string \<Rightarrow> http_answer"
where
  "post_token cr rs fmt now jti s grant_type service username password scope =
     issue_answer (\<lambda>t. [(''access_token'', JStr (it_token t)), (''expires_in'', JInt (it_expires_in t)),
         (''issued_at'', JStr (fmt (it_issued_at t))), (''scope'', JStr (token_scope t))])
       (if grant_type \<noteq> ''password'' then Inl (RegistryGrant (''unsupported grant_type '' @ py_repr grant_type))
        else issue_pull_token cr rs now jti s service username password [scope])"

section \<open>Who a user name denotes\<close>

lemma nat_str_step: "10 \<le> n \<Longrightarrow> nat_str n = nat_str (n div 10) @ [char_of (48 + n mod 10)]"
  by (subst nat_str.simps) simp

lemma nat_str_hd: "0 < n \<Longrightarrow> hd (nat_str n) \<noteq> CHR ''0''"
proof (induction n rule: nat_str.induct)
  case (1 n)
  show ?case
  proof (cases "n < 10")
    case True
    have "char_of (48 + n) \<noteq> CHR ''0''"
    proof
      assume "char_of (48 + n) = CHR ''0''"
      then have "cp (char_of (48 + n)) = 48" by (simp add: cp_def)
      with True \<open>0 < n\<close> show False by (simp add: cp_char_of)
    qed
    with True show ?thesis by (subst nat_str.simps) simp
  next
    case False
    with 1 show ?thesis by (simp add: nat_str_step div_greater_zero_iff)
  qed
qed

lemma zero_char: "cp c = 48 \<longleftrightarrow> c = CHR ''0''"
proof
  assume "cp c = 48"
  then have "of_char c = (of_char CHR ''0'' :: nat)" by (simp add: cp_def)
  then show "c = CHR ''0''" by (simp only: of_char_eq_iff)
qed (simp add: cp_def)

lemma nat_of_dec_str:
  assumes "ds \<noteq> []" "\<forall>c \<in> set ds. is_dec c" "hd ds \<noteq> CHR ''0''"
  shows "nat_str (nat_of_dec ds) = ds \<and> 0 < nat_of_dec ds"
  using assms
proof (induction ds rule: rev_induct)
  case (snoc c ds)
  have c: "48 \<le> cp c" "cp c < 58" using snoc.prems by (auto simp: is_dec_def in_range_def cp_def)
  have rt: "char_of (cp c) = c" by (simp add: cp_def)
  show ?case
  proof (cases "ds = []")
    case True
    have "cp c \<noteq> 48"
    proof
      assume "cp c = 48"
      then have "c = CHR ''0''" by (simp add: zero_char)
      with snoc.prems True show False by simp
    qed
    with True c rt show ?thesis by (subst nat_str.simps) (simp add: nat_of_dec_def)
  next
    case False
    with snoc have "nat_str (nat_of_dec ds) = ds" "0 < nat_of_dec ds" by auto
    moreover obtain d where d: "cp c = 48 + d" "d < 10" using c that[of "cp c - 48"] by simp
    ultimately show ?thesis using rt by (simp add: nat_of_dec_append1 nat_str_step)
  qed
qed simp

lemma pull_username_iff:
  "re_fullmatch pull_username_re w \<longleftrightarrow> (\<exists>u > 0. w = pull_username u)" (is "?l \<longleftrightarrow> ?r")
proof -
  have digit: "in_range CHR ''1'' CHR ''9'' c \<longleftrightarrow> is_dec c \<and> c \<noteq> CHR ''0''" for c
    using zero_char[of c] by (auto simp: in_range_def is_dec_def cp_def)
  have digits: "ds \<in> lang (RSeq (RCls (in_range CHR ''1'' CHR ''9'')) (RStar (RCls is_dec))) \<longleftrightarrow>
      ds \<noteq> [] \<and> (\<forall>c \<in> set ds. is_dec c) \<and> hd ds \<noteq> CHR ''0''" for ds
    unfolding lang_cls_Cons lang_star_cls by (cases ds) (auto simp: digit)
  have "?l \<longleftrightarrow> (\<exists>ds. w = ''pull-'' @ ds \<and> ds \<in> lang (RSeq (RCls (in_range CHR ''1'' CHR ''9'')) (RStar (RCls is_dec))))"
    unfolding re_fullmatch_lang pull_username_re_def lang.simps(4)[of "rx_lit _"] lang_lit by blast
  also have "\<dots> \<longleftrightarrow> (\<exists>ds. w = ''pull-'' @ ds \<and> ds \<noteq> [] \<and> (\<forall>c \<in> set ds. is_dec c) \<and> hd ds \<noteq> CHR ''0'')"
    by (simp only: digits)
  also have "\<dots> \<longleftrightarrow> ?r"
  proof
    assume "\<exists>ds. w = ''pull-'' @ ds \<and> ds \<noteq> [] \<and> (\<forall>c \<in> set ds. is_dec c) \<and> hd ds \<noteq> CHR ''0''"
    then show ?r unfolding pull_username_def by (metis nat_of_dec_str)
  next
    assume ?r
    then show "\<exists>ds. w = ''pull-'' @ ds \<and> ds \<noteq> [] \<and> (\<forall>c \<in> set ds. is_dec c) \<and> hd ds \<noteq> CHR ''0''"
      unfolding pull_username_def using nat_str_nonempty nat_str_digits nat_str_hd by blast
  qed
  finally show ?thesis .
qed

lemma pull_username_inj [simp]: "pull_username u = pull_username v \<longleftrightarrow> u = v"
  by (auto simp: pull_username_def dest: nat_str_inj)

lemma verified_owner_Inr:
  "verified_owner s cr hk username password = Inr u \<longleftrightarrow>
     0 < u \<and> username = pull_username u \<and> password = pull_password cr hk u \<and>
     (\<exists>r. get_user s u = Some r \<and> u_deleted_at r = None)"
proof -
  have name: "nat_of_dec (drop 5 (pull_username v)) = v" for v
    by (simp add: pull_username_def nat_str_roundtrip)
  show ?thesis
  proof (cases "\<exists>v > 0. username = pull_username v")
    case True
    then obtain v where v: "0 < v" "username = pull_username v" by blast
    from True v(1) show ?thesis by (auto simp: verified_owner_def pull_username_iff v(2) name split: option.splits)
  next
    case False
    then have "username \<noteq> pull_username u \<or> u = 0" by auto
    with False show ?thesis by (auto simp: verified_owner_def pull_username_iff)
  qed
qed

lemma signer_Inr: "signer cr rs = Inr k \<Longrightarrow> rs_host rs \<noteq> [] \<and> rs_issuer rs \<noteq> [] \<and> rc_load cr (rs_signing_key rs) = Inr (Some k)"
  by (auto simp: signer_def load_private_key_def split: if_splits sum.splits option.splits)

lemma pull_access_cases: "pull_access u scopes \<in> {[], [repository (image_repository (nat_str u)) [''pull'']]}"
  by (simp add: pull_access_def Let_def)

lemma find_bad: "find (\<lambda>n. \<not> P n) xs = None \<longleftrightarrow> (\<forall>x \<in> set xs. P x)"
  by (auto simp: find_None_iff)

lemma operator_token_Inr:
  assumes "operator_token cr rs now jti push pull ttl = Inr t"
  shows "0 < ttl \<and> ttl \<le> 3600 \<and> it_expires_in t = ttl \<and> (\<forall>n \<in> set push \<union> set pull. re_fullmatch repository_name_re n) \<and>
    set (it_access t) = (\<lambda>n. repository n [''pull'', ''push'']) ` set push \<union> (\<lambda>n. repository n [''pull'']) ` (set pull - set push)"
  using assms by (auto simp: operator_token_def Let_def find_bad bindR_Inr_iff mint_def split: if_splits option.splits)

lemma prune_token_Inr:
  assumes "prune_token cr rs now jti owners ttl = Inr t"
  shows "0 < ttl \<and> ttl \<le> 3600 \<and> it_expires_in t = ttl \<and> (\<forall>n \<in> set owners. re_fullmatch owner_id_re n) \<and>
    set (it_access t) = (\<lambda>n. repository (image_repository n) [''pull'', ''delete'']) ` set owners"
  using assms by (auto simp: prune_token_def Let_def bindR_Inr_iff mint_def list_all_iff split: if_splits)

text \<open>An exact name holds no wildcard, no separator of a scope and no white space.\<close>

definition name_char :: "char \<Rightarrow> bool" where
  "name_char c \<longleftrightarrow> is_lower c \<or> is_dec c \<or> c \<in> set ''._-/''"

fun rx_over :: "(char \<Rightarrow> bool) \<Rightarrow> rx \<Rightarrow> bool" where
  "rx_over P (RCls Q) = (\<forall>c. Q c \<longrightarrow> P c)"
| "rx_over P (RSeq r s) = (rx_over P r \<and> rx_over P s)"
| "rx_over P (RAlt r s) = (rx_over P r \<and> rx_over P s)"
| "rx_over P (RStar r) = rx_over P r"
| "rx_over P _ = True"

lemma lang_over: "rx_over P r \<Longrightarrow> w \<in> lang r \<Longrightarrow> \<forall>c \<in> set w. P c"
  by (induction r arbitrary: w) fastforce+

lemma repository_name_chars: "re_fullmatch repository_name_re n \<Longrightarrow> \<forall>c \<in> set n. name_char c"
  unfolding re_fullmatch_lang
  by (erule lang_over[rotated]) (simp add: repository_name_re_def repository_component_def Let_def rx_plus_def name_char_def)

lemma owner_id_chars: "re_fullmatch owner_id_re n \<Longrightarrow> \<forall>c \<in> set n. is_lower c \<or> is_dec c"
  unfolding re_fullmatch_lang by (erule lang_over[rotated]) (simp add: owner_id_re_def rx_plus_def)

lemma pull_token_iff:
  "issue_pull_token cr rs now jti s service username password scopes = Inr t \<longleftrightarrow>
     (\<exists>k u r acc. signer cr rs = Inr k \<and> rs_hmac_key rs \<noteq> [] \<and> service = rs_host rs \<and> 0 < u \<and>
        username = pull_username u \<and> password = pull_password cr (rs_hmac_key rs) u \<and>
        get_user s u = Some r \<and> u_deleted_at r = None \<and> acc = pull_access u scopes \<and>
        acc \<in> {[], [repository (image_repository (nat_str u)) [''pull'']]} \<and>
        t = mint cr k (rs_issuer rs) (rs_host rs) (pull_username u) acc 300 now jti)"
  (is "?l \<longleftrightarrow> ?r")
proof
  assume ?l
  then obtain k u where "rs_hmac_key rs \<noteq> []" "signer cr rs = Inr k" "service = rs_host rs"
      "verified_owner s cr (rs_hmac_key rs) username password = Inr u"
      "t = mint cr k (rs_issuer rs) (rs_host rs) (pull_username u) (pull_access u scopes) 300 now jti"
    by (auto simp: issue_pull_token_def bindR_Inr_iff split: if_splits)
  with pull_access_cases[of u scopes] show ?r unfolding verified_owner_Inr by blast
next
  assume ?r
  then obtain k u where u: "rs_hmac_key rs \<noteq> []" "signer cr rs = Inr k" "service = rs_host rs"
      "verified_owner s cr (rs_hmac_key rs) username password = Inr u"
      "t = mint cr k (rs_issuer rs) (rs_host rs) (pull_username u) (pull_access u scopes) 300 now jti"
    unfolding verified_owner_Inr by blast
  then show ?l by (simp add: issue_pull_token_def)
qed

section \<open>Properties\<close>

text \<open>
  C39. When the registry hands out a pull token, and which: exactly to the derived credential of a live
  user, for the configured registry; the token names that user as its subject and grants pulling from the
  user's own image repository or nothing, whatever scope was asked for and however it was spelt. In
  particular the credential written into a deployment's namespace is always accepted, and neither a deleted
  account nor a forged user name obtains anything.
\<close>

theorem pull_token_exact:
  "issue_pull_token cr rs now jti s service username password scopes = Inr t \<longleftrightarrow>
     (\<exists>k u r acc. signer cr rs = Inr k \<and> rs_hmac_key rs \<noteq> [] \<and> service = rs_host rs \<and> 0 < u \<and>
        username = pull_username u \<and> password = pull_password cr (rs_hmac_key rs) u \<and>
        get_user s u = Some r \<and> u_deleted_at r = None \<and> acc = pull_access u scopes \<and>
        acc \<in> {[], [repository (image_repository (nat_str u)) [''pull'']]} \<and>
        t = mint cr k (rs_issuer rs) (rs_host rs) (pull_username u) acc 300 now jti)"
  by (rule pull_token_iff)

text \<open>
  Only the prune's token can delete, and it deletes in image repositories alone. A token an operator
  asks for grants pull and push on the exact names given, none of which can be a wildcard or smuggle a second
  scope; the prune's grants pull and delete on the image repositories of the named owners, whose names cannot
  leave their prefix; both live at most an hour, and no pull token holds either right.
\<close>

theorem deletion_only_by_prune:
  assumes "operator_token cr rs now jti push pull ttl = Inr o'" and "prune_token cr rs' now' jti' owners ttl' = Inr p"
    and "issue_pull_token cr rs'' now'' jti'' s service username password scopes = Inr q"
  shows "(\<forall>e \<in> set (it_access o'). ae_name e \<in> set push \<union> set pull \<and> set (ae_actions e) \<subseteq> {''pull'', ''push''} \<and>
       (''push'' \<in> set (ae_actions e) \<longrightarrow> ae_name e \<in> set push) \<and> (\<forall>c \<in> set (ae_name e). name_char c)) \<and>
     (\<forall>e \<in> set (it_access p). set (ae_actions e) = {''pull'', ''delete''} \<and>
       (\<exists>w \<in> set owners. ae_name e = ''u/'' @ w \<and> CHR ''/'' \<notin> set w)) \<and>
     (\<forall>e \<in> set (it_access q). ae_actions e = [''pull'']) \<and>
     it_expires_in o' \<le> 3600 \<and> it_expires_in p \<le> 3600 \<and> it_expires_in q = 300"
proof -
  have o': "0 < ttl \<and> ttl \<le> 3600 \<and> it_expires_in o' = ttl \<and> (\<forall>n \<in> set push \<union> set pull. re_fullmatch repository_name_re n) \<and>
    set (it_access o') = (\<lambda>n. repository n [''pull'', ''push'']) ` set push \<union> (\<lambda>n. repository n [''pull'']) ` (set pull - set push)"
    by (rule operator_token_Inr[OF assms(1)])
  have names: "\<forall>n \<in> set push \<union> set pull. \<forall>c \<in> set n. name_char c" using o' repository_name_chars by blast
  have p: "set (it_access p) = (\<lambda>n. repository (image_repository n) [''pull'', ''delete'']) ` set owners" "it_expires_in p \<le> 3600"
    using prune_token_Inr[OF assms(2)] by simp_all
  have owners: "CHR ''/'' \<notin> set w" if "w \<in> set owners" for w
    using prune_token_Inr[OF assms(2)] that owner_id_chars[of w] by (force simp: is_lower_def is_dec_def in_range_def cp_def)
  have q: "it_access q = [] \<or> (\<exists>n. it_access q = [repository n [''pull'']])" "it_expires_in q = 300"
    using assms(3) unfolding pull_token_iff by (auto simp: mint_def)
  show ?thesis
  proof (intro conjI)
    show "\<forall>e \<in> set (it_access o'). ae_name e \<in> set push \<union> set pull \<and> set (ae_actions e) \<subseteq> {''pull'', ''push''} \<and>
       (''push'' \<in> set (ae_actions e) \<longrightarrow> ae_name e \<in> set push) \<and> (\<forall>c \<in> set (ae_name e). name_char c)"
    proof
      fix e assume "e \<in> set (it_access o')"
      then have "e \<in> (\<lambda>n. repository n [''pull'', ''push'']) ` set push \<union> (\<lambda>n. repository n [''pull'']) ` (set pull - set push)"
        using o' by blast
      then show "ae_name e \<in> set push \<union> set pull \<and> set (ae_actions e) \<subseteq> {''pull'', ''push''} \<and>
       (''push'' \<in> set (ae_actions e) \<longrightarrow> ae_name e \<in> set push) \<and> (\<forall>c \<in> set (ae_name e). name_char c)"
        using names by (auto simp: repository_def)
    qed
    show "\<forall>e \<in> set (it_access p). set (ae_actions e) = {''pull'', ''delete''} \<and> (\<exists>w \<in> set owners. ae_name e = ''u/'' @ w \<and> CHR ''/'' \<notin> set w)"
      using p(1) owners by (auto simp: repository_def image_repository_def)
    show "\<forall>e \<in> set (it_access q). ae_actions e = [''pull'']" using q(1) by (auto simp: repository_def)
  qed (use o' p q in simp_all)
qed

section \<open>A registry\<close>

definition toy_crypto :: reg_crypto where
  "toy_crypto = \<lparr>rc_load = (\<lambda>pem. if pem = ''key'' then Inr (Some \<lparr>pk_secret = 5, pk_x = 7, pk_y = 9\<rparr>) else Inl ''bad''),
     rc_sha256 = (\<lambda>s. take 32 s), rc_hmac_hex = (\<lambda>k m. k @ ''-'' @ m), rc_sign = (\<lambda>k kid c. ''signed for '' @ cl_sub c)\<rparr>"

definition toy_registry :: registry_settings where
  "toy_registry = \<lparr>rs_host = ''registry.example'', rs_issuer = ''freepod'', rs_signing_key = ''key'', rs_hmac_key = ''h''\<rparr>"

definition pull_db :: db where
  "pull_db = empty_db\<lparr>db_users := [\<lparr>u_id = 1, u_email = ''ada'', u_subject = None, u_customer = None, u_tos_version = None,
     u_tos_at = None, u_handle = None, u_deleted_at = None\<rparr>]\<rparr>"

lemma deletion_only_by_prune_witness:
  "\<exists>o' p q. operator_token toy_crypto toy_registry 0 ''a'' [''u/1'', ''cache/1''] [''docker/dockerfile''] 600 = Inr o' \<and>
     prune_token toy_crypto toy_registry 0 ''b'' [''1''] 600 = Inr p \<and>
     issue_pull_token toy_crypto toy_registry 0 ''c'' pull_db ''registry.example'' ''pull-1''
       (pull_password toy_crypto ''h'' 1) [''repository:u/1:pull,push repository:u/2:pull''] = Inr q \<and>
     map ae_name (it_access o') = [''u/1'', ''cache/1'', ''docker/dockerfile''] \<and> map ae_name (it_access q) = [''u/1''] \<and>
     it_expires_in p \<le> 3600 \<and> it_expires_in q = 300"
proof -
  let ?o = "operator_token toy_crypto toy_registry 0 ''a'' [''u/1'', ''cache/1''] [''docker/dockerfile''] 600"
  let ?p = "prune_token toy_crypto toy_registry 0 ''b'' [''1''] 600"
  let ?q = "issue_pull_token toy_crypto toy_registry 0 ''c'' pull_db ''registry.example'' ''pull-1''
       (pull_password toy_crypto ''h'' 1) [''repository:u/1:pull,push repository:u/2:pull'']"
  have sig: "signer toy_crypto toy_registry = Inr \<lparr>pk_secret = 5, pk_x = 7, pk_y = 9\<rparr>" by code_simp
  have names: "re_fullmatch repository_name_re ''u/1''" "re_fullmatch repository_name_re ''cache/1''"
    "re_fullmatch repository_name_re ''docker/dockerfile''" by code_simp+
  have own: "re_fullmatch owner_id_re ''1''" by code_simp
  have pull: "pull_access 1 [''repository:u/1:pull,push repository:u/2:pull''] = [repository ''u/1'' [''pull'']]" by code_simp
  have owner: "verified_owner pull_db toy_crypto ''h'' ''pull-1'' (pull_password toy_crypto ''h'' 1) = Inr 1" by code_simp
  obtain o' where o': "?o = Inr o'" "map ae_name (it_access o') = [''u/1'', ''cache/1'', ''docker/dockerfile'']"
    by (simp add: operator_token_def Let_def sig names mint_def repository_def del: re_fullmatch.simps)
  obtain p where p: "?p = Inr p" by (simp add: prune_token_def Let_def sig own del: re_fullmatch.simps)
  obtain q where q: "?q = Inr q" "map ae_name (it_access q) = [''u/1'']"
    using owner pull sig by (simp add: issue_pull_token_def toy_registry_def mint_def repository_def)
  from deletion_only_by_prune[OF o'(1) p q(1)] have "it_expires_in p \<le> 3600 \<and> it_expires_in q = 300" by blast
  with o' p q show ?thesis by (intro exI[of _ o'] exI[of _ p] exI[of _ q]) (simp only: simp_thms)
qed

end
