(* ===== verification/BuildJobs.thy ===== *)
theory BuildJobs
  imports Provisioner RegistryTokens
begin

text \<open>
  What a build needs from outside: the uploaded artifact (\<^verbatim>\<open>api/app/services/artifacts.py\<close>) and the
  Kubernetes Job that runs it (\<^verbatim>\<open>api/app/services/build_jobs.py\<close>). The object store's client and its
  signed URLs are parameters; the Job's manifest is the document the code hands to \<^verbatim>\<open>kubectl\<close>, and what
  is read back from the cluster is \<^verbatim>\<open>json.loads\<close> of a command's output. The resource usage a build
  reports is not modelled, nor is an exception while it is parsed.
\<close>

section \<open>Artifacts\<close>

definition artifact_id_re :: rx where
  "artifact_id_re = rx_exactly 32 (RCls (\<lambda>c. is_dec c \<or> in_range CHR ''a'' CHR ''f'' c))"

definition validate_artifact_id :: "string \<Rightarrow> string result" where
  "validate_artifact_id a =
     (if re_match_end artifact_id_re a then Inr a
      else Inl (ValidationErr ''artifact_id must be 32 lowercase hexadecimal characters''))"

definition artifact_key :: "user_id \<Rightarrow> string \<Rightarrow> string result" where
  "artifact_key u a = bindR (validate_artifact_id a) (\<lambda>a. Inr (''artifacts/'' @ nat_str u @ ''/'' @ a @ ''.tgz''))"

text \<open>\<open>s3_head\<close> is the object's presence, or the HTTP status of the error, if it has one.\<close>

record s3_store =
  s3_endpoint :: string
  s3_bucket :: string
  s3_key_id :: string
  s3_secret :: string
  s3_expiry :: nat
  s3_max_bytes :: nat
  s3_head :: "string \<Rightarrow> nat option + unit"
  s3_post :: "string \<Rightarrow> nat \<Rightarrow> nat \<Rightarrow> string \<times> (string \<times> string) list"
  s3_get_url :: "string \<Rightarrow> nat \<Rightarrow> string"

definition s3_client :: "s3_store \<Rightarrow> unit result" where
  "s3_client st =
     (let missing = map fst (filter (\<lambda>(n, v). v = [])
            [(''s3_access_key_id'', s3_key_id st), (''s3_bucket'', s3_bucket st), (''s3_endpoint_url'', s3_endpoint st),
             (''s3_secret_access_key'', s3_secret st)])
      in if missing \<noteq> [] then Inl (CaelusErr (''object store is not configured: missing '' @ join '', '' missing)) else Inr ())"

record upload_slot =
  us_artifact :: string
  us_url :: string
  us_fields :: "(string \<times> string) list"
  us_max_bytes :: nat
  us_expires_in :: nat

definition mint_upload_slot :: "s3_store \<Rightarrow> string \<Rightarrow> user_id \<Rightarrow> upload_slot result" where
  "mint_upload_slot st fresh u =
     bindR (artifact_key u fresh) (\<lambda>key.
     bindR (s3_client st) (\<lambda>_.
       let (url, fields) = s3_post st key (s3_max_bytes st) (s3_expiry st)
       in Inr \<lparr>us_artifact = fresh, us_url = url, us_fields = fields, us_max_bytes = s3_max_bytes st, us_expires_in = s3_expiry st\<rparr>))"

definition artifact_download_url :: "s3_store \<Rightarrow> user_id \<Rightarrow> string \<Rightarrow> string result" where
  "artifact_download_url st u a =
     bindR (s3_client st) (\<lambda>_. bindR (artifact_key u a) (\<lambda>key. Inr (s3_get_url st key (s3_expiry st))))"

definition artifact_exists :: "s3_store \<Rightarrow> user_id \<Rightarrow> string \<Rightarrow> bool result" where
  "artifact_exists st u a =
     bindR (artifact_key u a) (\<lambda>key.
     bindR (s3_client st) (\<lambda>_.
       (case s3_head st key of
          Inr _ \<Rightarrow> Inr True
        | Inl status \<Rightarrow> if status \<in> {Some 403, Some 404} then Inr False else Inl (ExternalErr ''ClientError''))))"

section \<open>The Job\<close>

record build_settings =
  bs_namespace :: string
  bs_image :: string
  bs_node_pool :: string
  bs_runtime :: string
  bs_deadline :: nat
  bs_grace :: nat
  bs_max_in_flight :: nat
  bs_log_max :: nat
  bs_gate_image :: string
  bs_gate_deadline :: nat
  bs_gate_script :: string
  bs_registry :: registry_settings
  bs_store :: s3_store

definition build_id_label :: string where "build_id_label = ''caelus.dev/build-id''"
definition work_dir :: string where "work_dir = ''/home/user/work''"
definition buildkit_dir :: string where "buildkit_dir = ''/home/user/.local/share/buildkit''"
definition work_volume :: string where "work_volume = ''work''"
definition buildkit_volume :: string where "buildkit_volume = ''buildkit''"
definition node_pool_label :: string where "node_pool_label = ''caelus.dev/node-pool''"

definition mirrored_repositories :: "string list" where
  "mirrored_repositories =
     [''railwayapp/railpack-frontend'', ''railwayapp/railpack-builder'', ''railwayapp/railpack-runtime'', ''docker/dockerfile'']"

definition job_name :: "uuid \<Rightarrow> string" where
  "job_name i = ''build-'' @ uuid_str i"

definition build_access :: "user_id \<Rightarrow> access_entry list" where
  "build_access u =
     map (\<lambda>n. repository n [''pull'', ''push'']) [image_repository (nat_str u), ''cache/'' @ nat_str u] @
     map (\<lambda>n. repository n [''pull'']) mirrored_repositories"

fun lift_reg :: "reg_error + 'a \<Rightarrow> 'a result" where
  "lift_reg (Inr x) = Inr x"
| "lift_reg (Inl (RegistryKey m)) = Inl (CaelusErr m)"
| "lift_reg (Inl (RegistryCredential m)) = Inl (CaelusErr m)"
| "lift_reg (Inl (RegistryService m)) = Inl (ValidationErr m)"
| "lift_reg (Inl (RegistryGrant m)) = Inl (ValidationErr m)"
| "lift_reg (Inl (RegistryInvalid m)) = Inl (ValidationErr m)"

definition build_capability :: "reg_crypto \<Rightarrow> build_settings \<Rightarrow> int \<Rightarrow> string \<Rightarrow> uuid \<Rightarrow> user_id \<Rightarrow> string result" where
  "build_capability cr bs now jti i u =
     bindR (lift_reg (signer cr (bs_registry bs))) (\<lambda>k.
       Inr (it_token (mint cr k (rs_issuer (bs_registry bs)) (rs_host (bs_registry bs)) (''build:'' @ uuid_str i)
              (build_access u) (int (bs_deadline bs) + 600) now jti)))"

definition node_pool_scheduling :: "string \<Rightarrow> pydict" where
  "node_pool_scheduling pool =
     [(''tolerations'', JList [JObj [(''key'', JStr node_pool_label), (''operator'', JStr ''Equal''), (''value'', JStr pool),
         (''effect'', JStr ''NoSchedule'')]]),
      (''affinity'', JObj [(''nodeAffinity'', JObj [(''preferredDuringSchedulingIgnoredDuringExecution'',
         JList [JObj [(''weight'', JInt 100), (''preference'', JObj [(''matchExpressions'',
           JList [JObj [(''key'', JStr node_pool_label), (''operator'', JStr ''In''), (''values'', JList [JStr pool])]])])]])])])]"

definition env_var :: "string \<times> string \<Rightarrow> json" where
  "env_var nv = JObj [(''name'', JStr (fst nv)), (''value'', JStr (snd nv))]"

definition mount :: "string \<Rightarrow> string \<Rightarrow> json" where
  "mount name path = JObj [(''name'', JStr name), (''mountPath'', JStr path)]"

definition sized_volume :: "string \<Rightarrow> string \<Rightarrow> json" where
  "sized_volume name limit = JObj [(''name'', JStr name), (''emptyDir'', JObj [(''sizeLimit'', JStr limit)])]"

definition build_container :: "build_settings \<Rightarrow> uuid \<Rightarrow> user_id \<Rightarrow> string \<Rightarrow> string \<Rightarrow> json" where
  "build_container bs i u artifact_url capability =
     JObj [(''name'', JStr ''build''), (''image'', JStr (bs_image bs)), (''terminationMessagePath'', JStr ''/dev/termination-log''),
       (''terminationMessagePolicy'', JStr ''File''),
       (''env'', JList (map env_var
          [(''CAELUS_ARTIFACT_URL'', artifact_url), (''CAELUS_USER_ID'', nat_str u), (''CAELUS_BUILD_ID'', uuid_str i),
           (''CAELUS_REGISTRY'', rs_host (bs_registry bs)), (''CAELUS_REGISTRY_TOKEN'', capability), (''CAELUS_WORKDIR'', work_dir),
           (''CAELUS_ARTIFACT_MAX_BYTES'', nat_str (s3_max_bytes (bs_store bs)))])),
       (''resources'', JObj [(''requests'', JObj [(''cpu'', JStr ''500m''), (''memory'', JStr ''1Gi'')]),
          (''limits'', JObj [(''cpu'', JStr ''4''), (''memory'', JStr ''6Gi''), (''ephemeral-storage'', JStr ''8Gi'')])]),
       (''volumeMounts'', JList ([mount work_volume work_dir, mount buildkit_volume buildkit_dir] @
          (if bs_runtime bs \<noteq> [] then [mount ''tmp'' ''/tmp''] else [])))]"

definition profile_of :: "build_settings \<Rightarrow> json" where
  "profile_of bs = JObj [(''type'', JStr (if bs_runtime bs \<noteq> [] then ''RuntimeDefault'' else ''Unconfined''))]"

definition build_pod :: "build_settings \<Rightarrow> uuid \<Rightarrow> user_id \<Rightarrow> string \<Rightarrow> string \<Rightarrow> pydict" where
  "build_pod bs i u artifact_url capability =
     [(''restartPolicy'', JStr ''Never''), (''serviceAccountName'', JStr ''caelus-builder''), (''automountServiceAccountToken'', JBool False),
      (''securityContext'', JObj [(''runAsUser'', JInt 1000), (''runAsGroup'', JInt 1000), (''seccompProfile'', profile_of bs),
         (''appArmorProfile'', profile_of bs)]),
      (''containers'', JList [build_container bs i u artifact_url capability]),
      (''volumes'', JList ([sized_volume work_volume ''2Gi'', sized_volume buildkit_volume ''6Gi''] @
         (if bs_runtime bs \<noteq> [] then [JObj [(''name'', JStr ''tmp''), (''emptyDir'', JObj [])]] else [])))] @
     (if bs_node_pool bs \<noteq> [] then node_pool_scheduling (bs_node_pool bs) else []) @
     (if bs_runtime bs \<noteq> [] then [(''runtimeClassName'', JStr (bs_runtime bs))] else [])"

definition build_labels :: "uuid \<Rightarrow> json" where
  "build_labels i =
     JObj [(build_id_label, JStr (uuid_str i)), (''app.kubernetes.io/managed-by'', JStr ''caelus''), (''app.kubernetes.io/component'', JStr ''build'')]"

definition build_job_manifest ::
  "reg_crypto \<Rightarrow> build_settings \<Rightarrow> int \<Rightarrow> string \<Rightarrow> uuid \<Rightarrow> user_id \<Rightarrow> string \<Rightarrow> json result"
where
  "build_job_manifest cr bs now jti i u artifact_url =
     (if bs_image bs = [] then Inl (PyValueError ''CAELUS_BUILDER_IMAGE is not set'')
      else
        bindR (build_capability cr bs now jti i u) (\<lambda>capability.
        bindR (inject (build_pod bs i u artifact_url capability)
                 (gate_container (bs_gate_script bs) (bs_gate_image bs) (bs_gate_deadline bs))) (\<lambda>pod.
          Inr (JObj [(''apiVersion'', JStr ''batch/v1''), (''kind'', JStr ''Job''),
            (''metadata'', JObj [(''name'', JStr (job_name i)), (''namespace'', JStr (bs_namespace bs)), (''labels'', build_labels i)]),
            (''spec'', JObj [(''backoffLimit'', JInt 0), (''activeDeadlineSeconds'', JInt (int (bs_deadline bs))),
               (''ttlSecondsAfterFinished'', JInt 3600),
               (''template'', JObj [(''metadata'', JObj [(''labels'', build_labels i)]), (''spec'', JObj pod)])])]))))"

section \<open>The cluster client\<close>

definition create_job :: "outside \<Rightarrow> build_settings \<Rightarrow> json \<Rightarrow> unit act" where
  "create_job out bs manifest =
     thenA (run_command out [''kubectl'', ''create'', ''-n'', bs_namespace bs, ''-f'', file_arg] (Some manifest) ''Failed to create build Job'')
       (retA ())"

definition get_job :: "outside \<Rightarrow> build_settings \<Rightarrow> string \<Rightarrow> json option act" where
  "get_job out bs name =
     bindA (runA out [''kubectl'', ''get'', ''job'', name, ''-n'', bs_namespace bs, ''-o'', ''json''] None) (\<lambda>r.
       retA (if cp_code r \<noteq> 0 then None
             else (case o_json out (cp_out r) of Some JNull \<Rightarrow> None | v \<Rightarrow> v)))"

definition delete_job :: "outside \<Rightarrow> build_settings \<Rightarrow> string \<Rightarrow> unit act" where
  "delete_job out bs name =
     thenA (runA out [''kubectl'', ''delete'', ''job'', name, ''-n'', bs_namespace bs, ''--ignore-not-found=true'',
                      ''--cascade=foreground'', ''--wait=false''] None) (retA ())"

definition read_log :: "outside \<Rightarrow> build_settings \<Rightarrow> uuid \<Rightarrow> bytes option act" where
  "read_log out bs i =
     bindA (runA out [''kubectl'', ''logs'', ''-n'', bs_namespace bs, ''-l'', build_id_label @ ''='' @ uuid_str i, ''-c'', ''build'',
                      ''--tail=-1'', ''--max-log-requests=1''] None) (\<lambda>r.
       retA (if cp_code r \<noteq> 0 then None else Some (cp_out r)))"

text \<open>Iterating over a value, \<^verbatim>\<open>for x in v\<close>.\<close>

definition iterated :: "json \<Rightarrow> json list result" where
  "iterated v =
     (case v of JList xs \<Rightarrow> Inr xs | JObj d \<Rightarrow> Inr (map (JStr \<circ> fst) d) | JStr s \<Rightarrow> Inr (map (\<lambda>c. JStr [c]) s) | _ \<Rightarrow> Inl type_error)"

definition pod_items :: "json \<Rightarrow> json list result" where
  "pod_items v = bindR (field_or v ''items'' (JList [])) iterated"

definition pods_of :: "outside \<Rightarrow> build_settings \<Rightarrow> uuid \<Rightarrow> json list act" where
  "pods_of out bs i =
     bindA (runA out [''kubectl'', ''get'', ''pods'', ''-n'', bs_namespace bs, ''-l'', build_id_label @ ''='' @ uuid_str i, ''-o'', ''json''] None) (\<lambda>r.
       if cp_code r \<noteq> 0 then retA []
       else (case o_json out (cp_out r) of
               None \<Rightarrow> retA []
             | Some v \<Rightarrow> liftA (pod_items v)))"

text \<open>The first answer of a search through the statuses of a pod's containers.\<close>

fun first_of :: "('a \<Rightarrow> 'b option result) \<Rightarrow> 'a list \<Rightarrow> 'b option result" where
  "first_of f [] = Inr None"
| "first_of f (x # xs) = bindR (f x) (\<lambda>r. case r of None \<Rightarrow> first_of f xs | Some y \<Rightarrow> Inr (Some y))"

definition pod_statuses :: "string \<Rightarrow> json \<Rightarrow> json list result" where
  "pod_statuses key pod =
     bindR (field_or pod ''status'' (JObj [])) (\<lambda>st. bindR (field_or st key (JList [])) iterated)"

definition terminated_of :: "json \<Rightarrow> json result" where
  "terminated_of status =
     bindR (field_or status ''state'' (JObj [])) (\<lambda>st. field_or st ''terminated'' JNull)"

definition message_of :: "json \<Rightarrow> json option result" where
  "message_of status =
     bindR (terminated_of status) (\<lambda>t.
       if \<not> truthy t then Inr None
       else bindR (field_or t ''message'' JNull) (\<lambda>m. Inr (if truthy m then Some m else None)))"

definition termination_in :: "json list \<Rightarrow> json option result" where
  "termination_in = first_of (\<lambda>pod. bindR (pod_statuses ''containerStatuses'' pod) (first_of message_of))"

definition read_termination_message :: "outside \<Rightarrow> build_settings \<Rightarrow> uuid \<Rightarrow> json option act" where
  "read_termination_message out bs i =
     bindA (pods_of out bs i) (\<lambda>pods. liftA (termination_in pods))"

text \<open>\<^verbatim>\<open>(v or "").strip()\<close>\<close>

definition stripped :: "json \<Rightarrow> string result" where
  "stripped v = (if \<not> truthy v then Inr [] else case v of JStr s \<Rightarrow> Inr (strip is_space s) | _ \<Rightarrow> Inl attribute_error)"

definition zero_number :: "json \<Rightarrow> bool" where
  "zero_number v = (case v of JInt i \<Rightarrow> i = 0 | JBool b \<Rightarrow> \<not> b | JFloat s \<Rightarrow> \<not> truthy v | _ \<Rightarrow> False)"

definition gate_failure_of :: "json \<Rightarrow> json option result" where
  "gate_failure_of status =
     bindR (field_or status ''name'' JNull) (\<lambda>name.
       if name \<noteq> JStr gate_name then Inr None
       else
         bindR (terminated_of status) (\<lambda>t0. let t = (if truthy t0 then t0 else JObj []) in
         bindR (field_or t ''exitCode'' (JInt 0)) (\<lambda>code.
           if zero_number code then Inr None
           else
             bindR (field_or t ''message'' JNull) (\<lambda>m.
             bindR (stripped m) (\<lambda>msg.
               if msg \<noteq> [] then Inr (Some (JStr msg))
               else bindR (field_or t ''reason'' (JStr ''failed'')) (\<lambda>r. Inr (Some r)))))))"

definition gate_failure_in :: "json list \<Rightarrow> json option result" where
  "gate_failure_in = first_of (\<lambda>pod. bindR (pod_statuses ''initContainerStatuses'' pod) (first_of gate_failure_of))"

definition read_gate_failure :: "outside \<Rightarrow> build_settings \<Rightarrow> uuid \<Rightarrow> json option act" where
  "read_gate_failure out bs i =
     bindA (pods_of out bs i) (\<lambda>pods.
       bindA (liftA (gate_failure_in pods)) (\<lambda>r. retA (if r = Some JNull then None else r)))"

definition eviction_of :: "json \<Rightarrow> string option result" where
  "eviction_of pod =
     bindR (field_or pod ''status'' (JObj [])) (\<lambda>st.
     bindR (field_or st ''reason'' JNull) (\<lambda>reason.
       if reason \<noteq> JStr ''Evicted'' then Inr None
       else
         bindR (field_or st ''message'' JNull) (\<lambda>m.
         bindR (stripped m) (\<lambda>msg. Inr (Some (if msg = [] then ''Evicted'' else msg))))))"

definition read_eviction :: "outside \<Rightarrow> build_settings \<Rightarrow> uuid \<Rightarrow> string option act" where
  "read_eviction out bs i = bindA (pods_of out bs i) (\<lambda>pods. liftA (first_of eviction_of pods))"

section \<open>Reading the outcome\<close>

text \<open>
  \<^verbatim>\<open>int(v or 0) > 0\<close>; \<open>int\<close> of a text is read as an optionally signed decimal. A float, which Kubernetes
  never reports as a count, is taken as an error.
\<close>

definition positive_count :: "json \<Rightarrow> bool result" where
  "positive_count v =
     (if \<not> truthy v then Inr False
      else (case v of
              JInt i \<Rightarrow> Inr (0 < i) | JBool b \<Rightarrow> Inr b
            | JStr s \<Rightarrow> (let t = strip is_space s; ds = (if starts_with t ''+'' \<or> starts_with t ''-'' then drop 1 t else t)
                       in if ds = [] \<or> \<not> list_all is_dec ds then Inl (PyValueError ''invalid literal for int()'')
                          else Inr (\<not> starts_with t ''-'' \<and> 0 < nat_of_dec ds))
            | _ \<Rightarrow> Inl type_error))"

definition job_count :: "string \<Rightarrow> json \<Rightarrow> bool result" where
  "job_count key job =
     bindR (field_or job ''status'' (JObj [])) (\<lambda>st. bindR (field_or st key JNull) positive_count)"

definition job_is_complete :: "json \<Rightarrow> bool result" where
  "job_is_complete = job_count ''succeeded''"

definition job_is_failed :: "json \<Rightarrow> bool result" where
  "job_is_failed = job_count ''failed''"

definition termination_payload :: "outside \<Rightarrow> json option \<Rightarrow> pydict option" where
  "termination_payload out message =
     (case message of
        Some (JStr m) \<Rightarrow> if m = [] then None else (case o_json out m of Some (JObj d) \<Rightarrow> Some d | _ \<Rightarrow> None)
      | _ \<Rightarrow> None)"

definition parse_image :: "outside \<Rightarrow> json option \<Rightarrow> string option" where
  "parse_image out message =
     (case termination_payload out message of
        None \<Rightarrow> None
      | Some d \<Rightarrow> (case map_of d ''image'' of Some (JStr s) \<Rightarrow> if s = [] then None else Some s | _ \<Rightarrow> None))"

section \<open>Reasoning\<close>

lemma keeps_db_jobs [simp]:
  "keeps_db (create_job out bs m)" "keeps_db (get_job out bs n)" "keeps_db (delete_job out bs n)" "keeps_db (read_log out bs i)"
  "keeps_db (read_termination_message out bs i)" "keeps_db (read_gate_failure out bs i)" "keeps_db (read_eviction out bs i)"
proof -
  have p: "keeps_db (pods_of out bs i)"
    unfolding pods_of_def by (intro keeps_db_rules) (simp_all split: option.split)
  show "keeps_db (create_job out bs m)" "keeps_db (get_job out bs n)" "keeps_db (delete_job out bs n)" "keeps_db (read_log out bs i)"
    "keeps_db (read_termination_message out bs i)" "keeps_db (read_gate_failure out bs i)" "keeps_db (read_eviction out bs i)"
    unfolding create_job_def get_job_def delete_job_def read_log_def read_termination_message_def read_gate_failure_def read_eviction_def
    by (intro keeps_db_rules; simp add: p)+
qed

text \<open>
  What Kubernetes documents of the objects it returns: of a Job that the counts in its status are integers; of a list of
  pods that the items are objects, their statuses objects with textual reasons and messages and lists of
  container statuses, and a terminated state an object with an integer exit code and textual reason and message. Fields may
  be absent, and other fields are free.
\<close>

definition absent_or :: "(json \<Rightarrow> bool) \<Rightarrow> json option \<Rightarrow> bool" where
  "absent_or P v = (case v of None \<Rightarrow> True | Some x \<Rightarrow> P x)"

definition is_text :: "json \<Rightarrow> bool" where "is_text v = (case v of JStr _ \<Rightarrow> True | _ \<Rightarrow> False)"
definition is_integer :: "json \<Rightarrow> bool" where "is_integer v = (case v of JInt _ \<Rightarrow> True | _ \<Rightarrow> False)"

definition object_with :: "(string \<times> (json \<Rightarrow> bool)) list \<Rightarrow> json \<Rightarrow> bool" where
  "object_with ks v = (case v of JObj d \<Rightarrow> \<forall>(k, P) \<in> set ks. absent_or P (map_of d k) | _ \<Rightarrow> False)"

definition list_with :: "(json \<Rightarrow> bool) \<Rightarrow> json \<Rightarrow> bool" where
  "list_with P v = (case v of JList xs \<Rightarrow> \<forall>x \<in> set xs. P x | _ \<Rightarrow> False)"

definition job_shape :: "json \<Rightarrow> bool" where
  "job_shape = object_with [(''status'', object_with [(''succeeded'', is_integer), (''failed'', is_integer)])]"

definition status_shape :: "json \<Rightarrow> bool" where
  "status_shape = object_with [(''state'', object_with [(''terminated'',
     object_with [(''exitCode'', is_integer), (''reason'', is_text), (''message'', is_text)])])]"

definition pod_shape :: "json \<Rightarrow> bool" where
  "pod_shape = object_with [(''status'', object_with [(''reason'', is_text), (''message'', is_text),
     (''containerStatuses'', list_with status_shape), (''initContainerStatuses'', list_with status_shape)])]"

definition pods_shape :: "json \<Rightarrow> bool" where
  "pods_shape = object_with [(''items'', list_with pod_shape)]"

text \<open>
  An answer of the cluster: whenever a command that reads a Job, or pods, succeeds with an output that is
  JSON, the output is an object of that shape. Nothing is asked of any other text.
\<close>

definition cluster_ok :: "outside \<Rightarrow> bool" where
  "cluster_ok out \<longleftrightarrow> (\<forall>h rest v.
     (let r = o_run out h (Command (''kubectl'' # ''get'' # ''job'' # rest) None)
      in cp_code r = 0 \<and> o_json out (cp_out r) = Some v \<longrightarrow> job_shape v) \<and>
     (let r = o_run out h (Command (''kubectl'' # ''get'' # ''pods'' # rest) None)
      in cp_code r = 0 \<and> o_json out (cp_out r) = Some v \<longrightarrow> pods_shape v))"

lemma cluster_ok_job:
  "cluster_ok out \<Longrightarrow> o_json out (cp_out (o_run out h (Command (''kubectl'' # ''get'' # ''job'' # rest) None))) = Some v \<Longrightarrow>
     cp_code (o_run out h (Command (''kubectl'' # ''get'' # ''job'' # rest) None)) = 0 \<Longrightarrow> job_shape v"
  unfolding cluster_ok_def Let_def by blast

lemma field_or_shape:
  assumes "object_with ks v" "(k, P) \<in> set ks"
  obtains x where "field_or v k y = Inr x" "x = y \<or> P x"
  using assms by (fastforce simp: object_with_def field_or_def absent_or_def split: json.splits option.splits)

lemma job_count_readable:
  assumes "job_shape job" "k \<in> {''succeeded'', ''failed''}"
  shows "\<exists>c. job_count k job = Inr c"
proof -
  let ?S = "object_with [(''succeeded'', is_integer), (''failed'', is_integer)]"
  from assms(1) obtain st where st: "field_or job ''status'' (JObj []) = Inr st" "st = JObj [] \<or> ?S st"
    unfolding job_shape_def by (rule field_or_shape[where y = "JObj []"]) auto
  then have "?S st" by (auto simp: object_with_def absent_or_def)
  then obtain x where x: "field_or st k JNull = Inr x" "x = JNull \<or> is_integer x"
    by (rule field_or_shape[where y = JNull and k = k and P = is_integer]) (use assms(2) in auto)
  then have "\<exists>c. positive_count x = Inr c" by (auto simp: is_integer_def positive_count_def split: json.splits)
  with st(1) x(1) show ?thesis by (auto simp: job_count_def)
qed

lemma first_of_readable: "\<forall>x \<in> set xs. \<exists>y. f x = Inr y \<Longrightarrow> \<exists>y. first_of f xs = Inr y"
proof (induction xs)
  case (Cons x xs)
  then obtain y ys where "f x = Inr y" "first_of f xs = Inr ys" by auto
  then show ?case by (cases y) auto
qed simp

lemma terminated_readable:
  assumes "status_shape c"
  obtains t where "terminated_of c = Inr t"
    "t = JNull \<or> object_with [(''exitCode'', is_integer), (''reason'', is_text), (''message'', is_text)] t"
proof -
  let ?T = "object_with [(''exitCode'', is_integer), (''reason'', is_text), (''message'', is_text)]"
  from assms obtain st where st: "field_or c ''state'' (JObj []) = Inr st" "st = JObj [] \<or> object_with [(''terminated'', ?T)] st"
    unfolding status_shape_def by (rule field_or_shape[where y = "JObj []"]) auto
  then have "object_with [(''terminated'', ?T)] st" by (auto simp: object_with_def absent_or_def)
  then obtain t where "field_or st ''terminated'' JNull = Inr t" "t = JNull \<or> ?T t"
    by (rule field_or_shape[where y = JNull]) auto
  with st(1) that show thesis by (auto simp: terminated_of_def)
qed

lemma message_readable:
  assumes "status_shape c"
  shows "\<exists>m. message_of c = Inr m"
proof -
  from assms obtain t where t: "terminated_of c = Inr t"
      "t = JNull \<or> object_with [(''exitCode'', is_integer), (''reason'', is_text), (''message'', is_text)] t"
    by (rule terminated_readable)
  then show ?thesis by (auto simp: message_of_def field_or_def object_with_def split: json.splits)
qed

lemma gate_failure_readable:
  assumes "status_shape c"
  shows "\<exists>m. gate_failure_of c = Inr m"
proof -
  let ?T = "object_with [(''exitCode'', is_integer), (''reason'', is_text), (''message'', is_text)]"
  from assms obtain t0 where t0: "terminated_of c = Inr t0" "t0 = JNull \<or> ?T t0" by (rule terminated_readable)
  define t where "t = (if truthy t0 then t0 else JObj [])"
  have "?T t" using t0(2) by (auto simp: t_def object_with_def absent_or_def)
  then obtain d where d: "t = JObj d" "absent_or is_text (map_of d ''message'')" by (auto simp: object_with_def split: json.splits)
  then have f: "field_or t ''message'' JNull = Inr (case map_of d ''message'' of None \<Rightarrow> JNull | Some x \<Rightarrow> x)"
    by (simp add: field_or_def)
  have "\<exists>msg. stripped (case map_of d ''message'' of None \<Rightarrow> JNull | Some x \<Rightarrow> x) = Inr msg"
    using d(2) by (cases "map_of d ''message''") (auto simp: stripped_def absent_or_def is_text_def split: json.splits)
  then obtain msg where "stripped (case map_of d ''message'' of None \<Rightarrow> JNull | Some x \<Rightarrow> x) = Inr msg" by blast
  moreover note f
  moreover obtain n where "field_or c ''name'' JNull = Inr n" using assms
    by (auto simp: status_shape_def object_with_def field_or_def split: json.splits)
  ultimately show ?thesis using t0(1) d(1) unfolding gate_failure_of_def Let_def t_def[symmetric]
    by (auto simp: field_or_def t_def[symmetric])
qed

lemma pod_status_shape:
  assumes "pod_shape pod"
  obtains st where "field_or pod ''status'' (JObj []) = Inr st"
    "object_with [(''reason'', is_text), (''message'', is_text), (''containerStatuses'', list_with status_shape),
       (''initContainerStatuses'', list_with status_shape)] st"
proof -
  let ?S = "object_with [(''reason'', is_text), (''message'', is_text), (''containerStatuses'', list_with status_shape),
       (''initContainerStatuses'', list_with status_shape)]"
  from assms obtain st where "field_or pod ''status'' (JObj []) = Inr st" "st = JObj [] \<or> ?S st"
    unfolding pod_shape_def by (rule field_or_shape[where y = "JObj []"]) auto
  with that show thesis by (auto simp: object_with_def absent_or_def)
qed

lemma pod_statuses_readable:
  assumes "pod_shape pod" "k \<in> {''containerStatuses'', ''initContainerStatuses''}"
  shows "\<exists>cs. pod_statuses k pod = Inr cs \<and> (\<forall>c \<in> set cs. status_shape c)"
proof -
  let ?S = "object_with [(''reason'', is_text), (''message'', is_text), (''containerStatuses'', list_with status_shape),
       (''initContainerStatuses'', list_with status_shape)]"
  from assms(1) obtain st where st: "field_or pod ''status'' (JObj []) = Inr st" "?S st" by (rule pod_status_shape)
  from st(2) obtain x where x: "field_or st k (JList []) = Inr x" "x = JList [] \<or> list_with status_shape x"
    by (rule field_or_shape[where y = "JList []" and k = k and P = "list_with status_shape"]) (use assms(2) in auto)
  with st(1) show ?thesis by (auto simp: pod_statuses_def list_with_def iterated_def split: json.splits)
qed

lemma eviction_readable:
  assumes "pod_shape pod"
  shows "\<exists>m. eviction_of pod = Inr m"
proof -
  from assms obtain st where st: "field_or pod ''status'' (JObj []) = Inr st"
      "object_with [(''reason'', is_text), (''message'', is_text), (''containerStatuses'', list_with status_shape),
       (''initContainerStatuses'', list_with status_shape)] st" by (rule pod_status_shape)
  from st(2) obtain r where r: "field_or st ''reason'' JNull = Inr r" by (rule field_or_shape[where y = JNull and k = "''reason''"]) auto
  from st(2) obtain m where m: "field_or st ''message'' JNull = Inr m" "m = JNull \<or> is_text m"
    by (rule field_or_shape[where y = JNull and k = "''message''" and P = is_text]) auto
  then have "\<exists>msg. stripped m = Inr msg" by (auto simp: stripped_def is_text_def split: json.splits)
  with st(1) r m(1) show ?thesis by (auto simp: eviction_of_def)
qed

lemma pods_readable:
  assumes "pods_shape v"
  shows "\<exists>pods. pod_items v = Inr pods \<and> (\<exists>m. termination_in pods = Inr m) \<and> (\<exists>g. gate_failure_in pods = Inr g) \<and>
    (\<exists>e. first_of eviction_of pods = Inr e)"
proof -
  from assms obtain x where x: "field_or v ''items'' (JList []) = Inr x" "x = JList [] \<or> list_with pod_shape x"
    unfolding pods_shape_def by (rule field_or_shape[where y = "JList []"]) auto
  then obtain pods where p: "pod_items v = Inr pods" "\<forall>pod \<in> set pods. pod_shape pod"
    by (auto simp: pod_items_def list_with_def iterated_def split: json.splits)
  have searched: "\<exists>y. bindR (pod_statuses k pod) (first_of f) = Inr y"
    if "pod_shape pod" "k \<in> {''containerStatuses'', ''initContainerStatuses''}" "\<And>c. status_shape c \<Longrightarrow> \<exists>y. f c = Inr y" for k pod f
  proof -
    from pod_statuses_readable[OF that(1,2)] obtain cs where cs: "pod_statuses k pod = Inr cs" "\<forall>c \<in> set cs. status_shape c" by blast
    with first_of_readable[of cs f] that(3) show ?thesis by auto
  qed
  have "\<exists>m. termination_in pods = Inr m" "\<exists>g. gate_failure_in pods = Inr g" "\<exists>e. first_of eviction_of pods = Inr e"
    unfolding termination_in_def gate_failure_in_def using p(2)
    by (intro first_of_readable; simp add: searched message_readable gate_failure_readable eviction_readable)+
  with p(1) show ?thesis by blast
qed

definition returns :: "'a act \<Rightarrow> bool" where
  "returns m \<longleftrightarrow> (\<forall>w. \<exists>x w'. m w = (Inr x, w'))"

lemma returns_pure [simp]: "returns (retA x)" "returns (readA f)" "returns (nowA out)" "returns (tokenA out)" "returns (commitA g)" "returns (runA out argv doc)"
  by (simp_all add: returns_def act_simps runA_def)

lemma returns_bind: "returns m \<Longrightarrow> (\<And>x. returns (f x)) \<Longrightarrow> returns (bindA m f)"
  unfolding returns_def by (metis bindA_run)

lemma returns_if: "(b \<Longrightarrow> returns m) \<Longrightarrow> (\<not> b \<Longrightarrow> returns k) \<Longrightarrow> returns (if b then m else k)"
  by simp

lemma returns_lift: "\<exists>x. r = Inr x \<Longrightarrow> returns (liftA r)"
  by (auto simp: returns_def act_simps)

text \<open>A computation that leaves the database alone and, if the cluster answers as documented, returns.\<close>

definition careful :: "outside \<Rightarrow> 'a act \<Rightarrow> bool" where
  "careful out m \<longleftrightarrow> keeps_db m \<and> (cluster_ok out \<longrightarrow> returns m)"

lemma pods_of_ok:
  assumes "cluster_ok out"
  shows "\<exists>pods w'. pods_of out bs i w = (Inr pods, w') \<and> (\<exists>m. termination_in pods = Inr m) \<and> (\<exists>g. gate_failure_in pods = Inr g) \<and>
    (\<exists>e. first_of eviction_of pods = Inr e)"
proof -
  let ?c = "Command [''kubectl'', ''get'', ''pods'', ''-n'', bs_namespace bs, ''-l'', build_id_label @ ''='' @ uuid_str i, ''-o'', ''json''] None"
  obtain r where r: "r = o_run out (w_calls w) ?c" by simp
  have none: "termination_in [] = Inr None" "gate_failure_in [] = Inr None" "first_of eviction_of [] = Inr None"
    by (simp_all add: termination_in_def gate_failure_in_def)
  show ?thesis
  proof (cases "cp_code r \<noteq> 0 \<or> o_json out (cp_out r) = None")
    case True
    then have "fst (pods_of out bs i w) = Inr []"
      by (auto simp: pods_of_def bindA_def runA_def retA_def r)
    then show ?thesis using none by (metis prod.collapse)
  next
    case False
    then obtain v where v: "cp_code r = 0" "o_json out (cp_out r) = Some v" by blast
    with assms have "pods_shape v" unfolding cluster_ok_def Let_def r by blast
    from pods_readable[OF this] obtain pods where p: "pod_items v = Inr pods" "\<exists>m. termination_in pods = Inr m" "\<exists>g. gate_failure_in pods = Inr g"
        "\<exists>e. first_of eviction_of pods = Inr e"
      by blast
    have "fst (pods_of out bs i w) = Inr pods" using v p(1) by (simp add: pods_of_def bindA_def runA_def liftA_def r)
    then show ?thesis using p by (metis prod.collapse)
  qed
qed

lemma careful_jobs [simp]:
  "careful out (get_job out bs n)" "careful out (delete_job out bs n)" "careful out (read_log out bs i)"
  "careful out (read_termination_message out bs i)" "careful out (read_gate_failure out bs i)" "careful out (read_eviction out bs i)"
proof -
  have pods: "returns (bindA (pods_of out bs i) (\<lambda>pods. bindA (liftA (f pods)) k))"
    if ex: "\<And>w. \<exists>pods w'. pods_of out bs i w = (Inr pods, w') \<and> (\<exists>m. f pods = Inr m)" and k: "\<And>x. returns (k x)"
    for f :: "json list \<Rightarrow> 'z result" and k :: "'z \<Rightarrow> 'y act"
    unfolding returns_def
  proof
    fix w
    obtain pods w1 m where p: "pods_of out bs i w = (Inr pods, w1)" "f pods = Inr m" using ex by blast
    obtain x w2 where "k m w1 = (Inr x, w2)" using k unfolding returns_def by blast
    with p show "\<exists>x w'. bindA (pods_of out bs i) (\<lambda>pods. bindA (liftA (f pods)) k) w = (Inr x, w')"
      by (simp add: bindA_def liftA_def)
  qed
  have ret: "bindA (liftA r) retA = liftA r" for r :: "'z result"
    by (rule ext) (simp add: bindA_def liftA_def retA_def split: sum.split)
  show "careful out (get_job out bs n)" "careful out (delete_job out bs n)" "careful out (read_log out bs i)"
    by (simp_all add: careful_def get_job_def delete_job_def read_log_def keeps_db_bind returns_bind)
  show "careful out (read_termination_message out bs i)" "careful out (read_eviction out bs i)" "careful out (read_gate_failure out bs i)"
    using pods[of termination_in retA] pods[of "first_of eviction_of" retA]
      pods[of gate_failure_in "\<lambda>r. retA (if r = Some JNull then None else r)"] pods_of_ok[of out bs i]
    unfolding careful_def ret by (fastforce simp: read_termination_message_def read_eviction_def read_gate_failure_def
        keeps_db_jobs[unfolded read_termination_message_def read_eviction_def read_gate_failure_def])+
qed

section \<open>Properties\<close>

lemma artifact_key_Inr:
  assumes "artifact_key u a = Inr k"
  shows "k = ''artifacts/'' @ nat_str u @ ''/'' @ a @ ''.tgz'' \<and> CHR ''/'' \<notin> set a"
proof -
  from assms have m: "re_match_end artifact_id_re a" "k = ''artifacts/'' @ nat_str u @ ''/'' @ a @ ''.tgz''"
    by (auto simp: artifact_key_def validate_artifact_id_def bindR_Inr_iff split: if_splits)
  have hex: "\<forall>c \<in> set t. is_dec c \<or> in_range CHR ''a'' CHR ''f'' c" if "t \<in> lang artifact_id_re" for t
    using that by (simp add: artifact_id_re_def lang_exactly_cls del: rx_exactly.simps)
  from m(1) have "CHR ''/'' \<notin> set a"
  proof -
    have "CHR ''/'' \<notin> set t" if "t \<in> lang artifact_id_re" for t
      using hex[OF that] by (force simp: is_dec_def in_range_def cp_def)
    moreover have "CHR ''/'' \<noteq> newline" by (simp add: newline_def char_of_def)
    ultimately show ?thesis using m(1) unfolding re_match_end_lang by auto
  qed
  with m(2) show ?thesis by simp
qed

lemma slash_split:
  assumes "xs @ c # ys = xs' @ c # ys'" "c \<notin> set xs" "c \<notin> set xs'"
  shows "xs = xs' \<and> ys = ys'"
  using assms
proof (induction xs arbitrary: xs')
  case Nil
  then show ?case by (cases xs') auto
next
  case (Cons x xs)
  then show ?case by (cases xs') auto
qed

lemma artifact_key_inj:
  assumes "artifact_key u a = Inr k" "artifact_key u' a' = Inr k"
  shows "u = u' \<and> a = a'"
proof -
  have "''/'' \<noteq> [] \<and> CHR ''/'' \<notin> set (nat_str n)" for n
    using nat_str_digits[of n] by (force simp: is_dec_def in_range_def cp_def)
  then have n: "CHR ''/'' \<notin> set (nat_str n)" for n by blast
  have "nat_str u @ CHR ''/'' # (a @ ''.tgz'') = nat_str u' @ CHR ''/'' # (a' @ ''.tgz'')"
    using artifact_key_Inr[OF assms(1)] artifact_key_Inr[OF assms(2)] by simp
  from slash_split[OF this n n] show ?thesis by (auto dest: nat_str_inj)
qed

text \<open>
  What confines a pod, read off its document: an unprivileged user, no host namespace, no service account
  token, and no volume but scratch space, so no secret, projected token or directory of the host; and a
  container: no privilege, capability or host port asked for, and an environment of literal values, none taken from a
  secret.
\<close>

definition scratch_volume :: "json \<Rightarrow> bool" where
  "scratch_volume v \<longleftrightarrow> (case v of JObj d \<Rightarrow> fst ` set d = {''name'', ''emptyDir''} | _ \<Rightarrow> False)"

definition confined_pod :: "pydict \<Rightarrow> bool" where
  "confined_pod pod \<longleftrightarrow>
     (\<forall>k \<in> {''hostNetwork'', ''hostPID'', ''hostIPC'', ''shareProcessNamespace''}. map_of pod k = None) \<and>
     map_of pod ''automountServiceAccountToken'' = Some (JBool False) \<and>
     (case jpath [''securityContext'', ''runAsUser''] (JObj pod) of Some (JInt n) \<Rightarrow> 0 < n | _ \<Rightarrow> False) \<and>
     (case map_of pod ''volumes'' of None \<Rightarrow> True | Some (JList vs) \<Rightarrow> \<forall>v \<in> set vs. scratch_volume v | _ \<Rightarrow> False)"

definition confined_container :: "json \<Rightarrow> bool" where
  "confined_container c \<longleftrightarrow>
     jpath [''securityContext'', ''privileged''] c \<noteq> Some (JBool True) \<and> jpath [''securityContext'', ''capabilities'', ''add''] c = None \<and>
     jpath [''securityContext'', ''runAsUser''] c \<noteq> Some (JInt 0) \<and> jpath [''ports''] c = None \<and> jpath [''envFrom''] c = None \<and>
     (case jpath [''env''] c of None \<Rightarrow> True | Some (JList es) \<Rightarrow> \<forall>e \<in> set es. jpath [''valueFrom''] e = None | _ \<Rightarrow> False)"

lemma build_pod_confined: "confined_pod (build_pod bs i u url capability)"
  by (simp add: confined_pod_def build_pod_def node_pool_scheduling_def sized_volume_def scratch_volume_def insert_commute)

lemma build_container_confined: "confined_container (build_container bs i u url capability)"
  by (simp add: confined_container_def build_container_def env_var_def)

lemma gate_container_confined: "confined_container (JObj (gate_container script img secs))"
  by (simp add: confined_container_def gate_container_def)

lemma confined_pod_init: "confined_pod (dset ''initContainers'' cs pod) = confined_pod pod"
  by (simp add: confined_pod_def)

text \<open>
  C36. A build runs confined. Whatever the settings, the pod of the Job the worker creates shares no
  namespace with its host, runs as an unprivileged user, mounts nothing but scratch volumes (no
  service account token, secret or directory of the host), and in the sandboxed runtime when one is configured.
  It runs the egress gate first and then one container, the builder's, neither privileged;
  the builder gets seven literal environment values, of which only the artifact's URL and the registry token
  are credentials. The Job is never retried and is killed at the deadline. The token, which outlives the
  deadline by ten minutes, pushes to the owner's image and cache repositories and
  to no other, and deletes nothing.
\<close>

theorem build_job_confined:
  assumes "build_job_manifest cr bs now jti i u url = Inr m"
  shows "\<exists>pod gate c token k access. jpath [''spec'', ''template'', ''spec''] m = Some (JObj pod) \<and> confined_pod pod \<and>
    map_of pod ''initContainers'' = Some (JList [gate]) \<and> map_of pod ''containers'' = Some (JList [c]) \<and>
    gate = JObj (gate_container (bs_gate_script bs) (bs_gate_image bs) (bs_gate_deadline bs)) \<and>
    confined_container gate \<and> confined_container c \<and> jpath [''image''] c = Some (JStr (bs_image bs)) \<and>
    jpath [''env''] c = Some (JList (map (\<lambda>(n, v). JObj [(''name'', JStr n), (''value'', JStr v)])
      [(''CAELUS_ARTIFACT_URL'', url), (''CAELUS_USER_ID'', nat_str u), (''CAELUS_BUILD_ID'', uuid_str i),
       (''CAELUS_REGISTRY'', rs_host (bs_registry bs)), (''CAELUS_REGISTRY_TOKEN'', token), (''CAELUS_WORKDIR'', ''/home/user/work''),
       (''CAELUS_ARTIFACT_MAX_BYTES'', nat_str (s3_max_bytes (bs_store bs)))])) \<and>
    (bs_runtime bs \<noteq> [] \<longrightarrow> map_of pod ''runtimeClassName'' = Some (JStr (bs_runtime bs)) \<and>
      jpath [''securityContext'', ''seccompProfile'', ''type''] (JObj pod) = Some (JStr ''RuntimeDefault'')) \<and>
    map_of pod ''restartPolicy'' = Some (JStr ''Never'') \<and> jpath [''spec'', ''backoffLimit''] m = Some (JInt 0) \<and>
    jpath [''spec'', ''activeDeadlineSeconds''] m = Some (JInt (int (bs_deadline bs))) \<and>
    signer cr (bs_registry bs) = Inr k \<and>
    token = it_token (mint cr k (rs_issuer (bs_registry bs)) (rs_host (bs_registry bs)) (''build:'' @ uuid_str i) access (int (bs_deadline bs) + 600) now jti) \<and>
    (\<forall>e \<in> set access. set (ae_actions e) \<subseteq> {''pull'', ''push''} \<and>
      (''push'' \<in> set (ae_actions e) \<longrightarrow> ae_name e \<in> {''u/'' @ nat_str u, ''cache/'' @ nat_str u}))"
proof -
  from assms obtain capability pod where c: "build_capability cr bs now jti i u = Inr capability"
    "inject (build_pod bs i u url capability) (gate_container (bs_gate_script bs) (bs_gate_image bs) (bs_gate_deadline bs)) = Inr pod"
    "m = JObj [(''apiVersion'', JStr ''batch/v1''), (''kind'', JStr ''Job''),
            (''metadata'', JObj [(''name'', JStr (job_name i)), (''namespace'', JStr (bs_namespace bs)), (''labels'', build_labels i)]),
            (''spec'', JObj [(''backoffLimit'', JInt 0), (''activeDeadlineSeconds'', JInt (int (bs_deadline bs))),
               (''ttlSecondsAfterFinished'', JInt 3600),
               (''template'', JObj [(''metadata'', JObj [(''labels'', build_labels i)]), (''spec'', JObj pod)])])]"
    by (auto simp: build_job_manifest_def bindR_Inr_iff split: if_splits)
  from c(1) obtain k where t: "lift_reg (signer cr (bs_registry bs)) = Inr k"
      "capability = it_token (mint cr k (rs_issuer (bs_registry bs)) (rs_host (bs_registry bs)) (''build:'' @ uuid_str i) (build_access u) (int (bs_deadline bs) + 600) now jti)"
    by (auto simp: build_capability_def bindR_Inr_iff)
  from t(1) have k: "signer cr (bs_registry bs) = Inr k"
    by (cases "signer cr (bs_registry bs)" rule: sum.exhaust) (auto elim: lift_reg.elims)
  let ?gate = "gate_container (bs_gate_script bs) (bs_gate_image bs) (bs_gate_deadline bs)"
  have "map_of (build_pod bs i u url capability) ''initContainers'' = None"
    by (simp add: build_pod_def node_pool_scheduling_def)
  then have pod: "pod = dset ''initContainers'' (JList [JObj ?gate]) (build_pod bs i u url capability)"
    using c(2) by (simp add: inject_def list_or_def other_containers.simps)
  have get: "map_of pod k = (if k = ''initContainers'' then Some (JList [JObj ?gate]) else map_of (build_pod bs i u url capability) k)" for k
    by (simp add: pod dset_def update_conv)
  have "jpath [''spec'', ''template'', ''spec''] m = Some (JObj pod)" "jpath [''spec'', ''backoffLimit''] m = Some (JInt 0)"
    "jpath [''spec'', ''activeDeadlineSeconds''] m = Some (JInt (int (bs_deadline bs)))"
    by (simp_all add: c(3))
  moreover have "map_of pod ''containers'' = Some (JList [build_container bs i u url capability])"
    "map_of pod ''initContainers'' = Some (JList [JObj ?gate])" "map_of pod ''restartPolicy'' = Some (JStr ''Never'')"
    "bs_runtime bs \<noteq> [] \<longrightarrow> map_of pod ''runtimeClassName'' = Some (JStr (bs_runtime bs)) \<and>
      jpath [''securityContext'', ''seccompProfile'', ''type''] (JObj pod) = Some (JStr ''RuntimeDefault'')"
    by (simp_all add: get build_pod_def node_pool_scheduling_def profile_of_def)
  moreover have "jpath [''image''] (build_container bs i u url capability) = Some (JStr (bs_image bs))"
    "jpath [''env''] (build_container bs i u url capability) = Some (JList (map (\<lambda>(n, v). JObj [(''name'', JStr n), (''value'', JStr v)])
      [(''CAELUS_ARTIFACT_URL'', url), (''CAELUS_USER_ID'', nat_str u), (''CAELUS_BUILD_ID'', uuid_str i),
       (''CAELUS_REGISTRY'', rs_host (bs_registry bs)), (''CAELUS_REGISTRY_TOKEN'', capability), (''CAELUS_WORKDIR'', ''/home/user/work''),
       (''CAELUS_ARTIFACT_MAX_BYTES'', nat_str (s3_max_bytes (bs_store bs)))]))"
    by (simp_all add: build_container_def env_var_def work_dir_def)
  moreover have "\<forall>e \<in> set (build_access u). set (ae_actions e) \<subseteq> {''pull'', ''push''} \<and>
      (''push'' \<in> set (ae_actions e) \<longrightarrow> ae_name e \<in> {''u/'' @ nat_str u, ''cache/'' @ nat_str u})"
    by (auto simp: build_access_def repository_def image_repository_def mirrored_repositories_def)
  moreover have "confined_pod pod" by (simp add: pod confined_pod_init build_pod_confined)
  ultimately show ?thesis using k t(2) build_container_confined gate_container_confined by (intro exI conjI) (assumption | rule refl)+
qed

definition gated_builder :: build_settings where
  "gated_builder = \<lparr>bs_namespace = ''builds'', bs_image = ''builder:1'', bs_node_pool = ''builds'', bs_runtime = ''gvisor'', bs_deadline = 60,
     bs_grace = 10, bs_max_in_flight = 1, bs_log_max = 100, bs_gate_image = ''gate:1'', bs_gate_deadline = 5, bs_gate_script = ''wait'',
     bs_registry = toy_registry,
     bs_store = \<lparr>s3_endpoint = ''https://s3'', s3_bucket = ''up'', s3_key_id = ''k'', s3_secret = ''s'', s3_expiry = 900, s3_max_bytes = 100,
       s3_head = (\<lambda>_. Inr ()), s3_post = (\<lambda>k m e. (k, [])), s3_get_url = (\<lambda>k e. k)\<rparr>\<rparr>"

lemma build_job_confined_witness:
  "\<exists>m pod. build_job_manifest toy_crypto gated_builder 0 ''j'' 5 1 ''https://s3/a'' = Inr m \<and>
     jpath [''spec'', ''template'', ''spec''] m = Some (JObj pod) \<and>
     map_of pod ''initContainers'' = Some (JList [JObj (gate_container ''wait'' ''gate:1'' 5)])"
proof -
  have "signer toy_crypto toy_registry = Inr \<lparr>pk_secret = 5, pk_x = 7, pk_y = 9\<rparr>" by code_simp
  then have "\<exists>c. build_capability toy_crypto gated_builder 0 ''j'' 5 1 = Inr c"
    by (simp add: build_capability_def gated_builder_def)
  then obtain m where m: "build_job_manifest toy_crypto gated_builder 0 ''j'' 5 1 ''https://s3/a'' = Inr m"
    by (auto simp: build_job_manifest_def gated_builder_def inject_def list_or_def other_containers.simps build_pod_def node_pool_scheduling_def)
  from build_job_confined[OF this] m show ?thesis by (auto simp: gated_builder_def)
qed

end
