(* ===== verification/Builds.thy ===== *)
theory Builds
  imports BuildJobs Vars "HOL-Library.Sublist"
begin

text \<open>
  Builds: their state machine (\<^verbatim>\<open>api/app/services/build_constants.py\<close>, \<^verbatim>\<open>api/app/models/build.py\<close>), the
  requests (\<^verbatim>\<open>api/app/services/builds.py\<close>) and the worker that runs them (\<^verbatim>\<open>api/app/build_worker.py\<close>).
  One worker runs; requests may come between its passes. A row is written when the code commits it: a
  change still pending when an exception rolls back is lost. Recording a build's usage is not modelled.
\<close>

section \<open>The state machine\<close>

definition builds_open :: "build_status list" where
  "builds_open = [BQueued, BRunning]"

definition builds_terminal :: "build_status list" where
  "builds_terminal = [BSucceeded, BFailed, BCanceled]"

definition build_transitions :: "build_status \<Rightarrow> build_status list" where
  "build_transitions st =
     (case st of BQueued \<Rightarrow> [BRunning] | BRunning \<Rightarrow> [BSucceeded, BFailed] | BSucceeded \<Rightarrow> [] | BFailed \<Rightarrow> [] | BCanceled \<Rightarrow> [])"

definition is_terminal :: "build_status \<Rightarrow> bool" where
  "is_terminal st \<longleftrightarrow> st \<in> set builds_terminal"

definition can_transition :: "build_status \<Rightarrow> build_status \<Rightarrow> bool" where
  "can_transition current new \<longleftrightarrow> new \<in> set (build_transitions current)"

definition transition_to :: "build_status \<Rightarrow> string option \<Rightarrow> time \<Rightarrow> build \<Rightarrow> build result" where
  "transition_to st img now b =
     (if \<not> can_transition (b_status b) st then Inl (PyValueError ''illegal build transition'')
      else if st = BSucceeded \<and> (img = None \<or> img = Some []) then Inl (PyValueError ''transition to succeeded requires an image reference'')
      else if st \<noteq> BSucceeded \<and> img \<noteq> None then Inl (PyValueError ''image may only be set when succeeding'')
      else Inr (b\<lparr>b_status := st,
                  b_started_at := (if st = BRunning then Some now else b_started_at b),
                  b_finished_at := (if is_terminal st then Some now else b_finished_at b),
                  b_image := (if img \<noteq> None then img else b_image b)\<rparr>))"

section \<open>Requests\<close>

definition owned_deployment :: "db \<Rightarrow> user_id \<Rightarrow> uuid \<Rightarrow> deployment result" where
  "owned_deployment s u d =
     (case get_dep s d of
        None \<Rightarrow> Inl (NotFoundErr ''Deployment not found'')
      | Some dep \<Rightarrow> if d_user dep \<noteq> u then Inl (NotFoundErr ''Deployment not found'') else Inr dep)"

definition get_build_orm :: "db \<Rightarrow> user_id \<Rightarrow> uuid \<Rightarrow> uuid \<Rightarrow> build result" where
  "get_build_orm s u d i =
     bindR (owned_deployment s u d) (\<lambda>_.
       (case get_build s i of
          None \<Rightarrow> Inl (NotFoundErr ''Build not found'')
        | Some b \<Rightarrow> if b_dep b \<noteq> d then Inl (NotFoundErr ''Build not found'') else Inr b))"

definition build_owner_id :: "db \<Rightarrow> build \<Rightarrow> user_id result" where
  "build_owner_id s b = (case get_dep s (b_dep b) of None \<Rightarrow> Inl (PyValueError ''NoResultFound'') | Some d \<Rightarrow> Inr (d_user d))"

definition build_open :: "build \<Rightarrow> bool" where
  "build_open b \<longleftrightarrow> b_status b \<in> set builds_open"

definition open_build_for :: "db \<Rightarrow> deployment \<Rightarrow> string \<Rightarrow> build option result" where
  "open_build_for s dep a =
     (case filter (\<lambda>b. b_artifact b = a \<and> build_open b \<and> get_dep s (b_dep b) \<noteq> None) (db_builds s) of
        [] \<Rightarrow> Inr None
      | b # _ \<Rightarrow>
          if map_option d_user (get_dep s (b_dep b)) \<noteq> Some (d_user dep) then Inr None
          else if b_dep b \<noteq> d_id dep then Inl (IntegrityErr ''This artifact is already being built for another deployment'')
          else Inr (Some b))"

definition uq_open_build_per_artifact :: "build list \<Rightarrow> bool" where
  "uq_open_build_per_artifact bs \<longleftrightarrow> one_open b_artifact build_open bs"

definition new_build :: "uuid \<Rightarrow> time \<Rightarrow> uuid \<Rightarrow> string \<Rightarrow> build" where
  "new_build i now d a =
     \<lparr>b_id = i, b_dep = d, b_artifact = a, b_status = BQueued, b_created_at = now, b_started_at = None, b_finished_at = None,
      b_job_id = None, b_image = None, b_log = []\<rparr>"

text \<open>
  Creation reads before it writes; \<open>others\<close> is what other requests committed in between. The result is
  the build and whether this request created it.
\<close>

definition create_build ::
  "s3_store \<Rightarrow> (db \<Rightarrow> db) \<Rightarrow> uuid \<Rightarrow> time \<Rightarrow> user_id \<Rightarrow> uuid \<Rightarrow> string \<Rightarrow> db \<Rightarrow> (build \<times> bool \<times> db) result"
where
  "create_build st others fresh now u d artifact s =
     bindR (validate_artifact_id artifact) (\<lambda>a.
     bindR (owned_deployment s u d) (\<lambda>dep.
       if d_status dep \<in> {DDeleting, DDeleted} then Inl (ValidationErr ''Deployment takes no builds'')
       else bindR (open_build_for s dep a) (\<lambda>found.
         (case found of
            Some b \<Rightarrow> Inr (b, False, s)
          | None \<Rightarrow>
              bindR (artifact_exists st (d_user dep) a) (\<lambda>there.
                if \<not> there then Inl (ValidationErr ''Artifact was not found; upload it before creating a build'')
                else
                  (let s1 = others s; s2 = s1\<lparr>db_builds := db_builds s1 @ [new_build fresh now d a]\<rparr>
                   in if uq_open_build_per_artifact (db_builds s2) then Inr (new_build fresh now d a, True, s2)
                      else bindR (open_build_for s1 dep a) (\<lambda>winner.
                        (case winner of
                           None \<Rightarrow> Inl (IntegrityErr ''A build for this artifact is already in flight'')
                         | Some b \<Rightarrow> Inr (b, False, s1)))))))))"

definition list_builds :: "db \<Rightarrow> user_id \<Rightarrow> uuid \<Rightarrow> build list result" where
  "list_builds s u d =
     bindR (owned_deployment s u d) (\<lambda>_.
       Inr (rev (sort_key (\<lambda>b. (b_created_at b, b_id b)) (filter (\<lambda>b. b_dep b = d) (db_builds s)))))"

record log_slice =
  ls_data :: bytes
  ls_start :: nat
  ls_status :: build_status
  ls_partial :: bool

text \<open>Python's \<^verbatim>\<open>data[i:j]\<close> for \<open>i\<close> within the text and any \<open>j\<close>.\<close>

definition slice_to :: "bytes \<Rightarrow> nat \<Rightarrow> int \<Rightarrow> bytes" where
  "slice_to data i j =
     (let end_at = (if j < 0 then nat (max 0 (int (length data) + j)) else nat j) in take (end_at - i) (drop i data))"

definition log_window :: "build \<Rightarrow> int option \<Rightarrow> int option \<Rightarrow> log_slice" where
  "log_window b start end_at =
     (let data = b_log b
      in (case start of
            None \<Rightarrow> \<lparr>ls_data = data, ls_start = 0, ls_status = b_status b, ls_partial = False\<rparr>
          | Some st \<Rightarrow>
              (let offset = min (nat (max st 0)) (length data)
               in \<lparr>ls_data = (case end_at of None \<Rightarrow> drop offset data | Some e \<Rightarrow> slice_to data offset (e + 1)),
                   ls_start = offset, ls_status = b_status b, ls_partial = True\<rparr>)))"

definition get_build_log :: "db \<Rightarrow> user_id \<Rightarrow> uuid \<Rightarrow> uuid \<Rightarrow> int option \<Rightarrow> int option \<Rightarrow> log_slice result" where
  "get_build_log s u d i start end_at = bindR (get_build_orm s u d i) (\<lambda>b. Inr (log_window b start end_at))"

section \<open>The log\<close>

definition truncation_marker :: "nat \<Rightarrow> bytes" where
  "truncation_marker cap = [newline] @ ''[log truncated: build produced more than '' @ nat_str cap @ '' bytes]'' @ [newline]"

definition truncate_log :: "nat \<Rightarrow> bytes \<Rightarrow> bytes" where
  "truncate_log cap data =
     (if length data \<le> cap then data
      else (let marker = truncation_marker cap; keep = cap - length marker in take keep data @ take (cap - keep) marker))"

definition merge_log :: "nat \<Rightarrow> bytes \<Rightarrow> bytes option \<Rightarrow> bytes" where
  "merge_log cap stored fresh =
     (case fresh of
        None \<Rightarrow> stored
      | Some f \<Rightarrow>
          if f = [] then stored
          else (let candidate = truncate_log cap f in if length candidate < length stored then stored else candidate))"

definition append_log_line :: "bytes \<Rightarrow> build \<Rightarrow> build" where
  "append_log_line line b =
     (let stored = b_log b; separator = (if stored \<noteq> [] \<and> last stored \<noteq> newline then [newline] else [])
      in b\<lparr>b_log := stored @ separator @ line\<rparr>)"

definition gate_failure_line :: bytes where
  "gate_failure_line =
     ''freepod: the build could not start because its network isolation was not'' @
     '' ready in time. This is a platform problem, not your code; start the build again.'' @ [newline]"

text \<open>\<^verbatim>\<open>re.search\<close>: the first position at which a pattern matches.\<close>

fun search_from :: "(string \<Rightarrow> 'a option) \<Rightarrow> string \<Rightarrow> 'a option" where
  "search_from f s = (case f s of Some x \<Rightarrow> Some x | None \<Rightarrow> (case s of [] \<Rightarrow> None | _ # t \<Rightarrow> search_from f t))"

declare search_from.simps [simp del]

definition after_lit :: "string \<Rightarrow> string \<Rightarrow> string option" where
  "after_lit p s = (if starts_with s p then Some (drop (length p) s) else None)"

text \<open>\<^verbatim>\<open>([^...]+)\<close>: the longest non-empty run, and what follows it.\<close>

definition run_of :: "(char \<Rightarrow> bool) \<Rightarrow> string \<Rightarrow> (string \<times> string) option" where
  "run_of P s = (let r = takeWhile P s in if r = [] then None else Some (r, drop (length r) s))"

definition quoted_run :: "string \<Rightarrow> (string \<times> string) option" where
  "quoted_run s = run_of (\<lambda>c. c \<noteq> CHR 0x22) s"

definition emptydir_eviction :: "string \<Rightarrow> (string \<times> string) option" where
  "emptydir_eviction =
     search_from (\<lambda>s.
       Option.bind (after_lit (''Usage of EmptyDir volume '' @ [CHR 0x22]) s) (\<lambda>s.
       Option.bind (quoted_run s) (\<lambda>(volume, s).
       Option.bind (after_lit ([CHR 0x22] @ '' exceeds the limit '' @ [CHR 0x22]) s) (\<lambda>s.
       Option.bind (quoted_run s) (\<lambda>(limit, s).
         if starts_with s [CHR 0x22] then Some (volume, limit) else None)))))"

definition storage_eviction :: "string \<Rightarrow> string option" where
  "storage_eviction =
     search_from (\<lambda>s.
       Option.bind (case after_lit (''exceeded its local ephemeral storage limit '' @ [CHR 0x22]) s of
                      Some t \<Rightarrow> Some t | None \<Rightarrow> after_lit ''exceeds the total limit of containers '' s) (\<lambda>s.
         map_option fst (run_of (\<lambda>c. c \<notin> {CHR 0x22, CHR ''.'', CHR '' ''}) s)))"

definition node_eviction :: "string \<Rightarrow> bool" where
  "node_eviction s \<longleftrightarrow> contains_str ''The node was low on resource'' s \<or> contains_str ''The node had condition'' s"

definition eviction_log_line :: "string \<Rightarrow> bytes" where
  "eviction_log_line message =
     (case emptydir_eviction message of
        Some (volume, limit) \<Rightarrow>
          (let (what, remedy) =
                 (if volume = buildkit_volume
                  then (''wrote more than '' @ limit @ '' of image layers and build cache'', ''Install fewer or smaller dependencies'')
                  else if volume = work_volume
                  then (''grew its working copy of the project past '' @ limit, ''Make the project and what its build generates smaller'')
                  else (''used more than '' @ limit @ '' of build storage'', ''Make the build smaller''))
           in encode_utf8 (''freepod: the build was stopped because it '' @ what @ '', the most a build may use. '' @ remedy @
                '' and start the build again.'' @ [newline]))
      | None \<Rightarrow>
          (case storage_eviction message of
             Some limit \<Rightarrow>
               encode_utf8 (''freepod: the build was stopped because it used more than '' @ limit @
                 '' of disk space, the most a build may use. Make the build smaller and start it again.'' @ [newline])
           | None \<Rightarrow>
               if node_eviction message
               then ''freepod: the build was stopped because the machine running it ran short of resources.'' @
                    '' This is a platform problem, not your code; start the build again.'' @ [newline]
               else ''freepod: the build was stopped by the platform before it finished. Start the build again.'' @ [newline]))"

section \<open>The worker\<close>

record pass_result =
  pr_claimed :: "uuid list"
  pr_succeeded :: "uuid list"
  pr_failed :: "uuid list"
  pr_advanced :: nat

definition put_build :: "build \<Rightarrow> db \<Rightarrow> db" where
  "put_build b s = s\<lparr>db_builds := row_upd b_id (b_id b) (\<lambda>_. b) (db_builds s)\<rparr>"

definition finish :: "build_status \<Rightarrow> string option \<Rightarrow> time \<Rightarrow> build \<Rightarrow> unit act" where
  "finish st img now b = bindA (liftA (transition_to st img now b)) (\<lambda>b'. commitA (put_build b'))"

datatype build_verdict = Succeeded | Failed | Advanced

definition mirror_log :: "outside \<Rightarrow> build_settings \<Rightarrow> build \<Rightarrow> build act" where
  "mirror_log out bs b =
     bindA (read_log out bs (b_id b)) (\<lambda>fresh.
       let merged = merge_log (bs_log_max bs) (b_log b) fresh
       in if merged \<noteq> b_log b then thenA (commitA (put_build (b\<lparr>b_log := merged\<rparr>))) (retA (b\<lparr>b_log := merged\<rparr>)) else retA b)"

definition overdue :: "build_settings \<Rightarrow> time \<Rightarrow> build \<Rightarrow> bool" where
  "overdue bs now b \<longleftrightarrow>
     (case b_started_at b of None \<Rightarrow> False | Some t \<Rightarrow> t + 1000000 * (int (bs_deadline bs) + int (bs_grace bs)) < now)"

definition explain_failure :: "outside \<Rightarrow> build_settings \<Rightarrow> build \<Rightarrow> build act" where
  "explain_failure out bs b =
     bindA (read_gate_failure out bs (b_id b)) (\<lambda>gate.
       if gate \<noteq> None then retA (append_log_line gate_failure_line b)
       else bindA (read_eviction out bs (b_id b)) (\<lambda>ev.
         retA (case ev of None \<Rightarrow> b | Some m \<Rightarrow> append_log_line (eviction_log_line m) b)))"

definition settle_job :: "outside \<Rightarrow> build_settings \<Rightarrow> time \<Rightarrow> build \<Rightarrow> string \<Rightarrow> json \<Rightarrow> build_verdict act" where
  "settle_job out bs now b jid job =
     bindA (liftA (job_is_complete job)) (\<lambda>complete.
       if complete then
         bindA (read_termination_message out bs (b_id b)) (\<lambda>message.
           (case parse_image out message of
              Some img \<Rightarrow> thenA (finish BSucceeded (Some img) now b) (retA Succeeded)
            | None \<Rightarrow> thenA (finish BFailed None now b) (retA Failed)))
       else
         bindA (liftA (job_is_failed job)) (\<lambda>failed.
           if failed then
             bindA (explain_failure out bs b) (\<lambda>b.
             bindA (read_termination_message out bs (b_id b)) (\<lambda>_.
             thenA (finish BFailed None now b) (retA Failed)))
           else if overdue bs now b then
             thenA (delete_job out bs jid) (thenA (finish BFailed None now b) (retA Failed))
           else retA Advanced))"

definition advance_build :: "outside \<Rightarrow> build_settings \<Rightarrow> time \<Rightarrow> build \<Rightarrow> build_verdict act" where
  "advance_build out bs now b0 =
     bindA (mirror_log out bs b0) (\<lambda>b.
       (case b_job_id b of
          None \<Rightarrow>
            thenA (delete_job out bs (job_name (b_id b))) (thenA (finish BFailed None now b) (retA Failed))
        | Some jid \<Rightarrow>
            bindA (get_job out bs jid) (\<lambda>job.
              (case job of
                 None \<Rightarrow> thenA (finish BFailed None now b) (retA Failed)
               | Some j \<Rightarrow> settle_job out bs now b jid j))))"

definition counted :: "uuid \<Rightarrow> build_verdict \<Rightarrow> pass_result \<Rightarrow> pass_result" where
  "counted i v r =
     (case v of
        Succeeded \<Rightarrow> r\<lparr>pr_succeeded := pr_succeeded r @ [i]\<rparr>
      | Failed \<Rightarrow> r\<lparr>pr_failed := pr_failed r @ [i]\<rparr>
      | Advanced \<Rightarrow> r\<lparr>pr_advanced := Suc (pr_advanced r)\<rparr>)"

fun advance_all :: "outside \<Rightarrow> build_settings \<Rightarrow> time \<Rightarrow> build list \<Rightarrow> pass_result \<Rightarrow> pass_result act" where
  "advance_all out bs now [] r = retA r"
| "advance_all out bs now (b # rest) r =
     bindA (catchA (bindA (advance_build out bs now b) (\<lambda>v. retA (counted (b_id b) v r))) (\<lambda>_. retA r))
       (advance_all out bs now rest)"

definition running_count :: "db \<Rightarrow> nat" where
  "running_count s = length (filter (\<lambda>b. b_status b = BRunning) (db_builds s))"

definition claim_build :: "time \<Rightarrow> build \<Rightarrow> build" where
  "claim_build now b = b\<lparr>b_status := BRunning, b_started_at := Some now\<rparr>"

definition claim_next_build :: "time \<Rightarrow> build option act" where
  "claim_next_build now =
     bindA (readA (\<lambda>s. first_by (\<lambda>b. (b_created_at b, b_id b)) (filter (\<lambda>b. b_status b = BQueued) (db_builds s)))) (\<lambda>found.
       (case found of
          None \<Rightarrow> retA None
        | Some b \<Rightarrow> thenA (commitA (put_build (claim_build now b))) (retA (Some (claim_build now b)))))"

definition start_build :: "reg_crypto \<Rightarrow> outside \<Rightarrow> build_settings \<Rightarrow> build \<Rightarrow> unit act" where
  "start_build cr out bs b =
     bindA (bindA (readA (\<lambda>s. build_owner_id s b)) liftA) (\<lambda>owner.
     bindA (liftA (artifact_download_url (bs_store bs) owner (b_artifact b))) (\<lambda>url.
     bindA (nowA out) (\<lambda>now. bindA (tokenA out) (\<lambda>jti.
     bindA (liftA (build_job_manifest cr bs now jti (b_id b) owner url)) (\<lambda>manifest.
     thenA (create_job out bs manifest)
       (commitA (put_build (b\<lparr>b_job_id := Some (job_name (b_id b))\<rparr>))))))))"

text \<open>The claim loop: \<open>fuel\<close> bounds its rounds, and the limit itself is always enough.\<close>

fun claim_builds :: "reg_crypto \<Rightarrow> outside \<Rightarrow> build_settings \<Rightarrow> time \<Rightarrow> nat \<Rightarrow> pass_result \<Rightarrow> pass_result act" where
  "claim_builds cr out bs now 0 r = retA r"
| "claim_builds cr out bs now (Suc fuel) r =
     bindA (readA running_count) (\<lambda>n.
       if n \<ge> bs_max_in_flight bs then retA r
       else bindA (claim_next_build now) (\<lambda>claimed.
         (case claimed of
            None \<Rightarrow> retA r
          | Some b \<Rightarrow>
              bindA (catchA (thenA (start_build cr out bs b) (retA True)) (\<lambda>_. retA False)) (\<lambda>ok.
                if ok then claim_builds cr out bs now fuel (r\<lparr>pr_claimed := pr_claimed r @ [b_id b]\<rparr>) else retA r))))"

definition start_order :: "build \<Rightarrow> nat \<times> time" where
  "start_order b = (case b_started_at b of Some t \<Rightarrow> (0, t) | None \<Rightarrow> (1, 0))"

definition run_pass :: "reg_crypto \<Rightarrow> outside \<Rightarrow> build_settings \<Rightarrow> time \<Rightarrow> pass_result act" where
  "run_pass cr out bs now =
     bindA (readA (\<lambda>s. sort_key start_order (filter (\<lambda>b. b_status b = BRunning) (db_builds s)))) (\<lambda>running.
     bindA (advance_all out bs now running \<lparr>pr_claimed = [], pr_succeeded = [], pr_failed = [], pr_advanced = 0\<rparr>) (\<lambda>r.
       claim_builds cr out bs now (bs_max_in_flight bs) r))"

section \<open>The life of a build\<close>

text \<open>
  The specification the requests and the worker implement: the steps one build may take. The parameter
  is the cap of the log; only the line that explains a failure may go past it.
\<close>

inductive life :: "nat \<Rightarrow> build \<Rightarrow> build \<Rightarrow> bool" for cap :: nat where
  claimed: "b_status b = BQueued \<Longrightarrow> life cap b (b\<lparr>b_status := BRunning, b_started_at := Some now\<rparr>)"
| job_recorded: "b_status b = BRunning \<Longrightarrow> life cap b (b\<lparr>b_job_id := Some (job_name (b_id b))\<rparr>)"
| logged: "b_status b = BRunning \<Longrightarrow> length (b_log b) \<le> length l \<Longrightarrow> length l \<le> cap \<Longrightarrow> life cap b (b\<lparr>b_log := l\<rparr>)"
| succeeded: "b_status b = BRunning \<Longrightarrow> img \<noteq> [] \<Longrightarrow>
    life cap b (b\<lparr>b_status := BSucceeded, b_finished_at := Some now, b_image := Some img\<rparr>)"
| failed: "b_status b = BRunning \<Longrightarrow> life cap b (b\<lparr>b_status := BFailed, b_finished_at := Some now, b_log := b_log b @ line\<rparr>)"

inductive_cases life_E: "life cap b b'"

inductive_simps life_from_terminal: "life cap (b\<lparr>b_status := BSucceeded\<rparr>) b'"

lemma life_keeps: "life cap b b' \<Longrightarrow> b_id b' = b_id b \<and> b_dep b' = b_dep b \<and> b_artifact b' = b_artifact b \<and> b_created_at b' = b_created_at b"
  by (auto elim: life_E)

lemma life_transition: "life cap b b' \<Longrightarrow> b_status b' = b_status b \<or> can_transition (b_status b) (b_status b')"
  by (auto elim!: life_E simp: can_transition_def build_transitions_def)

lemma life_terminal: "life cap b b' \<Longrightarrow> \<not> is_terminal (b_status b)"
  by (auto elim!: life_E simp: is_terminal_def builds_terminal_def)

abbreviation lives :: "nat \<Rightarrow> build \<Rightarrow> build \<Rightarrow> bool" where
  "lives cap \<equiv> (life cap)\<^sup>*\<^sup>*"

lemma lives_keeps: "lives cap b b' \<Longrightarrow> b_id b' = b_id b \<and> b_dep b' = b_dep b \<and> b_artifact b' = b_artifact b \<and> b_created_at b' = b_created_at b"
  by (induction rule: rtranclp_induct) (auto dest: life_keeps)

lemma lives_terminal: "lives cap b b' \<Longrightarrow> is_terminal (b_status b) \<Longrightarrow> b' = b"
  by (erule converse_rtranclpE) (auto dest: life_terminal)

lemma lives_open: "lives cap b b' \<Longrightarrow> build_open b' \<Longrightarrow> build_open b"
  by (induction rule: rtranclp_induct)
    (auto dest!: life_transition simp: build_open_def builds_open_def can_transition_def build_transitions_def split: build_status.splits)

text \<open>What a row says of itself at each status.\<close>

definition build_ok :: "nat \<Rightarrow> build \<Rightarrow> bool" where
  "build_ok cap b \<longleftrightarrow>
     (b_status b = BQueued \<longrightarrow> b_started_at b = None \<and> b_job_id b = None \<and> b_log b = []) \<and>
     (b_status b \<noteq> BQueued \<longrightarrow> b_started_at b \<noteq> None) \<and>
     (is_terminal (b_status b) \<longleftrightarrow> b_finished_at b \<noteq> None) \<and>
     (b_status b = BSucceeded \<longleftrightarrow> b_image b \<noteq> None) \<and> b_image b \<noteq> Some [] \<and> b_status b \<noteq> BCanceled \<and>
     (b_status b \<noteq> BFailed \<longrightarrow> length (b_log b) \<le> cap)"

lemma life_ok: "life cap b b' \<Longrightarrow> build_ok cap b \<Longrightarrow> build_ok cap b'"
  by (induction rule: life.induct) (simp_all add: build_ok_def is_terminal_def builds_terminal_def)

lemma lives_ok: "lives cap b b' \<Longrightarrow> build_ok cap b \<Longrightarrow> build_ok cap b'"
  by (induction rule: rtranclp_induct) (auto dest: life_ok)

lemma life_log_grows: "life cap b b' \<Longrightarrow> length (b_log b) \<le> length (b_log b')"
  by (auto elim!: life_E)

lemma new_build_ok: "build_ok cap (new_build i now d a)"
  by (simp add: build_ok_def new_build_def is_terminal_def builds_terminal_def)

section \<open>Evolution of the table\<close>

definition evolves :: "nat \<Rightarrow> db \<Rightarrow> db \<Rightarrow> bool" where
  "evolves cap s s' \<longleftrightarrow> s' = s\<lparr>db_builds := db_builds s'\<rparr> \<and> list_all2 (lives cap) (db_builds s) (db_builds s')"

lemma evolves_refl [simp]: "evolves cap s s"
  by (simp add: evolves_def list.rel_refl)

lemma evolves_trans: "evolves cap s t \<Longrightarrow> evolves cap t u \<Longrightarrow> evolves cap s u"
proof -
  assume a: "evolves cap s t" "evolves cap t u"
  have "list_all2 (lives cap) (db_builds s) (db_builds u)"
    by (rule list_all2_trans[of "lives cap" "lives cap" "lives cap" _ "db_builds t"])
      (use a in \<open>simp_all add: evolves_def\<close>)
  moreover obtain bs cs where "t = s\<lparr>db_builds := bs\<rparr>" "u = t\<lparr>db_builds := cs\<rparr>" using a unfolding evolves_def by blast
  then have "u = s\<lparr>db_builds := db_builds u\<rparr>" by simp
  ultimately show ?thesis by (simp add: evolves_def)
qed

lemma lives_ids: "list_all2 (lives cap) xs ys \<Longrightarrow> map b_id ys = map b_id xs"
  by (induction rule: list_all2_induct) (auto dest: lives_keeps)

lemma evolves_ids: "evolves cap s s' \<Longrightarrow> map b_id (db_builds s') = map b_id (db_builds s)"
  unfolding evolves_def by (blast dest: lives_ids)

lemma evolves_put:
  assumes "keyed b_id (db_builds s)" "b \<in> set (db_builds s)" "lives cap b b'"
  shows "evolves cap s (put_build b' s)"
proof -
  have id: "b_id b' = b_id b" using lives_keeps[OF assms(3)] by simp
  have "list_all2 (lives cap) xs (row_upd b_id (b_id b) (\<lambda>_. b') xs)" if "set xs \<subseteq> set (db_builds s)" for xs
    using that
  proof (induction xs)
    case (Cons x xs)
    then have "b_id x = b_id b \<Longrightarrow> x = b" using keyed_unique[OF assms(1) _ assms(2)] by simp
    with Cons assms(3) show ?case by (auto simp: table_simps)
  qed (simp add: table_simps)
  then show ?thesis by (simp add: evolves_def put_build_def id)
qed

lemma put_build_same:
  assumes "keyed b_id (db_builds s)" "b \<in> set (db_builds s)"
  shows "put_build b s = s"
proof -
  have "row_upd b_id (b_id b) (\<lambda>_. b) (db_builds s) = db_builds s"
    by (rule row_upd_id) (use keyed_unique[OF assms] in simp)
  then show ?thesis by (simp add: put_build_def)
qed

lemma put_build_twice [simp]: "b_id b' = b_id b \<Longrightarrow> put_build b' (put_build b s) = put_build b' s"
  by (simp add: put_build_def row_upd_def o_def if_distrib[of b_id] cong: if_cong)

lemma put_build_builds: "db_builds (put_build b s) = row_upd b_id (b_id b) (\<lambda>_. b) (db_builds s)"
  by (simp add: put_build_def)

section \<open>What the worker does to one row\<close>

lemma truncate_log_length: "length (truncate_log cap d) \<le> cap"
  by (simp add: truncate_log_def Let_def)

lemma merge_log_cases: "merge_log cap stored fresh = stored \<or> length stored \<le> length (merge_log cap stored fresh) \<and> length (merge_log cap stored fresh) \<le> cap"
  using truncate_log_length[of cap] by (auto simp: merge_log_def Let_def not_less split: option.split)

definition grown :: "build \<Rightarrow> build \<Rightarrow> bool" where
  "grown b c \<longleftrightarrow> (\<exists>l. c = b\<lparr>b_log := b_log b @ l\<rparr>)"

lemma append_log_line_grows: "grown b (append_log_line line b)"
  by (auto simp: grown_def append_log_line_def Let_def)

lemma build_grown_refl: "grown b b"
  by (auto simp: grown_def intro: exI[of _ "[]"])

text \<open>The row \<open>b\<close> stands in the table \<open>s\<close> for its own id.\<close>

abbreviation holding :: "db \<Rightarrow> build \<Rightarrow> world \<Rightarrow> bool" where
  "holding s b w \<equiv> w_db w = put_build b s"

lemma keeps_holding: "keeps_db m \<Longrightarrow> runs (holding s b) m (\<lambda>_. holding s b) (\<lambda>_. holding s b)"
  by (auto simp: runs_def split: prod.split sum.split dest: keeps_dbD)

lemma runs_finish:
  assumes "transition_to st img now c = Inr b'"
  shows "runs (holding s b) (finish st img now c) (\<lambda>_ w. w_db w = put_build b' (put_build b s)) (\<lambda>_ _. False)"
  using assms by (simp add: finish_def runs_def act_simps bindA_def)

text \<open>A running row after the log has been mirrored.\<close>

definition mirrored :: "nat \<Rightarrow> build \<Rightarrow> build \<Rightarrow> bool" where
  "mirrored cap b b' \<longleftrightarrow> lives cap b b' \<and> (\<exists>l. b' = b\<lparr>b_log := l\<rparr>)"

lemma mirrored_refl: "mirrored cap b b"
proof -
  have "b = b\<lparr>b_log := b_log b\<rparr>" by simp
  then show ?thesis unfolding mirrored_def by blast
qed

lemma runs_mirror:
  assumes "b_status b = BRunning"
  shows "runs (holding s b) (mirror_log out bs b) (\<lambda>b' w. mirrored (bs_log_max bs) b b' \<and> holding s b' w) (\<lambda>_ _. False)"
proof -
  note m = mirrored_refl
  have step: "mirrored (bs_log_max bs) b (b\<lparr>b_log := merge_log (bs_log_max bs) (b_log b) fresh\<rparr>)" for fresh
    using merge_log_cases[of "bs_log_max bs" "b_log b" fresh]
  proof
    assume "merge_log (bs_log_max bs) (b_log b) fresh = b_log b"
    then show ?thesis using m by simp
  next
    assume "length (b_log b) \<le> length (merge_log (bs_log_max bs) (b_log b) fresh) \<and>
      length (merge_log (bs_log_max bs) (b_log b) fresh) \<le> bs_log_max bs"
    with assms show ?thesis unfolding mirrored_def by (blast intro: r_into_rtranclp logged)
  qed
  show ?thesis
    unfolding mirror_log_def
    by (rule runs_bind[where R = "\<lambda>_. holding s b"])
      (use m step in \<open>auto simp: read_log_def runs_def runA_def act_simps bindA_def Let_def split: prod.split sum.split\<close>)
qed

text \<open>How a row may stand when its advance is over, by the verdict.\<close>

fun settled :: "build_settings \<Rightarrow> time \<Rightarrow> build \<Rightarrow> build_verdict \<Rightarrow> build \<Rightarrow> bool" where
  "settled bs now b Succeeded b' \<longleftrightarrow> b_status b' = BSucceeded \<and> b_finished_at b' = Some now"
| "settled bs now b Failed b' \<longleftrightarrow> b_status b' = BFailed \<and> b_finished_at b' = Some now"
| "settled bs now b Advanced b' \<longleftrightarrow> mirrored (bs_log_max bs) b b' \<and> b_job_id b \<noteq> None \<and> \<not> overdue bs now b"

definition outcome :: "build_settings \<Rightarrow> time \<Rightarrow> db \<Rightarrow> build \<Rightarrow> build_verdict \<Rightarrow> world \<Rightarrow> bool" where
  "outcome bs now s b v w \<longleftrightarrow> (\<exists>b'. lives (bs_log_max bs) b b' \<and> settled bs now b v b' \<and> holding s b' w)"

definition interrupted :: "outside \<Rightarrow> build_settings \<Rightarrow> db \<Rightarrow> build \<Rightarrow> error \<Rightarrow> world \<Rightarrow> bool" where
  "interrupted out bs s b e w \<longleftrightarrow> \<not> cluster_ok out \<and> (\<exists>b'. mirrored (bs_log_max bs) b b' \<and> holding s b' w)"

lemma runs_fail_build:
  assumes b: "b_status b0 = BRunning" "mirrored (bs_log_max bs) b0 b" "grown b c"
  shows "runs (holding s b) (thenA (finish BFailed None now c) (retA Failed)) (outcome bs now s b0) (interrupted out bs s b0)"
proof -
  obtain l where c: "c = b\<lparr>b_log := b_log b @ l\<rparr>" using b(3) by (auto simp: grown_def)
  obtain l0 where b0: "b = b0\<lparr>b_log := l0\<rparr>" "lives (bs_log_max bs) b0 b" using b(2) by (auto simp: mirrored_def)
  have run: "b_status b = BRunning" using b(1) b0(1) by simp
  have t: "transition_to BFailed None now c = Inr (b\<lparr>b_status := BFailed, b_finished_at := Some now, b_log := b_log b @ l\<rparr>)"
    using run by (simp add: transition_to_def can_transition_def build_transitions_def is_terminal_def builds_terminal_def c)
  have "lives (bs_log_max bs) b0 (b\<lparr>b_status := BFailed, b_finished_at := Some now, b_log := b_log b @ l\<rparr>)"
    using b0(2) failed[OF run] by (rule rtranclp.rtrancl_into_rtrancl)
  then have o: "outcome bs now s b0 Failed w"
    if "holding s (b\<lparr>b_status := BFailed, b_finished_at := Some now, b_log := b_log b @ l\<rparr>) w" for w
    using that unfolding outcome_def by (intro exI conjI) (assumption, simp_all)
  show ?thesis
    by (rule runs_bind[where R = "\<lambda>_. holding s (b\<lparr>b_status := BFailed, b_finished_at := Some now, b_log := b_log b @ l\<rparr>)"],
        rule runs_weaken[OF runs_finish[OF t]]) (use o in \<open>auto simp: runs_def act_simps\<close>)
qed

lemma runs_succeed_build:
  assumes b: "b_status b0 = BRunning" "mirrored (bs_log_max bs) b0 b" and img: "img \<noteq> []"
  shows "runs (holding s b) (thenA (finish BSucceeded (Some img) now b) (retA Succeeded)) (outcome bs now s b0) (interrupted out bs s b0)"
proof -
  obtain l0 where b0: "b = b0\<lparr>b_log := l0\<rparr>" "lives (bs_log_max bs) b0 b" using b(2) by (auto simp: mirrored_def)
  have run: "b_status b = BRunning" using b(1) b0(1) by simp
  let ?b = "b\<lparr>b_status := BSucceeded, b_finished_at := Some now, b_image := Some img\<rparr>"
  have t: "transition_to BSucceeded (Some img) now b = Inr ?b"
    using run img by (simp add: transition_to_def can_transition_def build_transitions_def is_terminal_def builds_terminal_def)
  have "lives (bs_log_max bs) b0 ?b" using b0(2) succeeded[OF run img] by (rule rtranclp.rtrancl_into_rtrancl)
  then have o: "outcome bs now s b0 Succeeded w" if "holding s ?b w" for w
    using that unfolding outcome_def by (intro exI conjI) (assumption, simp_all)
  show ?thesis
    by (rule runs_bind[where R = "\<lambda>_. holding s ?b"],
        rule runs_weaken[OF runs_finish[OF t]]) (use o in \<open>auto simp: runs_def act_simps\<close>)
qed

lemma runs_quiet:
  assumes "careful out m" "mirrored (bs_log_max bs) b0 b" "\<And>x. runs (holding s b) (f x) Q (interrupted out bs s b0)"
  shows "runs (holding s b) (bindA m f) Q (interrupted out bs s b0)"
proof -
  have "runs (holding s b) m (\<lambda>_. holding s b) (interrupted out bs s b0)"
    unfolding runs_def
  proof (intro allI impI)
    fix w assume w: "holding s b w"
    obtain r w' where m: "m w = (r, w')" by (cases "m w")
    with assms(1) w have "holding s b w'" unfolding careful_def by (metis keeps_dbD)
    moreover have "\<not> cluster_ok out" if "r = Inl e" for e
      using assms(1) m that unfolding careful_def returns_def by (metis Inl_Inr_False prod.inject)
    ultimately show "case m w of (Inl e, w') \<Rightarrow> interrupted out bs s b0 e w' | (Inr x, w') \<Rightarrow> holding s b w'"
      using m assms(2) by (auto simp: interrupted_def split: sum.split)
  qed
  from runs_bind[OF this] assms(3) show ?thesis by blast
qed

lemma runs_explained:
  assumes b: "b_status b0 = BRunning" "mirrored (bs_log_max bs) b0 b"
    and k: "\<And>c. grown b c \<Longrightarrow> runs (holding s b) (k c) Q (interrupted out bs s b0)"
  shows "runs (holding s b) (bindA (explain_failure out bs b) k) Q (interrupted out bs s b0)"
proof -
  note same = build_grown_refl[of b]
  have a: "bindA (bindA m f) k = bindA m (\<lambda>x. bindA (f x) k)" for m :: "'z act" and f :: "'z \<Rightarrow> build act"
    by (rule ext) (simp add: bindA_def split: prod.split sum.split)
  have r: "bindA (retA x) k = k x" for x by (rule ext) (simp add: bindA_def retA_def)
  have ev: "runs (holding s b) (bindA (bindA (read_eviction out bs (b_id b)) (\<lambda>ev.
      retA (case ev of None \<Rightarrow> b | Some m \<Rightarrow> append_log_line (eviction_log_line m) b))) k) Q (interrupted out bs s b0)"
    unfolding a r
    by (rule runs_quiet[OF _ b(2)]) (auto intro!: k simp: same append_log_line_grows split: option.split)
  show ?thesis
    unfolding explain_failure_def a
    by (rule runs_quiet[OF _ b(2)]) (auto simp: r intro!: ev k append_log_line_grows)
qed

lemma parse_image_nonempty: "parse_image out m \<noteq> Some []"
  by (simp add: parse_image_def split: option.split json.split)

lemma runs_settle:
  assumes b: "b_status b0 = BRunning" "mirrored (bs_log_max bs) b0 b" "b_job_id b0 \<noteq> None" and job: "cluster_ok out \<longrightarrow> job_shape job"
  shows "runs (holding s b) (settle_job out bs now b jid job) (outcome bs now s b0) (interrupted out bs s b0)"
proof -
  have due: "overdue bs now b = overdue bs now b0" using b(2) by (auto simp: mirrored_def overdue_def)
  note same = build_grown_refl[of b]
  have counts: "careful out (liftA (job_is_complete job))" "careful out (liftA (job_is_failed job))"
    using job by (auto simp: careful_def job_is_complete_def job_is_failed_def job_count_readable intro!: returns_lift)
  have adv: "runs (holding s b) (retA Advanced) (outcome bs now s b0) (interrupted out bs s b0)" if "\<not> overdue bs now b"
    using that b unfolding outcome_def due mirrored_def[abs_def] by (auto simp: runs_def act_simps mirrored_def)
  show ?thesis
    unfolding settle_job_def
    by (auto intro!: runs_quiet[OF _ b(2)] runs_succeed_build[OF b(1,2)] runs_fail_build[OF b(1,2)] adv runs_explained[OF b(1,2)] same counts
        simp: parse_image_nonempty split: option.split)
qed

lemma runs_advance:
  assumes b: "b_status b0 = BRunning"
  shows "runs (holding s b0) (advance_build out bs now b0) (outcome bs now s b0) (interrupted out bs s b0)"
proof -
  note same = build_grown_refl
  have k: "runs (\<lambda>w. mirrored (bs_log_max bs) b0 b \<and> holding s b w)
       (case b_job_id b of
          None \<Rightarrow> thenA (delete_job out bs (job_name (b_id b))) (thenA (finish BFailed None now b) (retA Failed))
        | Some jid \<Rightarrow> bindA (get_job out bs jid) (\<lambda>job.
              case job of None \<Rightarrow> thenA (finish BFailed None now b) (retA Failed) | Some j \<Rightarrow> settle_job out bs now b jid j))
       (outcome bs now s b0) (interrupted out bs s b0)" for b
  proof (cases "mirrored (bs_log_max bs) b0 b")
    case True
    then have jid: "b_job_id b = b_job_id b0" by (auto simp: mirrored_def)
    have got: "runs (holding s b) (get_job out bs jid)
        (\<lambda>job w. (\<forall>j. job = Some j \<longrightarrow> cluster_ok out \<longrightarrow> job_shape j) \<and> holding s b w) (interrupted out bs s b0)" for jid
      by (auto simp: get_job_def runs_def bindA_def runA_def act_simps dest: cluster_ok_job split: option.splits json.splits)
    have "runs (\<lambda>w. (\<forall>j. job = Some j \<longrightarrow> cluster_ok out \<longrightarrow> job_shape j) \<and> holding s b w)
        (case job of None \<Rightarrow> thenA (finish BFailed None now b) (retA Failed) | Some j \<Rightarrow> settle_job out bs now b jid j)
        (outcome bs now s b0) (interrupted out bs s b0)" if "b_job_id b0 \<noteq> None" for job jid
    proof (cases "\<forall>j. job = Some j \<longrightarrow> cluster_ok out \<longrightarrow> job_shape j")
      case shaped: True
      then have "runs (holding s b) (case job of None \<Rightarrow> thenA (finish BFailed None now b) (retA Failed) | Some j \<Rightarrow> settle_job out bs now b jid j)
          (outcome bs now s b0) (interrupted out bs s b0)"
        using runs_fail_build[OF b True same] runs_settle[OF b True that] by (auto split: option.split)
      with shaped show ?thesis by (simp add: runs_def)
    qed (auto simp: runs_def)
    from runs_bind[OF got this] have "runs (holding s b)
       (case b_job_id b of
          None \<Rightarrow> thenA (delete_job out bs (job_name (b_id b))) (thenA (finish BFailed None now b) (retA Failed))
        | Some jid \<Rightarrow> bindA (get_job out bs jid) (\<lambda>job.
              case job of None \<Rightarrow> thenA (finish BFailed None now b) (retA Failed) | Some j \<Rightarrow> settle_job out bs now b jid j))
       (outcome bs now s b0) (interrupted out bs s b0)"
      by (auto intro!: runs_quiet[OF _ True] runs_fail_build[OF b True same] simp: jid split: option.split)
    with True show ?thesis by (simp add: runs_def)
  next
    case False
    then show ?thesis by (simp add: runs_def)
  qed
  have m: "runs (holding s b0) (mirror_log out bs b0) (\<lambda>b w. mirrored (bs_log_max bs) b0 b \<and> holding s b w) (interrupted out bs s b0)"
    by (rule runs_weaken[OF runs_mirror[OF b]]) simp_all
  show ?thesis unfolding advance_build_def by (rule runs_bind[OF m k])
qed

section \<open>A whole pass\<close>

text \<open>The table has evolved from \<open>s\<close>; its ids are unique.\<close>

definition evolving :: "nat \<Rightarrow> db \<Rightarrow> world \<Rightarrow> bool" where
  "evolving cap s w \<longleftrightarrow> keyed b_id (db_builds s) \<and> evolves cap s (w_db w)"

lemma evolving_keyed: "evolving cap s w \<Longrightarrow> keyed b_id (db_builds (w_db w))"
  using evolves_ids[of cap s "w_db w"] by (simp add: evolving_def)

lemma evolving_put:
  assumes "evolving cap s w" "b \<in> set (db_builds (w_db w))" "lives cap b b'"
  shows "evolving cap s (w\<lparr>w_db := put_build b' (w_db w)\<rparr>)"
proof -
  have "evolves cap s (put_build b' (w_db w))"
    by (rule evolves_trans[OF _ evolves_put[OF evolving_keyed[OF assms(1)] assms(2,3)]])
      (use assms(1) in \<open>simp add: evolving_def\<close>)
  with assms(1) show ?thesis by (simp add: evolving_def)
qed


lemma advance_one:
  assumes "advance_build out bs now b w = (r, w')" "b \<in> set (db_builds (w_db w))" "keyed b_id (db_builds (w_db w))" "b_status b = BRunning"
  obtains b' where "lives (bs_log_max bs) b b'" "w_db w' = put_build b' (w_db w)"
    "\<forall>v. r = Inr v \<longrightarrow> settled bs now b v b'" "\<forall>e. r = Inl e \<longrightarrow> mirrored (bs_log_max bs) b b' \<and> \<not> cluster_ok out"
proof -
  have h: "holding (w_db w) b w" by (simp add: put_build_same assms(2,3))
  show thesis
  proof (cases r)
    case (Inl e)
    from runs_Inl[OF runs_advance[OF assms(4)] h] assms(1) Inl have "interrupted out bs (w_db w) b e w'" by blast
    then obtain b' where "mirrored (bs_log_max bs) b b'" "w_db w' = put_build b' (w_db w)" "\<not> cluster_ok out" by (auto simp: interrupted_def)
    with that[of b'] Inl show thesis by (simp add: mirrored_def)
  next
    case (Inr v)
    from runs_Inr[OF runs_advance[OF assms(4)] h] assms(1) Inr have "outcome bs now (w_db w) b v w'" by blast
    with that Inr show thesis by (auto simp: outcome_def)
  qed
qed

lemma set_put_build:
  assumes "keyed b_id (db_builds s)" "b \<in> set (db_builds s)" "b_id b' = b_id b"
  shows "set (db_builds (put_build b' s)) = insert b' (set (db_builds s) - {b})"
proof -
  have "{r \<in> set (db_builds s). b_id r \<noteq> b_id b} = set (db_builds s) - {b}" "{r \<in> set (db_builds s). b_id r = b_id b} = {b}"
    using keyed_unique[OF assms(1) _ assms(2)] assms(2) by auto
  then show ?thesis by (simp add: put_build_builds set_row_upd assms(3) image_constant_conv)
qed

lemma running_put_le:
  assumes "keyed b_id (db_builds s)" "b \<in> set (db_builds s)" "b_status b = BRunning" "b_id c = b_id b"
  shows "running_count (put_build c s) \<le> running_count s"
proof -
  have "length (filter P (row_upd b_id k (\<lambda>_. c) xs)) \<le> length (filter P xs)"
    if "\<And>x. x \<in> set xs \<Longrightarrow> b_id x = k \<Longrightarrow> P x" for P k and xs :: "build list"
    using that by (induction xs) (auto simp: table_simps)
  note shrinks = this
  have "b_status x = BRunning" if "x \<in> set (db_builds s)" "b_id x = b_id b" for x
    using keyed_unique[OF assms(1) that(1) assms(2) that(2)] assms(3) by simp
  then show ?thesis unfolding running_count_def put_build_builds assms(4) by (rule shrinks)
qed

lemma advance_all_steps:
  assumes "advance_all out bs now rest r w = (r', w')" "evolving (bs_log_max bs) s w" "set rest \<subseteq> set (db_builds (w_db w))"
    "keyed b_id rest" "\<forall>b \<in> set rest. b_status b = BRunning"
  shows "evolving (bs_log_max bs) s w' \<and> (\<exists>x. r' = Inr x) \<and> running_count (w_db w') \<le> running_count (w_db w) \<and>
    (\<forall>b \<in> set (db_builds (w_db w)). b \<notin> set rest \<longrightarrow> b \<in> set (db_builds (w_db w'))) \<and>
    (\<forall>b \<in> set rest. cluster_ok out \<longrightarrow> overdue bs now b \<longrightarrow>
       (\<exists>b' \<in> set (db_builds (w_db w')). b_id b' = b_id b \<and> is_terminal (b_status b') \<and> b_finished_at b' = Some now))"
  using assms
proof (induction rest arbitrary: r w)
  case Nil
  then show ?case by (auto simp: act_simps)
next
  case (Cons b rest)
  obtain v w1 where step: "advance_build out bs now b w = (v, w1)" by (cases "advance_build out bs now b w")
  obtain r1 where run: "advance_all out bs now rest r1 w1 = (r', w')"
    using Cons.prems(1) by (auto simp: step bindA_def catchA_def act_simps split: prod.splits sum.splits)
  have k: "keyed b_id (db_builds (w_db w))" using Cons.prems(2) by (rule evolving_keyed)
  have b: "b \<in> set (db_builds (w_db w))" "b_status b = BRunning" using Cons.prems by simp_all
  obtain b' where b': "lives (bs_log_max bs) b b'" "w_db w1 = put_build b' (w_db w)"
    "\<forall>x. v = Inr x \<longrightarrow> settled bs now b x b'" "\<forall>e. v = Inl e \<longrightarrow> mirrored (bs_log_max bs) b b' \<and> \<not> cluster_ok out"
    by (rule advance_one[OF step b(1) k b(2)])
  have id: "b_id b' = b_id b" using lives_keeps[OF b'(1)] by simp
  have rows: "set (db_builds (w_db w1)) = insert b' (set (db_builds (w_db w)) - {b})"
    unfolding b'(2) by (rule set_put_build[OF k b(1) id])
  have w1: "evolving (bs_log_max bs) s w1" using evolving_put[OF Cons.prems(2) b(1) b'(1)] b'(2) by (simp add: evolving_def)
  have nb: "b \<notin> set rest" "b' \<notin> set rest" using Cons.prems(4) id by (auto simp: image_iff)
  from Cons.IH[OF run w1] Cons.prems(3,4,5) nb rows
  have ih: "evolving (bs_log_max bs) s w' \<and> (\<exists>x. r' = Inr x) \<and> running_count (w_db w') \<le> running_count (w_db w1) \<and>
    (\<forall>b \<in> set (db_builds (w_db w1)). b \<notin> set rest \<longrightarrow> b \<in> set (db_builds (w_db w'))) \<and>
    (\<forall>b \<in> set rest. cluster_ok out \<longrightarrow> overdue bs now b \<longrightarrow>
       (\<exists>b' \<in> set (db_builds (w_db w')). b_id b' = b_id b \<and> is_terminal (b_status b') \<and> b_finished_at b' = Some now))"
    by auto
  have late: "is_terminal (b_status b') \<and> b_finished_at b' = Some now" if "cluster_ok out" "overdue bs now b"
  proof (cases v)
    case (Inl e)
    with b'(4) that show ?thesis by blast
  next
    case (Inr x)
    with b'(3) have "settled bs now b x b'" by blast
    with that show ?thesis by (cases x) (auto simp: is_terminal_def builds_terminal_def)
  qed
  have "b' \<in> set (db_builds (w_db w'))" using ih rows nb by blast
  moreover have "running_count (w_db w1) \<le> running_count (w_db w)" unfolding b'(2) by (rule running_put_le[OF k b id])
  ultimately show ?case using ih rows late id by auto
qed

lemma claim_step:
  assumes "claim_next_build now w = (r, w1)" "evolving cap s w"
  obtains "r = Inr None" "w1 = w" "\<forall>b \<in> set (db_builds (w_db w)). b_status b \<noteq> BQueued"
  | b where "r = Inr (Some (claim_build now b))" "b \<in> set (db_builds (w_db w))" "b_status b = BQueued"
    "w1 = w\<lparr>w_db := put_build (claim_build now b) (w_db w)\<rparr>" "lives cap b (claim_build now b)"
    "\<forall>q \<in> set (db_builds (w_db w)). b_status q = BQueued \<longrightarrow> (b_created_at b, b_id b) \<le> (b_created_at q, b_id q)"
proof (cases "first_by (\<lambda>b. (b_created_at b, b_id b)) (filter (\<lambda>b. b_status b = BQueued) (db_builds (w_db w)))")
  case None
  with assms(1) that(1) show thesis by (auto simp: claim_next_build_def bindA_def act_simps filter_empty_conv)
next
  case (Some b)
  have b: "b \<in> set (db_builds (w_db w))" "b_status b = BQueued" using first_by_in[OF Some] by simp_all
  have "lives cap b (claim_build now b)" unfolding claim_build_def by (rule r_into_rtranclp) (rule claimed[OF b(2)])
  moreover have "\<forall>q \<in> set (db_builds (w_db w)). b_status q = BQueued \<longrightarrow> (b_created_at b, b_id b) \<le> (b_created_at q, b_id q)"
    using first_by_least[OF Some] by simp
  moreover have "r = Inr (Some (claim_build now b))" "w1 = w\<lparr>w_db := put_build (claim_build now b) (w_db w)\<rparr>"
    using assms(1) Some by (auto simp: claim_next_build_def bindA_def act_simps)
  ultimately show thesis using that(2) b by blast
qed

lemma runs_start:
  assumes "b_status b = BRunning"
  shows "runs (holding s b) (start_build cr out bs b)
    (\<lambda>_. holding s (b\<lparr>b_job_id := Some (job_name (b_id b))\<rparr>)) (\<lambda>_. holding s b)"
proof -
  have c: "keeps_db m \<Longrightarrow> (\<And>x. runs (holding s b) (f x) Q (\<lambda>_. holding s b)) \<Longrightarrow> runs (holding s b) (bindA m f) Q (\<lambda>_. holding s b)"
    for m :: "'z act" and f :: "'z \<Rightarrow> unit act" and Q
    by (rule runs_bind[OF keeps_holding])
  show ?thesis
    unfolding start_build_def
    by (intro c) (auto simp: runs_def act_simps intro: keeps_db_bind)
qed

lemma start_step:
  assumes "start_build cr out bs (claim_build now b) w1 = (r, w2)" "evolving cap s w" "b \<in> set (db_builds (w_db w))"
    "lives cap b (claim_build now b)" "w1 = w\<lparr>w_db := put_build (claim_build now b) (w_db w)\<rparr>"
  shows "evolving cap s w2 \<and> (\<exists>j. w_db w2 = put_build ((claim_build now b)\<lparr>b_job_id := j\<rparr>) (w_db w))"
proof -
  let ?c = "claim_build now b"
  have c: "b_status ?c = BRunning" "b_id ?c = b_id b" by (simp_all add: claim_build_def)
  have h: "holding (w_db w) ?c w1" by (simp add: assms(5))
  have "\<exists>c'. (c' = ?c \<or> c' = ?c\<lparr>b_job_id := Some (job_name (b_id ?c))\<rparr>) \<and> holding (w_db w) c' w2"
  proof (cases r)
    case (Inl e)
    from runs_Inl[OF runs_start[OF c(1)] h] assms(1)[unfolded Inl] show ?thesis by blast
  next
    case (Inr u)
    from runs_Inr[OF runs_start[OF c(1)] h] assms(1)[unfolded Inr] show ?thesis by blast
  qed
  then obtain c' where c': "c' = ?c \<or> c' = ?c\<lparr>b_job_id := Some (job_name (b_id ?c))\<rparr>" "holding (w_db w) c' w2" by blast
  have "lives cap b c'"
    using c'(1) assms(4) job_recorded[OF c(1)] by (auto intro: rtranclp.rtrancl_into_rtrancl)
  from evolving_put[OF assms(2,3) this] c'(2) have "evolving cap s w2" by (simp add: evolving_def)
  moreover have "\<exists>j. c' = ?c\<lparr>b_job_id := j\<rparr>"
  proof -
    have "?c = ?c\<lparr>b_job_id := b_job_id ?c\<rparr>" by simp
    with c'(1) show ?thesis by metis
  qed
  ultimately show ?thesis using c'(2) by blast
qed

lemma running_put:
  assumes "keyed b_id (db_builds s)" "b \<in> set (db_builds s)" "b_status b = BQueued" "b_status c = BRunning" "b_id c = b_id b"
  shows "running_count (put_build c s) = Suc (running_count s)"
proof -
  have "length (filter (\<lambda>x. b_status x = BRunning) (row_upd b_id (b_id b) (\<lambda>_. c) xs)) =
      length (filter (\<lambda>x. b_status x = BRunning) xs) + (if b \<in> set xs then 1 else 0)"
    if "keyed b_id xs" "set xs \<subseteq> set (db_builds s)" for xs
    using that
  proof (induction xs)
    case (Cons x xs)
    show ?case
    proof (cases "x = b")
      case True
      with Cons.prems have "b_id b \<notin> b_id ` set xs" by auto
      then have "row_upd b_id (b_id b) (\<lambda>_. c) xs = xs" by (rule row_upd_absent)
      with True assms Cons.prems show ?thesis by (auto simp: table_simps)
    next
      case False
      with Cons.prems have "b_id x \<noteq> b_id b" using keyed_unique[OF assms(1) _ assms(2)] by auto
      with False Cons show ?thesis by (simp add: table_simps)
    qed
  qed (simp add: table_simps)
  from this[OF assms(1)] assms(2) show ?thesis by (simp add: running_count_def put_build_builds assms(5))
qed

lemma claim_builds_steps:
  assumes "claim_builds cr out bs now fuel r w = (r', w')" "evolving cap s w" 
  shows "evolving cap s w' \<and> (\<exists>x. r' = Inr x) \<and>
    running_count (w_db w') \<le> max (bs_max_in_flight bs) (running_count (w_db w)) \<and>
    (\<forall>b \<in> set (db_builds (w_db w)). b_status b \<noteq> BQueued \<longrightarrow> b \<in> set (db_builds (w_db w')))"
  using assms
proof (induction fuel arbitrary: r w)
  case 0
  then show ?case by (auto simp: act_simps)
next
  case (Suc fuel)
  show ?case
  proof (cases "bs_max_in_flight bs \<le> running_count (w_db w)")
    case True
    with Suc.prems show ?thesis by (auto simp: bindA_def act_simps)
  next
    case False
    obtain c w1 where claim: "claim_next_build now w = (c, w1)" by (cases "claim_next_build now w")
    from claim Suc.prems(2) show ?thesis
    proof (cases rule: claim_step)
      case 1
      with claim False Suc.prems show ?thesis by (auto simp: bindA_def act_simps)
    next
      case (2 b)
      obtain x w2 where start: "start_build cr out bs (claim_build now b) w1 = (x, w2)"
        by (cases "start_build cr out bs (claim_build now b) w1")
      from start_step[OF start Suc.prems(2) 2(2,5,4)] obtain j where j: "evolving cap s w2"
        "w_db w2 = put_build ((claim_build now b)\<lparr>b_job_id := j\<rparr>) (w_db w)" by blast
      have k: "keyed b_id (db_builds (w_db w))" using Suc.prems(2) by (rule evolving_keyed)
      have n: "running_count (w_db w2) = Suc (running_count (w_db w))"
        unfolding j(2) by (rule running_put[OF k 2(2,3)]) (simp_all add: claim_build_def)
      have rows: "set (db_builds (w_db w2)) = insert ((claim_build now b)\<lparr>b_job_id := j\<rparr>) (set (db_builds (w_db w)) - {b})"
        unfolding j(2) by (rule set_put_build[OF k 2(2)]) (simp add: claim_build_def)
      show ?thesis
      proof (cases x)
        case (Inl e)
        with claim 2 start False Suc.prems(1) have "r' = Inr r" "w' = w2"
          by (auto simp: bindA_def catchA_def act_simps)
        with j n rows 2(3) False show ?thesis by auto
      next
        case (Inr u)
        with claim 2 start False Suc.prems(1)
        have "claim_builds cr out bs now fuel (r\<lparr>pr_claimed := pr_claimed r @ [b_id (claim_build now b)]\<rparr>) w2 = (r', w')"
          by (auto simp: bindA_def catchA_def act_simps)
        from Suc.IH[OF this j(1)] n rows 2(3) False show ?thesis by auto
      qed
    qed
  qed
qed

text \<open>Every round adds a running build, so the limit is fuel enough.\<close>

lemma claim_builds_fuel:
  assumes "evolving cap s w" "bs_max_in_flight bs \<le> running_count (w_db w) + fuel"
  shows "claim_builds cr out bs now (fuel + extra) r w = claim_builds cr out bs now fuel r w"
  using assms
proof (induction fuel arbitrary: r w)
  case 0
  then show ?case by (cases extra) (simp_all add: bindA_def act_simps)
next
  case (Suc fuel)
  show ?case
  proof (cases "bs_max_in_flight bs \<le> running_count (w_db w)")
    case True
    then show ?thesis by (simp add: bindA_def act_simps)
  next
    case False
    obtain c w1 where claim: "claim_next_build now w = (c, w1)" by (cases "claim_next_build now w")
    from claim Suc.prems(1) show ?thesis
    proof (cases rule: claim_step)
      case 1
      with claim False show ?thesis by (simp add: bindA_def act_simps)
    next
      case (2 b)
      obtain x w2 where start: "start_build cr out bs (claim_build now b) w1 = (x, w2)"
        by (cases "start_build cr out bs (claim_build now b) w1")
      from start_step[OF start Suc.prems(1) 2(2,5,4)] obtain j where j: "evolving cap s w2"
        "w_db w2 = put_build ((claim_build now b)\<lparr>b_job_id := j\<rparr>) (w_db w)" by blast
      have "running_count (w_db w2) = Suc (running_count (w_db w))"
        unfolding j(2) by (rule running_put[OF evolving_keyed[OF Suc.prems(1)] 2(2,3)]) (simp_all add: claim_build_def)
      with Suc.prems(2) have "bs_max_in_flight bs \<le> running_count (w_db w2) + fuel" by simp
      from Suc.IH[OF j(1) this] claim 2(1) start False show ?thesis
        by (cases x) (simp_all add: bindA_def catchA_def act_simps)
    qed
  qed
qed

lemma run_pass_steps:
  assumes "run_pass cr out bs now w = (r, w')" "keyed b_id (db_builds (w_db w))"
  shows "evolves (bs_log_max bs) (w_db w) (w_db w') \<and> (\<exists>x. r = Inr x) \<and>
    running_count (w_db w') \<le> max (bs_max_in_flight bs) (running_count (w_db w)) \<and>
    (\<forall>b \<in> set (db_builds (w_db w)). b_status b = BRunning \<longrightarrow> cluster_ok out \<longrightarrow> overdue bs now b \<longrightarrow>
       (\<exists>b' \<in> set (db_builds (w_db w')). b_id b' = b_id b \<and> is_terminal (b_status b') \<and> b_finished_at b' = Some now))"
proof -
  let ?running = "sort_key start_order (filter (\<lambda>b. b_status b = BRunning) (db_builds (w_db w)))"
  let ?r0 = "\<lparr>pr_claimed = [], pr_succeeded = [], pr_failed = [], pr_advanced = 0\<rparr>"
  obtain x w1 where adv: "advance_all out bs now ?running ?r0 w = (x, w1)" by (cases "advance_all out bs now ?running ?r0 w")
  have start: "evolving (bs_log_max bs) (w_db w) w" using assms(2) by (simp add: evolving_def)
  have dist: "keyed b_id ?running"
  proof -
    have "distinct (filter (\<lambda>b. b_status b = BRunning) (db_builds (w_db w)))" using assms(2) by (simp add: distinct_map)
    then have "distinct ?running" by simp
    moreover have "inj_on b_id (set ?running)" using assms(2) by (auto simp: distinct_map inj_on_def)
    ultimately show ?thesis by (simp only: distinct_map)
  qed
  have a: "evolving (bs_log_max bs) (w_db w) w1 \<and> (\<exists>y. x = Inr y) \<and> running_count (w_db w1) \<le> running_count (w_db w) \<and>
    (\<forall>b \<in> set (db_builds (w_db w)). b \<notin> set ?running \<longrightarrow> b \<in> set (db_builds (w_db w1))) \<and>
    (\<forall>b \<in> set ?running. cluster_ok out \<longrightarrow> overdue bs now b \<longrightarrow>
       (\<exists>b' \<in> set (db_builds (w_db w1)). b_id b' = b_id b \<and> is_terminal (b_status b') \<and> b_finished_at b' = Some now))"
    by (rule advance_all_steps[OF adv start _ dist]) auto
  then obtain y where y: "x = Inr y" by blast
  have claim: "claim_builds cr out bs now (bs_max_in_flight bs) y w1 = (r, w')"
    using assms(1) adv by (simp add: run_pass_def bindA_def act_simps y)
  have c: "evolving (bs_log_max bs) (w_db w) w' \<and> (\<exists>x. r = Inr x) \<and>
    running_count (w_db w') \<le> max (bs_max_in_flight bs) (running_count (w_db w1)) \<and>
    (\<forall>b \<in> set (db_builds (w_db w1)). b_status b \<noteq> BQueued \<longrightarrow> b \<in> set (db_builds (w_db w')))"
    by (rule claim_builds_steps[OF claim]) (use a in blast)
  have "\<exists>b' \<in> set (db_builds (w_db w')). b_id b' = b_id b \<and> is_terminal (b_status b') \<and> b_finished_at b' = Some now"
    if "b \<in> set (db_builds (w_db w))" "b_status b = BRunning" "cluster_ok out" "overdue bs now b" for b
  proof -
    from that a have "\<exists>b' \<in> set (db_builds (w_db w1)). b_id b' = b_id b \<and> is_terminal (b_status b') \<and> b_finished_at b' = Some now"
      by simp
    with c show ?thesis by (metis is_terminal_def builds_terminal_def build_status.distinct(3,5,7) empty_iff list.set(1) set_ConsD)
  qed
  with a c show ?thesis by (auto simp: evolving_def)
qed

section \<open>The table as a whole\<close>

definition builds_ok :: "nat \<Rightarrow> db \<Rightarrow> bool" where
  "builds_ok cap s \<longleftrightarrow> keyed b_id (db_builds s) \<and> uq_open_build_per_artifact (db_builds s) \<and>
     (\<forall>b \<in> set (db_builds s). build_ok cap b \<and> get_dep s (b_dep b) \<noteq> None)"

lemma lives_one_open: "list_all2 (lives cap) xs ys \<Longrightarrow> one_open b_artifact build_open xs \<Longrightarrow> one_open b_artifact build_open ys"
proof (induction rule: list_all2_induct)
  case (Cons x xs y ys)
  have sub: "b_artifact ` set (filter build_open ys) \<subseteq> b_artifact ` set (filter build_open xs)"
    using Cons.hyps(2)
    by (induction rule: list_all2_induct) (auto dest: lives_keeps lives_open)
  from Cons have "one_open b_artifact build_open ys" by (auto simp: one_open_def split: if_splits)
  with Cons.prems sub lives_keeps[OF Cons.hyps(1)] lives_open[OF Cons.hyps(1)] show ?case
    by (auto simp: one_open_def split: if_splits)
qed simp

lemma evolves_rowE:
  assumes "evolves cap s s'" "b' \<in> set (db_builds s')"
  obtains b where "b \<in> set (db_builds s)" "lives cap b b'"
  using assms unfolding evolves_def by (metis in_set_conv_nth list_all2_conv_all_nth)

lemma evolves_rowD:
  assumes "evolves cap s s'" "b \<in> set (db_builds s)"
  obtains b' where "b' \<in> set (db_builds s')" "lives cap b b'"
  using assms unfolding evolves_def by (metis in_set_conv_nth list_all2_conv_all_nth)

lemma evolves_ok:
  assumes "evolves cap s s'" "builds_ok cap s"
  shows "builds_ok cap s'"
proof -
  obtain rows where "s' = s\<lparr>db_builds := rows\<rparr>" using assms(1) unfolding evolves_def by blast
  then have d: "get_dep s' d = get_dep s d" for d by simp
  show ?thesis
    unfolding builds_ok_def
  proof (intro conjI ballI)
    show "keyed b_id (db_builds s')" using assms evolves_ids[OF assms(1)] by (simp add: builds_ok_def)
    show "uq_open_build_per_artifact (db_builds s')"
      using assms lives_one_open[of cap "db_builds s" "db_builds s'"] by (simp add: builds_ok_def uq_open_build_per_artifact_def evolves_def)
    fix b' assume "b' \<in> set (db_builds s')"
    with assms(1) obtain b where b: "b \<in> set (db_builds s)" "lives cap b b'" by (rule evolves_rowE)
    with assms(2) show "build_ok cap b'" using lives_ok by (auto simp: builds_ok_def)
    from b assms(2) show "get_dep s' (b_dep b') \<noteq> None" using lives_keeps[OF b(2)] d by (auto simp: builds_ok_def)
  qed
qed

lemma open_build_for_Some:
  assumes "open_build_for s dep a = Inr (Some b)"
  shows "b \<in> set (db_builds s) \<and> b_artifact b = a \<and> build_open b \<and> b_dep b = d_id dep"
proof -
  let ?f = "filter (\<lambda>b. b_artifact b = a \<and> build_open b \<and> get_dep s (b_dep b) \<noteq> None) (db_builds s)"
  from assms obtain bs where f: "?f = b # bs" and d: "b_dep b = d_id dep"
    by (auto simp: open_build_for_def split: list.splits if_splits)
  have "b \<in> set ?f" unfolding f by simp
  with d show ?thesis by simp
qed

lemma create_build_Inr:
  assumes run: "create_build st others fresh now u d artifact s = Inr (b, created, s')"
    and ok: "builds_ok cap s" "builds_ok cap (others s)" "fresh \<notin> b_id ` set (db_builds (others s))" "get_dep (others s) d \<noteq> None"
  shows "builds_ok cap s' \<and> b \<in> set (db_builds s') \<and> build_open b \<and> b_dep b = d \<and> b_artifact b = artifact \<and>
    (\<exists>dep. get_dep s d = Some dep \<and> d_user dep = u \<and> d_status dep \<notin> {DDeleting, DDeleted}) \<and>
    (if created then b = new_build fresh now d artifact \<and> artifact_exists st u artifact = Inr True \<and>
       s' = (others s)\<lparr>db_builds := db_builds (others s) @ [b]\<rparr>
     else s' \<in> {s, others s})"
proof -
  from run obtain a where "validate_artifact_id artifact = Inr a" unfolding create_build_def by (elim bindRE)
  then have a: "validate_artifact_id artifact = Inr artifact" by (auto simp: validate_artifact_id_def split: if_splits)
  note run = run[unfolded create_build_def a bindR.simps]
  from run obtain dep where dep: "owned_deployment s u d = Inr dep" by (elim bindRE)
  then have d: "get_dep s d = Some dep" "d_user dep = u" by (auto simp: owned_deployment_def split: option.splits if_splits)
  then have id: "d_id dep = d" by (auto dest: row_get_key)
  note run = run[unfolded dep bindR.simps]
  have st: "d_status dep \<notin> {DDeleting, DDeleted}" using run by (auto split: if_splits)
  note run = run[unfolded if_not_P[OF st]]
  from run obtain found where f: "open_build_for s dep artifact = Inr found" by (elim bindRE)
  note run = run[unfolded f bindR.simps]
  show ?thesis
  proof (cases found)
    case (Some x)
    with run have "b = x" "\<not> created" "s' = s" by simp_all
    with open_build_for_Some[OF f[unfolded Some]] ok(1) d st id show ?thesis by auto
  next
    case None
    note run = run[unfolded None option.case]
    from run obtain there where t: "artifact_exists st (d_user dep) artifact = Inr there" by (elim bindRE)
    note run = run[unfolded t bindR.simps]
    have there: "there" using run by (auto split: if_splits)
    let ?b = "new_build fresh now d artifact"
    let ?s2 = "(others s)\<lparr>db_builds := db_builds (others s) @ [?b]\<rparr>"
    show ?thesis
    proof (cases "uq_open_build_per_artifact (db_builds ?s2)")
      case True
      with run there have r: "b = ?b" "created" "s' = ?s2" by (auto simp: Let_def)
      have "builds_ok cap ?s2"
        using ok(2-4) True new_build_ok[of cap fresh now d artifact] unfolding builds_ok_def by (auto simp: new_build_def)
      with r d st t there show ?thesis by (simp add: new_build_def build_open_def builds_open_def)
    next
      case False
      with run there obtain w where w: "open_build_for (others s) dep artifact = Inr w"
          "(case w of None \<Rightarrow> Inl (IntegrityErr ''A build for this artifact is already in flight'') | Some b \<Rightarrow> Inr (b, False, others s)) =
             Inr (b, created, s')"
        by (auto simp: Let_def bindR_Inr_iff)
      then obtain x where "w = Some x" "b = x" "\<not> created" "s' = others s" by (auto split: option.splits)
      with open_build_for_Some[of "others s" dep artifact x] w(1) ok(2) d st id show ?thesis by auto
    qed
  qed
qed

lemma transition_to_Inr:
  "transition_to st img now b = Inr b' \<longleftrightarrow>
     can_transition (b_status b) st \<and> (st = BSucceeded \<longleftrightarrow> img \<noteq> None) \<and> img \<noteq> Some [] \<and>
     b' = b\<lparr>b_status := st, b_started_at := (if st = BRunning then Some now else b_started_at b),
            b_finished_at := (if is_terminal st then Some now else b_finished_at b), b_image := (if img \<noteq> None then img else b_image b)\<rparr>"
  by (auto simp: transition_to_def)

text \<open>A client that polls from the offset it has read to.\<close>

fun poll :: "bytes \<Rightarrow> build list \<Rightarrow> bytes" where
  "poll buf [] = buf"
| "poll buf (b # bs) = (let s = log_window b (Some (int (length buf))) None in poll (take (ls_start s) buf @ ls_data s) bs)"

fun mirrors :: "nat \<Rightarrow> build \<Rightarrow> bytes list \<Rightarrow> build list" where
  "mirrors cap b [] = []"
| "mirrors cap b (f # fs) = (let b' = b\<lparr>b_log := merge_log cap (b_log b) (Some f)\<rparr> in b' # mirrors cap b' fs)"

lemma merge_prefix: "prefix stored f \<Longrightarrow> length f \<le> cap \<Longrightarrow> merge_log cap stored (Some f) = f"
  by (auto simp: merge_log_def truncate_log_def Let_def dest: prefix_length_le)

lemma poll_prefix: "prefix buf (b_log b) \<Longrightarrow> poll buf (b # bs) = poll (b_log b) bs"
  by (auto simp: log_window_def Let_def prefix_def)

lemma poll_mirrors:
  "sorted_wrt prefix (b_log b # outs) \<Longrightarrow> \<forall>f \<in> set outs. length f \<le> cap \<Longrightarrow> prefix buf (b_log b) \<Longrightarrow> outs \<noteq> [] \<Longrightarrow>
     poll buf (mirrors cap b outs) = last outs"
proof (induction outs arbitrary: b buf)
  case (Cons f fs)
  have m: "merge_log cap (b_log b) (Some f) = f" using Cons.prems by (intro merge_prefix) auto
  have p: "prefix buf f" using Cons.prems by (auto intro: prefix_order.trans)
  show ?case
  proof (cases fs)
    case Nil
    with p show ?thesis by (simp add: m Let_def poll_prefix del: poll.simps(2))
  next
    case (Cons g gs)
    have "poll f (mirrors cap (b\<lparr>b_log := f\<rparr>) fs) = last fs"
      using Cons.IH[of "b\<lparr>b_log := f\<rparr>" f] Cons.prems Cons by auto
    with p Cons show ?thesis by (simp add: m Let_def poll_prefix del: poll.simps(2))
  qed
qed simp

section \<open>Properties\<close>

text \<open>
  C26. The worker implements the life cycle. Whatever the cluster answers and whichever builds fail to
  advance or to start, a pass never raises; every row moves only by steps of the life cycle, so its status
  follows the transitions of \<^verbatim>\<open>BUILD_TRANSITIONS\<close> and its identity is kept; a finished build is not touched
  again; and apart from the builds nothing in the database changes.
\<close>

theorem builds_refine_lifecycle:
  assumes "run_pass cr out bs now w = (r, w')" "keyed b_id (db_builds (w_db w))"
  shows "(\<exists>x. r = Inr x) \<and> w_db w' = (w_db w)\<lparr>db_builds := db_builds (w_db w')\<rparr> \<and>
    list_all2 (life (bs_log_max bs))\<^sup>*\<^sup>* (db_builds (w_db w)) (db_builds (w_db w')) \<and>
    (\<forall>b \<in> set (db_builds (w_db w)). is_terminal (b_status b) \<longrightarrow> b \<in> set (db_builds (w_db w')))"
proof -
  have e: "evolves (bs_log_max bs) (w_db w) (w_db w')" and r: "\<exists>x. r = Inr x" using run_pass_steps[OF assms] by simp_all
  have "b \<in> set (db_builds (w_db w'))" if "b \<in> set (db_builds (w_db w))" "is_terminal (b_status b)" for b
    by (rule evolves_rowD[OF e that(1)]) (use lives_terminal that(2) in blast)
  with e r show ?thesis by (simp add: evolves_def)
qed

text \<open>
  C27. The build table stays consistent through every request and every pass: ids are unique, an artifact
  has at most one open build, every build belongs to a deployment, and each row says what its status
  promises (a running build has its start, a finished one its end, a successful one and no other its image,
  and the log of any build that did not fail is within the cap).
\<close>

theorem build_table_invariant:
  assumes "builds_ok (bs_log_max bs) (w_db w)"
  shows "builds_ok (bs_log_max bs) (w_db (snd (run_pass cr out bs now w))) \<and>
    (\<forall>st others fresh u d a b created s'.
       create_build st others fresh now u d a (w_db w) = Inr (b, created, s') \<longrightarrow> builds_ok (bs_log_max bs) (others (w_db w)) \<longrightarrow>
       fresh \<notin> b_id ` set (db_builds (others (w_db w))) \<longrightarrow> get_dep (others (w_db w)) d \<noteq> None \<longrightarrow> builds_ok (bs_log_max bs) s')"
proof -
  obtain r w' where run: "run_pass cr out bs now w = (r, w')" by (cases "run_pass cr out bs now w")
  have "evolves (bs_log_max bs) (w_db w) (w_db w')" using run_pass_steps[OF run] assms by (simp add: builds_ok_def)
  with evolves_ok assms run create_build_Inr show ?thesis by (metis snd_conv)
qed

text \<open>
  What a creation does, races included. It answers with an open build of that artifact for that
  deployment, which the caller owns and which is not being deleted; either the request created it, and then
  the artifact is there under the owner's own key and the table gained just that queued row, or a build
  already in flight, seen before or found after losing the race, is returned and nothing is written.
\<close>

theorem build_request_effect:
  assumes "create_build st others fresh now u d artifact s = Inr (b, created, s')"
    and "builds_ok cap s" "builds_ok cap (others s)" "fresh \<notin> b_id ` set (db_builds (others s))" "get_dep (others s) d \<noteq> None"
  shows "b \<in> set (db_builds s') \<and> b_status b \<in> {BQueued, BRunning} \<and> b_dep b = d \<and> b_artifact b = artifact \<and>
    (\<exists>dep. get_dep s d = Some dep \<and> d_user dep = u \<and> d_status dep \<notin> {DDeleting, DDeleted}) \<and>
    (if created then b = new_build fresh now d artifact \<and> artifact_exists st u artifact = Inr True \<and>
       s' = (others s)\<lparr>db_builds := db_builds (others s) @ [b]\<rparr>
     else s' \<in> {s, others s})"
  using create_build_Inr[OF assms] unfolding build_open_def builds_open_def by auto

text \<open>
  The state machine rejects exactly the illegal moves: a transition succeeds if and only if
  \<^verbatim>\<open>BUILD_TRANSITIONS\<close> allows it and an image is given when, and only when, the build succeeds, and then
  it sets the status, the matching time stamp and the image and leaves the rest of the row. No transition
  leaves a finished build.
\<close>

theorem transition_exact:
  "(transition_to st img now b = Inr b' \<longleftrightarrow>
     (b_status b, st) \<in> {(BQueued, BRunning), (BRunning, BSucceeded), (BRunning, BFailed)} \<and>
     (st = BSucceeded \<longleftrightarrow> img \<noteq> None) \<and> img \<noteq> Some [] \<and>
     b' = b\<lparr>b_status := st, b_started_at := (if st = BRunning then Some now else b_started_at b),
            b_finished_at := (if st = BRunning then b_finished_at b else Some now), b_image := (if st = BSucceeded then img else b_image b)\<rparr>) \<and>
   ((\<exists>m. transition_to st img now b = Inl (PyValueError m)) \<longleftrightarrow>
     \<not> ((b_status b, st) \<in> {(BQueued, BRunning), (BRunning, BSucceeded), (BRunning, BFailed)} \<and>
        (st = BSucceeded \<longleftrightarrow> img \<noteq> None) \<and> img \<noteq> Some []))"
proof -
  have c: "can_transition (b_status b) st \<longleftrightarrow> (b_status b, st) \<in> {(BQueued, BRunning), (BRunning, BSucceeded), (BRunning, BFailed)}"
    by (auto simp: can_transition_def build_transitions_def split: build_status.splits)
  have t: "is_terminal st \<longleftrightarrow> st \<noteq> BRunning" if "can_transition (b_status b) st"
    using that unfolding c by (auto simp: is_terminal_def builds_terminal_def)
  have "(\<exists>m. transition_to st img now b = Inl (PyValueError m)) \<longleftrightarrow>
      \<not> (can_transition (b_status b) st \<and> (st = BSucceeded \<longleftrightarrow> img \<noteq> None) \<and> img \<noteq> Some [])"
    by (auto simp: transition_to_def)
  then show ?thesis
    unfolding transition_to_Inr c[symmetric] using t by (cases "can_transition (b_status b) st") (auto simp: t)
qed


text \<open>
  C29. The claim loop ends, after at most as many rounds as the in-flight limit: granting it any further
  rounds changes neither the outcome nor the state. And a pass never takes the number of running builds past
  the limit; at most it finds more of them than that.
\<close>

theorem claim_loop_ends:
  assumes "keyed b_id (db_builds (w_db w))"
  shows "claim_builds cr out bs now (bs_max_in_flight bs + extra) r w = claim_builds cr out bs now (bs_max_in_flight bs) r w \<and>
    running_count (w_db (snd (run_pass cr out bs now w))) \<le> max (bs_max_in_flight bs) (running_count (w_db w))"
proof -
  have e: "evolving (bs_log_max bs) (w_db w) w" using assms by (simp add: evolving_def)
  obtain r w' where run: "run_pass cr out bs now w = (r, w')" by (cases "run_pass cr out bs now w")
  from claim_builds_fuel[OF e] run_pass_steps[OF run assms] run show ?thesis by simp
qed

text \<open>
  C30. Reading a log by polling loses nothing. While a build's output only grows and fits the cap, the
  worker's mirror of it is exact, and a client that asks at each pass for what follows the bytes it already
  has, starting from nothing, ends up with the whole output.
\<close>

theorem polling_reassembles:
  assumes "sorted_wrt prefix outs" "\<forall>f \<in> set outs. length f \<le> cap" "outs \<noteq> []" "b_log b = []"
  shows "poll [] (mirrors cap b outs) = last outs \<and> map b_log (mirrors cap b outs) = outs"
proof
  show "poll [] (mirrors cap b outs) = last outs"
    by (rule poll_mirrors) (use assms in auto)
  have "map b_log (mirrors cap b outs) = outs"
    if "sorted_wrt prefix (b_log b # outs)" "\<forall>f \<in> set outs. length f \<le> cap" for b outs
    using that
  proof (induction outs arbitrary: b)
    case (Cons f fs)
    have m: "merge_log cap (b_log b) (Some f) = f" using Cons.prems by (intro merge_prefix) auto
    with Cons.IH[of "b\<lparr>b_log := f\<rparr>"] Cons.prems show ?case by (simp add: Let_def)
  qed simp
  with assms show "map b_log (mirrors cap b outs) = outs" by simp
qed

section \<open>A pass over two builds\<close>

text \<open>A cluster that refuses every command, an object store nobody configured, and a build past its deadline.\<close>

definition silent_cluster :: outside where
  "silent_cluster = \<lparr>o_run = (\<lambda>_ _. \<lparr>cp_code = 1, cp_out = [], cp_err = []\<rparr>), o_do = (\<lambda>_ _. Inr ()), o_ask = (\<lambda>_ _. Inr False),
     o_http = (\<lambda>_ _. Inl []), o_num = (\<lambda>_ _. Inr 0), o_list = (\<lambda>_ _. Inr []), o_json = (\<lambda>_. None),
     o_now = (\<lambda>_. 0), o_token = (\<lambda>_. ''t'')\<rparr>"

definition bare_store :: s3_store where
  "bare_store = \<lparr>s3_endpoint = ''https://s3'', s3_bucket = ''up'', s3_key_id = ''k'', s3_secret = ''s'', s3_expiry = 900, s3_max_bytes = 100,
     s3_head = (\<lambda>_. Inr ()), s3_post = (\<lambda>k m e. (k, [])), s3_get_url = (\<lambda>k e. k)\<rparr>"

definition small_builder :: build_settings where
  "small_builder = \<lparr>bs_namespace = ''builds'', bs_image = [], bs_node_pool = [], bs_runtime = [], bs_deadline = 60, bs_grace = 10,
     bs_max_in_flight = 1, bs_log_max = 100, bs_gate_image = [], bs_gate_deadline = 5, bs_gate_script = [],
     bs_registry = \<lparr>rs_host = [], rs_issuer = [], rs_signing_key = [], rs_hmac_key = []\<rparr>, bs_store = bare_store\<rparr>"

definition hex_id :: string where "hex_id = replicate 32 CHR ''a''"

definition late_build :: build where
  "late_build = (new_build 5 0 7 hex_id)\<lparr>b_status := BRunning, b_started_at := Some 0, b_job_id := Some ''build-5''\<rparr>"

definition build_db :: db where
  "build_db = empty_db\<lparr>db_deps := [demo_dep], db_builds := [late_build, new_build 6 1 7 (replicate 32 CHR ''b'')]\<rparr>"

definition build_world :: world where
  "build_world = \<lparr>w_db = build_db, w_calls = []\<rparr>"

lemma build_db_ok: "builds_ok 100 build_db"
  by code_simp





lemma build_world_simps:
  "w_db build_world = build_db" "keyed b_id (db_builds build_db)" "db_builds build_db = [late_build, new_build 6 1 7 (replicate 32 CHR ''b'')]"
  "bs_log_max small_builder = 100" "bs_max_in_flight small_builder = 1" "running_count build_db = 1"
  by (simp_all add: build_world_def build_db_def small_builder_def late_build_def new_build_def running_count_def)

lemma build_world_keyed: "keyed b_id (db_builds (w_db build_world))"
  by (simp add: build_world_def build_db_def late_build_def new_build_def)

lemma builds_refine_lifecycle_witness:
  "\<exists>x w'. run_pass toy_crypto silent_cluster small_builder 100000000 build_world = (Inr x, w') \<and> length (db_builds (w_db w')) = 2"
proof -
  obtain r w' where run: "run_pass toy_crypto silent_cluster small_builder 100000000 build_world = (r, w')"
    by (cases "run_pass toy_crypto silent_cluster small_builder 100000000 build_world")
  note k = build_world_keyed
  from builds_refine_lifecycle[OF run k] have "\<exists>x. r = Inr x" "length (db_builds (w_db build_world)) = length (db_builds (w_db w'))"
    by (auto dest: list_all2_lengthD)
  with run show ?thesis by (auto simp: build_world_simps)
qed

lemma build_table_invariant_witness:
  "builds_ok 100 (w_db (snd (run_pass toy_crypto silent_cluster small_builder 100000000 build_world)))"
  using build_table_invariant[of small_builder build_world toy_crypto silent_cluster 100000000] build_db_ok
  by (simp only: build_world_simps simp_thms)


lemma claim_loop_ends_witness:
  "running_count (w_db (snd (run_pass toy_crypto silent_cluster small_builder 100000000 build_world))) \<le> 1"
proof -
  from claim_loop_ends[OF build_world_keyed] show ?thesis by (metis build_world_simps(1,5,6) max.idem)
qed

lemma build_request_effect_witness:
  "\<exists>b s'. create_build bare_store id 9 50 1 7 (replicate 32 CHR ''c'') build_db = Inr (b, True, s') \<and> b_status b = BQueued \<and>
     b \<in> set (db_builds s') \<and> artifact_exists bare_store 1 (replicate 32 CHR ''c'') = Inr True"
proof -
  let ?a = "replicate 32 CHR ''c''"
  have fresh: "(9 :: nat) \<notin> b_id ` set (db_builds (id build_db))" "get_dep (id build_db) 7 \<noteq> None" by code_simp+
  have "map_sum id (\<lambda>(b, c, s). (b, c)) (create_build bare_store id 9 50 1 7 ?a build_db) = Inr (new_build 9 50 7 ?a, True)"
    by code_simp
  then have "\<exists>s'. create_build bare_store id 9 50 1 7 ?a build_db = Inr (new_build 9 50 7 ?a, True, s')"
    by (cases "create_build bare_store id 9 50 1 7 ?a build_db") auto
  then obtain s' where run: "create_build bare_store id 9 50 1 7 ?a build_db = Inr (new_build 9 50 7 ?a, True, s')" by blast
  have "builds_ok 100 (id build_db)" using build_db_ok by simp
  from build_request_effect[OF run build_db_ok this fresh]
  have "new_build 9 50 7 ?a \<in> set (db_builds s')" "artifact_exists bare_store 1 ?a = Inr True" by (simp_all)
  with run show ?thesis by (intro exI[of _ "new_build 9 50 7 ?a"] exI[of _ s']) (simp add: new_build_def)
qed

lemma polling_reassembles_witness:
  "poll [] (mirrors 100 late_build [''step 1'', ''step 1, step 2'', ''step 1, step 2, done'']) = ''step 1, step 2, done''"
proof -
  let ?o = "[''step 1'', ''step 1, step 2'', ''step 1, step 2, done'']"
  have "sorted_wrt prefix ?o" "\<forall>f \<in> set ?o. length f \<le> 100" "?o \<noteq> []" by simp_all
  moreover have "b_log late_build = []" by (simp add: late_build_def new_build_def)
  ultimately have "poll [] (mirrors 100 late_build ?o) = last ?o" using polling_reassembles by blast
  then show ?thesis by simp
qed

text \<open>
  Where the mirror is not exact. A read that a rotation has cut at the front but that is as long as what is
  stored replaces bytes a client may have read; so does the marker when the output first passes the cap. And
  the line that explains a failure is stored past the cap.
\<close>

lemma rotation_rewrites: "merge_log 100 ''abcd'' (Some ''cdef'') = ''cdef''"
  by code_simp

lemma cap_rewrites:
  "length (merge_log 60 (replicate 60 CHR ''x'') (Some (replicate 61 CHR ''x''))) = 60 \<and>
   merge_log 60 (replicate 60 CHR ''x'') (Some (replicate 61 CHR ''x'')) \<noteq> replicate 60 CHR ''x''"
  by code_simp

lemma failure_line_past_cap:
  "length (b_log (append_log_line gate_failure_line (late_build\<lparr>b_log := merge_log 60 [] (Some (replicate 61 CHR ''x''))\<rparr>))) = 214"
  by code_simp

end
