(* ===== verification/Products.thy ===== *)
theory Products
  imports TemplateValues Models Interfaces
begin

text \<open>
  The products of the store and their templates: \<^verbatim>\<open>api/app/services/products.py\<close>,
  \<^verbatim>\<open>api/app/services/templates.py\<close> and \<^verbatim>\<open>api/app/services/listings.py\<close>, over the columns of
  \<^verbatim>\<open>models/core.py\<close> the deployments do not read. A product the catalog owns (\<^verbatim>\<open>curated\<close>) refuses
  what an administrator asks of it unless the request is forced, and is never deleted.

  The processing of images and the JSON Schema library are parameters (\<open>imaging\<close>, \<open>schema_check\<close>);
  a rejected statement leaves the sequences where they were, which PostgreSQL does not promise, since
  nothing depends on the value of an id.
\<close>

section \<open>The tables\<close>

datatype visibility = VisPublic | VisUnlisted | VisAdmin

record feature =
  ft_title :: string
  ft_body :: string
  ft_icon :: string

record link =
  ln_label :: string
  ln_href :: string
  ln_kind :: string

record credit =
  cr_text :: string
  cr_href :: "string option"

record stored_shot =
  sh_path :: string
  sh_caption :: string
  sh_form :: string
  sh_credit :: "credit option"

record listed_product = product +
  lp_tagline :: "string option"
  lp_description :: "string option"
  lp_category :: "string option"
  lp_replaces :: "string option"
  lp_license :: "string option"
  lp_features :: "feature list"
  lp_links :: "link list"
  lp_shots :: "stored_shot list"
  lp_curated :: bool
  lp_visibility :: visibility
  lp_icon :: "string option"
  lp_deleted_at :: "time option"

record version_row = template +
  vr_commit :: "string option"
  vr_version :: "string option"
  vr_created_at :: time

record release_row =
  rl_id :: nat
  rl_product :: nat
  rl_version :: string
  rl_notes :: string
  rl_position :: nat
  rl_updated_at :: time

record store =
  so_products :: "listed_product list"
  so_versions :: "version_row list"
  so_releases :: "release_row list"
  so_next_product :: nat
  so_next_version :: nat
  so_next_release :: nat

text \<open>Static storage: a file under its path relative to \<^verbatim>\<open>STATIC_PATH\<close>.\<close>

type_synonym files = "(string \<times> string) list"

definition save_static :: "string \<Rightarrow> string \<Rightarrow> files \<Rightarrow> files" where
  "save_static data rel_path fs = AList.update rel_path data fs"

definition is_file :: "files \<Rightarrow> string \<Rightarrow> bool" where
  "is_file fs p \<longleftrightarrow> map_of fs p \<noteq> None"

lemma is_file_save [simp]: "is_file (save_static d p fs) q \<longleftrightarrow> q = p \<or> is_file fs q"
  by (simp add: is_file_def save_static_def update_conv')

section \<open>The unique indexes\<close>

definition live :: "listed_product \<Rightarrow> bool" where
  "live p \<longleftrightarrow> lp_deleted_at p = None"

abbreviation name_key :: "listed_product \<Rightarrow> string" where
  "name_key p \<equiv> lower (p_name p)"

definition slugged :: "listed_product \<Rightarrow> bool" where
  "slugged p \<longleftrightarrow> live p \<and> p_slug p \<noteq> None"

text \<open>Writing a row, which is checked against the rows other than itself.\<close>

definition name_clash :: "listed_product \<Rightarrow> listed_product list \<Rightarrow> bool" where
  "name_clash p ps \<longleftrightarrow> live p \<and> slot_taken name_key live (name_key p) (filter (\<lambda>q. p_id q \<noteq> p_id p) ps)"

definition slug_clash :: "listed_product \<Rightarrow> listed_product list \<Rightarrow> bool" where
  "slug_clash p ps \<longleftrightarrow> slugged p \<and> slot_taken p_slug slugged (p_slug p) (filter (\<lambda>q. p_id q \<noteq> p_id p) ps)"

definition check_product :: "listed_product \<Rightarrow> listed_product list \<Rightarrow> unit result" where
  "check_product p ps =
     (if name_clash p ps then Inl (DbIntegrityError ''uq_product_name_active'')
      else if slug_clash p ps then Inl (DbIntegrityError ''uq_product_slug_active'')
      else Inr ())"

definition put_product :: "listed_product \<Rightarrow> store \<Rightarrow> store result" where
  "put_product p st =
     bindR (check_product p (so_products st)) (\<lambda>_.
       Inr (st\<lparr>so_products := row_upd p_id (p_id p) (\<lambda>_. p) (so_products st)\<rparr>))"

definition add_product :: "listed_product \<Rightarrow> store \<Rightarrow> (listed_product \<times> store) result" where
  "add_product p st =
     (let q = p\<lparr>p_id := so_next_product st\<rparr> in
      bindR (check_product q (so_products st)) (\<lambda>_.
        Inr (q, st\<lparr>so_products := so_products st @ [q], so_next_product := Suc (so_next_product st)\<rparr>)))"

definition add_version :: "version_row \<Rightarrow> store \<Rightarrow> version_row \<times> store" where
  "add_version t st =
     (let u = t\<lparr>t_id := so_next_version st\<rparr> in
      (u, st\<lparr>so_versions := so_versions st @ [u], so_next_version := Suc (so_next_version st)\<rparr>))"

definition find_product :: "nat \<Rightarrow> store \<Rightarrow> listed_product option" where
  "find_product i st = find (\<lambda>p. p_id p = i \<and> live p) (so_products st)"

definition need_product :: "nat \<Rightarrow> store \<Rightarrow> listed_product result" where
  "need_product i st = (case find_product i st of None \<Rightarrow> Inl (NotFoundErr ''Product not found'') | Some p \<Rightarrow> Inr p)"

section \<open>The guards of a curated product\<close>

definition catalog_file_for :: "listed_product \<Rightarrow> string" where
  "catalog_file_for p =
     (let slug = (case p_slug p of None \<Rightarrow> p_name p | Some s \<Rightarrow> if s = [] then p_name p else s)
      in ''products/catalog/'' @ slug @ ''/'' @ slug @ ''.yaml'')"

definition assert_mutable :: "bool \<Rightarrow> listed_product \<Rightarrow> unit result" where
  "assert_mutable force p =
     (if \<not> lp_curated p \<or> force then Inr ()
      else Inl (ValidationErr (''Product '' @ p_name p @ '' is managed by the catalog. Edit '' @ catalog_file_for p)))"

definition assert_deletable :: "listed_product \<Rightarrow> unit result" where
  "assert_deletable p =
     (if \<not> lp_curated p then Inr ()
      else Inl (ValidationErr (''Cannot delete this: product '' @ p_name p @ '' is managed by the catalog. Remove '' @ catalog_file_for p)))"

section \<open>Products\<close>

text \<open>\<^verbatim>\<open>process_icon\<close> and the SHA-1 of its result; \<open>Inl\<close> is its \<^verbatim>\<open>ValueError\<close>.\<close>

record imaging =
  im_process :: "string \<Rightarrow> string + string"
  im_sha1 :: "string \<Rightarrow> string"

definition max_icon_size :: nat where "max_icon_size = 10 * 1024 * 1024"

definition generate_icon_filename :: "imaging \<Rightarrow> string \<Rightarrow> string" where
  "generate_icon_filename im d = ''icons/'' @ im_sha1 im d @ ''.png''"

definition too_large :: "string option \<Rightarrow> bool" where
  "too_large icon \<longleftrightarrow> (case icon of None \<Rightarrow> False | Some d \<Rightarrow> max_icon_size < length d)"

definition icon_too_large :: error where
  "icon_too_large = ValidationErr ''Image file too large. Maximum size is 10MB''"

record product_create =
  pc_name :: string
  pc_tagline :: "string option"
  pc_description :: "string option"
  pc_template_id :: "nat option"
  pc_category :: "string option"
  pc_replaces :: "string option"
  pc_visibility :: visibility
  pc_license :: "string option"
  pc_features :: "feature list"
  pc_links :: "link list"

definition new_product :: "product_create \<Rightarrow> listed_product" where
  "new_product pc =
     \<lparr>p_id = 0, p_name = pc_name pc, p_slug = None, p_template_id = pc_template_id pc, lp_tagline = pc_tagline pc,
      lp_description = pc_description pc, lp_category = pc_category pc, lp_replaces = pc_replaces pc, lp_license = pc_license pc,
      lp_features = pc_features pc, lp_links = pc_links pc, lp_shots = [], lp_curated = False, lp_visibility = pc_visibility pc,
      lp_icon = None, lp_deleted_at = None\<rparr>"

text \<open>
  A product's template is a foreign key: the row must exist, deleted or not, of whichever product. An
  icon that was saved stays on disk when the commit then fails.
\<close>

definition known_template :: "nat option \<Rightarrow> store \<Rightarrow> bool" where
  "known_template t st \<longleftrightarrow> (case t of None \<Rightarrow> True | Some i \<Rightarrow> row_get t_id i (so_versions st) \<noteq> None)"

definition commit_create :: "listed_product \<Rightarrow> store \<Rightarrow> (listed_product \<times> store) result" where
  "commit_create p st =
     (case (if known_template (p_template_id p) st then add_product p st else Inl (DbIntegrityError ''template_id'')) of
        Inr x \<Rightarrow> Inr x
      | Inl _ \<Rightarrow> Inl (IntegrityErr (''A product with this name already exists: '' @ p_name p)))"

definition create_product ::
    "imaging \<Rightarrow> product_create \<Rightarrow> string option \<Rightarrow> files \<Rightarrow> store \<Rightarrow> files \<times> (listed_product \<times> store) result" where
  "create_product im pc icon fs st =
     (if too_large icon then (fs, Inl icon_too_large)
      else case icon of
             None \<Rightarrow> (fs, commit_create (new_product pc) st)
           | Some d \<Rightarrow>
               (case im_process im d of
                  Inl m \<Rightarrow> (fs, Inl (ValidationErr m))
                | Inr x \<Rightarrow>
                    (save_static x (generate_icon_filename im x) fs,
                     commit_create ((new_product pc)\<lparr>lp_icon := Some (generate_icon_filename im x)\<rparr>) st)))"

definition listed :: "bool \<Rightarrow> listed_product \<Rightarrow> bool" where
  "listed include_hidden p \<longleftrightarrow> live p \<and> (include_hidden \<or> lp_visibility p = VisPublic \<or> lp_visibility p = VisUnlisted)"

definition list_products :: "bool \<Rightarrow> store \<Rightarrow> listed_product list" where
  "list_products include_hidden st = filter (listed include_hidden) (so_products st)"

definition get_product_read :: "nat \<Rightarrow> store \<Rightarrow> listed_product result" where
  "get_product_read i st = need_product i st"

definition delete_product :: "time \<Rightarrow> nat \<Rightarrow> bool \<Rightarrow> store \<Rightarrow> store result" where
  "delete_product now i force st =
     bindR (need_product i st) (\<lambda>p.
     bindR (assert_deletable p) (\<lambda>_. put_product (p\<lparr>lp_deleted_at := Some now\<rparr>) st))"

text \<open>A template version as the other product reads it: of this product and not deleted.\<close>

definition get_template_read :: "nat \<Rightarrow> nat \<Rightarrow> store \<Rightarrow> version_row result" where
  "get_template_read product i st =
     (case row_get t_id i (so_versions st) of
        None \<Rightarrow> Inl (NotFoundErr ''Template not found'')
      | Some t \<Rightarrow> if t_product t \<noteq> product \<or> t_deleted_at t \<noteq> None then Inl (NotFoundErr ''Template not found'') else Inr t)"

record product_update =
  pu_name :: "string option"
  pu_template_id :: "nat option"
  pu_description :: "string option"
  pu_category :: "string option"
  pu_replaces :: "string option"
  pu_visibility :: "visibility option"
  pu_tagline :: "string option"
  pu_license :: "string option"
  pu_features :: "feature list option"
  pu_links :: "link list option"

definition touches_catalog_state :: "product_update \<Rightarrow> string option \<Rightarrow> bool" where
  "touches_catalog_state u icon \<longleftrightarrow>
     icon \<noteq> None \<or> pu_name u \<noteq> None \<or> pu_template_id u \<noteq> None \<or> pu_description u \<noteq> None \<or> pu_category u \<noteq> None \<or>
     pu_replaces u \<noteq> None \<or> pu_tagline u \<noteq> None \<or> pu_license u \<noteq> None \<or> pu_features u \<noteq> None \<or> pu_links u \<noteq> None"

definition or_else :: "'a option \<Rightarrow> 'a \<Rightarrow> 'a" where
  "or_else x y = (case x of None \<Rightarrow> y | Some z \<Rightarrow> z)"

definition or_keep :: "'a option \<Rightarrow> 'a option \<Rightarrow> 'a option" where
  "or_keep x y = (case x of None \<Rightarrow> y | Some z \<Rightarrow> Some z)"

definition updated_product :: "product_update \<Rightarrow> listed_product \<Rightarrow> listed_product" where
  "updated_product u p = p\<lparr>
     p_name := or_else (pu_name u) (p_name p), lp_description := or_keep (pu_description u) (lp_description p),
     lp_category := or_keep (pu_category u) (lp_category p), lp_replaces := or_keep (pu_replaces u) (lp_replaces p),
     lp_tagline := or_keep (pu_tagline u) (lp_tagline p), lp_license := or_keep (pu_license u) (lp_license p),
     lp_features := or_else (pu_features u) (lp_features p), lp_links := or_else (pu_links u) (lp_links p),
     lp_visibility := or_else (pu_visibility u) (lp_visibility p)\<rparr>"

text \<open>A template id of 0 is falsy: it is neither checked nor set.\<close>

definition retarget :: "product_update \<Rightarrow> nat \<Rightarrow> store \<Rightarrow> (listed_product \<Rightarrow> listed_product) result" where
  "retarget u i st =
     (case pu_template_id u of
        Some t \<Rightarrow> if t = 0 then Inr id
                  else bindR (get_template_read i t st) (\<lambda>_. Inr (\<lambda>p. p\<lparr>p_template_id := Some t\<rparr>))
      | None \<Rightarrow> Inr id)"

definition update_product ::
    "imaging \<Rightarrow> nat \<Rightarrow> product_update \<Rightarrow> string option \<Rightarrow> bool \<Rightarrow> files \<Rightarrow> store \<Rightarrow> files \<times> store result" where
  "update_product im i u icon force fs st =
     (case bindR (need_product i st) (\<lambda>p.
           bindR (if touches_catalog_state u icon then assert_mutable force p else Inr ()) (\<lambda>_.
           bindR (retarget u i st) (\<lambda>f. Inr (updated_product u (f p))))) of
        Inl e \<Rightarrow> (fs, Inl e)
      | Inr p \<Rightarrow>
          (case icon of
             None \<Rightarrow> (fs, put_product p st)
           | Some d \<Rightarrow>
               if max_icon_size < length d then (fs, Inl icon_too_large)
               else (case im_process im d of
                       Inl m \<Rightarrow> (fs, Inl (ValidationErr m))
                     | Inr x \<Rightarrow> (save_static x (generate_icon_filename im x) fs,
                                 put_product (p\<lparr>lp_icon := Some (generate_icon_filename im x)\<rparr>) st))))"

definition upload_product_icon :: "imaging \<Rightarrow> nat \<Rightarrow> string \<Rightarrow> files \<Rightarrow> store \<Rightarrow> files \<times> store result" where
  "upload_product_icon im i d fs st =
     (if max_icon_size < length d then (fs, Inl icon_too_large)
      else case bindR (need_product i st) (\<lambda>p. bindR (assert_mutable False p) (\<lambda>_. Inr p)) of
             Inl e \<Rightarrow> (fs, Inl e)
           | Inr p \<Rightarrow>
               (case im_process im d of
                  Inl m \<Rightarrow> (fs, Inl (ValidationErr m))
                | Inr x \<Rightarrow> (save_static x (generate_icon_filename im x) fs,
                            put_product (p\<lparr>lp_icon := Some (generate_icon_filename im x)\<rparr>) st)))"

definition get_product_icon_path :: "nat \<Rightarrow> store \<Rightarrow> string option result" where
  "get_product_icon_path i st = bindR (need_product i st) (\<lambda>p. Inr (lp_icon p))"

section \<open>Templates\<close>

text \<open>\<open>schema_check\<close> is \<^verbatim>\<open>validator_for(s).check_schema(s)\<close>: its message when it raises.\<close>

type_synonym schema_check = "pydict \<Rightarrow> string option"

definition check_values_schema :: "schema_check \<Rightarrow> pydict option \<Rightarrow> unit result" where
  "check_values_schema sc schema =
     (case schema of
        None \<Rightarrow> Inr ()
      | Some s \<Rightarrow>
          (case sc s of
             Some m \<Rightarrow> Inl (ValidationErr (''values_schema_json is not a valid JSON Schema: '' @ m))
           | None \<Rightarrow>
               bindR (check_var_markers (Some s)) (\<lambda>_.
                 case pr_chart (derive_projections (Some s)) of
                   None \<Rightarrow> Inr ()
                 | Some chart \<Rightarrow>
                     if map_of chart ''additionalProperties'' = Some (JBool False) then Inr ()
                     else Inl (ValidationErr ''values_schema_json must set additionalProperties: false at the root''))))"

record template_create =
  tc_product :: nat
  tc_chart_ref :: "string option"
  tc_chart_version :: "string option"
  tc_chart_digest :: "string option"
  tc_system_values :: "pydict option"
  tc_schema :: "pydict option"

definition new_version :: "time \<Rightarrow> nat \<Rightarrow> string \<Rightarrow> string \<Rightarrow> string option \<Rightarrow> pydict option \<Rightarrow> pydict option \<Rightarrow> version_row" where
  "new_version now product ref ver digest sv schema =
     \<lparr>t_id = 0, t_product = product, t_chart_ref = ref, t_chart_version = ver, t_chart_digest = digest, t_system_values = sv,
      t_schema = schema, t_deleted_at = None, vr_commit = None, vr_version = None, vr_created_at = now\<rparr>"

definition create_template ::
    "schema_check \<Rightarrow> time \<Rightarrow> template_create \<Rightarrow> bool \<Rightarrow> store \<Rightarrow> (version_row \<times> store) result" where
  "create_template sc now tc force st =
     bindR (check_values_schema sc (tc_schema tc)) (\<lambda>_.
     bindR (need_product (tc_product tc) st) (\<lambda>p.
     bindR (assert_mutable force p) (\<lambda>_.
       case (tc_chart_ref tc, tc_chart_version tc) of
         (Some r, Some v) \<Rightarrow>
           Inr (add_version (new_version now (tc_product tc) r v (tc_chart_digest tc) (tc_system_values tc) (tc_schema tc)) st)
       | _ \<Rightarrow> Inl (IntegrityErr ''A template for this product version already exists''))))"

definition list_templates :: "nat \<Rightarrow> store \<Rightarrow> version_row list" where
  "list_templates i st = filter (\<lambda>t. t_product t = i \<and> t_deleted_at t = None) (so_versions st)"

definition delete_template :: "time \<Rightarrow> nat \<Rightarrow> nat \<Rightarrow> bool \<Rightarrow> store \<Rightarrow> store result" where
  "delete_template now product i force st =
     (case row_get t_id i (so_versions st) of
        None \<Rightarrow> Inl (NotFoundErr ''Template not found'')
      | Some t \<Rightarrow>
          if t_product t \<noteq> product then Inl (NotFoundErr ''Template not found'')
          else bindR (need_product product st) (\<lambda>p.
               bindR (assert_deletable p) (\<lambda>_.
                 Inr (st\<lparr>so_versions := row_upd t_id i (\<lambda>t. t\<lparr>t_deleted_at := Some now\<rparr>) (so_versions st)\<rparr>))))"

section \<open>Listings\<close>

definition available_at :: "nat \<Rightarrow> string \<Rightarrow> store \<Rightarrow> time option" where
  "available_at i v st =
     (case map vr_created_at (filter (\<lambda>t. t_product t = i \<and> vr_version t = Some v \<and> t_deleted_at t = None) (so_versions st)) of
        [] \<Rightarrow> None | x # xs \<Rightarrow> Some (fold min xs x))"

text \<open>\<^verbatim>\<open>rpartition\<close> on the last dot.\<close>

definition screenshot_thumbnail_path :: "string \<Rightarrow> string" where
  "screenshot_thumbnail_path p =
     (let ext = takeWhile (\<lambda>c. c \<noteq> CHR ''.'') (rev p) in
      if CHR ''.'' \<in> set p then rev (drop (Suc (length ext)) (rev p)) @ ''-thumb.'' @ rev ext else p @ ''-thumb'')"

record listing_read =
  lr_product :: nat
  lr_license :: "string option"
  lr_features :: "feature list"
  lr_links :: "link list"
  lr_shots :: "(string \<times> string \<times> stored_shot) list"
  lr_version :: "string option"
  lr_available_at :: "time option"

text \<open>The relationship loads the template by its id alone.\<close>

definition get_listing :: "string \<Rightarrow> nat \<Rightarrow> store \<Rightarrow> listing_read result" where
  "get_listing base i st =
     bindR (need_product i st) (\<lambda>p.
       let version = (case p_template_id p of None \<Rightarrow> None
                      | Some t \<Rightarrow> (case row_get t_id t (so_versions st) of None \<Rightarrow> None | Some v \<Rightarrow> vr_version v))
       in Inr \<lparr>lr_product = p_id p, lr_license = lp_license p, lr_features = lp_features p, lr_links = lp_links p,
               lr_shots = map (\<lambda>s. (base @ ''/'' @ screenshot_thumbnail_path (sh_path s), base @ ''/'' @ sh_path s, s)) (lp_shots p),
               lr_version = version,
               lr_available_at = (case version of None \<Rightarrow> None | Some v \<Rightarrow> if v = [] then None else available_at (p_id p) v st)\<rparr>)"

definition list_product_releases :: "nat \<Rightarrow> store \<Rightarrow> (string \<times> string \<times> time option) list result" where
  "list_product_releases i st =
     bindR (need_product i st) (\<lambda>_.
       Inr (map (\<lambda>r. (rl_version r, rl_notes r, available_at i (rl_version r) st))
             (sort_key rl_position (filter (\<lambda>r. rl_product r = i) (so_releases st)))))"

end
