(* ===== verification/Catalog.thy ===== *)
theory Catalog
  imports Products Codec
begin

text \<open>
  The documents of the product catalog, \<^verbatim>\<open>api/app/services/catalog.py\<close> up to the reconciler: what a
  folder of \<^verbatim>\<open>products/catalog\<close> may declare, how it is read, and the document \<^verbatim>\<open>catalog curate\<close> writes
  for a product of the database. A document is decoded from the parsed YAML with the field types,
  the \<^verbatim>\<open>extra="forbid"\<close> and the validators of its pydantic models; every rejection of theirs is the
  one error \<open>InvalidDocument\<close>, without the wording. The YAML parser, the regular expressions a document
  may contain, the JSON Schema library, the image library and the hashes are parameters, and the
  directory is given by what reading it answers.
\<close>

section \<open>Documents\<close>

record shot_decl =
  sd_file :: string
  sd_caption :: string
  sd_form :: string
  sd_credit :: "credit option"

record product_block =
  pb_slug :: string
  pb_name :: string
  pb_tagline :: "string option"
  pb_description :: "string option"
  pb_category :: "string option"
  pb_replaces :: "string option"
  pb_icon :: "string option"
  pb_license :: "string option"
  pb_features :: "feature list"
  pb_links :: "link list"
  pb_shots :: "shot_decl list"

datatype upstream_source = GithubRelease string | DockerTag string | HelmChart string string

record upstream_block =
  up_source :: upstream_source
  up_match :: string
  up_version_path :: string

record template_block =
  tb_chart_ref :: string
  tb_chart_version :: string
  tb_chart_digest :: "string option"
  tb_system_values :: pydict
  tb_schema :: "pydict option"

record document =
  dc_schema_version :: int
  dc_product :: product_block
  dc_upstream :: upstream_block
  dc_template :: template_block

record catalog_release =
  re_version :: string
  re_notes :: string

record loaded_shot =
  ls_declared :: shot_decl
  ls_source :: string

record catalog_file =
  cf_name :: string
  cf_document :: document
  cf_icon :: "string option"
  cf_shots :: "loaded_shot list"
  cf_releases :: "catalog_release list"

definition cf_slug :: "catalog_file \<Rightarrow> string" where
  "cf_slug e = pb_slug (dc_product (cf_document e))"

section \<open>What the libraries answer\<close>

text \<open>
  \<open>tk_groups\<close> compiles a pattern and gives the names of its groups; \<open>tk_version\<close> is the \<^verbatim>\<open>version\<close> group
  of \<^verbatim>\<open>re.match\<close>; \<open>tk_int\<close> is what pydantic accepts for an integer; \<open>tk_open\<close> opens an image and gives its
  format, width and height; \<open>tk_render\<close> is \<^verbatim>\<open>render_screenshot\<close>.
\<close>

record toolkit =
  tk_yaml :: "string \<Rightarrow> string + json"
  tk_groups :: "string \<Rightarrow> string + string list"
  tk_version :: "string \<Rightarrow> string \<Rightarrow> string option"
  tk_int :: "json \<Rightarrow> int option"
  tk_schema :: schema_check
  tk_images :: imaging
  tk_open :: "string \<Rightarrow> string + string \<times> nat \<times> nat"
  tk_render :: "string \<Rightarrow> string + string \<times> string"
  tk_sha256 :: "string \<Rightarrow> string"

section \<open>Decoding\<close>

fun mapO :: "('a \<Rightarrow> 'b option) \<Rightarrow> 'a list \<Rightarrow> 'b list option" where
  "mapO f [] = Some []"
| "mapO f (x # xs) = (case f x of None \<Rightarrow> None | Some y \<Rightarrow> (case mapO f xs of None \<Rightarrow> None | Some ys \<Rightarrow> Some (y # ys)))"

definition guardO :: "bool \<Rightarrow> 'a option \<Rightarrow> 'a option" where
  "guardO b x = (if b then x else None)"

definition only_keys :: "string list \<Rightarrow> pydict \<Rightarrow> bool" where
  "only_keys ks d \<longleftrightarrow> list_all (\<lambda>kv. fst kv \<in> set ks) d"

definition model_fields :: "string list \<Rightarrow> (pydict \<Rightarrow> 'a option) \<Rightarrow> json \<Rightarrow> 'a option" where
  "model_fields ks f v = (case v of JObj d \<Rightarrow> guardO (only_keys ks d) (f d) | _ \<Rightarrow> None)"

definition str_at :: "pydict \<Rightarrow> string \<Rightarrow> string option" where
  "str_at d k = (case map_of d k of Some (JStr s) \<Rightarrow> Some s | _ \<Rightarrow> None)"

definition nonempty_at :: "pydict \<Rightarrow> string \<Rightarrow> string option" where
  "nonempty_at d k = (case str_at d k of Some s \<Rightarrow> guardO (s \<noteq> []) (Some s) | None \<Rightarrow> None)"

definition opt_at :: "(json \<Rightarrow> 'a option) \<Rightarrow> pydict \<Rightarrow> string \<Rightarrow> 'a option option" where
  "opt_at f d k = (case map_of d k of None \<Rightarrow> Some None | Some JNull \<Rightarrow> Some None
                     | Some v \<Rightarrow> (case f v of None \<Rightarrow> None | Some x \<Rightarrow> Some (Some x)))"

definition as_str :: "json \<Rightarrow> string option" where
  "as_str v = (case v of JStr s \<Rightarrow> Some s | _ \<Rightarrow> None)"

definition as_obj :: "json \<Rightarrow> pydict option" where
  "as_obj v = (case v of JObj d \<Rightarrow> Some d | _ \<Rightarrow> None)"

definition list_at :: "(json \<Rightarrow> 'a option) \<Rightarrow> pydict \<Rightarrow> string \<Rightarrow> 'a list option" where
  "list_at f d k = (case map_of d k of None \<Rightarrow> Some [] | Some (JList xs) \<Rightarrow> mapO f xs | Some _ \<Rightarrow> None)"

definition require_https :: "string \<Rightarrow> bool" where
  "require_https url \<longleftrightarrow> starts_with url ''https://'' \<and> 8 < length url"

definition feature_of :: "json \<Rightarrow> feature option" where
  "feature_of = model_fields [''title'', ''body'', ''icon''] (\<lambda>d.
     case (nonempty_at d ''title'', nonempty_at d ''body'', nonempty_at d ''icon'') of
       (Some t, Some b, Some i) \<Rightarrow> Some \<lparr>ft_title = t, ft_body = b, ft_icon = i\<rparr>
     | _ \<Rightarrow> None)"

definition listing_link_kinds :: "string list" where
  "listing_link_kinds = [''website'', ''docs'', ''source'', ''releases'', ''ios'', ''android'']"

definition link_of :: "json \<Rightarrow> link option" where
  "link_of = model_fields [''label'', ''href'', ''kind''] (\<lambda>d.
     case (nonempty_at d ''label'', str_at d ''href'', str_at d ''kind'') of
       (Some l, Some h, Some k) \<Rightarrow>
         guardO (require_https h \<and> k \<in> set listing_link_kinds) (Some \<lparr>ln_label = l, ln_href = h, ln_kind = k\<rparr>)
     | _ \<Rightarrow> None)"

definition credit_of :: "json \<Rightarrow> credit option" where
  "credit_of = model_fields [''text'', ''href''] (\<lambda>d.
     case (nonempty_at d ''text'', opt_at as_str d ''href'') of
       (Some t, Some h) \<Rightarrow>
         guardO (case h of None \<Rightarrow> True | Some u \<Rightarrow> require_https u) (Some \<lparr>cr_text = t, cr_href = h\<rparr>)
     | _ \<Rightarrow> None)"

text \<open>A relative path without \<^verbatim>\<open>..\<close> among its parts.\<close>

definition asset_path_ok :: "string \<Rightarrow> bool" where
  "asset_path_ok v \<longleftrightarrow> v \<noteq> [] \<and> hd v \<noteq> CHR ''/'' \<and> ''..'' \<notin> set (split_on CHR ''/'' v)"

definition shot_of :: "json \<Rightarrow> shot_decl option" where
  "shot_of = model_fields [''file'', ''caption'', ''form'', ''credit''] (\<lambda>d.
     case (str_at d ''file'', nonempty_at d ''caption'', str_at d ''form'', opt_at credit_of d ''credit'') of
       (Some f, Some c, Some m, Some cr) \<Rightarrow>
         guardO (asset_path_ok f \<and> (m = ''desktop'' \<or> m = ''mobile''))
           (Some \<lparr>sd_file = f, sd_caption = c, sd_form = m, sd_credit = cr\<rparr>)
     | _ \<Rightarrow> None)"

text \<open>\<^verbatim>\<open>^[a-z0-9]+(?:-[a-z0-9]+)*$\<close>, matched with \<^verbatim>\<open>match\<close>.\<close>

definition slug_char :: "char \<Rightarrow> bool" where
  "slug_char c \<longleftrightarrow> is_lower c \<or> is_dec c"

definition slug_pattern :: rx where
  "slug_pattern = RSeq (rx_plus (RCls slug_char)) (RStar (RSeq (rx_lit ''-'') (rx_plus (RCls slug_char))))"

definition screenshots_max_count :: nat where "screenshots_max_count = 12"

definition product_block_of :: "json \<Rightarrow> product_block option" where
  "product_block_of = model_fields
     [''slug'', ''name'', ''tagline'', ''description'', ''category'', ''replaces'', ''icon'', ''license'', ''features'', ''links'',
      ''screenshots''] (\<lambda>d.
     case ((str_at d ''slug'', str_at d ''name''), (opt_at as_str d ''tagline'', opt_at as_str d ''description''),
           (opt_at as_str d ''category'', opt_at as_str d ''replaces''), (opt_at as_str d ''icon'', opt_at as_str d ''license''),
           (list_at feature_of d ''features'', list_at link_of d ''links''), list_at shot_of d ''screenshots'') of
       ((Some s, Some n), (Some tg, Some de), (Some ca, Some re), (Some ic, Some li), (Some fs, Some ls), Some sh) \<Rightarrow>
         guardO (re_match_end slug_pattern s \<and> (case ic of None \<Rightarrow> True | Some p \<Rightarrow> asset_path_ok p) \<and>
                 length sh \<le> screenshots_max_count)
           (Some \<lparr>pb_slug = s, pb_name = n, pb_tagline = tg, pb_description = de, pb_category = ca, pb_replaces = re,
                  pb_icon = ic, pb_license = li, pb_features = fs, pb_links = ls, pb_shots = sh\<rparr>)
     | _ \<Rightarrow> None)"

definition source_of :: "json \<Rightarrow> upstream_source option" where
  "source_of v = (case v of
     JObj d \<Rightarrow>
       (if map_of d ''type'' = Some (JStr ''github-release'') then
          guardO (only_keys [''type'', ''repo''] d) (map_option GithubRelease (str_at d ''repo''))
        else if map_of d ''type'' = Some (JStr ''docker-tag'') then
          guardO (only_keys [''type'', ''image''] d) (map_option DockerTag (str_at d ''image''))
        else if map_of d ''type'' = Some (JStr ''helm-chart'') then
          guardO (only_keys [''type'', ''repo'', ''chart''] d)
            (case (str_at d ''repo'', str_at d ''chart'') of (Some r, Some c) \<Rightarrow> Some (HelmChart r c) | _ \<Rightarrow> None)
        else None)
   | _ \<Rightarrow> None)"

definition match_ok :: "toolkit \<Rightarrow> string \<Rightarrow> bool" where
  "match_ok tk m = (case tk_groups tk m of Inl _ \<Rightarrow> False | Inr gs \<Rightarrow> ''version'' \<in> set gs)"

definition upstream_of :: "toolkit \<Rightarrow> json \<Rightarrow> upstream_block option" where
  "upstream_of tk = model_fields [''source'', ''match'', ''version_path''] (\<lambda>d.
     case (map_of d ''source'', str_at d ''match'', str_at d ''version_path'') of
       (Some s, Some m, Some p) \<Rightarrow>
         guardO (match_ok tk m) (case source_of s of None \<Rightarrow> None
           | Some src \<Rightarrow> Some \<lparr>up_source = src, up_match = m, up_version_path = p\<rparr>)
     | _ \<Rightarrow> None)"

text \<open>A template that turns sign-in on says who may sign in.\<close>

definition auth_access_ok :: "pydict \<Rightarrow> bool" where
  "auth_access_ok sv = (case map_of sv ''auth'' of
     Some (JObj a) \<Rightarrow> \<not> (map_of a ''enabled'' = Some (JBool True) \<and> map_of a ''access'' = None)
   | _ \<Rightarrow> True)"

definition schema_ok :: "toolkit \<Rightarrow> pydict option \<Rightarrow> bool" where
  "schema_ok tk s = (case s of None \<Rightarrow> True
     | Some d \<Rightarrow> tk_schema tk d = None \<and> (case check_var_markers (Some d) of Inr _ \<Rightarrow> True | Inl _ \<Rightarrow> False))"

definition dict_at :: "pydict \<Rightarrow> string \<Rightarrow> pydict option" where
  "dict_at d k = (case map_of d k of None \<Rightarrow> Some [] | Some (JObj x) \<Rightarrow> Some x | Some _ \<Rightarrow> None)"

definition template_block_of :: "toolkit \<Rightarrow> json \<Rightarrow> template_block option" where
  "template_block_of tk = model_fields [''chart_ref'', ''chart_version'', ''chart_digest'', ''system_values'', ''values_schema''] (\<lambda>d.
     case (str_at d ''chart_ref'', str_at d ''chart_version'', opt_at as_str d ''chart_digest'', dict_at d ''system_values'',
           opt_at as_obj d ''values_schema'') of
       (Some r, Some v, Some g, Some sv, Some s) \<Rightarrow>
         guardO (auth_access_ok sv \<and> schema_ok tk s)
           (Some \<lparr>tb_chart_ref = r, tb_chart_version = v, tb_chart_digest = g, tb_system_values = sv, tb_schema = s\<rparr>)
     | _ \<Rightarrow> None)"

definition catalog_schema_version :: int where "catalog_schema_version = 1"

definition document_of :: "toolkit \<Rightarrow> json \<Rightarrow> document option" where
  "document_of tk = model_fields [''schema_version'', ''product'', ''upstream'', ''template''] (\<lambda>d.
     case (map_of d ''schema_version'', map_of d ''product'', map_of d ''upstream'', map_of d ''template'') of
       (Some n, Some p, Some u, Some t) \<Rightarrow>
         (case (tk_int tk n, product_block_of p, upstream_of tk u, template_block_of tk t) of
            (Some k, Some pb, Some ub, Some tb) \<Rightarrow>
              guardO (k = catalog_schema_version)
                (Some \<lparr>dc_schema_version = k, dc_product = pb, dc_upstream = ub, dc_template = tb\<rparr>)
          | _ \<Rightarrow> None)
     | _ \<Rightarrow> None)"

definition release_notes_max_chars :: nat where "release_notes_max_chars = 8000"

definition release_of :: "json \<Rightarrow> catalog_release option" where
  "release_of = model_fields [''version'', ''notes''] (\<lambda>d.
     case (nonempty_at d ''version'', nonempty_at d ''notes'') of
       (Some v, Some n) \<Rightarrow> guardO (length n \<le> release_notes_max_chars) (Some \<lparr>re_version = v, re_notes = n\<rparr>)
     | _ \<Rightarrow> None)"

section \<open>Reading the directory\<close>

datatype text_file = NoFile | ReadError string | Text string

text \<open>What becomes of a path below a folder once it is resolved.\<close>

datatype asset = Outside | NotAFile | Unreadable string | Bytes string

record folder =
  fd_name :: string
  fd_document :: text_file
  fd_asset :: "string \<Rightarrow> asset"
  fd_releases :: text_file

datatype entry = PlainFile string | Folder folder | OtherEntry string

fun entry_name :: "entry \<Rightarrow> string" where
  "entry_name (PlainFile n) = n"
| "entry_name (Folder f) = fd_name f"
| "entry_name (OtherEntry n) = n"

datatype catalog_dir = NoDir | NotADirectory | DirError string | Dir "entry list"

datatype catalog_error =
    CannotRead string string | NotYaml string | NotMapping string | InvalidDocument string | SlugMismatch string
  | AssetOutside string string | AssetMissing string string | BadIcon string string | BadScreenshot string string string
  | ScreenshotsTooLarge string | NotReleaseList string | UnquotedVersion string nat | InvalidRelease string nat
  | DuplicateVersion string string | NoCatalog | CatalogNotDir | CatalogUnreadable string | FlatDocument string
  | NoDocument string | DuplicateSlug string | NoSlug string | NoCanonical string | MissingCanonical string
  | NoSuchProduct string | AmbiguousProduct string nat | MissingIcon string | DbError error

definition read_asset :: "folder \<Rightarrow> string \<Rightarrow> (string \<Rightarrow> catalog_error) \<Rightarrow> catalog_error + string" where
  "read_asset f rel bad = (case fd_asset f rel of
     Outside \<Rightarrow> Inl (AssetOutside (fd_name f) rel) | NotAFile \<Rightarrow> Inl (AssetMissing (fd_name f) rel)
   | Unreadable m \<Rightarrow> Inl (bad m) | Bytes b \<Rightarrow> Inr b)"

definition load_icon :: "toolkit \<Rightarrow> folder \<Rightarrow> document \<Rightarrow> catalog_error + string option" where
  "load_icon tk f d = (case pb_icon (dc_product d) of
     None \<Rightarrow> Inr None
   | Some rel \<Rightarrow>
       bindR (read_asset f rel (BadIcon (fd_name f))) (\<lambda>b.
         case im_process (tk_images tk) b of Inl m \<Rightarrow> Inl (BadIcon (fd_name f) m) | Inr x \<Rightarrow> Inr (Some x)))"

definition screenshot_max_bytes :: nat where "screenshot_max_bytes = 1024 * 1024"
definition screenshot_max_dimension :: nat where "screenshot_max_dimension = 4096"
definition screenshots_max_total_bytes :: nat where "screenshots_max_total_bytes = 5 * 1024 * 1024"
definition screenshot_formats :: "string list" where "screenshot_formats = [''PNG'', ''JPEG'', ''WEBP'']"

definition check_screenshot :: "toolkit \<Rightarrow> string \<Rightarrow> string + unit" where
  "check_screenshot tk b =
     (if screenshot_max_bytes < length b then Inl ''is too large; the limit is 1 MB''
      else bindR (tk_open tk b) (\<lambda>(fmt, w, h).
        if fmt \<notin> set screenshot_formats then Inl ''screenshots must be PNG, JPEG or WebP''
        else if screenshot_max_dimension < max w h then Inl ''the long edge limit is 4096 px''
        else Inr ()))"

definition load_screenshot :: "toolkit \<Rightarrow> folder \<Rightarrow> shot_decl \<Rightarrow> catalog_error + loaded_shot" where
  "load_screenshot tk f s =
     bindR (read_asset f (sd_file s) (BadScreenshot (fd_name f) (sd_file s))) (\<lambda>b.
       case check_screenshot tk b of
         Inl m \<Rightarrow> Inl (BadScreenshot (fd_name f) (sd_file s) m)
       | Inr _ \<Rightarrow> Inr \<lparr>ls_declared = s, ls_source = b\<rparr>)"

definition load_screenshots :: "toolkit \<Rightarrow> folder \<Rightarrow> document \<Rightarrow> catalog_error + loaded_shot list" where
  "load_screenshots tk f d =
     bindR (mapR (load_screenshot tk f) (pb_shots (dc_product d))) (\<lambda>xs.
       if screenshots_max_total_bytes < sum_list (map (length \<circ> ls_source) xs) then Inl (ScreenshotsTooLarge (fd_name f)) else Inr xs)"

fun load_release_items :: "string \<Rightarrow> nat \<Rightarrow> string list \<Rightarrow> json list \<Rightarrow> catalog_error + catalog_release list" where
  "load_release_items name i seen [] = Inr []"
| "load_release_items name i seen (v # vs) =
     (case v of
        JObj d \<Rightarrow> if (case map_of d ''version'' of None \<Rightarrow> False | Some (JStr _) \<Rightarrow> False | Some _ \<Rightarrow> True)
                  then Inl (UnquotedVersion name i)
                  else (case release_of v of
                          None \<Rightarrow> Inl (InvalidRelease name i)
                        | Some r \<Rightarrow> if re_version r \<in> set seen then Inl (DuplicateVersion name (re_version r))
                                    else bindR (load_release_items name (Suc i) (re_version r # seen) vs) (\<lambda>rs. Inr (r # rs)))
      | _ \<Rightarrow> Inl (InvalidRelease name i))"

definition load_releases :: "toolkit \<Rightarrow> folder \<Rightarrow> catalog_error + catalog_release list" where
  "load_releases tk f = (case fd_releases f of
     NoFile \<Rightarrow> Inr []
   | ReadError m \<Rightarrow> Inl (CannotRead (fd_name f) m)
   | Text s \<Rightarrow>
       (case tk_yaml tk s of
          Inl _ \<Rightarrow> Inl (NotYaml (fd_name f))
        | Inr JNull \<Rightarrow> Inr []
        | Inr (JList vs) \<Rightarrow> load_release_items (fd_name f) 0 [] vs
        | Inr _ \<Rightarrow> Inl (NotReleaseList (fd_name f))))"

text \<open>The stem of the document's file and the name of its folder are both the folder's name.\<close>

definition load_document :: "toolkit \<Rightarrow> folder \<Rightarrow> catalog_error + catalog_file" where
  "load_document tk f = (case fd_document f of
     NoFile \<Rightarrow> Inl (NoDocument (fd_name f))
   | ReadError m \<Rightarrow> Inl (CannotRead (fd_name f) m)
   | Text s \<Rightarrow>
       (case tk_yaml tk s of
          Inl _ \<Rightarrow> Inl (NotYaml (fd_name f))
        | Inr v \<Rightarrow>
            if \<not> is_obj v then Inl (NotMapping (fd_name f))
            else (case document_of tk v of
                    None \<Rightarrow> Inl (InvalidDocument (fd_name f))
                  | Some d \<Rightarrow>
                      if pb_slug (dc_product d) \<noteq> fd_name f then Inl (SlugMismatch (fd_name f))
                      else bindR (load_icon tk f d) (\<lambda>icon.
                           bindR (load_screenshots tk f d) (\<lambda>shots.
                           bindR (load_releases tk f) (\<lambda>rs.
                             Inr \<lparr>cf_name = fd_name f, cf_document = d, cf_icon = icon, cf_shots = shots, cf_releases = rs\<rparr>))))))"

text \<open>Hidden entries are skipped, a document outside a folder is refused, other files are ignored.\<close>

definition document_folder :: "entry \<Rightarrow> catalog_error + folder list" where
  "document_folder x =
     (if starts_with (entry_name x) ''.'' then Inr []
      else case x of
             PlainFile n \<Rightarrow> if ends_with n ''.yaml'' \<or> ends_with n ''.yml'' then Inl (FlatDocument n) else Inr []
           | OtherEntry n \<Rightarrow> Inr []
           | Folder f \<Rightarrow> if fd_document f = NoFile then Inl (NoDocument (fd_name f)) else Inr [f])"

definition load_catalog :: "toolkit \<Rightarrow> catalog_dir \<Rightarrow> catalog_error + catalog_file list" where
  "load_catalog tk dir = (case dir of
     NoDir \<Rightarrow> Inl NoCatalog
   | NotADirectory \<Rightarrow> Inl CatalogNotDir
   | DirError m \<Rightarrow> Inl (CatalogUnreadable m)
   | Dir xs \<Rightarrow>
       bindR (mapR document_folder (sort_key entry_name xs)) (\<lambda>fs.
       bindR (mapR (load_document tk) (concat fs)) (\<lambda>entries.
         if distinct (map cf_slug entries) then Inr entries else Inl (DuplicateSlug ''slug''))))"

section \<open>What a template is\<close>

fun canon :: "json \<Rightarrow> json" where
  "canon (JObj d) = JObj (sort_key fst (map (\<lambda>(k, v). (k, canon v)) d))"
| "canon (JList xs) = JList (map canon xs)"
| "canon v = v"

definition jopt :: "('a \<Rightarrow> json) \<Rightarrow> 'a option \<Rightarrow> json" where
  "jopt f x = (case x of None \<Rightarrow> JNull | Some y \<Rightarrow> f y)"

definition spec_hash :: "toolkit \<Rightarrow> string \<Rightarrow> string \<Rightarrow> string option \<Rightarrow> pydict option \<Rightarrow> pydict option \<Rightarrow> string" where
  "spec_hash tk ref ver digest sv schema =
     tk_sha256 tk (dumps_with '','' '':'' (canon (JObj
       [(''chart_ref'', JStr ref), (''chart_version'', JStr ver), (''chart_digest'', jopt JStr digest),
        (''system_values'', JObj (dict_or_empty sv)), (''values_schema'', jopt JObj schema)])))"

definition template_spec_hash :: "toolkit \<Rightarrow> version_row \<Rightarrow> string" where
  "template_spec_hash tk t = spec_hash tk (t_chart_ref t) (t_chart_version t) (t_chart_digest t) (t_system_values t) (t_schema t)"

definition document_spec_hash :: "toolkit \<Rightarrow> document \<Rightarrow> string" where
  "document_spec_hash tk d =
     (let b = dc_template d
      in spec_hash tk (tb_chart_ref b) (tb_chart_version b) (tb_chart_digest b) (Some (tb_system_values b)) (tb_schema b))"

record version_spec =
  vs_chart_ref :: string
  vs_chart_version :: string
  vs_chart_digest :: "string option"
  vs_system_values :: pydict

definition document_spec :: "document \<Rightarrow> version_spec" where
  "document_spec d = (let b = dc_template d in
     \<lparr>vs_chart_ref = tb_chart_ref b, vs_chart_version = tb_chart_version b, vs_chart_digest = tb_chart_digest b,
      vs_system_values = tb_system_values b\<rparr>)"

definition row_spec :: "version_row \<Rightarrow> version_spec" where
  "row_spec t = \<lparr>vs_chart_ref = t_chart_ref t, vs_chart_version = t_chart_version t, vs_chart_digest = t_chart_digest t,
     vs_system_values = dict_or_empty (t_system_values t)\<rparr>"

definition spec_value :: "string list \<Rightarrow> version_spec \<Rightarrow> json option" where
  "spec_value parts s = (case parts of
     h # k # rest \<Rightarrow>
       if h \<noteq> ''template'' then None
       else if k = ''chart_ref'' then (if rest = [] then Some (JStr (vs_chart_ref s)) else None)
       else if k = ''chart_version'' then (if rest = [] then Some (JStr (vs_chart_version s)) else None)
       else if k = ''chart_digest'' then (if rest = [] then Some (jopt JStr (vs_chart_digest s)) else None)
       else if k = ''system_values'' then jpath rest (JObj (vs_system_values s))
       else None
   | _ \<Rightarrow> None)"

definition derive_version :: "toolkit \<Rightarrow> upstream_block \<Rightarrow> version_spec \<Rightarrow> string option" where
  "derive_version tk u s = (case spec_value (split_on CHR ''.'' (up_version_path u)) s of
     Some (JStr v) \<Rightarrow> tk_version tk (up_match u) v
   | Some (JInt i) \<Rightarrow> tk_version tk (up_match u) (int_str i)
   | _ \<Rightarrow> None)"

section \<open>Curating a product\<close>

text \<open>\<^verbatim>\<open>re.sub(r"[^a-z0-9]+", "-", s)\<close>.\<close>

fun dash_runs :: "bool \<Rightarrow> string \<Rightarrow> string" where
  "dash_runs inrun [] = []"
| "dash_runs inrun (c # cs) =
     (if slug_char c then c # dash_runs False cs
      else if inrun then dash_runs True cs
      else CHR ''-'' # dash_runs True cs)"

definition slugify :: "string \<Rightarrow> catalog_error + string" where
  "slugify name =
     (let slug = strip (\<lambda>c. c = CHR ''-'') (dash_runs False (lower (strip is_space name)))
      in if slug = [] then Inl (NoSlug name) else Inr slug)"

definition placeholder_upstream :: upstream_block where
  "placeholder_upstream = \<lparr>up_source = GithubRelease ''OWNER/REPO'', up_match = ''^v(?P<version>.+)$'',
     up_version_path = ''template.system_values.image.tag''\<rparr>"

definition document_from_product :: "listed_product \<Rightarrow> version_row \<Rightarrow> string \<Rightarrow> string option \<Rightarrow> document" where
  "document_from_product p t slug icon =
     \<lparr>dc_schema_version = catalog_schema_version,
      dc_product = \<lparr>pb_slug = slug, pb_name = p_name p, pb_tagline = lp_tagline p, pb_description = lp_description p,
        pb_category = lp_category p, pb_replaces = lp_replaces p, pb_icon = icon, pb_license = lp_license p,
        pb_features = lp_features p, pb_links = lp_links p, pb_shots = []\<rparr>,
      dc_upstream = placeholder_upstream,
      dc_template = \<lparr>tb_chart_ref = t_chart_ref t, tb_chart_version = t_chart_version t, tb_chart_digest = t_chart_digest t,
        tb_system_values = dict_or_empty (t_system_values t), tb_schema = t_schema t\<rparr>\<rparr>"

definition find_curatable :: "string \<Rightarrow> store \<Rightarrow> catalog_error + listed_product" where
  "find_curatable ident st =
     (let ps = filter live (so_products st) in
      case find (\<lambda>p. p_slug p = Some ident) ps of
        Some p \<Rightarrow> Inr p
      | None \<Rightarrow>
          (case filter (\<lambda>p. lower (p_name p) = lower ident) ps of
             [p] \<Rightarrow> Inr p
           | [] \<Rightarrow> Inl (NoSuchProduct ident)
           | ms \<Rightarrow> Inl (AmbiguousProduct ident (length ms))))"

definition read_product_icon :: "files \<Rightarrow> listed_product \<Rightarrow> catalog_error + string option" where
  "read_product_icon fs p = (case lp_icon p of
     None \<Rightarrow> Inr None
   | Some rel \<Rightarrow> if rel = [] then Inr None
                 else (case map_of fs rel of None \<Rightarrow> Inl (MissingIcon rel) | Some b \<Rightarrow> Inr (Some b)))"

text \<open>The document and the icon that are written below the folder \<open>slug\<close>; the database is not touched.\<close>

definition curate_product :: "string \<Rightarrow> files \<Rightarrow> store \<Rightarrow> catalog_error + string \<times> document \<times> string option" where
  "curate_product ident fs st =
     bindR (find_curatable ident st) (\<lambda>p.
       case p_template_id p of
         None \<Rightarrow> Inl (NoCanonical (p_name p))
       | Some i \<Rightarrow>
           (case row_get t_id i (so_versions st) of
              None \<Rightarrow> Inl (MissingCanonical (p_name p))
            | Some t \<Rightarrow>
                if t_deleted_at t \<noteq> None then Inl (MissingCanonical (p_name p))
                else bindR (case p_slug p of None \<Rightarrow> slugify (p_name p)
                            | Some s \<Rightarrow> if s = [] then slugify (p_name p) else Inr s) (\<lambda>slug.
                     bindR (read_product_icon fs p) (\<lambda>icon.
                       Inr (slug, document_from_product p t slug (map_option (\<lambda>_. ''icon.png'') icon), icon)))))"

end
