(* ===== verification/CatalogApply.thy ===== *)
theory CatalogApply
  imports Catalog
begin

text \<open>
  The reconciler of the product catalog, \<open>CatalogReconciler\<close> of \<^verbatim>\<open>api/app/services/catalog.py\<close>. One run
  is one transaction under an advisory lock: every document is loaded before the database is touched,
  an error takes all of it back (not the files written to static storage, which are named by their
  contents), and a dry run computes the same plan and takes it back too. A query without an order
  answers in table order.
\<close>

section \<open>The report\<close>

record action =
  ac_kind :: string
  ac_slug :: string
  ac_detail :: string

type_synonym report = "action list"

definition opt_nat_str :: "nat option \<Rightarrow> string" where
  "opt_nat_str i = (case i of None \<Rightarrow> ''None'' | Some n \<Rightarrow> nat_str n)"

section \<open>Finding the product\<close>

definition unlisted_product :: "string \<Rightarrow> string \<Rightarrow> listed_product" where
  "unlisted_product name slug =
     \<lparr>p_id = 0, p_name = name, p_slug = Some slug, p_template_id = None, lp_tagline = None, lp_description = None,
      lp_category = None, lp_replaces = None, lp_license = None, lp_features = [], lp_links = [], lp_shots = [],
      lp_curated = True, lp_visibility = VisAdmin, lp_icon = None, lp_deleted_at = None\<rparr>"

definition curated_as :: "string \<Rightarrow> listed_product \<Rightarrow> bool" where
  "curated_as slug p \<longleftrightarrow> live p \<and> lp_curated p \<and> p_slug p = Some slug"

definition adoptable :: "string \<Rightarrow> listed_product \<Rightarrow> bool" where
  "adoptable name p \<longleftrightarrow> live p \<and> \<not> lp_curated p \<and> p_slug p = None \<and> lower (p_name p) = lower name"

definition resolve_product :: "catalog_file \<Rightarrow> store \<Rightarrow> catalog_error + listed_product \<times> report \<times> store" where
  "resolve_product e st =
     (let slug = cf_slug e; name = pb_name (dc_product (cf_document e)) in
      case filter (curated_as slug) (so_products st) of
        [p] \<Rightarrow> Inr (p, [], st)
      | _ # _ # _ \<Rightarrow> Inl (DbError (CaelusErr ''MultipleResultsFound''))
      | [] \<Rightarrow>
          (case find (adoptable name) (so_products st) of
             Some p \<Rightarrow> Inr (p, [\<lparr>ac_kind = ''product-adopted'', ac_slug = slug, ac_detail = ''adopted product id='' @ nat_str (p_id p)\<rparr>], st)
           | None \<Rightarrow>
               (case add_product (unlisted_product name slug) st of
                  Inl x \<Rightarrow> Inl (DbError x)
                | Inr (p, st') \<Rightarrow> Inr (p, [\<lparr>ac_kind = ''product-created'', ac_slug = slug, ac_detail = ''created product id='' @ nat_str (p_id p)\<rparr>], st'))))"

definition with_fields :: "catalog_file \<Rightarrow> listed_product \<Rightarrow> listed_product" where
  "with_fields e p = (let b = dc_product (cf_document e) in
     p\<lparr>p_name := pb_name b, p_slug := Some (pb_slug b), lp_tagline := pb_tagline b, lp_description := pb_description b,
       lp_category := pb_category b, lp_replaces := pb_replaces b, lp_license := pb_license b, lp_features := pb_features b,
       lp_links := pb_links b, lp_curated := True\<rparr>)"

text \<open>An \<^verbatim>\<open>UPDATE\<close> that leaves the name and the slug alone is checked against no index.\<close>

definition set_product :: "listed_product \<Rightarrow> store \<Rightarrow> store" where
  "set_product p st = st\<lparr>so_products := row_upd p_id (p_id p) (\<lambda>_. p) (so_products st)\<rparr>"

section \<open>Icon and screenshots\<close>

definition materialize_icon ::
    "toolkit \<Rightarrow> bool \<Rightarrow> catalog_file \<Rightarrow> listed_product \<Rightarrow> files \<Rightarrow> files \<times> listed_product \<times> report" where
  "materialize_icon tk dry e p fs =
     (case cf_icon e of
        None \<Rightarrow> (fs, p, [])
      | Some d \<Rightarrow>
          let rel = generate_icon_filename (tk_images tk) d;
              path_matches = (lp_icon p = Some rel)
          in if path_matches \<and> is_file fs rel then (fs, p, [])
             else (if dry then fs else save_static d rel fs,
                   if path_matches then p else p\<lparr>lp_icon := Some rel\<rparr>,
                   [\<lparr>ac_kind = ''icon-materialized'', ac_slug = cf_slug e,
                     ac_detail = (if path_matches then ''repopulated '' else ''wrote '') @ rel\<rparr>]))"

definition screenshot_rel_path :: "toolkit \<Rightarrow> string \<Rightarrow> string" where
  "screenshot_rel_path tk source = ''screenshots/'' @ im_sha1 (tk_images tk) (''v1:'' @ source) @ ''.webp''"

definition stored_of :: "toolkit \<Rightarrow> loaded_shot \<Rightarrow> stored_shot" where
  "stored_of tk s = (let d = ls_declared s in
     \<lparr>sh_path = screenshot_rel_path tk (ls_source s), sh_caption = sd_caption d, sh_form = sd_form d, sh_credit = sd_credit d\<rparr>)"

fun materialize_shots ::
    "toolkit \<Rightarrow> bool \<Rightarrow> catalog_file \<Rightarrow> loaded_shot list \<Rightarrow> files \<Rightarrow> files \<times> (catalog_error + report)" where
  "materialize_shots tk dry e [] fs = (fs, Inr [])"
| "materialize_shots tk dry e (s # ss) fs =
     (let rel = screenshot_rel_path tk (ls_source s); thumb = screenshot_thumbnail_path rel in
      if is_file fs rel \<and> is_file fs thumb then materialize_shots tk dry e ss fs
      else let act = \<lparr>ac_kind = ''screenshot-materialized'', ac_slug = cf_slug e, ac_detail = ''wrote '' @ rel\<rparr> in
           if dry then (case materialize_shots tk dry e ss fs of (fs', r) \<Rightarrow> (fs', bindR r (\<lambda>as. Inr (act # as))))
           else (case tk_render tk (ls_source s) of
                   Inl m \<Rightarrow> (fs, Inl (BadScreenshot (cf_name e) (sd_file (ls_declared s)) m))
                 | Inr (full, small) \<Rightarrow>
                     (case materialize_shots tk dry e ss (save_static small thumb (save_static full rel fs)) of
                        (fs', r) \<Rightarrow> (fs', bindR r (\<lambda>as. Inr (act # as))))))"

definition with_shots :: "toolkit \<Rightarrow> catalog_file \<Rightarrow> listed_product \<Rightarrow> listed_product" where
  "with_shots tk e p = p\<lparr>lp_shots := map (stored_of tk) (cf_shots e)\<rparr>"

section \<open>Templates, versions and releases\<close>

definition matching :: "toolkit \<Rightarrow> catalog_file \<Rightarrow> nat \<Rightarrow> version_row \<Rightarrow> bool" where
  "matching tk e i t \<longleftrightarrow>
     t_product t = i \<and> t_deleted_at t = None \<and> template_spec_hash tk t = document_spec_hash tk (cf_document e)"

definition inserted_version :: "toolkit \<Rightarrow> string option \<Rightarrow> time \<Rightarrow> catalog_file \<Rightarrow> nat \<Rightarrow> version_row" where
  "inserted_version tk commit now e i = (let b = dc_template (cf_document e) in
     (new_version now i (tb_chart_ref b) (tb_chart_version b) (tb_chart_digest b) (Some (tb_system_values b)) (tb_schema b))
       \<lparr>vr_commit := commit, vr_version := derive_version tk (dc_upstream (cf_document e)) (document_spec (cf_document e))\<rparr>)"

definition resolve_template ::
    "toolkit \<Rightarrow> string option \<Rightarrow> time \<Rightarrow> catalog_file \<Rightarrow> nat \<Rightarrow> store \<Rightarrow> version_row \<times> report \<times> store" where
  "resolve_template tk commit now e i st =
     (case find (matching tk e i) (so_versions st) of
        Some t \<Rightarrow> (t, [], st)
      | None \<Rightarrow>
          (case add_version (inserted_version tk commit now e i) st of
             (t, st') \<Rightarrow> (t, [\<lparr>ac_kind = ''template-inserted'', ac_slug = cf_slug e,
               ac_detail = ''inserted template id='' @ nat_str (t_id t) @ '' chart_version='' @ t_chart_version t\<rparr>], st')))"

definition repoint :: "catalog_file \<Rightarrow> listed_product \<Rightarrow> version_row \<Rightarrow> store \<Rightarrow> report \<times> store" where
  "repoint e p t st =
     (if p_template_id p = Some (t_id t) then ([], st)
      else ([\<lparr>ac_kind = ''canonical-repointed'', ac_slug = cf_slug e,
              ac_detail = ''template_id '' @ opt_nat_str (p_template_id p) @ '' -> '' @ nat_str (t_id t)\<rparr>],
            set_product (p\<lparr>p_template_id := Some (t_id t)\<rparr>) st))"

definition stampable :: "toolkit \<Rightarrow> catalog_file \<Rightarrow> nat \<Rightarrow> version_row \<Rightarrow> string option" where
  "stampable tk e i t =
     (if t_product t = i \<and> t_deleted_at t = None \<and> vr_version t = None
      then derive_version tk (dc_upstream (cf_document e)) (row_spec t) else None)"

definition stamp_versions :: "toolkit \<Rightarrow> catalog_file \<Rightarrow> nat \<Rightarrow> store \<Rightarrow> report \<times> store" where
  "stamp_versions tk e i st =
     (concat (map (\<lambda>t. case stampable tk e i t of None \<Rightarrow> []
          | Some v \<Rightarrow> [\<lparr>ac_kind = ''version-stamped'', ac_slug = cf_slug e, ac_detail = ''template '' @ nat_str (t_id t) @ '' -> '' @ v\<rparr>]) (so_versions st)),
      st\<lparr>so_versions := map (\<lambda>t. case stampable tk e i t of None \<Rightarrow> t | Some v \<Rightarrow> t\<lparr>vr_version := Some v\<rparr>) (so_versions st)\<rparr>)"

definition release_action :: "catalog_file \<Rightarrow> string \<Rightarrow> string \<Rightarrow> action" where
  "release_action e kind v = \<lparr>ac_kind = kind, ac_slug = cf_slug e, ac_detail = v\<rparr>"

definition sync_release :: "time \<Rightarrow> catalog_file \<Rightarrow> nat \<Rightarrow> release_row list \<Rightarrow> nat \<times> catalog_release \<Rightarrow> report \<times> store \<Rightarrow> report \<times> store" where
  "sync_release now e i existing = (\<lambda>(position, r) (rep, st).
     (case find (\<lambda>x. rl_version x = re_version r) existing of
        None \<Rightarrow>
          (rep @ [release_action e ''release-inserted'' (re_version r)],
           st\<lparr>so_releases := so_releases st @
                [\<lparr>rl_id = so_next_release st, rl_product = i, rl_version = re_version r, rl_notes = re_notes r,
                  rl_position = position, rl_updated_at = now\<rparr>], so_next_release := Suc (so_next_release st)\<rparr>)
      | Some x \<Rightarrow>
          if rl_notes x = re_notes r \<and> rl_position x = position then (rep, st)
          else (rep @ [release_action e ''release-updated'' (re_version r)],
                st\<lparr>so_releases := row_upd rl_id (rl_id x)
                     (\<lambda>x. x\<lparr>rl_notes := re_notes r, rl_position := position, rl_updated_at := now\<rparr>) (so_releases st)\<rparr>)))"

definition sync_releases :: "time \<Rightarrow> catalog_file \<Rightarrow> nat \<Rightarrow> store \<Rightarrow> report \<times> store" where
  "sync_releases now e i st =
     (let existing = filter (\<lambda>x. rl_product x = i) (so_releases st);
          wanted = map re_version (cf_releases e);
          gone = filter (\<lambda>x. rl_version x \<notin> set wanted) existing
      in fold (sync_release now e i existing) (enumerate 0 (cf_releases e))
           (map (\<lambda>x. release_action e ''release-deleted'' (rl_version x)) gone,
            st\<lparr>so_releases := filter (\<lambda>x. \<not> (rl_product x = i \<and> rl_version x \<notin> set wanted)) (so_releases st)\<rparr>))"

section \<open>One document, and the run\<close>

definition settle_document ::
    "toolkit \<Rightarrow> string option \<Rightarrow> time \<Rightarrow> catalog_file \<Rightarrow> listed_product \<Rightarrow> store \<Rightarrow> report \<times> store" where
  "settle_document tk commit now e p st =
     (case resolve_template tk commit now e (p_id p) st of (t, r1, st1) \<Rightarrow>
      case repoint e p t st1 of (r2, st2) \<Rightarrow>
      case stamp_versions tk e (p_id p) st2 of (r3, st3) \<Rightarrow>
      case sync_releases now e (p_id p) st3 of (r4, st4) \<Rightarrow> (r1 @ r2 @ r3 @ r4, st4))"

definition apply_document ::
    "toolkit \<Rightarrow> string option \<Rightarrow> time \<Rightarrow> bool \<Rightarrow> catalog_file \<Rightarrow> files \<Rightarrow> store \<Rightarrow> files \<times> (catalog_error + report \<times> store)" where
  "apply_document tk commit now dry e fs st =
     (case resolve_product e st of
        Inl x \<Rightarrow> (fs, Inl x)
      | Inr (p0, r0, st0) \<Rightarrow>
          (case put_product (with_fields e p0) st0 of
             Inl x \<Rightarrow> (fs, Inl (DbError x))
           | Inr st1 \<Rightarrow>
               (case materialize_icon tk dry e (with_fields e p0) fs of (fs1, p1, r1) \<Rightarrow>
                case materialize_shots tk dry e (cf_shots e) fs1 of
                  (fs2, Inl x) \<Rightarrow> (fs2, Inl x)
                | (fs2, Inr r2) \<Rightarrow>
                    (case settle_document tk commit now e (with_shots tk e p1) (set_product (with_shots tk e p1) st1) of
                       (r3, st3) \<Rightarrow> (fs2, Inr (r0 @ r1 @ r2 @ r3, st3))))))"

fun apply_documents ::
    "toolkit \<Rightarrow> string option \<Rightarrow> time \<Rightarrow> bool \<Rightarrow> catalog_file list \<Rightarrow> files \<Rightarrow> store \<Rightarrow> files \<times> (catalog_error + report \<times> store)" where
  "apply_documents tk commit now dry [] fs st = (fs, Inr ([], st))"
| "apply_documents tk commit now dry (e # es) fs st =
     (case apply_document tk commit now dry e fs st of
        (fs1, Inl x) \<Rightarrow> (fs1, Inl x)
      | (fs1, Inr (r1, st1)) \<Rightarrow>
          (case apply_documents tk commit now dry es fs1 st1 of
             (fs2, r) \<Rightarrow> (fs2, bindR r (\<lambda>(r2, st2). Inr (r1 @ r2, st2)))))"

definition undeclared :: "string list \<Rightarrow> listed_product \<Rightarrow> bool" where
  "undeclared declared p \<longleftrightarrow> live p \<and> lp_curated p \<and> p_slug p \<notin> Some ` set declared"

definition release_undeclared :: "string list \<Rightarrow> store \<Rightarrow> report \<times> store" where
  "release_undeclared declared st =
     (map (\<lambda>p. \<lparr>ac_kind = ''product-released'', ac_slug = (case p_slug p of None \<Rightarrow> [] | Some s \<Rightarrow> s), ac_detail = ''released product id='' @ nat_str (p_id p)\<rparr>)
        (filter (undeclared declared) (so_products st)),
      st\<lparr>so_products := map (\<lambda>p. if undeclared declared p then p\<lparr>lp_curated := False, p_slug := None\<rparr> else p) (so_products st)\<rparr>)"

definition run_entries ::
    "toolkit \<Rightarrow> string option \<Rightarrow> time \<Rightarrow> bool \<Rightarrow> catalog_file list \<Rightarrow> files \<Rightarrow> store \<Rightarrow> files \<times> (catalog_error + report \<times> store)" where
  "run_entries tk commit now dry es fs st =
     (case apply_documents tk commit now dry es fs st of
        (fs1, Inl x) \<Rightarrow> (fs1, Inl x)
      | (fs1, Inr (r1, st1)) \<Rightarrow>
          (case release_undeclared (map cf_slug es) st1 of (r2, st2) \<Rightarrow> (fs1, Inr (r1 @ r2, if dry then st else st2))))"

definition apply_catalog ::
    "toolkit \<Rightarrow> string option \<Rightarrow> time \<Rightarrow> bool \<Rightarrow> catalog_dir \<Rightarrow> files \<Rightarrow> store \<Rightarrow> files \<times> (catalog_error + report \<times> store)" where
  "apply_catalog tk commit now dry dir fs st =
     (case load_catalog tk dir of Inl x \<Rightarrow> (fs, Inl x) | Inr es \<Rightarrow> run_entries tk commit now dry es fs st)"

end
