(* ===== verification/ProductGuards.thy ===== *)
theory ProductGuards
  imports Products
begin

text \<open>
  What the services of \<open>Products\<close> guarantee. The tables stay well formed, and the catalog owns what it
  declares: no request changes the slug or the curation of a product, none deletes a curated product
  or one of its templates, and a request that is not forced leaves everything but the visibility of
  such a product as it was.
\<close>

section \<open>Well-formed tables\<close>

text \<open>A slug is what makes a product curated, and a curated product is not deleted.\<close>

definition curation_ok :: "listed_product \<Rightarrow> bool" where
  "curation_ok p \<longleftrightarrow> (lp_curated p \<longleftrightarrow> p_slug p \<noteq> None) \<and> (lp_curated p \<longrightarrow> live p)"

definition products_ok :: "listed_product list \<Rightarrow> bool" where
  "products_ok ps \<longleftrightarrow> keyed p_id ps \<and> one_open name_key live ps \<and> one_open p_slug slugged ps \<and> list_all curation_ok ps"

definition release_key :: "release_row \<Rightarrow> nat \<times> string" where
  "release_key r = (rl_product r, rl_version r)"

definition store_ok :: "store \<Rightarrow> bool" where
  "store_ok st \<longleftrightarrow> products_ok (so_products st) \<and> (\<forall>p \<in> set (so_products st). p_id p < so_next_product st) \<and>
     keyed t_id (so_versions st) \<and> (\<forall>t \<in> set (so_versions st). t_id t < so_next_version st) \<and>
     keyed rl_id (so_releases st) \<and> keyed release_key (so_releases st) \<and> (\<forall>r \<in> set (so_releases st). rl_id r < so_next_release st)"

lemma products_replace:
  assumes "products_ok ps" "\<not> name_clash p ps" "\<not> slug_clash p ps" "curation_ok p"
  shows "products_ok (row_upd p_id (p_id p) (\<lambda>_. p) ps)"
proof -
  have "map p_id (row_upd p_id (p_id p) (\<lambda>_. p) ps) = map p_id ps" by (simp add: row_upd_def)
  moreover have "list_all curation_ok (row_upd p_id (p_id p) (\<lambda>_. p) ps)"
    using assms(1,4) by (auto simp: products_ok_def list_all_iff row_upd_def)
  ultimately show ?thesis
    using assms one_open_replace[of p_id ps name_key live p] one_open_replace[of p_id ps p_slug slugged p]
    by (simp add: products_ok_def name_clash_def slug_clash_def)
qed

lemma products_add:
  assumes "products_ok ps" "\<not> name_clash p ps" "\<not> slug_clash p ps" "curation_ok p" "\<forall>q \<in> set ps. p_id q \<noteq> p_id p"
  shows "products_ok (ps @ [p])"
proof -
  have "filter (\<lambda>q. p_id q \<noteq> p_id p) ps = ps" using assms(5) by (simp add: filter_id_conv)
  then show ?thesis using assms by (auto simp: products_ok_def one_open_snoc name_clash_def slug_clash_def)
qed

lemma check_product_Inr [simp]: "check_product p ps = Inr u \<longleftrightarrow> \<not> name_clash p ps \<and> \<not> slug_clash p ps"
  by (simp add: check_product_def)

lemma put_product_ok:
  assumes "store_ok st" "put_product p st = Inr st'" "curation_ok p" "p_id p < so_next_product st"
  shows "store_ok st'"
  using assms products_replace by (auto simp: store_ok_def put_product_def result_simps row_upd_def)

lemma add_product_ok:
  assumes "store_ok st" "add_product p st = Inr (q, st')" "curation_ok p"
  shows "store_ok st' \<and> q = p\<lparr>p_id := so_next_product st\<rparr>"
proof -
  let ?q = "p\<lparr>p_id := so_next_product st\<rparr>"
  have "curation_ok ?q" using assms(3) by (simp add: curation_ok_def live_def)
  then show ?thesis using assms products_add[of "so_products st" ?q]
    by (fastforce simp: store_ok_def add_product_def Let_def result_simps less_Suc_eq)
qed

lemma add_version_ok:
  assumes "store_ok st" "add_version t st = (u, st')"
  shows "store_ok st' \<and> u = t\<lparr>t_id := so_next_version st\<rparr> \<and> so_versions st' = so_versions st @ [u] \<and>
     so_products st' = so_products st \<and> so_releases st' = so_releases st"
  using assms by (fastforce simp: store_ok_def add_version_def Let_def less_Suc_eq)

lemma find_product_Some:
  "find_product i st = Some p \<Longrightarrow> p \<in> set (so_products st) \<and> p_id p = i \<and> live p"
  by (auto simp: find_product_def find_Some_iff)

lemma need_product_Inr: "need_product i st = Inr p \<Longrightarrow> p \<in> set (so_products st) \<and> p_id p = i \<and> live p"
  using find_product_Some by (auto simp: need_product_def split: option.splits)

section \<open>The requests\<close>

datatype product_request =
    CreateProduct product_create "string option"
  | UpdateProduct nat product_update "string option" bool
  | DeleteProduct time nat bool
  | UploadIcon nat string
  | CreateTemplate time template_create bool
  | DeleteTemplate time nat nat bool

fun product_step :: "imaging \<Rightarrow> schema_check \<Rightarrow> product_request \<Rightarrow> store \<Rightarrow> store result" where
  "product_step im sc (CreateProduct pc icon) st = bindR (snd (create_product im pc icon [] st)) (\<lambda>(p, st'). Inr st')"
| "product_step im sc (UpdateProduct i u icon force) st = snd (update_product im i u icon force [] st)"
| "product_step im sc (DeleteProduct now i force) st = delete_product now i force st"
| "product_step im sc (UploadIcon i d) st = snd (upload_product_icon im i d [] st)"
| "product_step im sc (CreateTemplate now tc force) st = bindR (create_template sc now tc force st) (\<lambda>(t, st'). Inr st')"
| "product_step im sc (DeleteTemplate now i t force) st = delete_template now i t force st"

text \<open>The override exists for modifications; a deletion accepts the flag and ignores it.\<close>

fun forced :: "product_request \<Rightarrow> bool" where
  "forced (UpdateProduct i u icon force) = force"
| "forced (CreateTemplate now tc force) = force"
| "forced _ = False"

text \<open>A product row a request writes is the row it read with some fields changed.\<close>

definition kept_identity :: "listed_product \<Rightarrow> listed_product \<Rightarrow> bool" where
  "kept_identity p q \<longleftrightarrow> p_id q = p_id p \<and> p_slug q = p_slug p \<and> lp_curated q = lp_curated p"

lemma updated_kept: "kept_identity p (updated_product u (f p))" if "kept_identity p (f p)"
  using that by (simp add: kept_identity_def updated_product_def)

lemma retarget_kept: "retarget u i st = Inr f \<Longrightarrow> kept_identity p (f p) \<and> lp_deleted_at (f p) = lp_deleted_at p"
  by (auto simp: retarget_def kept_identity_def result_simps split: option.splits if_splits)

lemma update_writes:
  assumes "snd (update_product im i u icon force fs st) = Inr st'"
  shows "\<exists>p q. need_product i st = Inr p \<and> put_product q st = Inr st' \<and> kept_identity p q \<and> lp_deleted_at q = lp_deleted_at p \<and>
    (lp_curated p \<and> \<not> force \<longrightarrow> q = p\<lparr>lp_visibility := lp_visibility q\<rparr>)"
proof (cases "bindR (need_product i st) (\<lambda>p.
           bindR (if touches_catalog_state u icon then assert_mutable force p else Inr ()) (\<lambda>_.
           bindR (retarget u i st) (\<lambda>f. Inr (updated_product u (f p)))))")
  case (Inl e)
  then show ?thesis using assms by (simp add: update_product_def)
next
  case (Inr q0)
  then obtain p f where p: "need_product i st = Inr p" "touches_catalog_state u icon \<Longrightarrow> assert_mutable force p = Inr ()"
      "retarget u i st = Inr f" "q0 = updated_product u (f p)"
    by (auto simp: result_simps split: if_splits)
  note k = retarget_kept[OF p(3), of p]
  have q0: "kept_identity p q0" "lp_deleted_at q0 = lp_deleted_at p"
    using k updated_kept p(4) by (auto simp: updated_product_def)
  have still: "q0 = p\<lparr>lp_visibility := lp_visibility q0\<rparr> \<and> icon = None" if "lp_curated p" "\<not> force"
  proof -
    have "\<not> touches_catalog_state u icon" using p(2) that by (auto simp: assert_mutable_def)
    then have n: "icon = None" "pu_name u = None" "pu_template_id u = None" "pu_description u = None" "pu_category u = None"
      "pu_replaces u = None" "pu_tagline u = None" "pu_license u = None" "pu_features u = None" "pu_links u = None"
      by (auto simp: touches_catalog_state_def)
    then have "f = id" using p(3) by (simp add: retarget_def)
    with n p(4) show ?thesis by (simp add: updated_product_def or_else_def or_keep_def)
  qed
  obtain q where q: "put_product q st = Inr st'" "q = q0 \<and> icon = None \<or> icon \<noteq> None \<and> (\<exists>x. q = q0\<lparr>lp_icon := x\<rparr>)"
    using assms Inr by (auto simp: update_product_def split: option.splits if_splits sum.splits)
  have "kept_identity p q" "lp_deleted_at q = lp_deleted_at p" using q(2) q0 by (auto simp: kept_identity_def)
  moreover have "q = p\<lparr>lp_visibility := lp_visibility q\<rparr>" if "lp_curated p" "\<not> force"
    using still[OF that] q(2) by auto
  ultimately show ?thesis using p(1) q(1) by blast
qed

lemma upload_writes:
  assumes "snd (upload_product_icon im i d fs st) = Inr st'"
  shows "\<exists>p x. need_product i st = Inr p \<and> put_product (p\<lparr>lp_icon := x\<rparr>) st = Inr st' \<and> \<not> lp_curated p"
  using assms by (auto simp: upload_product_icon_def assert_mutable_def result_simps split: if_splits sum.splits)

lemma delete_writes:
  assumes "delete_product now i force st = Inr st'"
  shows "\<exists>p. need_product i st = Inr p \<and> put_product (p\<lparr>lp_deleted_at := Some now\<rparr>) st = Inr st' \<and> \<not> lp_curated p"
  using assms by (auto simp: delete_product_def assert_deletable_def result_simps split: if_splits)

lemma create_writes:
  assumes "snd (create_product im pc icon fs st) = Inr (p, st')"
  shows "\<exists>x. add_product ((new_product pc)\<lparr>lp_icon := x\<rparr>) st = Inr (p, st')"
proof -
  have "commit_create q st = Inr (p, st') \<Longrightarrow> add_product q st = Inr (p, st')" for q
    by (auto simp: commit_create_def split: sum.splits if_splits)
  moreover have "new_product pc = (new_product pc)\<lparr>lp_icon := None\<rparr>" by (simp add: new_product_def)
  ultimately show ?thesis using assms by (auto simp: create_product_def split: if_splits option.splits sum.splits) metis+
qed

lemma template_writes:
  assumes "create_template sc now tc force st = Inr (t, st')"
  shows "\<exists>p u. need_product (tc_product tc) st = Inr p \<and> (lp_curated p \<longrightarrow> force) \<and> add_version u st = (t, st') \<and>
    t_product u = tc_product tc \<and> vr_commit u = None \<and> t_deleted_at u = None"
proof -
  obtain p where p: "need_product (tc_product tc) st = Inr p" "lp_curated p \<longrightarrow> force"
    using assms by (auto simp: create_template_def result_simps assert_mutable_def split: if_splits)
  moreover obtain r v where "add_version (new_version now (tc_product tc) r v (tc_chart_digest tc) (tc_system_values tc) (tc_schema tc)) st = (t, st')"
    using assms by (auto simp: create_template_def result_simps split: option.splits)
  ultimately show ?thesis by (intro exI conjI) (assumption | simp add: new_version_def)+
qed

lemma untemplate_writes:
  assumes "delete_template now i t force st = Inr st'"
  shows "\<exists>p r. need_product i st = Inr p \<and> \<not> lp_curated p \<and> row_get t_id t (so_versions st) = Some r \<and> t_product r = i \<and>
    st' = st\<lparr>so_versions := row_upd t_id t (\<lambda>r. r\<lparr>t_deleted_at := Some now\<rparr>) (so_versions st)\<rparr>"
  using assms by (auto simp: delete_template_def result_simps assert_deletable_def split: option.splits if_splits)

lemma kept_curation: "curation_ok p \<Longrightarrow> kept_identity p q \<Longrightarrow> lp_deleted_at q = lp_deleted_at p \<Longrightarrow> curation_ok q"
  by (simp add: curation_ok_def kept_identity_def live_def)

lemma store_ok_product: "store_ok st \<Longrightarrow> p \<in> set (so_products st) \<Longrightarrow> curation_ok p \<and> p_id p < so_next_product st"
  by (simp add: store_ok_def products_ok_def list_all_iff)

lemma product_step_ok:
  assumes "store_ok st" "product_step im sc q st = Inr st'"
  shows "store_ok st'"
proof (cases q)
  case (CreateProduct pc icon)
  then obtain p x where "add_product ((new_product pc)\<lparr>lp_icon := x\<rparr>) st = Inr (p, st')"
    using assms(2) create_writes by (auto simp: result_simps) blast
  then show ?thesis using add_product_ok[OF assms(1)] by (simp add: curation_ok_def new_product_def live_def)
next
  case (UpdateProduct i u icon force)
  then obtain p r where p: "need_product i st = Inr p" "put_product r st = Inr st'" "kept_identity p r" "lp_deleted_at r = lp_deleted_at p"
    using assms(2) update_writes by (metis product_step.simps(2))
  have "curation_ok p" "p_id p < so_next_product st" using store_ok_product[OF assms(1)] need_product_Inr[OF p(1)] by blast+
  with kept_curation p(3,4) have "curation_ok r" "p_id r < so_next_product st" by (auto simp: kept_identity_def)
  then show ?thesis using put_product_ok[OF assms(1) p(2)] by blast
next
  case (DeleteProduct now i force)
  then obtain p where p: "need_product i st = Inr p" "put_product (p\<lparr>lp_deleted_at := Some now\<rparr>) st = Inr st'" "\<not> lp_curated p"
    using assms(2) delete_writes by (metis product_step.simps(3))
  have "curation_ok p" "p_id p < so_next_product st" using store_ok_product[OF assms(1)] need_product_Inr[OF p(1)] by blast+
  then show ?thesis using put_product_ok[OF assms(1) p(2)] p(3) by (simp add: curation_ok_def)
next
  case (UploadIcon i d)
  then obtain p x where p: "need_product i st = Inr p" "put_product (p\<lparr>lp_icon := x\<rparr>) st = Inr st'"
    using assms(2) upload_writes by (metis product_step.simps(4))
  have "curation_ok p" "p_id p < so_next_product st" using store_ok_product[OF assms(1)] need_product_Inr[OF p(1)] by blast+
  then show ?thesis using put_product_ok[OF assms(1) p(2)] by (simp add: curation_ok_def live_def)
next
  case (CreateTemplate now tc force)
  then obtain t where "create_template sc now tc force st = Inr (t, st')" using assms(2) by (auto simp: result_simps)
  then show ?thesis using template_writes add_version_ok[OF assms(1)] by metis
next
  case (DeleteTemplate now i t force)
  then obtain r where "st' = st\<lparr>so_versions := row_upd t_id t (\<lambda>r. r\<lparr>t_deleted_at := Some now\<rparr>) (so_versions st)\<rparr>"
    using assms(2) untemplate_writes by (metis product_step.simps(6))
  moreover have "map t_id (row_upd t_id t (\<lambda>r. r\<lparr>t_deleted_at := Some now\<rparr>) (so_versions st)) = map t_id (so_versions st)"
    by (simp add: row_upd_def)
  moreover have "\<forall>x \<in> set (row_upd t_id t (\<lambda>r. r\<lparr>t_deleted_at := Some now\<rparr>) (so_versions st)). t_id x < so_next_version st"
    using assms(1) by (auto simp: store_ok_def row_upd_def)
  ultimately show ?thesis using assms(1) by (simp add: store_ok_def)
qed

interpretation offers: guarded "product_step im sc" store_ok for im sc
  by unfold_locales (rule product_step_ok)

section \<open>What the catalog owns\<close>

definition versions_of :: "nat \<Rightarrow> store \<Rightarrow> version_row list" where
  "versions_of i st = filter (\<lambda>t. t_product t = i) (so_versions st)"

text \<open>\<open>p\<close> is kept by a step: its row is there with the same identity, its templates are there and the new ones bear no commit.\<close>

definition owned_kept :: "bool \<Rightarrow> listed_product \<Rightarrow> store \<Rightarrow> store \<Rightarrow> bool" where
  "owned_kept may p st st' \<longleftrightarrow> (\<exists>q \<in> set (so_products st'). kept_identity p q \<and> (\<not> may \<longrightarrow> q = p\<lparr>lp_visibility := lp_visibility q\<rparr>)) \<and>
     (\<exists>new. versions_of (p_id p) st' = versions_of (p_id p) st @ new \<and> list_all (\<lambda>t. vr_commit t = None) new \<and> (\<not> may \<longrightarrow> new = []))"

lemma owned_refl: "p \<in> set (so_products st) \<Longrightarrow> owned_kept may p st st"
  unfolding owned_kept_def kept_identity_def by (rule conjI, rule bexI[of _ p]) auto

lemma put_owned:
  assumes "store_ok st" "p \<in> set (so_products st)" "put_product r st = Inr st'" "r0 \<in> set (so_products st)"
    and "kept_identity r0 r \<or> r0 \<noteq> p \<and> p_id r = p_id r0" "r0 = p \<longrightarrow> \<not> may \<longrightarrow> r = p\<lparr>lp_visibility := lp_visibility r\<rparr>"
  shows "owned_kept may p st st'"
proof -
  have st': "st' = st\<lparr>so_products := row_upd p_id (p_id r) (\<lambda>_. r) (so_products st)\<rparr>"
    using assms(3) by (auto simp: put_product_def result_simps)
  have id: "p_id r = p_id r0" using assms(5) by (auto simp: kept_identity_def)
  have key: "keyed p_id (so_products st)" using assms(1) by (simp add: store_ok_def products_ok_def)
  have v: "versions_of (p_id p) st' = versions_of (p_id p) st" by (simp add: versions_of_def st')
  show ?thesis
  proof (cases "r0 = p")
    case True
    have "r \<in> set (so_products st')" using assms(2) id True by (force simp: st' row_upd_def)
    moreover have "kept_identity p r" using assms(5) True by simp
    ultimately show ?thesis using assms(6) True v by (auto simp: owned_kept_def)
  next
    case False
    then have "p_id p \<noteq> p_id r" using keyed_unique[OF key assms(2,4)] id by metis
    then have "p \<in> set (so_products st')" using assms(2) by (force simp: st' row_upd_def)
    then show ?thesis using v by (auto simp: owned_kept_def kept_identity_def intro!: bexI[of _ p])
  qed
qed

lemma product_step_owned:
  assumes ok: "store_ok st" and p: "p \<in> set (so_products st)" "lp_curated p" and st: "product_step im sc q st = Inr st'"
  shows "owned_kept (forced q) p st st'"
proof (cases q)
  case (CreateProduct pc icon)
  then obtain r x where "add_product ((new_product pc)\<lparr>lp_icon := x\<rparr>) st = Inr (r, st')"
    using st create_writes by (auto simp: result_simps) blast
  then have "st' = st\<lparr>so_products := so_products st @ [r], so_next_product := Suc (so_next_product st)\<rparr>"
    by (auto simp: add_product_def Let_def result_simps)
  then show ?thesis using p(1) by (auto simp: owned_kept_def kept_identity_def versions_of_def intro!: bexI[of _ p])
next
  case (UpdateProduct i u icon force)
  then obtain r0 r where r: "need_product i st = Inr r0" "put_product r st = Inr st'" "kept_identity r0 r"
     "lp_curated r0 \<and> \<not> force \<longrightarrow> r = r0\<lparr>lp_visibility := lp_visibility r\<rparr>"
    using st update_writes by (metis product_step.simps(2))
  show ?thesis using put_owned[OF ok p(1) r(2), of r0 force] need_product_Inr[OF r(1)] r(3,4) p(2) UpdateProduct by auto
next
  case (DeleteProduct now i force)
  then obtain r0 where r: "need_product i st = Inr r0" "put_product (r0\<lparr>lp_deleted_at := Some now\<rparr>) st = Inr st'" "\<not> lp_curated r0"
    using st delete_writes by (metis product_step.simps(3))
  then have "r0 \<noteq> p" using p(2) by auto
  then show ?thesis using put_owned[OF ok p(1) r(2), of r0 False] need_product_Inr[OF r(1)] DeleteProduct by auto
next
  case (UploadIcon i d)
  then obtain r0 x where r: "need_product i st = Inr r0" "put_product (r0\<lparr>lp_icon := x\<rparr>) st = Inr st'" "\<not> lp_curated r0"
    using st upload_writes by (metis product_step.simps(4))
  then have "r0 \<noteq> p" using p(2) by auto
  then show ?thesis using put_owned[OF ok p(1) r(2), of r0 False] need_product_Inr[OF r(1)] UploadIcon by auto
next
  case (CreateTemplate now tc force)
  then obtain t where "create_template sc now tc force st = Inr (t, st')" using st by (auto simp: result_simps)
  then obtain r0 u where r: "need_product (tc_product tc) st = Inr r0" "lp_curated r0 \<longrightarrow> force" "add_version u st = (t, st')"
    "t_product u = tc_product tc" "vr_commit u = None" using template_writes by blast
  note a = add_version_ok[OF ok r(3)]
  have t: "t_product t = tc_product tc" "vr_commit t = None" using a r(4,5) by auto
  have key: "keyed p_id (so_products st)" using ok by (simp add: store_ok_def products_ok_def)
  have "force" if "p_id p = tc_product tc"
    using need_product_Inr[OF r(1)] keyed_unique[OF key, of p r0] p that r(2) by metis
  moreover have "versions_of (p_id p) st' = versions_of (p_id p) st @ (if p_id p = tc_product tc then [t] else [])"
    using a t(1) by (simp add: versions_of_def)
  moreover have "p \<in> set (so_products st')" using a p(1) by simp
  ultimately show ?thesis using t(2) CreateTemplate
    by (auto simp: owned_kept_def kept_identity_def intro!: bexI[of _ p])
next
  case (DeleteTemplate now i t force)
  then obtain r0 r where r: "need_product i st = Inr r0" "\<not> lp_curated r0" "row_get t_id t (so_versions st) = Some r" "t_product r = i"
    "st' = st\<lparr>so_versions := row_upd t_id t (\<lambda>r. r\<lparr>t_deleted_at := Some now\<rparr>) (so_versions st)\<rparr>"
    using st untemplate_writes by (metis product_step.simps(6))
  have key: "keyed p_id (so_products st)" "keyed t_id (so_versions st)" using ok by (simp_all add: store_ok_def products_ok_def)
  have other: "p_id p \<noteq> i" using need_product_Inr[OF r(1)] keyed_unique[OF key(1), of p r0] p r(2) by metis
  have "r \<in> set (so_versions st)" "t_id r = t" using row_get_SomeD[OF r(3)] by simp_all
  then have "t_product x = i" if "x \<in> set (so_versions st)" "t_id x = t" for x
    using keyed_unique[OF key(2) that(1)] r(4) that(2) by metis
  then have "x \<in> set (so_versions st) \<Longrightarrow> t_product x = p_id p \<Longrightarrow> t_id x \<noteq> t" for x using other by auto
  then have "filter (\<lambda>x. t_product x = p_id p) (row_upd t_id t (\<lambda>r. r\<lparr>t_deleted_at := Some now\<rparr>) xs) = filter (\<lambda>x. t_product x = p_id p) xs"
    if "set xs \<subseteq> set (so_versions st)" for xs
    using that by (induction xs) (simp_all add: row_upd_def)
  then have "versions_of (p_id p) st' = versions_of (p_id p) st" by (simp add: versions_of_def r(5))
  moreover have "p \<in> set (so_products st')" using p(1) r(5) by simp
  ultimately show ?thesis by (auto simp: owned_kept_def kept_identity_def intro!: bexI[of _ p])
qed

lemma visibility_trans:
  "q = p\<lparr>lp_visibility := a\<rparr> \<Longrightarrow> r = q\<lparr>lp_visibility := b\<rparr> \<Longrightarrow> r = p\<lparr>lp_visibility := lp_visibility r\<rparr>"
  by simp

lemma owned_trans:
  assumes "owned_kept a p st st1" "\<And>q. q \<in> set (so_products st1) \<Longrightarrow> kept_identity p q \<Longrightarrow> owned_kept b q st1 st2"
  shows "owned_kept (a \<or> b) p st st2"
proof -
  obtain q where q: "q \<in> set (so_products st1)" "kept_identity p q" "\<not> a \<longrightarrow> q = p\<lparr>lp_visibility := lp_visibility q\<rparr>"
    using assms(1) by (auto simp: owned_kept_def)
  obtain n1 where n1: "versions_of (p_id p) st1 = versions_of (p_id p) st @ n1" "list_all (\<lambda>t. vr_commit t = None) n1" "\<not> a \<longrightarrow> n1 = []"
    using assms(1) by (auto simp: owned_kept_def)
  have q2: "owned_kept b q st1 st2" by (rule assms(2)[OF q(1,2)])
  then obtain r where r: "r \<in> set (so_products st2)" "kept_identity q r" "\<not> b \<longrightarrow> r = q\<lparr>lp_visibility := lp_visibility r\<rparr>"
    by (auto simp: owned_kept_def)
  obtain n2 where n2: "versions_of (p_id q) st2 = versions_of (p_id q) st1 @ n2" "list_all (\<lambda>t. vr_commit t = None) n2" "\<not> b \<longrightarrow> n2 = []"
    using q2 by (auto simp: owned_kept_def)
  have id: "p_id q = p_id p" using q(2) by (simp add: kept_identity_def)
  have "r = p\<lparr>lp_visibility := lp_visibility r\<rparr>" if "\<not> (a \<or> b)"
  proof -
    have "q = p\<lparr>lp_visibility := lp_visibility q\<rparr>" "r = q\<lparr>lp_visibility := lp_visibility r\<rparr>" using q(3) r(3) that by blast+
    then show ?thesis by (rule visibility_trans)
  qed
  moreover have "kept_identity p r" using q(2) r(2) by (simp add: kept_identity_def)
  moreover have "versions_of (p_id p) st2 = versions_of (p_id p) st @ (n1 @ n2)" using n1(1) n2(1) id by simp
  ultimately show ?thesis unfolding owned_kept_def using r(1) n1(2,3) n2(2,3)
    by (intro conjI bexI[of _ r] exI[of _ "n1 @ n2"]) auto
qed

lemma history_owned:
  assumes "store_ok st" "p \<in> set (so_products st)" "lp_curated p"
  shows "owned_kept (list_ex forced qs) p st (history (product_step im sc) qs st)"
  using assms
proof (induction qs arbitrary: st p)
  case Nil
  then show ?case by (simp add: owned_refl)
next
  case (Cons q qs)
  let ?st1 = "attempt (product_step im sc) q st"
  have one: "owned_kept (forced q) p st ?st1"
    using product_step_owned[OF Cons.prems] owned_refl[OF Cons.prems(2)] by (auto simp: attempt_def split: sum.split)
  have "owned_kept (list_ex forced qs) r ?st1 (history (product_step im sc) qs ?st1)"
    if "r \<in> set (so_products ?st1)" "kept_identity p r" for r
    using that Cons.prems by (intro Cons.IH offers.attempt_inv) (auto simp: kept_identity_def)
  from owned_trans[OF one this] show ?case by simp
qed

text \<open>
  C3. The catalog owns what it declares. Whatever administrators request, in whatever order and with
  whatever force, a curated product keeps its id, slug and curation, is not deleted, keeps every
  template it had with every field, and any template added to it bears no catalog commit. If none of
  the requests is forced, nothing of the product changes but its visibility and no template is added.
\<close>

theorem curated_product_protected:
  assumes "store_ok st" "p \<in> set (so_products st)" "lp_curated p" "st' = history (product_step im sc) qs st"
  shows "\<exists>q \<in> set (so_products st'). \<exists>new.
     p_id q = p_id p \<and> p_slug q = p_slug p \<and> lp_curated q \<and> live q \<and>
     versions_of (p_id p) st' = versions_of (p_id p) st @ new \<and> list_all (\<lambda>t. vr_commit t = None) new \<and>
     (\<not> list_ex forced qs \<longrightarrow> q = p\<lparr>lp_visibility := lp_visibility q\<rparr> \<and> new = [])"
proof -
  note k = history_owned[OF assms(1-3), of qs im sc, folded assms(4)]
  have ok: "store_ok st'" unfolding assms(4) by (rule offers.history_inv[OF assms(1)])
  obtain q where q: "q \<in> set (so_products st')" "kept_identity p q" "\<not> list_ex forced qs \<longrightarrow> q = p\<lparr>lp_visibility := lp_visibility q\<rparr>"
    using k by (auto simp: owned_kept_def)
  have "lp_curated q" using q(2) assms(3) by (simp add: kept_identity_def)
  then have "live q" using store_ok_product[OF ok q(1)] by (simp add: curation_ok_def)
  with q k assms(3) show ?thesis by (auto simp: owned_kept_def kept_identity_def)
qed

definition wiki_product :: listed_product where
  "wiki_product = \<lparr>p_id = 1, p_name = ''Wiki'', p_slug = Some ''wiki'', p_template_id = Some 1, lp_tagline = None,
     lp_description = Some ''Pages'', lp_category = None, lp_replaces = None, lp_license = None, lp_features = [], lp_links = [],
     lp_shots = [], lp_curated = True, lp_visibility = VisPublic, lp_icon = None, lp_deleted_at = None\<rparr>"

definition wiki_version :: version_row where
  "wiki_version = \<lparr>t_id = 1, t_product = 1, t_chart_ref = ''oci://charts/wiki'', t_chart_version = ''1.0.0'', t_chart_digest = None,
     t_system_values = None, t_schema = None, t_deleted_at = None, vr_commit = Some ''75eccfc'', vr_version = None, vr_created_at = 0\<rparr>"

definition wiki_store :: store where
  "wiki_store = \<lparr>so_products = [wiki_product], so_versions = [wiki_version], so_releases = [], so_next_product = 2,
     so_next_version = 2, so_next_release = 1\<rparr>"

lemma wiki_store_ok: "store_ok wiki_store" "wiki_product \<in> set (so_products wiki_store)" "lp_curated wiki_product"
  by (simp_all add: wiki_store_def store_ok_def products_ok_def one_open_def curation_ok_def live_def wiki_product_def wiki_version_def)

definition plain_images :: imaging where
  "plain_images = \<lparr>im_process = (\<lambda>d. Inr d), im_sha1 = (\<lambda>d. ''0'')\<rparr>"

definition rename_it :: product_update where
  "rename_it = \<lparr>pu_name = Some ''Notes'', pu_template_id = None, pu_description = None, pu_category = None, pu_replaces = None,
     pu_visibility = None, pu_tagline = None, pu_license = None, pu_features = None, pu_links = None\<rparr>"

text \<open>A forced deletion, an icon and an unforced renaming are all refused.\<close>

theorem curated_product_protected_witness:
  "\<exists>q \<in> set (so_products (history (product_step plain_images (\<lambda>_. None))
       [DeleteProduct 5 1 True, UploadIcon 1 ''png'', UpdateProduct 1 rename_it None False] wiki_store)).
     p_id q = 1 \<and> p_slug q = Some ''wiki'' \<and> p_name q = ''Wiki'' \<and> lp_icon q = None \<and> live q"
proof -
  let ?qs = "[DeleteProduct 5 1 True, UploadIcon 1 ''png'', UpdateProduct 1 rename_it None False]"
  have "\<not> list_ex forced ?qs" by simp
  moreover have "p_name (wiki_product\<lparr>lp_visibility := v\<rparr>) = ''Wiki''" "lp_icon (wiki_product\<lparr>lp_visibility := v\<rparr>) = None" for v
    by (simp_all add: wiki_product_def)
  moreover have "p_id wiki_product = 1" "p_slug wiki_product = Some ''wiki''" by (simp_all add: wiki_product_def)
  ultimately show ?thesis
    using curated_product_protected[OF wiki_store_ok refl, of plain_images "\<lambda>_. None" ?qs] by metis
qed

end
