(* ===== verification/CatalogLaws.thy ===== *)
theory CatalogLaws
  imports CatalogApply ProductGuards
begin

text \<open>
  The laws of the catalog's reconciler, step by step: what each step leaves alone (\<open>frame\<close>,
  \<open>versions_grow\<close>, \<open>products_kept\<close>), when a document has nothing left to do (\<open>settled\<close>), and that
  applying it makes it so. The claims over whole runs are in \<open>CatalogRuns\<close>.
\<close>

section \<open>What a step leaves alone\<close>

definition products_of :: "nat \<Rightarrow> store \<Rightarrow> listed_product list" where
  "products_of i st = filter (\<lambda>p. p_id p = i) (so_products st)"

definition releases_of :: "nat \<Rightarrow> store \<Rightarrow> release_row list" where
  "releases_of i st = filter (\<lambda>r. rl_product r = i) (so_releases st)"

definition frame :: "nat \<Rightarrow> store \<Rightarrow> store \<Rightarrow> bool" where
  "frame i st st' \<longleftrightarrow> (\<forall>j. j \<noteq> i \<longrightarrow>
     products_of j st' = products_of j st \<and> versions_of j st' = versions_of j st \<and> releases_of j st' = releases_of j st)"

lemma frame_refl [simp]: "frame i st st"
  by (simp add: frame_def)

lemma frame_trans: "frame i a b \<Longrightarrow> frame i b c \<Longrightarrow> frame i a c"
  by (simp add: frame_def)

text \<open>An old template row keeps everything, and its version once it has one; a new row bears the run's commit.\<close>

definition version_kept :: "version_row \<Rightarrow> version_row \<Rightarrow> bool" where
  "version_kept t u \<longleftrightarrow> u = t\<lparr>vr_version := vr_version u\<rparr> \<and> (vr_version t \<noteq> None \<longrightarrow> vr_version u = vr_version t)"

definition versions_grow :: "string option \<Rightarrow> store \<Rightarrow> store \<Rightarrow> bool" where
  "versions_grow commit st st' \<longleftrightarrow> (\<exists>old new. so_versions st' = old @ new \<and> list_all2 version_kept (so_versions st) old \<and>
     list_all (\<lambda>t. vr_commit t = commit \<and> t_deleted_at t = None) new)"

definition product_kept :: "listed_product \<Rightarrow> listed_product \<Rightarrow> bool" where
  "product_kept p q \<longleftrightarrow> p_id q = p_id p \<and> lp_visibility q = lp_visibility p \<and> lp_deleted_at q = lp_deleted_at p"

definition products_kept :: "store \<Rightarrow> store \<Rightarrow> bool" where
  "products_kept st st' \<longleftrightarrow> (\<exists>old new. so_products st' = old @ new \<and> list_all2 product_kept (so_products st) old \<and>
     list_all (\<lambda>p. lp_visibility p = VisAdmin) new)"

lemma version_kept_refl [simp]: "version_kept t t"
  by (simp add: version_kept_def)

lemma version_update_trans:
  "u = t\<lparr>vr_version := a\<rparr> \<Longrightarrow> w = u\<lparr>vr_version := b\<rparr> \<Longrightarrow> w = t\<lparr>vr_version := vr_version w\<rparr>"
  by simp

lemma version_kept_trans: "version_kept t u \<Longrightarrow> version_kept u w \<Longrightarrow> version_kept t w"
  unfolding version_kept_def by (metis version_update_trans)

lemma version_kept_fields: "version_kept t u \<Longrightarrow> t_id u = t_id t \<and> t_product u = t_product t \<and> vr_commit u = vr_commit t \<and>
    t_deleted_at u = t_deleted_at t \<and> t_chart_ref u = t_chart_ref t \<and> t_chart_version u = t_chart_version t \<and>
    t_chart_digest u = t_chart_digest t \<and> t_system_values u = t_system_values t \<and> t_schema u = t_schema t"
  unfolding version_kept_def
  by (metis (no_types, lifting) template.select_convs version_row.select_convs(1) version_row.surjective version_row.update_convs(2))

lemma versions_grow_same: "so_versions st' = so_versions st \<Longrightarrow> versions_grow c st st'"
  unfolding versions_grow_def by (rule exI[of _ "so_versions st"], rule exI[of _ "[]"]) (simp add: list_all2_refl)

lemma versions_grow_trans:
  assumes "versions_grow c a b" "versions_grow c b d"
  shows "versions_grow c a d"
proof -
  obtain o1 n1 where 1: "so_versions b = o1 @ n1" "list_all2 version_kept (so_versions a) o1"
      "list_all (\<lambda>t. vr_commit t = c \<and> t_deleted_at t = None) n1" using assms(1) by (auto simp: versions_grow_def)
  obtain o2 n2 where 2: "so_versions d = o2 @ n2" "list_all2 version_kept (so_versions b) o2"
      "list_all (\<lambda>t. vr_commit t = c \<and> t_deleted_at t = None) n2" using assms(2) by (auto simp: versions_grow_def)
  obtain p q where pq: "o2 = p @ q" "list_all2 version_kept o1 p" "list_all2 version_kept n1 q"
    using 2(2) unfolding 1(1) by (auto simp: list_all2_append1)
  have "list_all2 version_kept (so_versions a) p" by (rule list_all2_trans[OF version_kept_trans 1(2) pq(2)])
  moreover have "list_all (\<lambda>t. vr_commit t = c \<and> t_deleted_at t = None) q"
    using pq(3) 1(3) by (induction rule: list_all2_induct) (auto dest: version_kept_fields)
  ultimately show ?thesis unfolding versions_grow_def using 2(1,3) pq(1) by (intro exI[of _ p] exI[of _ "q @ n2"]) simp
qed

lemma product_kept_refl [simp]: "product_kept p p"
  by (simp add: product_kept_def)

lemma product_kept_trans: "product_kept p q \<Longrightarrow> product_kept q r \<Longrightarrow> product_kept p r"
  by (simp add: product_kept_def)

lemma products_kept_same: "so_products st' = so_products st \<Longrightarrow> products_kept st st'"
  unfolding products_kept_def by (rule exI[of _ "so_products st"], rule exI[of _ "[]"]) (simp add: list_all2_refl)

lemma products_kept_map: "so_products st' = map f (so_products st) \<Longrightarrow> (\<And>p. p \<in> set (so_products st) \<Longrightarrow> product_kept p (f p)) \<Longrightarrow> products_kept st st'"
  unfolding products_kept_def
  by (rule exI[of _ "map f (so_products st)"], rule exI[of _ "[]"]) (simp add: list_all2_map2 list.rel_refl_strong)

lemma products_kept_trans:
  assumes "products_kept a b" "products_kept b d"
  shows "products_kept a d"
proof -
  obtain o1 n1 where 1: "so_products b = o1 @ n1" "list_all2 product_kept (so_products a) o1"
      "list_all (\<lambda>p. lp_visibility p = VisAdmin) n1" using assms(1) by (auto simp: products_kept_def)
  obtain o2 n2 where 2: "so_products d = o2 @ n2" "list_all2 product_kept (so_products b) o2"
      "list_all (\<lambda>p. lp_visibility p = VisAdmin) n2" using assms(2) by (auto simp: products_kept_def)
  obtain p q where pq: "o2 = p @ q" "list_all2 product_kept o1 p" "list_all2 product_kept n1 q"
    using 2(2) unfolding 1(1) by (auto simp: list_all2_append1)
  have "list_all2 product_kept (so_products a) p" by (rule list_all2_trans[OF product_kept_trans 1(2) pq(2)])
  moreover have "list_all (\<lambda>p. lp_visibility p = VisAdmin) q"
    using pq(3) 1(3) by (induction rule: list_all2_induct) (auto simp: product_kept_def)
  ultimately show ?thesis unfolding products_kept_def using 2(1,3) pq(1) by (intro exI[of _ p] exI[of _ "q @ n2"]) simp
qed

section \<open>The product of a document\<close>

lemma filter_key_single: "keyed key rs \<Longrightarrow> p \<in> set rs \<Longrightarrow> filter (\<lambda>q. key q = key p) rs = [p]"
proof (induction rs)
  case (Cons r rs)
  show ?case
  proof (cases "key r = key p")
    case True
    then have "r = p" using keyed_unique[OF Cons.prems(1), of r p] Cons.prems(2) by simp
    moreover have "key q \<noteq> key p" if "q \<in> set rs" for q
    proof
      assume "key q = key p"
      with True have "key r \<in> key ` set rs" using that by (intro image_eqI[of _ _ q]) simp_all
      then show False using Cons.prems(1) by simp
    qed
    ultimately show ?thesis by (simp add: filter_False)
  next
    case False
    then have "p \<in> set rs" using Cons.prems(2) by auto
    then show ?thesis using Cons.IH Cons.prems(1) False by simp
  qed
qed simp

lemma products_of_single: "store_ok st \<Longrightarrow> p \<in> set (so_products st) \<Longrightarrow> products_of (p_id p) st = [p]"
  using filter_key_single[of p_id "so_products st" p] by (simp add: store_ok_def products_ok_def products_of_def)

lemma curated_as_unique:
  assumes "store_ok st" "p \<in> set (so_products st)" "curated_as s p"
  shows "filter (curated_as s) (so_products st) = [p]"
proof -
  have one: "one_open p_slug slugged (so_products st)" and key: "keyed p_id (so_products st)"
    using assms(1) by (simp_all add: store_ok_def products_ok_def)
  have "curated_as s q \<longleftrightarrow> p_id q = p_id p" if "q \<in> set (so_products st)" for q
  proof
    assume "curated_as s q"
    then have "slugged q" "slugged p" "p_slug q = p_slug p" using assms(3) by (simp_all add: curated_as_def slugged_def)
    then have "q = p" by (intro one_open_unique[OF one that assms(2)])
    then show "p_id q = p_id p" by simp
  next
    assume "p_id q = p_id p"
    then have "q = p" by (rule keyed_unique[OF key that assms(2)])
    then show "curated_as s q" using assms(3) by simp
  qed
  then have "filter (curated_as s) (so_products st) = filter (\<lambda>q. p_id q = p_id p) (so_products st)" by (intro filter_cong) auto
  then show ?thesis using products_of_single[OF assms(1,2)] by (simp add: products_of_def)
qed

lemma put_product_eq: "put_product p st = Inr st' \<Longrightarrow> st' = set_product p st"
  by (auto simp: put_product_def set_product_def result_simps)

lemma set_product_id: "store_ok st \<Longrightarrow> p \<in> set (so_products st) \<Longrightarrow> set_product p st = st"
proof -
  assume ok: "store_ok st" and p: "p \<in> set (so_products st)"
  then have "keyed p_id (so_products st)" by (simp add: store_ok_def products_ok_def)
  then have "row_upd p_id (p_id p) (\<lambda>_. p) (so_products st) = so_products st"
    using p unfolding row_upd_def by (intro map_idI) (auto dest: keyed_unique)
  then show ?thesis by (simp add: set_product_def)
qed

lemma set_product_simps [simp]:
  "so_versions (set_product p st) = so_versions st" "so_releases (set_product p st) = so_releases st"
  "so_next_product (set_product p st) = so_next_product st" "so_next_version (set_product p st) = so_next_version st"
  "so_next_release (set_product p st) = so_next_release st"
  by (simp_all add: set_product_def)

lemma set_product_twice: "p_id q = p_id p \<Longrightarrow> set_product q (set_product p st) = set_product q st"
  by (simp add: set_product_def row_upd_def comp_def cong: if_cong)

lemma set_product_frame: "frame (p_id p) st (set_product p st)"
proof -
  have "filter (\<lambda>q. p_id q = j) (row_upd p_id (p_id p) (\<lambda>_. p) ps) = filter (\<lambda>q. p_id q = j) ps" if "j \<noteq> p_id p" for j ps
    using that by (induction ps) (auto simp: row_upd_def)
  then show ?thesis by (simp add: frame_def products_of_def versions_of_def releases_of_def set_product_def)
qed

lemma set_product_in: "q \<in> set (so_products st) \<Longrightarrow> p_id p = p_id q \<Longrightarrow> p \<in> set (so_products (set_product p st))"
  by (force simp: set_product_def row_upd_def)

lemma set_product_kept:
  assumes "store_ok st" "q \<in> set (so_products st)" "product_kept q p"
  shows "products_kept st (set_product p st)"
proof (rule products_kept_map)
  show "so_products (set_product p st) = map (\<lambda>r. if p_id r = p_id p then p else r) (so_products st)"
    by (simp add: set_product_def row_upd_def)
  show "product_kept r (if p_id r = p_id p then p else r)" if "r \<in> set (so_products st)" for r
  proof (cases "p_id r = p_id p")
    case True
    have "keyed p_id (so_products st)" using assms(1) by (simp add: store_ok_def products_ok_def)
    then have "r = q" using that assms(2,3) True by (auto simp: product_kept_def dest: keyed_unique)
    then show ?thesis using assms(3) True by simp
  qed simp
qed

text \<open>An update that keeps the name, the slug, the curation and the deletion clashes with nothing.\<close>

definition same_index :: "listed_product \<Rightarrow> listed_product \<Rightarrow> bool" where
  "same_index p q \<longleftrightarrow> p_id q = p_id p \<and> p_name q = p_name p \<and> p_slug q = p_slug p \<and> lp_curated q = lp_curated p \<and>
     lp_deleted_at q = lp_deleted_at p"

lemma same_index_clash:
  assumes "one_open slot occ rs" "keyed p_id rs" "q \<in> set rs" "p_id p = p_id q" "slot p = slot q" "occ p = occ q"
  shows "\<not> (occ p \<and> slot_taken slot occ (slot p) (filter (\<lambda>r. p_id r \<noteq> p_id p) rs))"
proof
  assume "occ p \<and> slot_taken slot occ (slot p) (filter (\<lambda>r. p_id r \<noteq> p_id p) rs)"
  then obtain r where "occ p" "r \<in> set rs" "p_id r \<noteq> p_id p" "occ r" "slot r = slot p" by (auto simp: slot_taken_def)
  then show False using one_open_unique[OF assms(1), of r q] assms(3-6) by auto
qed

lemma set_product_ok:
  assumes "store_ok st" "q \<in> set (so_products st)" "same_index q p"
  shows "store_ok (set_product p st)"
proof -
  have s: "products_ok (so_products st)" using assms(1) by (simp add: store_ok_def)
  have i: "p_id p = p_id q" "name_key p = name_key q" "p_slug p = p_slug q" "live p = live q" "slugged p = slugged q"
    using assms(3) by (simp_all add: same_index_def live_def slugged_def)
  have "\<not> name_clash p (so_products st)" "\<not> slug_clash p (so_products st)"
    using s same_index_clash[of name_key live "so_products st" q p] same_index_clash[of p_slug slugged "so_products st" q p] assms(2) i
    by (simp_all add: products_ok_def name_clash_def slug_clash_def)
  moreover have c: "curation_ok p" "p_id p < so_next_product st"
    using store_ok_product[OF assms(1,2)] assms(3) by (simp_all add: curation_ok_def same_index_def live_def)
  ultimately have "put_product p st = Inr (set_product p st)" by (simp add: put_product_def set_product_def check_product_def)
  then show ?thesis by (rule put_product_ok[OF assms(1) _ c])
qed

lemma resolve_product_spec:
  assumes ok: "store_ok st" and r: "resolve_product e st = Inr (p, rep, st')"
  shows "store_ok st' \<and> p \<in> set (so_products st') \<and> live p \<and> frame (p_id p) st st' \<and> products_kept st st' \<and>
    so_versions st' = so_versions st \<and>
    (\<forall>q \<in> set (so_products st). \<not> curated_as (cf_slug e) q \<and> \<not> adoptable (pb_name (dc_product (cf_document e))) q \<longrightarrow> p_id q \<noteq> p_id p) \<and>
    (p \<notin> set (so_products st) \<longrightarrow> p_id p \<notin> p_id ` set (so_products st))"
proof -
  have key: "keyed p_id (so_products st)" using ok by (simp add: store_ok_def products_ok_def)
  consider (found) "filter (curated_as (cf_slug e)) (so_products st) = [p]" "rep = []" "st' = st"
    | (adopt) "find (adoptable (pb_name (dc_product (cf_document e)))) (so_products st) = Some p" "st' = st"
    | (made) "add_product (unlisted_product (pb_name (dc_product (cf_document e))) (cf_slug e)) st = Inr (p, st')"
  proof (cases "filter (curated_as (cf_slug e)) (so_products st)")
    case Nil
    show thesis
    proof (cases "find (adoptable (pb_name (dc_product (cf_document e)))) (so_products st)")
      case None
      then show thesis using r Nil made by (auto simp: resolve_product_def Let_def split: sum.splits)
    next
      case (Some q)
      then have "q = p" "st' = st" using r Nil by (simp_all add: resolve_product_def Let_def)
      with Some show thesis by (intro adopt) simp_all
    qed
  next
    case (Cons q qs)
    note hit = Cons
    show thesis
    proof (cases qs)
      case Nil
      then have "q = p" "rep = []" "st' = st" using r hit by (simp_all add: resolve_product_def Let_def)
      with hit Nil show thesis by (intro found) simp_all
    next
      case (Cons q' qs')
      then show thesis using r hit by (simp add: resolve_product_def Let_def)
    qed
  qed
  then show ?thesis
  proof cases
    case found
    then have "p \<in> set (filter (curated_as (cf_slug e)) (so_products st))" by simp
    then have p: "p \<in> set (so_products st)" "curated_as (cf_slug e) p" by simp_all
    have "p_id q \<noteq> p_id p" if "q \<in> set (so_products st)" "\<not> curated_as (cf_slug e) q" for q
      using keyed_unique[OF key that(1) p(1)] that(2) p(2) by auto
    then show ?thesis using found(3) p ok by (auto simp: curated_as_def intro: products_kept_same)
  next
    case adopt
    then have p: "p \<in> set (so_products st)" "adoptable (pb_name (dc_product (cf_document e))) p" by (auto simp: find_Some_iff)
    have "p_id q \<noteq> p_id p" if "q \<in> set (so_products st)" "\<not> adoptable (pb_name (dc_product (cf_document e))) q" for q
      using keyed_unique[OF key that(1) p(1)] that(2) p(2) by auto
    then show ?thesis using adopt(2) p ok by (auto simp: adoptable_def intro: products_kept_same)
  next
    case made
    let ?u = "unlisted_product (pb_name (dc_product (cf_document e))) (cf_slug e)"
    have "curation_ok ?u" by (simp add: curation_ok_def unlisted_product_def live_def)
    note a = add_product_ok[OF ok made this]
    have st': "st' = st\<lparr>so_products := so_products st @ [p], so_next_product := Suc (so_next_product st)\<rparr>"
      using made by (auto simp: add_product_def Let_def result_simps)
    have fresh: "p_id q \<noteq> p_id p" if "q \<in> set (so_products st)" for q
      using ok that a by (auto simp: store_ok_def)
    have "live p" "lp_visibility p = VisAdmin" using a by (simp_all add: unlisted_product_def live_def)
    moreover have "products_kept st st'" unfolding products_kept_def
      by (rule exI[of _ "so_products st"], rule exI[of _ "[p]"]) (simp add: st' list_all2_refl \<open>lp_visibility p = VisAdmin\<close>)
    moreover have "frame (p_id p) st st'" by (simp add: frame_def st' products_of_def versions_of_def releases_of_def)
    moreover have "p_id p \<notin> p_id ` set (so_products st)" using fresh by (metis imageE)
    moreover have "p \<in> set (so_products st')" "so_versions st' = so_versions st" by (simp_all add: st')
    ultimately show ?thesis using a fresh by blast
  qed
qed

section \<open>Templates and versions\<close>

lemma find_filter: "(\<And>x. P x \<Longrightarrow> Q x) \<Longrightarrow> find P (filter Q xs) = find P xs"
  by (induction xs) auto

lemma find_append_None: "find P xs = None \<Longrightarrow> find P (xs @ ys) = find P ys"
  by (induction xs) (auto split: if_splits)

lemma matching_own: "find (matching tk e i) (so_versions st) = find (matching tk e i) (versions_of i st)"
  unfolding versions_of_def by (rule find_filter[symmetric]) (simp add: matching_def)

lemma versions_of_add: "so_versions st' = so_versions st @ [t] \<Longrightarrow>
    versions_of j st' = versions_of j st @ (if t_product t = j then [t] else [])"
  by (simp add: versions_of_def)

lemma inserted_fields: "t_product (inserted_version tk commit now e i) = i \<and> vr_commit (inserted_version tk commit now e i) = commit \<and>
    t_deleted_at (inserted_version tk commit now e i) = None"
  by (simp add: inserted_version_def new_version_def Let_def)

lemma inserted_matches: "matching tk e i ((inserted_version tk commit now e i)\<lparr>t_id := k\<rparr>)"
  by (simp add: matching_def inserted_version_def new_version_def Let_def template_spec_hash_def document_spec_hash_def)

lemma resolve_template_spec:
  assumes ok: "store_ok st" and r: "resolve_template tk commit now e i st = (t, rep, st')"
  shows "store_ok st' \<and> frame i st st' \<and> versions_grow commit st st' \<and> so_products st' = so_products st \<and>
    so_releases st' = so_releases st \<and> find (matching tk e i) (versions_of i st') = Some t \<and> t \<in> set (so_versions st')"
proof (cases "find (matching tk e i) (so_versions st)")
  case (Some u)
  then have "u = t" "st' = st" using r by (simp_all add: resolve_template_def)
  moreover have "u \<in> set (so_versions st)" using Some by (metis find_Some_iff nth_mem)
  ultimately show ?thesis using ok Some by (simp add: versions_grow_same flip: matching_own)
next
  case None
  let ?u = "inserted_version tk commit now e i"
  have add: "add_version ?u st = (t, st')" using r None by (simp add: resolve_template_def split: prod.splits)
  note a = add_version_ok[OF ok add]
  have t: "t_product t = i" "matching tk e i t" "vr_commit t = commit" "t_deleted_at t = None"
    using a inserted_matches inserted_fields by auto
  have grow: "versions_grow commit st st'" unfolding versions_grow_def
    by (rule exI[of _ "so_versions st"], rule exI[of _ "[t]"]) (use a t in \<open>simp add: list_all2_refl\<close>)
  have "find (matching tk e i) (versions_of i st') = Some t"
    using None t(1,2) a versions_of_add[of st' st t i] by (simp add: matching_own find_append_None)
  moreover have "frame i st st'" using a t(1) versions_of_add[of st' st t] by (simp add: frame_def products_of_def releases_of_def)
  ultimately show ?thesis using a grow by simp
qed

lemma stamped_eq:
  "so_versions (snd (stamp_versions tk e i st)) = map (\<lambda>t. case stampable tk e i t of None \<Rightarrow> t | Some v \<Rightarrow> t\<lparr>vr_version := Some v\<rparr>) (so_versions st)"
  by (simp add: stamp_versions_def)

lemma stamp_fields: "t_product (case stampable tk e i t of None \<Rightarrow> t | Some v \<Rightarrow> t\<lparr>vr_version := Some v\<rparr>) = t_product t \<and>
    t_id (case stampable tk e i t of None \<Rightarrow> t | Some v \<Rightarrow> t\<lparr>vr_version := Some v\<rparr>) = t_id t"
  by (simp split: option.split)

lemma stamp_kept: "version_kept t (case stampable tk e i t of None \<Rightarrow> t | Some v \<Rightarrow> t\<lparr>vr_version := Some v\<rparr>)"
  by (auto simp: version_kept_def stampable_def split: option.split if_splits)

lemma stamp_done: "stampable tk e i (case stampable tk e i t of None \<Rightarrow> t | Some v \<Rightarrow> t\<lparr>vr_version := Some v\<rparr>) = None"
  by (auto simp: stampable_def split: option.split)

lemma stamp_other: "t_product t \<noteq> i \<Longrightarrow> (case stampable tk e i t of None \<Rightarrow> t | Some v \<Rightarrow> t\<lparr>vr_version := Some v\<rparr>) = t"
  by (simp add: stampable_def)

lemma matching_kept: "version_kept t u \<Longrightarrow> matching tk e i u \<longleftrightarrow> matching tk e i t"
  using version_kept_fields[of t u] by (simp add: matching_def template_spec_hash_def)

lemma find_map_kept: "(\<And>x. P (f x) \<longleftrightarrow> P x) \<Longrightarrow> find P (map f xs) = map_option f (find P xs)"
  by (induction xs) auto

lemma versions_of_map:
  assumes "so_versions st' = map f (so_versions st)" "\<And>t. t_product (f t) = t_product t"
  shows "versions_of j st' = map f (versions_of j st)"
  by (simp add: versions_of_def assms filter_map comp_def)

lemma stamp_versions_spec:
  assumes ok: "store_ok st" and r: "stamp_versions tk e i st = (rep, st')" and m: "find (matching tk e i) (versions_of i st) = Some t"
  shows "store_ok st' \<and> frame i st st' \<and> versions_grow commit st st' \<and> so_products st' = so_products st \<and>
    so_releases st' = so_releases st \<and> (\<exists>u. find (matching tk e i) (versions_of i st') = Some u \<and> t_id u = t_id t) \<and>
    (\<forall>u \<in> set (versions_of i st'). stampable tk e i u = None)"
proof -
  let ?f = "\<lambda>t. case stampable tk e i t of None \<Rightarrow> t | Some v \<Rightarrow> t\<lparr>vr_version := Some v\<rparr>"
  have v: "so_versions st' = map ?f (so_versions st)" and st': "st' = st\<lparr>so_versions := map ?f (so_versions st)\<rparr>"
    using r by (auto simp: stamp_versions_def)
  have vo: "versions_of j st' = map ?f (versions_of j st)" for j
    by (rule versions_of_map[OF v]) (rule conjunct1[OF stamp_fields])
  have "versions_of j st' = versions_of j st" if "j \<noteq> i" for j
    unfolding vo by (rule map_idI, rule stamp_other) (use that in \<open>auto simp: versions_of_def\<close>)
  then have fr: "frame i st st'" by (simp add: frame_def products_of_def releases_of_def st')
  have "list_all2 version_kept (so_versions st) (map ?f (so_versions st))"
    by (simp add: list_all2_map2 list.rel_refl_strong stamp_kept)
  then have gr: "versions_grow commit st st'" unfolding versions_grow_def v
    by (intro exI[of _ "map ?f (so_versions st)"] exI[of _ "[]"]) simp
  have "map t_id (so_versions st') = map t_id (so_versions st)" using stamp_fields by (simp add: v)
  moreover have "t_id t < so_next_version st'" if "t \<in> set (so_versions st')" for t
    using that ok stamp_fields unfolding store_ok_def by (auto simp: v st')
  ultimately have "keyed t_id (so_versions st')" "\<forall>t \<in> set (so_versions st'). t_id t < so_next_version st'"
    using ok unfolding store_ok_def by (simp_all only:) blast+
  then have okv: "store_ok st'" using ok by (simp add: store_ok_def st')
  have "find (matching tk e i) (versions_of i st') = Some (?f t)"
    unfolding vo using find_map_kept[of "matching tk e i" ?f "versions_of i st"] matching_kept[OF stamp_kept] m by simp
  moreover have "t_id (?f t) = t_id t" by (rule conjunct2[OF stamp_fields])
  moreover have "\<forall>u \<in> set (versions_of i st'). stampable tk e i u = None" unfolding vo using stamp_done by auto
  ultimately show ?thesis using okv fr gr by (auto simp: st')
qed

section \<open>Releases\<close>

definition release_at :: "nat \<Rightarrow> string \<Rightarrow> store \<Rightarrow> release_row option" where
  "release_at i v st = find (\<lambda>x. rl_version x = v) (releases_of i st)"

definition release_is :: "nat \<Rightarrow> catalog_release \<Rightarrow> release_row \<Rightarrow> bool" where
  "release_is position r x \<longleftrightarrow> rl_notes x = re_notes r \<and> rl_position x = position"

lemma release_atD: "release_at i v st = Some x \<Longrightarrow> x \<in> set (so_releases st) \<and> rl_product x = i \<and> rl_version x = v"
proof -
  assume "release_at i v st = Some x"
  then have "x \<in> set (releases_of i st)" "rl_version x = v"
    unfolding release_at_def by (auto simp: find_Some_iff in_set_conv_nth)
  then show ?thesis by (simp add: releases_of_def)
qed

lemma release_at_None: "release_at i v st = None \<Longrightarrow> x \<in> set (so_releases st) \<Longrightarrow> release_key x \<noteq> (i, v)"
  by (auto simp: release_at_def releases_of_def find_None_iff release_key_def)

text \<open>One row of the releases is changed in place.\<close>

lemma release_update:
  assumes ok: "store_ok st" and x: "release_at i v st = Some x" and g: "g = (\<lambda>y. if rl_id y = rl_id x then f y else y)"
    and f: "\<And>y. rl_id (f y) = rl_id y \<and> rl_product (f y) = rl_product y \<and> rl_version (f y) = rl_version y"
    and st': "st' = st\<lparr>so_releases := row_upd rl_id (rl_id x) f (so_releases st)\<rparr>"
  shows "store_ok st' \<and> frame i st st' \<and> release_at i v st' = Some (f x) \<and> (\<forall>w. w \<noteq> v \<longrightarrow> release_at i w st' = release_at i w st)"
proof -
  note X = release_atD[OF x]
  have r: "so_releases st' = map g (so_releases st)" by (simp add: st' row_upd_def g)
  have gk: "rl_id (g y) = rl_id y" "rl_product (g y) = rl_product y" "rl_version (g y) = rl_version y" for y using f by (simp_all add: g)
  have only: "y = x" if "y \<in> set (so_releases st)" "rl_id y = rl_id x" for y
    using ok X that by (auto simp: store_ok_def dest: keyed_unique)
  have fixed: "g y = y" if "y \<in> set (so_releases st)" "y \<noteq> x" for y using only[OF that(1)] that(2) by (auto simp: g)
  have own: "releases_of j st' = map g (releases_of j st)" for j by (simp add: releases_of_def r filter_map comp_def gk)
  have at: "release_at j w st' = map_option g (release_at j w st)" for j w
    unfolding release_at_def own by (rule find_map_kept) (simp add: gk)
  have "map rl_id (so_releases st') = map rl_id (so_releases st)" "map release_key (so_releases st') = map release_key (so_releases st)"
    by (simp_all add: r gk release_key_def)
  moreover have "rl_id y < so_next_release st'" if y: "y \<in> set (so_releases st')" for y
  proof -
    obtain z where "z \<in> set (so_releases st)" "y = g z" using y unfolding r by auto
    then show ?thesis using ok gk by (simp add: store_ok_def st')
  qed
  ultimately have "store_ok st'" using ok by (simp add: store_ok_def st')
  moreover have "releases_of j st' = releases_of j st" if "j \<noteq> i" for j
    unfolding own by (rule map_idI, rule fixed) (use that X in \<open>auto simp: releases_of_def\<close>)
  then have "frame i st st'" by (simp add: frame_def products_of_def versions_of_def st')
  moreover have "release_at i v st' = Some (f x)" using at[of i v] x by (simp add: g)
  moreover have "release_at i w st' = release_at i w st" if "w \<noteq> v" for w
  proof (cases "release_at i w st")
    case (Some y)
    then have "g y = y" using release_atD[OF Some] X that by (intro fixed) auto
    then show ?thesis using at[of i w] Some by simp
  qed (simp add: at)
  ultimately show ?thesis by blast
qed

lemma release_insert:
  assumes ok: "store_ok st" and no: "release_at i v st = None" and n: "rl_product n = i" "rl_version n = v" "rl_id n = so_next_release st"
    and st': "st' = st\<lparr>so_releases := so_releases st @ [n], so_next_release := Suc (so_next_release st)\<rparr>"
  shows "store_ok st' \<and> frame i st st' \<and> release_at i v st' = Some n \<and> (\<forall>w. w \<noteq> v \<longrightarrow> release_at i w st' = release_at i w st)"
proof -
  have own: "releases_of j st' = releases_of j st @ (if j = i then [n] else [])" for j by (simp add: releases_of_def st' n(1))
  have "release_key n \<notin> release_key ` set (so_releases st)"
    using release_at_None[OF no] n(1,2) by (metis imageE release_key_def)
  moreover have "rl_id n \<notin> rl_id ` set (so_releases st)" using ok n(3) by (auto simp: store_ok_def)
  ultimately have "store_ok st'" using ok n(3) by (auto simp: store_ok_def st' less_Suc_eq)
  moreover have "frame i st st'" using own by (simp add: frame_def products_of_def versions_of_def st')
  moreover have "release_at i v st' = Some n" using no own[of i] n(2) by (simp add: release_at_def find_append_None)
  moreover have "release_at i w st' = release_at i w st" if "w \<noteq> v" for w
  proof (cases "release_at i w st")
    case None
    then show ?thesis using own[of i] n(2) that by (simp add: release_at_def find_append_None)
  next
    case (Some y)
    have "find P xs = Some y \<Longrightarrow> find P (xs @ ys) = Some y" for P and xs ys :: "release_row list" by (induction xs) (auto split: if_splits)
    then show ?thesis using Some own[of i] by (simp add: release_at_def)
  qed
  ultimately show ?thesis by blast
qed

lemma sync_release_spec:
  assumes ok: "store_ok st" and ex: "find (\<lambda>x. rl_version x = re_version r) existing = release_at i (re_version r) st"
    and p: "sync_release now e i existing (position, r) (rep, st) = (rep', st')"
  shows "store_ok st' \<and> frame i st st' \<and> so_products st' = so_products st \<and> so_versions st' = so_versions st \<and>
    (\<exists>x. release_at i (re_version r) st' = Some x \<and> release_is position r x) \<and>
    (\<forall>w. w \<noteq> re_version r \<longrightarrow> release_at i w st' = release_at i w st)"
proof (cases "release_at i (re_version r) st")
  case None
  let ?n = "\<lparr>rl_id = so_next_release st, rl_product = i, rl_version = re_version r, rl_notes = re_notes r,
                  rl_position = position, rl_updated_at = now\<rparr>"
  have st': "st' = st\<lparr>so_releases := so_releases st @ [?n], so_next_release := Suc (so_next_release st)\<rparr>"
    using p None ex by (simp add: sync_release_def)
  show ?thesis using release_insert[OF ok None, of ?n st'] by (simp add: st' release_is_def)
next
  case (Some x)
  show ?thesis
  proof (cases "release_is position r x")
    case True
    then have "st' = st" using p Some ex by (simp add: sync_release_def release_is_def)
    then show ?thesis using ok Some True by simp
  next
    case False
    let ?f = "\<lambda>x. x\<lparr>rl_notes := re_notes r, rl_position := position, rl_updated_at := now\<rparr>"
    have st': "st' = st\<lparr>so_releases := row_upd rl_id (rl_id x) ?f (so_releases st)\<rparr>"
      using p Some ex False by (auto simp: sync_release_def release_is_def)
    show ?thesis using release_update[OF ok Some refl, of ?f st'] st' by (simp add: release_is_def)
  qed
qed

lemma put_releases_spec:
  assumes "store_ok st" "distinct (map (re_version \<circ> snd) ds)"
    and "\<And>position r. (position, r) \<in> set ds \<Longrightarrow> find (\<lambda>x. rl_version x = re_version r) existing = release_at i (re_version r) st"
    and "fold (sync_release now e i existing) ds (rep, st) = (rep', st')"
  shows "store_ok st' \<and> frame i st st' \<and> so_products st' = so_products st \<and> so_versions st' = so_versions st \<and>
    (\<forall>(position, r) \<in> set ds. \<exists>x. release_at i (re_version r) st' = Some x \<and> release_is position r x) \<and>
    (\<forall>w. w \<notin> (re_version \<circ> snd) ` set ds \<longrightarrow> release_at i w st' = release_at i w st)"
  using assms
proof (induction ds arbitrary: rep st)
  case (Cons d ds)
  obtain position r where d: "d = (position, r)" by (cases d)
  obtain rep1 st1 where 1: "sync_release now e i existing (position, r) (rep, st) = (rep1, st1)" by fastforce
  have p: "store_ok st1" "frame i st st1" "so_products st1 = so_products st" "so_versions st1 = so_versions st"
    "\<exists>x. release_at i (re_version r) st1 = Some x \<and> release_is position r x"
    "\<And>w. w \<noteq> re_version r \<Longrightarrow> release_at i w st1 = release_at i w st"
    using sync_release_spec[OF Cons.prems(1) _ 1] Cons.prems(3)[of position r] d by auto
  have out: "re_version r \<notin> (re_version \<circ> snd) ` set ds" using Cons.prems(2) d by simp
  have "find (\<lambda>x. rl_version x = re_version r') existing = release_at i (re_version r') st1" if "(q, r') \<in> set ds" for q r'
  proof -
    have "re_version r' \<noteq> re_version r" using out that by force
    then show ?thesis using Cons.prems(3)[of q r'] that p(6) by simp
  qed
  moreover have "fold (sync_release now e i existing) ds (rep1, st1) = (rep', st')" using Cons.prems(4) d 1 by simp
  ultimately have q: "store_ok st'" "frame i st1 st'" "so_products st' = so_products st1" "so_versions st' = so_versions st1"
    "\<forall>(position, r) \<in> set ds. \<exists>x. release_at i (re_version r) st' = Some x \<and> release_is position r x"
    "\<And>w. w \<notin> (re_version \<circ> snd) ` set ds \<Longrightarrow> release_at i w st' = release_at i w st1"
    using Cons.IH[OF p(1)] Cons.prems(2) by auto
  have "\<exists>x. release_at i (re_version r) st' = Some x \<and> release_is position r x" using q(6)[OF out] p(5) by simp
  moreover have "release_at i w st' = release_at i w st" if "w \<notin> (re_version \<circ> snd) ` set (d # ds)" for w
    using q(6)[of w] p(6)[of w] that d by simp
  ultimately show ?case using q(1,3,4,5) p(3,4) frame_trans[OF p(2) q(2)] d by auto
qed simp

definition releases_settled :: "catalog_file \<Rightarrow> nat \<Rightarrow> store \<Rightarrow> bool" where
  "releases_settled e i st \<longleftrightarrow>
     (\<forall>(position, r) \<in> set (enumerate 0 (cf_releases e)). \<exists>x. release_at i (re_version r) st = Some x \<and> release_is position r x) \<and>
     (\<forall>x \<in> set (releases_of i st). rl_version x \<in> re_version ` set (cf_releases e))"

lemma enumerate_versions: "map (re_version \<circ> snd) (enumerate n rs) = map re_version rs"
  by (metis map_map map_snd_enumerate)

lemma sync_releases_spec:
  assumes ok: "store_ok st" and d: "distinct (map re_version (cf_releases e))" and r: "sync_releases now e i st = (rep, st')"
  shows "store_ok st' \<and> frame i st st' \<and> so_products st' = so_products st \<and> so_versions st' = so_versions st \<and> releases_settled e i st'"
proof -
  let ?W = "re_version ` set (cf_releases e)" and ?ds = "enumerate 0 (cf_releases e)"
  let ?keep = "\<lambda>x. \<not> (rl_product x = i \<and> rl_version x \<notin> ?W)"
  define st1 where "st1 = st\<lparr>so_releases := filter ?keep (so_releases st)\<rparr>"
  have ok1: "store_ok st1" using ok by (auto simp: store_ok_def st1_def distinct_map_filter)
  have fr1: "frame i st st1" by (auto simp: frame_def products_of_def versions_of_def releases_of_def st1_def intro!: filter_cong)
  have own1: "releases_of i st1 = filter (\<lambda>x. rl_version x \<in> ?W) (releases_of i st)"
    by (simp add: releases_of_def st1_def conj_commute cong: conj_cong)
  have at1: "release_at i v st1 = release_at i v st" if "v \<in> ?W" for v
    unfolding release_at_def own1 by (rule find_filter) (use that in auto)
  have F: "fold (sync_release now e i (releases_of i st)) ?ds (map (\<lambda>x. release_action e ''release-deleted'' (rl_version x))
      (filter (\<lambda>x. rl_version x \<notin> ?W) (releases_of i st)), st1) = (rep, st')"
    using r by (simp add: sync_releases_def Let_def releases_of_def st1_def)
  have X: "find (\<lambda>x. rl_version x = re_version q) (releases_of i st) = release_at i (re_version q) st1" if "(p, q) \<in> set ?ds" for p q
  proof -
    have "q \<in> set (cf_releases e)" using that by (metis in_set_enumerate_eq nth_mem snd_conv fst_conv in_set_zip enumerate_eq_zip)
    then show ?thesis using at1[of "re_version q"] by (simp add: release_at_def)
  qed
  have D: "distinct (map (re_version \<circ> snd) ?ds)" using d by (simp only: enumerate_versions)
  have R: "store_ok st' \<and> frame i st1 st' \<and> so_products st' = so_products st1 \<and> so_versions st' = so_versions st1 \<and>
    (\<forall>(position, r) \<in> set ?ds. \<exists>x. release_at i (re_version r) st' = Some x \<and> release_is position r x) \<and>
    (\<forall>w. w \<notin> (re_version \<circ> snd) ` set ?ds \<longrightarrow> release_at i w st' = release_at i w st1)"
    by (rule put_releases_spec[OF ok1 D _ F]) (rule X)
  have s: "store_ok st'" "frame i st1 st'" "so_products st' = so_products st1" "so_versions st' = so_versions st1"
    "\<forall>(position, r) \<in> set ?ds. \<exists>x. release_at i (re_version r) st' = Some x \<and> release_is position r x"
    "\<forall>w. w \<notin> (re_version \<circ> snd) ` set ?ds \<longrightarrow> release_at i w st' = release_at i w st1"
    using R by blast+
  have W: "(re_version \<circ> snd) ` set ?ds = ?W" using arg_cong[OF enumerate_versions[of 0 "cf_releases e"], of set] by simp
  have "rl_version x \<in> ?W" if x: "x \<in> set (releases_of i st')" for x
  proof (rule ccontr)
    assume n: "rl_version x \<notin> ?W"
    then have "release_at i (rl_version x) st' = release_at i (rl_version x) st1" using s(6) W by simp
    also have "\<dots> = None" using n by (auto simp: release_at_def own1 find_None_iff)
    finally show False using x by (auto simp: release_at_def find_None_iff)
  qed
  then show ?thesis using s(1,3,4,5) frame_trans[OF fr1 s(2)] by (auto simp: releases_settled_def st1_def)
qed

lemma sync_releases_settled:
  assumes "releases_settled e i st"
  shows "sync_releases now e i st = ([], st)"
proof -
  let ?W = "re_version ` set (cf_releases e)"
  have own: "rl_version x \<in> ?W" if "x \<in> set (so_releases st)" "rl_product x = i" for x
    using assms that by (auto simp: releases_settled_def releases_of_def)
  have "fold (sync_release now e i (releases_of i st)) ds (rep, st) = (rep, st)" if "set ds \<subseteq> set (enumerate 0 (cf_releases e))" for ds rep
    using that
  proof (induction ds)
    case (Cons d ds)
    obtain position r where d: "d = (position, r)" by (cases d)
    then obtain x where "release_at i (re_version r) st = Some x" "release_is position r x"
      using assms Cons.prems by (fastforce simp: releases_settled_def)
    then have "sync_release now e i (releases_of i st) d (rep, st) = (rep, st)"
      by (simp add: sync_release_def d release_at_def release_is_def)
    then show ?case using Cons by simp
  qed simp
  moreover have "filter (\<lambda>x. \<not> (rl_product x = i \<and> rl_version x \<notin> ?W)) (so_releases st) = so_releases st"
    using own by (intro filter_True) auto
  moreover have "filter (\<lambda>x. rl_version x \<notin> ?W) (releases_of i st) = []"
    using own by (intro filter_False) (auto simp: releases_of_def)
  ultimately show ?thesis by (simp add: sync_releases_def Let_def releases_of_def)
qed

end
