(* ===== verification/CatalogRuns.thy ===== *)
theory CatalogRuns
  imports CatalogLaws
begin

text \<open>
  Whole runs of the catalog's reconciler: a run makes the tables what the catalog declares, a second
  run has nothing to do, and no run takes anything from the history the deployments rest on. Renaming
  a product's folder is a run that cannot succeed.
\<close>

section \<open>A document with nothing left to do\<close>

definition declares :: "toolkit \<Rightarrow> catalog_file \<Rightarrow> listed_product \<Rightarrow> bool" where
  "declares tk e p \<longleftrightarrow> live p \<and> with_fields e p = p \<and> with_shots tk e p = p \<and>
     (\<forall>d. cf_icon e = Some d \<longrightarrow> lp_icon p = Some (generate_icon_filename (tk_images tk) d))"

definition canonical :: "toolkit \<Rightarrow> catalog_file \<Rightarrow> listed_product \<Rightarrow> store \<Rightarrow> bool" where
  "canonical tk e p st \<longleftrightarrow> (\<exists>t. find (matching tk e (p_id p)) (versions_of (p_id p) st) = Some t \<and> p_template_id p = Some (t_id t)) \<and>
     (\<forall>u \<in> set (versions_of (p_id p) st). stampable tk e (p_id p) u = None)"

definition declared :: "toolkit \<Rightarrow> catalog_file \<Rightarrow> store \<Rightarrow> bool" where
  "declared tk e st \<longleftrightarrow> (\<exists>p \<in> set (so_products st). declares tk e p \<and> canonical tk e p st \<and> releases_settled e (p_id p) st)"

definition shot_files :: "toolkit \<Rightarrow> loaded_shot \<Rightarrow> files \<Rightarrow> bool" where
  "shot_files tk s fs \<longleftrightarrow> is_file fs (screenshot_rel_path tk (ls_source s)) \<and>
     is_file fs (screenshot_thumbnail_path (screenshot_rel_path tk (ls_source s)))"

definition files_there :: "toolkit \<Rightarrow> catalog_file \<Rightarrow> files \<Rightarrow> bool" where
  "files_there tk e fs \<longleftrightarrow> (\<forall>d. cf_icon e = Some d \<longrightarrow> is_file fs (generate_icon_filename (tk_images tk) d)) \<and>
     (\<forall>s \<in> set (cf_shots e). shot_files tk s fs)"

lemma with_fields_simps [simp]: "p_id (with_fields e p) = p_id p" "lp_deleted_at (with_fields e p) = lp_deleted_at p"
  "lp_visibility (with_fields e p) = lp_visibility p" "lp_curated (with_fields e p)" "p_slug (with_fields e p) = Some (cf_slug e)"
  by (simp_all add: with_fields_def Let_def cf_slug_def)

lemma with_shots_simps [simp]: "p_id (with_shots tk e p) = p_id p" "lp_deleted_at (with_shots tk e p) = lp_deleted_at p"
  "lp_visibility (with_shots tk e p) = lp_visibility p" "lp_curated (with_shots tk e p) = lp_curated p"
  "p_slug (with_shots tk e p) = p_slug p" "p_name (with_shots tk e p) = p_name p" "lp_icon (with_shots tk e p) = lp_icon p"
  by (simp_all add: with_shots_def)

lemma declares_curated: "declares tk e p \<Longrightarrow> lp_curated p \<and> p_slug p = Some (cf_slug e) \<and> live p"
  unfolding declares_def by (metis with_fields_simps(4,5))

definition files_grow :: "files \<Rightarrow> files \<Rightarrow> bool" where
  "files_grow fs fs' \<longleftrightarrow> (\<forall>q. is_file fs q \<longrightarrow> is_file fs' q)"

lemma files_there_grow: "files_there tk e fs \<Longrightarrow> files_grow fs fs' \<Longrightarrow> files_there tk e fs'"
  unfolding files_there_def files_grow_def shot_files_def by blast

lemma materialize_icon_spec:
  assumes "materialize_icon tk dry e p fs = (fs', q, r)"
  shows "(\<exists>x. q = p\<lparr>lp_icon := x\<rparr>) \<and> (\<forall>d. cf_icon e = Some d \<longrightarrow> lp_icon q = Some (generate_icon_filename (tk_images tk) d)) \<and>
    (cf_icon e = None \<longrightarrow> q = p) \<and> files_grow fs fs' \<and> (dry \<longrightarrow> fs' = fs) \<and>
    (\<not> dry \<longrightarrow> (\<forall>d. cf_icon e = Some d \<longrightarrow> is_file fs' (generate_icon_filename (tk_images tk) d)))"
proof -
  have same: "\<exists>x. p = p\<lparr>lp_icon := x\<rparr>" by (rule exI[of _ "lp_icon p"]) simp
  show ?thesis
  proof (cases "cf_icon e")
    case None
    then have "fs' = fs" "q = p" using assms by (simp_all add: materialize_icon_def)
    then show ?thesis using same None by (simp add: files_grow_def)
  next
    case (Some d)
    let ?rel = "generate_icon_filename (tk_images tk) d"
    show ?thesis
    proof (cases "lp_icon p = Some ?rel")
      case True
      then have "q = p" "fs' = (if is_file fs ?rel \<or> dry then fs else save_static d ?rel fs)"
        using assms Some by (auto simp: materialize_icon_def Let_def split: if_splits)
      then show ?thesis using same True Some by (simp add: files_grow_def)
    next
      case False
      then have "q = p\<lparr>lp_icon := Some ?rel\<rparr>" "fs' = (if dry then fs else save_static d ?rel fs)"
        using assms Some by (auto simp: materialize_icon_def Let_def)
      then show ?thesis using Some by (auto simp: files_grow_def)
    qed
  qed
qed

lemma materialize_shots_spec:
  "materialize_shots tk dry e ss fs = (fs', r) \<Longrightarrow>
   files_grow fs fs' \<and> (dry \<longrightarrow> fs' = fs) \<and> (\<not> dry \<and> (\<exists>as. r = Inr as) \<longrightarrow> (\<forall>s \<in> set ss. shot_files tk s fs'))"
proof (induction ss arbitrary: fs r)
  case Nil
  then show ?case by (simp add: files_grow_def)
next
  case (Cons s ss)
  let ?rel = "screenshot_rel_path tk (ls_source s)" and ?act = "\<lparr>ac_kind = ''screenshot-materialized'', ac_slug = cf_slug e, ac_detail = ''wrote '' @ screenshot_rel_path tk (ls_source s)\<rparr>"
  show ?case
  proof (cases "shot_files tk s fs")
    case there: True
    then have "materialize_shots tk dry e ss fs = (fs', r)" using Cons.prems by (simp add: shot_files_def)
    from Cons.IH[OF this] show ?thesis using there by (auto simp: files_grow_def shot_files_def)
  next
    case missing: False
    show ?thesis
    proof (cases dry)
      case True
      obtain r1 where "materialize_shots tk dry e ss fs = (fs', r1)"
        using Cons.prems missing True by (auto simp: shot_files_def Let_def split: prod.splits)
      from Cons.IH[OF this] show ?thesis using True by (simp add: files_grow_def)
    next
      case wet: False
      show ?thesis
      proof (cases "tk_render tk (ls_source s)")
        case (Inl m)
        then show ?thesis using Cons.prems missing wet by (auto simp: shot_files_def Let_def files_grow_def)
      next
        case (Inr ab)
        obtain a b where ab: "ab = (a, b)" by (cases ab)
        let ?fs1 = "save_static b (screenshot_thumbnail_path ?rel) (save_static a ?rel fs)"
        obtain r1 where r1: "materialize_shots tk dry e ss ?fs1 = (fs', r1)" "r = bindR r1 (\<lambda>as. Inr (?act # as))"
          using Cons.prems missing wet Inr ab by (auto simp: shot_files_def Let_def split: prod.splits)
        have "shot_files tk s ?fs1" by (simp add: shot_files_def)
        then have "shot_files tk s fs'" using Cons.IH[OF r1(1)] by (auto simp: files_grow_def shot_files_def)
        moreover have "\<exists>as. r1 = Inr as" if "\<exists>as. r = Inr as" using that r1(2) by (auto simp: result_simps)
        ultimately show ?thesis using Cons.IH[OF r1(1)] wet by (auto simp: files_grow_def)
      qed
    qed
  qed
qed

lemma materialize_shots_none: "\<forall>s \<in> set ss. shot_files tk s fs \<Longrightarrow> materialize_shots tk dry e ss fs = (fs, Inr [])"
  by (induction ss) (simp_all add: shot_files_def Let_def)

section \<open>Applying a document\<close>

definition reaches :: "string option \<Rightarrow> nat \<Rightarrow> store \<Rightarrow> store \<Rightarrow> bool" where
  "reaches commit i st st' \<longleftrightarrow> store_ok st' \<and> frame i st st' \<and> products_kept st st' \<and> versions_grow commit st st'"

lemma reaches_trans: "reaches c i a b \<Longrightarrow> reaches c i b d \<Longrightarrow> reaches c i a d"
  unfolding reaches_def using frame_trans products_kept_trans versions_grow_trans by blast

lemma set_product_reaches:
  assumes "store_ok st" "q \<in> set (so_products st)" "same_index q p" "lp_visibility p = lp_visibility q"
  shows "reaches c (p_id p) st (set_product p st)"
proof -
  have "product_kept q p" using assms(3,4) by (simp add: same_index_def product_kept_def)
  then show ?thesis using set_product_ok[OF assms(1-3)] set_product_frame set_product_kept[OF assms(1,2)]
    by (simp add: reaches_def versions_grow_same)
qed

lemma settle_document_spec:
  assumes ok: "store_ok st" and p: "p \<in> set (so_products st)" and d: "distinct (map re_version (cf_releases e))"
    and r: "settle_document tk commit now e p st = (rep, st')"
  shows "reaches commit (p_id p) st st' \<and>
    (\<exists>i. p\<lparr>p_template_id := i\<rparr> \<in> set (so_products st') \<and> canonical tk e (p\<lparr>p_template_id := i\<rparr>) st') \<and> releases_settled e (p_id p) st'"
proof -
  obtain t r1 st1 where 1: "resolve_template tk commit now e (p_id p) st = (t, r1, st1)" by (metis prod_cases3)
  obtain r2 st2 where 2: "repoint e p t st1 = (r2, st2)" by fastforce
  obtain r3 st3 where 3: "stamp_versions tk e (p_id p) st2 = (r3, st3)" by fastforce
  obtain r4 where 4: "sync_releases now e (p_id p) st3 = (r4, st')" using r 1 2 3 by (auto simp: settle_document_def split: prod.splits)
  note T = resolve_template_spec[OF ok 1]
  then have T': "reaches commit (p_id p) st st1" "p \<in> set (so_products st1)" by (simp_all add: reaches_def products_kept_same p)
  let ?q = "p\<lparr>p_template_id := Some (t_id t)\<rparr>"
  have "reaches commit (p_id p) st1 st2 \<and> ?q \<in> set (so_products st2) \<and> so_versions st2 = so_versions st1"
  proof (cases "p_template_id p = Some (t_id t)")
    case True
    then have "st2 = st1" "?q = p" using 2 by (simp_all add: repoint_def)
    then show ?thesis using T' T by (simp add: reaches_def products_kept_same versions_grow_same)
  next
    case False
    then have "st2 = set_product ?q st1" using 2 by (simp add: repoint_def)
    moreover have "reaches commit (p_id ?q) st1 (set_product ?q st1)"
      using T T'(2) by (intro set_product_reaches) (auto simp: same_index_def)
    ultimately show ?thesis using set_product_in[OF T'(2), of ?q] by simp
  qed
  then have R: "reaches commit (p_id p) st1 st2" "?q \<in> set (so_products st2)" "so_versions st2 = so_versions st1" by simp_all
  have "find (matching tk e (p_id p)) (versions_of (p_id p) st2) = Some t" using T R(3) by (simp add: versions_of_def)
  from stamp_versions_spec[OF _ 3 this, of commit] R(1)
  have S: "reaches commit (p_id p) st2 st3" "so_products st3 = so_products st2"
    "\<exists>u. find (matching tk e (p_id p)) (versions_of (p_id p) st3) = Some u \<and> t_id u = t_id t"
    "\<forall>u \<in> set (versions_of (p_id p) st3). stampable tk e (p_id p) u = None"
    by (simp_all add: reaches_def products_kept_same)
  have Y: "store_ok st' \<and> frame (p_id p) st3 st' \<and> so_products st' = so_products st3 \<and> so_versions st' = so_versions st3 \<and> releases_settled e (p_id p) st'"
    using S(1) by (intro sync_releases_spec[OF _ d 4]) (simp add: reaches_def)
  then have "reaches commit (p_id p) st3 st'" by (simp add: reaches_def products_kept_same versions_grow_same)
  with T'(1) R(1) S(1) have "reaches commit (p_id p) st st'" using reaches_trans by blast
  moreover have "versions_of (p_id p) st' = versions_of (p_id p) st3" using Y by (simp add: versions_of_def)
  then have "canonical tk e ?q st'" using S(3,4) by (auto simp: canonical_def)
  moreover have "?q \<in> set (so_products st')" using Y S(2) R(2) by simp
  ultimately show ?thesis using Y by blast
qed

lemma dressed_declares:
  assumes "live p" "q = with_fields e p" "r = q\<lparr>lp_icon := x\<rparr>"
    and "\<forall>d. cf_icon e = Some d \<longrightarrow> lp_icon r = Some (generate_icon_filename (tk_images tk) d)"
  shows "declares tk e ((with_shots tk e r)\<lparr>p_template_id := i\<rparr>)"
  using assms by (simp add: declares_def live_def with_fields_def with_shots_def Let_def)

text \<open>The products a document may write to.\<close>

definition claims_product :: "catalog_file \<Rightarrow> listed_product \<Rightarrow> bool" where
  "claims_product e q \<longleftrightarrow> curated_as (cf_slug e) q \<or> adoptable (pb_name (dc_product (cf_document e))) q"

lemma claims_other: "lp_curated q \<Longrightarrow> p_slug q \<noteq> Some (cf_slug e) \<Longrightarrow> \<not> claims_product e q"
  by (auto simp: claims_product_def curated_as_def adoptable_def)

lemma apply_document_spec:
  assumes ok: "store_ok st" and d: "distinct (map re_version (cf_releases e))"
    and r: "apply_document tk commit now dry e fs st = (fs', Inr (rep, st'))"
  shows "(\<exists>i. reaches commit i st st' \<and>
      (\<forall>q \<in> set (so_products st). \<not> claims_product e q \<longrightarrow> p_id q \<noteq> i)) \<and>
    declared tk e st' \<and> files_grow fs fs' \<and> (dry \<longrightarrow> fs' = fs) \<and> (\<not> dry \<longrightarrow> files_there tk e fs')"
proof -
  obtain p0 r0 st0 where 0: "resolve_product e st = Inr (p0, r0, st0)" using r by (auto simp: apply_document_def split: sum.splits)
  let ?p = "with_fields e p0"
  obtain st1 where 1: "put_product ?p st0 = Inr st1" using r 0 by (auto simp: apply_document_def split: sum.splits)
  obtain fs1 p1 r1 where 2: "materialize_icon tk dry e ?p fs = (fs1, p1, r1)" by (metis prod_cases3)
  obtain r2 where 3: "materialize_shots tk dry e (cf_shots e) fs1 = (fs', Inr r2)"
    using r 0 1 2 by (auto simp: apply_document_def split: sum.splits prod.splits)
  let ?q = "with_shots tk e p1"
  obtain r3 where 4: "settle_document tk commit now e ?q (set_product ?q st1) = (r3, st')"
    using r 0 1 2 3 by (auto simp: apply_document_def split: prod.splits)
  note P = resolve_product_spec[OF ok 0]
  obtain x where x: "p1 = ?p\<lparr>lp_icon := x\<rparr>" using materialize_icon_spec[OF 2] by blast
  have A: "reaches commit (p_id p0) st st0" using P by (simp add: reaches_def versions_grow_same)
  have p0: "p0 \<in> set (so_products st0)" "live p0" "store_ok st0" using P by simp_all
  have c: "curation_ok ?p" "p_id ?p < so_next_product st0"
    using p0(2) store_ok_product[OF p0(3,1)] by (simp_all add: curation_ok_def live_def)
  have e1: "st1 = set_product ?p st0" by (rule put_product_eq[OF 1])
  have "product_kept p0 ?p" by (simp add: product_kept_def)
  then have B: "reaches commit (p_id p0) st0 st1" "?p \<in> set (so_products st1)"
    using put_product_ok[OF p0(3) 1 c] set_product_frame[of ?p st0] set_product_kept[OF p0(3,1)] set_product_in[OF p0(1), of ?p]
    by (simp_all add: reaches_def e1 versions_grow_same)
  have s: "same_index ?p ?q" "lp_visibility ?q = lp_visibility ?p" "p_id ?q = p_id p0" by (simp_all add: same_index_def x)
  have okst1: "store_ok st1" using B(1) by (simp add: reaches_def)
  have C: "reaches commit (p_id p0) st1 (set_product ?q st1)"
    using set_product_reaches[OF okst1 B(2) s(1,2), of commit] s(3) by simp
  have q: "?q \<in> set (so_products (set_product ?q st1))" by (rule set_product_in[OF B(2)]) (simp add: x)
  have okq: "store_ok (set_product ?q st1)" using C by (simp add: reaches_def)
  note S = settle_document_spec[OF okq q d 4]
  have "reaches commit (p_id p0) st st'" using reaches_trans[OF reaches_trans[OF A B(1)] reaches_trans[OF C]] S s(3) by simp
  moreover obtain i where i: "?q\<lparr>p_template_id := i\<rparr> \<in> set (so_products st')" "canonical tk e (?q\<lparr>p_template_id := i\<rparr>) st'" using S by blast
  have "declares tk e (?q\<lparr>p_template_id := i\<rparr>)" using materialize_icon_spec[OF 2] p0(2) by (intro dressed_declares[OF _ refl x]) auto
  then have "declared tk e st'" unfolding declared_def using i S by (intro bexI[OF _ i(1)]) simp
  moreover have "files_grow fs fs'" "dry \<longrightarrow> fs' = fs" "\<not> dry \<longrightarrow> files_there tk e fs'"
    using materialize_icon_spec[OF 2] materialize_shots_spec[OF 3] by (auto simp: files_grow_def files_there_def)
  ultimately show ?thesis using P unfolding claims_product_def by blast
qed

section \<open>A document applied again\<close>

lemma put_product_same:
  assumes "store_ok st" "p \<in> set (so_products st)"
  shows "put_product p st = Inr st"
proof -
  have s: "products_ok (so_products st)" using assms(1) by (simp add: store_ok_def)
  have "\<not> name_clash p (so_products st)" "\<not> slug_clash p (so_products st)"
    using s same_index_clash[of name_key live "so_products st" p p] same_index_clash[of p_slug slugged "so_products st" p p] assms(2)
    by (simp_all add: products_ok_def name_clash_def slug_clash_def)
  then show ?thesis using set_product_id[OF assms] by (simp add: put_product_def set_product_def check_product_def)
qed

lemma stamp_versions_none:
  assumes "\<forall>u \<in> set (versions_of i st). stampable tk e i u = None"
  shows "stamp_versions tk e i st = ([], st)"
proof -
  have "stampable tk e i t = None" if "t \<in> set (so_versions st)" for t
    using assms that by (cases "t_product t = i") (simp_all add: versions_of_def stampable_def)
  then have "concat (map (\<lambda>t. case stampable tk e i t of None \<Rightarrow> [] | Some v \<Rightarrow> f t v) (so_versions st)) = []"
    "map (\<lambda>t. case stampable tk e i t of None \<Rightarrow> t | Some v \<Rightarrow> g t v) (so_versions st) = so_versions st" for f :: "_ \<Rightarrow> _ \<Rightarrow> report" and g
    by (auto intro: map_idI)
  then show ?thesis by (simp add: stamp_versions_def)
qed

lemma apply_document_again:
  assumes ok: "store_ok st" and d: "declared tk e st" and f: "files_there tk e fs"
  shows "apply_document tk commit now dry e fs st = (fs, Inr ([], st))"
proof -
  obtain p where p: "p \<in> set (so_products st)" "declares tk e p" "canonical tk e p st" "releases_settled e (p_id p) st"
    using d by (auto simp: declared_def)
  have c: "curated_as (cf_slug e) p" using declares_curated[OF p(2)] by (simp add: curated_as_def)
  have 0: "resolve_product e st = Inr (p, [], st)"
    using curated_as_unique[OF ok p(1) c] by (simp add: resolve_product_def Let_def)
  have w: "with_fields e p = p" "with_shots tk e p = p" using p(2) by (simp_all add: declares_def)
  have 2: "materialize_icon tk dry e p fs = (fs, p, [])"
    using p(2) f by (auto simp: materialize_icon_def declares_def files_there_def Let_def split: option.split)
  have 3: "materialize_shots tk dry e (cf_shots e) fs = (fs, Inr [])"
    using f by (intro materialize_shots_none) (simp add: files_there_def)
  obtain t where t: "find (matching tk e (p_id p)) (versions_of (p_id p) st) = Some t" "p_template_id p = Some (t_id t)"
    "\<forall>u \<in> set (versions_of (p_id p) st). stampable tk e (p_id p) u = None" using p(3) by (auto simp: canonical_def)
  have 4: "settle_document tk commit now e p st = ([], st)"
    using t(1,2) stamp_versions_none[OF t(3)] sync_releases_settled[OF p(4)]
    by (simp add: settle_document_def resolve_template_def matching_own repoint_def)
  show ?thesis
    using 0 2 3 4 by (simp add: apply_document_def w put_product_same[OF ok p(1)] set_product_id[OF ok p(1)])
qed

lemma declared_frame:
  assumes "store_ok st" "store_ok st'" "declared tk e st" "frame i st st'"
    and "\<And>q. q \<in> set (so_products st) \<Longrightarrow> lp_curated q \<Longrightarrow> p_slug q = Some (cf_slug e) \<Longrightarrow> p_id q \<noteq> i"
  shows "declared tk e st'"
proof -
  obtain p where p: "p \<in> set (so_products st)" "declares tk e p" "canonical tk e p st" "releases_settled e (p_id p) st"
    using assms(3) by (auto simp: declared_def)
  have n: "p_id p \<noteq> i" using assms(5)[OF p(1)] declares_curated[OF p(2)] by simp
  have s: "products_of (p_id p) st' = products_of (p_id p) st" "versions_of (p_id p) st' = versions_of (p_id p) st"
      "releases_of (p_id p) st' = releases_of (p_id p) st"
    using assms(4) n by (simp_all add: frame_def)
  have "p \<in> set (products_of (p_id p) st')" using s(1) products_of_single[OF assms(1) p(1)] by simp
  then have "p \<in> set (so_products st')" by (simp add: products_of_def)
  moreover have "canonical tk e p st'" using p(3) s(2) by (simp add: canonical_def)
  moreover have "releases_settled e (p_id p) st'" using p(4) s(3) by (simp add: releases_settled_def release_at_def)
  ultimately show ?thesis using p(2) by (auto simp: declared_def)
qed

section \<open>The whole catalog\<close>

definition entries_ok :: "catalog_file list \<Rightarrow> bool" where
  "entries_ok es \<longleftrightarrow> distinct (map cf_slug es) \<and> list_all (\<lambda>e. distinct (map re_version (cf_releases e))) es"

definition moves_on :: "string option \<Rightarrow> store \<Rightarrow> store \<Rightarrow> bool" where
  "moves_on commit st st' \<longleftrightarrow> store_ok st' \<and> products_kept st st' \<and> versions_grow commit st st'"

lemma moves_on_trans: "moves_on c a b \<Longrightarrow> moves_on c b d \<Longrightarrow> moves_on c a d"
  unfolding moves_on_def using products_kept_trans versions_grow_trans by blast

lemma apply_documents_spec:
  assumes "store_ok st" "entries_ok es" "apply_documents tk commit now dry es fs st = (fs', Inr (rep, st'))"
  shows "moves_on commit st st' \<and> (\<forall>e \<in> set es. declared tk e st') \<and> files_grow fs fs' \<and> (dry \<longrightarrow> fs' = fs) \<and>
    (\<not> dry \<longrightarrow> (\<forall>e \<in> set es. files_there tk e fs')) \<and>
    (\<forall>e. cf_slug e \<notin> cf_slug ` set es \<longrightarrow> declared tk e st \<longrightarrow> declared tk e st')"
  using assms
proof (induction es arbitrary: fs st rep)
  case Nil
  then show ?case by (simp add: moves_on_def products_kept_same versions_grow_same files_grow_def)
next
  case (Cons e es)
  obtain fs1 r1 st1 where 1: "apply_document tk commit now dry e fs st = (fs1, Inr (r1, st1))"
    using Cons.prems(3) by (auto split: prod.splits sum.splits)
  obtain r2 where 2: "apply_documents tk commit now dry es fs1 st1 = (fs', Inr (r2, st'))"
    using Cons.prems(3) 1 by (auto simp: result_simps split: prod.splits)
  have d: "distinct (map re_version (cf_releases e))" "entries_ok es" "cf_slug e \<notin> cf_slug ` set es"
    using Cons.prems(2) by (simp_all add: entries_ok_def)
  note A = apply_document_spec[OF Cons.prems(1) d(1) 1]
  then obtain i where i: "reaches commit i st st1"
    "\<forall>q \<in> set (so_products st). \<not> claims_product e q \<longrightarrow> p_id q \<noteq> i" by blast
  have ok1: "store_ok st1" using i(1) by (simp add: reaches_def)
  note IH = Cons.IH[OF ok1 d(2) 2]
  have "declared tk e st'" using IH A d(3) by blast
  moreover have "moves_on commit st st'" using i(1) IH moves_on_trans[of commit st st1 st'] by (simp add: reaches_def moves_on_def)
  moreover have "files_there tk e fs'" if "\<not> dry" using A IH that files_there_grow by blast
  moreover have "files_grow fs fs'" "dry \<longrightarrow> fs' = fs" using A IH by (auto simp: files_grow_def)
  moreover have "declared tk x st'" if "cf_slug x \<notin> cf_slug ` set (e # es)" "declared tk x st" for x
  proof -
    have "declared tk x st1" using i that(1) by (intro declared_frame[OF Cons.prems(1) ok1 that(2)]) (auto simp: reaches_def claims_other)
    then show ?thesis using IH that(1) by simp
  qed
  ultimately show ?case using IH by simp
qed

lemma apply_documents_again:
  "store_ok st \<Longrightarrow> \<forall>e \<in> set es. declared tk e st \<and> files_there tk e fs \<Longrightarrow>
   apply_documents tk commit now dry es fs st = (fs, Inr ([], st))"
  by (induction es) (simp_all add: apply_document_again)

lemma release_undeclared_none:
  assumes "\<forall>p \<in> set (so_products st). \<not> undeclared ss p"
  shows "release_undeclared ss st = ([], st)"
proof -
  have "map (\<lambda>p. if undeclared ss p then f p else p) (so_products st) = so_products st" for f
    using assms by (intro map_idI) simp
  then show ?thesis using assms by (simp add: release_undeclared_def filter_False)
qed

definition released :: "string list \<Rightarrow> listed_product \<Rightarrow> listed_product" where
  "released ss p = (if undeclared ss p then p\<lparr>lp_curated := False, p_slug := None\<rparr> else p)"

lemma released_simps: "p_id (released ss p) = p_id p" "p_name (released ss p) = p_name p" "live (released ss p) = live p"
  "slugged (released ss p) \<Longrightarrow> slugged p \<and> p_slug (released ss p) = p_slug p" "product_kept p (released ss p)"
  "curation_ok p \<Longrightarrow> curation_ok (released ss p)" "\<not> undeclared ss (released ss p)"
  by (auto simp: released_def live_def slugged_def product_kept_def curation_ok_def undeclared_def)

lemma one_open_map_sub:
  assumes "one_open slot occ rs" "\<And>r. occ (f r) \<Longrightarrow> occ r \<and> slot (f r) = slot r"
  shows "one_open slot occ (map f rs)"
  using assms(1)
proof (induction rs)
  case (Cons r rs)
  have "slot ` set (filter occ (map f rs)) \<subseteq> slot ` set (filter occ rs)" using assms(2) by fastforce
  then show ?case using Cons assms(2)[of r] by (auto simp: one_open_def split: if_splits)
qed (simp add: one_open_def)

lemma release_undeclared_spec:
  assumes ok: "store_ok st" and r: "release_undeclared ss st = (rep, st')"
  shows "moves_on c st st' \<and> (\<forall>p \<in> set (so_products st'). \<not> undeclared ss p) \<and>
    (\<forall>e. cf_slug e \<in> set ss \<longrightarrow> declared tk e st \<longrightarrow> declared tk e st')"
proof -
  have st': "st' = st\<lparr>so_products := map (released ss) (so_products st)\<rparr>"
    using r by (auto simp: release_undeclared_def released_def)
  have "products_ok (map (released ss) (so_products st))"
    using ok one_open_map_sub[of name_key live "so_products st" "released ss"] one_open_map_sub[of p_slug slugged "so_products st" "released ss"]
      released_simps
    by (simp add: store_ok_def products_ok_def list_all_iff comp_def)
  then have "store_ok st'" using ok by (simp add: store_ok_def st' released_simps)
  moreover have "products_kept st st'" by (rule products_kept_map[of _ "released ss"]) (simp_all add: st' released_simps)
  ultimately have E: "moves_on c st st'" by (simp add: moves_on_def versions_grow_same st')
  have "declared tk e st'" if a: "cf_slug e \<in> set ss" and b: "declared tk e st" for e
  proof -
    obtain p where p: "p \<in> set (so_products st)" "declares tk e p" "canonical tk e p st" "releases_settled e (p_id p) st"
      using b by (auto simp: declared_def)
    have "released ss p = p" using declares_curated[OF p(2)] a by (simp add: released_def undeclared_def)
    then have "p \<in> set (so_products st')" using p(1) by (force simp: st')
    then show ?thesis using p(2-4) by (auto simp: declared_def canonical_def releases_settled_def release_at_def releases_of_def versions_of_def st')
  qed
  then show ?thesis using E by (auto simp: st' released_simps)
qed

section \<open>What the loader promises\<close>

lemma load_release_items_distinct:
  "load_release_items name i seen vs = Inr rs \<Longrightarrow> distinct (map re_version rs) \<and> re_version ` set rs \<inter> set seen = {}"
proof (induction name i seen vs arbitrary: rs rule: load_release_items.induct)
  case (2 name i seen v vs)
  then obtain r rs' where r: "release_of v = Some r" "re_version r \<notin> set seen" "load_release_items name (Suc i) (re_version r # seen) vs = Inr rs'"
    "rs = r # rs'"
    by (auto simp: result_simps split: json.splits if_splits option.splits)
  obtain d where d: "v = JObj d" using r(1) by (auto simp: release_of_def model_fields_def split: json.splits)
  have "\<not> (case map_of d ''version'' of None \<Rightarrow> False | Some (JStr _) \<Rightarrow> False | Some _ \<Rightarrow> True)"
    using 2(2) d by (auto split: if_splits)
  from 2(1)[OF d this r(1,2,3)] show ?case using r(2,4) by auto
qed simp

lemma load_document_ok:
  assumes "load_document tk f = Inr e"
  shows "distinct (map re_version (cf_releases e)) \<and> cf_slug e = fd_name f"
proof -
  obtain rs where "load_releases tk f = Inr rs" "cf_releases e = rs" "cf_slug e = fd_name f"
    using assms by (auto simp: load_document_def result_simps cf_slug_def split: text_file.splits sum.splits if_splits option.splits)
  moreover have "distinct (map re_version rs)" if "load_releases tk f = Inr rs"
    using that load_release_items_distinct by (fastforce simp: load_releases_def split: text_file.splits sum.splits json.splits)
  ultimately show ?thesis by simp
qed

lemma mapR_Inr_all: "mapR f xs = Inr ys \<Longrightarrow> (\<And>x y. x \<in> set xs \<Longrightarrow> f x = Inr y \<Longrightarrow> P y) \<Longrightarrow> list_all P ys"
proof (induction xs arbitrary: ys)
  case (Cons x xs)
  then obtain y ys' where y: "f x = Inr y" "mapR f xs = Inr ys'" "ys = y # ys'" by (auto simp: result_simps)
  have "list_all P ys'" using Cons.IH[OF y(2)] Cons.prems(2) by (meson list.set_intros(2))
  then show ?case using Cons.prems(2)[of x y] y by simp
qed simp

lemma load_catalog_ok: "load_catalog tk dir = Inr es \<Longrightarrow> entries_ok es"
proof -
  assume "load_catalog tk dir = Inr es"
  then obtain fs where "mapR (load_document tk) fs = Inr es" "distinct (map cf_slug es)"
    by (auto simp: load_catalog_def result_simps split: catalog_dir.splits if_splits)
  then show ?thesis using mapR_Inr_all[of "load_document tk" fs es "\<lambda>e. distinct (map re_version (cf_releases e))"] load_document_ok
    by (auto simp: entries_ok_def)
qed

section \<open>The claims\<close>

lemma run_entries_spec:
  assumes ok: "store_ok st" and es: "entries_ok es" and r: "run_entries tk commit now dry es fs st = (fs', Inr (rep, st'))"
  shows "(dry \<longrightarrow> st' = st \<and> fs' = fs) \<and> moves_on commit st st' \<and>
    (\<not> dry \<longrightarrow> (\<forall>e \<in> set es. declared tk e st' \<and> files_there tk e fs') \<and>
       (\<forall>p \<in> set (so_products st'). \<not> undeclared (map cf_slug es) p))"
proof -
  obtain r1 st1 where 1: "apply_documents tk commit now dry es fs st = (fs', Inr (r1, st1))"
    using r by (auto simp: run_entries_def split: prod.splits sum.splits)
  obtain r2 st2 where 2: "release_undeclared (map cf_slug es) st1 = (r2, st2)" by fastforce
  have st': "st' = (if dry then st else st2)" using r 1 2 by (auto simp: run_entries_def)
  note A = apply_documents_spec[OF ok es 1]
  then have "store_ok st1" by (simp add: moves_on_def)
  note B = release_undeclared_spec[OF this 2, of commit tk]
  have "moves_on commit st st2" using A B moves_on_trans[of commit st st1 st2] by blast
  moreover have "moves_on commit st st" using ok by (simp add: moves_on_def products_kept_same versions_grow_same)
  moreover have "declared tk e st2" if "e \<in> set es" for e using A B that by simp
  ultimately show ?thesis using A B st' by auto
qed

text \<open>
  C4. A run of the catalog makes the tables what the catalog declares: every declared product is live
  and curated under its slug with exactly the declared fields, screenshots and icon, its template is
  the first of its undeleted versions with the declared spec, every version that can be stamped is,
  its releases are those of the file in the file's order, and no other product is curated.
\<close>

theorem catalog_run_declares:
  assumes "store_ok st" "load_catalog tk dir = Inr es" "apply_catalog tk commit now False dir fs st = (fs', Inr (rep, st'))"
  shows "store_ok st' \<and> (\<forall>e \<in> set es. declared tk e st' \<and> files_there tk e fs') \<and>
    (\<forall>p \<in> set (so_products st'). lp_curated p \<longleftrightarrow> p_slug p \<in> Some ` cf_slug ` set es)"
proof -
  have r: "run_entries tk commit now False es fs st = (fs', Inr (rep, st'))" using assms(2,3) by (simp add: apply_catalog_def)
  note S = run_entries_spec[OF assms(1) load_catalog_ok[OF assms(2)] r]
  then have ok: "store_ok st'" by (simp add: moves_on_def)
  have "lp_curated p \<longleftrightarrow> p_slug p \<in> Some ` cf_slug ` set es" if "p \<in> set (so_products st')" for p
    using S that store_ok_product[OF ok that] by (auto simp: undeclared_def curation_ok_def)
  then show ?thesis using S ok by blast
qed

text \<open>
  C5. A second run has nothing to do. Once a run has succeeded, applying the same catalog again, by
  whichever commit, later, and dry or not, reports no action and changes neither a row nor a file.
\<close>

theorem catalog_run_idempotent:
  assumes "store_ok st" "apply_catalog tk commit now False dir fs st = (fs', Inr (rep, st'))"
  shows "apply_catalog tk commit' now' dry dir fs' st' = (fs', Inr ([], st'))"
proof -
  obtain es where es: "load_catalog tk dir = Inr es" "run_entries tk commit now False es fs st = (fs', Inr (rep, st'))"
    using assms(2) by (auto simp: apply_catalog_def split: sum.splits)
  note S = run_entries_spec[OF assms(1) load_catalog_ok[OF es(1)] es(2)]
  then have "apply_documents tk commit' now' dry es fs' st' = (fs', Inr ([], st'))"
    by (intro apply_documents_again) (auto simp: moves_on_def)
  moreover have "release_undeclared (map cf_slug es) st' = ([], st')" using S by (intro release_undeclared_none) simp
  ultimately show ?thesis using es(1) by (simp add: apply_catalog_def run_entries_def)
qed

text \<open>
  C6. The history the deployments rest on is append-only. A run keeps every template row with its spec,
  its product, its commit and its deletion, and its version once it has one; the rows it adds bear the
  run's commit. It deletes no product and changes no visibility, a product it adds is hidden, and a
  dry run changes nothing at all.
\<close>

theorem catalog_keeps_history:
  assumes "store_ok st" "apply_catalog tk commit now dry dir fs st = (fs', Inr (rep, st'))"
  shows "products_kept st st' \<and> versions_grow commit st st' \<and> (dry \<longrightarrow> st' = st \<and> fs' = fs)"
proof -
  obtain es where es: "load_catalog tk dir = Inr es" "run_entries tk commit now dry es fs st = (fs', Inr (rep, st'))"
    using assms(2) by (auto simp: apply_catalog_def split: sum.splits)
  show ?thesis using run_entries_spec[OF assms(1) load_catalog_ok[OF es(1)] es(2)] by (simp add: moves_on_def)
qed

section \<open>Moving a folder\<close>

lemma frame_keeps: "store_ok st \<Longrightarrow> p \<in> set (so_products st) \<Longrightarrow> frame i st st' \<Longrightarrow> p_id p \<noteq> i \<Longrightarrow> p \<in> set (so_products st')"
proof -
  assume "store_ok st" "p \<in> set (so_products st)" "frame i st st'" "p_id p \<noteq> i"
  then have "products_of (p_id p) st' = [p]" using products_of_single by (simp add: frame_def)
  then have "p \<in> set (products_of (p_id p) st')" by simp
  then show ?thesis by (simp add: products_of_def)
qed

lemma name_holder_blocks:
  assumes ok: "store_ok st" and p: "p \<in> set (so_products st)" "lp_curated p" "p_slug p \<noteq> Some (cf_slug e)"
    and n: "lower (pb_name (dc_product (cf_document e))) = lower (p_name p)"
  shows "\<exists>x. snd (apply_document tk commit now dry e fs st) = Inl x"
proof (rule ccontr)
  assume "\<not> ?thesis"
  then obtain p0 r0 st0 st1 where r: "resolve_product e st = Inr (p0, r0, st0)" "put_product (with_fields e p0) st0 = Inr st1"
    by (auto simp: apply_document_def split: sum.splits)
  note P = resolve_product_spec[OF ok r(1)]
  have out: "\<not> curated_as (cf_slug e) p" "\<not> adoptable (pb_name (dc_product (cf_document e))) p"
    using p(2,3) by (auto simp: curated_as_def adoptable_def)
  then have id: "p_id p \<noteq> p_id p0" using P p(1) by blast
  then have p1: "p \<in> set (so_products st0)" using frame_keeps[OF ok p(1)] P by blast
  have "live p" using store_ok_product[OF ok p(1)] p(2) by (simp add: curation_ok_def)
  moreover have "live p0" using P by blast
  moreover have "name_key (with_fields e p0) = name_key p" using n by (simp add: with_fields_def Let_def)
  ultimately have "name_clash (with_fields e p0) (so_products st0)"
    using p1 id by (auto simp: name_clash_def slot_taken_def live_def)
  then show False using r(2) by (auto simp: put_product_def result_simps)
qed

text \<open>
  C7. A product's folder cannot be renamed. When a curated product's slug is no longer declared and a
  document under another slug declares the same name, the run fails, because the documents are applied
  before the undeclared products are released and the product that is about to be released still
  holds the name. The tables stay as they were, so every later run fails in the same way.
\<close>

theorem folder_rename_blocks:
  assumes "store_ok st" "entries_ok es" "p \<in> set (so_products st)" "lp_curated p" "p_slug p \<notin> Some ` cf_slug ` set es"
    and "e \<in> set es" "lower (pb_name (dc_product (cf_document e))) = lower (p_name p)"
  shows "\<exists>x. snd (run_entries tk commit now dry es fs st) = Inl x"
proof -
  have "\<exists>x. snd (apply_documents tk commit now dry es fs st) = Inl x"
    using assms
  proof (induction es arbitrary: fs st)
    case (Cons x es)
    show ?case
    proof (cases "snd (apply_document tk commit now dry x fs st)")
      case (Inl y)
      then show ?thesis by (auto split: prod.splits)
    next
      case (Inr y)
      then obtain fs1 r1 st1 where 1: "apply_document tk commit now dry x fs st = (fs1, Inr (r1, st1))"
        by (metis prod.collapse)
      have d: "distinct (map re_version (cf_releases x))" "entries_ok es" using Cons.prems(2) by (simp_all add: entries_ok_def)
      obtain i where i: "reaches commit i st st1" "\<forall>q \<in> set (so_products st). \<not> claims_product x q \<longrightarrow> p_id q \<noteq> i"
        using apply_document_spec[OF Cons.prems(1) d(1) 1] by blast
      have ne: "p_slug p \<noteq> Some (cf_slug x)" using Cons.prems(5) by auto
      then have "x \<noteq> e" using name_holder_blocks[OF Cons.prems(1,3,4) ne, of tk commit now dry fs] Inr Cons.prems(7) by auto
      moreover have "p \<in> set (so_products st1)"
        using frame_keeps[OF Cons.prems(1,3)] i claims_other[OF Cons.prems(4) ne] Cons.prems(3) by (auto simp: reaches_def)
      ultimately have "\<exists>z. snd (apply_documents tk commit now dry es fs1 st1) = Inl z"
        using Cons.prems(4-7) i(1) d(2) by (intro Cons.IH) (auto simp: reaches_def)
      then show ?thesis using 1 by (auto split: prod.splits)
    qed
  qed simp
  then show ?thesis by (auto simp: run_entries_def split: prod.splits sum.splits)
qed

section \<open>A catalog of one product\<close>

definition wiki_json :: json where
  "wiki_json = JObj [(''schema_version'', JInt 1),
     (''product'', JObj [(''slug'', JStr ''wiki''), (''name'', JStr ''Wiki''), (''icon'', JStr ''icon.png'')]),
     (''upstream'', JObj [(''source'', JObj [(''type'', JStr ''docker-tag''), (''image'', JStr ''wiki'')]),
        (''match'', JStr ''(?P<version>.+)''), (''version_path'', JStr ''template.system_values.image.tag'')]),
     (''template'', JObj [(''chart_ref'', JStr ''oci://charts/wiki''), (''chart_version'', JStr ''1.0.0''),
        (''system_values'', JObj [(''image'', JObj [(''tag'', JStr ''2.1'')])])])]"

definition wiki_tk :: toolkit where
  "wiki_tk = \<lparr>tk_yaml = (\<lambda>s. Inr (if s = ''document'' then wiki_json
       else JList [JObj [(''version'', JStr ''2.1''), (''notes'', JStr ''First'')]])),
     tk_groups = (\<lambda>m. Inr [''version'']), tk_version = (\<lambda>m v. Some v),
     tk_int = (\<lambda>v. case v of JInt i \<Rightarrow> Some i | _ \<Rightarrow> None), tk_schema = (\<lambda>s. None), tk_images = plain_images,
     tk_open = (\<lambda>b. Inr (''PNG'', 1, 1)), tk_render = (\<lambda>b. Inr (b, b)), tk_sha256 = (\<lambda>s. s)\<rparr>"

definition wiki_dir :: catalog_dir where
  "wiki_dir = Dir [Folder \<lparr>fd_name = ''wiki'', fd_document = Text ''document'', fd_asset = (\<lambda>p. Bytes ''png''),
     fd_releases = Text ''releases''\<rparr>]"

definition empty_store :: store where
  "empty_store = \<lparr>so_products = [], so_versions = [], so_releases = [], so_next_product = 1, so_next_version = 1, so_next_release = 1\<rparr>"

definition wiki_run :: "files \<times> (catalog_error + report \<times> store)" where
  "wiki_run = apply_catalog wiki_tk (Some ''75eccfc'') 100 False wiki_dir [] empty_store"

definition wiki_document :: document where
  "wiki_document = \<lparr>dc_schema_version = 1,
     dc_product = \<lparr>pb_slug = ''wiki'', pb_name = ''Wiki'', pb_tagline = None, pb_description = None, pb_category = None, pb_replaces = None,
       pb_icon = Some ''icon.png'', pb_license = None, pb_features = [], pb_links = [], pb_shots = []\<rparr>,
     dc_upstream = \<lparr>up_source = DockerTag ''wiki'', up_match = ''(?P<version>.+)'', up_version_path = ''template.system_values.image.tag''\<rparr>,
     dc_template = \<lparr>tb_chart_ref = ''oci://charts/wiki'', tb_chart_version = ''1.0.0'', tb_chart_digest = None,
       tb_system_values = [(''image'', JObj [(''tag'', JStr ''2.1'')])], tb_schema = None\<rparr>\<rparr>"

definition wiki_entry :: catalog_file where
  "wiki_entry = \<lparr>cf_name = ''wiki'', cf_document = wiki_document, cf_icon = Some ''png'', cf_shots = [],
     cf_releases = [\<lparr>re_version = ''2.1'', re_notes = ''First''\<rparr>]\<rparr>"

lemma wiki_decoded: "document_of wiki_tk wiki_json = Some wiki_document"
  by code_simp

lemma wiki_loaded: "load_catalog wiki_tk wiki_dir = Inr [wiki_entry]"
proof -
  have t: "tk_yaml wiki_tk ''document'' = Inr wiki_json" "im_process (tk_images wiki_tk) d = Inr d"
    "tk_yaml wiki_tk ''releases'' = Inr (JList [JObj [(''version'', JStr ''2.1''), (''notes'', JStr ''First'')]])" for d
    by (simp_all add: wiki_tk_def plain_images_def)
  have r: "release_of (JObj [(''version'', JStr ''2.1''), (''notes'', JStr ''First'')]) = Some \<lparr>re_version = ''2.1'', re_notes = ''First''\<rparr>"
    by (simp add: release_of_def model_fields_def only_keys_def nonempty_at_def str_at_def guardO_def release_notes_max_chars_def)
  have o: "is_obj wiki_json" by (simp add: wiki_json_def)
  show ?thesis
    by (simp add: load_catalog_def wiki_dir_def document_folder_def starts_with_def load_document_def t o wiki_decoded load_icon_def
        wiki_document_def read_asset_def load_screenshots_def load_releases_def r wiki_entry_def cf_slug_def)
qed

lemma wiki_run_done:
  "case apply_documents wiki_tk (Some ''75eccfc'') 100 False [wiki_entry] [] empty_store of
     (fs, Inr (rep, st)) \<Rightarrow> map ac_kind rep = [''product-created'', ''icon-materialized'', ''template-inserted'', ''canonical-repointed'', ''release-inserted''] \<and>
       map vr_version (so_versions st) = [Some ''2.1''] \<and> map p_slug (so_products st) = [Some ''wiki''] \<and> map lp_visibility (so_products st) = [VisAdmin]
   | (fs, Inl x) \<Rightarrow> False"
  by code_simp

lemma empty_store_ok: "store_ok empty_store"
  by (simp add: empty_store_def store_ok_def products_ok_def one_open_def)

lemma wiki_run_result:
  "\<exists>fs rep st. wiki_run = (fs, Inr (rep, st)) \<and>
     map ac_kind rep = [''product-created'', ''icon-materialized'', ''template-inserted'', ''canonical-repointed'', ''release-inserted''] \<and>
     map p_slug (so_products st) = [Some ''wiki''] \<and> map vr_version (so_versions st) = [Some ''2.1'']"
proof -
  obtain fs rep st where a: "apply_documents wiki_tk (Some ''75eccfc'') 100 False [wiki_entry] [] empty_store = (fs, Inr (rep, st))"
    "map ac_kind rep = [''product-created'', ''icon-materialized'', ''template-inserted'', ''canonical-repointed'', ''release-inserted'']"
    "map vr_version (so_versions st) = [Some ''2.1'']" "map p_slug (so_products st) = [Some ''wiki'']"
    using wiki_run_done by (auto simp del: apply_documents.simps split: prod.splits sum.splits)
  have "cf_slug wiki_entry = ''wiki''" by (simp add: wiki_entry_def wiki_document_def cf_slug_def)
  then have "\<forall>p \<in> set (so_products st). \<not> undeclared (map cf_slug [wiki_entry]) p"
    using a(4) by (auto simp: undeclared_def map_eq_Cons_conv)
  then have "release_undeclared (map cf_slug [wiki_entry]) st = ([], st)" by (rule release_undeclared_none)
  then have "wiki_run = (fs, Inr (rep, st))"
    using a(1) by (simp add: wiki_run_def apply_catalog_def wiki_loaded run_entries_def del: apply_documents.simps)
  then show ?thesis using a(2-4) by (intro exI conjI)
qed

theorem catalog_run_declares_witness:
  "\<exists>fs rep st. wiki_run = (fs, Inr (rep, st)) \<and> length rep = 5 \<and> store_ok st \<and> declared wiki_tk wiki_entry st \<and> files_there wiki_tk wiki_entry fs"
proof -
  obtain fs rep st where r: "wiki_run = (fs, Inr (rep, st))" "map ac_kind rep = [''product-created'', ''icon-materialized'',
     ''template-inserted'', ''canonical-repointed'', ''release-inserted'']" using wiki_run_result by (elim exE conjE)
  have "length rep = 5" using arg_cong[OF r(2), of length] by simp
  then show ?thesis using catalog_run_declares[OF empty_store_ok wiki_loaded, of "Some ''75eccfc''" 100 "[]" fs rep st] r(1)
    by (simp add: wiki_run_def)
qed

theorem catalog_run_idempotent_witness:
  "\<exists>fs rep st. wiki_run = (fs, Inr (rep, st)) \<and> length rep = 5 \<and> apply_catalog wiki_tk None 900 True wiki_dir fs st = (fs, Inr ([], st))"
proof -
  obtain fs rep st where r: "wiki_run = (fs, Inr (rep, st))" "map ac_kind rep = [''product-created'', ''icon-materialized'',
     ''template-inserted'', ''canonical-repointed'', ''release-inserted'']" using wiki_run_result by (elim exE conjE)
  have "length rep = 5" using arg_cong[OF r(2), of length] by simp
  then show ?thesis using catalog_run_idempotent[OF empty_store_ok r(1)[unfolded wiki_run_def]] r(1) by blast
qed

theorem catalog_keeps_history_witness:
  "\<exists>fs rep st. wiki_run = (fs, Inr (rep, st)) \<and> map vr_version (so_versions st) = [Some ''2.1''] \<and>
     products_kept empty_store st \<and> versions_grow (Some ''75eccfc'') empty_store st"
proof -
  obtain fs rep st where r: "wiki_run = (fs, Inr (rep, st))" "map vr_version (so_versions st) = [Some ''2.1'']"
    using wiki_run_result by (elim exE conjE)
  have "products_kept empty_store st" "versions_grow (Some ''75eccfc'') empty_store st"
    using catalog_keeps_history[OF empty_store_ok r(1)[unfolded wiki_run_def]] by simp_all
  with r show ?thesis by (intro exI conjI)
qed

definition notes_entry :: catalog_file where
  "notes_entry = wiki_entry\<lparr>cf_document := wiki_document\<lparr>dc_product := (dc_product wiki_document)\<lparr>pb_slug := ''notes''\<rparr>\<rparr>\<rparr>"

theorem folder_rename_blocks_witness:
  "\<exists>x. snd (run_entries wiki_tk (Some ''75eccfc'') 100 False [notes_entry] [] wiki_store) = Inl x"
proof -
  have n: "cf_slug notes_entry = ''notes''" "pb_name (dc_product (cf_document notes_entry)) = p_name wiki_product"
    "cf_releases notes_entry = cf_releases wiki_entry" "p_slug wiki_product = Some ''wiki''"
    by (simp_all add: notes_entry_def wiki_entry_def wiki_document_def cf_slug_def wiki_product_def)
  then have "entries_ok [notes_entry]" by (simp add: entries_ok_def wiki_entry_def)
  moreover have "p_slug wiki_product \<notin> Some ` cf_slug ` set [notes_entry]" using n by simp
  moreover have "lower (pb_name (dc_product (cf_document notes_entry))) = lower (p_name wiki_product)" using n(2) by (rule arg_cong)
  ultimately show ?thesis
    using folder_rename_blocks[OF wiki_store_ok(1) _ wiki_store_ok(2,3), of "[notes_entry]" notes_entry] by simp
qed

end
