(* ===== verification/HelmValues.thy ===== *)
theory HelmValues
  imports Models TemplateValues Hostnames
begin

text \<open>
  The values a deployment's chart is installed with: the fragments the platform contributes under
  \<^verbatim>\<open>caelus\<close> and their merge with the template's and the user's values
  (\<^verbatim>\<open>api/app/services/reconcile.py\<close>), the names of the Secrets they refer to, and what the effective
  values say of sign-in (\<^verbatim>\<open>app_access.py: auth_settings\<close>).
\<close>

section \<open>Names\<close>

definition storage_secret_name :: "deployment \<Rightarrow> string" where
  "storage_secret_name d = d_name d @ ''-object-storage''"

definition database_secret_name :: "deployment \<Rightarrow> string" where
  "database_secret_name d = d_name d @ ''-database''"

definition registry_pull_secret_name :: "deployment \<Rightarrow> string" where
  "registry_pull_secret_name d = d_name d @ ''-registry-pull''"

definition oidc_secret_name :: "deployment \<Rightarrow> string" where
  "oidc_secret_name d = d_name d @ ''-oidc''"

definition vars_secret_name :: "deployment \<Rightarrow> release \<Rightarrow> string" where
  "vars_secret_name d r = d_name d @ ''-vars-'' @ nat_str (r_number r)"

definition vars_secret_labels :: "deployment \<Rightarrow> (string \<times> string) list" where
  "vars_secret_labels d =
     [(''app.kubernetes.io/managed-by'', ''caelus''), (''app.kubernetes.io/instance'', d_name d),
      (''caelus.dev/component'', ''vars'')]"

definition vars_secret_selector :: "deployment \<Rightarrow> string" where
  "vars_secret_selector d = ''caelus.dev/component=vars,app.kubernetes.io/instance='' @ d_name d"

section \<open>Credentials\<close>

record storage_creds =
  sc_bucket :: string
  sc_key_id :: string
  sc_secret :: string

record db_creds =
  dbc_host :: string
  dbc_port :: nat
  dbc_database :: string
  dbc_user :: string
  dbc_password :: string

definition db_url :: "db_creds \<Rightarrow> string" where
  "db_url c = ''postgresql://'' @ dbc_user c @ '':'' @ dbc_password c @ ''@'' @ dbc_host c @ '':'' @ nat_str (dbc_port c) @
     ''/'' @ dbc_database c"

section \<open>The platform's fragments\<close>

definition stripped :: "string \<Rightarrow> string" where
  "stripped s = strip is_space s"

definition caelus :: "string \<Rightarrow> json \<Rightarrow> pydict" where
  "caelus k v = [(''caelus'', JObj [(k, v)])]"

definition subscription_plan :: "db \<Rightarrow> deployment \<Rightarrow> plan_template option" where
  "subscription_plan s d = Option.bind (get_sub s (d_subscription d)) (\<lambda>x. get_plan_template s (sub_plan_template x))"

definition plan_overrides :: "db \<Rightarrow> deployment \<Rightarrow> pydict option" where
  "plan_overrides s d =
     (case subscription_plan s d of None \<Rightarrow> None
      | Some ptv \<Rightarrow> Some (caelus ''plan'' (JObj
          (case pt_storage_bytes ptv of
             Some (Suc n) \<Rightarrow> [(''storageBytes'', JInt (int (Suc n))), (''storageSize'', JStr (bytes_to_k8s_size (Suc n)))]
           | _ \<Rightarrow> []))))"

definition ingress_overrides :: "settings \<Rightarrow> deployment \<Rightarrow> pydict option" where
  "ingress_overrides st d =
     (case d_hostname d of
        Some (c # cs) \<Rightarrow>
          (let host = lower (c # cs); td = st_tenant_domain st;
               wildcard = td \<noteq> [] \<and> (host = td \<or> ends_with host (CHR ''.'' # td));
               tls = (''wildcard'', JBool wildcard) #
                 (if wildcard then [] else [(''issuer'', JStr (st_tls_issuer st)), (''secretName'', JStr (d_name d @ ''-tls''))])
           in Some (caelus ''ingress'' (JObj [(''enabled'', JBool True), (''host'', JStr host), (''tls'', JObj tls)])))
      | _ \<Rightarrow> None)"

definition owner_overrides :: "db \<Rightarrow> deployment \<Rightarrow> pydict option" where
  "owner_overrides s d =
     (case get_user s (d_user d) of None \<Rightarrow> None
      | Some u \<Rightarrow> Some (caelus ''owner'' (JObj
          ((if u_email u \<noteq> [] then [(''email'', JStr (u_email u))] else []) @ [(''id'', JInt (int (u_id u)))] @
           (case u_subject u of Some (c # cs) \<Rightarrow> [(''subject'', JStr (c # cs))] | _ \<Rightarrow> [])))))"

definition storage_overrides :: "settings \<Rightarrow> deployment \<Rightarrow> storage_creds option \<Rightarrow> pydict option" where
  "storage_overrides st d storage =
     (case storage of None \<Rightarrow> None
      | Some c \<Rightarrow> Some (caelus ''objectStorage'' (JObj
          [(''bucket'', JStr (sc_bucket c)), (''endpoint'', JStr (st_s3_endpoint st)), (''region'', JStr (st_s3_region st)),
           (''secretName'', JStr (storage_secret_name d))])))"

definition database_overrides :: "deployment \<Rightarrow> db_creds option \<Rightarrow> pydict option" where
  "database_overrides d database =
     (case database of None \<Rightarrow> None
      | Some c \<Rightarrow> Some (caelus ''database'' (JObj
          [(''host'', JStr (dbc_host c)), (''port'', JInt (int (dbc_port c))), (''name'', JStr (dbc_database c)),
           (''user'', JStr (dbc_user c)), (''secretName'', JStr (database_secret_name d))])))"

definition vars_overrides :: "string option \<Rightarrow> pydict option" where
  "vars_overrides secret = map_option (\<lambda>n. caelus ''vars'' (JObj [(''secretName'', JStr n)])) secret"

definition release_overrides :: "release \<Rightarrow> pydict option" where
  "release_overrides r = Some [(''caelus'', JObj [(''releaseId'', JStr (uuid_str (r_id r))), (''releaseNumber'', JStr (nat_str (r_number r)))])]"

definition ssh_overrides :: "settings \<Rightarrow> pydict option" where
  "ssh_overrides st =
     (case stripped (st_ssh_platform_key st) of [] \<Rightarrow> None
      | key \<Rightarrow> Some (caelus ''ssh'' (JObj [(''platformPublicKey'', JStr key)])))"

definition app_auth_overrides :: "settings \<Rightarrow> pydict option" where
  "app_auth_overrides st =
     (case stripped (st_verify_url st) of [] \<Rightarrow> None
      | url \<Rightarrow> Some (caelus ''appAuth'' (JObj [(''verifyUrl'', JStr url)])))"

definition registry_overrides :: "settings \<Rightarrow> string option \<Rightarrow> pydict option" where
  "registry_overrides st pull_secret =
     map_option (\<lambda>n. caelus ''registry'' (JObj [(''prefix'', JStr (st_registry_host st @ ''/u'')), (''pullSecret'', JStr n)])) pull_secret"

definition oidc_overrides :: "settings \<Rightarrow> deployment \<Rightarrow> string option \<Rightarrow> pydict option" where
  "oidc_overrides st d oidc_secret =
     map_option (\<lambda>n. caelus ''oidc'' (JObj [(''issuer'', JStr (stripped (st_oidc_issuer st))),
       (''clientId'', JStr (uuid_str (d_id d))), (''secretName'', JStr n)])) oidc_secret"

section \<open>Merging\<close>

text \<open>What an apply has published by the time the values are built.\<close>

record published =
  pb_storage :: "storage_creds option"
  pb_database :: "db_creds option"
  pb_vars :: "string option"
  pb_pull :: "string option"
  pb_oidc :: "string option"

definition override_parts :: "settings \<Rightarrow> db \<Rightarrow> deployment \<Rightarrow> release \<Rightarrow> published \<Rightarrow> pydict option list" where
  "override_parts st s d r pb =
     [plan_overrides s d, ingress_overrides st d, owner_overrides s d, storage_overrides st d (pb_storage pb),
      database_overrides d (pb_database pb), vars_overrides (pb_vars pb), release_overrides r, ssh_overrides st,
      app_auth_overrides st, registry_overrides st (pb_pull pb), oidc_overrides st d (pb_oidc pb)]"

definition add_part :: "pydict option \<Rightarrow> pydict \<Rightarrow> pydict" where
  "add_part part overrides = (case part of Some (kv # p) \<Rightarrow> merge_items overrides (kv # p) | _ \<Rightarrow> overrides)"

definition build_system_overrides :: "settings \<Rightarrow> db \<Rightarrow> deployment \<Rightarrow> release \<Rightarrow> published \<Rightarrow> pydict option" where
  "build_system_overrides st s d r pb =
     (case fold add_part (override_parts st s d r pb) [] of [] \<Rightarrow> None | ov \<Rightarrow> Some ov)"

definition build_merged_values ::
  "validator \<Rightarrow> settings \<Rightarrow> db \<Rightarrow> deployment \<Rightarrow> template \<Rightarrow> release \<Rightarrow> published \<Rightarrow> pydict result"
where
  "build_merged_values jsv st s d t r pb =
     bindR (validate_user_values jsv (d_values d) (t_schema t)) (\<lambda>_.
       merge_values_scoped (map_option JObj (t_system_values t)) (map_option JObj (d_values d))
         (map_option JObj (build_system_overrides st s d r pb)))"

section \<open>Sign-in settings\<close>

record auth_settings =
  as_enabled :: bool
  as_protocol :: json
  as_listed_access :: bool

definition auth_of :: "pydict option \<Rightarrow> pydict option \<Rightarrow> auth_settings" where
  "auth_of system user =
     (let merged = merge_scope (dict_or_empty system) user;
          auth = obj_or_empty (map_of merged ''auth'');
          protocol = (case map_of auth ''protocol'' of None \<Rightarrow> JStr ''header'' | Some JNull \<Rightarrow> JStr ''header'' | Some p \<Rightarrow> p)
      in \<lparr>as_enabled = (map_of auth ''enabled'' = Some (JBool True) \<and> protocol \<in> {JStr ''header'', JStr ''oidc''}),
          as_protocol = protocol,
          as_listed_access = (map_of auth ''access'' \<notin> {None, Some JNull, Some (JStr ''anyone'')})\<rparr>)"

definition auth_oidc :: "auth_settings \<Rightarrow> bool" where
  "auth_oidc a \<longleftrightarrow> as_enabled a \<and> as_protocol a = JStr ''oidc''"

definition auth_listed :: "auth_settings \<Rightarrow> bool" where
  "auth_listed a \<longleftrightarrow> as_enabled a \<and> as_listed_access a"

section \<open>What the values contain\<close>

text \<open>Every fragment is one object under \<^verbatim>\<open>caelus\<close>, and no two name the same key there.\<close>

definition part_keys :: "pydict option \<Rightarrow> (string \<times> json) list" where
  "part_keys part = (case part of Some [(_, JObj kvs)] \<Rightarrow> kvs | _ \<Rightarrow> [])"

definition fragment :: "pydict option \<Rightarrow> bool" where
  "fragment part \<longleftrightarrow> part = None \<or> (\<exists>kvs. part = Some [(''caelus'', JObj kvs)] \<and> kvs \<noteq> [])"

lemma fragment_caelus [simp]: "fragment (Some (caelus k (JObj kvs)))" "fragment None"
  by (simp_all add: fragment_def caelus_def)

lemma fragment_each [simp]:
  "fragment (plan_overrides s d)" "fragment (ingress_overrides st d)" "fragment (owner_overrides s d)"
  "fragment (storage_overrides st d sc)" "fragment (database_overrides d dc)" "fragment (vars_overrides n)"
  "fragment (release_overrides r)" "fragment (ssh_overrides st)" "fragment (app_auth_overrides st)"
  "fragment (registry_overrides st n)" "fragment (oidc_overrides st d n)"
proof -
  show "fragment (plan_overrides s d)" by (simp add: plan_overrides_def split: option.split)
  show "fragment (ingress_overrides st d)" by (simp add: ingress_overrides_def Let_def split: option.split list.split)
  show "fragment (owner_overrides s d)" by (simp add: owner_overrides_def split: option.split)
  show "fragment (storage_overrides st d sc)" by (simp add: storage_overrides_def split: option.split)
  show "fragment (database_overrides d dc)" by (simp add: database_overrides_def split: option.split)
  show "fragment (vars_overrides n)" by (cases n) (simp_all add: vars_overrides_def)
  show "fragment (release_overrides r)" by (simp add: release_overrides_def fragment_def)
  show "fragment (ssh_overrides st)" by (simp add: ssh_overrides_def split: list.split)
  show "fragment (app_auth_overrides st)" by (simp add: app_auth_overrides_def split: list.split)
  show "fragment (registry_overrides st n)" by (cases n) (simp_all add: registry_overrides_def)
  show "fragment (oidc_overrides st d n)" by (cases n) (simp_all add: oidc_overrides_def)
qed

lemma fragment_parts: "p \<in> set (override_parts st s d r pb) \<Longrightarrow> fragment p"
  unfolding override_parts_def by (elim set_ConsD[elim_format] disjE) auto

lemma dset_new: "k \<notin> fst ` set a \<Longrightarrow> dset k v a = a @ [(k, v)]"
  by (induction a) (auto simp: dset_def)

lemma merge_items_append:
  "distinct (map fst b) \<Longrightarrow> fst ` set a \<inter> fst ` set b = {} \<Longrightarrow> merge_items a b = a @ b"
proof (induction b arbitrary: a)
  case (Cons kv b)
  obtain k v where kv: "kv = (k, v)" by (cases kv)
  have k: "k \<notin> fst ` set a" using Cons.prems(2) kv by auto
  then have "map_of a k = None" by (simp add: map_of_eq_None_iff)
  moreover have "dset k v a = a @ [(k, v)]" by (rule dset_new[OF k])
  moreover have "merge_items (a @ [(k, v)]) b = (a @ [(k, v)]) @ b"
    by (rule Cons.IH) (use Cons.prems kv in auto)
  ultimately show ?case by (simp add: kv)
qed simp

definition under_caelus :: "(string \<times> json) list \<Rightarrow> pydict" where
  "under_caelus kvs = (if kvs = [] then [] else [(''caelus'', JObj kvs)])"

lemma add_part_fragment:
  assumes "fragment p" "distinct (map fst (acc @ part_keys p))"
  shows "add_part p (under_caelus acc) = under_caelus (acc @ part_keys p)"
proof (cases p)
  case None
  then show ?thesis by (simp add: add_part_def part_keys_def)
next
  case (Some q)
  with assms(1) obtain kvs where q: "q = [(''caelus'', JObj kvs)]" "kvs \<noteq> []" by (auto simp: fragment_def)
  have "merge_items acc kvs = acc @ kvs"
    using assms(2) by (intro merge_items_append) (auto simp: Some q part_keys_def)
  with q show ?thesis by (cases "acc = []") (auto simp: Some add_part_def part_keys_def under_caelus_def dset_def)
qed

lemma fold_parts:
  assumes "\<forall>p \<in> set ps. fragment p" "distinct (map fst (acc @ concat (map part_keys ps)))"
  shows "fold add_part ps (under_caelus acc) = under_caelus (acc @ concat (map part_keys ps))"
  using assms
proof (induction ps arbitrary: acc)
  case (Cons p ps)
  have "add_part p (under_caelus acc) = under_caelus (acc @ part_keys p)"
    using Cons.prems by (intro add_part_fragment) auto
  moreover have "fold add_part ps (under_caelus (acc @ part_keys p)) = under_caelus ((acc @ part_keys p) @ concat (map part_keys ps))"
    by (rule Cons.IH) (use Cons.prems in auto)
  ultimately show ?case by simp
qed simp

lemma part_keys_caelus [simp]: "part_keys (Some (caelus k v)) = [(k, v)]" "part_keys None = []"
  by (simp_all add: part_keys_def caelus_def)

lemma keys_each:
  "map fst (part_keys (plan_overrides s d)) = (if subscription_plan s d = None then [] else [''plan''])"
  "map fst (part_keys (ingress_overrides st d)) = (if d_hostname d \<in> {None, Some []} then [] else [''ingress''])"
  "map fst (part_keys (owner_overrides s d)) = (if get_user s (d_user d) = None then [] else [''owner''])"
  "map fst (part_keys (storage_overrides st d sc)) = (if sc = None then [] else [''objectStorage''])"
  "map fst (part_keys (database_overrides d dc)) = (if dc = None then [] else [''database''])"
  "map fst (part_keys (vars_overrides n)) = (if n = None then [] else [''vars''])"
  "map fst (part_keys (release_overrides r)) = [''releaseId'', ''releaseNumber'']"
  "map fst (part_keys (ssh_overrides st)) = (if stripped (st_ssh_platform_key st) = [] then [] else [''ssh''])"
  "map fst (part_keys (app_auth_overrides st)) = (if stripped (st_verify_url st) = [] then [] else [''appAuth''])"
  "map fst (part_keys (registry_overrides st n)) = (if n = None then [] else [''registry''])"
  "map fst (part_keys (oidc_overrides st d n)) = (if n = None then [] else [''oidc''])"
proof -
  show "map fst (part_keys (ingress_overrides st d)) = (if d_hostname d \<in> {None, Some []} then [] else [''ingress''])"
    by (cases "d_hostname d"; cases "the (d_hostname d)") (simp_all add: ingress_overrides_def Let_def)
  show "map fst (part_keys (vars_overrides n)) = (if n = None then [] else [''vars''])"
    by (cases n) (simp_all add: vars_overrides_def)
  show "map fst (part_keys (registry_overrides st n)) = (if n = None then [] else [''registry''])"
    by (cases n) (simp_all add: registry_overrides_def)
  show "map fst (part_keys (oidc_overrides st d n)) = (if n = None then [] else [''oidc''])"
    by (cases n) (simp_all add: oidc_overrides_def)
qed (simp_all add: plan_overrides_def owner_overrides_def storage_overrides_def database_overrides_def
    release_overrides_def part_keys_def[of "Some [_]"] ssh_overrides_def app_auth_overrides_def
    split: option.split list.split)

text \<open>The override document in closed form.\<close>

lemma build_system_overrides_eq:
  "build_system_overrides st s d r pb =
     Some [(''caelus'', JObj (concat (map part_keys (override_parts st s d r pb))))]"
proof -
  let ?ps = "override_parts st s d r pb"
  have d: "distinct (map fst (concat (map part_keys ?ps)))"
    by (simp add: override_parts_def map_concat keys_each)
  have "fold add_part ?ps (under_caelus []) = under_caelus ([] @ concat (map part_keys ?ps))"
    by (rule fold_parts) (use d fragment_parts in auto)
  moreover have "concat (map part_keys ?ps) \<noteq> []"
    by (simp add: override_parts_def release_overrides_def part_keys_def[of "Some [_]"])
  ultimately show ?thesis by (simp add: build_system_overrides_def under_caelus_def)
qed

lemma caelus_ok [simp]: "json_ok v \<Longrightarrow> dict_ok (caelus k v)"
  by (simp add: caelus_def dict_ok_def)

lemma part_ok_each [simp]:
  "plan_overrides s d = Some f \<Longrightarrow> dict_ok f" "ingress_overrides st d = Some f \<Longrightarrow> dict_ok f"
  "owner_overrides s d = Some f \<Longrightarrow> dict_ok f" "storage_overrides st d sc = Some f \<Longrightarrow> dict_ok f"
  "database_overrides d dc = Some f \<Longrightarrow> dict_ok f" "vars_overrides n = Some f \<Longrightarrow> dict_ok f"
  "release_overrides r = Some f \<Longrightarrow> dict_ok f" "ssh_overrides st = Some f \<Longrightarrow> dict_ok f"
  "app_auth_overrides st = Some f \<Longrightarrow> dict_ok f" "registry_overrides st n = Some f \<Longrightarrow> dict_ok f"
  "oidc_overrides st d n = Some f \<Longrightarrow> dict_ok f"
  by (auto simp: plan_overrides_def ingress_overrides_def owner_overrides_def storage_overrides_def database_overrides_def
      vars_overrides_def release_overrides_def ssh_overrides_def app_auth_overrides_def registry_overrides_def oidc_overrides_def
      Let_def dict_ok_def[of "[_]"] split: option.splits list.splits nat.splits)

lemma part_ok: "Some f \<in> set (override_parts st s d r pb) \<Longrightarrow> dict_ok f"
  unfolding override_parts_def by (elim set_ConsD[elim_format] disjE) (auto dest!: sym[of "Some f"])

lemma distinct_parts: "distinct (map fst (concat (map part_keys (override_parts st s d r pb))))"
  by (simp add: override_parts_def map_concat keys_each)

text \<open>A path through a fragment is the same path through the whole override document.\<close>

lemma fragment_path:
  assumes "Some f \<in> set (override_parts st s d r pb)" "jpath p (JObj f) = Some x" "\<not> is_obj x"
  shows "jpath p (JObj [(''caelus'', JObj (concat (map part_keys (override_parts st s d r pb))))]) = Some x"
proof -
  let ?all = "concat (map part_keys (override_parts st s d r pb))"
  obtain kvs where f: "f = [(''caelus'', JObj kvs)]"
    using fragment_parts[OF assms(1)] by (auto simp: fragment_def)
  from assms(2,3) f obtain k q v where p: "p = ''caelus'' # k # q" "map_of kvs k = Some v" "jpath q v = Some x"
    by (cases p; cases "tl p") (auto split: if_splits option.splits)
  have "(k, v) \<in> set ?all"
    using assms(1) map_of_SomeD[OF p(2)] f by (force simp: part_keys_def)
  then have "map_of ?all k = Some v" using distinct_parts by (simp add: map_of_eq_Some_iff)
  with p show ?thesis by simp
qed

lemma build_merged_values_Inr:
  assumes "build_merged_values jsv st s d t r pb = Inr m"
  shows "JObj m = deep_merge (JObj (merge_scope (dict_or_empty (t_system_values t)) (d_values d)))
    (JObj [(''caelus'', JObj (concat (map part_keys (override_parts st s d r pb))))])"
proof -
  have r: "require_dict n (map_option JObj x) = Inr x" for n x
    by (cases x) (simp_all add: require_dict_def)
  show ?thesis
    using assms unfolding build_merged_values_def build_system_overrides_eq merge_values_scoped_def r
    by (simp only: bindR.simps bindR_Inr_iff option.map merge_scope_JObj[symmetric]) (elim exE conjE, simp)
qed

lemma overrides_ok: "json_ok (JObj [(''caelus'', JObj (concat (map part_keys (override_parts st s d r pb))))])"
proof -
  have "json_ok (snd kv)" if "kv \<in> set (part_keys p)" "p \<in> set (override_parts st s d r pb)" for kv p
  proof (cases p)
    case (Some f)
    with that part_ok have "dict_ok f" by blast
    with that(1) Some show ?thesis
      by (auto simp: part_keys_def dict_ok_def list_all_iff split: list.splits prod.splits json.splits)
  qed (use that in \<open>simp add: part_keys_def\<close>)
  with distinct_parts show ?thesis by (auto simp: list_all_iff simp del: override_parts_def)
qed

text \<open>
  C20. What the platform injects is final: every leaf of every fragment (plan, ingress, owner,
  storage, database, vars, release, SSH key, verifier, registry, OIDC) is the value the chart gets at
  its path, whatever the template's and the user's values say there.
\<close>

theorem platform_values_win:
  assumes m: "build_merged_values jsv st s d t r pb = Inr m"
    and f: "Some f \<in> set (override_parts st s d r pb)" "jpath p (JObj f) = Some x" "\<not> is_obj x"
  shows "jpath p (JObj m) = Some x"
proof -
  note m = build_merged_values_Inr[OF m]
  show ?thesis unfolding m by (rule merged_leaf[OF overrides_ok fragment_path[OF f] f(3)])
qed

text \<open>Two sets of credentials that name the same things.\<close>

definition same_references :: "published \<Rightarrow> published \<Rightarrow> bool" where
  "same_references pb pb' \<longleftrightarrow>
     pb_vars pb = pb_vars pb' \<and> pb_pull pb = pb_pull pb' \<and> pb_oidc pb = pb_oidc pb' \<and>
     map_option sc_bucket (pb_storage pb) = map_option sc_bucket (pb_storage pb') \<and>
     map_option (\<lambda>c. (dbc_host c, dbc_port c, dbc_database c, dbc_user c)) (pb_database pb) =
     map_option (\<lambda>c. (dbc_host c, dbc_port c, dbc_database c, dbc_user c)) (pb_database pb')"

text \<open>
  C21. No secret material reaches the chart values, which Helm stores in the tenant's namespace and
  the provisioner logs: the values are the same whatever the storage secret, the storage key id and the
  database password are, and whatever the two key settings the OIDC and pull secrets are derived from are.
\<close>

theorem values_carry_no_secret:
  assumes "same_references pb pb'"
    and "st' = st\<lparr>st_registry_pull_key := k, st_oidc_client_keys := ks\<rparr>"
  shows "build_merged_values jsv st' s d t r pb' = build_merged_values jsv st s d t r pb"
proof -
  have "storage_overrides st' d (pb_storage pb') = storage_overrides st d (pb_storage pb)"
    using assms by (cases "pb_storage pb"; cases "pb_storage pb'") (auto simp: same_references_def storage_overrides_def)
  moreover have "database_overrides d (pb_database pb') = database_overrides d (pb_database pb)"
    using assms by (cases "pb_database pb"; cases "pb_database pb'") (auto simp: same_references_def database_overrides_def)
  moreover have "ingress_overrides st' d = ingress_overrides st d" "ssh_overrides st' = ssh_overrides st"
      "app_auth_overrides st' = app_auth_overrides st" "registry_overrides st' n = registry_overrides st n"
      "oidc_overrides st' d n = oidc_overrides st d n" for n
    using assms(2) by (simp_all add: ingress_overrides_def ssh_overrides_def app_auth_overrides_def registry_overrides_def oidc_overrides_def
        Let_def split: option.split list.split)
  moreover have "pb_vars pb' = pb_vars pb" "pb_pull pb' = pb_pull pb" "pb_oidc pb' = pb_oidc pb"
    using assms(1) by (simp_all add: same_references_def)
  ultimately have "override_parts st' s d r pb' = override_parts st s d r pb"
    by (simp add: override_parts_def)
  then show ?thesis by (simp add: build_merged_values_def build_system_overrides_def)
qed

end
