(* ===== verification/ObjectStorage.thy ===== *)
theory ObjectStorage
  imports Effects HelmValues PostRender
begin

text \<open>
  Object storage of a deployment: the Garage admin client, \<^verbatim>\<open>api/app/services/garage.py\<close>, and the policy
  on top of it, \<^verbatim>\<open>api/app/services/object_storage.py\<close>. A request is answered with a status and a body.
\<close>

section \<open>The admin client\<close>

definition garage_error :: "string \<Rightarrow> string \<Rightarrow> string \<Rightarrow> error" where
  "garage_error method path detail = ExternalErr (''Garage admin API '' @ method @ '' '' @ path @ '' '' @ detail)"

definition garage_request ::
  "outside \<Rightarrow> string \<Rightarrow> string \<Rightarrow> json option \<Rightarrow> (string \<times> string) list \<Rightarrow> bool \<Rightarrow> json option act"
where
  "garage_request out method path body params missing_ok w =
     (let c = Http method path body params;
          w' = w\<lparr>w_calls := w_calls w @ [c]\<rparr>
      in case o_http out (w_calls w) c of
           Inl m \<Rightarrow> (Inl (garage_error method path (''failed: '' @ m)), w')
         | Inr (status, text) \<Rightarrow>
             if missing_ok \<and> status = 404 then (Inr None, w')
             else if status < 200 \<or> 300 \<le> status
             then (Inl (garage_error method path (''returned HTTP '' @ nat_str status @ '': '' @ strip is_space text)), w')
             else if text = [] then (Inr None, w')
             else (case o_json out text of
                     None \<Rightarrow> (Inl (garage_error method path ''returned a non-JSON body''), w')
                   | Some v \<Rightarrow> (Inr (if v = JNull then None else Some v), w')))"

text \<open>\<^verbatim>\<open>value["key"]\<close>, of a value that should be an object.\<close>

definition field :: "string \<Rightarrow> json option \<Rightarrow> json result" where
  "field k v =
     (case v of
        Some (JObj d) \<Rightarrow> (case map_of d k of None \<Rightarrow> Inl (PyValueError (''KeyError: '' @ k)) | Some x \<Rightarrow> Inr x)
      | _ \<Rightarrow> Inl type_error)"

definition text_field :: "string \<Rightarrow> json option \<Rightarrow> string result" where
  "text_field k v = bindR (field k v) (\<lambda>x. case x of JStr s \<Rightarrow> Inr s | _ \<Rightarrow> Inl type_error)"

text \<open>The first element of a listing that satisfies a test which may raise.\<close>

fun find_first :: "(json \<Rightarrow> bool result) \<Rightarrow> json list \<Rightarrow> json option result" where
  "find_first P [] = Inr None"
| "find_first P (x # xs) = bindR (P x) (\<lambda>b. if b then Inr (Some x) else find_first P xs)"

definition has_alias :: "string \<Rightarrow> json \<Rightarrow> bool result" where
  "has_alias alias b =
     (case b of
        JObj d \<Rightarrow> bindR (list_or (map_of d ''globalAliases'')) (\<lambda>xs. Inr (JStr alias \<in> set xs))
      | _ \<Rightarrow> Inl attribute_error)"

definition has_name :: "string \<Rightarrow> json \<Rightarrow> bool result" where
  "has_name name k = (case k of JObj d \<Rightarrow> Inr (map_of d ''name'' = Some (JStr name)) | _ \<Rightarrow> Inl attribute_error)"

definition find_bucket :: "outside \<Rightarrow> string \<Rightarrow> json option act" where
  "find_bucket out alias =
     bindA (garage_request out ''GET'' ''/v2/ListBuckets'' None [] False) (\<lambda>r.
       liftA (bindR (list_or r) (find_first (has_alias alias))))"

definition get_bucket_by_alias :: "outside \<Rightarrow> string \<Rightarrow> json option act" where
  "get_bucket_by_alias out alias = garage_request out ''GET'' ''/v2/GetBucketInfo'' None [(''globalAlias'', alias)] True"

definition get_bucket :: "outside \<Rightarrow> string \<Rightarrow> json option act" where
  "get_bucket out bucket_id = garage_request out ''GET'' ''/v2/GetBucketInfo'' None [(''id'', bucket_id)] False"

definition create_bucket :: "outside \<Rightarrow> string \<Rightarrow> json option act" where
  "create_bucket out alias = garage_request out ''POST'' ''/v2/CreateBucket'' (Some (JObj [(''globalAlias'', JStr alias)])) [] False"

definition update_bucket ::
  "outside \<Rightarrow> string \<Rightarrow> json option \<Rightarrow> json option \<Rightarrow> json option \<Rightarrow> unit act"
where
  "update_bucket out bucket_id quotas cors lifecycle =
     (let body = (case quotas of None \<Rightarrow> [] | Some q \<Rightarrow> [(''quotas'', q)]) @
                 (case cors of None \<Rightarrow> [] | Some c \<Rightarrow> [(''corsRules'', c)]) @
                 (case lifecycle of None \<Rightarrow> [] | Some l \<Rightarrow> [(''lifecycleRules'', l)])
      in if body = [] then retA ()
         else thenA (garage_request out ''POST'' ''/v2/UpdateBucket'' (Some (JObj body)) [(''id'', bucket_id)] False) (retA ()))"

definition find_key :: "outside \<Rightarrow> string \<Rightarrow> json option act" where
  "find_key out name =
     bindA (garage_request out ''GET'' ''/v2/ListKeys'' None [] False) (\<lambda>r.
       liftA (bindR (list_or r) (find_first (has_name name))))"

definition get_key_by_name :: "outside \<Rightarrow> string \<Rightarrow> bool \<Rightarrow> json option act" where
  "get_key_by_name out name show_secret =
     bindA (garage_request out ''GET'' ''/v2/GetKeyInfo'' None
              ((''search'', name) # (if show_secret then [(''showSecretKey'', ''true'')] else [])) True) (\<lambda>r.
       (case r of
          None \<Rightarrow> retA None
        | Some k \<Rightarrow> bindA (liftA (has_name name k)) (\<lambda>same. retA (if same then Some k else None))))"

definition get_key_secret :: "outside \<Rightarrow> string \<Rightarrow> string act" where
  "get_key_secret out key_id =
     bindA (garage_request out ''GET'' ''/v2/GetKeyInfo'' None [(''id'', key_id), (''showSecretKey'', ''true'')] False) (\<lambda>r.
       liftA (case r of
          Some (JObj d) \<Rightarrow>
            (case map_of d ''secretAccessKey'' of
               Some (JStr (c # cs)) \<Rightarrow> Inr (c # cs)
             | _ \<Rightarrow> Inl (ExternalErr (''Garage did not return a secret for access key '' @ key_id)))
        | _ \<Rightarrow> Inl attribute_error))"

definition create_key :: "outside \<Rightarrow> string \<Rightarrow> json option act" where
  "create_key out name =
     garage_request out ''POST'' ''/v2/CreateKey'' (Some (JObj [(''name'', JStr name), (''neverExpires'', JBool True)])) [] False"

definition delete_key :: "outside \<Rightarrow> string \<Rightarrow> unit act" where
  "delete_key out key_id = thenA (garage_request out ''POST'' ''/v2/DeleteKey'' None [(''id'', key_id)] False) (retA ())"

definition allow_bucket_key :: "outside \<Rightarrow> string \<Rightarrow> string \<Rightarrow> unit act" where
  "allow_bucket_key out bucket_id key_id =
     thenA (garage_request out ''POST'' ''/v2/AllowBucketKey''
              (Some (JObj [(''bucketId'', JStr bucket_id), (''accessKeyId'', JStr key_id),
                 (''permissions'', JObj [(''read'', JBool True), (''write'', JBool True)])])) [] False) (retA ())"

section \<open>Policy\<close>

text \<open>
  A product opts in through a flag of its template's system values: \<^verbatim>\<open>objectStorage.enabled\<close> or
  \<^verbatim>\<open>relationalStorage.enabled\<close>.
\<close>

definition opts_in :: "string \<Rightarrow> template option \<Rightarrow> bool" where
  "opts_in key t =
     (case t of None \<Rightarrow> False
      | Some t \<Rightarrow>
          (case map_of (dict_or_empty (t_system_values t)) key of
             Some (JObj storage) \<Rightarrow> (case map_of storage ''enabled'' of None \<Rightarrow> False | Some v \<Rightarrow> truthy v)
           | _ \<Rightarrow> False))"

definition storage_enabled :: "db \<Rightarrow> deployment \<Rightarrow> bool" where
  "storage_enabled s d = opts_in ''objectStorage'' (get_template s (d_desired_template d))"

definition bucket_name :: "deployment \<Rightarrow> string" where "bucket_name d = ''dep-'' @ uuid_str (d_id d)"
definition key_name :: "deployment \<Rightarrow> string" where "key_name d = ''app-'' @ uuid_str (d_id d)"

definition storage_quota :: "db \<Rightarrow> deployment \<Rightarrow> nat result" where
  "storage_quota s d =
     (case subscription_plan s d of
        None \<Rightarrow> Inl (IntegrityErr (''Deployment '' @ uuid_str (d_id d) @ '' has object storage enabled but no subscription, so no storage allowance can be resolved''))
      | Some ptv \<Rightarrow>
          (case pt_storage_bytes ptv of
             Some (Suc n) \<Rightarrow> Inr (Suc n)
           | _ \<Rightarrow> Inl (IntegrityErr (''Deployment '' @ uuid_str (d_id d) @ '' has object storage enabled but its plan declares no storage allowance; refusing to provision an unbounded bucket''))))"

definition cors_rules :: json where
  "cors_rules =
     JList [JObj [(''ID'', JStr ''caelus-browser-access''), (''AllowedOrigin'', JList [JStr ''*'']),
       (''AllowedMethod'', JList (map JStr [''GET'', ''PUT'', ''POST'', ''DELETE'', ''HEAD''])), (''AllowedHeader'', JList [JStr ''*'']),
       (''ExposeHeader'', JList [JStr ''ETag''])]]"

definition lifecycle_rule :: "string \<Rightarrow> string \<Rightarrow> string \<Rightarrow> nat \<Rightarrow> json" where
  "lifecycle_rule rule_id action unit_name days =
     JObj [(''ID'', JStr rule_id), (''Status'', JStr ''Enabled''), (''Filter'', JObj [(''Prefix'', JStr [])]),
       (action, JObj [(unit_name, JInt (int days))])]"

definition default_lifecycle_rules :: json where
  "default_lifecycle_rules =
     JList [lifecycle_rule ''caelus-abort-incomplete-multipart-uploads'' ''AbortIncompleteMultipartUpload'' ''DaysAfterInitiation'' 1]"

definition expiry_rules :: "nat \<Rightarrow> json" where
  "expiry_rules days =
     JList [lifecycle_rule ''caelus-expire-deleted-deployment'' ''Expiration'' ''Days'' days,
            lifecycle_rule ''caelus-abort-incomplete-multipart-uploads'' ''AbortIncompleteMultipartUpload'' ''DaysAfterInitiation'' days]"

definition ensure_key :: "outside \<Rightarrow> string \<Rightarrow> (string \<times> string) act" where
  "ensure_key out name =
     bindA (find_key out name) (\<lambda>key.
       (case key of
          None \<Rightarrow>
            bindA (create_key out name) (\<lambda>created.
              liftA (bindR (text_field ''accessKeyId'' created) (\<lambda>i.
                     bindR (text_field ''secretAccessKey'' created) (\<lambda>s. Inr (i, s)))))
        | Some k \<Rightarrow>
            bindA (liftA (text_field ''id'' (Some k))) (\<lambda>i.
            bindA (get_key_secret out i) (\<lambda>s. retA (i, s)))))"

definition ensure_bucket :: "outside \<Rightarrow> string \<Rightarrow> string act" where
  "ensure_bucket out alias =
     bindA (find_bucket out alias) (\<lambda>b.
       bindA (case b of None \<Rightarrow> create_bucket out alias | Some _ \<Rightarrow> retA b) (\<lambda>b. liftA (text_field ''id'' b)))"

definition has_lifecycle :: "json option \<Rightarrow> bool result" where
  "has_lifecycle b =
     (case b of Some (JObj d) \<Rightarrow> Inr (case map_of d ''lifecycleRules'' of None \<Rightarrow> False | Some v \<Rightarrow> truthy v)
      | _ \<Rightarrow> Inl attribute_error)"

definition ensure_object_storage :: "outside \<Rightarrow> settings \<Rightarrow> deployment \<Rightarrow> storage_creds act" where
  "ensure_object_storage out st d =
     bindA (bindA (readA (\<lambda>s. storage_quota s d)) liftA) (\<lambda>quota.
     bindA (ensure_key out (key_name d)) (\<lambda>(key_id, secret).
     bindA (ensure_bucket out (bucket_name d)) (\<lambda>bucket_id.
     thenA (allow_bucket_key out bucket_id key_id)
    (bindA (get_bucket out bucket_id) (\<lambda>info.
     bindA (liftA (has_lifecycle info)) (\<lambda>ruled.
     thenA (update_bucket out bucket_id
              (Some (JObj [(''maxSize'', JInt (int quota)), (''maxObjects'', JInt (int (st_bucket_max_objects st)))]))
              (Some cors_rules) (if ruled then None else Some default_lifecycle_rules))
      (retA \<lparr>sc_bucket = bucket_name d, sc_key_id = key_id, sc_secret = secret\<rparr>)))))))"

definition teardown_object_storage :: "outside \<Rightarrow> settings \<Rightarrow> deployment \<Rightarrow> unit act" where
  "teardown_object_storage out st d =
     bindA (find_key out (key_name d)) (\<lambda>key.
     thenA (case key of None \<Rightarrow> retA () | Some k \<Rightarrow> bindA (liftA (text_field ''id'' (Some k))) (delete_key out))
    (bindA (find_bucket out (bucket_name d)) (\<lambda>b.
       (case b of
          None \<Rightarrow> retA ()
        | Some _ \<Rightarrow> bindA (liftA (text_field ''id'' b)) (\<lambda>i.
            update_bucket out i None None (Some (expiry_rules (st_bucket_expiry_days st))))))))"

section \<open>Reading it back\<close>

record bucket_usage =
  bu_bytes :: json
  bu_objects :: json
  bu_max_size :: "json option"
  bu_max_objects :: "json option"

record bucket_read =
  br_bucket :: string
  br_endpoint :: string
  br_region :: string
  br_key_id :: string
  br_secret :: "json option"
  br_withheld :: bool
  br_usage :: "bucket_usage option"

definition or_zero :: "json option \<Rightarrow> json" where
  "or_zero v = (case v of Some x \<Rightarrow> if truthy x then x else JInt 0 | None \<Rightarrow> JInt 0)"

definition storage_unavailable :: "string \<Rightarrow> error" where
  "storage_unavailable m = NotFoundErr m"

definition bucket_usage_of :: "json option \<Rightarrow> bucket_usage result" where
  "bucket_usage_of bucket =
     (case bucket of
        None \<Rightarrow> Inl (storage_unavailable ''This deployment has no bucket'')
      | Some (JObj d) \<Rightarrow>
          bindR (dict_or (map_of d ''quotas'')) (\<lambda>q.
            Inr \<lparr>bu_bytes = or_zero (map_of d ''bytes''), bu_objects = or_zero (map_of d ''objects''),
                 bu_max_size = map_of q ''maxSize'', bu_max_objects = map_of q ''maxObjects''\<rparr>)
      | Some _ \<Rightarrow> Inl attribute_error)"

definition get_bucket_details ::
  "outside \<Rightarrow> settings \<Rightarrow> deployment \<Rightarrow> user_id option \<Rightarrow> bool \<Rightarrow> bucket_read act"
where
  "get_bucket_details out st d viewer usage =
     bindA (readA (\<lambda>s. storage_enabled s d)) (\<lambda>enabled.
     if \<not> enabled then failA (storage_unavailable ''This deployment's product does not offer object storage'')
     else let owner = (viewer = Some (d_user d)) in
       bindA (get_key_by_name out (key_name d) owner) (\<lambda>key.
         (case key of
            None \<Rightarrow> failA (storage_unavailable ''This deployment has no bucket'')
          | Some k \<Rightarrow>
              bindA (if usage
                     then bindA (get_bucket_by_alias out (bucket_name d)) (\<lambda>b. liftA (bindR (bucket_usage_of b) (\<lambda>u. Inr (Some u))))
                     else retA None) (\<lambda>u.
              bindA (liftA (text_field ''accessKeyId'' (Some k))) (\<lambda>i.
                retA \<lparr>br_bucket = bucket_name d, br_endpoint = st_s3_endpoint st, br_region = st_s3_region st, br_key_id = i,
                     br_secret = (if owner then (case k of JObj kd \<Rightarrow> map_of kd ''secretAccessKey'' | _ \<Rightarrow> None) else None),
                     br_withheld = (\<not> owner), br_usage = u\<rparr>)))))"

end
