(* ===== verification/TenantDb.thy ===== *)
theory TenantDb
  imports ObjectStorage Vars
begin

text \<open>
  The database of a deployment on the shared tenant cluster,
  \<^verbatim>\<open>api/app/services/relational_storage.py\<close> over \<^verbatim>\<open>postgres_admin.py\<close>, and the housekeeping sweeps of
  \<^verbatim>\<open>api/app/db_worker.py\<close>. A percentage is compared exactly; the code's float quotient rounds to the
  same side for every allowance below 2^45 bytes.
\<close>

section \<open>Statements\<close>

text \<open>\<^verbatim>\<open>execute\<close> is a session of one statement; \<^verbatim>\<open>as_role\<close> brackets its block with \<^verbatim>\<open>SET ROLE\<close> and \<^verbatim>\<open>RESET ROLE\<close>.\<close>

definition pg_execute :: "outside \<Rightarrow> string \<Rightarrow> (string \<times> string) list \<Rightarrow> unit act" where
  "pg_execute out statement args = askA (o_do out) (PgSession [(statement, args)])"

definition as_role :: "string \<Rightarrow> sql \<Rightarrow> sql list" where
  "as_role role statement = [(''SET ROLE {role}'', [(''role'', role)]), statement, (''RESET ROLE'', [])]"

definition pg_as_role :: "outside \<Rightarrow> string \<Rightarrow> sql \<Rightarrow> unit act" where
  "pg_as_role out role statement = askA (o_do out) (PgSession (as_role role statement))"

definition pg_auto :: "outside \<Rightarrow> string \<Rightarrow> (string \<times> string) list \<Rightarrow> unit act" where
  "pg_auto out statement args = askA (o_do out) (PgAuto (statement, args))"

definition role_exists :: "outside \<Rightarrow> string \<Rightarrow> bool act" where
  "role_exists out r = askA (o_ask out) (PgRoleExists r)"

definition database_exists :: "outside \<Rightarrow> string \<Rightarrow> bool act" where
  "database_exists out db = askA (o_ask out) (PgDatabaseExists db)"

definition public_can_connect :: "outside \<Rightarrow> string \<Rightarrow> bool act" where
  "public_can_connect out db = askA (o_ask out) (PgPublicCanConnect db)"

definition database_size_bytes :: "outside \<Rightarrow> string \<Rightarrow> nat act" where
  "database_size_bytes out db = askA (o_num out) (PgSize db)"

definition terminate_backends :: "outside \<Rightarrow> string \<Rightarrow> unit act" where
  "terminate_backends out role = askA (o_do out) (PgTerminate role)"

section \<open>Names, rows and allowances\<close>

definition role_settings :: "(string \<times> string) list" where
  "role_settings = [(''temp_file_limit'', ''64MB''), (''statement_timeout'', ''30s''), (''idle_in_transaction_session_timeout'', ''60s'')]"

definition database_enabled :: "db \<Rightarrow> deployment \<Rightarrow> bool" where
  "database_enabled s d = opts_in ''relationalStorage'' (get_template s (d_desired_template d))"

definition database_name :: "deployment \<Rightarrow> string" where
  "database_name d = ''dpl_'' @ hex_pad 32 (d_id d)"

definition database_quota :: "db \<Rightarrow> deployment \<Rightarrow> nat result" where
  "database_quota s d =
     (case subscription_plan s d of
        None \<Rightarrow> Inl (IntegrityErr (''Deployment '' @ uuid_str (d_id d) @ '' has relational storage enabled but no subscription, so no database allowance can be resolved''))
      | Some ptv \<Rightarrow>
          (case pt_database_bytes ptv of
             Some (Suc n) \<Rightarrow> Inr (Suc n)
           | _ \<Rightarrow> Inl (IntegrityErr (''Deployment '' @ uuid_str (d_id d) @ '' has relational storage enabled but its plan declares no database allowance; refusing to provision an unbounded database''))))"

definition database_record :: "db \<Rightarrow> uuid \<Rightarrow> database_row option" where
  "database_record s dep = row_get dd_dep dep (db_databases s)"

definition put_database :: "database_row \<Rightarrow> db \<Rightarrow> db" where
  "put_database r s = s\<lparr>db_databases := row_upd dd_dep (dd_dep r) (\<lambda>_. r) (db_databases s)\<rparr>"

definition row_password :: "crypto \<Rightarrow> database_row \<Rightarrow> string result" where
  "row_password cr r =
     (case (s_cipher r, s_key_id r) of
        (Some c, Some k) \<Rightarrow> decrypt (cr_fernet cr) (cr_ring cr) c k
      | _ \<Rightarrow> Inl type_error)"

definition new_database_row :: "nat \<Rightarrow> deployment \<Rightarrow> string \<times> string \<Rightarrow> database_row" where
  "new_database_row i d sealed_password =
     \<lparr>s_id = i, s_cipher = Some (fst sealed_password), s_key_id = Some (snd sealed_password), dd_dep = d_id d,
      dd_db_name = database_name d, dd_role_name = database_name d, dd_quota = QuotaOk, dd_size = None,
      dd_measured_at = None, dd_warned_threshold = None, dd_warned_at = None, dd_readonly_at = None,
      dd_blocked_at = None, dd_purge_after = None\<rparr>"

text \<open>An existing row's password is reused; a new one is committed before anything uses it.\<close>

definition store_password :: "outside \<Rightarrow> crypto \<Rightarrow> deployment \<Rightarrow> string act" where
  "store_password out cr d =
     bindA (readA (\<lambda>s. database_record s (d_id d))) (\<lambda>record.
       (case record of
          Some r \<Rightarrow> liftA (row_password cr r)
        | None \<Rightarrow>
            bindA (tokenA out) (\<lambda>password.
            bindA (readA (\<lambda>s. next_id s_id (db_databases s))) (\<lambda>i.
            bindA (liftA (encrypt (cr_fernet cr) (cr_ring cr) (cr_nonce cr i) password)) (\<lambda>sealed_password.
            thenA (commitA (\<lambda>s. s\<lparr>db_databases := db_databases s @ [new_database_row i d sealed_password]\<rparr>))
              (retA password))))))"

section \<open>Quotas\<close>

definition at_percent :: "nat \<Rightarrow> nat \<Rightarrow> nat \<Rightarrow> bool" where
  "at_percent threshold size_bytes allowance \<longleftrightarrow> threshold * allowance \<le> size_bytes * 100"

definition state_for :: "nat \<Rightarrow> nat \<Rightarrow> quota_state" where
  "state_for size_bytes allowance =
     (if at_percent 150 size_bytes allowance then QuotaBlocked
      else if at_percent 100 size_bytes allowance then QuotaReadonly
      else if at_percent 80 size_bytes allowance then QuotaWarned
      else QuotaOk)"

definition crossed_threshold :: "nat \<Rightarrow> nat \<Rightarrow> nat option" where
  "crossed_threshold size_bytes allowance = find (\<lambda>t. at_percent t size_bytes allowance) [100, 90, 80]"

definition apply_quota_state :: "outside \<Rightarrow> database_row \<Rightarrow> quota_state \<Rightarrow> unit act" where
  "apply_quota_state out r state =
     thenA (pg_as_role out (dd_role_name r)
              (if state \<in> {QuotaReadonly, QuotaBlocked}
               then (''ALTER DATABASE {database} SET default_transaction_read_only = on'', [(''database'', dd_db_name r)])
               else (''ALTER DATABASE {database} RESET default_transaction_read_only'', [(''database'', dd_db_name r)])))
     (if state = QuotaBlocked
      then thenA (pg_execute out ''ALTER ROLE {role} NOLOGIN'' [(''role'', dd_role_name r)]) (terminate_backends out (dd_role_name r))
      else pg_execute out ''ALTER ROLE {role} LOGIN'' [(''role'', dd_role_name r)])"

definition notice_subject :: "deployment \<Rightarrow> nat \<Rightarrow> string" where
  "notice_subject d threshold =
     (if 100 \<le> threshold then d_name d @ '': database is full and now read-only''
      else d_name d @ '': database is '' @ nat_str threshold @ ''% full'')"

text \<open>Whether a mail was sent; sending never raises.\<close>

definition notify_threshold :: "outside \<Rightarrow> deployment \<Rightarrow> nat \<Rightarrow> bool act" where
  "notify_threshold out d threshold =
     bindA (readA (\<lambda>s. get_user s (d_user d))) (\<lambda>owner.
       (case owner of
          None \<Rightarrow> retA False
        | Some u \<Rightarrow>
            if u_email u = [] then retA False
            else catchA (askA (o_ask out) (SendMail (u_email u) (notice_subject d threshold))) (\<lambda>_. retA False)))"

definition measured :: "nat \<Rightarrow> quota_state \<Rightarrow> time \<Rightarrow> database_row \<Rightarrow> database_row" where
  "measured size_bytes state now r =
     r\<lparr>dd_size := Some size_bytes, dd_measured_at := Some now, dd_quota := state,
       dd_readonly_at := (if state = QuotaReadonly \<and> dd_quota r \<noteq> QuotaReadonly then Some now else dd_readonly_at r),
       dd_blocked_at := (if state = QuotaBlocked \<and> dd_quota r \<noteq> QuotaBlocked then Some now else dd_blocked_at r)\<rparr>"

definition warn :: "outside \<Rightarrow> deployment \<Rightarrow> nat \<Rightarrow> nat \<Rightarrow> bool \<Rightarrow> time \<Rightarrow> database_row \<Rightarrow> database_row act" where
  "warn out d size_bytes allowance notify now r =
     (if dd_quota r = QuotaOk then retA (r\<lparr>dd_warned_threshold := None, dd_warned_at := None\<rparr>)
      else if \<not> notify then retA r
      else (case crossed_threshold size_bytes allowance of
              None \<Rightarrow> retA r
            | Some t \<Rightarrow>
                if dd_warned_threshold r = Some t then retA r
                else bindA (notify_threshold out d t) (\<lambda>sent.
                  retA (if sent then r\<lparr>dd_warned_threshold := Some t, dd_warned_at := Some now\<rparr> else r))))"

definition evaluate_quota_state :: "outside \<Rightarrow> deployment \<Rightarrow> bool \<Rightarrow> quota_state act" where
  "evaluate_quota_state out d notify =
     bindA (readA (\<lambda>s. database_record s (d_id d))) (\<lambda>record.
       (case record of
          None \<Rightarrow> failA (IntegrityErr (''Deployment '' @ uuid_str (d_id d) @ '' has no provisioned database to evaluate''))
        | Some r \<Rightarrow>
            if dd_purge_after r \<noteq> None then retA (dd_quota r)
            else
              bindA (bindA (readA (\<lambda>s. database_quota s d)) liftA) (\<lambda>allowance.
              bindA (database_size_bytes out (dd_db_name r)) (\<lambda>size_bytes.
              let state = state_for size_bytes allowance in
              thenA (apply_quota_state out r state)
             (bindA (nowA out) (\<lambda>now.
              bindA (warn out d size_bytes allowance notify now (measured size_bytes state now r)) (\<lambda>r'.
              thenA (commitA (put_database r')) (retA state))))))))"

section \<open>Provisioning and teardown\<close>

definition revoke_public_access :: "outside \<Rightarrow> deployment \<Rightarrow> string \<Rightarrow> string \<Rightarrow> unit act" where
  "revoke_public_access out d database role =
     thenA (pg_as_role out role (''REVOKE ALL ON DATABASE {database} FROM PUBLIC'', [(''database'', database)]))
    (bindA (public_can_connect out database) (\<lambda>open_to_public.
       if open_to_public
       then failA (IntegrityErr (''Deployment '' @ uuid_str (d_id d) @ '': PUBLIC still holds CONNECT on '' @ database @
              '' after the revocation; refusing to report a provisioned database that every other role can reach''))
       else retA ()))"

definition ensure_role :: "outside \<Rightarrow> settings \<Rightarrow> string \<Rightarrow> string \<Rightarrow> unit act" where
  "ensure_role out st role password =
     bindA (role_exists out role) (\<lambda>there.
     thenA (whenA (\<not> there)
              (pg_execute out ''CREATE ROLE {role} LOGIN NOSUPERUSER NOCREATEDB NOCREATEROLE NOREPLICATION NOBYPASSRLS'' [(''role'', role)]))
    (thenA (pg_execute out ''GRANT {role} TO {admin} WITH SET TRUE, INHERIT FALSE'' [(''role'', role), (''admin'', st_db_admin_user st)])
           (pg_execute out ''ALTER ROLE {role} WITH PASSWORD {password}'' [(''role'', role), (''password'', password)])))"

definition ensure_database_object :: "outside \<Rightarrow> string \<Rightarrow> string \<Rightarrow> unit act" where
  "ensure_database_object out database role =
     bindA (database_exists out database) (\<lambda>there.
       whenA (\<not> there) (pg_auto out ''CREATE DATABASE {database} OWNER {role}'' [(''database'', database), (''role'', role)]))"

definition ensure_role_setting :: "outside \<Rightarrow> string \<Rightarrow> string \<times> string \<Rightarrow> unit act" where
  "ensure_role_setting out role kv =
     pg_execute out (''ALTER ROLE {role} SET '' @ fst kv @ '' = {value}'') [(''role'', role), (''value'', snd kv)]"

definition ensure_database :: "outside \<Rightarrow> settings \<Rightarrow> crypto \<Rightarrow> deployment \<Rightarrow> db_creds act" where
  "ensure_database out st cr d =
     (let role = database_name d; database = database_name d in
      bindA (bindA (readA (\<lambda>s. database_quota s d)) liftA) (\<lambda>_.
      bindA (store_password out cr d) (\<lambda>password.
      thenA (ensure_role out st role password)
     (thenA (ensure_database_object out database role)
     (thenA (revoke_public_access out d database role)
     (thenA (eachA (ensure_role_setting out role) role_settings)
     (thenA (evaluate_quota_state out d False)
            (retA \<lparr>dbc_host = st_pooler_host st, dbc_port = st_pooler_port st, dbc_database = database,
                   dbc_user = role, dbc_password = password\<rparr>))))))))"

definition day :: time where "day = 86400000000"

definition teardown_database :: "outside \<Rightarrow> settings \<Rightarrow> deployment \<Rightarrow> unit act" where
  "teardown_database out st d =
     bindA (readA (\<lambda>s. database_record s (d_id d))) (\<lambda>record.
       (case record of
          None \<Rightarrow> retA ()
        | Some r \<Rightarrow>
            bindA (role_exists out (dd_role_name r)) (\<lambda>there.
            thenA (whenA there
                     (thenA (pg_execute out ''ALTER ROLE {role} NOLOGIN'' [(''role'', dd_role_name r)])
                            (terminate_backends out (dd_role_name r))))
           (whenA (dd_purge_after r = None)
              (bindA (nowA out) (\<lambda>now.
                 commitA (put_database (r\<lparr>dd_purge_after := Some (now + int (st_purge_grace_days st) * day)\<rparr>))))))))"

text \<open>\<^verbatim>\<open>RESET ROLE\<close> runs whether or not the drop raised.\<close>

definition drop_database :: "outside \<Rightarrow> database_row \<Rightarrow> unit act" where
  "drop_database out r =
     thenA (pg_auto out ''SET ROLE {role}'' [(''role'', dd_role_name r)])
    (thenA (catchA (pg_auto out ''DROP DATABASE {database} WITH (FORCE)'' [(''database'', dd_db_name r)])
              (\<lambda>e. thenA (pg_auto out ''RESET ROLE'' []) (failA e)))
           (pg_auto out ''RESET ROLE'' []))"

definition purge_database :: "outside \<Rightarrow> database_row \<Rightarrow> unit act" where
  "purge_database out r =
     bindA (nowA out) (\<lambda>now.
       if (case dd_purge_after r of None \<Rightarrow> True | Some t \<Rightarrow> now < t)
       then failA (IntegrityErr (''Deployment '' @ uuid_str (dd_dep r) @ '' is not due for purge''))
       else
         bindA (database_exists out (dd_db_name r)) (\<lambda>there.
         thenA (whenA there (drop_database out r))
        (bindA (role_exists out (dd_role_name r)) (\<lambda>role_there.
         thenA (whenA role_there (pg_auto out ''DROP ROLE {role}'' [(''role'', dd_role_name r)]))
               (commitA (\<lambda>s. s\<lparr>db_databases := filter (\<lambda>x. s_id x \<noteq> s_id r) (db_databases s)\<rparr>))))))"

definition find_orphans :: "outside \<Rightarrow> (string list \<times> string list) act" where
  "find_orphans out =
     bindA (readA db_databases) (\<lambda>rows.
     bindA (askA (o_list out) (PgDatabases ''dpl_'')) (\<lambda>dbs.
     bindA (askA (o_list out) (PgRoles ''dpl_'')) (\<lambda>roles.
       retA (filter (\<lambda>n. n \<notin> dd_db_name ` set rows) dbs, filter (\<lambda>n. n \<notin> dd_role_name ` set rows) roles))))"

record database_read =
  dr_host :: string
  dr_port :: nat
  dr_database :: string
  dr_role :: string
  dr_password :: "string option"
  dr_withheld :: bool
  dr_quota :: quota_state
  dr_allowance :: nat
  dr_size :: "nat option"
  dr_measured_at :: "time option"

definition get_connection_details :: "settings \<Rightarrow> crypto \<Rightarrow> db \<Rightarrow> deployment \<Rightarrow> user_id option \<Rightarrow> database_read result" where
  "get_connection_details st cr s d viewer =
     (if \<not> database_enabled s d then Inl (storage_unavailable ''This deployment's product does not offer relational storage'')
      else case database_record s (d_id d) of
             None \<Rightarrow> Inl (storage_unavailable ''This deployment has no database'')
           | Some r \<Rightarrow>
               (let owner = (viewer = Some (d_user d)) in
                bindR (if owner then bindR (row_password cr r) (\<lambda>p. Inr (Some p)) else Inr None) (\<lambda>password.
                bindR (database_quota s d) (\<lambda>allowance.
                  Inr \<lparr>dr_host = st_pooler_host st, dr_port = st_pooler_port st, dr_database = dd_db_name r,
                       dr_role = dd_role_name r, dr_password = password, dr_withheld = (\<not> owner), dr_quota = dd_quota r,
                       dr_allowance = allowance, dr_size = dd_size r, dr_measured_at = dd_measured_at r\<rparr>))))"

section \<open>The housekeeping sweeps\<close>

record tick_result =
  tk_swept :: nat
  tk_changed :: "(string \<times> string) list"
  tk_failed :: "(string \<times> string) list"

definition err_text :: "error \<Rightarrow> string" where
  "err_text e =
     (case e of
        CaelusErr m \<Rightarrow> m | IntegrityErr m \<Rightarrow> m | InProgressErr m \<Rightarrow> m | NotFoundErr m \<Rightarrow> m | ValidationErr m \<Rightarrow> m
      | ConflictErr _ m \<Rightarrow> m | CodedValidationErr _ m \<Rightarrow> m | CodedIntegrityErr _ m \<Rightarrow> m | HostnameErr m \<Rightarrow> m
      | EncryptionErr m \<Rightarrow> m | DbIntegrityError m \<Rightarrow> m | PyValueError m \<Rightarrow> m | ExternalErr m \<Rightarrow> m)"

definition quota_name :: "quota_state \<Rightarrow> string" where
  "quota_name q = (case q of QuotaOk \<Rightarrow> ''ok'' | QuotaWarned \<Rightarrow> ''warned'' | QuotaReadonly \<Rightarrow> ''readonly'' | QuotaBlocked \<Rightarrow> ''blocked'')"

definition no_tick :: tick_result where
  "no_tick = \<lparr>tk_swept = 0, tk_changed = [], tk_failed = []\<rparr>"

definition tick_failed :: "string \<Rightarrow> error \<Rightarrow> tick_result \<Rightarrow> tick_result" where
  "tick_failed dep e t = t\<lparr>tk_failed := AList.update dep (err_text e) (tk_failed t)\<rparr>"

definition tick_swept :: "string \<Rightarrow> string option \<Rightarrow> tick_result \<Rightarrow> tick_result" where
  "tick_swept dep note t =
     t\<lparr>tk_swept := Suc (tk_swept t),
       tk_changed := (case note of None \<Rightarrow> tk_changed t | Some n \<Rightarrow> AList.update dep n (tk_changed t))\<rparr>"

definition quota_one :: "outside \<Rightarrow> database_row \<Rightarrow> tick_result \<Rightarrow> tick_result act" where
  "quota_one out r t =
     bindA (readA (\<lambda>s. get_dep s (dd_dep r))) (\<lambda>dep.
       (case dep of
          None \<Rightarrow> retA t
        | Some d \<Rightarrow>
            catchA (bindA (evaluate_quota_state out d True) (\<lambda>state.
                      retA (tick_swept (uuid_str (d_id d))
                        (if state \<noteq> dd_quota r then Some (quota_name (dd_quota r) @ '' -> '' @ quota_name state) else None) t)))
              (\<lambda>e. retA (tick_failed (uuid_str (d_id d)) e t))))"

fun sweep :: "('r \<Rightarrow> tick_result \<Rightarrow> tick_result act) \<Rightarrow> 'r list \<Rightarrow> tick_result \<Rightarrow> tick_result act" where
  "sweep one [] t = retA t"
| "sweep one (r # rs) t = bindA (one r t) (sweep one rs)"

definition quota_tick :: "outside \<Rightarrow> tick_result act" where
  "quota_tick out =
     bindA (readA (\<lambda>s. filter (\<lambda>r. dd_purge_after r = None) (db_databases s))) (\<lambda>rows. sweep (quota_one out) rows no_tick)"

definition purge_one :: "outside \<Rightarrow> database_row \<Rightarrow> tick_result \<Rightarrow> tick_result act" where
  "purge_one out r t =
     catchA (thenA (purge_database out r) (retA (tick_swept (uuid_str (dd_dep r)) (Some ''purged'') t)))
       (\<lambda>e. retA (tick_failed (uuid_str (dd_dep r)) e t))"

definition due_rows :: "time \<Rightarrow> nat \<Rightarrow> database_row list \<Rightarrow> database_row list" where
  "due_rows now limit rows =
     take limit (sort_key (\<lambda>r. the (dd_purge_after r)) (filter (\<lambda>r. case dd_purge_after r of None \<Rightarrow> False | Some t \<Rightarrow> t \<le> now) rows))"

definition purge_tick :: "outside \<Rightarrow> nat \<Rightarrow> tick_result act" where
  "purge_tick out limit =
     bindA (nowA out) (\<lambda>now.
     bindA (readA (\<lambda>s. due_rows now limit (db_databases s))) (\<lambda>rows. sweep (purge_one out) rows no_tick))"

section \<open>Destruction is bounded to what is due\<close>

definition is_due :: "time \<Rightarrow> database_row \<Rightarrow> bool" where
  "is_due now r \<longleftrightarrow> (\<exists>t. dd_purge_after r = Some t \<and> t \<le> now)"

text \<open>A call that changes the cluster names only objects of one of the rows.\<close>

definition confined :: "database_row set \<Rightarrow> call \<Rightarrow> bool" where
  "confined rows c \<longleftrightarrow>
     (\<forall>statement args. c = PgAuto (statement, args) \<longrightarrow>
        (\<exists>r \<in> rows. set args \<subseteq> {(''role'', dd_role_name r), (''database'', dd_db_name r)})) \<and>
     (\<forall>statements. c \<noteq> PgSession statements)"

lemma purge_refuses: "\<not> is_due (o_now out (w_calls w)) r \<Longrightarrow> \<exists>e. purge_database out r w = (Inl e, w)"
  by (auto simp: purge_database_def is_due_def bindA_def act_simps split: option.split)

lemma confined_query [simp]: "confined rows (PgDatabaseExists x)" "confined rows (PgRoleExists x)"
  by (simp_all add: confined_def)

lemma confined_auto: "r \<in> rows \<Longrightarrow> set args \<subseteq> {(''role'', dd_role_name r), (''database'', dd_db_name r)} \<Longrightarrow> confined rows (PgAuto (s, args))"
  by (auto simp: confined_def)

lemma drop_database_issues: "r \<in> rows \<Longrightarrow> issues (confined rows) (drop_database out r)"
  unfolding drop_database_def pg_auto_def
  by (intro issues_rules) (auto intro: confined_auto)

lemma issues_now: "(\<And>x. issues P (f x)) \<Longrightarrow> issues P (bindA (nowA out) f)"
  by (rule issues_bind) simp_all

lemma purge_database_issues: "r \<in> rows \<Longrightarrow> issues (confined rows) (purge_database out r)"
  unfolding purge_database_def database_exists_def role_exists_def pg_auto_def
  by (intro issues_rules drop_database_issues) (auto intro: confined_auto)

lemma drop_database_keeps: "keeps_db (drop_database out r)"
  unfolding drop_database_def pg_auto_def by (intro keeps_db_rules) simp_all

text \<open>The sweep, as an invariant: what was issued stays confined and what is gone was due.\<close>

definition purged_only :: "database_row set \<Rightarrow> world \<Rightarrow> world \<Rightarrow> bool" where
  "purged_only due w0 w \<longleftrightarrow>
     (\<exists>cs. w_calls w = w_calls w0 @ cs \<and> (\<forall>c \<in> set cs. confined due c)) \<and>
     set (db_databases (w_db w)) \<subseteq> set (db_databases (w_db w0)) \<and>
     set (db_databases (w_db w0)) - set (db_databases (w_db w)) \<subseteq> due"

lemma purged_only_call: "confined due c \<Longrightarrow> purged_only due w0 w \<Longrightarrow> purged_only due w0 (w\<lparr>w_calls := w_calls w @ [c]\<rparr>)"
  by (auto simp: purged_only_def)

lemma purged_only_row:
  assumes "keyed s_id (db_databases (w_db w0))" "r \<in> due" "r \<in> set (db_databases (w_db w0))" "purged_only due w0 w"
  shows "purged_only due w0 (w\<lparr>w_db := (w_db w)\<lparr>db_databases := filter (\<lambda>q. s_id q \<noteq> s_id r) (db_databases (w_db w))\<rparr>\<rparr>)"
proof -
  have "q = r" if "q \<in> set (db_databases (w_db w0))" "s_id q = s_id r" for q
    using assms(1,3) that by (intro keyed_unique[of s_id]) auto
  with assms(2,4) show ?thesis by (auto simp: purged_only_def)
qed

lemma purge_one_stable:
  assumes "keyed s_id (db_databases (w_db w0))" "r \<in> due" "r \<in> set (db_databases (w_db w0))"
  shows "stable (purged_only due w0) (purge_one out r t)"
proof -
  let ?I = "purged_only due w0"
  have ask: "stable ?I (askA a c)" if "confined due c" for a :: "call list \<Rightarrow> call \<Rightarrow> string + 'a" and c
    using that by (intro stable_calls[of "confined due"] issues_ask purged_only_call) simp_all
  have autocommit: "stable ?I (pg_auto out s args)" if "set args \<subseteq> {(''role'', dd_role_name r), (''database'', dd_db_name r)}" for s args
    unfolding pg_auto_def using that assms(2)
    by (intro stable_calls[of "confined due"] issues_ask purged_only_call confined_auto) simp_all
  have drop: "stable ?I (drop_database out r)"
    using assms(2) by (intro stable_calls[of "confined due"] drop_database_issues drop_database_keeps purged_only_call)
  have commit: "stable ?I (commitA (\<lambda>s. s\<lparr>db_databases := filter (\<lambda>x. s_id x \<noteq> s_id r) (db_databases s)\<rparr>))"
    by (rule stable_commit) (rule purged_only_row[OF assms])
  show ?thesis
    unfolding purge_one_def purge_database_def database_exists_def role_exists_def
    by (intro stable_rules ask autocommit drop commit) simp_all
qed

lemma sweep_stable: "(\<And>r t. r \<in> set rs \<Longrightarrow> stable I (one r t)) \<Longrightarrow> stable I (sweep one rs t)"
  by (induction rs arbitrary: t) (simp_all add: stable_bind)

lemma due_rows_due: "r \<in> set (due_rows now limit rows) \<Longrightarrow> r \<in> set rows \<and> is_due now r"
  by (auto simp: due_rows_def is_due_def dest!: in_set_takeD split: option.splits)

text \<open>
  C24. The one irreversible sweep destroys only what is due: every statement a purge tick issues names
  the database or role of one of at most \<open>limit\<close> rows whose grace period is over, the only rows that
  disappear are among those, and this holds wherever a failure or a crash stops it.
\<close>

theorem purge_only_due:
  assumes "keyed s_id (db_databases (w_db w))" "purge_tick out limit w = (r, w')"
  shows "\<exists>due. finite due \<and> card due \<le> limit \<and>
    (\<forall>x \<in> due. x \<in> set (db_databases (w_db w)) \<and> is_due (o_now out (w_calls w)) x) \<and> purged_only due w w'"
proof -
  let ?due = "due_rows (o_now out (w_calls w)) limit (db_databases (w_db w))"
  have "stable (purged_only (set ?due) w) (sweep (purge_one out) ?due no_tick)"
    by (intro sweep_stable purge_one_stable[OF assms(1)]) (auto dest: due_rows_due)
  moreover have "purged_only (set ?due) w w" by (simp add: purged_only_def)
  moreover have "sweep (purge_one out) ?due no_tick w = (r, w')"
    using assms(2) by (simp add: purge_tick_def bindA_def act_simps)
  ultimately have "purged_only (set ?due) w w'" by (auto dest: stableD)
  moreover have "card (set ?due) \<le> limit"
    using card_length[of ?due] by (auto simp: due_rows_def)
  ultimately show ?thesis by (intro exI[of _ "set ?due"]) (auto dest: due_rows_due)
qed

section \<open>The password is written down before it is used\<close>

definition sets_password :: "string \<Rightarrow> call \<Rightarrow> bool" where
  "sets_password p c \<longleftrightarrow>
     (\<exists>role. c = PgSession [(''ALTER ROLE {role} WITH PASSWORD {password}'', [(''role'', role), (''password'', p)])])"

definition recoverable :: "crypto \<Rightarrow> uuid \<Rightarrow> string \<Rightarrow> db \<Rightarrow> bool" where
  "recoverable cr dep p s \<longleftrightarrow> (\<exists>row. database_record s dep = Some row \<and> row_password cr row = Inr p)"

definition passwords_kept :: "crypto \<Rightarrow> uuid \<Rightarrow> world \<Rightarrow> world \<Rightarrow> bool" where
  "passwords_kept cr dep w0 w \<longleftrightarrow>
     (\<exists>cs. w_calls w = w_calls w0 @ cs \<and> (\<forall>c \<in> set cs. \<forall>p. sets_password p c \<longrightarrow> recoverable cr dep p (w_db w)))"

lemma other_call_kept:
  "(\<And>p. sets_password p c \<Longrightarrow> recoverable cr dep p (w_db w)) \<Longrightarrow> passwords_kept cr dep w0 w \<Longrightarrow>
   passwords_kept cr dep w0 (w\<lparr>w_calls := w_calls w @ [c]\<rparr>)"
  by (auto simp: passwords_kept_def)

lemma stable_ask: "(\<And>w. I w \<Longrightarrow> I (w\<lparr>w_calls := w_calls w @ [c]\<rparr>)) \<Longrightarrow> stable I (askA answer c)"
  by (simp add: stable_def askA_def split: sum.split)

lemma warn_row: "warn out d sz al notify now r w = (Inr r', w') \<Longrightarrow> dd_dep r' = dd_dep r \<and> s_cipher r' = s_cipher r \<and> s_key_id r' = s_key_id r"
  by (auto simp: warn_def retA_def bindA_def split: if_splits option.splits prod.splits sum.splits)

lemma put_database_recoverable:
  assumes "database_record s dep = Some r" "dd_dep r' = dd_dep r" "s_cipher r' = s_cipher r" "s_key_id r' = s_key_id r"
  shows "recoverable cr dep p (put_database r' s) \<longleftrightarrow> recoverable cr dep p s"
proof -
  have d: "dd_dep r = dep" using assms(1) unfolding database_record_def by (rule row_get_key)
  have "row_get dd_dep dep (row_upd dd_dep dep (\<lambda>_. r') rows) = map_option (\<lambda>_. r') (row_get dd_dep dep rows)" for rows
    using assms(2) d by (induction rows) (auto simp: table_simps)
  moreover have "row_password cr r' = row_password cr r" using assms(3,4) by (simp add: row_password_def)
  ultimately show ?thesis
    using assms(1,2) d by (simp add: recoverable_def put_database_def database_record_def)
qed

text \<open>Evaluating the quota changes no password, in the cluster or in the row.\<close>

lemma warn_keeps: "keeps_db (warn out d sz al notify now r)"
  unfolding warn_def notify_threshold_def
  by (auto intro!: keeps_db_rules split: option.split)

lemma apply_quota_state_keeps: "keeps_db (apply_quota_state out r state)"
  unfolding apply_quota_state_def pg_as_role_def pg_execute_def terminate_backends_def
  by (intro keeps_db_rules) simp_all

definition no_password :: "call \<Rightarrow> bool" where
  "no_password c \<longleftrightarrow> (\<forall>p. \<not> sets_password p c)"

lemma no_password_simps [simp]:
  "no_password (PgAuto s)" "no_password (PgRoleExists x)" "no_password (PgDatabaseExists x)" "no_password (PgPublicCanConnect x)"
  "no_password (PgSize x)" "no_password (PgTerminate x)" "no_password (SendMail a b)" "no_password (PgSession (as_role r s))"
  "no_password (PgSession [(t, args)]) \<longleftrightarrow> t \<noteq> ''ALTER ROLE {role} WITH PASSWORD {password}'' \<or> (\<forall>r p. args \<noteq> [(''role'', r), (''password'', p)])"
  by (auto simp: no_password_def sets_password_def as_role_def)

lemma kept_call: "no_password c \<Longrightarrow> passwords_kept cr dep w0 w \<Longrightarrow> passwords_kept cr dep w0 (w\<lparr>w_calls := w_calls w @ [c]\<rparr>)"
  by (rule other_call_kept) (auto simp: no_password_def)

lemma warn_issues: "issues no_password (warn out d sz al notify now r)"
  unfolding warn_def notify_threshold_def
  by (auto intro!: issues_rules split: option.split)

lemma apply_quota_state_issues: "issues no_password (apply_quota_state out r state)"
  unfolding apply_quota_state_def pg_as_role_def pg_execute_def terminate_backends_def
  by (intro issues_rules) simp_all

definition kept_row :: "crypto \<Rightarrow> uuid \<Rightarrow> world \<Rightarrow> database_row \<Rightarrow> world \<Rightarrow> bool" where
  "kept_row cr dep w0 r w \<longleftrightarrow> passwords_kept cr dep w0 w \<and> database_record (w_db w) dep = Some r"

lemma kept_row_quiet: "issues no_password m \<Longrightarrow> keeps_db m \<Longrightarrow> stable (kept_row cr dep w0 r) m"
  by (rule stable_calls[of no_password]) (auto simp: kept_row_def kept_call)

lemma kept_row_commit:
  "runs (\<lambda>w. kept_row cr dep w0 r w \<and> (dd_dep r' = dd_dep r \<and> s_cipher r' = s_cipher r \<and> s_key_id r' = s_key_id r))
     (thenA (commitA (put_database r')) (retA x)) (\<lambda>_. passwords_kept cr dep w0) (\<lambda>_. passwords_kept cr dep w0)"
  by (auto simp: runs_def bindA_def act_simps kept_row_def passwords_kept_def put_database_recoverable)

lemma evaluate_kept: "stable (passwords_kept cr (d_id d) w0) (evaluate_quota_state out d notify)"
proof (rule stable_runs)
  let ?I = "passwords_kept cr (d_id d) w0"
  let ?J = "kept_row cr (d_id d) w0"
  have E: "runs (?J r) m Q (\<lambda>_. ?J r) \<Longrightarrow> runs (?J r) m Q (\<lambda>_. ?I)" for m Q r
    by (erule runs_weaken) (auto simp: kept_row_def)
  have rest: "runs (?J r) (thenA (apply_quota_state out r state) (bindA (nowA out) (\<lambda>now.
      bindA (warn out d sz al notify now (measured sz state now r)) (\<lambda>r'. thenA (commitA (put_database r')) (retA state)))))
      (\<lambda>_. ?I) (\<lambda>_. ?I)" for r state sz al
  proof (rule runs_bind[where R = "\<lambda>_. ?J r"])
    show "runs (?J r) (apply_quota_state out r state) (\<lambda>_. ?J r) (\<lambda>_. ?I)"
      by (rule E) (intro runs_stable kept_row_quiet apply_quota_state_issues apply_quota_state_keeps)
    show "runs (?J r) (bindA (nowA out) (\<lambda>now.
      bindA (warn out d sz al notify now (measured sz state now r)) (\<lambda>r'. thenA (commitA (put_database r')) (retA state))))
      (\<lambda>_. ?I) (\<lambda>_. ?I)"
    proof (rule runs_bind[where R = "\<lambda>_. ?J r"])
      show "runs (?J r) (nowA out) (\<lambda>_. ?J r) (\<lambda>_. ?I)" by (simp add: runs_def act_simps)
      show "runs (?J r) (bindA (warn out d sz al notify now (measured sz state now r)) (\<lambda>r'. thenA (commitA (put_database r')) (retA state)))
        (\<lambda>_. ?I) (\<lambda>_. ?I)" for now
      proof (rule runs_bind[OF E[OF runs_result] kept_row_commit])
        show "stable (?J r) (warn out d sz al notify now (measured sz state now r))"
          by (intro kept_row_quiet warn_issues warn_keeps)
        show "dd_dep x = dd_dep r \<and> s_cipher x = s_cipher r \<and> s_key_id x = s_key_id r"
          if "warn out d sz al notify now (measured sz state now r) w = (Inr x, w')" for w x w'
          using warn_row[OF that] by (simp add: measured_def)
      qed
    qed
  qed
  have "runs (?J r) (bindA (bindA (readA (\<lambda>s. database_quota s d)) liftA) (\<lambda>allowance.
      bindA (database_size_bytes out (dd_db_name r)) (\<lambda>size_bytes. let state = state_for size_bytes allowance in
        thenA (apply_quota_state out r state) (bindA (nowA out) (\<lambda>now.
          bindA (warn out d size_bytes allowance notify now (measured size_bytes state now r)) (\<lambda>r'.
            thenA (commitA (put_database r')) (retA state))))))) (\<lambda>_. ?I) (\<lambda>_. ?I)" for r
  proof (rule runs_bind[where R = "\<lambda>_. ?J r"])
    show "runs (?J r) (bindA (readA (\<lambda>s. database_quota s d)) liftA) (\<lambda>_. ?J r) (\<lambda>_. ?I)"
      by (rule E) (intro runs_stable stable_rules, simp_all)
    show "runs (?J r) (bindA (database_size_bytes out (dd_db_name r)) (\<lambda>size_bytes. let state = state_for size_bytes allowance in
        thenA (apply_quota_state out r state) (bindA (nowA out) (\<lambda>now.
          bindA (warn out d size_bytes allowance notify now (measured size_bytes state now r)) (\<lambda>r'.
            thenA (commitA (put_database r')) (retA state)))))) (\<lambda>_. ?I) (\<lambda>_. ?I)" for allowance
      unfolding Let_def
    proof (rule runs_bind[where R = "\<lambda>_. ?J r", OF _ rest])
      show "runs (?J r) (database_size_bytes out (dd_db_name r)) (\<lambda>_. ?J r) (\<lambda>_. ?I)"
        unfolding database_size_bytes_def
        by (rule E) (intro runs_stable kept_row_quiet issues_ask, simp_all)
    qed
  qed
  then show "runs ?I (evaluate_quota_state out d notify) (\<lambda>_. ?I) (\<lambda>_. ?I)"
    unfolding evaluate_quota_state_def
    by (fastforce simp: runs_def bindA_def act_simps kept_row_def split: option.splits)
qed

definition usable :: "crypto \<Rightarrow> uuid \<Rightarrow> world \<Rightarrow> string \<Rightarrow> world \<Rightarrow> bool" where
  "usable cr dep w0 p w \<longleftrightarrow> passwords_kept cr dep w0 w \<and> recoverable cr dep p (w_db w)"

lemma usable_call: "no_password c \<or> sets_password p c \<Longrightarrow> usable cr dep w0 p w \<Longrightarrow> usable cr dep w0 p (w\<lparr>w_calls := w_calls w @ [c]\<rparr>)"
  by (auto simp: usable_def no_password_def sets_password_def intro!: other_call_kept)

lemma store_password_usable:
  assumes "fernet_ok (cr_fernet cr)"
  shows "runs (passwords_kept cr (d_id d) w0) (store_password out cr d)
    (usable cr (d_id d) w0) (\<lambda>_. passwords_kept cr (d_id d) w0)"
proof -
  let ?I = "passwords_kept cr (d_id d) w0"
  have "usable cr (d_id d) w0 p w' \<and> True" if I: "?I w" and ok: "store_password out cr d w = (Inr p, w')" for w w' p
  proof (cases "database_record (w_db w) (d_id d)")
    case (Some r)
    with ok have "row_password cr r = Inr p" "w' = w" by (simp_all add: store_password_def bindA_def act_simps)
    with Some I show ?thesis by (auto simp: usable_def recoverable_def)
  next
    case None
    let ?i = "next_id s_id (db_databases (w_db w))"
    from None ok obtain e where e: "encrypt (cr_fernet cr) (cr_ring cr) (cr_nonce cr ?i) p = Inr e"
        "w' = w\<lparr>w_db := (w_db w)\<lparr>db_databases := db_databases (w_db w) @ [new_database_row ?i d e]\<rparr>\<rparr>"
      by (auto simp: store_password_def bindA_def act_simps split: sum.splits)
    have "row_password cr (new_database_row ?i d e) = Inr p"
      using encrypt_decrypt[OF assms, of "cr_ring cr" "cr_nonce cr ?i" p "fst e" "snd e"] e(1)
      by (simp add: row_password_def new_database_row_def)
    moreover have "database_record (w_db w') (d_id d) = Some (new_database_row ?i d e)"
      using None e(2) by (simp add: database_record_def table_simps new_database_row_def)
    ultimately have r: "recoverable cr (d_id d) p (w_db w')" by (simp add: recoverable_def)
    have "\<not> recoverable cr (d_id d) q (w_db w)" for q using None by (simp add: recoverable_def)
    with I r e(2) show ?thesis by (auto simp: usable_def passwords_kept_def)
  qed
  moreover have "?I w'" if "?I w" "store_password out cr d w = (Inl e, w')" for w w' e
    using that by (auto simp: store_password_def bindA_def act_simps split: option.splits sum.splits)
  ultimately show ?thesis by (fastforce simp: runs_def split: prod.split sum.split)
qed

lemma provisioning_usable: "stable (usable cr dep w0 p) (thenA (ensure_role out st role p)
     (thenA (ensure_database_object out database role)
     (thenA (revoke_public_access out d database role) (eachA (ensure_role_setting out role) role_settings))))"
proof -
  have q: "stable (usable cr dep w0 p) m" if "issues (\<lambda>c. no_password c \<or> sets_password p c) m" "keeps_db m" for m :: "unit act"
    using that by (rule stable_calls) (rule usable_call)
  show ?thesis
  proof (intro stable_bind q)
    show "issues (\<lambda>c. no_password c \<or> sets_password p c) (ensure_role out st role p)"
      unfolding ensure_role_def role_exists_def pg_execute_def
      by (intro issues_rules) (simp_all add: sets_password_def)
    show "issues (\<lambda>c. no_password c \<or> sets_password p c) (ensure_database_object out database role)"
      unfolding ensure_database_object_def database_exists_def pg_auto_def by (intro issues_rules) simp_all
    show "issues (\<lambda>c. no_password c \<or> sets_password p c) (revoke_public_access out d database role)"
      unfolding revoke_public_access_def pg_as_role_def public_can_connect_def by (intro issues_rules) simp_all
    show "issues (\<lambda>c. no_password c \<or> sets_password p c) (eachA (ensure_role_setting out role) role_settings)"
      unfolding role_settings_def ensure_role_setting_def pg_execute_def by (intro issues_rules) auto
  qed (simp_all add: ensure_role_def role_exists_def pg_execute_def ensure_database_object_def database_exists_def pg_auto_def
      revoke_public_access_def pg_as_role_def public_can_connect_def ensure_role_setting_def keeps_db_rules)
qed

lemma bindA_assoc: "bindA (bindA m f) g = bindA m (\<lambda>x. bindA (f x) g)"
  by (rule ext) (simp add: bindA_def split: prod.split sum.split)

text \<open>
  The platform never sets a password it could not set again: whenever a provisioning run, finished
  or not, has put a password on the role, the deployment's row holds that very password, sealed under
  the keyring.
\<close>

theorem password_recoverable:
  assumes "fernet_ok (cr_fernet cr)" "ensure_database out st cr d w = (r, w')"
    and "w_calls w' = w_calls w @ cs" "c \<in> set cs" "sets_password p c"
  shows "recoverable cr (d_id d) p (w_db w')"
proof -
  let ?I = "passwords_kept cr (d_id d) w"
  have tail: "runs (usable cr (d_id d) w p) (bindA (thenA (ensure_role out st (database_name d) p)
      (thenA (ensure_database_object out (database_name d) (database_name d))
      (thenA (revoke_public_access out d (database_name d) (database_name d))
        (eachA (ensure_role_setting out (database_name d)) role_settings))))
      (\<lambda>_. thenA (evaluate_quota_state out d False) (retA x))) (\<lambda>_. ?I) (\<lambda>_. ?I)" for p and x :: db_creds
  proof (rule runs_bind[where R = "\<lambda>_. ?I"])
    show "runs (usable cr (d_id d) w p) (thenA (ensure_role out st (database_name d) p)
      (thenA (ensure_database_object out (database_name d) (database_name d))
      (thenA (revoke_public_access out d (database_name d) (database_name d))
        (eachA (ensure_role_setting out (database_name d)) role_settings)))) (\<lambda>_. ?I) (\<lambda>_. ?I)"
      by (rule runs_weaken[OF runs_stable[OF provisioning_usable]]) (auto simp: usable_def)
    show "runs ?I (thenA (evaluate_quota_state out d False) (retA x)) (\<lambda>_. ?I) (\<lambda>_. ?I)"
      by (intro runs_stable stable_bind evaluate_kept) simp
  qed
  have "runs ?I (ensure_database out st cr d) (\<lambda>_. ?I) (\<lambda>_. ?I)"
    unfolding ensure_database_def Let_def
  proof (rule runs_bind[where R = "\<lambda>_. ?I"])
    show "runs ?I (bindA (readA (\<lambda>s. database_quota s d)) liftA) (\<lambda>_. ?I) (\<lambda>_. ?I)"
      by (intro runs_stable stable_bind) simp_all
  qed (rule runs_bind[OF store_password_usable[OF assms(1)]], use tail in \<open>simp add: bindA_assoc\<close>)
  then have "stable ?I (ensure_database out st cr d)" by (rule stable_runs)
  moreover have "?I w" by (simp add: passwords_kept_def)
  ultimately have "?I w'" using assms(2) by (rule stableD)
  with assms(3-5) show ?thesis by (auto simp: passwords_kept_def)
qed

end
