(* ===== verification/Reconcile.thy ===== *)
theory Reconcile
  imports Provisioner TenantDb DeploymentPower
begin

text \<open>
  One reconcile of a deployment, \<^verbatim>\<open>api/app/services/reconcile.py\<close>: it claims the desired release and
  power, applies them (or deletes everything), and records the outcome. Deriving the pull credential
  and the OIDC client secret from their keys (HMAC) are parameters.
\<close>

section \<open>Environment and result\<close>

record rec_env =
  rv_settings :: settings
  rv_crypto :: crypto
  rv_jsv :: validator
  rv_pull_config :: "user_id \<Rightarrow> string"
  rv_oidc_secret :: "uuid \<Rightarrow> string result"

definition helm_timeout :: nat where "helm_timeout = 300"

record reconcile_result =
  rr_status :: dep_status
  rr_applied_template :: "nat option"
  rr_error :: "string option"
  rr_at :: time
  rr_revision :: "int option"

section \<open>Claiming\<close>

definition put_release :: "release \<Rightarrow> db \<Rightarrow> db" where
  "put_release r s = s\<lparr>db_rels := row_upd r_id (r_id r) (\<lambda>_. r) (db_rels s)\<rparr>"

definition put_power :: "power_row \<Rightarrow> db \<Rightarrow> db" where
  "put_power p s = s\<lparr>db_powers := row_upd pw_id (pw_id p) (\<lambda>_. p) (db_powers s)\<rparr>"

definition put_dep :: "deployment \<Rightarrow> db \<Rightarrow> db" where
  "put_dep d s = s\<lparr>db_deps := row_upd d_id (d_id d) (\<lambda>_. d) (db_deps s)\<rparr>"

text \<open>Write-if-null, committed before Helm runs.\<close>

definition claim_release :: "outside \<Rightarrow> release \<Rightarrow> release act" where
  "claim_release out r =
     (if r_started_at r \<noteq> None then retA r
      else bindA (nowA out) (\<lambda>now.
           let r' = r\<lparr>r_started_at := Some now\<rparr> in thenA (commitA (put_release r')) (retA r')))"

definition claim_power :: "outside \<Rightarrow> power_row \<Rightarrow> power_row act" where
  "claim_power out p =
     (if pw_started_at p \<noteq> None then retA p
      else bindA (nowA out) (\<lambda>now.
           let p' = p\<lparr>pw_started_at := Some now\<rparr> in thenA (commitA (put_power p')) (retA p')))"

text \<open>What a reconcile has claimed so far, and the exception that stopped it claiming, if any.\<close>

record claim =
  cl_values :: "release option"
  cl_release :: "release option"
  cl_power :: "power_row option"
  cl_error :: "error option"

definition no_claim :: claim where
  "no_claim = \<lparr>cl_values = None, cl_release = None, cl_power = None, cl_error = None\<rparr>"

definition claim_desired_power :: "outside \<Rightarrow> deployment \<Rightarrow> claim \<Rightarrow> claim act" where
  "claim_desired_power out d cl =
     (case d_desired_power d of
        None \<Rightarrow> retA cl
      | Some i \<Rightarrow>
          if d_applied_power d = Some i then retA cl
          else bindA (readA (\<lambda>s. get_power s i)) (\<lambda>p.
               (case p of
                  None \<Rightarrow> retA (cl\<lparr>cl_error := Some (IntegrityErr ''Deployment's desired power is missing'')\<rparr>)
                | Some p \<Rightarrow> bindA (claim_power out p) (\<lambda>p'. retA (cl\<lparr>cl_power := Some p'\<rparr>)))))"

definition claim_phase :: "outside \<Rightarrow> deployment \<Rightarrow> claim act" where
  "claim_phase out d =
     (if d_deleted_at d \<noteq> None then retA no_claim
      else bindA (readA (\<lambda>s. get_rel s (d_desired_release d))) (\<lambda>r.
        (case r of
           None \<Rightarrow> retA (no_claim\<lparr>cl_error := Some (IntegrityErr ''Deployment's desired release is missing'')\<rparr>)
         | Some r \<Rightarrow>
             bindA (if d_applied_release d \<noteq> Some (r_id r)
                    then bindA (claim_release out r) (\<lambda>r'. retA (no_claim\<lparr>cl_values := Some r', cl_release := Some r'\<rparr>))
                    else retA (no_claim\<lparr>cl_values := Some r\<rparr>))
               (claim_desired_power out d))))"

section \<open>Applying\<close>

definition validate_input_state :: "db \<Rightarrow> deployment \<Rightarrow> template result" where
  "validate_input_state s d =
     (if d_status d = DPending then Inl (IntegrityErr ''Deployment is awaiting payment and cannot be reconciled'')
      else if d_name d = [] then Inl (IntegrityErr ''Deployment is missing name'')
      else if d_namespace d = [] then Inl (IntegrityErr ''Deployment is missing namespace'')
      else if get_user s (d_user d) = None then Inl (IntegrityErr ''Deployment is missing loaded user relationship'')
      else case get_template s (d_desired_template d) of
             None \<Rightarrow> Inl (IntegrityErr ''Deployment is missing loaded desired_template relationship'')
           | Some t \<Rightarrow>
               if t_deleted_at t \<noteq> None then Inl (IntegrityErr ''Desired template is deleted'')
               else if get_product s (t_product t) = None then Inl (IntegrityErr ''Desired template is missing loaded product relationship'')
               else Inr t)"

definition secret_labels :: "deployment \<Rightarrow> string \<Rightarrow> (string \<times> string) list" where
  "secret_labels d component =
     [(''app.kubernetes.io/managed-by'', ''caelus''), (''app.kubernetes.io/instance'', d_name d), (''caelus.dev/component'', component)]"

definition publish_storage :: "outside \<Rightarrow> rec_env \<Rightarrow> deployment \<Rightarrow> storage_creds option act" where
  "publish_storage out ev d =
     bindA (readA (\<lambda>s. storage_enabled s d)) (\<lambda>enabled.
       if \<not> enabled then retA None
       else bindA (ensure_object_storage out (rv_settings ev) d) (\<lambda>c.
            let region = st_s3_region (rv_settings ev); endpoint = st_s3_endpoint (rv_settings ev) in
            thenA (upsert_secret out (d_namespace d) (storage_secret_name d)
                     [(''AWS_ACCESS_KEY_ID'', sc_key_id c), (''AWS_SECRET_ACCESS_KEY'', sc_secret c), (''AWS_REGION'', region),
                      (''AWS_DEFAULT_REGION'', region), (''AWS_ENDPOINT_URL'', endpoint), (''AWS_ENDPOINT_URL_S3'', endpoint),
                      (''S3_BUCKET'', sc_bucket c), (''BUCKET_NAME'', sc_bucket c)]
                     (secret_labels d ''object-storage'') ''Opaque'')
              (retA (Some c))))"

definition publish_database :: "outside \<Rightarrow> rec_env \<Rightarrow> deployment \<Rightarrow> db_creds option act" where
  "publish_database out ev d =
     bindA (readA (\<lambda>s. database_enabled s d)) (\<lambda>enabled.
       if \<not> enabled then retA None
       else bindA (ensure_database out (rv_settings ev) (rv_crypto ev) d) (\<lambda>c.
            thenA (upsert_secret out (d_namespace d) (database_secret_name d)
                     [(''DATABASE_URL'', db_url c), (''PGHOST'', dbc_host c), (''PGPORT'', nat_str (dbc_port c)),
                      (''PGUSER'', dbc_user c), (''PGPASSWORD'', dbc_password c), (''PGDATABASE'', dbc_database c)]
                     (secret_labels d ''database'') ''Opaque'')
              (retA (Some c))))"

text \<open>Everything is decrypted before anything is written.\<close>

definition decrypted :: "crypto \<Rightarrow> var_row list \<Rightarrow> (string \<times> string) list result" where
  "decrypted cr rows =
     bindR (mapR (\<lambda>r. bindR (plaintext cr r) (\<lambda>p. Inr (v_key r, p))) rows) (\<lambda>kvs.
       Inr (fold (\<lambda>(k, v). AList.update k v) kvs []))"

definition publish_vars :: "outside \<Rightarrow> rec_env \<Rightarrow> deployment \<Rightarrow> release \<Rightarrow> string option act" where
  "publish_vars out ev d r =
     bindA (readA (\<lambda>s. snapshot s (r_id r))) (\<lambda>rows.
       if rows = [] then retA None
       else bindA (liftA (decrypted (rv_crypto ev) rows)) (\<lambda>data.
            thenA (upsert_secret out (d_namespace d) (vars_secret_name d r) data (vars_secret_labels d) ''Opaque'')
              (retA (Some (vars_secret_name d r)))))"

definition publish_pull_secret :: "outside \<Rightarrow> rec_env \<Rightarrow> deployment \<Rightarrow> string option act" where
  "publish_pull_secret out ev d =
     (if st_registry_host (rv_settings ev) = [] \<or> st_registry_pull_key (rv_settings ev) = [] then retA None
      else thenA (upsert_secret out (d_namespace d) (registry_pull_secret_name d)
                    [(''.dockerconfigjson'', rv_pull_config ev (d_user d))]
                    (secret_labels d ''registry-pull'') ''kubernetes.io/dockerconfigjson'')
             (retA (Some (registry_pull_secret_name d))))"

definition publish_oidc :: "outside \<Rightarrow> rec_env \<Rightarrow> deployment \<Rightarrow> template \<Rightarrow> string option act" where
  "publish_oidc out ev d t =
     (let issuer = stripped (st_oidc_issuer (rv_settings ev)) in
      if \<not> auth_oidc (auth_of (t_system_values t) (d_values d)) then retA None
      else if issuer = [] \<or> st_oidc_client_keys (rv_settings ev) = [] then retA None
      else bindA (liftA (rv_oidc_secret ev (d_id d))) (\<lambda>client_secret.
           thenA (upsert_secret out (d_namespace d) (oidc_secret_name d)
                    [(''OIDC_ISSUER'', issuer), (''OIDC_CLIENT_ID'', uuid_str (d_id d)), (''OIDC_CLIENT_SECRET'', client_secret)]
                    (secret_labels d ''oidc'') ''Opaque'')
             (retA (Some (oidc_secret_name d)))))"

text \<open>Best effort: a failure is logged and swallowed.\<close>

definition reap_vars_secrets :: "outside \<Rightarrow> deployment \<Rightarrow> string option \<Rightarrow> unit act" where
  "reap_vars_secrets out d keep =
     catchA (delete_secrets_by_label out (d_namespace d) (vars_secret_selector d) keep) (\<lambda>_. retA ())"

definition remove_oidc_secret :: "outside \<Rightarrow> deployment \<Rightarrow> unit act" where
  "remove_oidc_secret out d =
     catchA (delete_secrets_by_label out (d_namespace d)
               (''app.kubernetes.io/instance='' @ d_name d @ '',caelus.dev/component=oidc'') None) (\<lambda>_. retA ())"

text \<open>Everything a rollout publishes before Helm runs: the namespace, its jail, then the Secrets.\<close>

definition prepare :: "outside \<Rightarrow> rec_env \<Rightarrow> deployment \<Rightarrow> release \<Rightarrow> template \<Rightarrow> published act" where
  "prepare out ev d r t =
     thenA (ensure_namespace out (d_namespace d))
    (bindA (readA (\<lambda>s. namespace_labels (rv_settings ev) s d)) (\<lambda>labels.
     thenA (ensure_tenant_network_policies out (rv_settings ev) (d_namespace d) labels (t_system_values t))
    (bindA (publish_storage out ev d) (\<lambda>storage.
     bindA (publish_database out ev d) (\<lambda>database.
     bindA (publish_vars out ev d r) (\<lambda>vars_secret.
     bindA (publish_pull_secret out ev d) (\<lambda>pull_secret.
     bindA (publish_oidc out ev d t) (\<lambda>oidc_secret.
       retA \<lparr>pb_storage = storage, pb_database = database, pb_vars = vars_secret, pb_pull = pull_secret, pb_oidc = oidc_secret\<rparr>))))))))"

definition wants_stopped :: "db \<Rightarrow> deployment \<Rightarrow> bool" where
  "wants_stopped s d \<longleftrightarrow> (case via (get_power s) (d_desired_power d) of None \<Rightarrow> False | Some p \<Rightarrow> pw_state p = PStopped)"

definition rollout_args :: "settings \<Rightarrow> deployment \<Rightarrow> template \<Rightarrow> pydict \<Rightarrow> bool \<Rightarrow> helm_args" where
  "rollout_args st d t vs stop_it =
     \<lparr>ha_release = d_name d, ha_namespace = d_namespace d, ha_chart = t_chart_ref t, ha_version = t_chart_version t,
      ha_digest = t_chart_digest t, ha_values = vs, ha_timeout = helm_timeout, ha_atomic = True, ha_wait = True,
      ha_hostname = d_hostname d, ha_stopped = stop_it, ha_parking_host = st_parking_host st, ha_parking_port = st_parking_port st\<rparr>"

definition roll_forward :: "outside \<Rightarrow> rec_env \<Rightarrow> deployment \<Rightarrow> release \<Rightarrow> template \<Rightarrow> published \<Rightarrow> helm_result act" where
  "roll_forward out ev d r t pb =
     bindA (bindA (readA (\<lambda>s. build_merged_values (rv_jsv ev) (rv_settings ev) s d t r pb)) liftA) (\<lambda>merged.
     bindA (readA (\<lambda>s. wants_stopped s d)) (\<lambda>stop_it.
     bindA (helm_upgrade_install out (rv_settings ev) (rollout_args (rv_settings ev) d t merged stop_it)) (\<lambda>outcome.
     thenA (whenA stop_it (thenA (sweep_stopped_workloads out (d_namespace d)) (retA ())))
           (retA outcome))))"

definition reconcile_apply :: "outside \<Rightarrow> rec_env \<Rightarrow> deployment \<Rightarrow> release \<Rightarrow> template \<Rightarrow> reconcile_result act" where
  "reconcile_apply out ev d r t =
     thenA (liftA (validate_user_values (rv_jsv ev) (d_values d) (t_schema t)))
    (bindA (prepare out ev d r t) (\<lambda>pb.
     bindA (roll_forward out ev d r t pb) (\<lambda>outcome.
     thenA (reap_vars_secrets out d (pb_vars pb))
    (thenA (whenA (pb_oidc pb = None) (remove_oidc_secret out d))
    (bindA (nowA out) (\<lambda>now.
       retA \<lparr>rr_status = DReady, rr_applied_template = Some (d_desired_template d), rr_error = None, rr_at = now,
             rr_revision = hr_revision outcome\<rparr>))))))"

definition reconcile_delete :: "outside \<Rightarrow> rec_env \<Rightarrow> deployment \<Rightarrow> reconcile_result act" where
  "reconcile_delete out ev d =
     bindA (readA (\<lambda>s. storage_enabled s d)) (\<lambda>stored.
     thenA (whenA stored (teardown_object_storage out (rv_settings ev) d))
    (bindA (readA (\<lambda>s. database_enabled s d)) (\<lambda>has_db.
     thenA (whenA has_db (teardown_database out (rv_settings ev) d))
    (thenA (helm_uninstall out (d_name d) (d_namespace d) helm_timeout True)
    (thenA (delete_namespace out (d_namespace d))
    (bindA (nowA out) (\<lambda>now.
       retA \<lparr>rr_status = DDeleted, rr_applied_template = d_applied_template d, rr_error = None, rr_at = now, rr_revision = None\<rparr>)))))))"

section \<open>The failed release's own output\<close>

text \<open>\<^verbatim>\<open>json.dumps\<close> of a label value, and the selector of one release's lines.\<close>

definition json_char :: "char \<Rightarrow> string" where
  "json_char c =
     (let n = cp c in
      if n = 34 \<or> n = 92 then [CHR 0x5C, c]
      else if n = 10 then [CHR 0x5C, CHR ''n''] else if n = 13 then [CHR 0x5C, CHR ''r'']
      else if n = 9 then [CHR 0x5C, CHR ''t''] else if n = 8 then [CHR 0x5C, CHR ''b'']
      else if n = 12 then [CHR 0x5C, CHR ''f'']
      else if n < 32 \<or> 127 < n then [CHR 0x5C, CHR ''u''] @ hex_pad 4 n else [c])"

definition json_quote :: "string \<Rightarrow> string" where
  "json_quote s = CHR 0x22 # concat (map json_char s) @ [CHR 0x22]"

definition build_selector :: "string \<Rightarrow> string \<Rightarrow> string option \<Rightarrow> string" where
  "build_selector namespace name release_id =
     ''{'' @ join '', ''
       ([''namespace='' @ json_quote namespace, ''instance='' @ json_quote name, ''container!='' @ json_quote ''ssh'',
         ''container!='' @ json_quote gate_name] @
        (case release_id of None \<Rightarrow> [] | Some r \<Rightarrow> [''release_id='' @ json_quote r])) @ ''}''"

definition release_tail :: "outside \<Rightarrow> settings \<Rightarrow> deployment \<Rightarrow> release \<Rightarrow> time \<Rightarrow> string list act" where
  "release_tail out st d r started =
     askA (o_list out)
       (LogTail (build_selector (d_namespace d) (d_name d) (Some (uuid_str (r_id r)))) (started * 1000) (st_log_tail_lines st))"

definition with_release_output :: "outside \<Rightarrow> settings \<Rightarrow> string \<Rightarrow> deployment \<Rightarrow> release \<Rightarrow> time \<Rightarrow> string act" where
  "with_release_output out st message d r started =
     bindA (catchA (release_tail out st d r started) (\<lambda>_. retA [])) (\<lambda>entries.
       retA (if entries = [] then message
             else message @ [newline, newline] @ ''Application output (release '' @ nat_str (r_number r) @ '', last '' @
                  nat_str (length entries) @ '' lines):'' @ [newline] @ join [newline] entries))"

section \<open>The outcome\<close>

definition started_of :: "claim \<Rightarrow> time option" where
  "started_of cl =
     (case cl_release cl of
        Some r \<Rightarrow> r_started_at r
      | None \<Rightarrow> (case cl_power cl of Some p \<Rightarrow> pw_started_at p | None \<Rightarrow> None))"

definition failed_result :: "outside \<Rightarrow> rec_env \<Rightarrow> deployment \<Rightarrow> claim \<Rightarrow> error \<Rightarrow> reconcile_result act" where
  "failed_result out ev d cl e =
     bindA (case (cl_values cl, started_of cl) of
              (Some r, Some started) \<Rightarrow> with_release_output out (rv_settings ev) (err_text e) d r started
            | _ \<Rightarrow> retA (err_text e)) (\<lambda>message.
     bindA (nowA out) (\<lambda>now.
       retA \<lparr>rr_status = DError, rr_applied_template = d_applied_template d, rr_error = Some message, rr_at = now, rr_revision = None\<rparr>))"

definition record_release_outcome :: "reconcile_result \<Rightarrow> release \<Rightarrow> release" where
  "record_release_outcome res r =
     r\<lparr>r_ended_at := Some (rr_at res), r_error := rr_error res,
       r_helm_revision := map_option nat (rr_revision res)\<rparr>"

definition record_power_outcome :: "reconcile_result \<Rightarrow> power_row \<Rightarrow> power_row" where
  "record_power_outcome res p = p\<lparr>pw_ended_at := Some (rr_at res), pw_error := rr_error res\<rparr>"

text \<open>The deployment's columns a reconcile writes, in one transaction with the rows it claimed.\<close>

definition record_deployment :: "claim \<Rightarrow> reconcile_result \<Rightarrow> deployment \<Rightarrow> deployment" where
  "record_deployment cl res d =
     d\<lparr>d_status := rr_status res, d_applied_template := rr_applied_template res, d_last_error := rr_error res,
       d_last_reconcile_at := Some (rr_at res),
       d_applied_power := (case cl_power cl of
          Some p \<Rightarrow> if rr_status res = DReady then Some (pw_id p) else d_applied_power d | None \<Rightarrow> d_applied_power d),
       d_desired_power := (case cl_power cl of
          Some _ \<Rightarrow> if rr_status res = DReady then d_desired_power d else d_applied_power d | None \<Rightarrow> d_desired_power d),
       d_applied_release := (case cl_release cl of
          Some r \<Rightarrow> if rr_status res = DReady then Some (r_id r) else d_applied_release d | None \<Rightarrow> d_applied_release d)\<rparr>"

definition record_outcome :: "uuid \<Rightarrow> claim \<Rightarrow> reconcile_result \<Rightarrow> db \<Rightarrow> db" where
  "record_outcome dep cl res s =
     (let s1 = (case cl_release cl of None \<Rightarrow> s
                | Some r \<Rightarrow> s\<lparr>db_rels := row_upd r_id (r_id r) (record_release_outcome res) (db_rels s)\<rparr>);
          s2 = (case cl_power cl of None \<Rightarrow> s1
                | Some p \<Rightarrow> s1\<lparr>db_powers := row_upd pw_id (pw_id p) (record_power_outcome res) (db_powers s1)\<rparr>)
      in s2\<lparr>db_deps := row_upd d_id dep (record_deployment cl res) (db_deps s2)\<rparr>)"

definition attemptA :: "'a act \<Rightarrow> 'a result act" where
  "attemptA m w = (case m w of (r, w') \<Rightarrow> (Inr r, w'))"

definition work_phase :: "outside \<Rightarrow> rec_env \<Rightarrow> deployment \<Rightarrow> claim \<Rightarrow> reconcile_result act" where
  "work_phase out ev d cl =
     (case cl_error cl of
        Some e \<Rightarrow> failA e
      | None \<Rightarrow>
          bindA (bindA (readA (\<lambda>s. validate_input_state s d)) liftA) (\<lambda>t.
            if d_deleted_at d \<noteq> None then reconcile_delete out ev d
            else (case cl_values cl of
                    None \<Rightarrow> failA (PyValueError ''AssertionError'')
                  | Some r \<Rightarrow> reconcile_apply out ev d r t)))"

definition reconcile :: "outside \<Rightarrow> rec_env \<Rightarrow> uuid \<Rightarrow> reconcile_result act" where
  "reconcile out ev dep =
     bindA (readA (\<lambda>s. get_dep s dep)) (\<lambda>d.
       (case d of
          None \<Rightarrow> failA (NotFoundErr ''Deployment not found'')
        | Some d \<Rightarrow>
            bindA (claim_phase out d) (\<lambda>cl.
            bindA (attemptA (work_phase out ev d cl)) (\<lambda>r.
            bindA (case r of Inr res \<Rightarrow> retA res | Inl e \<Rightarrow> failed_result out ev d cl e) (\<lambda>res.
            thenA (commitA (record_outcome dep cl res)) (retA res))))))"

section \<open>The order of a rollout\<close>

text \<open>
  The stages of a reconcile, read off a call: the namespace, its jail, what a rollout publishes, Helm, the
  sweep of a stopped release, the clean-up, and the failed release's output.
\<close>

definition doc_kind :: "json option \<Rightarrow> json option" where
  "doc_kind doc = Option.bind doc (jpath [''kind''])"

definition stage :: "call \<Rightarrow> nat" where
  "stage c =
     (case c of
        Command argv doc \<Rightarrow>
          if take 3 argv \<in> {[''kubectl'', ''get'', ''namespace''], [''kubectl'', ''create'', ''namespace'']} then 0
          else if take 2 argv = [''kubectl'', ''label''] \<or>
            take 3 argv \<in> {[''kubectl'', ''get'', ''networkpolicy''], [''kubectl'', ''delete'', ''networkpolicy'']} \<or>
            take 2 argv = [''kubectl'', ''apply''] \<and> doc_kind doc = Some (JStr ''NetworkPolicy'') then 1
          else if take 1 argv = [''helm''] then 3
          else if take 2 argv = [''kubectl'', ''scale''] \<or> take 3 argv = [''kubectl'', ''get'', ''deployments,statefulsets''] then 4
          else if take 3 argv = [''kubectl'', ''delete'', ''secret''] then 5
          else 2
      | LogTail _ _ _ \<Rightarrow> 6
      | _ \<Rightarrow> 2)"

abbreviation in_stage :: "nat \<Rightarrow> call \<Rightarrow> bool" where
  "in_stage n c \<equiv> stage c = n"

lemma policy_kind: "p \<in> set (tenant_network_policies st ns sys) \<Longrightarrow> doc_kind (Some p) = Some (JStr ''NetworkPolicy'')"
  by (auto simp: tenant_network_policies_def build_tenant_baseline_policy_def mailer_egress_policy_def policy_doc_def doc_kind_def
      split: if_splits)

lemma secret_kind [simp]: "doc_kind (Some (secret_doc a b c d e)) = Some (JStr ''Secret'')"
  by (simp add: secret_doc_def doc_kind_def)

lemma issues_namespace: "issues (in_stage 0) (ensure_namespace out name)"
  unfolding ensure_namespace_def namespace_exists_def
  by (intro issues_rules) (simp_all add: stage_def)

lemma issues_policies: "issues (in_stage 1) (ensure_tenant_network_policies out st ns labels sys)"
proof -
  have apply_one: "issues (in_stage 1) (apply_policy out ns p)" if "p \<in> set (tenant_network_policies st ns sys)" for p
    unfolding apply_policy_def apply_manifest_def using policy_kind[OF that]
    by (intro issues_rules) (simp_all add: stage_def)
  show ?thesis
    unfolding ensure_tenant_network_policies_def Let_def label_namespace_def list_object_names_def remove_policy_def delete_object_def
    by (intro issues_rules apply_one) (simp_all add: stage_def)
qed

lemma issues_secret: "issues (in_stage 2) (upsert_secret out ns n data labels ty)"
  unfolding upsert_secret_def apply_manifest_def by (intro issues_rules) (simp_all add: stage_def)

lemma issues_request: "issues (in_stage 2) (garage_request out m p b ps ok)"
  unfolding issues_def garage_request_def Let_def
  by (auto simp: stage_def split: sum.split prod.split option.split)

lemma issues_option: "(\<And>x. v = Some x \<Longrightarrow> issues P (f x)) \<Longrightarrow> issues P m \<Longrightarrow> issues P (case v of None \<Rightarrow> m | Some x \<Rightarrow> f x)"
  by (cases v) simp_all

lemma issues_prod: "(\<And>a b. issues P (f a b)) \<Longrightarrow> issues P (case x of (a, b) \<Rightarrow> f a b)"
  by (cases x) simp

lemma issues_garage:
  "issues (in_stage 2) (find_key out n)" "issues (in_stage 2) (create_key out n)" "issues (in_stage 2) (get_key_secret out i)"
  "issues (in_stage 2) (find_bucket out a)" "issues (in_stage 2) (create_bucket out a)" "issues (in_stage 2) (get_bucket out i)"
  "issues (in_stage 2) (allow_bucket_key out i k)" "issues (in_stage 2) (update_bucket out i q c l)" "issues (in_stage 2) (delete_key out i)"
  unfolding find_key_def create_key_def get_key_secret_def find_bucket_def create_bucket_def get_bucket_def allow_bucket_key_def
    update_bucket_def delete_key_def Let_def
  by (intro issues_rules issues_request issues_if; simp)+

lemma issues_storage: "issues (in_stage 2) (ensure_object_storage out st d)"
  unfolding ensure_object_storage_def ensure_key_def ensure_bucket_def
  by (intro issues_rules issues_garage issues_option issues_prod; simp)

lemma issues_evaluate: "issues (in_stage 2) (evaluate_quota_state out d notify)"
  unfolding evaluate_quota_state_def apply_quota_state_def warn_def notify_threshold_def database_size_bytes_def pg_as_role_def
    pg_execute_def terminate_backends_def Let_def
  by (intro issues_rules issues_option; simp add: stage_def)

lemma issues_database: "issues (in_stage 2) (ensure_database out st cr d)"
  unfolding ensure_database_def store_password_def ensure_role_def ensure_database_object_def revoke_public_access_def
    ensure_role_setting_def role_exists_def database_exists_def public_can_connect_def pg_as_role_def pg_execute_def pg_auto_def Let_def
  by (intro issues_rules issues_option issues_evaluate; simp add: stage_def)

lemma issues_publish:
  "issues (in_stage 2) (publish_storage out ev d)" "issues (in_stage 2) (publish_database out ev d)"
  "issues (in_stage 2) (publish_vars out ev d r)" "issues (in_stage 2) (publish_pull_secret out ev d)"
  "issues (in_stage 2) (publish_oidc out ev d t)"
  unfolding publish_storage_def publish_database_def publish_vars_def publish_pull_secret_def publish_oidc_def Let_def
  by (intro issues_rules issues_secret issues_storage issues_database issues_if; simp)+

lemma issues_helm: "issues (in_stage 3) (helm_upgrade_install out st a)"
  unfolding helm_upgrade_install_def helm_get_release_status_def
  by (intro issues_rules issues_option issues_prod; simp add: stage_def helm_command_def)

lemma issues_sweep: "issues (in_stage 4) (sweep_stopped_workloads out ns)"
proof -
  have "issues (in_stage 4) (scale_each out ns xs)" for xs
    by (induction xs) (auto simp: scale_one_def stage_def intro!: issues_rules)
  then show ?thesis
    unfolding sweep_stopped_workloads_def scale_running_workloads_to_zero_def
    by (intro issues_rules) (auto simp: stage_def split: json.split)
qed

lemma issues_cleanup:
  "issues (in_stage 5) (reap_vars_secrets out d keep)" "issues (in_stage 5) (remove_oidc_secret out d)"
  unfolding reap_vars_secrets_def remove_oidc_secret_def delete_secrets_by_label_def
  by (intro issues_rules; simp add: stage_def)+

lemma prepare_phases: "phases stage 0 2 (prepare out ev d r t)"
proof -
  have publish: "phases stage 2 2 (bindA (publish_storage out ev d) (\<lambda>storage.
     bindA (publish_database out ev d) (\<lambda>database.
     bindA (publish_vars out ev d r) (\<lambda>vars_secret.
     bindA (publish_pull_secret out ev d) (\<lambda>pull_secret.
     bindA (publish_oidc out ev d t) (\<lambda>oidc_secret.
       retA \<lparr>pb_storage = storage, pb_database = database, pb_vars = vars_secret, pb_pull = pull_secret, pb_oidc = oidc_secret\<rparr>))))))"
    by (rule phases_within) (intro issues_bind issues_publish; simp)
  show ?thesis
    unfolding prepare_def
    by (rule phases_bind[OF phases_within[OF issues_namespace], where c = 0])
      (auto intro!: phases_bind[where b = 0 and c = 1] phases_bind[OF phases_within[OF issues_policies] publish] simp: phases_widen)
qed

lemma roll_phases: "phases stage 3 4 (roll_forward out ev d r t pb)"
proof -
  have tail: "phases stage 4 4 (thenA (whenA b (thenA (sweep_stopped_workloads out ns) (retA ()))) (retA x))" for b ns and x :: helm_result
    by (rule phases_within) (intro issues_bind issues_when issues_sweep; simp)
  have helm: "phases stage 3 4 (bindA (helm_upgrade_install out st a) (\<lambda>outcome. thenA (whenA b (thenA (sweep_stopped_workloads out ns) (retA ()))) (retA outcome)))"
    for st a b ns
    by (rule phases_bind[OF phases_within[OF issues_helm] tail]) simp_all
  show ?thesis
    unfolding roll_forward_def
    by (intro phases_bind[where b = 3 and c = 3] helm; simp)
qed

lemma cleanup_phases:
  "phases stage 5 5 (thenA (reap_vars_secrets out d k) (thenA (whenA b (remove_oidc_secret out d)) (bindA (nowA out) f)))"
  if "\<And>now. issues (in_stage 5) (f now)" for f :: "time \<Rightarrow> 'b act"
  by (rule phases_within) (intro issues_bind issues_when issues_cleanup that; simp)

lemma apply_phases: "phases stage 0 5 (reconcile_apply out ev d r t)"
  unfolding reconcile_apply_def
  by (intro phases_bind[where b = 0 and c = 0] phases_bind[OF prepare_phases, where c = 3] phases_bind[OF roll_phases, where c = 5]
      cleanup_phases) simp_all

definition policy_call :: "json \<Rightarrow> call" where
  "policy_call p = Command [''kubectl'', ''apply'', ''-f'', file_arg] (Some p)"

lemma makes_policy:
  assumes "p \<in> set (tenant_network_policies st ns sys)"
  shows "makes out (policy_call p) (ensure_tenant_network_policies out st ns labels sys)"
  unfolding ensure_tenant_network_policies_def Let_def policy_call_def
proof (rule makes_later[OF _ makes_first])
  show "grows (label_namespace out ns (if labels = [] then tenant_namespace_labels else labels))"
    unfolding label_namespace_def by (intro issues_rules; simp)
  show "makes out (Command [''kubectl'', ''apply'', ''-f'', file_arg] (Some p)) (eachA (apply_policy out ns) (tenant_network_policies st ns sys))"
    by (rule makes_each[OF assms]) (auto simp: apply_policy_def apply_manifest_def intro!: makes_first makes_run_command issues_rules)
  show "grows (bindA (list_object_names out ''networkpolicy'' ns ''app.kubernetes.io/managed-by=caelus'') (\<lambda>names.
        eachA (remove_policy out ns (map policy_name (tenant_network_policies st ns sys))) names))"
    unfolding list_object_names_def remove_policy_def delete_object_def by (intro issues_rules; simp)
qed

lemma makes_jail:
  assumes "p \<in> set (tenant_network_policies (rv_settings ev) (d_namespace d) (t_system_values t))"
  shows "makes out (policy_call p) (prepare out ev d r t)"
  unfolding prepare_def
proof (intro makes_later[OF issues_grows[OF issues_namespace]] makes_later[OF issues_pure(4)] makes_first[OF makes_policy[OF assms]])
  show "grows (bindA (publish_storage out ev d) (\<lambda>storage.
     bindA (publish_database out ev d) (\<lambda>database.
     bindA (publish_vars out ev d r) (\<lambda>vars_secret.
     bindA (publish_pull_secret out ev d) (\<lambda>pull_secret.
     bindA (publish_oidc out ev d t) (\<lambda>oidc_secret.
       retA \<lparr>pb_storage = storage, pb_database = database, pb_vars = vars_secret, pb_pull = pull_secret, pb_oidc = oidc_secret\<rparr>))))))"
    by (intro issues_bind issues_grows[OF issues_publish(1)] issues_grows[OF issues_publish(2)] issues_grows[OF issues_publish(3)]
        issues_grows[OF issues_publish(4)] issues_grows[OF issues_publish(5)]) simp
qed

text \<open>A Helm upgrade: what it ran was \<open>helm_command\<close> with these values.\<close>

definition helm_call :: "settings \<Rightarrow> helm_args \<Rightarrow> call" where
  "helm_call st a = Command (helm_command st a) (Some (JObj (ha_values a)))"

lemma makes_helm: "makes out (helm_call st a) (helm_upgrade_install out st a)"
proof -
  have "grows (bindA (helm_get_release_status out (ha_release a) (ha_namespace a)) (\<lambda>(status, revision).
      retA \<lparr>hr_release = ha_release a, hr_namespace = ha_namespace a, hr_changed = True, hr_status = status, hr_revision = revision\<rparr>))"
    unfolding helm_get_release_status_def by (intro issues_rules issues_option issues_prod; simp)
  then have "makes out (helm_call st a) (thenA (run_command out (helm_command st a) (Some (JObj (ha_values a)))
      (''Failed to upgrade/install release '' @ ha_release a)) (bindA (helm_get_release_status out (ha_release a) (ha_namespace a)) (\<lambda>(status, revision).
      retA \<lparr>hr_release = ha_release a, hr_namespace = ha_namespace a, hr_changed = True, hr_status = status, hr_revision = revision\<rparr>)))"
    unfolding helm_call_def by (intro makes_first[OF makes_run_command])
  then show ?thesis
    unfolding helm_upgrade_install_def makes_def by (auto simp: act_simps)
qed

lemma roll_forward_helm:
  assumes "roll_forward out ev d r t pb w = (Inr x, w')"
  obtains cs vs b where "w_calls w' = w_calls w @ cs" "build_merged_values (rv_jsv ev) (rv_settings ev) (w_db w) d t r pb = Inr vs"
    "succeeded out (w_calls w) cs (helm_call (rv_settings ev) (rollout_args (rv_settings ev) d t vs b))"
    "b = wants_stopped (w_db w) d"
proof -
  from assms obtain vs where vs: "build_merged_values (rv_jsv ev) (rv_settings ev) (w_db w) d t r pb = Inr vs"
      "bindA (helm_upgrade_install out (rv_settings ev) (rollout_args (rv_settings ev) d t vs (wants_stopped (w_db w) d))) (\<lambda>outcome.
         thenA (whenA (wants_stopped (w_db w) d) (thenA (sweep_stopped_workloads out (d_namespace d)) (retA ()))) (retA outcome)) w = (Inr x, w')"
    by (auto simp: roll_forward_def bindA_def act_simps split: sum.splits)
  have "grows (thenA (whenA b (thenA (sweep_stopped_workloads out (d_namespace d)) (retA ()))) (retA y))" for b and y :: helm_result
    by (intro issues_bind issues_when issues_grows[OF issues_sweep]; simp)
  then have "makes out (helm_call (rv_settings ev) (rollout_args (rv_settings ev) d t vs (wants_stopped (w_db w) d)))
      (bindA (helm_upgrade_install out (rv_settings ev) (rollout_args (rv_settings ev) d t vs (wants_stopped (w_db w) d))) (\<lambda>outcome.
         thenA (whenA (wants_stopped (w_db w) d) (thenA (sweep_stopped_workloads out (d_namespace d)) (retA ()))) (retA outcome)))"
    by (intro makes_first[OF makes_helm])
  with vs(2) obtain cs where "w_calls w' = w_calls w @ cs"
      "succeeded out (w_calls w) cs (helm_call (rv_settings ev) (rollout_args (rv_settings ev) d t vs (wants_stopped (w_db w) d)))"
    unfolding makes_def by blast
  with vs(1) show ?thesis by (intro that[of cs vs "wants_stopped (w_db w) d"] refl)
qed

lemma helm_stage: "stage (helm_call st a) = 3"
  by (simp add: helm_call_def helm_command_def stage_def)

text \<open>What a rollout has done by the time it makes a call of a later stage.\<close>

definition rollout_order :: "outside \<Rightarrow> rec_env \<Rightarrow> deployment \<Rightarrow> template \<Rightarrow> call list \<Rightarrow> call list \<Rightarrow> bool" where
  "rollout_order out ev d t base cs \<longleftrightarrow>
     sorted (map stage cs) \<and>
     ((\<exists>c \<in> set cs. stage c \<in> {3, 4, 5}) \<longrightarrow>
        (\<forall>p \<in> set (tenant_network_policies (rv_settings ev) (d_namespace d) (t_system_values t)). succeeded out base cs (policy_call p))) \<and>
     ((\<exists>c \<in> set cs. stage c = 5) \<longrightarrow>
        (\<exists>vs b. succeeded out base cs (helm_call (rv_settings ev) (rollout_args (rv_settings ev) d t vs b))))"

lemma phasesE:
  assumes "phases st lo hi m" "m w = (r, w')"
  obtains cs where "w_calls w' = w_calls w @ cs" "sorted (map st cs)" "\<forall>c \<in> set cs. lo \<le> st c \<and> st c \<le> hi"
  using assms unfolding phases_def by (metis snd_conv)

lemma apply_order:
  assumes ok: "reconcile_apply out ev d r t w = (x, w')"
  obtains cs where "w_calls w' = w_calls w @ cs" "\<forall>c \<in> set cs. stage c \<le> 5" "rollout_order out ev d t (w_calls w) cs"
proof -
  obtain cs where cs: "w_calls w' = w_calls w @ cs" "sorted (map stage cs)" "\<forall>c \<in> set cs. 0 \<le> stage c \<and> stage c \<le> 5"
    using apply_phases ok by (rule phasesE)
  let ?tail = "\<lambda>pb outcome. thenA (reap_vars_secrets out d (pb_vars pb)) (thenA (whenA (pb_oidc pb = None) (remove_oidc_secret out d))
      (bindA (nowA out) (\<lambda>now. retA \<lparr>rr_status = DReady, rr_applied_template = Some (d_desired_template d), rr_error = None, rr_at = now,
             rr_revision = hr_revision outcome\<rparr>)))"
  show ?thesis
  proof (cases "validate_user_values (rv_jsv ev) (d_values d) (t_schema t)")
    case (Inl e)
    with ok have "w' = w" by (auto simp: reconcile_apply_def bindA_def act_simps)
    then show ?thesis by (intro that[of "[]"]) (simp_all add: rollout_order_def)
  next
    case (Inr u)
    with ok have ok: "bindA (prepare out ev d r t) (\<lambda>pb. bindA (roll_forward out ev d r t pb) (?tail pb)) w = (x, w')"
      by (simp add: reconcile_apply_def bindA_def act_simps)
    obtain p w1 where p: "prepare out ev d r t w = (p, w1)" by (cases "prepare out ev d r t w")
    obtain c1 where c1: "w_calls w1 = w_calls w @ c1" "\<forall>c \<in> set c1. 0 \<le> stage c \<and> stage c \<le> 2"
      using prepare_phases p by (rule phasesE)
    show ?thesis
    proof (cases p)
      case (Inl e)
      with ok p have "w' = w1" by (auto simp: bindA_def)
      with c1 cs have "\<forall>c \<in> set cs. stage c \<le> 2" by auto
      with cs show ?thesis by (intro that[of cs]) (auto simp: rollout_order_def)
    next
      case (Inr pb)
      have jail: "succeeded out (w_calls w) c1 (policy_call q)"
        if "q \<in> set (tenant_network_policies (rv_settings ev) (d_namespace d) (t_system_values t))" for q
        using makes_jail[OF that, of out r] p Inr c1(1) unfolding makes_def by (metis same_append_eq)
      from ok p Inr have ok: "bindA (roll_forward out ev d r t pb) (?tail pb) w1 = (x, w')" by (simp add: bindA_def)
      obtain q w2 where q: "roll_forward out ev d r t pb w1 = (q, w2)" by (cases "roll_forward out ev d r t pb w1")
      obtain c2 where c2: "w_calls w2 = w_calls w1 @ c2" "\<forall>c \<in> set c2. 3 \<le> stage c \<and> stage c \<le> 4"
        using roll_phases q by (rule phasesE)
      show ?thesis
      proof (cases q)
        case (Inl e)
        with ok q have "w' = w2" by (auto simp: bindA_def)
        with c1 c2 cs(1) have "cs = c1 @ c2" by simp
        with c1(2) c2(2) jail cs show ?thesis
          by (intro that[of cs]) (fastforce simp: rollout_order_def succeeded_append)+
      next
        case (Inr o1)
        from ok q Inr have tail: "?tail pb o1 w2 = (x, w')" by (simp add: bindA_def)
        have "issues (in_stage 5) (?tail pb o1)" by (intro issues_bind issues_when issues_cleanup; simp)
        then obtain c3 where c3: "w_calls w' = w_calls w2 @ c3" using tail by (rule growsE)
        from q Inr obtain c2' vs b where "w_calls w2 = w_calls w1 @ c2'"
            "succeeded out (w_calls w1) c2' (helm_call (rv_settings ev) (rollout_args (rv_settings ev) d t vs b))"
          by (metis roll_forward_helm)
        with c2(1) have h: "succeeded out (w_calls w1) c2 (helm_call (rv_settings ev) (rollout_args (rv_settings ev) d t vs b))" by simp
        have all: "cs = c1 @ c2 @ c3" using c1(1) c2(1) c3 cs(1) by simp
        have "succeeded out (w_calls w) cs (helm_call (rv_settings ev) (rollout_args (rv_settings ev) d t vs b))"
          unfolding all using succeeded_prepend[of out "w_calls w" c1] succeeded_append[OF h, of c3] c1(1) by simp
        with all jail cs show ?thesis
          by (intro that[of cs]) (auto simp: rollout_order_def succeeded_append)
      qed
    qed
  qed
qed

section \<open>The tables a reconcile leaves alone\<close>

text \<open>Between its claim and its outcome, a reconcile writes no table but the tenant databases'.\<close>

definition same_tables :: "db \<Rightarrow> db \<Rightarrow> bool" where
  "same_tables s0 s \<longleftrightarrow> s = s0\<lparr>db_databases := db_databases s\<rparr>"

abbreviation quiet :: "db \<Rightarrow> 'a act \<Rightarrow> bool" where
  "quiet s0 m \<equiv> stable (\<lambda>w. same_tables s0 (w_db w)) m"

lemma same_tables_databases: "same_tables s0 s \<Longrightarrow> same_tables s0 (s\<lparr>db_databases := rows\<rparr>)"
  unfolding same_tables_def by (metis db.update_convs(13) db.ext_inject db.surjective db.select_convs(13))

lemma quiet_commit: "(\<And>s. same_tables s0 s \<Longrightarrow> same_tables s0 (f s)) \<Longrightarrow> quiet s0 (commitA f)"
  by (rule stable_commit) simp

lemma quiet_keeps: "keeps_db m \<Longrightarrow> quiet s0 m"
  by (rule stable_keeps)

lemma stable_option: "(\<And>x. stable I (f x)) \<Longrightarrow> stable I m \<Longrightarrow> stable I (case v of None \<Rightarrow> m | Some x \<Rightarrow> f x)"
  by (cases v) simp_all

lemma keeps_option: "(\<And>x. keeps_db (f x)) \<Longrightarrow> keeps_db m \<Longrightarrow> keeps_db (case v of None \<Rightarrow> m | Some x \<Rightarrow> f x)"
  by (cases v) simp_all

lemma keeps_prod: "(\<And>a b. keeps_db (f a b)) \<Longrightarrow> keeps_db (case x of (a, b) \<Rightarrow> f a b)"
  by (cases x) simp

lemma keeps_request [simp]: "keeps_db (garage_request out m p b ps ok)"
  unfolding keeps_db_def garage_request_def Let_def by (auto split: sum.split prod.split option.split)

lemma keeps_garage [simp]:
  "keeps_db (find_key out n)" "keeps_db (create_key out n)" "keeps_db (get_key_secret out i)" "keeps_db (find_bucket out a)"
  "keeps_db (create_bucket out a)" "keeps_db (get_bucket out i)" "keeps_db (allow_bucket_key out i k)"
  "keeps_db (update_bucket out i q c l)" "keeps_db (delete_key out i)"
  unfolding find_key_def create_key_def get_key_secret_def find_bucket_def create_bucket_def get_bucket_def allow_bucket_key_def
    update_bucket_def delete_key_def Let_def
  by (intro keeps_db_rules keeps_request; simp)+

lemma keeps_storage [simp]: "keeps_db (ensure_object_storage out st d)" "keeps_db (teardown_object_storage out st d)"
  unfolding ensure_object_storage_def ensure_key_def ensure_bucket_def teardown_object_storage_def
  by (intro keeps_db_rules keeps_option keeps_prod; simp)+

lemma keeps_kube [simp]:
  "keeps_db (ensure_namespace out n)" "keeps_db (delete_namespace out n)" "keeps_db (ensure_tenant_network_policies out st n l sys)"
  "keeps_db (upsert_secret out n a b c e)" "keeps_db (delete_secrets_by_label out n sel ex)"
  unfolding ensure_namespace_def namespace_exists_def delete_namespace_def ensure_tenant_network_policies_def label_namespace_def
    list_object_names_def remove_policy_def delete_object_def apply_policy_def apply_manifest_def upsert_secret_def
    delete_secrets_by_label_def Let_def
  by (intro keeps_db_rules; simp)+

lemma keeps_sweep [simp]: "keeps_db (sweep_stopped_workloads out ns)"
proof -
  have "keeps_db (scale_each out ns xs)" for xs
    by (induction xs) (auto simp: scale_one_def intro!: keeps_db_rules)
  then show ?thesis
    unfolding sweep_stopped_workloads_def scale_running_workloads_to_zero_def
    by (intro keeps_db_rules) (auto split: json.split)
qed

lemma keeps_helm [simp]: "keeps_db (helm_upgrade_install out st a)" "keeps_db (helm_uninstall out r n tm wt)"
  unfolding helm_upgrade_install_def helm_get_release_status_def helm_uninstall_def
  by (intro keeps_db_rules keeps_option keeps_prod; simp)+

lemma quiet_evaluate: "quiet s0 (evaluate_quota_state out d notify)"
proof -
  have "quiet s0 (warn out d sz al nt now r)" "quiet s0 (apply_quota_state out r q)" for sz al nt now r q
    by (intro quiet_keeps warn_keeps apply_quota_state_keeps)+
  then show ?thesis
    unfolding evaluate_quota_state_def database_size_bytes_def Let_def
    by (intro stable_rules stable_option quiet_commit; simp add: quiet_keeps put_database_def same_tables_databases)
qed

lemma quiet_database: "quiet s0 (ensure_database out st cr d)" "quiet s0 (teardown_database out st d)"
  unfolding ensure_database_def store_password_def ensure_role_def ensure_database_object_def revoke_public_access_def
    ensure_role_setting_def teardown_database_def role_exists_def database_exists_def public_can_connect_def pg_as_role_def
    pg_execute_def pg_auto_def terminate_backends_def Let_def
  by (intro stable_rules stable_option quiet_evaluate quiet_commit;
      simp add: quiet_keeps put_database_def same_tables_databases)+

lemma quiet_work: "quiet s0 (work_phase out ev d cl)"
proof -
  have "quiet s0 (reconcile_apply out ev d r t)" for r t
    unfolding reconcile_apply_def prepare_def publish_storage_def publish_database_def publish_vars_def publish_pull_secret_def
      publish_oidc_def roll_forward_def reap_vars_secrets_def remove_oidc_secret_def Let_def
    by (intro stable_rules stable_option quiet_database; simp add: quiet_keeps)
  moreover have "quiet s0 (reconcile_delete out ev d)"
    unfolding reconcile_delete_def by (intro stable_rules quiet_database; simp add: quiet_keeps)
  ultimately show ?thesis
    unfolding work_phase_def by (intro stable_rules stable_option; simp)
qed

section \<open>What a claim settles\<close>

text \<open>A claim writes start times, of releases and power rows only.\<close>

definition only_starts :: "db \<Rightarrow> db \<Rightarrow> bool" where
  "only_starts s s' \<longleftrightarrow> (\<exists>rels powers. s' = s\<lparr>db_rels := rels, db_powers := powers\<rparr> \<and>
     map (\<lambda>r. r\<lparr>r_started_at := None\<rparr>) rels = map (\<lambda>r. r\<lparr>r_started_at := None\<rparr>) (db_rels s) \<and>
     map (\<lambda>p. p\<lparr>pw_started_at := None\<rparr>) powers = map (\<lambda>p. p\<lparr>pw_started_at := None\<rparr>) (db_powers s))"

lemma only_starts_refl: "only_starts s s"
  unfolding only_starts_def by (intro exI[of _ "db_rels s"] exI[of _ "db_powers s"]) simp

lemma only_starts_rels:
  "map (\<lambda>r. r\<lparr>r_started_at := None\<rparr>) rels = map (\<lambda>r. r\<lparr>r_started_at := None\<rparr>) (db_rels s) \<Longrightarrow> only_starts s (s\<lparr>db_rels := rels\<rparr>)"
  unfolding only_starts_def by (intro exI[of _ rels] exI[of _ "db_powers s"]) simp

lemma only_starts_powers:
  "map (\<lambda>p. p\<lparr>pw_started_at := None\<rparr>) powers = map (\<lambda>p. p\<lparr>pw_started_at := None\<rparr>) (db_powers s) \<Longrightarrow> only_starts s (s\<lparr>db_powers := powers\<rparr>)"
  unfolding only_starts_def by (intro exI[of _ "db_rels s"] exI[of _ powers]) simp

definition claim_of :: "db \<Rightarrow> deployment \<Rightarrow> claim \<Rightarrow> bool" where
  "claim_of s d cl \<longleftrightarrow>
     (if d_deleted_at d \<noteq> None then cl = no_claim
      else if cl_error cl = None
      then get_rel s (d_desired_release d) \<noteq> None \<and> (cl_power cl \<noteq> None \<longrightarrow> via (get_power s) (d_desired_power d) \<noteq> None) \<and>
           (\<exists>r. cl_values cl = Some r \<and> r_id r = d_desired_release d) \<and>
           cl_release cl = (if d_applied_release d = Some (d_desired_release d) then None else cl_values cl) \<and>
           map_option pw_id (cl_power cl) = (if d_desired_power d = d_applied_power d then None else d_desired_power d)
      else (get_rel s (d_desired_release d) = None \<or> via (get_power s) (d_desired_power d) = None) \<and>
           cl_power cl = None \<and> (\<forall>r. cl_release cl = Some r \<longrightarrow> r_id r = d_desired_release d))"

lemma row_upd_started:
  assumes "row_get key (key r) rs = Some r" "keyed key rs" "f r' = f r"
  shows "map f (row_upd key (key r) (\<lambda>_. r') rs) = map f rs"
proof -
  have "q = r" if "q \<in> set rs" "key q = key r" for q
    using assms(1,2) that by (metis keyed_unique row_get_SomeD)
  with assms(3) show ?thesis by (auto simp: row_upd_def)
qed

lemma claim_release_run:
  assumes "claim_release out r w = (x, w')" "keyed r_id (db_rels (w_db w))" "get_rel (w_db w) (r_id r) = Some r"
  obtains r' where "x = Inr r'" "r_id r' = r_id r" "w_calls w' = w_calls w" "only_starts (w_db w) (w_db w')"
    "r_started_at r' \<noteq> None"
proof (cases "r_started_at r")
  case None
  with assms(1) have w: "x = Inr (r\<lparr>r_started_at := Some (o_now out (w_calls w))\<rparr>)"
      "w' = w\<lparr>w_db := put_release (r\<lparr>r_started_at := Some (o_now out (w_calls w))\<rparr>) (w_db w)\<rparr>"
    by (auto simp: claim_release_def bindA_def act_simps Let_def)
  have "map (\<lambda>r. r\<lparr>r_started_at := None\<rparr>) (row_upd r_id (r_id r) (\<lambda>_. r\<lparr>r_started_at := Some (o_now out (w_calls w))\<rparr>) (db_rels (w_db w))) =
      map (\<lambda>r. r\<lparr>r_started_at := None\<rparr>) (db_rels (w_db w))"
    by (rule row_upd_started[OF assms(3,2)]) simp
  with w show ?thesis
    by (intro that[of "r\<lparr>r_started_at := Some (o_now out (w_calls w))\<rparr>"]) (simp_all add: only_starts_rels put_release_def)
next
  case (Some t)
  with assms(1) that[of r] show ?thesis by (auto simp: claim_release_def act_simps only_starts_refl)
qed

lemma claim_power_run:
  assumes "claim_power out p w = (x, w')" "keyed pw_id (db_powers (w_db w))" "get_power (w_db w) (pw_id p) = Some p"
  obtains p' where "x = Inr p'" "pw_id p' = pw_id p" "w_calls w' = w_calls w" "only_starts (w_db w) (w_db w')"
proof (cases "pw_started_at p")
  case None
  with assms(1) have w: "x = Inr (p\<lparr>pw_started_at := Some (o_now out (w_calls w))\<rparr>)"
      "w' = w\<lparr>w_db := put_power (p\<lparr>pw_started_at := Some (o_now out (w_calls w))\<rparr>) (w_db w)\<rparr>"
    by (auto simp: claim_power_def bindA_def act_simps Let_def)
  have "map (\<lambda>p. p\<lparr>pw_started_at := None\<rparr>) (row_upd pw_id (pw_id p) (\<lambda>_. p\<lparr>pw_started_at := Some (o_now out (w_calls w))\<rparr>) (db_powers (w_db w))) =
      map (\<lambda>p. p\<lparr>pw_started_at := None\<rparr>) (db_powers (w_db w))"
    by (rule row_upd_started[OF assms(3,2)]) simp
  with w show ?thesis
    by (intro that[of "p\<lparr>pw_started_at := Some (o_now out (w_calls w))\<rparr>"]) (simp_all add: only_starts_powers put_power_def)
next
  case (Some t)
  with assms(1) that[of p] show ?thesis by (auto simp: claim_power_def act_simps only_starts_refl)
qed

lemma only_starts_trans: "only_starts s t \<Longrightarrow> only_starts t u \<Longrightarrow> only_starts s u"
  unfolding only_starts_def by force

lemma only_starts_tables: "only_starts s s' \<Longrightarrow> db_deps s' = db_deps s \<and> db_templates s' = db_templates s"
  by (auto simp: only_starts_def)

lemma row_get_self: "row_get key k rs = Some r \<Longrightarrow> row_get key (key r) rs = Some r"
  using row_get_key by fastforce

lemma starts_keyed: "only_starts s s' \<Longrightarrow> map pw_id (db_powers s') = map pw_id (db_powers s)"
proof -
  assume "only_starts s s'"
  then have "map (\<lambda>p. p\<lparr>pw_started_at := None\<rparr>) (db_powers s') = map (\<lambda>p. p\<lparr>pw_started_at := None\<rparr>) (db_powers s)"
    by (auto simp: only_starts_def)
  from arg_cong[OF this, of "map pw_id"] show ?thesis by (simp add: o_def)
qed

lemma claim_desired_power_run:
  assumes "claim_desired_power out d cl w = (x, w')" "keyed pw_id (db_powers (w_db w))" "cl_power cl = None" "cl_error cl = None"
  obtains cl' where "x = Inr cl'" "w_calls w' = w_calls w" "only_starts (w_db w) (w_db w')"
    "cl_values cl' = cl_values cl" "cl_release cl' = cl_release cl"
    "if cl_error cl' = None
     then map_option pw_id (cl_power cl') = (if d_desired_power d = d_applied_power d then None else d_desired_power d) \<and>
       (cl_power cl' \<noteq> None \<longrightarrow> via (get_power (w_db w)) (d_desired_power d) \<noteq> None)
     else cl_power cl' = None \<and> via (get_power (w_db w)) (d_desired_power d) = None"
proof (cases "d_desired_power d = None \<or> d_applied_power d = d_desired_power d")
  case True
  with assms have "x = Inr cl" "w' = w"
    by (auto simp: claim_desired_power_def act_simps split: option.splits)
  with True assms show ?thesis by (intro that[of cl]) (auto simp: only_starts_refl)
next
  case False
  then obtain i where i: "d_desired_power d = Some i" "d_applied_power d \<noteq> Some i" by auto
  show ?thesis
  proof (cases "get_power (w_db w) i")
    case None
    with assms i show ?thesis
      by (intro that[of "cl\<lparr>cl_error := Some (IntegrityErr ''Deployment's desired power is missing'')\<rparr>"])
        (auto simp: claim_desired_power_def bindA_def act_simps only_starts_refl via_def)
  next
    case (Some p)
    obtain y w1 where c: "claim_power out p w = (y, w1)" by (cases "claim_power out p w")
    from claim_power_run[OF c assms(2) row_get_self[OF Some]] obtain p' where p':
        "y = Inr p'" "pw_id p' = pw_id p" "w_calls w1 = w_calls w" "only_starts (w_db w) (w_db w1)" by metis
    have "x = Inr (cl\<lparr>cl_power := Some p'\<rparr>)" "w' = w1"
      using assms(1) i Some c p'(1) by (auto simp: claim_desired_power_def bindA_def act_simps)
    moreover have "pw_id p = i" using Some by (rule row_get_key)
    ultimately show ?thesis
      using p' i assms Some by (intro that[of "cl\<lparr>cl_power := Some p'\<rparr>"]) (auto simp: via_def)
  qed
qed

lemma claim_phase_run:
  assumes "claim_phase out d w = (x, w')" "keyed r_id (db_rels (w_db w))" "keyed pw_id (db_powers (w_db w))"
  obtains cl where "x = Inr cl" "w_calls w' = w_calls w" "only_starts (w_db w) (w_db w')" "claim_of (w_db w) d cl"
proof (cases "d_deleted_at d")
  case (Some t)
  with assms(1) that[of no_claim] show ?thesis by (auto simp: claim_phase_def act_simps only_starts_refl claim_of_def)
next
  case live: None
  show ?thesis
  proof (cases "get_rel (w_db w) (d_desired_release d)")
    case None
    with assms(1) live show ?thesis
      by (intro that[of "no_claim\<lparr>cl_error := Some (IntegrityErr ''Deployment's desired release is missing'')\<rparr>"])
        (auto simp: claim_phase_def bindA_def act_simps only_starts_refl claim_of_def no_claim_def)
  next
    case (Some r)
    have r: "r_id r = d_desired_release d" using Some by (rule row_get_key)
    let ?m = "if d_applied_release d \<noteq> Some (r_id r)
        then bindA (claim_release out r) (\<lambda>r'. retA (no_claim\<lparr>cl_values := Some r', cl_release := Some r'\<rparr>))
        else retA (no_claim\<lparr>cl_values := Some r\<rparr>)"
    obtain y w1 where m: "?m w = (y, w1)" by (cases "?m w")
    obtain cl1 r' where c1: "y = Inr cl1" "r_id r' = r_id r" "w_calls w1 = w_calls w" "only_starts (w_db w) (w_db w1)"
        "cl1 = no_claim\<lparr>cl_values := Some r', cl_release := (if d_applied_release d = Some (r_id r) then None else Some r')\<rparr>"
    proof (cases "d_applied_release d = Some (r_id r)")
      case True
      with m have "y = Inr (no_claim\<lparr>cl_values := Some r\<rparr>)" "w1 = w" by (simp_all add: act_simps)
      with True show ?thesis by (intro that[of "no_claim\<lparr>cl_values := Some r\<rparr>" r]) (simp_all add: only_starts_refl no_claim_def)
    next
      case False
      obtain z w2 where z: "claim_release out r w = (z, w2)" by (cases "claim_release out r w")
      from claim_release_run[OF z assms(2) row_get_self[OF Some]] obtain r' where r': "z = Inr r'" "r_id r' = r_id r"
          "w_calls w2 = w_calls w" "only_starts (w_db w) (w_db w2)" by metis
      from m z r'(1) False have "y = Inr (no_claim\<lparr>cl_values := Some r', cl_release := Some r'\<rparr>)" "w1 = w2"
        by (simp_all add: bindA_def act_simps)
      with r' False show ?thesis by (intro that[of "no_claim\<lparr>cl_values := Some r', cl_release := Some r'\<rparr>" r']) simp_all
    qed
    have k: "keyed pw_id (db_powers (w_db w1))" using starts_keyed[OF c1(4)] assms(3) by simp
    have "claim_desired_power out d cl1 w1 = (x, w')"
      using assms(1) live Some m c1(1) by (simp add: claim_phase_def bindA_def act_simps)
    moreover have "cl_power cl1 = None" "cl_error cl1 = None" by (simp_all add: c1(5) no_claim_def)
    ultimately obtain cl where cl: "x = Inr cl" "w_calls w' = w_calls w1" "only_starts (w_db w1) (w_db w')"
        "cl_values cl = cl_values cl1" "cl_release cl = cl_release cl1"
        "if cl_error cl = None
         then map_option pw_id (cl_power cl) = (if d_desired_power d = d_applied_power d then None else d_desired_power d) \<and>
           (cl_power cl \<noteq> None \<longrightarrow> via (get_power (w_db w1)) (d_desired_power d) \<noteq> None)
         else cl_power cl = None \<and> via (get_power (w_db w1)) (d_desired_power d) = None"
      using k by (metis claim_desired_power_run)
    have ids: "pw_id ` set (db_powers (w_db w1)) = pw_id ` set (db_powers (w_db w))"
      using arg_cong[OF starts_keyed[OF c1(4)], of set] by simp
    have there: "via (get_power (w_db w1)) k = None \<longleftrightarrow> via (get_power (w_db w)) k = None" for k
      by (cases k) (simp_all add: via_def row_get_None_iff ids)
    show ?thesis
    proof (rule that[of cl])
      show "claim_of (w_db w) d cl"
        using cl(4-6) c1(2,5) r live Some unfolding there by (auto simp: claim_of_def split: if_splits)
    qed (use cl c1 only_starts_trans in auto)
  qed
qed

section \<open>The outcome of a reconcile\<close>

definition outcome_of :: "deployment \<Rightarrow> reconcile_result \<Rightarrow> bool" where
  "outcome_of d res \<longleftrightarrow> rr_error res = None \<and>
     (if d_deleted_at d = None then rr_status res = DReady \<and> rr_applied_template res = Some (d_desired_template d)
      else rr_status res = DDeleted \<and> rr_applied_template res = d_applied_template d)"

lemma yields_work: "yields (outcome_of d) (work_phase out ev d cl)"
proof -
  have "yields (outcome_of d) (reconcile_apply out ev d r t)" if "d_deleted_at d = None" for r t
    unfolding reconcile_apply_def using that by (intro yields_bind) (simp add: outcome_of_def)
  moreover have "yields (outcome_of d) (reconcile_delete out ev d)" if "d_deleted_at d \<noteq> None"
    unfolding reconcile_delete_def using that by (intro yields_bind) (simp add: outcome_of_def)
  ultimately show ?thesis
    unfolding work_phase_def by (auto split: option.split intro!: yields_bind)
qed

lemma issues_tail: "issues (in_stage 6) (release_tail out st d r s)"
  unfolding release_tail_def by (rule issues_ask) (simp add: stage_def)

lemma failed_result_run:
  obtains res cs w' where "failed_result out ev d cl e w = (Inr res, w')" "rr_status res = DError" "rr_error res \<noteq> None"
    "rr_applied_template res = d_applied_template d" "w_db w' = w_db w" "w_calls w' = w_calls w @ cs" "\<forall>c \<in> set cs. stage c = 6"
proof -
  have tail: "\<exists>m cs w'. with_release_output out st msg d r s w = (Inr m, w') \<and> w_db w' = w_db w \<and> w_calls w' = w_calls w @ cs \<and>
      (\<forall>c \<in> set cs. stage c = 6)" for st msg r s
    by (auto simp: with_release_output_def catchA_def bindA_def act_simps release_tail_def askA_def stage_def split: sum.split)
  have "\<exists>res cs w'. failed_result out ev d cl e w = (Inr res, w') \<and> rr_status res = DError \<and> rr_error res \<noteq> None \<and>
    rr_applied_template res = d_applied_template d \<and> w_db w' = w_db w \<and> w_calls w' = w_calls w @ cs \<and> (\<forall>c \<in> set cs. stage c = 6)"
  proof (cases "cl_values cl"; cases "started_of cl")
    fix r s assume c: "cl_values cl = Some r" "started_of cl = Some s"
    obtain m cs w' where "with_release_output out (rv_settings ev) (err_text e) d r s w = (Inr m, w')" "w_db w' = w_db w"
        "w_calls w' = w_calls w @ cs" "\<forall>c \<in> set cs. stage c = 6"
      using tail by metis
    with c show ?thesis by (auto simp: failed_result_def bindA_def act_simps)
  qed (auto simp: failed_result_def bindA_def act_simps)
  with that show ?thesis by blast
qed

lemma phases_grows: "phases st lo hi m \<Longrightarrow> grows m"
  unfolding phases_def issues_def by blast

lemma grows_work: "grows (work_phase out ev d cl)"
proof -
  have "grows (teardown_object_storage out st d)" for st
    unfolding teardown_object_storage_def
    by (intro issues_bind issues_option issues_grows[OF issues_garage(1)] issues_grows[OF issues_garage(4)]
        issues_grows[OF issues_garage(8)] issues_grows[OF issues_garage(9)]; simp)
  moreover have "grows (teardown_database out st d)" for st
    unfolding teardown_database_def role_exists_def pg_execute_def terminate_backends_def
    by (intro issues_rules issues_option; simp)
  moreover have "grows (helm_uninstall out n ns tm b)" "grows (delete_namespace out ns)" for n ns tm b
    unfolding helm_uninstall_def delete_namespace_def by (intro issues_rules; simp)+
  ultimately have "grows (reconcile_delete out ev d)"
    unfolding reconcile_delete_def by (intro issues_rules; simp)
  then show ?thesis
    unfolding work_phase_def
    by (intro issues_bind issues_option issues_if phases_grows[OF apply_phases]; simp)
qed

text \<open>A reconcile of an existing deployment, in its three parts.\<close>

lemma reconcile_run:
  assumes d: "get_dep (w_db w) dep = Some d" and keys: "keyed r_id (db_rels (w_db w))" "keyed pw_id (db_powers (w_db w))"
  obtains cl res w1 w2 cs r where
    "reconcile out ev dep w = (Inr res, w2\<lparr>w_db := record_outcome dep cl res (w_db w2)\<rparr>)"
    "claim_of (w_db w) d cl" "only_starts (w_db w) (w_db w1)" "w_calls w1 = w_calls w"
    "same_tables (w_db w1) (w_db w2)"
    "work_phase out ev d cl w1 = (r, w2\<lparr>w_calls := w_calls w @ cs\<rparr>)"
    "\<exists>ds. w_calls w2 = w_calls w @ cs @ ds \<and> (\<forall>c \<in> set ds. stage c = 6)"
    "(\<exists>e. r = Inl e \<and> rr_status res = DError \<and> rr_error res \<noteq> None \<and> rr_applied_template res = d_applied_template d) \<or>
     (r = Inr res \<and> outcome_of d res \<and> cl_error cl = None)"
proof -
  obtain x w1 where c: "claim_phase out d w = (x, w1)" by (cases "claim_phase out d w")
  from claim_phase_run[OF this keys] obtain cl where cl: "x = Inr cl" "w_calls w1 = w_calls w" "only_starts (w_db w) (w_db w1)"
      "claim_of (w_db w) d cl" by metis
  obtain r w3 where r: "work_phase out ev d cl w1 = (r, w3)" by (cases "work_phase out ev d cl w1")
  have s: "same_tables (w_db w1) (w_db w3)" by (rule stableD[OF quiet_work _ r]) (simp add: same_tables_def)
  obtain cs where cs: "w_calls w3 = w_calls w @ cs" using growsE[OF grows_work r] cl(2) by metis
  show ?thesis
  proof (cases r)
    case (Inr res)
    have "outcome_of d res" using yieldsD[OF yields_work] r Inr by blast
    moreover have "cl_error cl = None" using r Inr by (auto simp: work_phase_def act_simps split: option.splits)
    moreover have "reconcile out ev dep w = (Inr res, w3\<lparr>w_db := record_outcome dep cl res (w_db w3)\<rparr>)"
      using d c cl(1) r Inr by (simp add: reconcile_def bindA_def act_simps attemptA_def)
    moreover have "w3 = w3\<lparr>w_calls := w_calls w @ cs\<rparr>" using cs by simp
    moreover have "\<exists>ds. w_calls w3 = w_calls w @ cs @ ds \<and> (\<forall>c \<in> set ds. stage c = 6)" using cs by simp
    ultimately show ?thesis using cl(2-4) s r Inr
      by (intro that[where cl = cl and res = res and ?w1.0 = w1 and ?w2.0 = w3 and cs = cs and r = r]) simp_all
  next
    case (Inl e)
    obtain res ds w' where f: "failed_result out ev d cl e w3 = (Inr res, w')" "rr_status res = DError" "rr_error res \<noteq> None"
      "rr_applied_template res = d_applied_template d" "w_db w' = w_db w3" "w_calls w' = w_calls w3 @ ds" "\<forall>c \<in> set ds. stage c = 6"
      by (rule failed_result_run)
    have "reconcile out ev dep w = (Inr res, w'\<lparr>w_db := record_outcome dep cl res (w_db w')\<rparr>)"
      using d c cl(1) r Inl f(1) by (simp add: reconcile_def bindA_def act_simps attemptA_def)
    moreover have "w3 = w'\<lparr>w_calls := w_calls w @ cs\<rparr>" using f(5) cs by (simp add: world.equality)
    moreover have "\<exists>ds. w_calls w' = w_calls w @ cs @ ds \<and> (\<forall>c \<in> set ds. stage c = 6)" using f(6,7) cs by simp
    moreover have "same_tables (w_db w1) (w_db w')" using s f(5) by simp
    ultimately show ?thesis using cl(2-4) r Inl f(2-4)
      by (intro that[where cl = cl and res = res and ?w1.0 = w1 and ?w2.0 = w' and cs = cs and r = r]) simp_all
  qed
qed

text \<open>
  C17. Reconciling an existing deployment always ends with its outcome written down, whatever fails on the
  way, and the pointers say what is running. Success means the release, the power and the template that
  were desired when it started are the applied ones; failure leaves the applied ones alone, records an
  error, and gives up a power change by going back to the applied power: whenever the reconcile had one to
  make, of a deployment that is not being deleted, whose release and power rows it found, the desired power
  is the applied one afterwards, and otherwise it is left as it was. Only a deployment marked deleted ends
  as deleted. No other deployment is touched.
\<close>

theorem reconcile_outcome:
  assumes d: "get_dep (w_db w) dep = Some d" and keys: "keyed r_id (db_rels (w_db w))" "keyed pw_id (db_powers (w_db w))"
  shows "\<exists>res w' d'. reconcile out ev dep w = (Inr res, w') \<and> get_dep (w_db w') dep = Some d' \<and>
    d_status d' = rr_status res \<and> d_last_error d' = rr_error res \<and>
    (\<forall>e. e \<noteq> dep \<longrightarrow> get_dep (w_db w') e = get_dep (w_db w) e) \<and>
    (case rr_status res of
       DReady \<Rightarrow> d_deleted_at d = None \<and> rr_error res = None \<and> d_applied_release d' = Some (d_desired_release d) \<and>
         d_applied_template d' = Some (d_desired_template d) \<and> d_desired_power d' = d_desired_power d \<and>
         d_applied_power d' = (if d_desired_power d = None then d_applied_power d else d_desired_power d)
     | DError \<Rightarrow> rr_error res \<noteq> None \<and> d_applied_release d' = d_applied_release d \<and>
         d_applied_template d' = d_applied_template d \<and> d_applied_power d' = d_applied_power d \<and>
         d_desired_power d' = (if d_deleted_at d = None \<and> get_rel (w_db w) (d_desired_release d) \<noteq> None \<and>
             via (get_power (w_db w)) (d_desired_power d) \<noteq> None then d_applied_power d else d_desired_power d)
     | DDeleted \<Rightarrow> d_deleted_at d \<noteq> None \<and> rr_error res = None \<and> d_applied_release d' = d_applied_release d \<and>
         d_applied_template d' = d_applied_template d
     | _ \<Rightarrow> False)"
proof -
  obtain cl res w1 w2 cs r where run:
      "reconcile out ev dep w = (Inr res, w2\<lparr>w_db := record_outcome dep cl res (w_db w2)\<rparr>)"
      "claim_of (w_db w) d cl" "only_starts (w_db w) (w_db w1)" "w_calls w1 = w_calls w" "same_tables (w_db w1) (w_db w2)"
      "work_phase out ev d cl w1 = (r, w2\<lparr>w_calls := w_calls w @ cs\<rparr>)"
      "\<exists>ds. w_calls w2 = w_calls w @ cs @ ds \<and> (\<forall>c \<in> set ds. stage c = 6)"
      "(\<exists>e. r = Inl e \<and> rr_status res = DError \<and> rr_error res \<noteq> None \<and> rr_applied_template res = d_applied_template d) \<or>
       (r = Inr res \<and> outcome_of d res \<and> cl_error cl = None)"
    by (rule reconcile_run[OF d keys])
  let ?w' = "w2\<lparr>w_db := record_outcome dep cl res (w_db w2)\<rparr>"
  have deps: "db_deps (w_db w2) = db_deps (w_db w)"
    using only_starts_tables[OF run(3)] run(5) unfolding same_tables_def by (metis db.select_convs(8) db.simps(1) db.surjective db.update_convs(13))
  have rec: "db_deps (w_db ?w') = row_upd d_id dep (record_deployment cl res) (db_deps (w_db w))"
    by (simp add: record_outcome_def Let_def deps split: option.split)
  have id: "d_id (record_deployment cl res x) = d_id x" for x by (simp add: record_deployment_def)
  have d': "get_dep (w_db ?w') dep = Some (record_deployment cl res d)"
    using d unfolding rec by (simp add: row_get_upd_same id)
  have others: "get_dep (w_db ?w') e = get_dep (w_db w) e" if "e \<noteq> dep" for e
    using that unfolding rec by (simp add: row_get_upd_other id)
  consider (err) "rr_status res = DError" "rr_error res \<noteq> None" "rr_applied_template res = d_applied_template d"
    | (ok) "outcome_of d res" "cl_error cl = None"
    using run(8) by (elim disjE exE conjE) (rule that, assumption+)+
  then have "case rr_status res of
       DReady \<Rightarrow> d_deleted_at d = None \<and> rr_error res = None \<and> d_applied_release (record_deployment cl res d) = Some (d_desired_release d) \<and>
         d_applied_template (record_deployment cl res d) = Some (d_desired_template d) \<and> d_desired_power (record_deployment cl res d) = d_desired_power d \<and>
         d_applied_power (record_deployment cl res d) = (if d_desired_power d = None then d_applied_power d else d_desired_power d)
     | DError \<Rightarrow> rr_error res \<noteq> None \<and> d_applied_release (record_deployment cl res d) = d_applied_release d \<and>
         d_applied_template (record_deployment cl res d) = d_applied_template d \<and> d_applied_power (record_deployment cl res d) = d_applied_power d \<and>
         d_desired_power (record_deployment cl res d) = (if d_deleted_at d = None \<and> get_rel (w_db w) (d_desired_release d) \<noteq> None \<and>
             via (get_power (w_db w)) (d_desired_power d) \<noteq> None then d_applied_power d else d_desired_power d)
     | DDeleted \<Rightarrow> d_deleted_at d \<noteq> None \<and> rr_error res = None \<and> d_applied_release (record_deployment cl res d) = d_applied_release d \<and>
         d_applied_template (record_deployment cl res d) = d_applied_template d
     | _ \<Rightarrow> False"
  proof cases
    case err
    have "d_desired_power (record_deployment cl res d) = (if d_deleted_at d = None \<and> get_rel (w_db w) (d_desired_release d) \<noteq> None \<and>
        via (get_power (w_db w)) (d_desired_power d) \<noteq> None then d_applied_power d else d_desired_power d)"
      using run(2) err(1) by (cases "cl_power cl") (auto simp: record_deployment_def claim_of_def no_claim_def via_def split: if_splits)
    with err show ?thesis by (auto simp: record_deployment_def split: option.split)
  next
    case ok
    show ?thesis
    proof (cases "d_deleted_at d")
      case None
      with ok run(2) have "cl_release cl = (if d_applied_release d = Some (d_desired_release d) then None else cl_values cl)"
          "\<exists>r. cl_values cl = Some r \<and> r_id r = d_desired_release d"
          "map_option pw_id (cl_power cl) = (if d_desired_power d = d_applied_power d then None else d_desired_power d)"
        by (simp_all add: claim_of_def)
      with ok None show ?thesis
        by (auto simp: outcome_of_def record_deployment_def split: option.split if_splits)
    next
      case (Some t)
      with ok run(2) show ?thesis by (simp add: claim_of_def no_claim_def outcome_of_def record_deployment_def)
    qed
  qed
  then show ?thesis using run(1) d' others by (intro exI[of _ res] exI[of _ ?w'] exI[of _ "record_deployment cl res d"]) (simp add: record_deployment_def)
qed

text \<open>
  C19. The order of a rollout. Whatever fails: the namespace comes first, then its isolation policies, then
  the Secrets, then Helm, then the sweep of a stopped release, then the clean-up. Nothing of Helm or later
  happens unless every policy of the jail was applied, and no Secret of an earlier release is removed
  unless Helm succeeded with the new one.
\<close>

theorem rollout_in_order:
  assumes d: "get_dep (w_db w) dep = Some d" "d_deleted_at d = None"
    and keys: "keyed r_id (db_rels (w_db w))" "keyed pw_id (db_powers (w_db w))"
    and run: "reconcile out ev dep w = (res, w')"
  shows "\<exists>cs. w_calls w' = w_calls w @ cs \<and>
    (cs = [] \<or> (\<forall>c \<in> set cs. stage c = 6) \<or>
     (\<exists>t. get_template (w_db w) (d_desired_template d) = Some t \<and> rollout_order out ev d t (w_calls w) cs))"
proof -
  obtain cl rs w1 w2 cs r where run': "reconcile out ev dep w = (Inr rs, w2\<lparr>w_db := record_outcome dep cl rs (w_db w2)\<rparr>)"
      "only_starts (w_db w) (w_db w1)" "w_calls w1 = w_calls w"
      "work_phase out ev d cl w1 = (r, w2\<lparr>w_calls := w_calls w @ cs\<rparr>)"
      "\<exists>ds. w_calls w2 = w_calls w @ cs @ ds \<and> (\<forall>c \<in> set ds. stage c = 6)"
    using reconcile_run[OF d(1) keys, of out ev] by metis
  then obtain ds where ds: "w_calls w' = w_calls w @ cs @ ds" "\<forall>c \<in> set ds. stage c = 6" using run by auto
  show ?thesis
  proof (cases "cs = []")
    case True
    with ds show ?thesis by auto
  next
    case False
    with run'(3,4) obtain t vr where t: "validate_input_state (w_db w1) d = Inr t" "reconcile_apply out ev d vr t w1 = (r, w2\<lparr>w_calls := w_calls w @ cs\<rparr>)"
      using d(2) by (auto simp: work_phase_def bindA_def act_simps split: option.splits sum.splits)
    have "get_template (w_db w1) (d_desired_template d) = Some t"
      using t(1) by (auto simp: validate_input_state_def split: if_splits option.splits)
    then have tt: "get_template (w_db w) (d_desired_template d) = Some t" using only_starts_tables[OF run'(2)] by simp
    obtain cs' where "w_calls w @ cs = w_calls w1 @ cs'" "\<forall>c \<in> set cs'. stage c \<le> 5" "rollout_order out ev d t (w_calls w1) cs'"
      using apply_order[OF t(2)] by (metis world.select_convs(2) world.surjective world.update_convs(2))
    with run'(3) have o: "\<forall>c \<in> set cs. stage c \<le> 5" "rollout_order out ev d t (w_calls w) cs" by simp_all
    have "sorted (map stage ds)" using ds(2) by (induction ds) auto
    moreover have "stage x \<le> stage y" if "x \<in> set cs" "y \<in> set ds" for x y using o(1) ds(2) that by fastforce
    ultimately have "sorted (map stage (cs @ ds))"
      using o(2) unfolding rollout_order_def by (auto simp: sorted_append)
    moreover have "stage c \<noteq> 6 \<Longrightarrow> c \<in> set (cs @ ds) \<Longrightarrow> c \<in> set cs" for c using ds(2) by auto
    ultimately have "rollout_order out ev d t (w_calls w) (cs @ ds)"
      using o(2) ds(2) unfolding rollout_order_def by (auto intro: succeeded_append)
    with ds(1) tt show ?thesis by blast
  qed
qed

end
