(* ===== verification/Cluster.thy ===== *)
theory Cluster
  imports Shop Reconcile
begin

text \<open>
  The platform of \<^verbatim>\<open>Shop\<close> with everything around it: a cluster whose commands all succeed, one that
  loses its database connection while a password is being set, and the reconcile properties exercised
  on them.
\<close>

section \<open>Two outsides\<close>

definition calm :: outside where
  "calm = \<lparr>o_run = (\<lambda>_ _. \<lparr>cp_code = 0, cp_out = [], cp_err = []\<rparr>), o_do = (\<lambda>_ _. Inr ()), o_ask = (\<lambda>_ _. Inr False),
     o_http = (\<lambda>_ _. Inl ''connection refused''), o_num = (\<lambda>_ _. Inr 0), o_list = (\<lambda>_ _. Inr []), o_json = (\<lambda>_. None),
     o_now = (\<lambda>cs. 100 + int (length cs)), o_token = (\<lambda>_. ''s3cret'')\<rparr>"

definition lossy :: outside where
  "lossy = calm\<lparr>o_do := (\<lambda>_ c. if sets_password ''s3cret'' c then Inl ''connection lost'' else Inr ())\<rparr>"

definition shop_rec :: rec_env where
  "shop_rec = \<lparr>rv_settings = demo_settings, rv_crypto = demo_crypto, rv_jsv = accept_all, rv_pull_config = (\<lambda>_. []),
     rv_oidc_secret = (\<lambda>_. Inl (ValidationErr ''no key''))\<rparr>"

definition shop_world :: world where
  "shop_world = \<lparr>w_db = shop, w_calls = []\<rparr>"

lemma shop_rec_simps [simp]:
  "rv_settings shop_rec = demo_settings" "rv_crypto shop_rec = demo_crypto" "rv_jsv shop_rec = accept_all"
  by (simp_all add: shop_rec_def)

lemma shop_world_simps [simp]: "w_db shop_world = shop" "w_calls shop_world = []"
  by (simp_all add: shop_world_def)

section \<open>Reconciling the shop's deployment\<close>

lemma shop_keys: "keyed r_id (db_rels shop)" "keyed pw_id (db_powers shop)"
  by (simp_all add: shop_tables)

theorem reconcile_outcome_witness:
  "\<exists>res w' d'. reconcile calm shop_rec 7 shop_world = (Inr res, w') \<and> get_dep (w_db w') 7 = Some d' \<and>
     d_status d' \<in> {DReady, DError} \<and> d_applied_release d' = Some 73"
proof -
  have d: "get_dep (w_db shop_world) 7 = Some shop_dep" by (simp add: shop_get_dep)
  note keys = shop_keys[folded shop_world_simps(1)]
  from reconcile_outcome[OF d keys, of calm shop_rec] obtain res w' d' where
    r: "reconcile calm shop_rec 7 shop_world = (Inr res, w')" "get_dep (w_db w') 7 = Some d'" "d_status d' = rr_status res" and
    c: "case rr_status res of
       DReady \<Rightarrow> d_deleted_at shop_dep = None \<and> rr_error res = None \<and> d_applied_release d' = Some (d_desired_release shop_dep) \<and>
         d_applied_template d' = Some (d_desired_template shop_dep) \<and> d_desired_power d' = d_desired_power shop_dep \<and>
         d_applied_power d' = (if d_desired_power shop_dep = None then d_applied_power shop_dep else d_desired_power shop_dep)
     | DError \<Rightarrow> rr_error res \<noteq> None \<and> d_applied_release d' = d_applied_release shop_dep \<and>
         d_applied_template d' = d_applied_template shop_dep \<and> d_applied_power d' = d_applied_power shop_dep \<and>
         d_desired_power d' = (if d_deleted_at shop_dep = None \<and> get_rel (w_db shop_world) (d_desired_release shop_dep) \<noteq> None \<and>
             via (get_power (w_db shop_world)) (d_desired_power shop_dep) \<noteq> None then d_applied_power shop_dep else d_desired_power shop_dep)
     | DDeleted \<Rightarrow> d_deleted_at shop_dep \<noteq> None \<and> rr_error res = None \<and> d_applied_release d' = d_applied_release shop_dep \<and>
         d_applied_template d' = d_applied_template shop_dep
     | _ \<Rightarrow> False" by blast
  from c have "d_status d' \<in> {DReady, DError} \<and> d_applied_release d' = Some 73"
    unfolding r(3) by (cases "rr_status res") simp_all
  with r(1,2) show ?thesis by blast
qed

theorem rollout_in_order_witness:
  "sorted (map stage (w_calls (snd (reconcile calm shop_rec 7 shop_world))))"
proof -
  have d: "get_dep (w_db shop_world) 7 = Some shop_dep" by (simp add: shop_get_dep)
  note keys = shop_keys[folded shop_world_simps(1)]
  have six: "sorted (map stage cs)" if "\<forall>c \<in> set cs. stage c = 6" for cs
    using that by (induction cs) auto
  obtain res w' where r: "reconcile calm shop_rec 7 shop_world = (res, w')" by (cases "reconcile calm shop_rec 7 shop_world")
  from rollout_in_order[OF d _ keys r] obtain cs where "w_calls w' = cs"
    "cs = [] \<or> (\<forall>c \<in> set cs. stage c = 6) \<or> (\<exists>t. rollout_order calm shop_rec shop_dep t [] cs)" by auto
  with six r show ?thesis by (auto simp: rollout_order_def)
qed

section \<open>Chart values\<close>

text \<open>A template that tries to decide the release identity itself.\<close>

definition forged :: pydict where
  "forged = [(''caelus'', JObj [(''releaseNumber'', JStr ''1'')])]"

definition no_secrets :: published where
  "no_secrets = \<lparr>pb_storage = None, pb_database = None, pb_vars = None, pb_pull = None, pb_oidc = None\<rparr>"

definition forging_template :: template where
  "forging_template = open_template\<lparr>t_system_values := Some forged\<rparr>"

lemma forging_builds: "\<exists>m. build_merged_values accept_all demo_settings shop shop_dep forging_template (img_release 4 CHR ''d'') pb = Inr m"
proof -
  have s: "t_schema forging_template = Some [(vars_additional_key, JBool True)]" by (simp add: forging_template_def open_template_def)
  have v: "validate_user_values accept_all uv (t_schema forging_template) = Inr ()" for uv
    by (simp add: validate_user_values_def s derive_projections_def accept_all_def split: list.splits)
  have f: "t_system_values forging_template = Some forged" by (simp add: forging_template_def)
  show ?thesis
    by (simp add: build_merged_values_def v f build_system_overrides_eq merge_values_scoped_def shop_dep_def require_dict_def Let_def)
qed

theorem platform_values_win_witness:
  "\<exists>m. build_merged_values accept_all demo_settings shop shop_dep forging_template (img_release 4 CHR ''d'') no_secrets = Inr m \<and>
     jpath [''caelus'', ''releaseNumber''] (JObj m) = Some (JStr ''4'')"
proof -
  let ?f = "[(''caelus'', JObj [(''releaseId'', JStr (uuid_str 73)), (''releaseNumber'', JStr ''4'')])]"
  obtain m where m: "build_merged_values accept_all demo_settings shop shop_dep forging_template (img_release 4 CHR ''d'') no_secrets = Inr m"
    using forging_builds by blast
  have n: "nat_str 4 = ''4''" by code_simp
  have f: "Some ?f \<in> set (override_parts demo_settings shop shop_dep (img_release 4 CHR ''d'') no_secrets)"
    by (simp add: override_parts_def release_overrides_def n)
  have "jpath [''caelus'', ''releaseNumber''] (JObj ?f) = Some (JStr ''4'')" by simp
  from platform_values_win[OF m f this] m show ?thesis by simp
qed

definition shop_creds :: "string \<Rightarrow> db_creds" where
  "shop_creds p = \<lparr>dbc_host = ''pooler'', dbc_port = 6432, dbc_database = ''dpl_7'', dbc_user = ''dpl_7'', dbc_password = p\<rparr>"

theorem values_carry_no_secret_witness:
  "build_merged_values accept_all (demo_settings\<lparr>st_registry_pull_key := ''a'', st_oidc_client_keys := ''b''\<rparr>) shop shop_dep forging_template
     (img_release 4 CHR ''d'') (no_secrets\<lparr>pb_database := Some (shop_creds ''hunter2'')\<rparr>) =
   build_merged_values accept_all demo_settings shop shop_dep forging_template
     (img_release 4 CHR ''d'') (no_secrets\<lparr>pb_database := Some (shop_creds ''s3cret'')\<rparr>)"
  by (rule values_carry_no_secret[OF _ refl]) (simp add: same_references_def shop_creds_def no_secrets_def)

section \<open>The tenant database\<close>

definition db_shop :: db where
  "db_shop = shop\<lparr>db_subs := [\<lparr>sub_id = 1, sub_plan_template = 1, sub_user = 1, sub_status = SubActive, sub_payment = PayCurrent,
       sub_cancelled_at = None, sub_mollie_id = None, sub_mandate = None\<rparr>],
     db_plan_templates := [\<lparr>pt_id = 1, pt_plan = 1, pt_price_cents = 0, pt_interval = Monthly, pt_storage_bytes = None,
       pt_database_bytes = Some 1000, pt_deleted_at = None\<rparr>]\<rparr>"

text \<open>The connection is lost while the password is set: the role may hold it, and so does the row.\<close>

theorem password_recoverable_witness:
  "\<exists>e w'. ensure_database lossy demo_settings demo_crypto shop_dep \<lparr>w_db = db_shop, w_calls = []\<rparr> = (Inl e, w') \<and>
     recoverable demo_crypto 7 ''s3cret'' (w_db w')"
proof -
  have d: "d_id shop_dep = 7" "d_subscription shop_dep = 1" by (simp_all add: shop_dep_def demo_dep_def)
  have q: "database_quota db_shop shop_dep = Inr 1000"
    by (simp add: database_quota_def subscription_plan_def db_shop_def d table_simps)
  have dbs: "db_databases db_shop = []" by (simp add: db_shop_def shop_def empty_db_def)
  have e: "encrypt (cr_fernet demo_crypto) (cr_ring demo_crypto) n ''s3cret'' = Inr (''k1-s3cret'', ''k1'')" for n
    by (simp add: encrypt_def current_key_id_def demo_crypto_def demo_fernet_def)
  let ?w = "\<lparr>w_db = db_shop, w_calls = []\<rparr>"
  let ?c = "PgSession [(''ALTER ROLE {role} WITH PASSWORD {password}'', [(''role'', database_name shop_dep), (''password'', ''s3cret'')])]"
  obtain r w' where run: "ensure_database lossy demo_settings demo_crypto shop_dep ?w = (r, w')"
    by (cases "ensure_database lossy demo_settings demo_crypto shop_dep ?w")
  have c: "\<exists>e. r = Inl e" "?c \<in> set (w_calls w')"
    using run by (auto simp: ensure_database_def Let_def bindA_def act_simps q store_password_def database_record_def dbs d table_simps
      e ensure_role_def role_exists_def askA_def lossy_def calm_def whenA_def pg_execute_def sets_password_def)
  have "recoverable demo_crypto (d_id shop_dep) ''s3cret'' (w_db w')"
    by (rule password_recoverable[OF _ run _ c(2)]) (simp_all add: demo_crypto_def demo_fernet_ok sets_password_def)
  with run c(1) d(1) show ?thesis by auto
qed

definition due_row :: "nat \<Rightarrow> time \<Rightarrow> database_row" where
  "due_row i t = (new_database_row i (shop_dep\<lparr>d_id := i\<rparr>) ([], []))\<lparr>dd_purge_after := Some t\<rparr>"

text \<open>Of two rows, one is due: the other survives the purge.\<close>

theorem purge_only_due_witness:
  "due_row 2 5000 \<in> set (db_databases (w_db (snd (purge_tick calm 10 \<lparr>w_db = shop\<lparr>db_databases := [due_row 1 50, due_row 2 5000]\<rparr>, w_calls = []\<rparr>))))"
proof -
  let ?w = "\<lparr>w_db = shop\<lparr>db_databases := [due_row 1 50, due_row 2 5000]\<rparr>, w_calls = []\<rparr>"
  have k: "keyed s_id (db_databases (w_db ?w))" by (simp add: due_row_def new_database_row_def)
  obtain r w' where run: "purge_tick calm 10 ?w = (r, w')" by (cases "purge_tick calm 10 ?w")
  have n: "\<not> is_due (o_now calm (w_calls ?w)) (due_row 2 5000)" by (simp add: is_due_def due_row_def calm_def)
  from purge_only_due[OF k run] n have "due_row 2 5000 \<in> set (db_databases (w_db w'))"
    by (auto simp: purged_only_def)
  with run show ?thesis by simp
qed

end
