(* ===== verification/Decimal.thy ===== *)
theory Decimal
  imports Complex_Main PyStr
begin

text \<open>
  Python's \<^verbatim>\<open>decimal.Decimal\<close> as the usage accounting computes with it: values are exact numbers,
  every operation rounds its result to the 28 significant digits of the default context, half to
  even. Infinities, NaNs and exponents past the context's limits do not occur. Parsing takes finite
  literals; anything else is \<open>None\<close>, where Python raises or yields a special value.
\<close>

section \<open>Rounding\<close>

fun digits10 :: "nat \<Rightarrow> nat" where
  "digits10 n = (if n < 10 then 1 else Suc (digits10 (n div 10)))"

declare digits10.simps [simp del]

lemma digits10_bounds: "0 < n \<Longrightarrow> 10 ^ (digits10 n - 1) \<le> n \<and> n < 10 ^ digits10 n \<and> 0 < digits10 n"
proof (induction n rule: digits10.induct)
  case (1 n)
  show ?case
  proof (cases "n < 10")
    case True
    with 1 show ?thesis by (simp add: digits10.simps)
  next
    case False
    then have ih: "10 ^ (digits10 (n div 10) - 1) \<le> n div 10" "n div 10 < 10 ^ digits10 (n div 10)" "0 < digits10 (n div 10)"
      using 1 by auto
    have "10 * 10 ^ (digits10 (n div 10) - 1) \<le> n" using ih(1) by linarith
    moreover have "n < 10 * 10 ^ digits10 (n div 10)" using ih(2) by linarith
    ultimately show ?thesis using False ih(3) by (simp add: digits10.simps[of n] power_eq_if)
  qed
qed

text \<open>The exponent \<open>e\<close> with \<open>10 ^ (e - 1) \<le> x < 10 ^ e\<close>, for a positive \<open>x\<close>.\<close>

definition exp10 :: "rat \<Rightarrow> int" where
  "exp10 x = (let (p, q) = quotient_of x; k = int (digits10 (nat p)) - int (digits10 (nat q))
              in if x < 10 powi k then k else k + 1)"

definition half_even :: "rat \<Rightarrow> int" where
  "half_even y = (let f = \<lfloor>y\<rfloor>; d = y - of_int f in
     if d < 1/2 then f else if 1/2 < d then f + 1 else if even f then f else f + 1)"

definition prec :: int where "prec = 28"

definition dec_round :: "rat \<Rightarrow> rat" where
  "dec_round x = (if x = 0 then 0
                  else let s = 10 powi (prec - exp10 \<bar>x\<bar>) in of_int (half_even (x * s)) / s)"

definition dec_mul :: "rat \<Rightarrow> rat \<Rightarrow> rat" where "dec_mul a b = dec_round (a * b)"
definition dec_div :: "rat \<Rightarrow> rat \<Rightarrow> rat" where "dec_div a b = dec_round (a / b)"

lemma exp10_bounds:
  assumes "0 < x"
  shows "10 powi (exp10 x - 1) \<le> x \<and> x < 10 powi (exp10 x)"
proof -
  obtain p q where pq: "quotient_of x = (p, q)" by fastforce
  have x: "x = of_int p / of_int q" and q: "0 < q" using pq quotient_of_div quotient_of_denom_pos by blast+
  have p: "0 < p" using assms q by (simp add: x zero_less_divide_iff)
  define dp dq where "dp = digits10 (nat p)" and "dq = digits10 (nat q)"
  have P: "10 ^ (dp - 1) \<le> nat p" "nat p < 10 ^ dp" "0 < dp" using digits10_bounds[of "nat p"] p by (auto simp: dp_def)
  have Q: "10 ^ (dq - 1) \<le> nat q" "nat q < 10 ^ dq" "0 < dq" using digits10_bounds[of "nat q"] q by (auto simp: dq_def)
  have rp: "(of_int p :: rat) = of_nat (nat p)" "(of_int q :: rat) = of_nat (nat q)" using p q by auto
  have P': "10 powi (int dp - 1) \<le> (of_int p :: rat)" "of_int p < (10::rat) powi int dp"
  proof -
    have "(10::rat) powi (int dp - 1) = of_nat (10 ^ (dp - 1))" using P(3) by (simp add: power_int_def nat_diff_distrib)
    also have "\<dots> \<le> of_nat (nat p)" using P(1) by (simp only: of_nat_le_iff)
    finally show "10 powi (int dp - 1) \<le> (of_int p :: rat)" by (simp add: rp)
    have "of_nat (nat p) < (of_nat (10 ^ dp) :: rat)" using P(2) by (simp only: of_nat_less_iff)
    then show "of_int p < (10::rat) powi int dp" by (simp add: rp power_int_of_nat)
  qed
  have Q': "10 powi (int dq - 1) \<le> (of_int q :: rat)" "of_int q < (10::rat) powi int dq"
  proof -
    have "(10::rat) powi (int dq - 1) = of_nat (10 ^ (dq - 1))" using Q(3) by (simp add: power_int_def nat_diff_distrib)
    also have "\<dots> \<le> of_nat (nat q)" using Q(1) by (simp only: of_nat_le_iff)
    finally show "10 powi (int dq - 1) \<le> (of_int q :: rat)" by (simp add: rp)
    have "of_nat (nat q) < (of_nat (10 ^ dq) :: rat)" using Q(2) by (simp only: of_nat_less_iff)
    then show "of_int q < (10::rat) powi int dq" by (simp add: rp power_int_of_nat)
  qed
  define k where "k = int dp - int dq"
  have rq: "(0::rat) < of_int q" "(0::rat) < of_int p" using p q by simp_all
  have lo: "10 powi (k - 1) \<le> x"
  proof -
    have "(10::rat) powi (k - 1) * of_int q \<le> 10 powi (k - 1) * 10 powi int dq"
      using Q'(2) by (intro mult_left_mono) auto
    also have "\<dots> = 10 powi (int dp - 1)" by (simp add: k_def power_int_add[symmetric] del: power_int_of_nat)
    also have "\<dots> \<le> of_int p" by (rule P')
    finally show ?thesis using rq by (simp add: x pos_le_divide_eq)
  qed
  have hi: "x < 10 powi (k + 1)"
  proof -
    have "(of_int p :: rat) < 10 powi int dp" by (rule P')
    also have "\<dots> = 10 powi (k + 1) * 10 powi (int dq - 1)" by (simp add: k_def power_int_add[symmetric] del: power_int_of_nat)
    also have "\<dots> \<le> 10 powi (k + 1) * of_int q" using Q'(1) by (intro mult_left_mono) auto
    finally show ?thesis using rq by (simp add: x pos_divide_less_eq)
  qed
  have "exp10 x = (if x < 10 powi k then k else k + 1)"
    by (simp add: exp10_def pq dp_def dq_def k_def Let_def)
  with lo hi show ?thesis by auto
qed

lemma half_even_int [simp]: "half_even (of_int n) = n"
  by (simp add: half_even_def)

lemma half_even_near: "\<bar>of_int (half_even y) - y\<bar> \<le> 1/2"
  unfolding half_even_def Let_def by (auto simp: abs_if) linarith+

lemma half_even_nonneg: "0 \<le> y \<Longrightarrow> 0 \<le> half_even y"
  by (auto simp: half_even_def Let_def)

lemma dec_round_nonneg: "0 \<le> x \<Longrightarrow> 0 \<le> dec_round x"
  by (auto simp: dec_round_def Let_def intro!: divide_nonneg_nonneg half_even_nonneg)

text \<open>A number of at most 28 significant digits is kept.\<close>

lemma dec_round_exact:
  assumes n: "\<bar>n\<bar> < 10 ^ 28" and x: "x = of_int n / 10 ^ k"
  shows "dec_round x = x"
proof (cases "x = 0")
  case False
  define e where "e = exp10 \<bar>x\<bar>"
  have "10 powi (e - 1) \<le> \<bar>x\<bar>" using exp10_bounds[of "\<bar>x\<bar>"] False by (simp add: e_def)
  also have ax: "\<bar>x\<bar> = of_int \<bar>n\<bar> / 10 powi int k" by (simp add: x abs_divide power_int_of_nat)
  finally have "10 powi (e - 1) * 10 powi int k \<le> (of_int \<bar>n\<bar> :: rat)" by (simp add: pos_le_divide_eq)
  then have "10 powi (e - 1 + int k) \<le> (of_int \<bar>n\<bar> :: rat)" by (simp add: power_int_add)
  moreover have "(of_int \<bar>n\<bar> :: rat) < of_int (10 ^ 28)" using n by (simp only: of_int_less_iff)
  ultimately have lt: "(10::rat) powi (e - 1 + int k) < 10 powi 28" by simp
  have "e - 1 + int k < 28"
  proof (rule ccontr)
    assume "\<not> e - 1 + int k < 28"
    then have "(10::rat) powi 28 \<le> 10 powi (e - 1 + int k)" by (intro power_int_increasing) auto
    with lt show False by simp
  qed
  then obtain j where j: "prec - e = int k + int j"
    using zero_le_imp_eq_int[of "prec - e - int k"] by (auto simp: prec_def algebra_simps)
  have i: "x * 10 powi (prec - e) = of_int (n * 10 ^ j)"
    by (simp add: j x power_int_add power_int_of_nat)
  then have "of_int (half_even (x * 10 powi (prec - e))) = x * 10 powi (prec - e)" by (simp only: half_even_int)
  then show ?thesis using False by (simp add: dec_round_def Let_def flip: e_def)
qed (simp add: dec_round_def)

text \<open>Otherwise the result is off by at most half a unit in the 28th digit.\<close>

lemma dec_round_near: "\<bar>dec_round x - x\<bar> \<le> \<bar>x\<bar> / (2 * 10 ^ 27)"
proof (cases "x = 0")
  case False
  define e where "e = exp10 \<bar>x\<bar>"
  define s :: rat where "s = 10 powi (prec - e)"
  have s: "0 < s" by (simp add: s_def)
  have b: "10 powi (e - 1) \<le> \<bar>x\<bar>" using exp10_bounds[of "\<bar>x\<bar>"] False by (simp add: e_def)
  have "dec_round x - x = (of_int (half_even (x * s)) - x * s) / s"
    using False s by (simp add: dec_round_def Let_def diff_divide_distrib flip: e_def s_def)
  then have "\<bar>dec_round x - x\<bar> \<le> (1/2) / s"
    using half_even_near[of "x * s"] s by (simp add: abs_divide divide_right_mono del: divide_divide_eq_left)
  also have "(1/2) / s = 10 powi (e - 1) / (2 * 10 ^ 27)"
  proof -
    have "s * 10 powi (e - 1) = 10 powi 27" by (simp add: s_def prec_def flip: power_int_add)
    then have "s * 10 powi (e - 1) = 10 ^ 27" by simp
    with s show ?thesis by (simp add: field_simps)
  qed
  also have "\<dots> \<le> \<bar>x\<bar> / (2 * 10 ^ 27)" using b by (intro divide_right_mono) auto
  finally show ?thesis .
qed (simp add: dec_round_def)

lemma dec_round_ge: "0 \<le> x \<Longrightarrow> x * (1 - 1 / (2 * 10 ^ 27)) \<le> dec_round x"
proof -
  assume "0 \<le> x"
  then have "x - dec_round x \<le> x / (2 * 10 ^ 27)"
    using dec_round_near[of x] abs_ge_minus_self[of "dec_round x - x"] by (simp only: abs_of_nonneg minus_diff_eq) 
  then have "x - x / (2 * 10 ^ 27) \<le> dec_round x" by linarith
  then show ?thesis by (simp add: right_diff_distrib)
qed

section \<open>Literals\<close>

text \<open>The sign and what follows it.\<close>

definition signed :: "string \<Rightarrow> int \<times> string" where
  "signed s = (case s of c # r \<Rightarrow> if c = CHR ''-'' then (-1, r) else if c = CHR ''+'' then (1, r) else (1, s)
                       | [] \<Rightarrow> (1, []))"

definition exponent_of :: "string \<Rightarrow> int option" where
  "exponent_of s =
     (case s of
        [] \<Rightarrow> Some 0
      | _ # e \<Rightarrow> (let (sg, ds) = signed e in if ds \<noteq> [] \<and> list_all is_dec ds then Some (sg * int (nat_of_dec ds)) else None))"

text \<open>\<^verbatim>\<open>Decimal(s)\<close>, which is exact: digits with an optional point and an optional exponent.\<close>

definition decimal_of :: "string \<Rightarrow> rat option" where
  "decimal_of s =
     (let (sg, t) = signed s;
          is_exp = (\<lambda>c. c = CHR ''e'' \<or> c = CHR ''E'');
          m = takeWhile (\<lambda>c. \<not> is_exp c) t;
          i = takeWhile is_dec m;
          f = (case dropWhile is_dec m of [] \<Rightarrow> Some [] | c # g \<Rightarrow> if c = CHR ''.'' \<and> list_all is_dec g then Some g else None)
      in case (f, exponent_of (dropWhile (\<lambda>c. \<not> is_exp c) t)) of
           (Some g, Some e) \<Rightarrow>
             if i @ g = [] then None
             else Some (of_int sg * of_nat (nat_of_dec (i @ g)) * 10 powi (e - int (length g)))
         | _ \<Rightarrow> None)"

end
