(* ===== verification/UsageLedger.thy ===== *)
theory UsageLedger
  imports Complex_Main Models Json
begin

text \<open>
  The usage ledger of \<^verbatim>\<open>app/services/usage\<close>: its tables (\<^verbatim>\<open>models/usage.py\<close>), the chunking
  (\<^verbatim>\<open>batching.py\<close>), the subjects and their bulk upsert (\<^verbatim>\<open>subjects.py\<close>) and the append-only
  write (\<^verbatim>\<open>ledger.py\<close>). A value is an exact number: the column is an unbounded numeric.

  The lemmas give the contract every writer rests on: samples are only ever added, under a key that
  stays unique; a subject keeps its id, its first sighting and, once known, its deployment; and
  writing what is already there adds nothing.
\<close>

section \<open>The tables\<close>

datatype metric_axis = AxCpu | AxMemory | AxNetwork | AxStorage | AxRuntime

datatype metric_unit = CoreHours | Cores | ByteHours | Bytes | Seconds

datatype metric_kind = Delta | Gauge

datatype metric_role = Usage | Allocation

datatype subject_kind = SkContainer | SkPv | SkBucket | SkDatabase | SkNode | SkBuild

record usage_metric =
  um_id :: nat
  um_name :: string
  um_axis :: metric_axis
  um_unit :: metric_unit
  um_kind :: metric_kind
  um_role :: metric_role

record subject_row =
  us_id :: nat
  us_kind :: subject_kind
  us_ref :: string
  us_namespace :: "string option"
  us_dep :: "uuid option"
  us_first :: time
  us_last :: time

record sample =
  sm_subject :: nat
  sm_metric :: nat
  sm_start :: time
  sm_interval :: int
  sm_observed :: time
  sm_value :: rat

record usage_rate =
  ur_metric :: nat
  ur_from :: time
  ur_price :: rat
  ur_per :: rat

text \<open>\<open>lg_next\<close> is the identity sequence of \<^verbatim>\<open>usage_subject\<close>.\<close>

record ledger =
  lg_metrics :: "usage_metric list"
  lg_subjects :: "subject_row list"
  lg_samples :: "sample list"
  lg_rates :: "usage_rate list"
  lg_next :: nat

datatype usage_error = Uncatalogued "string list" | NoSubject string | SourceFailed string

section \<open>Chunks\<close>

definition chunk_size :: nat where "chunk_size = 1000"

function batched :: "nat \<Rightarrow> 'a list \<Rightarrow> 'a list list" where
  "batched n xs = (if take n xs = [] then [] else take n xs # batched n (drop n xs))"
  by pat_completeness auto

termination batched
  by (relation "measure (\<lambda>(n, xs). length xs)") auto

declare batched.simps [simp del]

lemma concat_batched [simp]: "0 < n \<Longrightarrow> concat (batched n xs) = xs"
proof (induction n xs rule: batched.induct)
  case (1 n xs)
  then show ?case
    by (subst batched.simps) (auto simp: append_take_drop_id)
qed

lemma chunk_size_pos [simp]: "0 < chunk_size"
  by (simp add: chunk_size_def)

section \<open>Subjects\<close>

record subject_spec =
  ss_kind :: subject_kind
  ss_ref :: string
  ss_namespace :: "string option"
  ss_dep :: "uuid option"

definition spec_key :: "subject_spec \<Rightarrow> subject_kind \<times> string" where
  "spec_key p = (ss_kind p, ss_ref p)"

definition us_key :: "subject_row \<Rightarrow> subject_kind \<times> string" where
  "us_key r = (us_kind r, us_ref r)"

definition merge_spec ::
    "subject_spec \<Rightarrow> ((subject_kind \<times> string) \<times> subject_spec) list \<Rightarrow> ((subject_kind \<times> string) \<times> subject_spec) list" where
  "merge_spec p merged =
     (case map_of merged (spec_key p) of
        None \<Rightarrow> AList.update (spec_key p) p merged
      | Some prior \<Rightarrow>
          if ss_dep prior = None \<and> ss_dep p \<noteq> None
          then AList.update (spec_key p) (prior\<lparr>ss_dep := ss_dep p\<rparr>) merged
          else merged)"

definition merged_specs :: "subject_spec list \<Rightarrow> subject_spec list" where
  "merged_specs chunk = map snd (fold merge_spec chunk [])"

text \<open>
  One row of the statement. The identity default is drawn before the conflict is found, so a value of
  the sequence is spent either way; \<^verbatim>\<open>coalesce\<close> only ever fills the deployment in.
\<close>

definition coalesce :: "'a option \<Rightarrow> 'a option \<Rightarrow> 'a option" where
  "coalesce x y = (case x of None \<Rightarrow> y | Some _ \<Rightarrow> x)"

definition refresh :: "time \<Rightarrow> subject_spec \<Rightarrow> subject_row \<Rightarrow> subject_row" where
  "refresh seen p r = r\<lparr>us_last := seen, us_dep := coalesce (us_dep r) (ss_dep p)\<rparr>"

definition fresh_subject :: "nat \<Rightarrow> time \<Rightarrow> subject_spec \<Rightarrow> subject_row" where
  "fresh_subject i seen p =
     \<lparr>us_id = i, us_kind = ss_kind p, us_ref = ss_ref p, us_namespace = ss_namespace p,
      us_dep = ss_dep p, us_first = seen, us_last = seen\<rparr>"

type_synonym subject_ids = "(subject_kind \<times> string) \<rightharpoonup> nat"

definition upsert_row :: "time \<Rightarrow> subject_spec \<Rightarrow> subject_ids \<times> ledger \<Rightarrow> subject_ids \<times> ledger" where
  "upsert_row seen p = (\<lambda>(ids, l).
     (case row_get us_key (spec_key p) (lg_subjects l) of
        Some r \<Rightarrow> (ids(spec_key p \<mapsto> us_id r),
           l\<lparr>lg_subjects := row_upd us_key (spec_key p) (refresh seen p) (lg_subjects l), lg_next := Suc (lg_next l)\<rparr>)
      | None \<Rightarrow> (ids(spec_key p \<mapsto> lg_next l),
           l\<lparr>lg_subjects := lg_subjects l @ [fresh_subject (lg_next l) seen p], lg_next := Suc (lg_next l)\<rparr>)))"

definition upsert_chunk :: "time \<Rightarrow> subject_spec list \<Rightarrow> subject_ids \<times> ledger \<Rightarrow> subject_ids \<times> ledger" where
  "upsert_chunk seen chunk = fold (upsert_row seen) (merged_specs chunk)"

definition upsert_subjects :: "time \<Rightarrow> nat \<Rightarrow> subject_spec list \<Rightarrow> ledger \<Rightarrow> subject_ids \<times> ledger" where
  "upsert_subjects seen n specs l = fold (upsert_chunk seen) (batched n specs) (Map.empty, l)"

section \<open>Samples\<close>

record sample_row =
  sr_subject :: nat
  sr_metric :: string
  sr_start :: time
  sr_interval :: int
  sr_value :: rat

record observation =
  ob_subject :: subject_spec
  ob_quantities :: "(string \<times> rat) list"

type_synonym catalog = "string \<rightharpoonup> nat"

definition metric_ids :: "ledger \<Rightarrow> catalog" where
  "metric_ids l = map_of (rev (map (\<lambda>m. (um_name m, um_id m)) (lg_metrics l)))"

definition sample_key :: "sample \<Rightarrow> nat \<times> nat \<times> time" where
  "sample_key s = (sm_subject s, sm_metric s, sm_start s)"

definition to_sample :: "time \<Rightarrow> catalog \<Rightarrow> sample_row \<Rightarrow> sample" where
  "to_sample seen cat r =
     \<lparr>sm_subject = sr_subject r, sm_metric = (case cat (sr_metric r) of Some i \<Rightarrow> i | None \<Rightarrow> 0), sm_start = sr_start r,
      sm_interval = sr_interval r, sm_observed = seen, sm_value = sr_value r\<rparr>"

text \<open>\<^verbatim>\<open>ON CONFLICT DO NOTHING\<close> on the natural key.\<close>

definition insert_sample :: "sample \<Rightarrow> sample list \<Rightarrow> sample list" where
  "insert_sample s rows = (if sample_key s \<in> sample_key ` set rows then rows else rows @ [s])"

definition insert_samples :: "sample list \<Rightarrow> sample list \<Rightarrow> sample list" where
  "insert_samples = fold insert_sample"

definition unknown_metrics :: "catalog \<Rightarrow> sample_row list \<Rightarrow> string list" where
  "unknown_metrics cat chunk = sort (remdups (filter (\<lambda>m. cat m = None) (map sr_metric chunk)))"

definition record_chunk ::
    "time \<Rightarrow> catalog \<Rightarrow> sample_row list \<Rightarrow> nat \<times> ledger \<Rightarrow> usage_error + nat \<times> ledger" where
  "record_chunk seen cat chunk = (\<lambda>(n, l).
     if unknown_metrics cat chunk \<noteq> [] then Inl (Uncatalogued (unknown_metrics cat chunk))
     else let rows = insert_samples (map (to_sample seen cat) chunk) (lg_samples l)
          in Inr (n + (length rows - length (lg_samples l)), l\<lparr>lg_samples := rows\<rparr>))"

definition record_samples ::
    "time \<Rightarrow> catalog \<Rightarrow> nat \<Rightarrow> sample_row list \<Rightarrow> ledger \<Rightarrow> usage_error + nat \<times> ledger" where
  "record_samples seen cat csize rows l = foldR (record_chunk seen cat) (batched csize rows) (0, l)"

definition rows_of ::
    "subject_ids \<Rightarrow> time \<Rightarrow> int \<Rightarrow> observation \<Rightarrow> usage_error + sample_row list" where
  "rows_of ids start interval ob =
     (case ids (spec_key (ob_subject ob)) of
        None \<Rightarrow> Inl (NoSubject (ss_ref (ob_subject ob)))
      | Some i \<Rightarrow> Inr (map (\<lambda>(m, v). \<lparr>sr_subject = i, sr_metric = m, sr_start = start,
                                     sr_interval = interval, sr_value = v\<rparr>) (ob_quantities ob)))"

definition observe_chunk ::
    "time \<Rightarrow> int \<Rightarrow> time \<Rightarrow> catalog \<Rightarrow> nat \<Rightarrow> observation list \<Rightarrow> nat \<times> ledger \<Rightarrow> usage_error + nat \<times> ledger" where
  "observe_chunk start interval seen cat csize chunk = (\<lambda>(n, l).
     (let (ids, l1) = upsert_subjects seen chunk_size (map ob_subject chunk) l in
      bindR (mapR (rows_of ids start interval) chunk) (\<lambda>rows.
      bindR (record_samples seen cat csize (concat rows) l1) (\<lambda>(k, l2). Inr (n + k, l2)))))"

definition record_observations ::
    "time \<Rightarrow> int \<Rightarrow> time \<Rightarrow> catalog \<Rightarrow> nat \<Rightarrow> observation list \<Rightarrow> ledger \<Rightarrow> usage_error + nat \<times> ledger" where
  "record_observations start interval seen cat csize obs l =
     foldR (observe_chunk start interval seen cat csize) (batched csize obs) (0, l)"

section \<open>How a ledger grows\<close>

definition lg_ok :: "ledger \<Rightarrow> bool" where
  "lg_ok l \<longleftrightarrow> keyed sample_key (lg_samples l) \<and> keyed us_id (lg_subjects l) \<and> keyed us_key (lg_subjects l) \<and>
     (\<forall>r \<in> set (lg_subjects l). us_id r < lg_next l) \<and>
     (\<forall>s \<in> set (lg_samples l). sm_subject s \<in> us_id ` set (lg_subjects l))"

definition subject_kept :: "subject_row \<Rightarrow> subject_row \<Rightarrow> bool" where
  "subject_kept r q \<longleftrightarrow> us_id q = us_id r \<and> us_kind q = us_kind r \<and> us_ref q = us_ref r \<and>
     us_namespace q = us_namespace r \<and> us_first q = us_first r \<and> (us_dep r \<noteq> None \<longrightarrow> us_dep q = us_dep r)"

definition ledger_grows :: "ledger \<Rightarrow> ledger \<Rightarrow> bool" where
  "ledger_grows l l' \<longleftrightarrow> lg_metrics l' = lg_metrics l \<and> lg_rates l' = lg_rates l \<and>
     (\<exists>new. lg_samples l' = lg_samples l @ new) \<and>
     (\<exists>old new. lg_subjects l' = old @ new \<and> list_all2 subject_kept (lg_subjects l) old)"

lemma subject_kept_refl [simp]: "subject_kept r r"
  by (simp add: subject_kept_def)

lemma subject_kept_key: "subject_kept r q \<Longrightarrow> us_key q = us_key r \<and> us_id q = us_id r"
  by (simp add: subject_kept_def us_key_def)

lemma ledger_grows_refl [simp]: "ledger_grows l l"
  unfolding ledger_grows_def
  by (intro conjI refl exI[of _ "lg_subjects l"] exI[of _ "[]"]) (simp_all add: list_all2_refl)

lemma ledger_grows_trans: "ledger_grows a b \<Longrightarrow> ledger_grows b c \<Longrightarrow> ledger_grows a c"
proof -
  assume ab: "ledger_grows a b" and bc: "ledger_grows b c"
  obtain o1 n1 where 1: "lg_subjects b = o1 @ n1" "list_all2 subject_kept (lg_subjects a) o1"
    using ab by (auto simp: ledger_grows_def)
  obtain o2 n2 where 2: "lg_subjects c = o2 @ n2" "list_all2 subject_kept (lg_subjects b) o2"
    using bc by (auto simp: ledger_grows_def)
  from 1 2 obtain o3 o4 where 3: "o2 = o3 @ o4" "list_all2 subject_kept o1 o3"
    by (auto simp: list_all2_append1)
  have "list_all2 subject_kept (lg_subjects a) o3"
    by (rule list_all2_trans[OF _ 1(2) 3(2)]) (auto simp: subject_kept_def)
  with 2 3 have "lg_subjects c = o3 @ (o4 @ n2) \<and> list_all2 subject_kept (lg_subjects a) o3" by simp
  with ab bc show ?thesis by (auto simp: ledger_grows_def)
qed

lemma ledger_grows_subject:
  assumes "ledger_grows l l'" "r \<in> set (lg_subjects l)"
  shows "\<exists>q \<in> set (lg_subjects l'). subject_kept r q"
proof -
  obtain old new where o: "lg_subjects l' = old @ new" "list_all2 subject_kept (lg_subjects l) old"
    using assms(1) by (auto simp: ledger_grows_def)
  from assms(2) obtain i where "i < length (lg_subjects l)" "lg_subjects l ! i = r" by (auto simp: in_set_conv_nth)
  with o have "subject_kept r (old ! i)" "old ! i \<in> set (lg_subjects l')"
    by (auto simp: list_all2_conv_all_nth)
  then show ?thesis by blast
qed

lemma ledger_grows_samples: "ledger_grows l l' \<Longrightarrow> set (lg_samples l) \<subseteq> set (lg_samples l')"
  by (auto simp: ledger_grows_def)

lemma row_upd_kept:
  "(\<And>r. subject_kept r (f r)) \<Longrightarrow> list_all2 subject_kept rs (row_upd us_key k f rs)"
  by (simp add: row_upd_def list_all2_conv_all_nth)

lemma refresh_kept [simp]: "subject_kept r (refresh t p r)"
  by (auto simp: subject_kept_def refresh_def coalesce_def split: option.splits)

section \<open>Upserting subjects\<close>

definition ids_ok :: "ledger \<Rightarrow> subject_ids \<Rightarrow> bool" where
  "ids_ok l ids \<longleftrightarrow> (\<forall>k i. ids k = Some i \<longrightarrow> (\<exists>r \<in> set (lg_subjects l). us_key r = k \<and> us_id r = i))"

lemma subject_grows_key:
  "ledger_grows l l' \<Longrightarrow> r \<in> set (lg_subjects l) \<Longrightarrow> \<exists>q \<in> set (lg_subjects l'). us_key q = us_key r \<and> us_id q = us_id r"
proof -
  assume "ledger_grows l l'" "r \<in> set (lg_subjects l)"
  then obtain q where q: "q \<in> set (lg_subjects l')" "subject_kept r q"
    using ledger_grows_subject by blast
  show ?thesis using subject_kept_key[OF q(2)] by (intro bexI[OF _ q(1)])
qed

lemma ids_ok_grows:
  assumes "ids_ok l ids" "ledger_grows l l'"
  shows "ids_ok l' ids"
  unfolding ids_ok_def
proof (intro allI impI)
  fix k i assume "ids k = Some i"
  then obtain r where "r \<in> set (lg_subjects l)" "us_key r = k" "us_id r = i"
    using assms(1) unfolding ids_ok_def by blast
  then show "\<exists>r \<in> set (lg_subjects l'). us_key r = k \<and> us_id r = i"
    using subject_grows_key[OF assms(2)] by blast
qed

lemma ids_okD:
  assumes "ids_ok l ids" "k \<in> dom ids"
  shows "\<exists>r \<in> set (lg_subjects l). us_key r = k \<and> ids k = Some (us_id r)"
proof -
  obtain i where "ids k = Some i" using assms(2) by blast
  with assms(1) show ?thesis unfolding ids_ok_def by fastforce
qed

lemma upsert_row_ok:
  assumes "upsert_row seen p (ids, l) = (ids', l')" "lg_ok l" "ids_ok l ids"
  shows "lg_ok l' \<and> ids_ok l' ids' \<and> ledger_grows l l' \<and> lg_samples l' = lg_samples l \<and>
         dom ids' = insert (spec_key p) (dom ids)"
proof (cases "row_get us_key (spec_key p) (lg_subjects l)")
  case None
  let ?r = "fresh_subject (lg_next l) seen p"
  have l': "l' = l\<lparr>lg_subjects := lg_subjects l @ [?r], lg_next := Suc (lg_next l)\<rparr>"
    and ids': "ids' = ids(spec_key p \<mapsto> lg_next l)"
    using assms(1) None by (auto simp: upsert_row_def)
  have key: "us_key ?r = spec_key p" "us_id ?r = lg_next l"
    by (simp_all add: us_key_def spec_key_def fresh_subject_def)
  have g: "ledger_grows l l'" by (auto simp: ledger_grows_def l' list_all2_refl)
  have "lg_ok l'"
    using assms(2) None key by (auto simp: lg_ok_def l' row_get_None_iff less_Suc_eq)
  moreover have "ids_ok l' ids'"
    using assms(3) key by (auto simp: ids_ok_def ids' l')
  ultimately show ?thesis using g by (auto simp: l' ids')
next
  case (Some r)
  have l': "l' = l\<lparr>lg_subjects := row_upd us_key (spec_key p) (refresh seen p) (lg_subjects l), lg_next := Suc (lg_next l)\<rparr>"
    and ids': "ids' = ids(spec_key p \<mapsto> us_id r)"
    using assms(1) Some by (auto simp: upsert_row_def)
  have g: "ledger_grows l l'"
    unfolding ledger_grows_def
    by (intro conjI exI[of _ "row_upd us_key (spec_key p) (refresh seen p) (lg_subjects l)"] exI[of _ "[]"] row_upd_kept)
       (simp_all add: l')
  have m: "map us_key (lg_subjects l') = map us_key (lg_subjects l)" "map us_id (lg_subjects l') = map us_id (lg_subjects l)"
    by (simp_all add: l' map_key_row_upd refresh_def us_key_def)
  have s: "us_id ` set (lg_subjects l') = us_id ` set (lg_subjects l)"
    using arg_cong[OF m(2), of set] by simp
  have n: "\<forall>q \<in> set (lg_subjects l'). us_id q < lg_next l'"
  proof
    fix q assume "q \<in> set (lg_subjects l')"
    then have "us_id q \<in> us_id ` set (lg_subjects l)" using s by blast
    with assms(2) show "us_id q < lg_next l'" by (force simp: lg_ok_def l')
  qed
  have sm: "lg_samples l' = lg_samples l" by (simp add: l')
  have "lg_ok l'" using assms(2) n unfolding lg_ok_def m s sm by blast
  moreover obtain q where q: "q \<in> set (lg_subjects l')" "us_key q = spec_key p" "us_id q = us_id r"
    using subject_grows_key[OF g] row_get_SomeD[OF Some] by metis
  then have "ids_ok l' ids'"
    using ids_ok_grows[OF assms(3) g] by (simp add: ids_ok_def ids') blast
  ultimately show ?thesis using g sm by (auto simp: ids')
qed

lemma upsert_rows_ok:
  assumes "fold (upsert_row seen) ps (ids, l) = (ids', l')" "lg_ok l" "ids_ok l ids"
  shows "lg_ok l' \<and> ids_ok l' ids' \<and> ledger_grows l l' \<and> lg_samples l' = lg_samples l \<and>
         dom ids' = spec_key ` set ps \<union> dom ids"
  using assms
proof (induction ps arbitrary: ids l)
  case (Cons p ps)
  obtain ids1 l1 where 1: "upsert_row seen p (ids, l) = (ids1, l1)" by fastforce
  note step = upsert_row_ok[OF this Cons.prems(2,3)]
  from 1 Cons.prems(1) have "fold (upsert_row seen) ps (ids1, l1) = (ids', l')" by simp
  from Cons.IH[OF this] step show ?case by (auto intro: ledger_grows_trans)
qed auto

text \<open>Merging keeps one spec per identity.\<close>

lemma merge_spec_keys: "fst ` set (merge_spec p m) = insert (spec_key p) (fst ` set m)"
proof -
  have "fst ` set (AList.update k x m) = insert k (fst ` set m)" for x :: subject_spec and k
    using dom_update[of k x m] by (simp add: dom_map_of_conv_image_fst insert_absorb)
  moreover have "spec_key p \<in> fst ` set m" if "map_of m (spec_key p) = Some y" for y
    using that by (metis domI dom_map_of_conv_image_fst)
  ultimately show ?thesis by (auto simp: merge_spec_def split: option.splits)
qed

definition own_keys :: "((subject_kind \<times> string) \<times> subject_spec) list \<Rightarrow> bool" where
  "own_keys m \<longleftrightarrow> (\<forall>e \<in> set m. spec_key (snd e) = fst e)"

lemma own_keys_update: "own_keys m \<Longrightarrow> own_keys (AList.update (spec_key p) p m)"
  by (induction m) (auto simp: own_keys_def)

lemma merge_spec_own: "own_keys m \<Longrightarrow> own_keys (merge_spec p m)"
proof -
  assume m: "own_keys m"
  have "own_keys (AList.update (spec_key p) (y\<lparr>ss_dep := d\<rparr>) m)" if "map_of m (spec_key p) = Some y" for y d
  proof -
    have "spec_key (y\<lparr>ss_dep := d\<rparr>) = spec_key p"
      using m map_of_SomeD[OF that] by (auto simp: own_keys_def spec_key_def)
    with own_keys_update[OF m, of "y\<lparr>ss_dep := d\<rparr>"] show ?thesis by simp
  qed
  then show ?thesis using m own_keys_update[OF m] by (auto simp: merge_spec_def split: option.splits)
qed

lemma fold_merge_own: "own_keys m \<Longrightarrow> own_keys (fold merge_spec ps m)"
  by (induction ps arbitrary: m) (simp_all add: merge_spec_own)

lemma fold_merge_keys: "fst ` set (fold merge_spec ps m) = spec_key ` set ps \<union> fst ` set m"
  by (induction ps arbitrary: m) (auto simp: merge_spec_keys)

lemma merged_specs_keys [simp]: "spec_key ` set (merged_specs ps) = spec_key ` set ps"
proof -
  have "own_keys (fold merge_spec ps [])" by (rule fold_merge_own) (simp add: own_keys_def)
  then have "(spec_key \<circ> snd) ` set (fold merge_spec ps []) = fst ` set (fold merge_spec ps [])"
    by (intro image_cong) (auto simp: own_keys_def)
  then show ?thesis by (simp add: merged_specs_def image_comp fold_merge_keys)
qed

lemma upsert_subjects_ok:
  assumes "upsert_subjects seen n ps l = (ids, l')" "lg_ok l" "0 < n"
  shows "lg_ok l' \<and> ids_ok l' ids \<and> ledger_grows l l' \<and> lg_samples l' = lg_samples l \<and>
         dom ids = spec_key ` set ps"
proof -
  have "lg_ok l' \<and> ids_ok l' ids' \<and> ledger_grows l l' \<and> lg_samples l' = lg_samples l \<and>
         dom ids' = spec_key ` set (concat chunks) \<union> dom ids"
    if "fold (upsert_chunk seen) chunks (ids, l) = (ids', l')" "lg_ok l" "ids_ok l ids" for chunks ids l ids' l'
    using that
  proof (induction chunks arbitrary: ids l)
    case (Cons c cs)
    obtain ids1 l1 where 1: "upsert_chunk seen c (ids, l) = (ids1, l1)" by fastforce
    then have "fold (upsert_row seen) (merged_specs c) (ids, l) = (ids1, l1)" by (simp add: upsert_chunk_def)
    note step = upsert_rows_ok[OF this Cons.prems(2,3)]
    from 1 Cons.prems(1) have "fold (upsert_chunk seen) cs (ids1, l1) = (ids', l')" by simp
    from Cons.IH[OF this] step show ?case by (auto intro: ledger_grows_trans)
  qed auto
  from this[OF assms(1)[unfolded upsert_subjects_def] assms(2)] assms(3) show ?thesis
    by (simp add: ids_ok_def)
qed

section \<open>Recording samples\<close>

lemma insert_samples_append: "insert_samples (xs @ ys) rows = insert_samples ys (insert_samples xs rows)"
  by (simp add: insert_samples_def)

lemma insert_samples_new:
  "\<exists>new. insert_samples xs rows = rows @ new \<and> set new \<subseteq> set xs \<and>
         (keyed sample_key rows \<longrightarrow> keyed sample_key (rows @ new)) \<and>
         sample_key ` set (rows @ new) = sample_key ` set rows \<union> sample_key ` set xs"
proof (induction xs arbitrary: rows)
  case Nil
  then show ?case by (auto simp: insert_samples_def)
next
  case (Cons x xs)
  let ?new = "if sample_key x \<in> sample_key ` set rows then [] else [x]"
  have s: "insert_samples (x # xs) rows = insert_samples xs (rows @ ?new)"
    by (simp add: insert_samples_def insert_sample_def)
  from Cons.IH[of "rows @ ?new"] obtain new where
    n: "insert_samples (x # xs) rows = rows @ (?new @ new)" "set new \<subseteq> set xs"
       "keyed sample_key (rows @ ?new) \<longrightarrow> keyed sample_key ((rows @ ?new) @ new)"
       "sample_key ` set ((rows @ ?new) @ new) = sample_key ` set (rows @ ?new) \<union> sample_key ` set xs"
    unfolding s by (auto simp del: set_append map_append)
  have "keyed sample_key rows \<longrightarrow> keyed sample_key (rows @ ?new)" by auto
  with n show ?case by (intro exI[of _ "?new @ new"]) (auto split: if_splits)
qed

lemma insert_samples_present:
  "sample_key ` set xs \<subseteq> sample_key ` set rows \<Longrightarrow> insert_samples xs rows = rows"
  by (induction xs) (auto simp: insert_samples_def insert_sample_def)

definition catalogued :: "catalog \<Rightarrow> sample_row list \<Rightarrow> bool" where
  "catalogued cat rows \<longleftrightarrow> (\<forall>r \<in> set rows. cat (sr_metric r) \<noteq> None)"

lemma unknown_metrics_Nil: "unknown_metrics cat c = [] \<longleftrightarrow> catalogued cat c"
proof -
  have "unknown_metrics cat c = [] \<longleftrightarrow> set (unknown_metrics cat c) = {}" by simp
  then show ?thesis by (auto simp: unknown_metrics_def catalogued_def simp del: set_empty set_empty2)
qed

lemma record_chunk_eq:
  "catalogued cat c \<Longrightarrow> record_chunk seen cat c (n, l) =
     (let rows = insert_samples (map (to_sample seen cat) c) (lg_samples l)
      in Inr (n + (length rows - length (lg_samples l)), l\<lparr>lg_samples := rows\<rparr>))"
  by (simp add: record_chunk_def unknown_metrics_Nil)

lemma record_samples_chunks:
  assumes "catalogued cat (concat chunks)"
  shows "foldR (record_chunk seen cat) chunks (n, l) =
     (let rows = insert_samples (map (to_sample seen cat) (concat chunks)) (lg_samples l)
      in Inr (n + (length rows - length (lg_samples l)), l\<lparr>lg_samples := rows\<rparr>))"
  using assms
proof (induction chunks arbitrary: n l)
  case Nil
  then show ?case by (simp add: insert_samples_def)
next
  case (Cons c cs)
  from Cons.prems have c: "catalogued cat c" "catalogued cat (concat cs)" by (auto simp: catalogued_def)
  let ?S = "lg_samples l" and ?x = "map (to_sample seen cat) c" and ?y = "map (to_sample seen cat) (concat cs)"
  obtain u where u: "insert_samples ?x ?S = ?S @ u" using insert_samples_new by blast
  obtain v where v: "insert_samples ?y (?S @ u) = (?S @ u) @ v" using insert_samples_new by blast
  show ?case by (simp add: record_chunk_eq[OF c(1)] Cons.IH[OF c(2)] Let_def insert_samples_append u v)
qed

lemma record_samples_eq:
  assumes "catalogued cat rows" "0 < n"
  shows "record_samples seen cat n rows l =
     (let rs = insert_samples (map (to_sample seen cat) rows) (lg_samples l)
      in Inr (length rs - length (lg_samples l), l\<lparr>lg_samples := rs\<rparr>))"
  using assms by (simp add: record_samples_def record_samples_chunks)

lemma record_samples_uncatalogued:
  assumes "\<not> catalogued cat rows" "0 < n"
  shows "\<exists>ms. record_samples seen cat n rows l = Inl (Uncatalogued ms) \<and> ms \<noteq> [] \<and>
              set ms \<subseteq> {m \<in> sr_metric ` set rows. cat m = None}"
proof -
  have "\<exists>ms. foldR (record_chunk seen cat) chunks (k, l) = Inl (Uncatalogued ms) \<and> ms \<noteq> [] \<and>
          set ms \<subseteq> {m \<in> sr_metric ` set (concat chunks). cat m = None}"
    if "\<not> catalogued cat (concat chunks)" for chunks k
    using that
  proof (induction chunks arbitrary: k l)
    case Nil
    then show ?case by (simp add: catalogued_def)
  next
    case (Cons c cs)
    show ?case
    proof (cases "catalogued cat c")
      case True
      with Cons.prems have "\<not> catalogued cat (concat cs)" by (auto simp: catalogued_def)
      from Cons.IH[OF this] obtain ms where
        "foldR (record_chunk seen cat) (c # cs) (k, l) = Inl (Uncatalogued ms)" "ms \<noteq> []"
        "set ms \<subseteq> {m \<in> sr_metric ` set (concat cs). cat m = None}"
        by (simp add: record_chunk_eq[OF True] Let_def) blast
      moreover have "{m \<in> sr_metric ` set (concat cs). cat m = None} \<subseteq> {m \<in> sr_metric ` set (concat (c # cs)). cat m = None}"
        by auto
      ultimately show ?thesis by blast
    next
      case False
      then have "unknown_metrics cat c \<noteq> []" by (simp add: unknown_metrics_Nil)
      then show ?thesis by (auto simp: record_chunk_def unknown_metrics_def)
    qed
  qed
  from this[of "batched n rows"] assms show ?thesis by (simp add: record_samples_def)
qed

section \<open>Recording observations\<close>

lemma mapR_all_Inr: "(\<forall>x \<in> set xs. \<exists>y. f x = Inr y) \<Longrightarrow> mapR f xs = Inr (map (\<lambda>x. projr (f x)) xs)"
  by (induction xs) auto

definition obs_rows :: "subject_ids \<Rightarrow> time \<Rightarrow> int \<Rightarrow> observation list \<Rightarrow> sample_row list" where
  "obs_rows ids start interval obs =
     concat (map (\<lambda>ob. map (\<lambda>(m, v). \<lparr>sr_subject = (case ids (spec_key (ob_subject ob)) of Some i \<Rightarrow> i | None \<Rightarrow> 0),
       sr_metric = m, sr_start = start, sr_interval = interval, sr_value = v\<rparr>) (ob_quantities ob)) obs)"

definition obs_catalogued :: "catalog \<Rightarrow> observation list \<Rightarrow> bool" where
  "obs_catalogued cat obs \<longleftrightarrow> (\<forall>ob \<in> set obs. \<forall>(m, v) \<in> set (ob_quantities ob). cat m \<noteq> None)"

lemma obs_rows_catalogued [simp]: "catalogued cat (obs_rows ids start interval obs) \<longleftrightarrow> obs_catalogued cat obs"
  by (fastforce simp: catalogued_def obs_catalogued_def obs_rows_def)

lemma rows_of_chunk:
  assumes "dom ids = spec_key ` set (map ob_subject chunk)"
  shows "\<exists>rows. mapR (rows_of ids start interval) chunk = Inr rows \<and> concat rows = obs_rows ids start interval chunk"
proof -
  have "\<forall>ob \<in> set chunk. spec_key (ob_subject ob) \<in> dom ids" using assms by simp
  then have "\<forall>ob \<in> set chunk. \<exists>i. ids (spec_key (ob_subject ob)) = Some i" by blast
  then have "\<forall>ob \<in> set chunk. rows_of ids start interval ob =
      Inr (map (\<lambda>(m, v). \<lparr>sr_subject = (case ids (spec_key (ob_subject ob)) of Some i \<Rightarrow> i | None \<Rightarrow> 0),
       sr_metric = m, sr_start = start, sr_interval = interval, sr_value = v\<rparr>) (ob_quantities ob))"
    by (auto simp: rows_of_def)
  then show ?thesis by (simp add: mapR_all_Inr obs_rows_def cong: map_cong)
qed

text \<open>One chunk, as the growth of its subjects followed by the insertion of its samples.\<close>

lemma observe_chunk_cases:
  assumes "lg_ok l" "0 < csize"
  obtains ids l1 where "upsert_subjects seen chunk_size (map ob_subject chunk) l = (ids, l1)"
    "lg_ok l1" "ids_ok l1 ids" "ledger_grows l l1" "lg_samples l1 = lg_samples l"
    "dom ids = spec_key ` ob_subject ` set chunk"
    "observe_chunk start interval seen cat csize chunk (n, l) =
       bindR (record_samples seen cat csize (obs_rows ids start interval chunk) l1) (\<lambda>(k, l2). Inr (n + k, l2))"
proof -
  obtain ids l1 where u: "upsert_subjects seen chunk_size (map ob_subject chunk) l = (ids, l1)" by fastforce
  note ok = upsert_subjects_ok[OF u assms(1) chunk_size_pos]
  then obtain rows where r: "mapR (rows_of ids start interval) chunk = Inr rows"
      "concat rows = obs_rows ids start interval chunk"
    using rows_of_chunk by metis
  show ?thesis
    by (rule that[OF u]) (use ok in \<open>simp_all add: observe_chunk_def u r\<close>)
qed

lemma samples_grow: "ledger_grows l (l\<lparr>lg_samples := lg_samples l @ new\<rparr>)"
proof -
  have "\<exists>old new. lg_subjects l = old @ new \<and> list_all2 subject_kept (lg_subjects l) old"
    by (intro exI[of _ "lg_subjects l"] exI[of _ "[]"]) (simp add: list_all2_refl)
  then show ?thesis by (simp add: ledger_grows_def)
qed

lemma insert_samples_ok:
  assumes "lg_ok l" "\<forall>s \<in> set xs. sm_subject s \<in> us_id ` set (lg_subjects l)"
  shows "lg_ok (l\<lparr>lg_samples := insert_samples xs (lg_samples l)\<rparr>) \<and>
         ledger_grows l (l\<lparr>lg_samples := insert_samples xs (lg_samples l)\<rparr>)"
proof -
  obtain new where new: "insert_samples xs (lg_samples l) = lg_samples l @ new" "set new \<subseteq> set xs"
      "keyed sample_key (lg_samples l) \<longrightarrow> keyed sample_key (lg_samples l @ new)"
    using insert_samples_new[of xs "lg_samples l"] by blast
  have "lg_ok (l\<lparr>lg_samples := lg_samples l @ new\<rparr>)"
    using assms new(2,3) by (auto simp: lg_ok_def)
  then show ?thesis by (simp add: new(1) samples_grow)
qed

text \<open>An observation the ledger already holds, whatever was measured for it.\<close>

definition held :: "ledger \<Rightarrow> catalog \<Rightarrow> time \<Rightarrow> observation \<Rightarrow> bool" where
  "held l cat start ob \<longleftrightarrow> (\<forall>(m, v) \<in> set (ob_quantities ob). \<exists>r \<in> set (lg_subjects l). \<exists>i.
     us_key r = spec_key (ob_subject ob) \<and> cat m = Some i \<and> (us_id r, i, start) \<in> sample_key ` set (lg_samples l))"

lemma held_grows: "held l cat start ob \<Longrightarrow> ledger_grows l l' \<Longrightarrow> held l' cat start ob"
proof -
  assume h: "held l cat start ob" and g: "ledger_grows l l'"
  have sub: "sample_key ` set (lg_samples l) \<subseteq> sample_key ` set (lg_samples l')"
    using ledger_grows_samples[OF g] by blast
  show ?thesis unfolding held_def
  proof (intro ballI, clarify)
    fix m v assume "(m, v) \<in> set (ob_quantities ob)"
    then obtain r i where r: "r \<in> set (lg_subjects l)" "us_key r = spec_key (ob_subject ob)" "cat m = Some i"
        "(us_id r, i, start) \<in> sample_key ` set (lg_samples l)"
      using h unfolding held_def by fast
    obtain q where "q \<in> set (lg_subjects l')" "us_key q = us_key r" "us_id q = us_id r"
      using subject_grows_key[OF g r(1)] by blast
    with r sub show "\<exists>r \<in> set (lg_subjects l'). \<exists>i. us_key r = spec_key (ob_subject ob) \<and> cat m = Some i \<and>
        (us_id r, i, start) \<in> sample_key ` set (lg_samples l')"
      by (metis subsetD)
  qed
qed

lemma obs_rows_subject:
  assumes "ids_ok l ids" "dom ids = spec_key ` ob_subject ` set chunk"
  shows "\<forall>s \<in> set (map (to_sample seen cat) (obs_rows ids start interval chunk)). sm_subject s \<in> us_id ` set (lg_subjects l)"
proof -
  have "(case ids (spec_key (ob_subject ob)) of Some i \<Rightarrow> i | None \<Rightarrow> 0) \<in> us_id ` set (lg_subjects l)"
    if "ob \<in> set chunk" for ob
    using ids_okD[OF assms(1), of "spec_key (ob_subject ob)"] that assms(2) by auto
  then show ?thesis by (auto simp: obs_rows_def to_sample_def)
qed

lemma observe_chunk_ok:
  assumes "lg_ok l" "0 < csize" "obs_catalogued cat chunk"
  shows "\<exists>k l'. observe_chunk start interval seen cat csize chunk (n, l) = Inr (n + k, l') \<and> lg_ok l' \<and>
           ledger_grows l l' \<and> k = length (lg_samples l') - length (lg_samples l) \<and> (\<forall>ob \<in> set chunk. held l' cat start ob)"
proof -
  obtain ids l1 where u: "lg_ok l1" "ids_ok l1 ids" "ledger_grows l l1" "lg_samples l1 = lg_samples l"
      "dom ids = spec_key ` ob_subject ` set chunk"
      "observe_chunk start interval seen cat csize chunk (n, l) =
         bindR (record_samples seen cat csize (obs_rows ids start interval chunk) l1) (\<lambda>(k, l2). Inr (n + k, l2))"
    by (rule observe_chunk_cases[OF assms(1,2)]) blast
  let ?xs = "map (to_sample seen cat) (obs_rows ids start interval chunk)"
  let ?l2 = "l1\<lparr>lg_samples := insert_samples ?xs (lg_samples l1)\<rparr>"
  note ok = insert_samples_ok[OF u(1) obs_rows_subject[OF u(2,5)], of seen cat start interval]
  have "held ?l2 cat start ob" if ob: "ob \<in> set chunk" for ob
    unfolding held_def
  proof (intro ballI, clarify)
    fix m v assume q: "(m, v) \<in> set (ob_quantities ob)"
    obtain i where i: "cat m = Some i" using assms(3) ob q by (fastforce simp: obs_catalogued_def)
    have "spec_key (ob_subject ob) \<in> dom ids" using ob u(5) by blast
    then obtain r where r: "r \<in> set (lg_subjects l1)" "us_key r = spec_key (ob_subject ob)"
        "ids (spec_key (ob_subject ob)) = Some (us_id r)"
      using ids_okD[OF u(2)] by blast
    have "(us_id r, i, start) \<in> sample_key ` set ?xs"
      using ob q r(3) i by (force simp: obs_rows_def to_sample_def sample_key_def image_iff)
    moreover have "sample_key ` set ?xs \<subseteq> sample_key ` set (insert_samples ?xs (lg_samples l1))"
      using insert_samples_new[of ?xs "lg_samples l1"] by auto
    ultimately have "(us_id r, i, start) \<in> sample_key ` set (insert_samples ?xs (lg_samples l1))" by (rule subsetD[rotated])
    then show "\<exists>r \<in> set (lg_subjects ?l2). \<exists>i. us_key r = spec_key (ob_subject ob) \<and> cat m = Some i \<and>
        (us_id r, i, start) \<in> sample_key ` set (lg_samples ?l2)"
      using r(1,2) i by (intro bexI[of _ r] exI[of _ i]) simp_all
  qed
  with u ok assms(2,3) show ?thesis
    by (auto simp: record_samples_eq Let_def intro: ledger_grows_trans)
qed

lemma observe_chunk_held:
  assumes "lg_ok l" "0 < csize" "\<forall>ob \<in> set chunk. held l cat start ob"
  shows "\<exists>l'. observe_chunk start interval seen cat csize chunk (n, l) = Inr (n, l') \<and> lg_ok l' \<and>
           ledger_grows l l' \<and> lg_samples l' = lg_samples l"
proof -
  obtain ids l1 where u: "lg_ok l1" "ids_ok l1 ids" "ledger_grows l l1" "lg_samples l1 = lg_samples l"
      "dom ids = spec_key ` ob_subject ` set chunk"
      "observe_chunk start interval seen cat csize chunk (n, l) =
         bindR (record_samples seen cat csize (obs_rows ids start interval chunk) l1) (\<lambda>(k, l2). Inr (n + k, l2))"
    by (rule observe_chunk_cases[OF assms(1,2)]) blast
  let ?xs = "map (to_sample seen cat) (obs_rows ids start interval chunk)"
  have h: "\<forall>ob \<in> set chunk. held l1 cat start ob" using assms(3) u(3) held_grows by blast
  then have "obs_catalogued cat chunk" by (fastforce simp: obs_catalogued_def held_def)
  moreover have "sample_key ` set ?xs \<subseteq> sample_key ` set (lg_samples l1)"
  proof -
    have "(case ids (spec_key (ob_subject ob)) of Some i \<Rightarrow> i | None \<Rightarrow> 0, case cat m of Some i \<Rightarrow> i | None \<Rightarrow> 0, start)
        \<in> sample_key ` set (lg_samples l1)" if ob: "ob \<in> set chunk" and q: "(m, v) \<in> set (ob_quantities ob)" for ob m v
    proof -
      obtain r i where r: "r \<in> set (lg_subjects l1)" "us_key r = spec_key (ob_subject ob)" "cat m = Some i"
          "(us_id r, i, start) \<in> sample_key ` set (lg_samples l1)"
        using h ob q by (fastforce simp: held_def)
      have "spec_key (ob_subject ob) \<in> dom ids" using ob u(5) by blast
      then obtain r' where "r' \<in> set (lg_subjects l1)" "us_key r' = spec_key (ob_subject ob)"
          "ids (spec_key (ob_subject ob)) = Some (us_id r')"
        using ids_okD[OF u(2)] by blast
      moreover from this r u(1) have "r' = r" by (auto simp: lg_ok_def intro: keyed_unique)
      ultimately show ?thesis using r by simp
    qed
    then show ?thesis by (auto simp: obs_rows_def to_sample_def sample_key_def image_image)
  qed
  then have "insert_samples ?xs (lg_samples l1) = lg_samples l1" by (rule insert_samples_present)
  ultimately have "observe_chunk start interval seen cat csize chunk (n, l) = Inr (n, l1)"
    using u(6) assms(2) by (simp add: record_samples_eq)
  with u show ?thesis by blast
qed

lemma record_observations_ok:
  assumes "lg_ok l" "0 < csize" "obs_catalogued cat obs"
  shows "\<exists>k l'. record_observations start interval seen cat csize obs l = Inr (k, l') \<and> lg_ok l' \<and>
           ledger_grows l l' \<and> k = length (lg_samples l') - length (lg_samples l) \<and> (\<forall>ob \<in> set obs. held l' cat start ob)"
proof -
  have "\<exists>k l'. foldR (observe_chunk start interval seen cat csize) chunks (n, l) = Inr (n + k, l') \<and> lg_ok l' \<and>
           ledger_grows l l' \<and> k = length (lg_samples l') - length (lg_samples l) \<and> (\<forall>ob \<in> set (concat chunks). held l' cat start ob)"
    if "lg_ok l" "obs_catalogued cat (concat chunks)" for chunks n l
    using that
  proof (induction chunks arbitrary: n l)
    case (Cons c cs)
    from Cons.prems(2) have c: "obs_catalogued cat c" "obs_catalogued cat (concat cs)" by (auto simp: obs_catalogued_def)
    obtain k l1 where 1: "observe_chunk start interval seen cat csize c (n, l) = Inr (n + k, l1)" "lg_ok l1" "ledger_grows l l1"
        "k = length (lg_samples l1) - length (lg_samples l)" "\<forall>ob \<in> set c. held l1 cat start ob"
      using observe_chunk_ok[OF Cons.prems(1) assms(2) c(1)] by blast
    obtain k' l2 where 2: "foldR (observe_chunk start interval seen cat csize) cs (n + k, l1) = Inr (n + k + k', l2)" "lg_ok l2"
        "ledger_grows l1 l2" "k' = length (lg_samples l2) - length (lg_samples l1)" "\<forall>ob \<in> set (concat cs). held l2 cat start ob"
      using Cons.IH[OF 1(2) c(2)] by blast
    have "length (lg_samples l) \<le> length (lg_samples l1)" "length (lg_samples l1) \<le> length (lg_samples l2)"
      using 1(3) 2(3) by (auto simp: ledger_grows_def)
    with 1 2 show ?case
      by (intro exI[of _ "k + k'"] exI[of _ l2]) (auto intro: ledger_grows_trans held_grows)
  qed auto
  from this[OF assms(1), of "batched csize obs" 0] assms show ?thesis by (simp add: record_observations_def)
qed

lemma record_observations_held:
  assumes "lg_ok l" "0 < csize" "\<forall>ob \<in> set obs. held l cat start ob"
  shows "\<exists>l'. record_observations start interval seen cat csize obs l = Inr (0, l') \<and> lg_ok l' \<and>
           ledger_grows l l' \<and> lg_samples l' = lg_samples l"
proof -
  have "\<exists>l'. foldR (observe_chunk start interval seen cat csize) chunks (n, l) = Inr (n, l') \<and> lg_ok l' \<and>
           ledger_grows l l' \<and> lg_samples l' = lg_samples l"
    if "lg_ok l" "\<forall>ob \<in> set (concat chunks). held l cat start ob" for chunks n l
    using that
  proof (induction chunks arbitrary: l)
    case (Cons c cs)
    obtain l1 where 1: "observe_chunk start interval seen cat csize c (n, l) = Inr (n, l1)" "lg_ok l1" "ledger_grows l l1"
        "lg_samples l1 = lg_samples l"
      using observe_chunk_held[OF Cons.prems(1) assms(2)] Cons.prems(2) by (metis UnCI concat.simps(2) set_append)
    have "\<forall>ob \<in> set (concat cs). held l1 cat start ob" using Cons.prems(2) held_grows[OF _ 1(3)] by auto
    from Cons.IH[OF 1(2) this] 1 show ?case by (auto intro: ledger_grows_trans)
  qed auto
  from this[OF assms(1), of "batched csize obs" 0] assms show ?thesis by (simp add: record_observations_def)
qed

end
