(* ===== verification/UsageSampler.thy ===== *)
theory UsageSampler
  imports UsageLedger
begin

text \<open>
  Which windows to read, in what order and when to stop: \<^verbatim>\<open>app/services/usage/sampler.py\<close>. A
  source is a record of its name, the metrics its position rests on, and what a window read from it
  yields; a pass runs the sources one after another, each from its own position, committing a
  window at a time.
\<close>

section \<open>The grid\<close>

definition micros :: "int \<Rightarrow> time" where "micros s = s * 1000000"

text \<open>\<^verbatim>\<open>int(delta.total_seconds())\<close>: truncated towards zero.\<close>

definition whole_seconds :: "time \<Rightarrow> int" where
  "whole_seconds t = (if 0 \<le> t then t div 1000000 else - ((- t) div 1000000))"

definition align :: "int \<Rightarrow> time \<Rightarrow> time" where
  "align w t = (let e = whole_seconds t in micros (e - e mod w))"

record usage_settings =
  uc_window :: int
  uc_settle :: int
  uc_lookback :: int
  uc_max_windows :: nat
  uc_environment :: string
  uc_builds_namespace :: string
  uc_db_namespace :: string
  uc_bucket_namespace :: string

record source =
  src_name :: string
  src_metrics :: "string list"
  src_read :: "db \<Rightarrow> time \<Rightarrow> int \<Rightarrow> usage_error + observation list option"

section \<open>Where a source is\<close>

definition position_of :: "ledger \<Rightarrow> nat \<Rightarrow> time option" where
  "position_of l m =
     (case filter (\<lambda>s. sm_metric s = m) (lg_samples l) of
        [] \<Rightarrow> None
      | ss \<Rightarrow> Some (Max (sm_start ` set ss)))"

definition last_recorded_window :: "ledger \<Rightarrow> string list \<Rightarrow> time option" where
  "last_recorded_window l names =
     (let ids = map um_id (filter (\<lambda>m. um_name m \<in> set names) (lg_metrics l));
          ps = concat (map (\<lambda>i. case position_of l i of None \<Rightarrow> [] | Some p \<Rightarrow> [p]) ids)
      in if ps = [] then None else Some (Max (set ps)))"

definition resume_from :: "usage_settings \<Rightarrow> time \<Rightarrow> string list \<Rightarrow> ledger \<Rightarrow> time" where
  "resume_from c now names l =
     (case last_recorded_window l names of
        Some p \<Rightarrow> align (uc_window c) p + micros (uc_window c)
      | None \<Rightarrow> align (uc_window c) (now - micros (uc_lookback c)))"

definition recordable_until :: "usage_settings \<Rightarrow> time \<Rightarrow> time" where
  "recordable_until c now = align (uc_window c) (now - micros (uc_settle c))"

definition pending_windows :: "usage_settings \<Rightarrow> time \<Rightarrow> string list \<Rightarrow> ledger \<Rightarrow> time list" where
  "pending_windows c now names l =
     (let start = resume_from c now names l;
          span = whole_seconds (recordable_until c now - start);
          n = min (uc_max_windows c) (nat (max 0 (span div uc_window c)))
      in map (\<lambda>i. start + micros (int i * uc_window c)) [0..<n])"

section \<open>A pass\<close>

definition record_source_window ::
    "usage_settings \<Rightarrow> db \<Rightarrow> time \<Rightarrow> catalog \<Rightarrow> source \<Rightarrow> time \<Rightarrow> ledger \<Rightarrow> usage_error + (nat \<times> ledger) option" where
  "record_source_window c s now cat src w l =
     bindR (src_read src s w (uc_window c)) (\<lambda>r.
       case r of
         None \<Rightarrow> Inr None
       | Some obs \<Rightarrow> bindR (record_observations w (uc_window c) now cat chunk_size obs l) (\<lambda>x. Inr (Some x)))"

record sample_run =
  run_recorded :: nat
  run_skipped :: nat
  run_samples :: nat
  run_reasons :: "(string \<times> time) list"
  run_failed :: "string list"

definition no_run :: sample_run where
  "no_run = \<lparr>run_recorded = 0, run_skipped = 0, run_samples = 0, run_reasons = [], run_failed = []\<rparr>"

text \<open>
  The loop over one source's windows: the ledger it is given is the committed one, so an error or an
  unusable window, which roll back, leave it as it is.
\<close>

fun sample_windows ::
    "usage_settings \<Rightarrow> db \<Rightarrow> time \<Rightarrow> catalog \<Rightarrow> source \<Rightarrow> time list \<Rightarrow> sample_run \<times> ledger \<Rightarrow> sample_run \<times> ledger" where
  "sample_windows c s now cat src [] (r, l) = (r, l)"
| "sample_windows c s now cat src (w # ws) (r, l) =
     (case record_source_window c s now cat src w l of
        Inl _ \<Rightarrow> (r\<lparr>run_failed := run_failed r @ [src_name src]\<rparr>, l)
      | Inr None \<Rightarrow> (r\<lparr>run_skipped := Suc (run_skipped r), run_reasons := run_reasons r @ [(src_name src, w)]\<rparr>, l)
      | Inr (Some (n, l')) \<Rightarrow>
          sample_windows c s now cat src ws
            (r\<lparr>run_recorded := Suc (run_recorded r), run_samples := run_samples r + n\<rparr>, l'))"

definition sample_source ::
    "usage_settings \<Rightarrow> db \<Rightarrow> time \<Rightarrow> catalog \<Rightarrow> source \<Rightarrow> sample_run \<times> ledger \<Rightarrow> sample_run \<times> ledger" where
  "sample_source c s now cat src = (\<lambda>(r, l).
     sample_windows c s now cat src (pending_windows c now (src_metrics src) l) (r, l))"

definition sample_once :: "usage_settings \<Rightarrow> db \<Rightarrow> time \<Rightarrow> source list \<Rightarrow> ledger \<Rightarrow> sample_run \<times> ledger" where
  "sample_once c s now srcs l =
     fold (\<lambda>src. sample_source c s now (metric_ids l) src) srcs (no_run, l)"

section \<open>The grid, in numbers\<close>

definition on_grid :: "int \<Rightarrow> time \<Rightarrow> bool" where
  "on_grid w t \<longleftrightarrow> micros w dvd t"

lemma micros_dvd: "micros w dvd micros x \<longleftrightarrow> w dvd x"
  by (simp add: micros_def)

lemma align_on_grid [simp]: "on_grid w (align w t)"
  by (simp add: on_grid_def align_def Let_def micros_dvd mod_eq_dvd_iff[symmetric] minus_mod_eq_mult_div)

lemma align_id: "on_grid w t \<Longrightarrow> align w t = t"
proof -
  assume "on_grid w t"
  then obtain k where t: "t = micros (w * k)" by (auto simp: on_grid_def dvd_def micros_def algebra_simps)
  then have "whole_seconds t = w * k" by (auto simp: whole_seconds_def micros_def)
  then show ?thesis by (simp add: align_def t)
qed

lemma align_le: "0 < w \<Longrightarrow> 0 \<le> t \<Longrightarrow> align w t \<le> t \<and> t < align w t + micros w"
proof -
  assume w: "0 < w" and t: "0 \<le> t"
  let ?e = "t div 1000000"
  have a: "align w t = micros (?e - ?e mod w)" using t by (simp add: align_def whole_seconds_def Let_def)
  have "0 \<le> ?e mod w" "?e mod w < w" using w by simp_all
  then have "micros (?e - ?e mod w) \<le> micros ?e" "micros (?e + 1) \<le> micros (?e - ?e mod w) + micros w"
    by (auto simp: micros_def)
  moreover have "micros ?e \<le> t" "t < micros (?e + 1)" by (auto simp: micros_def)
  ultimately show ?thesis unfolding a by linarith
qed

lemma on_grid_add: "on_grid w t \<Longrightarrow> on_grid w (t + micros (k * w))"
  by (simp add: on_grid_def micros_def mult.assoc)

lemma micros_pos: "0 < w \<Longrightarrow> 0 < micros w"
  by (simp add: micros_def)

end
