(* ===== verification/UsageBuilds.thy ===== *)
theory UsageBuilds
  imports UsageSampler Decimal
begin

text \<open>
  A build's usage: \<^verbatim>\<open>app/services/usage/builds.py\<close>. The share of every window a run spans, and the
  pass that writes each finished build's samples and its mark in one transaction.
\<close>

section \<open>The envelope of a build Job\<close>

definition cpu_request :: string where "cpu_request = ''500m''"
definition cpu_limit :: string where "cpu_limit = ''4''"
definition memory_request :: string where "memory_request = ''1Gi''"
definition memory_limit :: string where "memory_limit = ''6Gi''"

definition seconds_per_hour :: rat where "seconds_per_hour = 3600"

definition binary_suffixes :: "(string \<times> int) list" where
  "binary_suffixes = [(''Ki'', 1024), (''Mi'', 1048576), (''Gi'', 1073741824), (''Ti'', 1099511627776)]"

definition cores :: "string \<Rightarrow> rat option" where
  "cores q = (if ends_with q ''m'' then map_option (\<lambda>x. dec_div x 1000) (decimal_of (butlast q)) else decimal_of q)"

definition byte_count :: "string \<Rightarrow> rat option" where
  "byte_count q =
     (case find (\<lambda>(u, n). ends_with q u) binary_suffixes of
        Some (u, n) \<Rightarrow> map_option (\<lambda>x. dec_mul x (of_int n)) (decimal_of (take (length q - length u) q))
      | None \<Rightarrow> decimal_of q)"

text \<open>The module's constants: reading them at import raises if a quantity is not one.\<close>

definition or_zero :: "rat option \<Rightarrow> rat" where
  "or_zero x = (case x of Some v \<Rightarrow> v | None \<Rightarrow> 0)"

definition cpu_request_cores :: rat where "cpu_request_cores = or_zero (cores cpu_request)"
definition cpu_limit_cores :: rat where "cpu_limit_cores = or_zero (cores cpu_limit)"
definition memory_request_bytes :: rat where "memory_request_bytes = or_zero (byte_count memory_request)"
definition memory_limit_bytes :: rat where "memory_limit_bytes = or_zero (byte_count memory_limit)"

lemma literals:
  "decimal_of ''500'' = Some 500" "decimal_of ''4'' = Some 4" "decimal_of ''1'' = Some 1" "decimal_of ''6'' = Some 6"
  by code_simp+

lemma products: "dec_div 500 1000 = 1/2" "dec_mul 1 1073741824 = 1073741824" "dec_mul 6 1073741824 = 6442450944"
  using dec_round_exact[of 5 "1/2" 1] dec_round_exact[of 1073741824 1073741824 0] dec_round_exact[of 6442450944 6442450944 0]
  by (simp_all add: dec_div_def dec_mul_def)

lemma cores_eval: "cores cpu_request = Some (1/2)" "cores cpu_limit = Some 4"
  by (simp_all add: cores_def cpu_request_def cpu_limit_def ends_with_def literals products)

lemma bytes_eval: "byte_count memory_request = Some 1073741824" "byte_count memory_limit = Some 6442450944"
  by (simp_all add: byte_count_def memory_request_def memory_limit_def binary_suffixes_def ends_with_def literals products)

lemma envelope [simp]:
  "cpu_request_cores = 1/2" "cpu_limit_cores = 4" "memory_request_bytes = 1073741824" "memory_limit_bytes = 6442450944"
  by (simp_all add: cpu_request_cores_def cpu_limit_cores_def memory_request_bytes_def memory_limit_bytes_def
        cores_eval bytes_eval or_zero_def)

section \<open>A build's row\<close>

record usage_build = build +
  ub_cpu :: "rat option"
  ub_memory :: "int option"
  ub_peak :: "int option"
  ub_started :: "time option"
  ub_finished :: "time option"
  ub_recorded :: "time option"

definition is_measured :: "usage_build \<Rightarrow> bool" where
  "is_measured b \<longleftrightarrow> ub_cpu b \<noteq> None \<and> ub_memory b \<noteq> None \<and> ub_started b \<noteq> None \<and> ub_finished b \<noteq> None"

definition run_of :: "usage_build \<Rightarrow> (time \<times> time) option" where
  "run_of b =
     (let (start, end') = (if is_measured b then (ub_started b, ub_finished b) else (b_started_at b, b_finished_at b))
      in case (start, end') of (Some s, Some e) \<Rightarrow> Some (s, e) | _ \<Rightarrow> None)"

section \<open>The share of each window\<close>

definition dec_seconds :: "time \<Rightarrow> rat" where
  "dec_seconds d = dec_div (of_int d) 1000000"

record window_usage =
  wu_start :: time
  wu_quantities :: "(string \<times> rat) list"

text \<open>The starts the loop visits; the window length is a positive number of seconds.\<close>

function window_starts :: "int \<Rightarrow> time \<Rightarrow> time \<Rightarrow> time list" where
  "window_starts w s e = (if s < e \<and> 0 < w then s # window_starts w (s + micros w) e else [])"
  by pat_completeness auto

termination window_starts
  by (relation "measure (\<lambda>(w, s, e). nat (e - s))") (auto simp: micros_def)

declare window_starts.simps [simp del]

definition overlap_of :: "int \<Rightarrow> time \<Rightarrow> time \<Rightarrow> time \<Rightarrow> rat" where
  "overlap_of w start end' ws = dec_seconds (min end' (ws + micros w) - max start ws)"

definition window_quantities :: "int \<Rightarrow> usage_build \<Rightarrow> window_usage list" where
  "window_quantities w b =
     (case run_of b of
        None \<Rightarrow> []
      | Some (start, end') \<Rightarrow>
          if end' \<le> start then []
          else let wall = dec_seconds (end' - start) in
          map (\<lambda>ws.
            (let overlap = overlap_of w start end' ws;
                 share = dec_div overlap wall;
                 hours = dec_div overlap seconds_per_hour;
                 cpu_floor = dec_mul cpu_request_cores hours;
                 memory_floor = dec_mul memory_request_bytes hours;
                 held = [(''cpu_request_cores_avg'', cpu_request_cores), (''cpu_limit_cores_avg'', cpu_limit_cores),
                         (''ram_request_bytes_avg'', memory_request_bytes), (''ram_limit_bytes_avg'', memory_limit_bytes),
                         (''running_seconds'', overlap)];
                 used = (case (is_measured b, ub_cpu b, ub_memory b) of
                           (True, Some cpu, Some mem) \<Rightarrow>
                             [(''cpu_core_hours'', max cpu_floor (dec_div (dec_mul cpu share) seconds_per_hour)),
                              (''ram_byte_hours'', max memory_floor (dec_div (dec_mul (of_int mem) share) seconds_per_hour)),
                              (''cpu_usage_cores_avg'', dec_div cpu wall),
                              (''ram_usage_bytes_avg'', dec_div (of_int mem) wall)]
                         | _ \<Rightarrow> [(''cpu_core_hours'', cpu_floor), (''ram_byte_hours'', memory_floor)])
             in \<lparr>wu_start = ws, wu_quantities = held @ used\<rparr>))
            (window_starts w (align w start) end'))"

section \<open>Recording\<close>

record record_run =
  rr_builds :: nat
  rr_samples :: nat
  rr_failed :: "uuid list"

definition no_record_run :: record_run where
  "no_record_run = \<lparr>rr_builds = 0, rr_samples = 0, rr_failed = []\<rparr>"

text \<open>\<^verbatim>\<open>greatest\<close> ignores nulls and is null when both are; nulls come last in an ascending order.\<close>

definition greatest :: "time option \<Rightarrow> time option \<Rightarrow> time option" where
  "greatest a b = (case (a, b) of (Some x, Some y) \<Rightarrow> Some (max x y) | (None, y) \<Rightarrow> y | (x, None) \<Rightarrow> x)"

definition nulls_last :: "time option \<Rightarrow> nat \<times> time" where
  "nulls_last t = (case t of None \<Rightarrow> (1, 0) | Some x \<Rightarrow> (0, x))"

definition pending_build :: "time \<Rightarrow> uuid list \<Rightarrow> usage_build \<Rightarrow> bool" where
  "pending_build settled excluded b \<longleftrightarrow>
     (b_status b = BSucceeded \<or> b_status b = BFailed) \<and> b_job_id b \<noteq> None \<and> ub_recorded b = None \<and>
     (case greatest (b_finished_at b) (ub_finished b) of None \<Rightarrow> False | Some t \<Rightarrow> t < settled) \<and>
     b_id b \<notin> set excluded"

definition next_pending :: "time \<Rightarrow> uuid list \<Rightarrow> usage_build list \<Rightarrow> usage_build option" where
  "next_pending settled excluded bs =
     first_by (\<lambda>b. nulls_last (b_finished_at b)) (filter (pending_build settled excluded) bs)"

definition build_spec :: "usage_settings \<Rightarrow> usage_build \<Rightarrow> subject_spec" where
  "build_spec c b = \<lparr>ss_kind = SkBuild, ss_ref = uuid_str (b_id b), ss_namespace = Some (uc_builds_namespace c), ss_dep = Some (b_dep b)\<rparr>"

definition upsert_subject :: "time \<Rightarrow> subject_spec \<Rightarrow> ledger \<Rightarrow> usage_error + nat \<times> ledger" where
  "upsert_subject seen p l =
     (let (ids, l') = upsert_subjects seen chunk_size [p] l
      in case ids (spec_key p) of None \<Rightarrow> Inl (NoSubject (ss_ref p)) | Some i \<Rightarrow> Inr (i, l'))"

definition build_rows :: "int \<Rightarrow> nat \<Rightarrow> window_usage list \<Rightarrow> sample_row list" where
  "build_rows w i windows =
     concat (map (\<lambda>u. map (\<lambda>(m, v). \<lparr>sr_subject = i, sr_metric = m, sr_start = wu_start u,
                                        sr_interval = w, sr_value = v\<rparr>) (wu_quantities u)) windows)"

definition record_build :: "usage_settings \<Rightarrow> time \<Rightarrow> catalog \<Rightarrow> usage_build \<Rightarrow> ledger \<Rightarrow> usage_error + nat \<times> ledger" where
  "record_build c now cat b l =
     (let windows = window_quantities (uc_window c) b in
      bindR (if windows = [] then Inr ([], l)
             else bindR (upsert_subject now (build_spec c b) l) (\<lambda>(i, l1). Inr (build_rows (uc_window c) i windows, l1)))
        (\<lambda>(rows, l1). record_samples now cat chunk_size rows l1))"

definition mark_recorded :: "time \<Rightarrow> usage_build \<Rightarrow> usage_build list \<Rightarrow> usage_build list" where
  "mark_recorded now b bs = row_upd b_id (b_id b) (\<lambda>x. x\<lparr>ub_recorded := Some now\<rparr>) bs"

fun record_loop ::
    "nat \<Rightarrow> usage_settings \<Rightarrow> time \<Rightarrow> time \<Rightarrow> catalog \<Rightarrow> record_run \<times> usage_build list \<times> ledger \<Rightarrow>
       record_run \<times> usage_build list \<times> ledger" where
  "record_loop 0 c now settled cat x = x"
| "record_loop (Suc n) c now settled cat (r, bs, l) =
     (case next_pending settled (rr_failed r) bs of
        None \<Rightarrow> (r, bs, l)
      | Some b \<Rightarrow>
          (case record_build c now cat b l of
             Inl _ \<Rightarrow> record_loop n c now settled cat (r\<lparr>rr_failed := rr_failed r @ [b_id b]\<rparr>, bs, l)
           | Inr (k, l') \<Rightarrow>
               record_loop n c now settled cat
                 (r\<lparr>rr_builds := Suc (rr_builds r), rr_samples := rr_samples r + k\<rparr>, mark_recorded now b bs, l')))"

definition max_builds :: nat where "max_builds = 100"

definition record_settled_builds ::
    "usage_settings \<Rightarrow> time \<Rightarrow> usage_build list \<Rightarrow> ledger \<Rightarrow> record_run \<times> usage_build list \<times> ledger" where
  "record_settled_builds c now bs l =
     record_loop max_builds c now (align (uc_window c) (now - micros (uc_settle c))) (metric_ids l) (no_record_run, bs, l)"

section \<open>The shares add up\<close>

lemma window_starts_Nil: "window_starts w s e = [] \<longleftrightarrow> \<not> (s < e \<and> 0 < w)"
  by (subst window_starts.simps) auto

text \<open>The overlaps of the windows partition the run.\<close>

definition span_in :: "int \<Rightarrow> time \<Rightarrow> time \<Rightarrow> time \<Rightarrow> time" where
  "span_in w start end' ws = min end' (ws + micros w) - max start ws"

lemma spans_sum_from:
  assumes "0 < w" "start \<le> ws"
  shows "sum_list (map (span_in w start e) (window_starts w ws e)) = max 0 (e - ws)"
  using assms
proof (induction w ws e rule: window_starts.induct)
  case (1 w s e)
  show ?case
  proof (cases "s < e")
    case True
    with 1 have "sum_list (map (span_in w start e) (window_starts w (s + micros w) e)) = max 0 (e - (s + micros w))"
      by (simp add: micros_def)
    with True 1(2,3) show ?thesis by (subst window_starts.simps) (auto simp: span_in_def micros_def)
  qed (subst window_starts.simps, auto)
qed

lemma spans_sum:
  assumes "0 < w" "0 \<le> start" "start < e"
  shows "sum_list (map (span_in w start e) (window_starts w (align w start) e)) = e - start"
proof -
  have a: "align w start \<le> start" "start < align w start + micros w" using align_le[OF assms(1,2)] by auto
  then have "window_starts w (align w start) e = align w start # window_starts w (align w start + micros w) e"
    using assms by (subst window_starts.simps) auto
  then show ?thesis using spans_sum_from[of w start "align w start + micros w" e] assms a
    by (auto simp: span_in_def)
qed

lemma window_starts_span:
  assumes "0 < w" "ws \<in> set (window_starts w s e)" "start < e" "s \<le> start" "start < s + micros w"
  shows "0 < span_in w start e ws \<and> span_in w start e ws \<le> micros w"
proof -
  have "ws < e \<and> (ws = s \<or> s + micros w \<le> ws)" using assms(1,2)
  proof (induction w s e rule: window_starts.induct)
    case (1 w s e)
    from 1(3) have "s < e" "ws = s \<or> ws \<in> set (window_starts w (s + micros w) e)"
      by (subst (asm) window_starts.simps, simp split: if_splits)+
    with 1(1,2) show ?case by (auto simp: micros_def)
  qed
  with assms show ?thesis by (auto simp: span_in_def micros_def)
qed

lemma window_starts_grid:
  "ws \<in> set (window_starts w s e) \<Longrightarrow> on_grid w s \<Longrightarrow> on_grid w ws"
proof (induction w s e rule: window_starts.induct)
  case (1 w s e)
  then show ?case using on_grid_add[of w s 1]
    by (subst (asm) (2) window_starts.simps) (auto split: if_splits)
qed

lemma window_starts_distinct: "distinct (window_starts w s e)"
proof -
  have "sorted_wrt (<) (window_starts w s e) \<and> (\<forall>x \<in> set (window_starts w s e). s \<le> x)"
  proof (induction w s e rule: window_starts.induct)
    case (1 w s e)
    show ?case
    proof (cases "s < e \<and> 0 < w")
      case True
      with 1 show ?thesis by (subst (1 2) window_starts.simps) (auto simp: micros_def)
    qed (subst (1 2) window_starts.simps, auto)
  qed
  then show ?thesis using strict_sorted_iff by blast
qed

lemma dec_seconds_exact: "\<bar>d\<bar> < 10 ^ 28 \<Longrightarrow> dec_seconds d = of_int d / 1000000"
  unfolding dec_seconds_def dec_div_def by (rule dec_round_exact[of d _ 6]) simp_all

definition quantity :: "string \<Rightarrow> window_usage \<Rightarrow> rat" where
  "quantity m u = or_zero (map_of (wu_quantities u) m)"

text \<open>The windows of a run that took time, one per visited start.\<close>

lemma window_quantities_run:
  assumes "run_of b = Some (s, e)" "s < e"
  shows "map wu_start (window_quantities w b) = window_starts w (align w s) e"
    "map (quantity ''running_seconds'') (window_quantities w b) = map (overlap_of w s e) (window_starts w (align w s) e)"
  using assms
  by (auto simp: window_quantities_def Let_def quantity_def or_zero_def comp_def map_of_append intro!: map_cong
        split: option.splits bool.splits)

lemma window_quantities_none: "window_quantities w b = [] \<or> (\<exists>s e. run_of b = Some (s, e) \<and> s < e)"
  by (auto simp: window_quantities_def split: option.splits)

lemma overlap_exact:
  assumes "0 < w" "0 \<le> s" "s < e" "e - s < 10 ^ 28" "ws \<in> set (window_starts w (align w s) e)"
  shows "overlap_of w s e ws = of_int (span_in w s e ws) / 1000000" "0 < span_in w s e ws" "span_in w s e ws \<le> micros w"
proof -
  have a: "align w s \<le> s" "s < align w s + micros w" using align_le[OF assms(1,2)] by auto
  note b = window_starts_span[OF assms(1,5,3) a]
  then show "0 < span_in w s e ws" "span_in w s e ws \<le> micros w" by auto
  have "span_in w s e ws \<le> e - s" by (auto simp: span_in_def)
  with b assms(4) have "\<bar>span_in w s e ws\<bar> < 10 ^ 28" by linarith
  from dec_seconds_exact[OF this] show "overlap_of w s e ws = of_int (span_in w s e ws) / 1000000"
    by (simp add: overlap_of_def span_in_def)
qed

lemma sum_of_int: "(\<Sum>x\<leftarrow>xs. of_int (f x) / c) = (of_int (\<Sum>x\<leftarrow>xs. f x) :: rat) / c"
  by (induction xs) (simp_all add: add_divide_distrib)

lemma running_seconds_sum:
  assumes "0 < w" "run_of b = Some (s, e)" "0 \<le> s" "s < e" "e - s < 10 ^ 28"
  shows "(\<Sum>u\<leftarrow>window_quantities w b. quantity ''running_seconds'' u) = of_int (e - s) / 1000000"
proof -
  have "(\<Sum>u\<leftarrow>window_quantities w b. quantity ''running_seconds'' u) =
      (\<Sum>ws\<leftarrow>window_starts w (align w s) e. overlap_of w s e ws)"
    by (simp only: window_quantities_run[OF assms(2,4)])
  also have "\<dots> = (\<Sum>ws\<leftarrow>window_starts w (align w s) e. of_int (span_in w s e ws) / 1000000)"
    by (intro arg_cong[of _ _ sum_list] map_cong refl overlap_exact[OF assms(1,3,4,5)])
  also have "\<dots> = of_int (e - s) / 1000000"
    using spans_sum[OF assms(1,3,4)] by (simp add: sum_of_int)
  finally show ?thesis .
qed

definition kept :: rat where "kept = 1 - 1 / (2 * 10 ^ 27)"

lemma kept_pos: "0 < kept" "kept \<le> 1" "1 - 2 / 10 ^ 27 \<le> kept * (kept * kept)"
  by (simp_all add: kept_def)

lemma dec_round_kept: "0 \<le> x \<Longrightarrow> kept * x \<le> dec_round x"
  using dec_round_ge[of x] by (simp add: kept_def mult.commute)

text \<open>What three roundings leave of a share.\<close>

lemma share_kept:
  assumes "0 \<le> q" "0 \<le> o1" "0 < wall"
  shows "kept * (kept * kept) * (q * (o1 / wall) / 3600) \<le> dec_div (dec_mul q (dec_div o1 wall)) seconds_per_hour"
proof -
  let ?s = "dec_div o1 wall" and ?m = "dec_mul q (dec_div o1 wall)"
  have s: "kept * (o1 / wall) \<le> ?s" "0 \<le> ?s"
    using assms dec_round_kept[of "o1 / wall"] dec_round_nonneg[of "o1 / wall"] by (simp_all add: dec_div_def)
  have m: "kept * (q * ?s) \<le> ?m" "0 \<le> ?m"
    using assms s(2) dec_round_kept[of "q * ?s"] dec_round_nonneg[of "q * ?s"] by (simp_all add: dec_mul_def)
  have "kept * (kept * kept) * (q * (o1 / wall) / 3600) = kept * (kept * (q * (kept * (o1 / wall))) / 3600)" by simp
  also have "\<dots> \<le> kept * (kept * (q * ?s) / 3600)"
    using s(1) assms(1) kept_pos(1) by (intro mult_left_mono divide_right_mono) auto
  also have "\<dots> \<le> kept * (?m / 3600)" using m(1) kept_pos(1) by (intro mult_left_mono divide_right_mono) auto
  also have "\<dots> \<le> dec_div ?m seconds_per_hour"
    using m(2) dec_round_kept[of "?m / 3600"] by (simp add: dec_div_def seconds_per_hour_def)
  finally show ?thesis .
qed

lemma shares_kept:
  assumes "0 < w" "0 \<le> s" "s < e" "e - s < 10 ^ 28" "0 \<le> q"
  shows "(1 - 2 / 10 ^ 27) * (q / 3600) \<le>
    (\<Sum>ws\<leftarrow>window_starts w (align w s) e.
       dec_div (dec_mul q (dec_div (overlap_of w s e ws) (dec_seconds (e - s)))) seconds_per_hour)"
proof -
  let ?W = "window_starts w (align w s) e"
  have wall: "dec_seconds (e - s) = of_int (e - s) / 1000000" using assms by (intro dec_seconds_exact) simp
  have p: "(0::rat) < of_int (e - s)" using assms(3) by simp
  let ?k = "kept * (kept * kept)"
  have "?k * (q / 3600) = ?k * (q / 3600) * ((\<Sum>ws\<leftarrow>?W. of_int (span_in w s e ws) / of_int (e - s)))"
    using spans_sum[OF assms(1-3)] p by (simp add: sum_of_int)
  also have "\<dots> = (\<Sum>ws\<leftarrow>?W. ?k * (q * (of_int (span_in w s e ws) / of_int (e - s)) / 3600))"
    unfolding sum_list_const_mult[symmetric] by (intro arg_cong[of _ _ sum_list] map_cong refl) (simp add: mult.commute)
  also have "\<dots> \<le> (\<Sum>ws\<leftarrow>?W. dec_div (dec_mul q (dec_div (overlap_of w s e ws) (dec_seconds (e - s)))) seconds_per_hour)"
  proof (rule sum_list_mono)
    fix ws assume ws: "ws \<in> set ?W"
    note o = overlap_exact[OF assms(1-4) ws]
    have "of_int (span_in w s e ws) / of_int (e - s) = overlap_of w s e ws / dec_seconds (e - s)"
      by (simp add: o(1) wall)
    moreover have "0 \<le> overlap_of w s e ws" "0 < dec_seconds (e - s)" using o p by (simp_all add: wall)
    ultimately show "?k * (q * (of_int (span_in w s e ws) / of_int (e - s)) / 3600) \<le>
        dec_div (dec_mul q (dec_div (overlap_of w s e ws) (dec_seconds (e - s)))) seconds_per_hour"
      using share_kept[OF assms(5)] by simp
  qed
  finally have "?k * (q / 3600) \<le> \<dots>" .
  moreover have "(1 - 2 / 10 ^ 27) * (q / 3600) \<le> ?k * (q / 3600)"
    using kept_pos(3) assms(5) by (intro mult_right_mono) auto
  ultimately show ?thesis by linarith
qed

lemma quantities_floored:
  assumes "u \<in> set (window_quantities w b)" "run_of b = Some (s, e)" "s < e"
  shows "dec_mul cpu_request_cores (dec_div (quantity ''running_seconds'' u) seconds_per_hour) \<le> quantity ''cpu_core_hours'' u"
    "dec_mul memory_request_bytes (dec_div (quantity ''running_seconds'' u) seconds_per_hour) \<le> quantity ''ram_byte_hours'' u"
  using assms
  by (auto simp: window_quantities_def quantity_def or_zero_def Let_def split: option.splits bool.splits)

lemma measured_quantities:
  assumes "is_measured b" "run_of b = Some (s, e)" "s < e" "ub_cpu b = Some cpu" "ub_memory b = Some mem"
  shows "(\<Sum>ws\<leftarrow>window_starts w (align w s) e. dec_div (dec_mul cpu (dec_div (overlap_of w s e ws) (dec_seconds (e - s)))) seconds_per_hour)
           \<le> (\<Sum>u\<leftarrow>window_quantities w b. quantity ''cpu_core_hours'' u)"
    "(\<Sum>ws\<leftarrow>window_starts w (align w s) e. dec_div (dec_mul (of_int mem) (dec_div (overlap_of w s e ws) (dec_seconds (e - s)))) seconds_per_hour)
           \<le> (\<Sum>u\<leftarrow>window_quantities w b. quantity ''ram_byte_hours'' u)"
  using assms by (auto simp: window_quantities_def quantity_def or_zero_def Let_def comp_def intro!: sum_list_mono)

text \<open>
  C31. The windows of a build's run share it out: they are whole windows of the grid, none twice; their
  running times are positive, at most a window, and add up to the run exactly; each is charged at
  least the requests it held; and what the container measured is not lost in the division: the CPU
  and memory of the windows add up to at least the measured amounts, but for the last digits the
  decimal context drops.
\<close>

theorem build_windows_share_run:
  assumes "0 < w" "run_of b = Some (s, e)" "0 \<le> s" "s < e" "e - s < 10 ^ 28"
  shows "distinct (map wu_start (window_quantities w b)) \<and>
    (\<forall>u \<in> set (window_quantities w b). on_grid w (wu_start u) \<and>
       0 < quantity ''running_seconds'' u \<and> quantity ''running_seconds'' u \<le> of_int w \<and>
       dec_mul cpu_request_cores (dec_div (quantity ''running_seconds'' u) seconds_per_hour) \<le> quantity ''cpu_core_hours'' u \<and>
       dec_mul memory_request_bytes (dec_div (quantity ''running_seconds'' u) seconds_per_hour) \<le> quantity ''ram_byte_hours'' u) \<and>
    (\<Sum>u\<leftarrow>window_quantities w b. quantity ''running_seconds'' u) = of_int (e - s) / 1000000 \<and>
    (\<forall>cpu mem. is_measured b \<and> ub_cpu b = Some cpu \<and> ub_memory b = Some mem \<and> 0 \<le> cpu \<and> 0 \<le> mem \<longrightarrow>
       (1 - 2 / 10 ^ 27) * (cpu / 3600) \<le> (\<Sum>u\<leftarrow>window_quantities w b. quantity ''cpu_core_hours'' u) \<and>
       (1 - 2 / 10 ^ 27) * (of_int mem / 3600) \<le> (\<Sum>u\<leftarrow>window_quantities w b. quantity ''ram_byte_hours'' u))"
proof (intro conjI ballI allI impI)
  show "distinct (map wu_start (window_quantities w b))"
    by (simp only: window_quantities_run[OF assms(2,4)] window_starts_distinct)
  show "(\<Sum>u\<leftarrow>window_quantities w b. quantity ''running_seconds'' u) = of_int (e - s) / 1000000"
    by (rule running_seconds_sum[OF assms])
next
  fix u assume u: "u \<in> set (window_quantities w b)"
  then have st: "wu_start u \<in> set (window_starts w (align w s) e)"
    using imageI[OF u, of wu_start] window_quantities_run(1)[OF assms(2,4), of w] by (simp only: set_map[symmetric])
  then show "on_grid w (wu_start u)" by (rule window_starts_grid) simp
  have "quantity ''running_seconds'' u \<in> set (map (overlap_of w s e) (window_starts w (align w s) e))"
    using imageI[OF u, of "quantity ''running_seconds''"] window_quantities_run(2)[OF assms(2,4), of w]
    by (simp only: set_map[symmetric])
  then obtain ws where ws: "ws \<in> set (window_starts w (align w s) e)" "quantity ''running_seconds'' u = overlap_of w s e ws"
    by auto
  note o = overlap_exact[OF assms(1,3-5) ws(1)]
  then show "0 < quantity ''running_seconds'' u" by (simp add: ws(2))
  have "(of_int (span_in w s e ws) :: rat) \<le> of_int (micros w)" using o(3) by (simp only: of_int_le_iff)
  then show "quantity ''running_seconds'' u \<le> of_int w" by (simp add: ws(2) o(1) micros_def)
  show "dec_mul cpu_request_cores (dec_div (quantity ''running_seconds'' u) seconds_per_hour) \<le> quantity ''cpu_core_hours'' u"
    "dec_mul memory_request_bytes (dec_div (quantity ''running_seconds'' u) seconds_per_hour) \<le> quantity ''ram_byte_hours'' u"
    by (rule quantities_floored[OF u assms(2,4)])+
next
  fix cpu mem
  assume m: "is_measured b \<and> ub_cpu b = Some cpu \<and> ub_memory b = Some mem \<and> 0 \<le> cpu \<and> 0 \<le> mem"
  then have "(0::rat) \<le> of_int mem" by simp
  note k = shares_kept[OF assms(1,3-5)]
  from m measured_quantities[OF _ assms(2,4), of cpu mem w] k[of cpu] k[OF \<open>0 \<le> of_int mem\<close>]
  show "(1 - 2 / 10 ^ 27) * (cpu / 3600) \<le> (\<Sum>u\<leftarrow>window_quantities w b. quantity ''cpu_core_hours'' u)"
    "(1 - 2 / 10 ^ 27) * (of_int mem / 3600) \<le> (\<Sum>u\<leftarrow>window_quantities w b. quantity ''ram_byte_hours'' u)"
    by (blast intro: order_trans)+
qed

definition demo_build :: usage_build where
  "demo_build = \<lparr>b_id = 7, b_dep = 3, b_artifact = ''a'', b_status = BSucceeded, b_created_at = 0,
     b_started_at = Some 3590000000, b_finished_at = Some 3620000000, b_job_id = Some ''build-7'', b_image = None, b_log = [],
     ub_cpu = Some 40, ub_memory = Some 1000, ub_peak = Some 1000, ub_started = Some 3594000000, ub_finished = Some 3606000000,
     ub_recorded = None\<rparr>"

lemma demo_build_run: "is_measured demo_build" "run_of demo_build = Some (3594000000, 3606000000)"
  by (simp_all add: demo_build_def is_measured_def run_of_def)

theorem build_windows_share_run_witness:
  "(\<Sum>u\<leftarrow>window_quantities 3600 demo_build. quantity ''running_seconds'' u) = 12 \<and>
   (1 - 2 / 10 ^ 27) * (40 / 3600) \<le> (\<Sum>u\<leftarrow>window_quantities 3600 demo_build. quantity ''cpu_core_hours'' u)"
  using build_windows_share_run[of 3600 demo_build 3594000000 3606000000] demo_build_run
  by (simp add: demo_build_def)

end
