(* ===== verification/UsagePosition.thy ===== *)
theory UsagePosition
  imports UsageSampler
begin

text \<open>
  What a pass does to the position of a source: the lemmas behind the claims about the sampler. A
  window counts as measured when the source read it and its samples were committed;
  \<open>gapless\<close> says that between any two recorded windows of a source every window was.
\<close>

section \<open>What one window adds\<close>

definition metrics_ok :: "ledger \<Rightarrow> bool" where
  "metrics_ok l \<longleftrightarrow> keyed um_id (lg_metrics l) \<and> keyed um_name (lg_metrics l)"

text \<open>The sample comes from an observation, under that observation's subject.\<close>

definition sample_of :: "ledger \<Rightarrow> catalog \<Rightarrow> observation \<Rightarrow> sample \<Rightarrow> bool" where
  "sample_of l cat ob x \<longleftrightarrow>
     (\<exists>(m, v) \<in> set (ob_quantities ob). cat m = Some (sm_metric x) \<and> sm_value x = v) \<and>
     (\<exists>r \<in> set (lg_subjects l). us_id r = sm_subject x \<and> us_key r = spec_key (ob_subject ob))"

lemma sample_of_grows: "sample_of l cat ob x \<Longrightarrow> ledger_grows l l' \<Longrightarrow> sample_of l' cat ob x"
proof -
  assume s: "sample_of l cat ob x" and g: "ledger_grows l l'"
  then obtain r where "r \<in> set (lg_subjects l)" "us_id r = sm_subject x" "us_key r = spec_key (ob_subject ob)"
    by (auto simp: sample_of_def)
  with subject_grows_key[OF g, of r]
  have "\<exists>r \<in> set (lg_subjects l'). us_id r = sm_subject x \<and> us_key r = spec_key (ob_subject ob)" by auto
  with s show ?thesis by (simp add: sample_of_def)
qed

definition adds_from :: "observation list \<Rightarrow> time \<Rightarrow> int \<Rightarrow> catalog \<Rightarrow> ledger \<Rightarrow> ledger \<Rightarrow> bool" where
  "adds_from obs w interval cat l l' \<longleftrightarrow> lg_ok l' \<and> ledger_grows l l' \<and>
     (\<forall>x \<in> set (lg_samples l'). x \<in> set (lg_samples l) \<or>
        sm_start x = w \<and> sm_interval x = interval \<and> (\<exists>ob \<in> set obs. sample_of l' cat ob x))"

lemma adds_from_trans:
  assumes "adds_from xs w i cat a b" "adds_from ys w i cat b c" "set xs \<subseteq> set zs" "set ys \<subseteq> set zs"
  shows "adds_from zs w i cat a c"
proof -
  have g: "ledger_grows b c" using assms(2) by (simp add: adds_from_def)
  have "x \<in> set (lg_samples a) \<or> sm_start x = w \<and> sm_interval x = i \<and> (\<exists>ob \<in> set zs. sample_of c cat ob x)"
    if x: "x \<in> set (lg_samples c)" for x
  proof (cases "x \<in> set (lg_samples b)")
    case True
    then have "x \<in> set (lg_samples a) \<or> sm_start x = w \<and> sm_interval x = i \<and> (\<exists>ob \<in> set xs. sample_of b cat ob x)"
      using assms(1) by (auto simp: adds_from_def)
    then show ?thesis using sample_of_grows[OF _ g] assms(3) by blast
  next
    case False
    then have "sm_start x = w \<and> sm_interval x = i \<and> (\<exists>ob \<in> set ys. sample_of c cat ob x)"
      using assms(2) x unfolding adds_from_def by blast
    then show ?thesis using assms(4) by blast
  qed
  then show ?thesis using assms(1,2) by (auto simp: adds_from_def intro: ledger_grows_trans)
qed

lemma observe_chunk_catalogued:
  assumes "observe_chunk w i seen cat csize chunk (n, l) = Inr (n', l')" "lg_ok l" "0 < csize"
  shows "obs_catalogued cat chunk"
proof -
  obtain ids l1 where
      "observe_chunk w i seen cat csize chunk (n, l) =
         bindR (record_samples seen cat csize (obs_rows ids w i chunk) l1) (\<lambda>(k, l2). Inr (n + k, l2))"
    by (rule observe_chunk_cases[OF assms(2,3)]) blast
  then show ?thesis
    using record_samples_uncatalogued[of cat "obs_rows ids w i chunk" csize seen l1] assms(1,3) by fastforce
qed

lemma observe_chunk_adds:
  assumes "observe_chunk w i seen cat csize chunk (n, l) = Inr (n', l')" "lg_ok l" "0 < csize"
  shows "adds_from chunk w i cat l l'"
proof -
  obtain ids l1 where u: "lg_ok l1" "ids_ok l1 ids" "ledger_grows l l1" "lg_samples l1 = lg_samples l"
      "dom ids = spec_key ` ob_subject ` set chunk"
      "observe_chunk w i seen cat csize chunk (n, l) =
         bindR (record_samples seen cat csize (obs_rows ids w i chunk) l1) (\<lambda>(k, l2). Inr (n + k, l2))"
    by (rule observe_chunk_cases[OF assms(2,3)]) blast
  let ?rows = "obs_rows ids w i chunk"
  have c: "catalogued cat ?rows"
    using record_samples_uncatalogued[of cat ?rows csize seen l1] assms(1,3) u(6) by fastforce
  let ?xs = "map (to_sample seen cat) ?rows"
  let ?l2 = "l1\<lparr>lg_samples := insert_samples ?xs (lg_samples l1)\<rparr>"
  have l': "l' = ?l2" using assms(1) u(6) record_samples_eq[OF c assms(3)] by (simp add: Let_def)
  note ok = insert_samples_ok[OF u(1) obs_rows_subject[OF u(2,5)], of seen cat w i]
  have new: "sm_start x = w \<and> sm_interval x = i \<and> (\<exists>ob \<in> set chunk. sample_of l' cat ob x)" if x: "x \<in> set ?xs" for x
  proof -
    obtain ob m v where ob: "ob \<in> set chunk" "(m, v) \<in> set (ob_quantities ob)" and
      xe: "x = to_sample seen cat \<lparr>sr_subject = (case ids (spec_key (ob_subject ob)) of Some j \<Rightarrow> j | None \<Rightarrow> 0),
              sr_metric = m, sr_start = w, sr_interval = i, sr_value = v\<rparr>"
      using x by (auto simp: obs_rows_def)
    have "obs_catalogued cat chunk" using c by simp
    then obtain k where k: "cat m = Some k" using ob unfolding obs_catalogued_def by (cases "cat m") blast+
    obtain r where r: "r \<in> set (lg_subjects l1)" "us_key r = spec_key (ob_subject ob)" "ids (spec_key (ob_subject ob)) = Some (us_id r)"
      using ids_okD[OF u(2)] ob(1) u(5) by blast
    have "(\<exists>(m, v) \<in> set (ob_quantities ob). cat m = Some (sm_metric x) \<and> sm_value x = v)"
      using ob(2) k by (intro bexI[OF _ ob(2)]) (simp add: xe to_sample_def)
    moreover have "\<exists>r \<in> set (lg_subjects l'). us_id r = sm_subject x \<and> us_key r = spec_key (ob_subject ob)"
      using r by (intro bexI[of _ r]) (simp_all add: l' xe to_sample_def)
    ultimately show ?thesis using ob(1) by (auto simp: sample_of_def xe to_sample_def)
  qed
  have sub: "set (lg_samples l') \<subseteq> set (lg_samples l) \<union> set ?xs"
    using insert_samples_new[of ?xs "lg_samples l1"] u(4) by (auto simp: l')
  have "\<forall>x \<in> set (lg_samples l'). x \<in> set (lg_samples l) \<or>
      sm_start x = w \<and> sm_interval x = i \<and> (\<exists>ob \<in> set chunk. sample_of l' cat ob x)"
  proof
    fix x assume "x \<in> set (lg_samples l')"
    with sub consider "x \<in> set (lg_samples l)" | "x \<in> set ?xs" by blast
    then show "x \<in> set (lg_samples l) \<or> sm_start x = w \<and> sm_interval x = i \<and> (\<exists>ob \<in> set chunk. sample_of l' cat ob x)"
      by cases (use new in blast)+
  qed
  moreover have "lg_ok l'" using ok by (simp add: l')
  moreover have "ledger_grows l l'" using ok ledger_grows_trans[OF u(3)] by (simp add: l')
  ultimately show ?thesis by (simp add: adds_from_def)
qed

lemma record_observations_adds:
  assumes "record_observations w i seen cat csize obs l = Inr (k, l')" "lg_ok l" "0 < csize"
  shows "adds_from obs w i cat l l'"
proof -
  have "adds_from (concat chunks) w i cat l l'"
    if "foldR (observe_chunk w i seen cat csize) chunks (n, l) = Inr (k, l')" "lg_ok l" for chunks n l
    using that
  proof (induction chunks arbitrary: n l)
    case Nil
    then show ?case by (simp add: adds_from_def)
  next
    case (Cons c cs)
    then obtain n1 l1 where 1: "observe_chunk w i seen cat csize c (n, l) = Inr (n1, l1)"
        "foldR (observe_chunk w i seen cat csize) cs (n1, l1) = Inr (k, l')"
      by (auto simp: result_simps)
    note a = observe_chunk_adds[OF 1(1) Cons.prems(2) assms(3)]
    then have "lg_ok l1" by (simp add: adds_from_def)
    from adds_from_trans[OF a Cons.IH[OF 1(2) this], of "concat (c # cs)"] show ?case by simp
  qed
  from this[OF assms(1)[unfolded record_observations_def] assms(2)] assms(3) show ?thesis by simp
qed

section \<open>What a pass over a source adds\<close>

text \<open>The windows of the list that are read and committed.\<close>

fun measured_windows :: "usage_settings \<Rightarrow> db \<Rightarrow> time \<Rightarrow> catalog \<Rightarrow> source \<Rightarrow> time list \<Rightarrow> ledger \<Rightarrow> time list" where
  "measured_windows c s now cat src [] l = []"
| "measured_windows c s now cat src (w # ws) l =
     (case record_source_window c s now cat src w l of
        Inr (Some (n, l')) \<Rightarrow> w # measured_windows c s now cat src ws l' | _ \<Rightarrow> [])"

definition readable :: "source \<Rightarrow> db \<Rightarrow> int \<Rightarrow> time \<Rightarrow> bool" where
  "readable src s i w \<longleftrightarrow> (\<exists>obs. src_read src s w i = Inr (Some obs))"

lemma measured_prefix:
  "\<exists>k. measured_windows c s now cat src ws l = take k ws"
proof (induction ws arbitrary: l)
  case (Cons w ws)
  show ?case
  proof (cases "\<exists>n l'. record_source_window c s now cat src w l = Inr (Some (n, l'))")
    case True
    then obtain n l' where r: "record_source_window c s now cat src w l = Inr (Some (n, l'))" by blast
    obtain k where "measured_windows c s now cat src ws l' = take k ws" using Cons.IH by blast
    then show ?thesis by (intro exI[of _ "Suc k"]) (simp add: r)
  next
    case False
    then have "measured_windows c s now cat src (w # ws) l = []" by (auto split: sum.splits option.splits)
    then show ?thesis by (intro exI[of _ 0]) simp
  qed
qed simp

lemma recorded_readable:
  "record_source_window c s now cat src w l = Inr (Some x) \<Longrightarrow> readable src s (uc_window c) w"
  by (auto simp: record_source_window_def readable_def result_simps split: option.splits)

lemma measured_readable: "w \<in> set (measured_windows c s now cat src ws l) \<Longrightarrow> readable src s (uc_window c) w"
proof (induction ws arbitrary: l)
  case (Cons v ws)
  show ?case
  proof (cases "\<exists>n l'. record_source_window c s now cat src v l = Inr (Some (n, l'))")
    case True
    with Cons show ?thesis using recorded_readable by fastforce
  next
    case False
    then have "measured_windows c s now cat src (v # ws) l = []" by (auto split: sum.splits option.splits)
    with Cons.prems show ?thesis by (simp only: list.set empty_iff)
  qed
qed simp

text \<open>What the new samples of a pass over a source are.\<close>

definition source_adds :: "source \<Rightarrow> db \<Rightarrow> int \<Rightarrow> catalog \<Rightarrow> time set \<Rightarrow> ledger \<Rightarrow> ledger \<Rightarrow> bool" where
  "source_adds src s i cat ms l l' \<longleftrightarrow> lg_ok l' \<and> ledger_grows l l' \<and>
     (\<forall>x \<in> set (lg_samples l'). x \<in> set (lg_samples l) \<or>
        sm_start x \<in> ms \<and> sm_interval x = i \<and>
        (\<exists>obs. src_read src s (sm_start x) i = Inr (Some obs) \<and> (\<exists>ob \<in> set obs. sample_of l' cat ob x)))"

lemma source_adds_trans:
  assumes "source_adds src s i cat M a b" "source_adds src s i cat N b c"
  shows "source_adds src s i cat (M \<union> N) a c"
proof -
  have g: "ledger_grows b c" using assms(2) by (simp add: source_adds_def)
  have "x \<in> set (lg_samples a) \<or> sm_start x \<in> M \<union> N \<and> sm_interval x = i \<and>
      (\<exists>obs. src_read src s (sm_start x) i = Inr (Some obs) \<and> (\<exists>ob \<in> set obs. sample_of c cat ob x))"
    if x: "x \<in> set (lg_samples c)" for x
  proof (cases "x \<in> set (lg_samples b)")
    case True
    then have "x \<in> set (lg_samples a) \<or> sm_start x \<in> M \<and> sm_interval x = i \<and>
      (\<exists>obs. src_read src s (sm_start x) i = Inr (Some obs) \<and> (\<exists>ob \<in> set obs. sample_of b cat ob x))"
      using assms(1) by (auto simp: source_adds_def)
    then show ?thesis using sample_of_grows[OF _ g] by blast
  next
    case False
    then show ?thesis using assms(2) x by (auto simp: source_adds_def)
  qed
  then show ?thesis using assms by (auto simp: source_adds_def intro: ledger_grows_trans)
qed

lemma source_adds_refl: "lg_ok l \<Longrightarrow> source_adds src s i cat {} l l"
  by (simp add: source_adds_def)

lemma record_window_adds:
  assumes "record_source_window c s now cat src w l = Inr (Some (n, l'))" "lg_ok l"
  shows "source_adds src s (uc_window c) cat {w} l l'"
proof -
  from assms(1) obtain obs where obs: "src_read src s w (uc_window c) = Inr (Some obs)"
      "record_observations w (uc_window c) now cat chunk_size obs l = Inr (n, l')"
    by (auto simp: record_source_window_def result_simps split: option.splits)
  from record_observations_adds[OF obs(2) assms(2)] obs(1) show ?thesis
    by (auto simp: adds_from_def source_adds_def)
qed

lemma sample_windows_adds:
  assumes "sample_windows c s now cat src ws (r, l) = (r', l')" "lg_ok l"
  shows "source_adds src s (uc_window c) cat (set (measured_windows c s now cat src ws l)) l l'"
  using assms
proof (induction ws arbitrary: r l)
  case Nil
  then show ?case by (simp add: source_adds_refl)
next
  case (Cons w ws)
  show ?case
  proof (cases "\<exists>n l1. record_source_window c s now cat src w l = Inr (Some (n, l1))")
    case True
    then obtain n l1 where 1: "record_source_window c s now cat src w l = Inr (Some (n, l1))" by blast
    note a = record_window_adds[OF 1 Cons.prems(2)]
    then have "lg_ok l1" by (simp add: source_adds_def)
    from Cons.IH[OF _ this] Cons.prems(1) 1
    have "source_adds src s (uc_window c) cat (set (measured_windows c s now cat src ws l1)) l1 l'" by simp
    from source_adds_trans[OF a this] 1 show ?thesis by simp
  next
    case False
    then have "l' = l" "measured_windows c s now cat src (w # ws) l = []"
      using Cons.prems(1) by (auto split: sum.splits option.splits)
    then show ?thesis using source_adds_refl[OF Cons.prems(2)] by simp
  qed
qed

section \<open>The position of a source\<close>

definition metric_ids_of :: "ledger \<Rightarrow> string list \<Rightarrow> nat set" where
  "metric_ids_of l names = um_id ` {m \<in> set (lg_metrics l). um_name m \<in> set names}"

definition positions :: "ledger \<Rightarrow> string list \<Rightarrow> time set" where
  "positions l names = sm_start ` {x \<in> set (lg_samples l). sm_metric x \<in> metric_ids_of l names}"

lemma finite_positions [simp]: "finite (positions l names)"
  by (simp add: positions_def)

lemma position_of_eq:
  "position_of l i = (let P = sm_start ` {x \<in> set (lg_samples l). sm_metric x = i} in if P = {} then None else Some (Max P))"
proof -
  have f: "{x \<in> set (lg_samples l). sm_metric x = i} = set (filter (\<lambda>s. sm_metric s = i) (lg_samples l))" by auto
  have "(case ss of [] \<Rightarrow> None | y # ys \<Rightarrow> Some (Max (sm_start ` set (y # ys)))) =
      (if sm_start ` set ss = {} then None else Some (Max (sm_start ` set ss)))" for ss :: "sample list"
    by (cases ss) simp_all
  then show ?thesis unfolding position_of_def Let_def f .
qed

lemma last_recorded_spec:
  "last_recorded_window l names = (if positions l names = {} then None else Some (Max (positions l names)))"
proof -
  let ?I = "metric_ids_of l names"
  let ?P = "\<lambda>i. sm_start ` {x \<in> set (lg_samples l). sm_metric x = i}"
  define ps where "ps = concat (map (\<lambda>i. case position_of l i of None \<Rightarrow> [] | Some p \<Rightarrow> [p])
      (map um_id (filter (\<lambda>m. um_name m \<in> set names) (lg_metrics l))))"
  have I: "set (map um_id (filter (\<lambda>m. um_name m \<in> set names) (lg_metrics l))) = ?I"
    by (auto simp: metric_ids_of_def)
  have ps: "set ps = {Max (?P i) |i. i \<in> ?I \<and> ?P i \<noteq> {}}"
  proof -
    have "set ps = (\<Union>i \<in> ?I. set (case position_of l i of None \<Rightarrow> [] | Some p \<Rightarrow> [p]))"
      unfolding ps_def set_concat by (simp only: set_map I[unfolded set_map] image_image)
    also have "\<dots> = (\<Union>i \<in> ?I. if ?P i = {} then {} else {Max (?P i)})"
      by (intro SUP_cong refl) (simp add: position_of_eq Let_def)
    finally show ?thesis by auto
  qed
  have U: "positions l names = \<Union> (?P ` ?I)" by (auto simp: positions_def)
  have fin: "finite (?P i)" for i by simp
  have last: "last_recorded_window l names = (if ps = [] then None else Some (Max (set ps)))"
    by (simp add: last_recorded_window_def ps_def Let_def)
  show ?thesis
  proof (cases "positions l names = {}")
    case True
    then have "set ps = {}" unfolding ps U by blast
    with True show ?thesis by (simp add: last)
  next
    case False
    then obtain i where i: "i \<in> ?I" "?P i \<noteq> {}" unfolding U by blast
    then have ne: "set ps \<noteq> {}" unfolding ps by blast
    have "Max (set ps) = Max (positions l names)"
    proof (rule Max_eqI[symmetric])
      show "y \<le> Max (set ps)" if y: "y \<in> positions l names" for y
      proof -
        from y obtain j where j: "j \<in> ?I" "y \<in> ?P j" unfolding U by blast
        then have "y \<le> Max (?P j)" using Max_ge[OF fin] by blast
        also have "Max (?P j) \<in> set ps" using j unfolding ps by blast
        then have "Max (?P j) \<le> Max (set ps)" by simp
        finally show ?thesis .
      qed
      have "Max (set ps) \<in> set ps" using ne by simp
      then obtain j where j: "j \<in> ?I" "?P j \<noteq> {}" "Max (set ps) = Max (?P j)" unfolding ps by blast
      then have "Max (set ps) \<in> ?P j" using Max_in[OF fin j(2)] by simp
      with j(1) show "Max (set ps) \<in> positions l names" unfolding U by blast
    qed simp
    moreover have "ps \<noteq> []" using ne by auto
    ultimately show ?thesis using False by (simp add: last)
  qed
qed

section \<open>No window is skipped\<close>

definition gapless :: "int \<Rightarrow> ledger \<Rightarrow> string list \<Rightarrow> time set \<Rightarrow> bool" where
  "gapless w l names M \<longleftrightarrow> (\<forall>a \<in> positions l names. on_grid w a) \<and>
     (\<forall>a \<in> positions l names. \<forall>b \<in> positions l names. \<forall>t. on_grid w t \<and> a \<le> t \<and> t \<le> b \<longrightarrow> t \<in> M)"

lemma gapless_mono: "gapless w l names M \<Longrightarrow> positions l' names = positions l names \<Longrightarrow> M \<subseteq> N \<Longrightarrow> gapless w l' names N"
  unfolding gapless_def by (metis subsetD)

text \<open>The windows of a pass are consecutive windows of the grid.\<close>

definition run_from :: "int \<Rightarrow> time \<Rightarrow> nat \<Rightarrow> time list" where
  "run_from w s n = map (\<lambda>i. s + micros (int i * w)) [0..<n]"

lemma pending_run:
  "\<exists>n \<le> uc_max_windows c. pending_windows c now names l = run_from (uc_window c) (resume_from c now names l) n"
  unfolding pending_windows_def run_from_def Let_def by (rule exI[rotated, of _ "min (uc_max_windows c) _"]) simp

lemma take_run_from: "take k (run_from w s n) = run_from w s (min k n)"
  by (simp add: run_from_def take_map min_def)

lemma run_from_between:
  assumes "0 < w" "on_grid w s" "on_grid w t" "s \<le> t" "t \<le> b" "b \<in> set (run_from w s n)"
  shows "t \<in> set (run_from w s n)"
proof -
  obtain i where i: "i < n" "b = s + micros (int i * w)" using assms(6) by (auto simp: run_from_def)
  obtain k where k: "t - s = micros w * k"
    using assms(2,3) unfolding on_grid_def by (meson dvdE dvd_diff)
  have mw: "0 < micros w" using micros_pos[OF assms(1)] .
  have "0 \<le> micros w * k" using k assms(4) by simp
  then have k0: "0 \<le> k" using mw by (simp add: zero_le_mult_iff)
  have "micros w * k \<le> micros w * int i"
    using k assms(5) i(2) by (simp add: micros_def mult.commute mult.left_commute)
  then have "k \<le> int i" using mw by simp
  with k0 i(1) have n: "nat k < n" by simp
  have "t = s + micros (int (nat k) * w)" using k k0 by (simp add: micros_def mult.commute mult.left_commute)
  with n show ?thesis unfolding run_from_def set_map set_upt by (intro image_eqI[of _ _ "nat k"]) simp_all
qed

lemma run_from_grid: "on_grid w s \<Longrightarrow> t \<in> set (run_from w s n) \<Longrightarrow> on_grid w t"
  by (auto simp: run_from_def on_grid_add)

lemma run_from_ge: "0 < w \<Longrightarrow> t \<in> set (run_from w s n) \<Longrightarrow> s \<le> t"
  by (auto simp: run_from_def micros_def)

lemma metric_ids_of_grows: "ledger_grows l l' \<Longrightarrow> metric_ids_of l' names = metric_ids_of l names"
  by (simp add: metric_ids_of_def ledger_grows_def)

lemma source_adds_positions:
  assumes "source_adds src s i cat ms l l'"
  shows "positions l names \<subseteq> positions l' names" "positions l' names \<subseteq> positions l names \<union> ms"
  using assms metric_ids_of_grows[of l l' names] ledger_grows_samples[of l l']
  unfolding source_adds_def positions_def by fastforce+

lemma gapless_pass:
  assumes w: "0 < uc_window c" and g: "gapless (uc_window c) l (src_metrics src) M"
    and r: "sample_source c s now cat src (r, l) = (r', l')" and ok: "lg_ok l"
    and ms: "ms = measured_windows c s now cat src (pending_windows c now (src_metrics src) l) l"
  shows "gapless (uc_window c) l' (src_metrics src) (M \<union> set ms)"
proof -
  let ?w = "uc_window c" and ?n = "src_metrics src"
  let ?s = "resume_from c now ?n l"
  have a: "source_adds src s ?w cat (set ms) l l'"
    using sample_windows_adds[OF _ ok] r by (simp add: sample_source_def ms)
  note p = source_adds_positions[OF a, of ?n]
  obtain n where n: "ms = run_from ?w ?s n"
    using measured_prefix[of c s now cat src _ l] pending_run[of c now ?n l] unfolding ms by (metis take_run_from)
  have grid: "on_grid ?w ?s"
    by (cases "last_recorded_window l ?n") (simp_all add: resume_from_def on_grid_add[of _ _ 1, simplified])
  have pos: "on_grid ?w b" if "b \<in> positions l' ?n" for b
    using that p(2) g run_from_grid[OF grid] unfolding gapless_def n by blast
  have "t \<in> M \<union> set ms"
    if A: "a \<in> positions l' ?n" and B: "b \<in> positions l' ?n" and t: "on_grid ?w t" "a \<le> t" "t \<le> b" for a b t
  proof (cases "positions l ?n = {}")
    case True
    then have ab: "a \<in> set ms" "b \<in> set ms" using A B p(2) by auto
    have "?s \<le> a" using ab(1) run_from_ge[OF w] unfolding n by blast
    then have "t \<in> set ms" using run_from_between[OF w grid t(1) _ t(3)] ab(2) t(2) unfolding n by simp
    then show ?thesis by simp
  next
    case False
    let ?q = "Max (positions l ?n)"
    have q: "?q \<in> positions l ?n" using False by simp
    have s: "?s = ?q + micros ?w"
      using False q g by (simp add: resume_from_def last_recorded_spec gapless_def align_id)
    have qg: "on_grid ?w ?q" using q g by (simp add: gapless_def)
    show ?thesis
    proof (cases "t \<le> ?q")
      case True
      have "a \<in> positions l ?n"
      proof (rule ccontr)
        assume "a \<notin> positions l ?n"
        then have "a \<in> set ms" using A p(2) by blast
        then have "?s \<le> a" using run_from_ge[OF w] unfolding n by blast
        with s micros_pos[OF w] t(2) True show False by linarith
      qed
      then show ?thesis using g q t(1,2) True unfolding gapless_def by blast
    next
      case t_after: False
      then have "b \<notin> positions l ?n" using t(3) Max_ge[OF finite_positions, of b l ?n] by linarith
      then have b: "b \<in> set ms" using B p(2) by blast
      have "micros ?w dvd t - ?q" using t(1) qg by (simp add: on_grid_def)
      then obtain k where k: "t - ?q = micros ?w * k" by (rule dvdE)
      then have "0 < micros ?w * k" using t_after by linarith
      then have "1 \<le> k" using micros_pos[OF w] by (simp add: zero_less_mult_iff)
      then have "micros ?w * 1 \<le> micros ?w * k" using micros_pos[OF w] by (intro mult_left_mono) auto
      then have "?s \<le> t" using k s by linarith
      then have "t \<in> set ms" using run_from_between[OF w grid t(1) _ t(3)] b unfolding n by blast
      then show ?thesis by simp
    qed
  qed
  then show ?thesis using pos unfolding gapless_def by blast
qed

section \<open>Recording twice\<close>

lemma record_observations_catalogued:
  assumes "record_observations w i seen cat csize obs l = Inr (k, l')" "lg_ok l" "0 < csize"
  shows "obs_catalogued cat obs"
proof -
  have "obs_catalogued cat (concat chunks)"
    if "foldR (observe_chunk w i seen cat csize) chunks (n, l) = Inr (k, l')" "lg_ok l" for chunks n l
    using that
  proof (induction chunks arbitrary: n l)
    case Nil
    then show ?case by (simp add: obs_catalogued_def)
  next
    case (Cons c cs)
    then obtain n1 l1 where 1: "observe_chunk w i seen cat csize c (n, l) = Inr (n1, l1)"
        "foldR (observe_chunk w i seen cat csize) cs (n1, l1) = Inr (k, l')"
      by (auto simp: result_simps)
    have "lg_ok l1" using observe_chunk_adds[OF 1(1) Cons.prems(2) assms(3)] by (simp add: adds_from_def)
    from Cons.IH[OF 1(2) this] observe_chunk_catalogued[OF 1(1) Cons.prems(2) assms(3)] show ?case
      unfolding obs_catalogued_def concat.simps set_append by (rule ball_Un[THEN iffD2, OF conjI, rotated])
  qed
  from this[OF assms(1)[unfolded record_observations_def] assms(2)] assms(3) show ?thesis by simp
qed

lemma heldD:
  assumes "held l cat w ob" "(m, v) \<in> set (ob_quantities ob)"
  shows "\<exists>r \<in> set (lg_subjects l). \<exists>i. us_key r = spec_key (ob_subject ob) \<and> cat m = Some i \<and>
           (us_id r, i, w) \<in> sample_key ` set (lg_samples l)"
  using bspec[OF assms(1)[unfolded held_def] assms(2)] by (simp only: prod.case)

text \<open>
  C34. The ledger is append-only and recording is idempotent. Recording a window's observations adds
  samples at the end and changes none; the natural key stays unique; no subject loses its identity,
  its first sighting or its deployment; and the count returned is the number added. Recording any of
  the same observations again for that window, at any later time, by another process, in any order
  and whatever values they now carry, adds nothing and changes no sample.
\<close>

theorem recording_idempotent:
  assumes "lg_ok l" "0 < csize" "record_observations w i seen cat csize obs l = Inr (k, l1)"
    and "\<forall>ob \<in> set again. \<exists>ob' \<in> set obs. spec_key (ob_subject ob) = spec_key (ob_subject ob') \<and>
           fst ` set (ob_quantities ob) \<subseteq> fst ` set (ob_quantities ob')"
  shows "ledger_grows l l1 \<and> lg_ok l1 \<and> length (lg_samples l1) = length (lg_samples l) + k \<and>
     (\<exists>l2. record_observations w i seen' cat csize again l1 = Inr (0, l2) \<and> lg_samples l2 = lg_samples l1 \<and>
           ledger_grows l1 l2 \<and> lg_ok l2)"
proof -
  obtain k' l1' where 1: "record_observations w i seen cat csize obs l = Inr (k', l1')" "lg_ok l1'" "ledger_grows l l1'"
      "k' = length (lg_samples l1') - length (lg_samples l)" "\<forall>ob \<in> set obs. held l1' cat w ob"
    using record_observations_ok[OF assms(1,2) record_observations_catalogued[OF assms(3,1,2)]] by blast
  then have eq: "k' = k" "l1' = l1" using assms(3) by simp_all
  have "held l1 cat w ob" if ob: "ob \<in> set again" for ob
  proof -
    obtain ob' where ob': "ob' \<in> set obs" "spec_key (ob_subject ob) = spec_key (ob_subject ob')"
        "fst ` set (ob_quantities ob) \<subseteq> fst ` set (ob_quantities ob')"
      using assms(4) ob by blast
    have h: "held l1 cat w ob'" using 1(5) ob'(1) eq by simp
    show ?thesis unfolding held_def
    proof (intro ballI, clarify)
      fix m v assume "(m, v) \<in> set (ob_quantities ob)"
      then have "m \<in> fst ` set (ob_quantities ob)" by (rule image_eqI[rotated]) simp
      then have "m \<in> fst ` set (ob_quantities ob')" using ob'(3) by (rule subsetD[rotated])
      then obtain v' where v': "(m, v') \<in> set (ob_quantities ob')" by (rule imageE) (metis prod.collapse)
      show "\<exists>r \<in> set (lg_subjects l1). \<exists>i. us_key r = spec_key (ob_subject ob) \<and> cat m = Some i \<and>
          (us_id r, i, w) \<in> sample_key ` set (lg_samples l1)"
        using heldD[OF h v'] unfolding ob'(2) .
    qed
  qed
  then obtain l2 where 2: "record_observations w i seen' cat csize again l1 = Inr (0, l2)" "lg_ok l2" "ledger_grows l1 l2"
      "lg_samples l2 = lg_samples l1"
    using record_observations_held[of l1 csize again cat w i seen'] 1(2) eq assms(2) by blast
  have "length (lg_samples l) \<le> length (lg_samples l1)" using 1(3) eq by (auto simp: ledger_grows_def)
  with 1 2 eq show ?thesis by auto
qed

section \<open>A demonstration ledger\<close>

definition demo_metric :: "nat \<Rightarrow> string \<Rightarrow> usage_metric" where
  "demo_metric i n = \<lparr>um_id = i, um_name = n, um_axis = AxStorage, um_unit = ByteHours, um_kind = Delta, um_role = Usage\<rparr>"

definition demo_ledger :: ledger where
  "demo_ledger = \<lparr>lg_metrics = [demo_metric 1 ''object_storage_byte_hours'', demo_metric 2 ''running_seconds''],
     lg_subjects = [\<lparr>us_id = 1, us_kind = SkBucket, us_ref = ''dep-1'', us_namespace = None, us_dep = Some 1, us_first = 0, us_last = 0\<rparr>],
     lg_samples = [\<lparr>sm_subject = 1, sm_metric = 1, sm_start = 3600000000, sm_interval = 3600, sm_observed = 0, sm_value = 5\<rparr>],
     lg_rates = [], lg_next = 2\<rparr>"

lemma demo_ledger_ok: "lg_ok demo_ledger"
  by (simp add: demo_ledger_def lg_ok_def us_key_def sample_key_def)

definition demo_obs :: "string \<Rightarrow> rat \<Rightarrow> observation" where
  "demo_obs ref v = \<lparr>ob_subject = \<lparr>ss_kind = SkBucket, ss_ref = ref, ss_namespace = None, ss_dep = Some 1\<rparr>,
     ob_quantities = [(''object_storage_byte_hours'', v)]\<rparr>"

lemma demo_recorded:
  "\<exists>k l1. record_observations 7200000000 3600 9 (metric_ids demo_ledger) 10 [demo_obs ''dep-1'' 4, demo_obs ''dep-2'' 6] demo_ledger = Inr (k, l1)"
proof -
  have "obs_catalogued (metric_ids demo_ledger) [demo_obs ''dep-1'' 4, demo_obs ''dep-2'' 6]"
    by (simp add: obs_catalogued_def demo_obs_def metric_ids_def demo_ledger_def demo_metric_def)
  from record_observations_ok[OF demo_ledger_ok _ this, of 10 7200000000 3600 9] show ?thesis by (simp, blast)
qed

theorem recording_idempotent_witness:
  "\<exists>k l1 l2. record_observations 7200000000 3600 9 (metric_ids demo_ledger) 10 [demo_obs ''dep-1'' 4, demo_obs ''dep-2'' 6] demo_ledger = Inr (k, l1) \<and>
     record_observations 7200000000 3600 12 (metric_ids demo_ledger) 10 [demo_obs ''dep-2'' 8] l1 = Inr (0, l2) \<and>
     lg_samples l2 = lg_samples l1"
proof -
  obtain k l1 where 1: "record_observations 7200000000 3600 9 (metric_ids demo_ledger) 10 [demo_obs ''dep-1'' 4, demo_obs ''dep-2'' 6] demo_ledger = Inr (k, l1)"
    using demo_recorded by blast
  have "\<forall>ob \<in> set [demo_obs ''dep-2'' 8]. \<exists>ob' \<in> set [demo_obs ''dep-1'' 4, demo_obs ''dep-2'' 6].
      spec_key (ob_subject ob) = spec_key (ob_subject ob') \<and> fst ` set (ob_quantities ob) \<subseteq> fst ` set (ob_quantities ob')"
    by (simp add: demo_obs_def spec_key_def)
  from recording_idempotent[OF demo_ledger_ok _ 1 this, of 12] 1 show ?thesis by auto
qed

end
