(* ===== verification/UsageSources.thy ===== *)
theory UsageSources
  imports UsageSampler Decimal ObjectStorage
begin

text \<open>
  The three sources of the sampler. Containers: the OpenCost client (\<^verbatim>\<open>opencost.py\<close>), whether a window
  can be trusted (\<^verbatim>\<open>source.py\<close>), which quantity a field becomes (\<^verbatim>\<open>mapping.py\<close>) and the source itself
  (\<^verbatim>\<open>containers.py\<close>). Tenant databases (\<^verbatim>\<open>databases.py\<close>) and buckets (\<^verbatim>\<open>buckets.py\<close>), read through
  \<^verbatim>\<open>prometheus.py\<close>. The HTTP client, the JSON parser and the formatting and parsing of instants are
  parameters; a \<open>Decimal\<close> is parsed as \<open>Decimal\<close> has it.
\<close>

section \<open>The clients\<close>

record http =
  ht_get :: "string \<Rightarrow> (string \<times> string) list \<Rightarrow> string + nat \<times> string"
  ht_json :: "string \<Rightarrow> json option"
  ht_stamp :: "time \<Rightarrow> string"
  ht_instant :: "string \<Rightarrow> time option"

record prometheus =
  pm_http :: http
  pm_url :: string

definition slash :: "char \<Rightarrow> bool" where "slash c \<longleftrightarrow> c = CHR ''/''"

definition prometheus_client :: "http \<Rightarrow> string \<Rightarrow> prometheus" where
  "prometheus_client h url = \<lparr>pm_http = h, pm_url = rstrip slash url\<rparr>"

text \<open>A failure the sources read as an unusable window; any other error of theirs is a Python one.\<close>

definition unreadable :: "string \<Rightarrow> error" where "unreadable m = ExternalErr m"

definition prom_query :: "prometheus \<Rightarrow> string \<Rightarrow> time \<Rightarrow> json list result" where
  "prom_query p promql t =
     (if pm_url p = [] then Inl (unreadable ''Prometheus is not configured'')
      else case ht_get (pm_http p) (pm_url p @ ''/api/v1/query'') [(''query'', promql), (''time'', ht_stamp (pm_http p) t)] of
        Inl m \<Rightarrow> Inl (unreadable (''Prometheus request failed: '' @ m))
      | Inr (status, body) \<Rightarrow>
          if status \<noteq> 200 then Inl (unreadable (''Prometheus returned '' @ nat_str status))
          else (case ht_json (pm_http p) body of
                  None \<Rightarrow> Inl (unreadable ''Prometheus returned a non-JSON body'')
                | Some (JObj d) \<Rightarrow> bindR (dict_or (map_of d ''data'')) (\<lambda>data. list_or (map_of data ''result''))
                | Some _ \<Rightarrow> Inl attribute_error))"

definition dec_str :: "json \<Rightarrow> rat result" where
  "dec_str v = (case v of JStr s \<Rightarrow> (case decimal_of s of Some x \<Rightarrow> Inr x | None \<Rightarrow> Inl (PyValueError ''InvalidOperation''))
                        | _ \<Rightarrow> Inl type_error)"

text \<open>\<^verbatim>\<open>series["value"][1]\<close>.\<close>

definition series_value :: "pydict \<Rightarrow> rat result" where
  "series_value d =
     (case map_of d ''value'' of
        Some (JList (_ # x # _)) \<Rightarrow> dec_str x
      | Some (JList _) \<Rightarrow> Inl (PyValueError ''IndexError'')
      | None \<Rightarrow> Inl (PyValueError ''KeyError: value'')
      | Some _ \<Rightarrow> Inl type_error)"

definition as_dict :: "json \<Rightarrow> pydict result" where
  "as_dict v = (case v of JObj d \<Rightarrow> Inr d | _ \<Rightarrow> Inl attribute_error)"

text \<open>\<^verbatim>\<open>series.get("metric", {})\<close>.\<close>

definition metric_labels :: "pydict \<Rightarrow> pydict result" where
  "metric_labels d = (case map_of d ''metric'' of None \<Rightarrow> Inr [] | Some v \<Rightarrow> as_dict v)"

definition range_of :: "int \<Rightarrow> string" where
  "range_of w = ''['' @ int_str w @ ''s]''"

definition selector_of :: "string \<Rightarrow> string \<Rightarrow> int \<Rightarrow> string" where
  "selector_of series ns w = series @ ''{namespace='' @ [CHR 0x22] @ ns @ [CHR 0x22] @ ''}'' @ range_of w"

definition count_over :: "string \<Rightarrow> string" where
  "count_over sel = ''count(count_over_time('' @ sel @ ''))''"

text \<open>What a source makes of an error: an unreadable measurement is an unusable window, the rest is raised.\<close>

definition usable_or_none :: "'a result \<Rightarrow> usage_error + 'a option" where
  "usable_or_none r = (case r of Inr x \<Rightarrow> Inr (Some x) | Inl (ExternalErr m) \<Rightarrow> Inr None | Inl (PyValueError m) \<Rightarrow> Inl (SourceFailed m)
                              | Inl e \<Rightarrow> Inl (SourceFailed ''error''))"

definition or_raise :: "'a result \<Rightarrow> usage_error + 'a" where
  "or_raise r = (case r of Inr x \<Rightarrow> Inr x | Inl (PyValueError m) \<Rightarrow> Inl (SourceFailed m) | Inl e \<Rightarrow> Inl (SourceFailed ''error''))"

definition hours_of :: "int \<Rightarrow> rat" where
  "hours_of w = dec_div (of_int w) 3600"

section \<open>Buckets\<close>

definition bucket_series :: string where "bucket_series = ''caelus_bucket_bytes''"
definition bucket_liveness :: string where "bucket_liveness = ''caelus_bucket_exporter_buckets''"
definition bucket_metric :: string where "bucket_metric = ''object_storage_byte_hours''"

definition is_hex :: "char \<Rightarrow> bool" where "is_hex c \<longleftrightarrow> is_dec c \<or> in_range CHR ''a'' CHR ''f'' c"

definition hex_val :: "char \<Rightarrow> nat" where
  "hex_val c = (if is_dec c then cp c - 48 else cp c - 87)"

definition hex_num :: "string \<Rightarrow> nat" where
  "hex_num = foldl (\<lambda>n c. 16 * n + hex_val c) 0"

definition bucket_name_re :: rx where
  "bucket_name_re =
     RSeq (rx_lit ''dep-'') (RSeq (rx_exactly 8 (RCls is_hex)) (RSeq (rx_lit ''-'') (RSeq (rx_exactly 4 (RCls is_hex))
       (RSeq (rx_lit ''-'') (RSeq (rx_exactly 4 (RCls is_hex)) (RSeq (rx_lit ''-'') (RSeq (rx_exactly 4 (RCls is_hex))
         (RSeq (rx_lit ''-'') (rx_exactly 12 (RCls is_hex))))))))))"

text \<open>\<^verbatim>\<open>UUID(group)\<close>: the digits, without the hyphens.\<close>

definition deployment_id_of :: "string \<Rightarrow> uuid option" where
  "deployment_id_of bucket =
     (if re_fullmatch bucket_name_re bucket then Some (hex_num (filter (\<lambda>c. c \<noteq> CHR ''-'') (drop 4 bucket))) else None)"

record bucket_source =
  bk_prom :: prometheus
  bk_namespace :: string

definition bucket_covers :: "bucket_source \<Rightarrow> time \<Rightarrow> int \<Rightarrow> bool result" where
  "bucket_covers b start w =
     bindR (prom_query (bk_prom b) (count_over (selector_of bucket_liveness (bk_namespace b) w)) (start + micros w))
       (\<lambda>r. Inr (r \<noteq> []))"

definition bucket_entry :: "json \<Rightarrow> (string \<times> uuid \<times> rat) list result" where
  "bucket_entry v =
     bindR (as_dict v) (\<lambda>d. bindR (metric_labels d) (\<lambda>ls.
     (case map_of ls ''bucket'' of
        Some (JStr name) \<Rightarrow> bindR (series_value d) (\<lambda>size.
            Inr (case deployment_id_of name of Some i \<Rightarrow> if 0 < size then [(name, i, size)] else [] | None \<Rightarrow> []))
      | None \<Rightarrow> bindR (series_value d) (\<lambda>size. Inr [])
      | Some _ \<Rightarrow> Inl type_error)))"

definition bucket_sizes :: "bucket_source \<Rightarrow> time \<Rightarrow> int \<Rightarrow> (string \<times> uuid \<times> rat) list result" where
  "bucket_sizes b start w =
     (let sel = selector_of bucket_series (bk_namespace b) w in
      bindR (prom_query (bk_prom b)
               (''sum by (bucket) (sum_over_time('' @ sel @ '')) / sum by (bucket) (count_over_time('' @ sel @ ''))'') (start + micros w))
        (\<lambda>r. bindR (mapR bucket_entry r) (\<lambda>xs. Inr (concat xs))))"

text \<open>The join with \<^verbatim>\<open>deployment\<close>.\<close>

definition not_deleted_before :: "time \<Rightarrow> deployment \<Rightarrow> bool" where
  "not_deleted_before t d \<longleftrightarrow> (case d_deleted_at d of None \<Rightarrow> True | Some x \<Rightarrow> t \<le> x)"

definition known_buckets :: "db \<Rightarrow> time \<Rightarrow> (string \<times> uuid \<times> rat) list \<Rightarrow> (string \<times> uuid \<times> rat) list" where
  "known_buckets s t xs =
     concat (map (\<lambda>(b, i, v). map (\<lambda>_. (b, i, v)) (filter (\<lambda>d. d_id d = i \<and> not_deleted_before t d) (db_deps s))) xs)"

definition bucket_observation :: "bucket_source \<Rightarrow> int \<Rightarrow> string \<times> uuid \<times> rat \<Rightarrow> observation" where
  "bucket_observation b w = (\<lambda>(name, i, v).
     \<lparr>ob_subject = \<lparr>ss_kind = SkBucket, ss_ref = name, ss_namespace = Some (bk_namespace b), ss_dep = Some i\<rparr>,
      ob_quantities = [(bucket_metric, dec_mul v (hours_of w))]\<rparr>)"

definition bucket_read :: "bucket_source \<Rightarrow> db \<Rightarrow> time \<Rightarrow> int \<Rightarrow> usage_error + observation list option" where
  "bucket_read b s start w =
     bindR (usable_or_none (bindR (bucket_covers b start w) (\<lambda>ok. if ok then bucket_sizes b start w else Inl (unreadable ''''))))
       (\<lambda>r. case r of None \<Rightarrow> Inr None
             | Some sizes \<Rightarrow> Inr (Some (concat (map (\<lambda>chunk. map (bucket_observation b w) (known_buckets s (start + micros w) chunk))
                                               (batched chunk_size sizes)))))"

definition bucket_size_source :: "bucket_source \<Rightarrow> source" where
  "bucket_size_source b = \<lparr>src_name = ''buckets'', src_metrics = [bucket_metric], src_read = bucket_read b\<rparr>"

section \<open>Databases\<close>

definition db_series :: string where "db_series = ''pg_database_size_bytes''"
definition db_metric :: string where "db_metric = ''db_byte_hours''"
definition db_allowance_metric :: string where "db_allowance_metric = ''db_allowance_byte_hours''"

record database_source =
  dz_prom :: prometheus
  dz_namespace :: string

definition db_covers :: "database_source \<Rightarrow> time \<Rightarrow> int \<Rightarrow> bool result" where
  "db_covers b start w =
     bindR (prom_query (dz_prom b) (count_over (selector_of db_series (dz_namespace b) w)) (start + micros w))
       (\<lambda>r. Inr (r \<noteq> []))"

text \<open>The generator over the answer: what it raises comes after the window was found usable.\<close>

definition db_entry :: "json \<Rightarrow> (string \<times> rat) list result" where
  "db_entry v =
     bindR (as_dict v) (\<lambda>d. bindR (metric_labels d) (\<lambda>ls.
     (case map_of ls ''datname'' of
        Some x \<Rightarrow> if truthy x
                  then (case x of JStr name \<Rightarrow> bindR (series_value d) (\<lambda>size. Inr [(name, size)]) | _ \<Rightarrow> Inl type_error)
                  else Inr []
      | None \<Rightarrow> Inr [])))"

definition db_sizes :: "database_source \<Rightarrow> time \<Rightarrow> int \<Rightarrow> json list result" where
  "db_sizes b start w =
     prom_query (dz_prom b) (''avg_over_time('' @ selector_of db_series (dz_namespace b) w @ '')'') (start + micros w)"

definition plan_allowance :: "db \<Rightarrow> deployment \<Rightarrow> nat option" where
  "plan_allowance s d =
     (case get_sub s (d_subscription d) of None \<Rightarrow> None
      | Some u \<Rightarrow> (case get_plan_template s (sub_plan_template u) of None \<Rightarrow> None | Some p \<Rightarrow> pt_database_bytes p))"

definition known_databases :: "db \<Rightarrow> time \<Rightarrow> (string \<times> rat) list \<Rightarrow> (string \<times> uuid \<times> rat \<times> nat option) list" where
  "known_databases s t xs =
     concat (map (\<lambda>(n, v). concat (map (\<lambda>r.
       map (\<lambda>d. (n, dd_dep r, v, plan_allowance s d)) (filter (\<lambda>d. d_id d = dd_dep r \<and> not_deleted_before t d) (db_deps s)))
       (filter (\<lambda>r. dd_db_name r = n) (db_databases s)))) xs)"

definition db_observation :: "database_source \<Rightarrow> int \<Rightarrow> string \<times> uuid \<times> rat \<times> nat option \<Rightarrow> observation" where
  "db_observation b w = (\<lambda>(name, i, v, allowance).
     \<lparr>ob_subject = \<lparr>ss_kind = SkDatabase, ss_ref = name, ss_namespace = Some (dz_namespace b), ss_dep = Some i\<rparr>,
      ob_quantities = (db_metric, dec_mul v (hours_of w)) #
        (case allowance of Some a \<Rightarrow> if 0 < a then [(db_allowance_metric, dec_mul (of_nat a) (hours_of w))] else [] | None \<Rightarrow> [])\<rparr>)"

definition db_read :: "database_source \<Rightarrow> db \<Rightarrow> time \<Rightarrow> int \<Rightarrow> usage_error + observation list option" where
  "db_read b s start w =
     bindR (usable_or_none (bindR (db_covers b start w) (\<lambda>ok. if ok then db_sizes b start w else Inl (unreadable ''''))))
       (\<lambda>r. case r of None \<Rightarrow> Inr None
             | Some series \<Rightarrow> bindR (or_raise (mapR db_entry series)) (\<lambda>xs.
                 Inr (Some (concat (map (\<lambda>chunk. map (db_observation b w) (known_databases s (start + micros w) chunk))
                                        (batched chunk_size (concat xs)))))))"

definition database_size_source :: "database_source \<Rightarrow> source" where
  "database_size_source b = \<lparr>src_name = ''databases'', src_metrics = [db_metric], src_read = db_read b\<rparr>"

section \<open>Containers\<close>

definition unallocated :: string where "unallocated = ''__unallocated__''"
definition unmounted :: string where "unmounted = ''__unmounted__''"
definition unresolved :: string where "unresolved = ''unresolved''"
definition tenant_label :: string where "tenant_label = ''caelus_dev_tenant''"
definition environment_label :: string where "environment_label = ''caelus_dev_environment''"
definition allocation_series :: string where "allocation_series = ''container_cpu_allocation''"

record allocation =
  al_namespace :: "string option"
  al_kind :: "string option"
  al_controller :: "string option"
  al_container :: string
  al_start :: time
  al_end :: time
  al_minutes :: rat
  al_fields :: "(string \<times> rat) list"
  al_labels :: pydict

definition is_unmounted :: "allocation \<Rightarrow> bool" where
  "is_unmounted a \<longleftrightarrow> al_container a = unmounted"

definition is_tenant :: "allocation \<Rightarrow> bool" where
  "is_tenant a \<longleftrightarrow> map_of (al_labels a) tenant_label = Some (JStr ''true'')"

text \<open>\<^verbatim>\<open>None\<close> is a missing label, or a null one.\<close>

definition tenant_environment :: "allocation \<Rightarrow> json option" where
  "tenant_environment a =
     (case map_of (al_labels a) environment_label of Some JNull \<Rightarrow> None | v \<Rightarrow> v)"

definition decimal_field :: "json option \<Rightarrow> rat result" where
  "decimal_field v =
     (let parse = (\<lambda>s. case decimal_of s of Some x \<Rightarrow> Inr x | None \<Rightarrow> Inl (PyValueError ''InvalidOperation'')) in
      case v of None \<Rightarrow> Inr 0 | Some JNull \<Rightarrow> Inr 0 | Some (JInt i) \<Rightarrow> Inr (of_int i)
      | Some (JFloat s) \<Rightarrow> parse s | Some (JStr s) \<Rightarrow> parse s | Some _ \<Rightarrow> Inl (PyValueError ''InvalidOperation''))"

text \<open>A property is a string when it is there at all.\<close>

definition property :: "pydict \<Rightarrow> string \<Rightarrow> string option result" where
  "property d k =
     (case map_of d k of None \<Rightarrow> Inr None | Some JNull \<Rightarrow> Inr None
      | Some (JStr s) \<Rightarrow> Inr (if s = unallocated then None else Some s) | Some _ \<Rightarrow> Inl type_error)"

definition numeric_entry :: "string \<times> json \<Rightarrow> (string \<times> rat) list result" where
  "numeric_entry = (\<lambda>(k, v).
     case v of JInt i \<Rightarrow> Inr [(k, of_int i)]
     | JFloat s \<Rightarrow> bindR (decimal_field (Some v)) (\<lambda>x. Inr [(k, x)])
     | _ \<Rightarrow> Inr [])"

definition window_bound :: "http \<Rightarrow> pydict \<Rightarrow> string \<Rightarrow> time result" where
  "window_bound h entry k =
     bindR (text_field k (map_of entry ''window''))
       (\<lambda>s. case ht_instant h s of Some t \<Rightarrow> Inr t | None \<Rightarrow> Inl (PyValueError ''Invalid isoformat string''))"

definition parse_entry :: "http \<Rightarrow> json \<Rightarrow> allocation list result" where
  "parse_entry h v =
     bindR (as_dict v) (\<lambda>entry.
     bindR (dict_or (map_of entry ''properties'')) (\<lambda>props.
     bindR (property props ''container'') (\<lambda>container.
     case container of
       None \<Rightarrow> Inr []
     | Some con \<Rightarrow>
         bindR (property props ''namespace'') (\<lambda>ns.
         bindR (property props ''controllerKind'') (\<lambda>kind.
         bindR (property props ''controller'') (\<lambda>ctl.
         bindR (window_bound h entry ''start'') (\<lambda>ws.
         bindR (window_bound h entry ''end'') (\<lambda>we.
         bindR (decimal_field (map_of entry ''minutes'')) (\<lambda>mins.
         bindR (mapR numeric_entry entry) (\<lambda>fields.
         bindR (dict_or (map_of props ''namespaceLabels'')) (\<lambda>labels.
           Inr [\<lparr>al_namespace = ns, al_kind = kind, al_controller = ctl, al_container = con, al_start = ws, al_end = we,
                 al_minutes = mins, al_fields = concat fields, al_labels = labels\<rparr>])))))))))))"

definition parse_allocations :: "http \<Rightarrow> json \<Rightarrow> allocation list list result" where
  "parse_allocations h payload =
     bindR (as_dict payload) (\<lambda>d.
     bindR (list_or (map_of d ''data'')) (\<lambda>windows.
       mapR (\<lambda>w. bindR (as_dict w) (\<lambda>entries. bindR (mapR (parse_entry h) (map snd entries)) (\<lambda>xs. Inr (concat xs)))) windows))"

record opencost =
  oc_http :: http
  oc_url :: string
  oc_prom :: string

definition opencost_client :: "http \<Rightarrow> string \<Rightarrow> string \<Rightarrow> opencost" where
  "opencost_client h url prom = \<lparr>oc_http = h, oc_url = rstrip slash url, oc_prom = rstrip slash prom\<rparr>"

definition fetch_allocations :: "opencost \<Rightarrow> time \<Rightarrow> time \<Rightarrow> allocation list list result" where
  "fetch_allocations c start end' =
     (if oc_url c = [] then Inl (unreadable ''OpenCost is not configured'')
      else let h = oc_http c; window = ht_stamp h start @ '','' @ ht_stamp h end' in
        case ht_get h (oc_url c @ ''/allocation'')
               [(''window'', window), (''step'', ''1h''), (''aggregate'', ''namespace,controllerKind,controller,container''), (''accumulate'', ''false'')] of
          Inl m \<Rightarrow> Inl (unreadable (''OpenCost request failed: '' @ m))
        | Inr (status, body) \<Rightarrow>
            if status \<noteq> 200 then Inl (unreadable (''OpenCost returned '' @ nat_str status @ '' for '' @ window))
            else (case ht_json h body of
                    None \<Rightarrow> Inl (unreadable ''OpenCost returned a non-JSON body'')
                  | Some v \<Rightarrow> parse_allocations h v))"

definition allocation_series_cover :: "opencost \<Rightarrow> time \<Rightarrow> time \<Rightarrow> bool result" where
  "allocation_series_cover c start end' =
     bindR (prom_query (prometheus_client (oc_http c) (oc_prom c))
              (count_over (allocation_series @ range_of (whole_seconds (end' - start)))) end')
       (\<lambda>r. Inr (r \<noteq> []))"

text \<open>\<^verbatim>\<open>read_window\<close>: \<^verbatim>\<open>None\<close> is a window that cannot be trusted.\<close>

definition read_window :: "opencost \<Rightarrow> time \<Rightarrow> time \<Rightarrow> usage_error + allocation list option" where
  "read_window c start end' =
     bindR (usable_or_none (bindR (allocation_series_cover c start end')
              (\<lambda>ok. if ok then fetch_allocations c start end' else Inl (unreadable ''''))))
       (\<lambda>r. Inr (case r of
            None \<Rightarrow> None
          | Some windows \<Rightarrow> (let as = (case windows of [] \<Rightarrow> [] | w # _ \<Rightarrow> w) in if as = [] then None else Some as)))"

definition billable :: "string \<Rightarrow> string option \<Rightarrow> allocation list \<Rightarrow> allocation list" where
  "billable env builds_ns as =
     filter (\<lambda>a. \<not> is_unmounted a \<and>
        \<not> (is_tenant a \<and> tenant_environment a \<noteq> None \<and> tenant_environment a \<noteq> Some (JStr env)) \<and>
        \<not> (case builds_ns of None \<Rightarrow> False | Some n \<Rightarrow> n \<noteq> [] \<and> al_namespace a = Some n)) as"

definition field_metrics :: "(string \<times> string) list" where
  "field_metrics =
     [(''cpu_core_hours'', ''cpuCoreHours''), (''cpu_usage_cores_avg'', ''cpuCoreUsageAverage''),
      (''cpu_request_cores_avg'', ''cpuCoreRequestAverage''), (''cpu_limit_cores_avg'', ''cpuCoreLimitAverage''),
      (''ram_byte_hours'', ''ramByteHours''), (''ram_usage_bytes_avg'', ''ramByteUsageAverage''),
      (''ram_request_bytes_avg'', ''ramByteRequestAverage''), (''ram_limit_bytes_avg'', ''ramByteLimitAverage''),
      (''network_transmit_bytes'', ''networkTransferBytes''), (''network_receive_bytes'', ''networkReceiveBytes''),
      (''pv_byte_hours'', ''pvByteHours'')]"

definition running_seconds :: string where "running_seconds = ''running_seconds''"

definition quantities :: "allocation \<Rightarrow> (string \<times> rat) list" where
  "quantities a =
     concat (map (\<lambda>(m, f). case map_of (al_fields a) f of Some v \<Rightarrow> [(m, v)] | None \<Rightarrow> []) field_metrics) @
     [(running_seconds, dec_mul (al_minutes a) 60)]"

definition or_text :: "string option \<Rightarrow> string \<Rightarrow> string" where
  "or_text v t = (case v of Some s \<Rightarrow> if s = [] then t else s | None \<Rightarrow> t)"

definition subject_ref :: "allocation \<Rightarrow> string" where
  "subject_ref a =
     (case al_namespace a of Some n \<Rightarrow> n | None \<Rightarrow> ''None'') @ ''/'' @ or_text (al_kind a) unresolved @ ''/'' @
     or_text (al_controller a) unresolved @ ''/'' @ al_container a"

definition is_degraded :: "string \<Rightarrow> bool" where
  "is_degraded ref = (let parts = split_on CHR ''/'' ref in length parts = 4 \<and> parts ! 1 = unresolved)"

definition deployment_ids_by_namespace :: "db \<Rightarrow> string set \<Rightarrow> string \<Rightarrow> uuid option" where
  "deployment_ids_by_namespace s names =
     map_of (rev (map (\<lambda>d. (d_namespace d, d_id d)) (filter (\<lambda>d. d_namespace d \<in> names) (db_deps s))))"

definition container_subject :: "allocation \<Rightarrow> uuid option \<Rightarrow> subject_spec" where
  "container_subject a dep = \<lparr>ss_kind = SkContainer, ss_ref = subject_ref a, ss_namespace = al_namespace a, ss_dep = dep\<rparr>"

definition observations :: "db \<Rightarrow> allocation list \<Rightarrow> observation list" where
  "observations s as =
     concat (map (\<lambda>chunk.
       let owners = deployment_ids_by_namespace s (set (filter (\<lambda>n. n \<noteq> []) (List.map_filter al_namespace chunk))) in
       map (\<lambda>a. \<lparr>ob_subject = container_subject a (case al_namespace a of None \<Rightarrow> None | Some n \<Rightarrow> owners n),
                 ob_quantities = quantities a\<rparr>) chunk) (batched chunk_size as))"

definition container_metrics :: "string list" where
  "container_metrics = [''network_receive_bytes'', ''network_transmit_bytes'', ''pv_byte_hours'']"

record container_source =
  cs_client :: opencost
  cs_environment :: string
  cs_builds_namespace :: "string option"

definition container_read :: "container_source \<Rightarrow> db \<Rightarrow> time \<Rightarrow> int \<Rightarrow> usage_error + observation list option" where
  "container_read c s start w =
     bindR (read_window (cs_client c) start (start + micros w)) (\<lambda>r. Inr (
       case r of
         None \<Rightarrow> None
       | Some as \<Rightarrow> (let bs = billable (cs_environment c) (cs_builds_namespace c) as in
                     if bs = [] then None else Some (observations s bs))))"

definition opencost_source :: "container_source \<Rightarrow> source" where
  "opencost_source c = \<lparr>src_name = ''opencost'', src_metrics = container_metrics, src_read = container_read c\<rparr>"

section \<open>The sources of an environment\<close>

definition default_sources :: "http \<Rightarrow> string \<Rightarrow> string \<Rightarrow> usage_settings \<Rightarrow> source list" where
  "default_sources h url prom_url c =
     [opencost_source \<lparr>cs_client = opencost_client h url prom_url, cs_environment = uc_environment c,
                       cs_builds_namespace = Some (uc_builds_namespace c)\<rparr>] @
     (if uc_db_namespace c = [] then []
      else [database_size_source \<lparr>dz_prom = prometheus_client h prom_url, dz_namespace = uc_db_namespace c\<rparr>]) @
     (if uc_bucket_namespace c = [] then []
      else [bucket_size_source \<lparr>bk_prom = prometheus_client h prom_url, bk_namespace = uc_bucket_namespace c\<rparr>])"

end
