(* ===== verification/UsageSystem.thy ===== *)
theory UsageSystem
  imports UsagePosition UsageBuilds UsageSources
begin

text \<open>
  The usage accounting as a whole: the sampler's passes, the recording of builds and the changes of
  the platform's own tables, in any order. \<open>usage_step\<close> is one of them, \<open>usage_history\<close> what
  they can lead to; two facts are kept beside the tables for the statements: which windows of which
  source were measured.
\<close>

section \<open>What each source writes\<close>

definition writes :: "source \<Rightarrow> subject_kind \<Rightarrow> string set \<Rightarrow> bool" where
  "writes src k ms \<longleftrightarrow> (\<forall>s w i obs ob. src_read src s w i = Inr (Some obs) \<and> ob \<in> set obs \<longrightarrow>
     ss_kind (ob_subject ob) = k \<and> fst ` set (ob_quantities ob) \<subseteq> ms)"

lemma bucket_writes: "writes (bucket_size_source b) SkBucket {bucket_metric}"
  by (auto simp: writes_def bucket_size_source_def bucket_read_def bucket_observation_def result_simps split: option.splits)

lemma database_writes: "writes (database_size_source b) SkDatabase {db_metric, db_allowance_metric}"
  by (auto simp: writes_def database_size_source_def db_read_def db_observation_def result_simps split: option.splits if_splits)

lemma quantities_names: "fst ` set (quantities a) \<subseteq> insert running_seconds (fst ` set field_metrics)"
  by (force simp: quantities_def split: option.splits)

lemma in_observations:
  "ob \<in> set (observations s as) \<Longrightarrow> \<exists>a dep. ob = \<lparr>ob_subject = container_subject a dep, ob_quantities = quantities a\<rparr>"
  by (auto simp: observations_def Let_def)

lemma container_read_observations:
  "container_read c s w i = Inr (Some obs) \<Longrightarrow> \<exists>as. obs = observations s as"
  by (auto simp: container_read_def result_simps Let_def split: option.splits if_splits)

lemma container_writes: "writes (opencost_source c) SkContainer (insert running_seconds (fst ` set field_metrics))"
  unfolding writes_def
proof (intro allI impI, elim conjE)
  fix s w i obs ob
  assume "src_read (opencost_source c) s w i = Inr (Some obs)" "ob \<in> set obs"
  then obtain a dep where ob: "ob = \<lparr>ob_subject = container_subject a dep, ob_quantities = quantities a\<rparr>"
    using container_read_observations in_observations by (fastforce simp: opencost_source_def)
  show "ss_kind (ob_subject ob) = SkContainer \<and> fst ` set (ob_quantities ob) \<subseteq> insert running_seconds (fst ` set field_metrics)"
    unfolding ob using quantities_names by (simp add: container_subject_def)
qed

definition build_metrics :: "string set" where
  "build_metrics = {''cpu_request_cores_avg'', ''cpu_limit_cores_avg'', ''ram_request_bytes_avg'', ''ram_limit_bytes_avg'',
     ''running_seconds'', ''cpu_core_hours'', ''ram_byte_hours'', ''cpu_usage_cores_avg'', ''ram_usage_bytes_avg''}"

lemma build_quantities_names:
  "u \<in> set (window_quantities w b) \<Longrightarrow> fst ` set (wu_quantities u) \<subseteq> build_metrics \<and> distinct (map fst (wu_quantities u))"
  by (auto simp: window_quantities_def build_metrics_def Let_def split: option.splits bool.splits if_splits)

section \<open>A stretch without measurements\<close>

lemma record_nothing: "record_observations w i seen cat n [] l = Inr (0, l)"
  by (simp add: record_observations_def batched.simps)

lemma sample_windows_empty:
  "(\<And>t. t \<in> set ws \<Longrightarrow> src_read src s t (uc_window c) = Inr (Some [])) \<Longrightarrow>
   snd (sample_windows c s now cat src ws (r, l)) = l"
  by (induction ws arbitrary: r) (simp_all add: record_source_window_def record_nothing)

text \<open>
  C35. A source that has recorded something and then finds nothing to record for as many windows as a
  pass takes never records anything again. Every window it reads is usable and empty, so nothing is
  written, the position stays where it is and the next pass reads the very same windows; however
  often it runs and however much later, it never gets to the window after them. The specification of
  the bucket source says that progress advances past a usable window that holds no buckets.
\<close>

theorem empty_stretch_stalls:
  assumes "last_recorded_window l (src_metrics src) = Some p"
    and "\<forall>t \<in> set (run_from (uc_window c) (align (uc_window c) p + micros (uc_window c)) (uc_max_windows c)).
           src_read src s t (uc_window c) = Inr (Some [])"
  shows "snd (fold (\<lambda>now x. sample_source c s now cat src x) nows (r, l)) = l \<and>
     set (pending_windows c now (src_metrics src) l) \<subseteq>
       set (run_from (uc_window c) (align (uc_window c) p + micros (uc_window c)) (uc_max_windows c))"
proof -
  have start: "resume_from c now (src_metrics src) l = align (uc_window c) p + micros (uc_window c)" for now
    using assms(1) by (simp add: resume_from_def)
  have sub: "set (pending_windows c now (src_metrics src) l) \<subseteq>
      set (run_from (uc_window c) (align (uc_window c) p + micros (uc_window c)) (uc_max_windows c))" for now
    using pending_run[of c now "src_metrics src" l] unfolding start by (force simp: run_from_def)
  have "snd (sample_source c s now cat src (r, l)) = l" for now r
    unfolding sample_source_def prod.case using sub assms(2) by (intro sample_windows_empty) blast
  then have "snd (fold (\<lambda>now x. sample_source c s now cat src x) nows (r, l)) = l"
    by (induction nows arbitrary: r) (simp_all, metis prod.collapse)
  with sub show ?thesis by blast
qed

text \<open>An exporter that runs and reports no bucket.\<close>

definition no_buckets :: bucket_source where
  "no_buckets = \<lparr>bk_prom = \<lparr>pm_http = \<lparr>ht_get = (\<lambda>url params. Inr (200, if starts_with (snd (hd params)) ''count'' then ''up'' else ''none'')),
       ht_json = (\<lambda>body. Some (JObj [(''data'', JObj [(''result'', JList (if body = ''up'' then [JObj []] else []))])])),
       ht_stamp = (\<lambda>t. []), ht_instant = (\<lambda>s. None)\<rparr>, pm_url = ''http://prometheus''\<rparr>, bk_namespace = ''dev''\<rparr>"

definition demo_usage :: usage_settings where
  "demo_usage = \<lparr>uc_window = 3600, uc_settle = 300, uc_lookback = 21600, uc_max_windows = 2, uc_environment = ''dev'',
     uc_builds_namespace = ''builds'', uc_db_namespace = [], uc_bucket_namespace = ''dev''\<rparr>"

lemma no_buckets_read: "src_read (bucket_size_source no_buckets) s t w = Inr (Some [])"
  by (simp add: bucket_size_source_def bucket_read_def bucket_covers_def bucket_sizes_def no_buckets_def prom_query_def
      count_over_def starts_with_def dict_or_def list_or_def usable_or_none_def batched.simps Let_def)

lemma demo_position: "last_recorded_window demo_ledger (src_metrics (bucket_size_source no_buckets)) = Some 3600000000"
  by (simp add: last_recorded_window_def position_of_def demo_ledger_def demo_metric_def bucket_size_source_def bucket_metric_def Let_def)

theorem empty_stretch_stalls_witness:
  "snd (fold (\<lambda>now x. sample_source demo_usage empty_db now Map.empty (bucket_size_source no_buckets) x)
     [50000000000, 99000000000000] (no_run, demo_ledger)) = demo_ledger"
  using empty_stretch_stalls[OF demo_position, of demo_usage empty_db Map.empty "[50000000000, 99000000000000]" no_run 0]
    no_buckets_read by simp

section \<open>References of builds\<close>

lemma hex_digit_inj: "a < 16 \<Longrightarrow> b < 16 \<Longrightarrow> hex_digit a = hex_digit b \<Longrightarrow> a = b"
  by (auto simp: hex_digit_def split: if_splits dest!: arg_cong[of _ _ "of_char :: char \<Rightarrow> nat"])

lemma hex_digit_plain: "d < 16 \<Longrightarrow> hex_digit d \<noteq> CHR ''-''"
  by (auto simp: hex_digit_def dest!: arg_cong[of _ _ "of_char :: char \<Rightarrow> nat"])

lemma hex_pad_plain: "c \<in> set (hex_pad k n) \<Longrightarrow> c \<noteq> CHR ''-''"
  using hex_digit_plain[OF mod_less_divisor] by (induction k arbitrary: n) fastforce+

lemma length_hex_pad [simp]: "length (hex_pad k n) = k"
  by (induction k arbitrary: n) auto

lemma hex_pad_inj: "hex_pad k a = hex_pad k b \<Longrightarrow> a mod 16 ^ k = b mod 16 ^ k"
proof (induction k arbitrary: a b)
  case (Suc k)
  then have "hex_pad k (a div 16) = hex_pad k (b div 16)" "hex_digit (a mod 16) = hex_digit (b mod 16)" by auto
  then have "(a div 16) mod 16 ^ k = (b div 16) mod 16 ^ k" "a mod 16 = b mod 16"
    using Suc.IH hex_digit_inj[of "a mod 16" "b mod 16"] by (blast, simp)
  then show ?case unfolding power_Suc mod_mult2_eq by (simp only:)
qed simp

lemma uuid_digits: "filter (\<lambda>c. c \<noteq> CHR ''-'') (uuid_str n) = hex_pad 32 n"
proof -
  let ?h = "hex_pad 32 n"
  have f: "filter (\<lambda>c. c \<noteq> CHR ''-'') xs = xs" if "set xs \<subseteq> set ?h" for xs
    using that hex_pad_plain[of _ 32 n] by (simp add: filter_id_conv subset_iff)
  have s: "set (take i (drop j ?h)) \<subseteq> set ?h" "set (take i ?h) \<subseteq> set ?h" "set (drop j ?h) \<subseteq> set ?h" for i j
    by (meson order_trans set_drop_subset set_take_subset)+
  have parts: "xs = take 8 xs @ take 4 (drop 8 xs) @ take 4 (drop 12 xs) @ take 4 (drop 16 xs) @ drop 20 xs" for xs :: string
  proof -
    have "drop 16 xs = take 4 (drop 16 xs) @ drop 20 xs" "drop 12 xs = take 4 (drop 12 xs) @ drop 16 xs"
        "drop 8 xs = take 4 (drop 8 xs) @ drop 12 xs" "xs = take 8 xs @ drop 8 xs"
      using append_take_drop_id[of 4 "drop 16 xs"] append_take_drop_id[of 4 "drop 12 xs"]
        append_take_drop_id[of 4 "drop 8 xs"] by simp_all
    then show ?thesis by metis
  qed
  note h = parts[of ?h]
  show ?thesis
    unfolding uuid_str_def Let_def filter_append by (simp add: f s h[symmetric] del: hex_pad.simps)
qed

lemma uuid_str_inj: "uuid_str a = uuid_str b \<Longrightarrow> a < 2 ^ 128 \<Longrightarrow> b < 2 ^ 128 \<Longrightarrow> a = b"
  using hex_pad_inj[of 32 a b] uuid_digits[of a] uuid_digits[of b] by simp

section \<open>Who wrote a sample\<close>

lemma metric_ids_row: "metric_ids l m = Some i \<Longrightarrow> \<exists>r \<in> set (lg_metrics l). um_name r = m \<and> um_id r = i"
  unfolding metric_ids_def by (drule map_of_SomeD) auto

lemma metric_ids_grows: "ledger_grows l l' \<Longrightarrow> metric_ids l' = metric_ids l \<and> (metrics_ok l \<longrightarrow> metrics_ok l')"
  by (simp add: ledger_grows_def metric_ids_def metrics_ok_def)

lemma metric_named: "metrics_ok l \<Longrightarrow> metric_ids l m = Some i \<Longrightarrow> i \<in> metric_ids_of l names \<longleftrightarrow> m \<in> set names"
  unfolding metric_ids_of_def metrics_ok_def
  using metric_ids_row[of l m i] by (auto dest: keyed_unique)

lemma positions_foreign:
  assumes "ledger_grows l l'" "metrics_ok l"
    and "\<And>x. x \<in> set (lg_samples l') \<Longrightarrow> x \<notin> set (lg_samples l) \<Longrightarrow> \<exists>m. metric_ids l m = Some (sm_metric x) \<and> m \<notin> set names"
  shows "positions l' names = positions l names"
proof -
  have i: "metric_ids_of l' names = metric_ids_of l names" by (rule metric_ids_of_grows[OF assms(1)])
  have "x \<in> set (lg_samples l)" if "x \<in> set (lg_samples l')" "sm_metric x \<in> metric_ids_of l names" for x
    using assms(3)[OF that(1)] metric_named[OF assms(2)] that(2) by blast
  then have "{x \<in> set (lg_samples l'). sm_metric x \<in> metric_ids_of l names} = {x \<in> set (lg_samples l). sm_metric x \<in> metric_ids_of l names}"
    using ledger_grows_samples[OF assms(1)] by blast
  then show ?thesis by (simp add: positions_def i)
qed

lemma source_foreign:
  assumes "source_adds src s i (metric_ids l) ms l l'" "metrics_ok l" "writes src k W" "W \<inter> set names = {}"
  shows "positions l' names = positions l names"
proof (rule positions_foreign)
  show "ledger_grows l l'" using assms(1) by (simp add: source_adds_def)
  fix x assume "x \<in> set (lg_samples l')" "x \<notin> set (lg_samples l)"
  then obtain obs ob m where "src_read src s (sm_start x) i = Inr (Some obs)" "ob \<in> set obs"
      "m \<in> fst ` set (ob_quantities ob)" "metric_ids l m = Some (sm_metric x)"
    using assms(1) unfolding source_adds_def sample_of_def by fastforce
  moreover from this have "m \<in> W" using assms(3) unfolding writes_def by blast
  ultimately show "\<exists>m. metric_ids l m = Some (sm_metric x) \<and> m \<notin> set names" using assms(4) by blast
qed fact

end
