(* ===== verification/UsageReach.thy ===== *)
theory UsageReach
  imports UsageSystem
begin

text \<open>
  Histories of the usage accounting: passes of the sampler, whatever its sources answer, passes of
  the recording of builds, and changes of the platform's tables, in any order. The claims are that no
  window between two recorded ones was skipped, and that a recorded build is in the ledger once, with
  exactly the shares of its windows.
\<close>

section \<open>The samples of a build\<close>

definition build_key :: "usage_build \<Rightarrow> subject_kind \<times> string" where
  "build_key b = (SkBuild, uuid_str (b_id b))"

definition of_subject :: "ledger \<Rightarrow> subject_kind \<times> string \<Rightarrow> sample \<Rightarrow> bool" where
  "of_subject l k x \<longleftrightarrow> (\<exists>r \<in> set (lg_subjects l). us_id r = sm_subject x \<and> us_key r = k)"

definition build_samples :: "ledger \<Rightarrow> string \<Rightarrow> usage_build \<Rightarrow> (time \<times> rat) list" where
  "build_samples l m b =
     map (\<lambda>x. (sm_start x, sm_value x))
       (filter (\<lambda>x. metric_ids l m = Some (sm_metric x) \<and> of_subject l (build_key b) x) (lg_samples l))"

definition window_values :: "string \<Rightarrow> window_usage list \<Rightarrow> (time \<times> rat) list" where
  "window_values m us =
     concat (map (\<lambda>u. case map_of (wu_quantities u) m of Some v \<Rightarrow> [(wu_start u, v)] | None \<Rightarrow> []) us)"

lemma of_subject_unique: "lg_ok l \<Longrightarrow> of_subject l k x \<Longrightarrow> of_subject l k' x \<Longrightarrow> k = k'"
  unfolding of_subject_def lg_ok_def by (metis keyed_unique)

lemma of_subject_some:
  assumes "lg_ok l" "x \<in> set (lg_samples l)"
  shows "\<exists>k. of_subject l k x"
proof -
  have "sm_subject x \<in> us_id ` set (lg_subjects l)" using assms by (simp add: lg_ok_def)
  then obtain r where "r \<in> set (lg_subjects l)" "us_id r = sm_subject x" by (auto simp: image_iff)
  then show ?thesis unfolding of_subject_def by blast
qed

lemma of_subject_grows: "ledger_grows l l' \<Longrightarrow> of_subject l k x \<Longrightarrow> of_subject l' k x"
  unfolding of_subject_def using subject_grows_key by metis

lemma of_subject_kept:
  assumes "lg_ok l" "lg_ok l'" "ledger_grows l l'" "x \<in> set (lg_samples l)"
  shows "of_subject l' k x \<longleftrightarrow> of_subject l k x"
proof
  assume "of_subject l' k x"
  moreover obtain k' where "of_subject l k' x" using of_subject_some[OF assms(1,4)] by blast
  ultimately show "of_subject l k x" using of_subject_grows[OF assms(3)] of_subject_unique[OF assms(2)] by metis
qed (rule of_subject_grows[OF assms(3)])

lemma build_samples_step:
  assumes "lg_ok l" "lg_ok l'" "ledger_grows l l'" "lg_samples l' = lg_samples l @ new"
  shows "build_samples l' m b = build_samples l m b @
     map (\<lambda>x. (sm_start x, sm_value x)) (filter (\<lambda>x. metric_ids l m = Some (sm_metric x) \<and> of_subject l' (build_key b) x) new)"
proof -
  have "filter (\<lambda>x. metric_ids l m = Some (sm_metric x) \<and> of_subject l' (build_key b) x) (lg_samples l) =
      filter (\<lambda>x. metric_ids l m = Some (sm_metric x) \<and> of_subject l (build_key b) x) (lg_samples l)"
    using of_subject_kept[OF assms(1-3)] by (intro filter_cong) auto
  then show ?thesis using metric_ids_grows[OF assms(3)] by (simp add: build_samples_def assms(4))
qed

lemma build_samples_foreign:
  assumes "lg_ok l" "lg_ok l'" "ledger_grows l l'"
    and "\<And>x. x \<in> set (lg_samples l') \<Longrightarrow> x \<notin> set (lg_samples l) \<Longrightarrow> \<exists>k. of_subject l' k x \<and> k \<noteq> build_key b"
  shows "build_samples l' m b = build_samples l m b"
proof -
  obtain new where new: "lg_samples l' = lg_samples l @ new" using assms(3) by (auto simp: ledger_grows_def)
  have "distinct (lg_samples l')" using assms(2) by (simp add: lg_ok_def distinct_map)
  then have "\<not> of_subject l' (build_key b) x" if x: "x \<in> set new" for x
  proof -
    have "x \<in> set (lg_samples l')" "x \<notin> set (lg_samples l)" using x new \<open>distinct (lg_samples l')\<close> by auto
    then obtain k where "of_subject l' k x" "k \<noteq> build_key b" using assms(4) by blast
    then show ?thesis using of_subject_unique[OF assms(2)] by blast
  qed
  then show ?thesis unfolding build_samples_step[OF assms(1-3) new] by (simp add: filter_False)
qed

section \<open>Recording a build\<close>

lemma insert_samples_fresh:
  "distinct (map sample_key xs) \<Longrightarrow> sample_key ` set xs \<inter> sample_key ` set rows = {} \<Longrightarrow>
   insert_samples xs rows = rows @ xs"
proof (induction xs arbitrary: rows)
  case (Cons x xs)
  then have "insert_sample x rows = rows @ [x]" by (auto simp: insert_sample_def)
  with Cons show ?case by (auto simp: insert_samples_def)
qed (simp add: insert_samples_def)

lemma metric_ids_inj:
  assumes "metrics_ok l" "metric_ids l m = Some i" "metric_ids l m' = Some i"
  shows "m = m'"
proof -
  obtain r r' where "r \<in> set (lg_metrics l)" "um_name r = m" "um_id r = i" "r' \<in> set (lg_metrics l)" "um_name r' = m'" "um_id r' = i"
    using metric_ids_row[OF assms(2)] metric_ids_row[OF assms(3)] by blast
  with assms(1) show ?thesis by (auto simp: metrics_ok_def dest: keyed_unique)
qed

lemma catalogued_rows:
  "catalogued cat (build_rows w i us) \<longleftrightarrow> (\<forall>u \<in> set us. \<forall>q \<in> set (wu_quantities u). cat (fst q) \<noteq> None)"
  by (simp add: catalogued_def build_rows_def case_prod_unfold)

lemma build_rows_keys:
  assumes "metrics_ok l" "catalogued (metric_ids l) (build_rows w i us)"
    and "distinct (map wu_start us)" "\<forall>u \<in> set us. distinct (map fst (wu_quantities u))"
  shows "distinct (map sample_key (map (to_sample now (metric_ids l)) (build_rows w i us)))"
  using assms(2-4)
proof (induction us)
  case (Cons u us)
  let ?f = "\<lambda>u. map (\<lambda>(m, v). \<lparr>sr_subject = i, sr_metric = m, sr_start = wu_start u, sr_interval = w, sr_value = v\<rparr>) (wu_quantities u)"
  have rows: "build_rows w i (u # us) = ?f u @ build_rows w i us" by (simp add: build_rows_def)
  have c: "catalogued (metric_ids l) (build_rows w i us)" "\<forall>q \<in> set (wu_quantities u). metric_ids l (fst q) \<noteq> None"
    using Cons.prems(1) by (simp_all add: catalogued_rows)
  have inj: "inj_on (\<lambda>m. case metric_ids l m of Some i \<Rightarrow> i | None \<Rightarrow> 0) (fst ` set (wu_quantities u))"
  proof (rule inj_onI)
    fix m m' assume mm: "m \<in> fst ` set (wu_quantities u)" "m' \<in> fst ` set (wu_quantities u)"
      "(case metric_ids l m of Some i \<Rightarrow> i | None \<Rightarrow> 0) = (case metric_ids l m' of Some i \<Rightarrow> i | None \<Rightarrow> 0)"
    have "metric_ids l m \<noteq> None" "metric_ids l m' \<noteq> None" using mm(1,2) c(2) by blast+
    then obtain j j' where "metric_ids l m = Some j" "metric_ids l m' = Some j'" by blast
    with mm(3) show "m = m'" using metric_ids_inj[OF assms(1)] by simp
  qed
  have "map (sample_key \<circ> to_sample now (metric_ids l)) (?f u) =
      map (\<lambda>m. (i, case metric_ids l m of Some i \<Rightarrow> i | None \<Rightarrow> 0, wu_start u)) (map fst (wu_quantities u))"
    by (simp add: sample_key_def to_sample_def comp_def case_prod_unfold)
  moreover have "distinct (map (\<lambda>m. (i, case metric_ids l m of Some i \<Rightarrow> i | None \<Rightarrow> 0, wu_start u)) (map fst (wu_quantities u)))"
    using Cons.prems(3) inj by (simp add: distinct_map inj_on_def)
  ultimately have one: "distinct (map sample_key (map (to_sample now (metric_ids l)) (?f u)))"
    unfolding map_map comp_assoc by (simp only:)
  have "wu_start u \<notin> wu_start ` set us" using Cons.prems(2) by simp
  then have disj: "set (map sample_key (map (to_sample now (metric_ids l)) (?f u))) \<inter>
      set (map sample_key (map (to_sample now (metric_ids l)) (build_rows w i us))) = {}"
    by (auto simp: build_rows_def sample_key_def to_sample_def)
  have "distinct (map wu_start us)" "\<forall>u \<in> set us. distinct (map fst (wu_quantities u))" using Cons.prems(2,3) by auto
  from one disj Cons.IH[OF c(1) this] show ?case unfolding rows map_append distinct_append by blast
qed (simp add: build_rows_def)

lemma window_quantities_grid:
  assumes "u \<in> set (window_quantities w b)"
  shows "on_grid w (wu_start u)"
proof -
  consider "window_quantities w b = []" | s e where "run_of b = Some (s, e)" "s < e"
    using window_quantities_none by blast
  then show ?thesis
  proof cases
    case (2 s e)
    then have "wu_start u \<in> set (window_starts w (align w s) e)"
      using imageI[OF assms, of wu_start] window_quantities_run(1)[OF 2, of w] by (simp only: set_map[symmetric])
    then show ?thesis by (rule window_starts_grid) simp
  qed (use assms in simp)
qed

lemma window_quantities_wf:
  "distinct (map wu_start (window_quantities w b)) \<and>
   (\<forall>u \<in> set (window_quantities w b). distinct (map fst (wu_quantities u)) \<and> fst ` set (wu_quantities u) \<subseteq> build_metrics)"
proof -
  consider "window_quantities w b = []" | s e where "run_of b = Some (s, e)" "s < e"
    using window_quantities_none by blast
  then show ?thesis
  proof cases
    case 2
    then show ?thesis
      using build_quantities_names[of _ w b] window_starts_distinct by (simp add: window_quantities_run(1))
  qed simp
qed

lemma build_rows_values:
  assumes "metrics_ok l" "metric_ids l m = Some j" "catalogued (metric_ids l) (build_rows w i us)"
    and "\<forall>u \<in> set us. distinct (map fst (wu_quantities u))"
  shows "map (\<lambda>x. (sm_start x, sm_value x))
     (filter (\<lambda>x. metric_ids l m = Some (sm_metric x)) (map (to_sample now (metric_ids l)) (build_rows w i us))) = window_values m us"
  using assms(3,4)
proof (induction us)
  case (Cons u us)
  let ?g = "\<lambda>(m, v). to_sample now (metric_ids l) \<lparr>sr_subject = i, sr_metric = m, sr_start = wu_start u, sr_interval = w, sr_value = v\<rparr>"
  have c: "catalogued (metric_ids l) (build_rows w i us)" "\<forall>q \<in> set (wu_quantities u). metric_ids l (fst q) \<noteq> None"
    using Cons.prems(1) by (simp_all add: catalogued_rows)
  have same: "metric_ids l m = Some (sm_metric (?g q)) \<longleftrightarrow> fst q = m" if q: "q \<in> set (wu_quantities u)" for q
  proof -
    obtain k where k: "metric_ids l (fst q) = Some k" using bspec[OF c(2) q] by (cases "metric_ids l (fst q)") simp_all
    then have g: "sm_metric (?g q) = k" by (simp add: to_sample_def case_prod_unfold)
    have "fst q = m" if "k = j" using metric_ids_inj[OF assms(1) k] assms(2) that by simp
    moreover have "k = j" if "fst q = m" using k assms(2) that by simp
    ultimately show ?thesis unfolding g assms(2) by auto
  qed
  have "map (\<lambda>x. (sm_start x, sm_value x)) (filter (\<lambda>x. metric_ids l m = Some (sm_metric x)) (map ?g qs)) =
      (case map_of qs m of Some v \<Rightarrow> [(wu_start u, v)] | None \<Rightarrow> [])"
    if "set qs \<subseteq> set (wu_quantities u)" "distinct (map fst qs)" for qs
    using that
  proof (induction qs)
    case (Cons q qs)
    then have "map_of qs m = None" if "fst q = m" using that by (auto simp: map_of_eq_None_iff)
    with Cons same[of q] show ?case by (cases q) (auto simp: to_sample_def split: option.splits)
  qed simp
  from this[of "wu_quantities u"] Cons.prems(2) Cons.IH[OF c(1)] show ?case
    by (simp add: build_rows_def window_values_def comp_def case_prod_unfold)
qed (simp add: build_rows_def window_values_def)

text \<open>What recording one build does to the ledger, when it has no samples yet.\<close>

lemma upsert_subject_spec:
  assumes "upsert_subject now p l = Inr (i, l')" "lg_ok l"
  shows "lg_ok l' \<and> ledger_grows l l' \<and> lg_samples l' = lg_samples l \<and>
     (\<exists>r \<in> set (lg_subjects l'). us_id r = i \<and> us_key r = spec_key p)"
proof -
  obtain ids l1 where u: "upsert_subjects now chunk_size [p] l = (ids, l1)" by fastforce
  note ok = upsert_subjects_ok[OF u assms(2) chunk_size_pos]
  have i: "ids (spec_key p) = Some i" "l' = l1" using assms(1) u by (auto simp: upsert_subject_def split: option.splits)
  then show ?thesis using ok ids_okD[of l1 ids "spec_key p"] by auto
qed

lemma record_build_spec:
  assumes rec: "record_build c now (metric_ids l) b l = Inr (n, l')" and ok: "lg_ok l" "metrics_ok l"
    and none: "\<And>x. x \<in> set (lg_samples l) \<Longrightarrow> \<not> of_subject l (build_key b) x"
  shows "lg_ok l' \<and> ledger_grows l l' \<and>
    (\<forall>x \<in> set (lg_samples l'). x \<in> set (lg_samples l) \<or>
       of_subject l' (build_key b) x \<and> on_grid (uc_window c) (sm_start x) \<and>
       (\<exists>m \<in> build_metrics. metric_ids l m = Some (sm_metric x))) \<and>
    (\<forall>m. metric_ids l m \<noteq> None \<longrightarrow> build_samples l' m b = window_values m (window_quantities (uc_window c) b))"
proof (cases "window_quantities (uc_window c) b = []")
  case True
  have "record_samples now (metric_ids l) chunk_size [] l = Inr (0, l)" by (simp add: record_samples_def batched.simps)
  then have "l' = l" using rec True by (simp add: record_build_def)
  moreover have "build_samples l m b = []" for m using none by (simp add: build_samples_def filter_empty_conv)
  ultimately show ?thesis using ok True by (simp add: window_values_def)
next
  case False
  let ?w = "uc_window c" and ?cat = "metric_ids l"
  let ?us = "window_quantities ?w b"
  obtain i l1 where u: "upsert_subject now (build_spec c b) l = Inr (i, l1)"
      "record_samples now ?cat chunk_size (build_rows ?w i ?us) l1 = Inr (n, l')"
    using rec False by (auto simp: record_build_def result_simps)
  have key: "spec_key (build_spec c b) = build_key b" by (simp add: spec_key_def build_spec_def build_key_def)
  from upsert_subject_spec[OF u(1) ok(1)] obtain r where
    s: "lg_ok l1" "ledger_grows l l1" "lg_samples l1 = lg_samples l" "r \<in> set (lg_subjects l1)" "us_id r = i" "us_key r = build_key b"
    unfolding key by blast
  have c: "catalogued ?cat (build_rows ?w i ?us)"
    using record_samples_uncatalogued[of ?cat "build_rows ?w i ?us" chunk_size now l1] u(2) chunk_size_pos by fastforce
  let ?xs = "map (to_sample now ?cat) (build_rows ?w i ?us)"
  have subj: "sm_subject x = i" if "x \<in> set ?xs" for x using that by (auto simp: build_rows_def to_sample_def)
  have new_of: "of_subject l1 (build_key b) x" if "x \<in> set ?xs" for x
    using s(4-6) subj[OF that] by (auto simp: of_subject_def)
  have "sample_key ` set ?xs \<inter> sample_key ` set (lg_samples l1) = {}"
  proof -
    have other: "sm_subject x \<noteq> i" if x: "x \<in> set (lg_samples l)" for x
    proof
      assume "sm_subject x = i"
      then have "of_subject l1 (build_key b) x" using s(4-6) by (auto simp: of_subject_def)
      then show False using of_subject_kept[OF ok(1) s(1,2) x] none[OF x] by blast
    qed
    have False if "k \<in> sample_key ` set ?xs" "k \<in> sample_key ` set (lg_samples l)" for k
    proof -
      from that(1) obtain x where x: "k = sample_key x" "x \<in> set ?xs" by (rule imageE)
      from that(2) obtain y where y: "k = sample_key y" "y \<in> set (lg_samples l)" by (rule imageE)
      from x(1) y(1) subj[OF x(2)] other[OF y(2)] show False by (simp add: sample_key_def)
    qed
    then show ?thesis unfolding s(3) by blast
  qed
  moreover note wf = window_quantities_wf[of ?w b]
  ultimately have ins: "insert_samples ?xs (lg_samples l1) = lg_samples l @ ?xs"
    using insert_samples_fresh[OF build_rows_keys[OF ok(2) c]] s(3) by simp
  have l': "l' = l1\<lparr>lg_samples := lg_samples l @ ?xs\<rparr>"
    using u(2) record_samples_eq[OF c chunk_size_pos] ins by (simp add: Let_def)
  have "\<forall>x \<in> set ?xs. sm_subject x \<in> us_id ` set (lg_subjects l1)" using subj s(4,5) by blast
  from insert_samples_ok[OF s(1) this] have g: "lg_ok l'" "ledger_grows l1 l'" by (simp_all add: l' ins)
  note gl = ledger_grows_trans[OF s(2) g(2)]
  have samples: "lg_samples l' = lg_samples l @ ?xs" by (simp add: l')
  have of': "of_subject l' (build_key b) x" if "x \<in> set ?xs" for x using new_of[OF that] by (simp add: of_subject_def l')
  have met: "\<exists>m \<in> build_metrics. ?cat m = Some (sm_metric x)" if x: "x \<in> set ?xs" for x
  proof -
    obtain q v where q: "v \<in> set ?us" "q \<in> set (wu_quantities v)" and xe: "sm_metric x = (case ?cat (fst q) of Some i \<Rightarrow> i | None \<Rightarrow> 0)"
      using x by (auto simp: build_rows_def to_sample_def case_prod_unfold)
    have "fst q \<in> build_metrics" using wf q by blast
    moreover have "?cat (fst q) \<noteq> None" using c q by (simp add: catalogued_rows)
    ultimately show ?thesis using xe by auto
  qed
  have "build_samples l' m b = window_values m ?us" if m: "?cat m \<noteq> None" for m
  proof -
    obtain j where j: "?cat m = Some j" using m by blast
    have "filter (\<lambda>x. ?cat m = Some (sm_metric x) \<and> of_subject l' (build_key b) x) ?xs = filter (\<lambda>x. ?cat m = Some (sm_metric x)) ?xs"
      using of' by (intro filter_cong) auto
    moreover have "build_samples l m b = []" using none by (simp add: build_samples_def filter_empty_conv)
    ultimately show ?thesis
      using build_samples_step[OF ok(1) g(1) gl samples, of m b] build_rows_values[OF ok(2) j c, of now] wf by simp
  qed
  moreover have "on_grid ?w (sm_start x)" if "x \<in> set ?xs" for x
    using that window_quantities_grid by (auto simp: build_rows_def to_sample_def)
  ultimately show ?thesis using g gl samples of' met by auto
qed

section \<open>Passes of the sampler\<close>

definition gapless_all :: "usage_settings \<Rightarrow> source list \<Rightarrow> ledger \<Rightarrow> (string \<times> time) set \<Rightarrow> bool" where
  "gapless_all c srcs l M \<longleftrightarrow> (\<forall>src \<in> set srcs. gapless (uc_window c) l (src_metrics src) {t. (src_name src, t) \<in> M})"

text \<open>Sources that keep out of each other's position metrics and of the builds' subjects.\<close>

definition benign :: "source list \<Rightarrow> bool" where
  "benign srcs \<longleftrightarrow> (\<forall>src \<in> set srcs. \<exists>k W. writes src k W \<and> k \<noteq> SkBuild \<and>
     (\<forall>src' \<in> set srcs. src' \<noteq> src \<longrightarrow> src_name src' \<noteq> src_name src \<and> W \<inter> set (src_metrics src') = {}))"

lemma benign_subset: "benign xs \<Longrightarrow> set ys \<subseteq> set xs \<Longrightarrow> benign ys"
  unfolding benign_def by (meson subsetD)

lemma three_benign: "benign [opencost_source x, database_size_source y, bucket_size_source z]"
proof -
  note names = opencost_source_def database_size_source_def bucket_size_source_def
  have "src_name (opencost_source x) = ''opencost''" "src_name (database_size_source y) = ''databases''"
      "src_name (bucket_size_source z) = ''buckets''" "src_metrics (opencost_source x) = container_metrics"
      "src_metrics (database_size_source y) = [db_metric]" "src_metrics (bucket_size_source z) = [bucket_metric]"
    by (simp_all add: names)
  note n = this
  let ?C = "insert running_seconds (fst ` set field_metrics)" and ?D = "{db_metric, db_allowance_metric}" and ?B = "{bucket_metric}"
  have "?C \<inter> set [db_metric] = {}" "?C \<inter> set [bucket_metric] = {}" "?D \<inter> set container_metrics = {}"
      "?D \<inter> set [bucket_metric] = {}" "?B \<inter> set container_metrics = {}" "?B \<inter> set [db_metric] = {}"
    by (simp_all add: field_metrics_def running_seconds_def db_metric_def db_allowance_metric_def bucket_metric_def container_metrics_def)
  note d = this
  define L where "L = [opencost_source x, database_size_source y, bucket_size_source z]"
  have "\<exists>k W. writes src k W \<and> k \<noteq> SkBuild \<and> (\<forall>src' \<in> set L. src' \<noteq> src \<longrightarrow> src_name src' \<noteq> src_name src \<and> W \<inter> set (src_metrics src') = {})"
    if src: "src \<in> set L" for src
  proof -
    consider "src = opencost_source x" | "src = database_size_source y" | "src = bucket_size_source z"
      using src by (auto simp: L_def)
    then show ?thesis
    proof cases
      case 1
      show ?thesis unfolding 1 L_def using d(1,2) by (intro exI[of _ SkContainer] exI[of _ ?C]) (auto simp: n container_writes)
    next
      case 2
      show ?thesis unfolding 2 L_def using d(3,4) by (intro exI[of _ SkDatabase] exI[of _ ?D]) (auto simp: n database_writes)
    next
      case 3
      show ?thesis unfolding 3 L_def using d(5,6) by (intro exI[of _ SkBucket] exI[of _ ?B]) (auto simp: n bucket_writes)
    qed
  qed
  then show ?thesis unfolding benign_def L_def[symmetric] by blast
qed

lemma default_sources_three:
  "\<exists>x y z. set (default_sources h url prom c) \<subseteq> set [opencost_source x, database_size_source y, bucket_size_source z]"
  by (rule exI, rule exI, rule exI) (auto simp: default_sources_def)

lemma default_sources_benign: "benign (default_sources h url prom c)"
  using default_sources_three benign_subset three_benign by metis

text \<open>What a step of the accounting may do to the samples of builds: nothing.\<close>

definition builds_apart :: "ledger \<Rightarrow> ledger \<Rightarrow> bool" where
  "builds_apart l l' \<longleftrightarrow> (\<forall>m b. build_samples l' m b = build_samples l m b) \<and>
     (\<forall>x \<in> set (lg_samples l'). x \<in> set (lg_samples l) \<or> (\<exists>k. of_subject l' k x \<and> fst k \<noteq> SkBuild))"

lemma builds_apart_refl: "builds_apart l l"
  by (simp add: builds_apart_def)

lemma builds_apart_trans:
  assumes "builds_apart a b" "builds_apart b c" "ledger_grows b c"
  shows "builds_apart a c"
  unfolding builds_apart_def
proof (intro conjI allI ballI)
  show "build_samples c m x = build_samples a m x" for m x using assms(1,2) by (simp add: builds_apart_def)
  show "x \<in> set (lg_samples a) \<or> (\<exists>k. of_subject c k x \<and> fst k \<noteq> SkBuild)" if "x \<in> set (lg_samples c)" for x
  proof (cases "x \<in> set (lg_samples b)")
    case True
    then show ?thesis using assms(1) of_subject_grows[OF assms(3)] unfolding builds_apart_def by blast
  next
    case False
    then show ?thesis using assms(2) that unfolding builds_apart_def by blast
  qed
qed

lemma source_adds_apart:
  assumes a: "source_adds src s i cat ms l l'" and ok: "lg_ok l" and w: "writes src k W" "k \<noteq> SkBuild"
  shows "builds_apart l l'"
proof -
  have other: "\<exists>ref. of_subject l' (k, ref) x" if x: "x \<in> set (lg_samples l')" "x \<notin> set (lg_samples l)" for x
  proof -
    obtain obs ob where o: "src_read src s (sm_start x) i = Inr (Some obs)" "ob \<in> set obs" "sample_of l' cat ob x"
      using a x unfolding source_adds_def by blast
    then have "ss_kind (ob_subject ob) = k" using w(1) unfolding writes_def by blast
    moreover have "of_subject l' (spec_key (ob_subject ob)) x" using o(3) unfolding sample_of_def of_subject_def by blast
    ultimately show ?thesis by (auto simp: spec_key_def)
  qed
  have l': "lg_ok l'" "ledger_grows l l'" using a by (simp_all add: source_adds_def)
  have "build_samples l' m b = build_samples l m b" for m b
  proof (rule build_samples_foreign[OF ok l'])
    fix x assume "x \<in> set (lg_samples l')" "x \<notin> set (lg_samples l)"
    then obtain ref where "of_subject l' (k, ref) x" using other by blast
    moreover have "(k, ref) \<noteq> build_key b" using w(2) by (simp add: build_key_def)
    ultimately show "\<exists>k. of_subject l' k x \<and> k \<noteq> build_key b" by blast
  qed
  moreover have "x \<in> set (lg_samples l) \<or> (\<exists>k. of_subject l' k x \<and> fst k \<noteq> SkBuild)" if x: "x \<in> set (lg_samples l')" for x
  proof (cases "x \<in> set (lg_samples l)")
    case False
    then obtain ref where "of_subject l' (k, ref) x" using other x by blast
    then show ?thesis using w(2) by (intro disjI2 exI[of _ "(k, ref)"]) simp
  qed simp
  ultimately show ?thesis unfolding builds_apart_def by blast
qed

definition now_measured :: "usage_settings \<Rightarrow> db \<Rightarrow> time \<Rightarrow> catalog \<Rightarrow> source \<Rightarrow> ledger \<Rightarrow> (string \<times> time) set" where
  "now_measured c s now cat src l =
     Pair (src_name src) ` set (measured_windows c s now cat src (pending_windows c now (src_metrics src) l) l)"

lemma source_step:
  assumes b: "benign srcs" "src \<in> set srcs" and w: "0 < uc_window c" and ok: "lg_ok l" "metrics_ok l"
    and g: "gapless_all c srcs l M" and r: "sample_source c s now (metric_ids l) src (r, l) = (r', l')"
  shows "lg_ok l' \<and> ledger_grows l l' \<and> builds_apart l l' \<and>
     gapless_all c srcs l' (M \<union> now_measured c s now (metric_ids l) src l)"
proof -
  let ?cat = "metric_ids l" and ?w = "uc_window c"
  let ?ms = "measured_windows c s now ?cat src (pending_windows c now (src_metrics src) l) l"
  have a: "source_adds src s ?w ?cat (set ?ms) l l'"
    using sample_windows_adds[OF _ ok(1)] r by (simp add: sample_source_def)
  obtain k W where kW: "writes src k W" "k \<noteq> SkBuild"
      "\<And>src'. src' \<in> set srcs \<Longrightarrow> src' \<noteq> src \<Longrightarrow> src_name src' \<noteq> src_name src \<and> W \<inter> set (src_metrics src') = {}"
    using b unfolding benign_def by blast
  have "gapless ?w l' (src_metrics src') {t. (src_name src', t) \<in> M \<union> now_measured c s now ?cat src l}"
    if s': "src' \<in> set srcs" for src'
  proof (cases "src' = src")
    case True
    have "gapless ?w l (src_metrics src) {t. (src_name src, t) \<in> M}" using g b(2) by (simp add: gapless_all_def)
    from gapless_pass[OF w this r ok(1) refl] show ?thesis
      by (simp add: True now_measured_def image_iff Un_def)
  next
    case False
    have pos: "positions l' (src_metrics src') = positions l (src_metrics src')"
      using source_foreign[OF a ok(2) kW(1)] kW(3)[OF s' False] by blast
    have gl: "gapless ?w l (src_metrics src') {t. (src_name src', t) \<in> M}" using g s' by (simp add: gapless_all_def)
    show ?thesis by (rule gapless_mono[OF gl pos]) blast
  qed
  then show ?thesis
    using a source_adds_apart[OF a ok(1) kW(1,2)] by (simp add: gapless_all_def source_adds_def)
qed

text \<open>The windows a pass over several sources measures.\<close>

fun pass_measured :: "usage_settings \<Rightarrow> db \<Rightarrow> time \<Rightarrow> catalog \<Rightarrow> source list \<Rightarrow> sample_run \<times> ledger \<Rightarrow> (string \<times> time) set" where
  "pass_measured c s now cat [] x = {}"
| "pass_measured c s now cat (src # srcs) x =
     now_measured c s now cat src (snd x) \<union> pass_measured c s now cat srcs (sample_source c s now cat src x)"

lemma pass_step:
  assumes b: "benign srcs" and w: "0 < uc_window c" and ok: "lg_ok l" "metrics_ok l" and g: "gapless_all c srcs l M"
    and r: "sample_once c s now srcs l = (r', l')"
  shows "lg_ok l' \<and> ledger_grows l l' \<and> builds_apart l l' \<and>
     gapless_all c srcs l' (M \<union> pass_measured c s now (metric_ids l) srcs (no_run, l))"
proof -
  let ?cat = "metric_ids l"
  have "lg_ok l' \<and> ledger_grows l1 l' \<and> builds_apart l1 l' \<and>
      gapless_all c srcs l' (N \<union> pass_measured c s now ?cat rest (r1, l1))"
    if "set rest \<subseteq> set srcs" "fold (\<lambda>src. sample_source c s now ?cat src) rest (r1, l1) = (r', l')"
      "lg_ok l1" "metrics_ok l1" "metric_ids l1 = ?cat" "gapless_all c srcs l1 N" for rest r1 l1 N
    using that
  proof (induction rest arbitrary: r1 l1 N)
    case Nil
    then show ?case by (simp add: builds_apart_refl)
  next
    case (Cons src rest)
    obtain r2 l2 where 2: "sample_source c s now ?cat src (r1, l1) = (r2, l2)" by fastforce
    from source_step[OF b _ w Cons.prems(3,4,6), of src s now r1 r2 l2] Cons.prems(1,5) 2
    have st: "lg_ok l2" "ledger_grows l1 l2" "builds_apart l1 l2"
        "gapless_all c srcs l2 (N \<union> now_measured c s now ?cat src l1)" by simp_all
    note m2 = metric_ids_grows[OF st(2)]
    from Cons.IH[OF _ _ st(1) _ _ st(4), of r2] Cons.prems 2 m2
    have "lg_ok l'" "ledger_grows l2 l'" "builds_apart l2 l'"
        "gapless_all c srcs l' (N \<union> now_measured c s now ?cat src l1 \<union> pass_measured c s now ?cat rest (r2, l2))" by simp_all
    with st 2 show ?case by (simp add: Un_assoc) (blast intro: ledger_grows_trans builds_apart_trans)
  qed
  from this[OF subset_refl r[unfolded sample_once_def] ok refl g] show ?thesis .
qed

text \<open>Every sample starts on the grid.\<close>

definition starts_on_grid :: "int \<Rightarrow> ledger \<Rightarrow> bool" where
  "starts_on_grid w l \<longleftrightarrow> (\<forall>x \<in> set (lg_samples l). on_grid w (sm_start x))"

lemma source_grid:
  assumes r: "sample_source c s now cat src (r, l) = (r', l')" and ok: "lg_ok l" and g: "starts_on_grid (uc_window c) l"
  shows "lg_ok l' \<and> starts_on_grid (uc_window c) l'"
proof -
  let ?ms = "measured_windows c s now cat src (pending_windows c now (src_metrics src) l) l"
  let ?s = "resume_from c now (src_metrics src) l"
  have a: "source_adds src s (uc_window c) cat (set ?ms) l l'"
    using sample_windows_adds[OF _ ok] r by (simp add: sample_source_def)
  obtain n where n: "?ms = run_from (uc_window c) ?s n"
    using measured_prefix[of c s now cat src _ l] pending_run[of c now "src_metrics src" l] by (metis take_run_from)
  have "on_grid (uc_window c) ?s"
    by (cases "last_recorded_window l (src_metrics src)") (simp_all add: resume_from_def on_grid_add[of _ _ 1, simplified])
  then have "on_grid (uc_window c) t" if "t \<in> set ?ms" for t using that run_from_grid unfolding n by blast
  then show ?thesis using a g unfolding source_adds_def starts_on_grid_def by blast
qed

lemma pass_grid:
  assumes "sample_once c s now srcs l = (r', l')" "lg_ok l" "starts_on_grid (uc_window c) l"
  shows "starts_on_grid (uc_window c) l'"
proof -
  have "starts_on_grid (uc_window c) l'"
    if "fold (\<lambda>src. sample_source c s now cat src) rest (r1, l1) = (r', l')" "lg_ok l1" "starts_on_grid (uc_window c) l1" for cat rest r1 l1
    using that
  proof (induction rest arbitrary: r1 l1)
    case (Cons src rest)
    obtain r2 l2 where 2: "sample_source c s now cat src (r1, l1) = (r2, l2)" by fastforce
    from source_grid[OF 2 Cons.prems(2,3)] Cons.IH[of r2 l2] Cons.prems(1) 2 show ?case by simp
  qed simp
  from this[OF assms(1)[unfolded sample_once_def] assms(2,3)] show ?thesis .
qed

section \<open>Passes of the recording\<close>

definition builds_ok :: "usage_build list \<Rightarrow> bool" where
  "builds_ok bs \<longleftrightarrow> keyed b_id bs \<and> (\<forall>b \<in> set bs. b_id b < 2 ^ 128)"

definition books_ok :: "int \<Rightarrow> usage_build list \<Rightarrow> ledger \<Rightarrow> bool" where
  "books_ok w bs l \<longleftrightarrow>
     (\<forall>x \<in> set (lg_samples l). \<forall>ref. of_subject l (SkBuild, ref) x \<longrightarrow>
        (\<exists>b \<in> set bs. ref = uuid_str (b_id b) \<and> ub_recorded b \<noteq> None)) \<and>
     (\<forall>b \<in> set bs. ub_recorded b \<noteq> None \<longrightarrow> (\<forall>m. metric_ids l m \<noteq> None \<longrightarrow>
        build_samples l m b = window_values m (window_quantities w b)))"

lemma build_key_inj: "builds_ok bs \<Longrightarrow> b \<in> set bs \<Longrightarrow> b' \<in> set bs \<Longrightarrow> build_key b = build_key b' \<Longrightarrow> b = b'"
  unfolding builds_ok_def build_key_def using uuid_str_inj keyed_unique by (metis prod.inject)

lemma unrecorded_none:
  assumes "books_ok w bs l" "builds_ok bs" "b \<in> set bs" "ub_recorded b = None" "x \<in> set (lg_samples l)"
  shows "\<not> of_subject l (build_key b) x"
proof
  assume "of_subject l (build_key b) x"
  then obtain b' where b': "b' \<in> set bs" "uuid_str (b_id b) = uuid_str (b_id b')" "ub_recorded b' \<noteq> None"
    using assms(1,5) unfolding books_ok_def build_key_def by blast
  then have "b = b'" using build_key_inj[OF assms(2,3) b'(1)] by (simp add: build_key_def)
  with b'(3) assms(4) show False by simp
qed

text \<open>Steps that leave the samples of builds alone keep the books.\<close>

lemma books_apart:
  assumes "books_ok w bs l" "builds_apart l l'" "ledger_grows l l'" "lg_ok l" "lg_ok l'"
  shows "books_ok w bs l'"
  unfolding books_ok_def
proof (intro conjI ballI allI impI)
  fix x ref assume x: "x \<in> set (lg_samples l')" "of_subject l' (SkBuild, ref) x"
  have "x \<in> set (lg_samples l)"
    using x assms(2) of_subject_unique[OF assms(5) x(2)] unfolding builds_apart_def by fastforce
  then show "\<exists>b \<in> set bs. ref = uuid_str (b_id b) \<and> ub_recorded b \<noteq> None"
    using assms(1) of_subject_kept[OF assms(4,5,3)] x(2) unfolding books_ok_def by blast
next
  fix b m assume "b \<in> set bs" "ub_recorded b \<noteq> None" "metric_ids l' m \<noteq> None"
  then show "build_samples l' m b = window_values m (window_quantities w b)"
    using assms(1,2) metric_ids_grows[OF assms(3)] by (simp add: books_ok_def builds_apart_def)
qed

lemma window_quantities_mark [simp]: "window_quantities w (b\<lparr>ub_recorded := t\<rparr>) = window_quantities w b"
proof -
  have "is_measured (b\<lparr>ub_recorded := t\<rparr>) = is_measured b" by (simp add: is_measured_def)
  moreover from this have "run_of (b\<lparr>ub_recorded := t\<rparr>) = run_of b" by (simp add: run_of_def)
  moreover have "ub_cpu (b\<lparr>ub_recorded := t\<rparr>) = ub_cpu b" "ub_memory (b\<lparr>ub_recorded := t\<rparr>) = ub_memory b" by simp_all
  ultimately show ?thesis by (simp only: window_quantities_def)
qed

lemma build_samples_mark [simp]: "build_samples l m (b\<lparr>ub_recorded := t\<rparr>) = build_samples l m b"
  by (simp add: build_samples_def build_key_def)

lemma record_step:
  assumes inv: "books_ok (uc_window c) bs l" "builds_ok bs" "lg_ok l" "metrics_ok l"
    and b: "b \<in> set bs" "ub_recorded b = None"
    and rec: "record_build c now (metric_ids l) b l = Inr (n, l')"
  shows "books_ok (uc_window c) (mark_recorded now b bs) l' \<and> builds_ok (mark_recorded now b bs) \<and> lg_ok l' \<and>
     ledger_grows l l' \<and> (\<forall>x \<in> set (lg_samples l'). x \<in> set (lg_samples l) \<or>
       on_grid (uc_window c) (sm_start x) \<and> (\<exists>m \<in> build_metrics. metric_ids l m = Some (sm_metric x)))"
proof -
  let ?bs = "mark_recorded now b bs" and ?w = "uc_window c"
  have key: "keyed b_id bs" using inv(2) by (simp add: builds_ok_def)
  note R = record_build_spec[OF rec inv(3,4) unrecorded_none[OF inv(1,2) b]]
  have marked: "set ?bs = {x \<in> set bs. b_id x \<noteq> b_id b} \<union> {b\<lparr>ub_recorded := Some now\<rparr>}"
    using keyed_unique[OF key _ b(1)] b(1) unfolding mark_recorded_def set_row_upd by auto
  have "map b_id ?bs = map b_id bs" unfolding mark_recorded_def by (rule map_key_row_upd) simp
  then have wf: "builds_ok ?bs" using inv(2) marked b(1) by (auto simp: builds_ok_def)
  have others: "build_samples l' m b' = build_samples l m b'" if b': "b' \<in> set bs" "b' \<noteq> b" for b' m
  proof (rule build_samples_foreign[OF inv(3)])
    show "lg_ok l'" "ledger_grows l l'" using R by simp_all
    fix x assume "x \<in> set (lg_samples l')" "x \<notin> set (lg_samples l)"
    then have "of_subject l' (build_key b) x" using R by blast
    moreover have "build_key b \<noteq> build_key b'" using build_key_inj[OF inv(2) b(1) b'(1)] b'(2) by blast
    ultimately show "\<exists>k. of_subject l' k x \<and> k \<noteq> build_key b'" by blast
  qed
  have "books_ok ?w ?bs l'" unfolding books_ok_def
  proof (intro conjI ballI allI impI)
    fix x ref assume x: "x \<in> set (lg_samples l')" "of_subject l' (SkBuild, ref) x"
    show "\<exists>b' \<in> set ?bs. ref = uuid_str (b_id b') \<and> ub_recorded b' \<noteq> None"
    proof (cases "x \<in> set (lg_samples l)")
      case True
      then have "of_subject l (SkBuild, ref) x" using of_subject_kept[OF inv(3) _ _ True] R x(2) by blast
      then obtain b' where "b' \<in> set bs" "ref = uuid_str (b_id b')" "ub_recorded b' \<noteq> None"
        using inv(1) True unfolding books_ok_def by blast
      moreover from this b(2) have "b_id b' \<noteq> b_id b" using keyed_unique[OF key _ b(1)] by metis
      ultimately show ?thesis unfolding marked by blast
    next
      case False
      then have "of_subject l' (build_key b) x" using R x(1) by blast
      then have "ref = uuid_str (b_id b)" using of_subject_unique[of l' _ x] R x(2) unfolding build_key_def by blast
      then show ?thesis unfolding marked by simp
    qed
  next
    fix b' m assume b': "b' \<in> set ?bs" "ub_recorded b' \<noteq> None" and m: "metric_ids l' m \<noteq> None"
    then have m': "metric_ids l m \<noteq> None" using R metric_ids_grows by metis
    from b'(1) consider "b' \<in> set bs" "b_id b' \<noteq> b_id b" | "b' = b\<lparr>ub_recorded := Some now\<rparr>" unfolding marked by blast
    then show "build_samples l' m b' = window_values m (window_quantities ?w b')"
    proof cases
      case 1
      then have "b' \<noteq> b" by blast
      then show ?thesis using others[OF 1(1)] inv(1) 1(1) b'(2) m' unfolding books_ok_def by simp
    next
      case 2
      then show ?thesis using R m' by simp
    qed
  qed
  with wf R show ?thesis by blast
qed

lemma next_pending_in: "next_pending t ex bs = Some b \<Longrightarrow> b \<in> set bs \<and> ub_recorded b = None"
  unfolding next_pending_def by (drule first_by_in) (auto simp: pending_build_def)

lemma record_loop_step:
  assumes "record_loop n c now t (metric_ids l) (r, bs, l) = (r', bs', l')"
    and "books_ok (uc_window c) bs l" "builds_ok bs" "lg_ok l" "metrics_ok l"
  shows "books_ok (uc_window c) bs' l' \<and> builds_ok bs' \<and> lg_ok l' \<and> ledger_grows l l' \<and>
     (\<forall>x \<in> set (lg_samples l'). x \<in> set (lg_samples l) \<or>
       on_grid (uc_window c) (sm_start x) \<and> (\<exists>m \<in> build_metrics. metric_ids l m = Some (sm_metric x)))"
  using assms
proof (induction n arbitrary: r bs l)
  case (Suc n)
  let ?cat = "metric_ids l"
  show ?case
  proof (cases "next_pending t (rr_failed r) bs")
    case None
    then show ?thesis using Suc.prems by simp
  next
    case (Some b)
    note b = next_pending_in[OF Some]
    show ?thesis
    proof (cases "record_build c now ?cat b l")
      case (Inl e)
      then show ?thesis using Suc.IH[OF _ Suc.prems(2-5)] Suc.prems(1) Some by simp
    next
      case (Inr y)
      obtain k l1 where y: "y = (k, l1)" by fastforce
      from record_step[OF Suc.prems(2-5) _ _ Inr[unfolded y]] b
      have st: "books_ok (uc_window c) (mark_recorded now b bs) l1" "builds_ok (mark_recorded now b bs)" "lg_ok l1" "ledger_grows l l1"
          "\<forall>x \<in> set (lg_samples l1). x \<in> set (lg_samples l) \<or>
            on_grid (uc_window c) (sm_start x) \<and> (\<exists>m \<in> build_metrics. ?cat m = Some (sm_metric x))" by simp_all
      have cat: "metric_ids l1 = ?cat" "metrics_ok l1" using metric_ids_grows[OF st(4)] Suc.prems(5) by simp_all
      have "record_loop n c now t (metric_ids l1) (r\<lparr>rr_builds := Suc (rr_builds r), rr_samples := rr_samples r + k\<rparr>, mark_recorded now b bs, l1) = (r', bs', l')"
        using Suc.prems(1) Some Inr y cat by simp
      from Suc.IH[OF this st(1-3) cat(2)] st(4,5) cat(1) show ?thesis
        using ledger_grows_trans[OF st(4)] by metis
    qed
  qed
qed auto

section \<open>Histories\<close>

record usage_world =
  uw_db :: db
  uw_builds :: "usage_build list"
  uw_ledger :: ledger
  uw_measured :: "(string \<times> time) set"

text \<open>
  The rest of the platform may change anything but the rows of recorded builds, which are finished
  and marked, and it marks none itself.
\<close>

definition builds_change :: "usage_build list \<Rightarrow> usage_build list \<Rightarrow> bool" where
  "builds_change bs bs' \<longleftrightarrow> builds_ok bs' \<and>
     {b \<in> set bs'. ub_recorded b \<noteq> None} = {b \<in> set bs. ub_recorded b \<noteq> None}"

inductive usage_step :: "usage_settings \<Rightarrow> usage_world \<Rightarrow> usage_world \<Rightarrow> bool" for c where
  sampled: "sample_once c (uw_db W) now (default_sources h url prom c) (uw_ledger W) = (r, l') \<Longrightarrow>
    usage_step c W (W\<lparr>uw_ledger := l', uw_measured := uw_measured W \<union>
      pass_measured c (uw_db W) now (metric_ids (uw_ledger W)) (default_sources h url prom c) (no_run, uw_ledger W)\<rparr>)"
| recorded: "record_settled_builds c now (uw_builds W) (uw_ledger W) = (r, bs, l') \<Longrightarrow>
    usage_step c W (W\<lparr>uw_builds := bs, uw_ledger := l'\<rparr>)"
| changed: "builds_change (uw_builds W) bs \<Longrightarrow> usage_step c W (W\<lparr>uw_db := s, uw_builds := bs\<rparr>)"

inductive_cases usage_stepE: "usage_step c W W'"

text \<open>Before anything was recorded.\<close>

definition fresh_world :: "usage_world \<Rightarrow> bool" where
  "fresh_world W \<longleftrightarrow> lg_samples (uw_ledger W) = [] \<and> lg_ok (uw_ledger W) \<and> metrics_ok (uw_ledger W) \<and>
     builds_ok (uw_builds W) \<and> (\<forall>b \<in> set (uw_builds W). ub_recorded b = None)"

inductive usage_reach :: "usage_settings \<Rightarrow> usage_world \<Rightarrow> bool" for c where
  start: "fresh_world W \<Longrightarrow> usage_reach c W"
| step: "usage_reach c W \<Longrightarrow> usage_step c W W' \<Longrightarrow> usage_reach c W'"

definition source_ids :: "usage_settings \<Rightarrow> (string \<times> string list) list" where
  "source_ids c = [(''opencost'', container_metrics)] @
     (if uc_db_namespace c = [] then [] else [(''databases'', [db_metric])]) @
     (if uc_bucket_namespace c = [] then [] else [(''buckets'', [bucket_metric])])"

lemma default_sources_ids: "map (\<lambda>src. (src_name src, src_metrics src)) (default_sources h url prom c) = source_ids c"
  by (simp add: default_sources_def source_ids_def opencost_source_def database_size_source_def bucket_size_source_def)

lemma source_ids_build: "(n, names) \<in> set (source_ids c) \<Longrightarrow> build_metrics \<inter> set names = {}"
  by (auto simp: source_ids_def build_metrics_def container_metrics_def db_metric_def bucket_metric_def split: if_splits)

definition positions_ok :: "usage_settings \<Rightarrow> ledger \<Rightarrow> (string \<times> time) set \<Rightarrow> bool" where
  "positions_ok c l M \<longleftrightarrow> (\<forall>(n, names) \<in> set (source_ids c). gapless (uc_window c) l names {t. (n, t) \<in> M})"

lemma positions_ok_all: "gapless_all c (default_sources h url prom c) l M \<longleftrightarrow> positions_ok c l M"
  by (simp add: gapless_all_def positions_ok_def flip: default_sources_ids[of h url prom])

definition usage_inv :: "usage_settings \<Rightarrow> usage_world \<Rightarrow> bool" where
  "usage_inv c W \<longleftrightarrow> lg_ok (uw_ledger W) \<and> metrics_ok (uw_ledger W) \<and> builds_ok (uw_builds W) \<and>
     books_ok (uc_window c) (uw_builds W) (uw_ledger W) \<and> positions_ok c (uw_ledger W) (uw_measured W) \<and>
     starts_on_grid (uc_window c) (uw_ledger W)"

lemma fresh_inv: "fresh_world W \<Longrightarrow> usage_inv c W"
  by (auto simp: fresh_world_def usage_inv_def books_ok_def positions_ok_def gapless_def positions_def starts_on_grid_def)

lemma books_change:
  assumes "books_ok w bs l" "builds_change bs bs'"
  shows "books_ok w bs' l"
proof -
  have e: "b \<in> set bs' \<and> ub_recorded b \<noteq> None \<longleftrightarrow> b \<in> set bs \<and> ub_recorded b \<noteq> None" for b
    using assms(2) unfolding builds_change_def by blast
  show ?thesis using assms(1) e unfolding books_ok_def by (metis (no_types, lifting))
qed

lemma usage_step_inv:
  assumes "usage_step c W W'" "usage_inv c W" "0 < uc_window c"
  shows "usage_inv c W'"
  using assms(1)
proof (cases rule: usage_step.cases)
  case (sampled now h url prom r l')
  let ?S = "default_sources h url prom c"
  from assms(2) have i: "lg_ok (uw_ledger W)" "metrics_ok (uw_ledger W)" "builds_ok (uw_builds W)"
      "books_ok (uc_window c) (uw_builds W) (uw_ledger W)" "gapless_all c ?S (uw_ledger W) (uw_measured W)"
      "starts_on_grid (uc_window c) (uw_ledger W)"
    unfolding usage_inv_def positions_ok_all by simp_all
  from pass_step[OF default_sources_benign assms(3) i(1,2,5) sampled(2)]
  have p: "lg_ok l'" "ledger_grows (uw_ledger W) l'" "builds_apart (uw_ledger W) l'"
      "positions_ok c l' (uw_measured W \<union> pass_measured c (uw_db W) now (metric_ids (uw_ledger W)) ?S (no_run, uw_ledger W))"
    unfolding positions_ok_all by simp_all
  have "books_ok (uc_window c) (uw_builds W) l'" by (rule books_apart[OF i(4) p(3,2) i(1) p(1)])
  moreover have "metrics_ok l'" using metric_ids_grows[OF p(2)] i(2) by simp
  moreover have "starts_on_grid (uc_window c) l'" by (rule pass_grid[OF sampled(2) i(1,6)])
  ultimately show ?thesis using i(3) p(1,4) unfolding usage_inv_def sampled(1) by simp
next
  case (recorded now r bs l')
  from assms(2) have i: "lg_ok (uw_ledger W)" "metrics_ok (uw_ledger W)" "builds_ok (uw_builds W)"
      "books_ok (uc_window c) (uw_builds W) (uw_ledger W)" "positions_ok c (uw_ledger W) (uw_measured W)"
      "starts_on_grid (uc_window c) (uw_ledger W)"
    unfolding usage_inv_def by simp_all
  from record_loop_step[OF recorded(2)[unfolded record_settled_builds_def] i(4,3,1,2)]
  have p: "books_ok (uc_window c) bs l'" "builds_ok bs" "lg_ok l'" "ledger_grows (uw_ledger W) l'"
      "\<forall>x \<in> set (lg_samples l'). x \<in> set (lg_samples (uw_ledger W)) \<or>
        on_grid (uc_window c) (sm_start x) \<and> (\<exists>m \<in> build_metrics. metric_ids (uw_ledger W) m = Some (sm_metric x))"
    by simp_all
  have "positions_ok c l' (uw_measured W)" unfolding positions_ok_def
  proof (intro ballI, clarify)
    fix n names assume n: "(n, names) \<in> set (source_ids c)"
    have "positions l' names = positions (uw_ledger W) names"
      using p(5) source_ids_build[OF n] by (intro positions_foreign[OF p(4) i(2)]) blast
    moreover have "gapless (uc_window c) (uw_ledger W) names {t. (n, t) \<in> uw_measured W}" using i(5) n by (auto simp: positions_ok_def)
    ultimately show "gapless (uc_window c) l' names {t. (n, t) \<in> uw_measured W}" using gapless_mono by blast
  qed
  moreover have "metrics_ok l'" using metric_ids_grows[OF p(4)] i(2) by simp
  moreover have "starts_on_grid (uc_window c) l'" using p(5) i(6) unfolding starts_on_grid_def by blast
  ultimately show ?thesis using p(1-3) unfolding usage_inv_def recorded(1) by simp
next
  case (changed bs s)
  then show ?thesis using assms(2) books_change unfolding usage_inv_def by (simp add: builds_change_def) blast
qed

lemma usage_reach_inv: "usage_reach c W \<Longrightarrow> 0 < uc_window c \<Longrightarrow> usage_inv c W"
  by (induction rule: usage_reach.induct) (auto intro: fresh_inv usage_step_inv)

end
