(* ===== verification/UsageHistory.thy ===== *)
theory UsageHistory
  imports UsageReach Billing
begin

text \<open>
  What the invariant of the accounting's histories gives: no window between two recorded ones was
  skipped, and a recorded build is in the ledger once, with exactly the shares of its windows. Each
  is applied to a history that starts with an empty ledger.
\<close>

section \<open>The claims\<close>

text \<open>
  C33. No window of a source is ever skipped. Whatever the sources answer, at whatever instants the
  passes run, and whatever builds are recorded and deployments change in between: every sample, of a
  build or of any source, starts on the grid under a key of its own, and between any two windows at which a
  position metric of a source is recorded each window was itself measured, that is read as usable and
  committed by some pass.
\<close>

theorem no_window_skipped:
  assumes "usage_reach c W" "0 < uc_window c"
  shows "keyed sample_key (lg_samples (uw_ledger W)) \<and> (\<forall>x \<in> set (lg_samples (uw_ledger W)). on_grid (uc_window c) (sm_start x)) \<and>
    (\<forall>(n, names) \<in> set (source_ids c). \<forall>a \<in> positions (uw_ledger W) names. \<forall>b \<in> positions (uw_ledger W) names.
       (\<forall>t. on_grid (uc_window c) t \<and> a \<le> t \<and> t \<le> b \<longrightarrow> (n, t) \<in> uw_measured W))"
  using usage_reach_inv[OF assms] unfolding usage_inv_def positions_ok_def gapless_def lg_ok_def starts_on_grid_def by auto

text \<open>
  C32. A build is billed once and exactly. Over any such history, a build that is not marked as
  recorded has no sample in the ledger; one that is has, for every catalogued quantity, precisely the
  values of the windows of its run, one sample a window, whatever retries, failures and repeated
  passes there were.
\<close>

theorem build_billed_once:
  assumes "usage_reach c W" "0 < uc_window c" "b \<in> set (uw_builds W)" "metric_ids (uw_ledger W) m = Some i"
  shows "build_samples (uw_ledger W) m b =
    (if ub_recorded b = None then [] else window_values m (window_quantities (uc_window c) b))"
proof -
  note inv = usage_reach_inv[OF assms(1,2), unfolded usage_inv_def]
  show ?thesis
  proof (cases "ub_recorded b = None")
    case True
    then have "\<forall>x \<in> set (lg_samples (uw_ledger W)). \<not> of_subject (uw_ledger W) (build_key b) x"
      using inv unrecorded_none assms(3) by blast
    then show ?thesis using True by (simp add: build_samples_def filter_empty_conv)
  next
    case False
    then obtain t where t: "ub_recorded b = Some t" by blast
    then show ?thesis using inv assms(3,4) unfolding books_ok_def by simp
  qed
qed

section \<open>A first pass\<close>

text \<open>A database that two windows find to hold 36 bytes, on a first pass; OpenCost is down.\<close>

definition one_database_http :: http where
  "one_database_http = \<lparr>ht_get = (\<lambda>url params. if starts_with url ''http://p'' then
         Inr (200, if starts_with (snd (hd params)) ''count'' then ''up'' else ''sizes'') else Inl ''down''),
     ht_json = (\<lambda>body. Some (JObj [(''data'', JObj [(''result'', JList
        (if body = ''up'' then [JObj []]
         else [JObj [(''metric'', JObj [(''datname'', JStr ''d_1'')]), (''value'', JList [JNull, JStr ''36''])]]))])])),
     ht_stamp = (\<lambda>t. []), ht_instant = (\<lambda>s. None)\<rparr>"

definition metered_usage :: usage_settings where
  "metered_usage = \<lparr>uc_window = 3600, uc_settle = 300, uc_lookback = 7200, uc_max_windows = 2, uc_environment = ''dev'',
     uc_builds_namespace = ''builds'', uc_db_namespace = ''db'', uc_bucket_namespace = []\<rparr>"

definition metered_db :: db where
  "metered_db = empty_db\<lparr>db_deps := [waiting_dep], db_databases := [\<lparr>s_id = 1, s_cipher = None, s_key_id = None, dd_dep = 7,
      dd_db_name = ''d_1'', dd_role_name = ''d_1'', dd_quota = QuotaOk, dd_size = None,
      dd_measured_at = None, dd_warned_threshold = None, dd_warned_at = None, dd_readonly_at = None,
      dd_blocked_at = None, dd_purge_after = None\<rparr>]\<rparr>"

definition first_books :: "string list \<Rightarrow> ledger" where
  "first_books names = \<lparr>lg_metrics = map (\<lambda>(i, n). demo_metric i n) (enumerate 1 names), lg_subjects = [], lg_samples = [],
     lg_rates = [], lg_next = 1\<rparr>"

abbreviation metered_sources :: "source list" where
  "metered_sources \<equiv> default_sources one_database_http ''http://o'' ''http://p'' metered_usage"

definition one_observation :: observation where
  "one_observation = \<lparr>ob_subject = \<lparr>ss_kind = SkDatabase, ss_ref = ''d_1'', ss_namespace = Some ''db'', ss_dep = Some 7\<rparr>,
     ob_quantities = [(db_metric, dec_mul 36 (hours_of 3600))]\<rparr>"

lemmas reading_simps = prom_query_def count_over_def starts_with_def dict_or_def list_or_def usable_or_none_def prometheus_client_def
  result_simps one_database_http_def

lemma strip_urls [simp]: "rstrip slash ''http://p'' = ''http://p''" "rstrip slash ''http://o'' = ''http://o''"
  by (simp_all add: rstrip_def slash_def)

lemma opencost_down:
  "src_read (opencost_source \<lparr>cs_client = opencost_client one_database_http ''http://o'' ''http://p'', cs_environment = e,
     cs_builds_namespace = b\<rparr>) s t w = Inr None"
proof -
  let ?c = "opencost_client one_database_http ''http://o'' ''http://p''"
  have "allocation_series_cover ?c x y = Inr True" for x y
    by (simp add: allocation_series_cover_def opencost_client_def allocation_series_def reading_simps)
  moreover have "\<exists>m. fetch_allocations ?c x y = Inl (ExternalErr m)" for x y
    by (simp add: fetch_allocations_def opencost_client_def UsageSources.unreadable_def Let_def reading_simps)
  ultimately have "\<exists>m. bindR (allocation_series_cover ?c x y) (\<lambda>ok. if ok then fetch_allocations ?c x y else Inl (UsageSources.unreadable [])) = Inl (ExternalErr m)" for x y
    by (simp add: result_simps)
  then have "usable_or_none (bindR (allocation_series_cover ?c x y) (\<lambda>ok. if ok then fetch_allocations ?c x y else Inl (UsageSources.unreadable []))) = Inr None" for x y
    unfolding usable_or_none_def by (metis (no_types, lifting) error.simps old.sum.simps(5))
  then have "read_window ?c x y = Inr None" for x y
    unfolding read_window_def by (simp add: result_simps)
  then show ?thesis by (simp add: opencost_source_def container_read_def result_simps)
qed

lemma batched_one [simp]: "batched chunk_size [x] = [[x]]" "batched chunk_size [] = []"
  by (subst batched.simps, simp add: chunk_size_def batched.simps[of _ "[]"])+

lemma one_entry:
  "db_entry (JObj [(''metric'', JObj [(''datname'', JStr ''d_1'')]), (''value'', JList [JNull, JStr ''36''])]) = Inr [(''d_1'', 36)]"
proof -
  have "decimal_of ''36'' = Some 36" by code_simp
  then show ?thesis by (simp add: db_entry_def as_dict_def metric_labels_def series_value_def dec_str_def result_simps)
qed

lemma one_known: "known_databases metered_db t [(''d_1'', 36)] = [(''d_1'', 7, 36, None)]"
  by (simp add: known_databases_def metered_db_def empty_db_def not_deleted_before_def plan_allowance_def row_get_def)

lemma one_database_read:
  "src_read (database_size_source \<lparr>dz_prom = prometheus_client one_database_http ''http://p'', dz_namespace = ''db''\<rparr>)
     metered_db t 3600 = Inr (Some [one_observation])"
proof -
  let ?b = "\<lparr>dz_prom = prometheus_client one_database_http ''http://p'', dz_namespace = ''db''\<rparr>"
  have "db_covers ?b t 3600 = Inr True" by (simp add: db_covers_def reading_simps)
  moreover have "db_sizes ?b t 3600 =
      Inr [JObj [(''metric'', JObj [(''datname'', JStr ''d_1'')]), (''value'', JList [JNull, JStr ''36''])]]"
    by (simp add: db_sizes_def reading_simps)
  ultimately show ?thesis
    by (simp add: database_size_source_def db_read_def result_simps usable_or_none_def or_raise_def one_entry one_known
        db_observation_def one_observation_def)
qed

lemma metered_pending:
  "last_recorded_window l [db_metric] = None \<Longrightarrow> pending_windows metered_usage 18300000000 [db_metric] l = [10800000000, 14400000000]"
  by (simp add: pending_windows_def resume_from_def recordable_until_def metered_usage_def align_def micros_def whole_seconds_def Let_def upt_rec)

lemma one_recorded:
  assumes "lg_subjects l = [] \<and> lg_next l = 1 \<or> (\<exists>r. lg_subjects l = [r] \<and> us_key r = (SkDatabase, ''d_1'') \<and> us_id r = 1)"
    and "sample_key ` set (lg_samples l) \<subseteq> {(1, 1, u)}" "u \<noteq> t"
  shows "\<exists>l' x n. record_observations t 3600 now (metric_ids (first_books [db_metric])) chunk_size [one_observation] l = Inr (n, l') \<and>
     lg_samples l' = lg_samples l @ [x] \<and> sample_key x = (1, 1, t) \<and>
     (\<exists>r. lg_subjects l' = [r] \<and> us_key r = (SkDatabase, ''d_1'') \<and> us_id r = 1)"
proof -
  have cat: "metric_ids (first_books [db_metric]) db_metric = Some 1"
    by (simp add: metric_ids_def first_books_def demo_metric_def)
  have ok: "\<exists>l1. upsert_subjects now chunk_size [ob_subject one_observation] l = ([(SkDatabase, ''d_1'') \<mapsto> 1], l1) \<and>
      lg_samples l1 = lg_samples l \<and> (\<exists>r. lg_subjects l1 = [r] \<and> us_key r = (SkDatabase, ''d_1'') \<and> us_id r = 1)"
    using assms(1)
    by (auto simp: upsert_subjects_def upsert_chunk_def merged_specs_def merge_spec_def upsert_row_def row_get_def row_upd_def
        one_observation_def spec_key_def fresh_subject_def us_key_def refresh_def)
  then obtain l1 where l1: "upsert_subjects now chunk_size [ob_subject one_observation] l = ([(SkDatabase, ''d_1'') \<mapsto> 1], l1)"
     "lg_samples l1 = lg_samples l" "\<exists>r. lg_subjects l1 = [r] \<and> us_key r = (SkDatabase, ''d_1'') \<and> us_id r = 1" by blast
  have "sample_key \<lparr>sm_subject = 1, sm_metric = 1, sm_start = t, sm_interval = 3600, sm_observed = now, sm_value = v\<rparr> \<notin> sample_key ` set (lg_samples l)" for v
    using assms(2,3) by (auto simp: sample_key_def)
  then have "\<exists>n. record_samples now (metric_ids (first_books [db_metric])) chunk_size
        [\<lparr>sr_subject = 1, sr_metric = db_metric, sr_start = t, sr_interval = 3600, sr_value = v\<rparr>] l1 =
      Inr (n, l1\<lparr>lg_samples := lg_samples l @ [\<lparr>sm_subject = 1, sm_metric = 1, sm_start = t, sm_interval = 3600, sm_observed = now, sm_value = v\<rparr>]\<rparr>)" for v
    by (simp add: record_samples_def record_chunk_def unknown_metrics_def cat to_sample_def insert_samples_def insert_sample_def l1(2))
  then obtain n where n: "record_samples now (metric_ids (first_books [db_metric])) chunk_size
        [\<lparr>sr_subject = 1, sr_metric = db_metric, sr_start = t, sr_interval = 3600, sr_value = dec_mul 36 (hours_of 3600)\<rparr>] l1 =
      Inr (n, l1\<lparr>lg_samples := lg_samples l @ [\<lparr>sm_subject = 1, sm_metric = 1, sm_start = t, sm_interval = 3600, sm_observed = now,
        sm_value = dec_mul 36 (hours_of 3600)\<rparr>]\<rparr>)" by blast
  have "spec_key (ob_subject one_observation) = (SkDatabase, ''d_1'')" "ob_quantities one_observation = [(db_metric, dec_mul 36 (hours_of 3600))]"
    by (simp_all add: one_observation_def spec_key_def)
  then have "record_observations t 3600 now (metric_ids (first_books [db_metric])) chunk_size [one_observation] l =
     Inr (n, l1\<lparr>lg_samples := lg_samples l @ [\<lparr>sm_subject = 1, sm_metric = 1, sm_start = t, sm_interval = 3600, sm_observed = now,
        sm_value = dec_mul 36 (hours_of 3600)\<rparr>]\<rparr>)"
    by (simp add: record_observations_def observe_chunk_def l1(1) rows_of_def result_simps n[simplified])
  then show ?thesis using l1(3) by (auto simp: sample_key_def)
qed

definition fresh_metered :: usage_world where
  "fresh_metered = \<lparr>uw_db = metered_db, uw_builds = [], uw_ledger = first_books [db_metric], uw_measured = {}\<rparr>"

lemma fresh_books: "distinct names \<Longrightarrow> lg_ok (first_books names) \<and> metrics_ok (first_books names) \<and> lg_samples (first_books names) = []"
  by (auto simp: lg_ok_def metrics_ok_def first_books_def comp_def demo_metric_def case_prod_unfold)

lemma first_ids: "metric_ids_of (first_books [n]) [n] = {1}"
proof -
  have "lg_metrics (first_books [n]) = [demo_metric 1 n]" "um_name (demo_metric 1 n) = n" "um_id (demo_metric 1 n) = 1"
    by (simp_all add: first_books_def demo_metric_def)
  then have "{m \<in> set (lg_metrics (first_books [n])). um_name m \<in> set [n]} = {demo_metric 1 n}" "um_id (demo_metric 1 n) = 1" by auto
  then show ?thesis by (simp only: metric_ids_of_def image_insert image_empty)
qed

lemma opencost_skipped: "sample_windows c s now cat (opencost_source \<lparr>cs_client = opencost_client one_database_http ''http://o'' ''http://p'',
    cs_environment = e, cs_builds_namespace = b\<rparr>) ws (r, l) = (r', l') \<Longrightarrow> l' = l"
  using opencost_down by (cases ws) (auto simp: record_source_window_def result_simps)

lemma first_pass:
  "\<exists>x y. lg_samples (snd (sample_once metered_usage metered_db 18300000000 metered_sources (first_books [db_metric]))) = [x, y] \<and>
     sample_key x = (1, 1, 10800000000) \<and> sample_key y = (1, 1, 14400000000)"
proof -
  let ?l = "first_books [db_metric]" and ?cat = "metric_ids (first_books [db_metric])" and ?now = "18300000000 :: time"
  let ?db = "database_size_source \<lparr>dz_prom = prometheus_client one_database_http ''http://p'', dz_namespace = ''db''\<rparr>"
  let ?oc = "opencost_source \<lparr>cs_client = opencost_client one_database_http ''http://o'' ''http://p'', cs_environment = ''dev'',
    cs_builds_namespace = Some ''builds''\<rparr>"
  have srcs: "metered_sources = [?oc, ?db]" by (simp add: default_sources_def metered_usage_def)
  obtain r0 l0 where "sample_source metered_usage metered_db ?now ?cat ?oc (no_run, ?l) = (r0, l0)" by fastforce
  moreover from this have "l0 = ?l" unfolding sample_source_def prod.case by (rule opencost_skipped)
  ultimately have oc: "sample_source metered_usage metered_db ?now ?cat ?oc (no_run, ?l) = (r0, ?l)" by simp
  have l: "lg_subjects ?l = [] \<and> lg_next ?l = 1" "lg_samples ?l = []" "last_recorded_window ?l [db_metric] = None"
    by (simp_all add: first_books_def last_recorded_window_def position_of_def Let_def)
  obtain l1 x n where 1: "record_observations 10800000000 3600 ?now ?cat chunk_size [one_observation] ?l = Inr (n, l1)"
     "lg_samples l1 = [x]" "sample_key x = (1, 1, 10800000000)" "\<exists>r. lg_subjects l1 = [r] \<and> us_key r = (SkDatabase, ''d_1'') \<and> us_id r = 1"
    using one_recorded[of ?l 0 10800000000 ?now] l(1,2) by (auto simp del: One_nat_def)
  obtain l2 y m where 2: "record_observations 14400000000 3600 ?now ?cat chunk_size [one_observation] l1 = Inr (m, l2)"
     "lg_samples l2 = [x, y]" "sample_key y = (1, 1, 14400000000)"
    using one_recorded[of l1 10800000000 14400000000 ?now] 1(2-4) by (auto simp del: One_nat_def)
  have w: "uc_window metered_usage = 3600" "src_metrics ?db = [db_metric]" by (simp_all add: metered_usage_def database_size_source_def)
  have "record_source_window metered_usage metered_db ?now ?cat ?db 10800000000 ?l = Inr (Some (n, l1))"
    "record_source_window metered_usage metered_db ?now ?cat ?db 14400000000 l1 = Inr (Some (m, l2))"
    unfolding record_source_window_def w one_database_read by (simp_all add: 1(1) 2(1))
  then have "snd (sample_source metered_usage metered_db ?now ?cat ?db (r0, ?l)) = l2"
    unfolding sample_source_def prod.case w metered_pending[OF l(3)] by simp
  then have "snd (sample_once metered_usage metered_db ?now metered_sources ?l) = l2"
    unfolding sample_once_def srcs by (simp only: fold.simps o_apply id_apply oc)
  with 1 2 show ?thesis by blast
qed

theorem no_window_skipped_witness:
  "\<exists>W. usage_reach metered_usage W \<and> positions (uw_ledger W) [db_metric] = {10800000000, 14400000000} \<and>
     keyed sample_key (lg_samples (uw_ledger W)) \<and> (''databases'', 10800000000) \<in> uw_measured W \<and> (''databases'', 14400000000) \<in> uw_measured W"
proof -
  let ?l = "first_books [db_metric]"
  obtain r l' where s: "sample_once metered_usage metered_db 18300000000 metered_sources ?l = (r, l')" by fastforce
  let ?M = "pass_measured metered_usage metered_db 18300000000 (metric_ids ?l) metered_sources (no_run, ?l)"
  let ?W = "fresh_metered\<lparr>uw_ledger := l', uw_measured := uw_measured fresh_metered \<union> ?M\<rparr>"
  note books = fresh_books[of "[db_metric]", simplified]
  have W0: "uw_db fresh_metered = metered_db" "uw_ledger fresh_metered = ?l" "uw_builds fresh_metered = []"
    by (simp_all add: fresh_metered_def)
  have "usage_reach metered_usage fresh_metered"
    using books by (intro usage_reach.start) (simp add: fresh_world_def W0 builds_ok_def)
  from usage_reach.step[OF this usage_step.sampled[of metered_usage fresh_metered 18300000000 one_database_http "''http://o''" "''http://p''" r l', unfolded W0, OF s]]
  have R: "usage_reach metered_usage ?W" .
  have g: "0 < uc_window metered_usage" "on_grid (uc_window metered_usage) 10800000000" "on_grid (uc_window metered_usage) 14400000000"
    by (simp_all add: on_grid_def metered_usage_def micros_def)
  have "gapless_all metered_usage metered_sources ?l {}" using books by (simp add: gapless_all_def gapless_def positions_def)
  from pass_step[OF default_sources_benign g(1) _ _ this s] books have "lg_metrics l' = lg_metrics ?l" by (simp add: ledger_grows_def)
  then have ids: "metric_ids_of l' [db_metric] = {1}" using first_ids by (simp only: metric_ids_of_def)
  obtain x y where "lg_samples l' = [x, y]" "sample_key x = (1, 1, 10800000000)" "sample_key y = (1, 1, 14400000000)"
    using first_pass unfolding s snd_conv by blast
  then have "lg_samples l' = [x, y]" "sm_metric x = 1" "sm_metric y = 1" "sm_start x = 10800000000" "sm_start y = 14400000000"
    by (simp_all add: sample_key_def)
  note xy = this
  have "{z \<in> set [x, y]. sm_metric z \<in> {1}} = {x, y}" using xy(2,3) by auto
  then have P: "positions l' [db_metric] = {10800000000, 14400000000}"
    unfolding positions_def xy(1) ids by (simp only: image_insert image_empty xy(4,5))
  have "(''databases'', [db_metric]) \<in> set (source_ids metered_usage)" by (simp add: source_ids_def metered_usage_def)
  note n = this
  have k: "keyed sample_key (lg_samples (uw_ledger ?W))" and
    m: "\<forall>a \<in> positions (uw_ledger ?W) [db_metric]. \<forall>b \<in> positions (uw_ledger ?W) [db_metric].
       (\<forall>t. on_grid (uc_window metered_usage) t \<and> a \<le> t \<and> t \<le> b \<longrightarrow> (''databases'', t) \<in> uw_measured ?W)"
    using no_window_skipped[OF R g(1)] bspec[OF conjunct2[OF conjunct2[OF no_window_skipped[OF R g(1)]]] n] unfolding prod.case by (blast, blast)
  have P': "positions (uw_ledger ?W) [db_metric] = {10800000000, 14400000000}" using P by simp
  then have "10800000000 \<in> positions (uw_ledger ?W) [db_metric]" "14400000000 \<in> positions (uw_ledger ?W) [db_metric]" by simp_all
  then have "(''databases'', 10800000000) \<in> uw_measured ?W" "(''databases'', 14400000000) \<in> uw_measured ?W"
    using m g(2,3) by (meson order_refl)+
  with R P' k show ?thesis by blast
qed

section \<open>A recorded build\<close>

definition build_names :: "string list" where
  "build_names = [''cpu_request_cores_avg'', ''cpu_limit_cores_avg'', ''ram_request_bytes_avg'', ''ram_limit_bytes_avg'',
     ''running_seconds'', ''cpu_core_hours'', ''ram_byte_hours'', ''cpu_usage_cores_avg'', ''ram_usage_bytes_avg'']"

lemma build_names: "set build_names = build_metrics" "distinct build_names"
  by (simp_all add: build_names_def build_metrics_def)

definition built_world :: usage_world where
  "built_world = \<lparr>uw_db = empty_db, uw_builds = [demo_build], uw_ledger = first_books build_names, uw_measured = {}\<rparr>"

lemma first_catalog: "metric_ids (first_books names) m = None \<longleftrightarrow> m \<notin> set names"
proof -
  have "fst ` set (rev (map (\<lambda>m. (um_name m, um_id m)) (lg_metrics (first_books names)))) = set names"
    by (simp add: first_books_def demo_metric_def image_image case_prod_unfold image_comp comp_def)
       (metis image_set map_snd_enumerate)
  then show ?thesis unfolding metric_ids_def map_of_eq_None_iff by simp
qed

lemma demo_build_recordable: "\<exists>n l'. record_build demo_usage now (metric_ids (first_books build_names)) demo_build (first_books build_names) = Inr (n, l')"
proof -
  let ?l = "first_books build_names" and ?us = "window_quantities (uc_window demo_usage) demo_build"
  obtain i l1 where "upsert_subject now (build_spec demo_usage demo_build) ?l = Inr (i, l1)"
    by (simp add: upsert_subject_def upsert_subjects_def upsert_chunk_def merged_specs_def merge_spec_def upsert_row_def row_get_def
        first_books_def build_spec_def spec_key_def Let_def)
  moreover have "catalogued (metric_ids ?l) (build_rows (uc_window demo_usage) i ?us)"
    using build_quantities_names unfolding catalogued_rows first_catalog build_names by blast
  ultimately show ?thesis
    using record_samples_eq[OF _ chunk_size_pos] by (auto simp: record_build_def Let_def record_samples_def batched.simps)
qed

lemma settled_build:
  "next_pending 10800000000 [] [demo_build] = Some demo_build" "next_pending t x (mark_recorded now demo_build [demo_build]) = None"
  by (simp_all add: next_pending_def pending_build_def demo_build_def greatest_def first_by_def mark_recorded_def row_upd_def)

lemma demo_pass:
  "\<exists>r l'. record_settled_builds demo_usage 11100000000 [demo_build] (first_books build_names) =
     (r, [demo_build\<lparr>ub_recorded := Some 11100000000\<rparr>], l')"
proof -
  obtain n l' where r: "record_build demo_usage 11100000000 (metric_ids (first_books build_names)) demo_build (first_books build_names) = Inr (n, l')"
    using demo_build_recordable by blast
  have "align (uc_window demo_usage) (11100000000 - micros (uc_settle demo_usage)) = 10800000000"
    by (simp add: demo_usage_def align_def micros_def whole_seconds_def Let_def)
  note settled = this
  have max: "max_builds = Suc (Suc 98)" by (simp add: max_builds_def)
  have "mark_recorded 11100000000 demo_build [demo_build] = [demo_build\<lparr>ub_recorded := Some 11100000000\<rparr>]"
    by (simp add: mark_recorded_def row_upd_def)
  then show ?thesis
    using settled_build(2)[of 10800000000 _ 11100000000] unfolding record_settled_builds_def settled max record_loop.simps
    by (simp add: no_record_run_def settled_build(1) r)
qed

theorem build_billed_once_witness:
  "\<exists>W. usage_reach demo_usage W \<and> uw_builds W = [demo_build\<lparr>ub_recorded := Some 11100000000\<rparr>] \<and>
     build_samples (uw_ledger W) ''running_seconds'' demo_build = [(0, 6), (3600000000, 6)]"
proof -
  obtain r l' where p: "record_settled_builds demo_usage 11100000000 [demo_build] (first_books build_names) =
     (r, [demo_build\<lparr>ub_recorded := Some 11100000000\<rparr>], l')" using demo_pass by blast
  let ?W = "built_world\<lparr>uw_builds := [demo_build\<lparr>ub_recorded := Some 11100000000\<rparr>], uw_ledger := l'\<rparr>"
  have W0: "uw_ledger built_world = first_books build_names" "uw_builds built_world = [demo_build]" by (simp_all add: built_world_def)
  note books = fresh_books[OF build_names(2)]
  have "usage_reach demo_usage built_world"
    using books by (intro usage_reach.start) (simp add: fresh_world_def W0 builds_ok_def demo_build_def)
  from usage_reach.step[OF this usage_step.recorded[of demo_usage 11100000000 built_world, unfolded W0, OF p]]
  have R: "usage_reach demo_usage ?W" .
  have "books_ok (uc_window demo_usage) [demo_build] (first_books build_names)" "builds_ok [demo_build]"
    using books by (simp_all add: books_ok_def builds_ok_def demo_build_def)
  from record_loop_step[OF p[unfolded record_settled_builds_def] this] books
  have g: "lg_metrics l' = lg_metrics (first_books build_names)" by (simp add: ledger_grows_def)
  then have "metric_ids l' ''running_seconds'' \<noteq> None"
    using first_catalog[of build_names] by (simp add: metric_ids_def build_names_def)
  then obtain i where i: "metric_ids l' ''running_seconds'' = Some i" by blast
  have "window_starts 3600 (align 3600 3594000000) 3606000000 = [0, 3600000000]"
    by (simp add: window_starts.simps align_def micros_def whole_seconds_def Let_def)
  moreover have "dec_seconds 6000000 = 6" using dec_round_exact[of 6 6 0] by (simp add: dec_seconds_def dec_div_def)
  ultimately have "window_values ''running_seconds'' (window_quantities 3600 demo_build) = [(0, 6), (3600000000, 6)]"
    by (simp add: window_values_def window_quantities_def demo_build_run overlap_of_def micros_def Let_def)
  with build_billed_once[OF R, of "demo_build\<lparr>ub_recorded := Some 11100000000\<rparr>" "''running_seconds''" i] i 
  have "build_samples l' ''running_seconds'' demo_build = [(0, 6), (3600000000, 6)]" by (simp add: demo_usage_def)
  with R show ?thesis by (intro exI[of _ ?W]) simp
qed

end
