(* ===== verification/Worker.thy ===== *)
theory Worker
  imports Cluster
begin

text \<open>
  The reconcile worker, \<^verbatim>\<open>api/app/worker.py\<close>: one turn claims a job, reconciles its deployment and
  reports the outcome under the worker's own id. The pool of processes and its signals are not modelled;
  \<open>turns n\<close> is \<open>n\<close> iterations of \<^verbatim>\<open>_worker_loop\<close>, whichever processes run them.
\<close>

section \<open>One turn\<close>







section \<open>What a reconcile leaves of the other tables\<close>








section \<open>The queue runs dry\<close>





definition closed_row :: "time \<Rightarrow> job_status \<Rightarrow> string option \<Rightarrow> time \<Rightarrow> string \<Rightarrow> job \<Rightarrow> job" where
  "closed_row now status err claimed worker j =
     (claim_row claimed worker j)\<lparr>job_status := status, job_last_error := err, job_locked_by := None,
        job_locked_at := None, job_updated_at := now\<rparr>"

lemma closed_row_simps [simp]:
  "job_id (closed_row now status err claimed worker j) = job_id j"
  "job_dep (closed_row now status err claimed worker j) = job_dep j"
  "job_open (closed_row now status err claimed worker j) \<longleftrightarrow> status \<in> {JQueued, JRunning}"
  "status \<noteq> JRunning \<Longrightarrow> lock_ok (closed_row now status err claimed worker j)"
  by (simp_all add: closed_row_def job_open_def lock_ok_def)








section \<open>Liveness\<close>




end
