(* ===== verification/Spec2Isabelle.thy ===== *)
theory Spec2Isabelle
  imports Billing BuildJobs Builds Catalog CatalogApply CatalogLaws CatalogRuns Cluster Codec Decimal
    DeploymentPower Deployments Effects HelmValues HostnamePaths Hostnames Interfaces Jobs Json
    Models Naming NetworkPolicy ObjectStorage PostRender Prelude ProductGuards Products Provisioner
    PyStr Reconcile RegistryTokens Requests Retention Rx Shop TemplateValues TenantDb UsageBuilds
    UsageHistory UsageLedger UsagePosition UsageReach UsageSampler UsageSources UsageSystem Users
    VarCrypto Vars Worker
begin

text \<open>
  A verification development for the control plane of Freepod: the Python service under
  \<^verbatim>\<open>src/api/app\<close>, which runs its users' applications as Helm releases on a Kubernetes cluster.

  \<^bold>\<open>The program.\<close> A user's request (\<^verbatim>\<open>api/app/services\<close>, behind the FastAPI routers of \<^verbatim>\<open>api/app/api\<close>)
  changes rows of a PostgreSQL database in one transaction and queues a reconcile job. Worker processes
  claim the jobs (\<^verbatim>\<open>worker.py\<close>) and bring the cluster into line with the rows (\<^verbatim>\<open>services/reconcile.py\<close>),
  through \<^verbatim>\<open>kubectl\<close> and \<^verbatim>\<open>helm\<close>, the object store and the tenant database cluster. Other workers run
  the builds of user images (\<^verbatim>\<open>build_worker.py\<close>), keep the quotas of tenant databases (\<^verbatim>\<open>db_worker.py\<close>)
  and record what everything used (\<^verbatim>\<open>services/usage\<close>). Mollie reports payments to a webhook. The parts
  share nothing but the database, so the model's state is the record \<open>db\<close> of its tables (\<open>Models\<close>) and
  every operation is a function from it to a result.

  \<^bold>\<open>Conventions.\<close> A table is a list of rows in the order they were inserted; \<open>row_get\<close>, \<open>row_upd\<close> and
  \<open>first_by\<close> (\<open>Prelude\<close>) are the lookup, the update and the \<^verbatim>\<open>ORDER BY .. LIMIT 1\<close> of the queries. A
  request that raises is \<open>Inl\<close> of an \<open>error\<close>, whose constructors are the exception classes the code
  raises, and leaves the tables alone, since its transaction is rolled back. Work outside the database is an
  \<open>act\<close> (\<open>Effects\<close>): a function of a world that holds a log of the commands run, whose answers come from
  a parameter \<open>outside\<close>, so that a theorem about an act holds for whatever the cluster answers. Time is
  a number of microseconds since the epoch, a UUID its 128-bit number, an unbounded Python integer an
  \<open>int\<close>, a \<^verbatim>\<open>Decimal\<close> a rational with the rounding of Python's default context written out (\<open>Decimal\<close>). A
  string is a list of characters below 256; patterns are regular expressions of \<open>Rx\<close>, matched by
  derivatives.

  \<^bold>\<open>The theories\<close>, with the files of \<^verbatim>\<open>src/api/app\<close> they model:
  \<^item> \<open>Prelude\<close>, \<open>Interfaces\<close>, \<open>PyStr\<close>, \<open>Rx\<close>, \<open>Codec\<close>, \<open>Decimal\<close>, \<open>Json\<close>: results, tables, the contracts
    between components as locales, and what is used of Python's strings, patterns, codecs, decimals and
    JSON values.
  \<^item> \<open>Models\<close>: the tables (\<^verbatim>\<open>models/core.py\<close>, \<^verbatim>\<open>models/billing.py\<close>).
  \<^item> \<open>Jobs\<close> (\<^verbatim>\<open>services/jobs.py\<close>): the queue, its claims and leases. The invariant is that a deployment has
    at most one open job; two workers never hold the same job within a lease.
  \<^item> \<open>TemplateValues\<close>, \<open>Naming\<close>, \<open>Hostnames\<close>, \<open>HostnamePaths\<close>, \<open>Users\<close>, \<open>VarCrypto\<close>, \<open>Vars\<close>, \<open>Retention\<close>:
    the rules the requests rest on, one service file each (\<^verbatim>\<open>template_values.py\<close>, \<^verbatim>\<open>reconcile_naming.py\<close>,
    \<^verbatim>\<open>hostnames.py\<close> and \<^verbatim>\<open>util.py\<close>, \<^verbatim>\<open>users.py\<close>, \<^verbatim>\<open>var_crypto.py\<close>, \<^verbatim>\<open>vars.py\<close>, \<^verbatim>\<open>image_retention.py\<close>).
  \<^item> \<open>Deployments\<close>, \<open>DeploymentPower\<close>: every operation of \<^verbatim>\<open>deployments.py\<close> and \<^verbatim>\<open>power.py\<close>; \<open>Requests\<close> proves
    what they guarantee together (well-formed tables, images that stay retained, hostnames that belong to
    their owner), \<open>Shop\<close> applies it to a small platform.
  \<^item> \<open>Products\<close> (\<^verbatim>\<open>products.py\<close>, \<^verbatim>\<open>templates.py\<close>, \<^verbatim>\<open>listings.py\<close>) and \<open>ProductGuards\<close>: what is offered, and that
    no request takes from the catalog what it declares. \<open>Catalog\<close> (\<^verbatim>\<open>catalog.py\<close>, \<^verbatim>\<open>images.py\<close>): the documents of
    \<^verbatim>\<open>products/catalog\<close>, their validation and loading; \<open>CatalogApply\<close>: the reconciler, whose steps \<open>CatalogLaws\<close>
    describes one by one and \<open>CatalogRuns\<close> composes: a run declares exactly the documents, a second one
    does nothing, the history of versions is kept, and a folder cannot be renamed. The state is the
    record \<open>store\<close>; a dry run and a failed run leave it as it was.
  \<^item> \<open>HelmValues\<close>, \<open>PostRender\<close>, \<open>NetworkPolicy\<close>, \<open>Provisioner\<close>, \<open>ObjectStorage\<close>, \<open>TenantDb\<close>, \<open>Reconcile\<close>:
    what one reconcile does, from the values of the chart to the order of the commands (\<^verbatim>\<open>reconcile.py\<close>,
    \<^verbatim>\<open>app_access.py\<close> as far as it supplies values, \<^verbatim>\<open>post_render.py\<close>, \<^verbatim>\<open>egress_gate.py\<close>, \<^verbatim>\<open>network_policy.py\<close>,
    \<^verbatim>\<open>provisioner.py\<close>, \<^verbatim>\<open>proc.py\<close>, \<^verbatim>\<open>garage.py\<close>, \<^verbatim>\<open>object_storage.py\<close>, \<^verbatim>\<open>postgres_admin.py\<close>,
    \<^verbatim>\<open>relational_storage.py\<close>, \<^verbatim>\<open>db_worker.py\<close>); \<open>Cluster\<close> is a cluster on which the claims are applied.
  \<^item> \<open>Worker\<close> (\<^verbatim>\<open>worker.py\<close>): a turn of the worker, and that turns empty the queue.
  \<^item> \<open>Billing\<close> (\<^verbatim>\<open>subscriptions.py\<close>, \<^verbatim>\<open>mollie.py\<close>, \<^verbatim>\<open>api/webhooks.py\<close>): subscriptions and payments.
  \<^item> \<open>BuildJobs\<close>, \<open>Builds\<close> (\<^verbatim>\<open>artifacts.py\<close>, \<^verbatim>\<open>build_jobs.py\<close>, \<^verbatim>\<open>builds.py\<close>, \<^verbatim>\<open>build_worker.py\<close>): the Job of a build
    and the state machine of its row, refined by every pass of the worker.
  \<^item> \<open>RegistryTokens\<close> (\<^verbatim>\<open>registry_tokens.py\<close>): which token the registry's clients get.
  \<^item> \<open>UsageLedger\<close>, \<open>UsageSampler\<close>, \<open>UsageSources\<close>, \<open>UsageBuilds\<close> (\<^verbatim>\<open>services/usage\<close>): the append-only ledger,
    the sampler and its three sources, and the usage of builds; \<open>UsagePosition\<close>, \<open>UsageSystem\<close>,
    \<open>UsageReach\<close> and \<open>UsageHistory\<close> prove that no window is skipped and no build billed twice.

  \<^bold>\<open>The interfaces\<close> (\<open>Interfaces\<close>). \<open>guarded\<close> is a transactional service that keeps an invariant; it is
  interpreted on the job queue, the accounts, the deployment requests and the product services. \<open>job_queue\<close> is what a service
  that requests work relies on and \<open>work_queue\<close> what a claim loop relies on, both provided by \<open>Jobs\<close>.

  \<^bold>\<open>Parameters.\<close> Code that is not in the repository is an argument: the cluster and the other external
  programs (\<open>outside\<close>), the HTTP clients, the JSON, YAML and instant parsers, SHA-256 and the ciphers, DNS,
  the JSON Schema library's checks, the payment provider. Where a theorem needs a law of one of them (a
  cipher decrypts what it encrypted, a schema accepts what it accepted), the law is a named hypothesis
  and the theorem's witness supplies an instance.

  \<^bold>\<open>Bounds and fuel.\<close> Loops of the code are recursions on their data or have a measure. Fuel appears where
  the code itself counts (at most 100 builds of a recording pass) or where the number of turns is the
  claim (\<open>turns n\<close> of the worker, shown to empty the queue when \<open>n\<close> is the backlog). Integers do not
  overflow in Python; the only widths are those of UUIDs and of the tokens drawn, written out as
  powers of two.

  \<^bold>\<open>What is not modelled.\<close> The FastAPI routers beyond those named above only translate requests to the services;
  \<^verbatim>\<open>cli.py\<close> and the user's \<^verbatim>\<open>cli/src/freepod\<close> are front ends of the same API; sign-in and the OIDC broker,
  log streaming, mail and the processing of images are calls of third-party libraries; migrations are
  generated from the models; plans are rows that \<open>Billing\<close> reads. The catalog's JSON Schema for editors and the
  printing of a curated document are left out. Concurrency inside one transaction is left to PostgreSQL: an operation is
  one step, and what can come between two steps is any other operation.
\<close>

end
